(* ===== verification/Prelude.thy ===== *)
theory Prelude
  imports Main "HOL-Library.Word" "HOL-Library.List_Lexorder" "HOL-Library.Char_ord"
    "HOL-Library.Code_Target_Numeral"
begin

text \<open>
  Shared vocabulary of the development: fixed-width integers, byte strings, the result type of
  fallible Rust code with its bind and iteration combinators, the little- and big-endian codecs
  of fixed-width integers with their round trips, and the generic list lemmas the components use.
\<close>

unbundle bit_operations_syntax

named_theorems codec_simps \<open>encoders, decoders and their round trips\<close>
named_theorems result_simps \<open>case rules of the result combinators\<close>

type_synonym u8 = "8 word"
type_synonym u16 = "16 word"
type_synonym u32 = "32 word"
type_synonym u64 = "64 word"
type_synonym u128 = "128 word"
type_synonym bytes = "u8 list"

section \<open>Results\<close>

text \<open>
  \<open>Result<T, E>\<close> is \<open>'e + 'a\<close> with \<open>Inl\<close> the error. \<open>res_bind\<close> is the question-mark operator;
  \<open>res_map\<close> is a loop that pushes the result of a fallible step per element; \<open>res_fold\<close> is a loop
  that threads a state and stops at the first error.
\<close>

definition res_bind :: "'e + 'a \<Rightarrow> ('a \<Rightarrow> 'e + 'b) \<Rightarrow> 'e + 'b" where
  "res_bind m f = (case m of Inl e \<Rightarrow> Inl e | Inr x \<Rightarrow> f x)"

lemma res_bind_simps [simp, result_simps]:
  "res_bind (Inl e) f = Inl e"
  "res_bind (Inr x) f = f x"
  by (simp_all add: res_bind_def)

lemma res_bind_Inr_iff [result_simps]:
  "res_bind m f = Inr y \<longleftrightarrow> (\<exists>x. m = Inr x \<and> f x = Inr y)"
  by (cases m) auto

fun res_map :: "('a \<Rightarrow> 'e + 'b) \<Rightarrow> 'a list \<Rightarrow> 'e + 'b list" where
  "res_map f [] = Inr []"
| "res_map f (x # xs) = res_bind (f x) (\<lambda>y. res_bind (res_map f xs) (\<lambda>ys. Inr (y # ys)))"

fun res_fold :: "('a \<Rightarrow> 's \<Rightarrow> 'e + 's) \<Rightarrow> 'a list \<Rightarrow> 's \<Rightarrow> 'e + 's" where
  "res_fold f [] s = Inr s"
| "res_fold f (x # xs) s = res_bind (f x s) (res_fold f xs)"

definition map_err :: "('e \<Rightarrow> 'f) \<Rightarrow> 'e + 'a \<Rightarrow> 'f + 'a" where
  "map_err g m = (case m of Inl e \<Rightarrow> Inl (g e) | Inr x \<Rightarrow> Inr x)"

definition ok_or :: "'e \<Rightarrow> 'a option \<Rightarrow> 'e + 'a" where
  "ok_or e m = (case m of None \<Rightarrow> Inl e | Some x \<Rightarrow> Inr x)"

lemma map_err_simps [simp, result_simps]:
  "map_err g (Inl e) = Inl (g e)"
  "map_err g (Inr x) = Inr x"
  by (simp_all add: map_err_def)

lemma ok_or_simps [simp, result_simps]:
  "ok_or e None = Inl e"
  "ok_or e (Some x) = Inr x"
  by (simp_all add: ok_or_def)

lemma map_err_Inr_iff [result_simps]: "map_err g m = Inr x \<longleftrightarrow> m = Inr x"
  by (cases m) auto

lemma ok_or_Inr_iff [result_simps]: "ok_or e m = Inr x \<longleftrightarrow> m = Some x"
  by (cases m) auto

lemma res_map_Inr: "(\<And>x. x \<in> set xs \<Longrightarrow> f x = Inr (g x)) \<Longrightarrow> res_map f xs = Inr (map g xs)"
  by (induction xs) auto

lemma res_map_length: "res_map f xs = Inr ys \<Longrightarrow> length ys = length xs"
  by (induction xs arbitrary: ys) (auto simp: result_simps)

lemma res_map_nth: "res_map f xs = Inr ys \<Longrightarrow> i < length xs \<Longrightarrow> f (xs ! i) = Inr (ys ! i)"
proof (induction xs arbitrary: ys i)
  case (Cons x xs)
  then show ?case by (cases i) (auto simp: result_simps)
qed simp

lemma res_map_set:
  "res_map f xs = Inr ys \<Longrightarrow> y \<in> set ys \<Longrightarrow> \<exists>x \<in> set xs. f x = Inr y"
  by (induction xs arbitrary: ys) (auto simp: result_simps)

lemma res_map_append_Inr:
  "res_map f xs = Inr ys \<Longrightarrow> res_map f (xs @ zs) = res_bind (res_map f zs) (\<lambda>ws. Inr (ys @ ws))"
proof (induction xs arbitrary: ys)
  case Nil
  then show ?case by (cases "res_map f zs") auto
next
  case (Cons x xs)
  then show ?case by (cases "res_map f zs") (auto simp: result_simps)
qed

lemma res_fold_append:
  "res_fold f (xs @ ys) s = res_bind (res_fold f xs s) (res_fold f ys)"
proof (induction xs arbitrary: s)
  case (Cons x xs)
  then show ?case by (cases "f x s") auto
qed simp

text \<open>An invariant kept by every successful step of a loop holds of its result.\<close>

lemma res_fold_invariant:
  assumes "res_fold f xs s = Inr t" and "P s"
    and "\<And>x s t. x \<in> set xs \<Longrightarrow> f x s = Inr t \<Longrightarrow> P s \<Longrightarrow> P t"
  shows "P t"
  using assms
proof (induction xs arbitrary: s)
  case (Cons x xs)
  then obtain u where "f x s = Inr u" and "res_fold f xs u = Inr t"
    by (auto simp: result_simps)
  with Cons show ?case by (metis list.set_intros)
qed simp

section \<open>Fixed-width integers as bytes\<close>

text \<open>
  \<open>le_bytes n v\<close> are the \<open>n\<close> low bytes of \<open>v\<close>, least significant first
  (\<open>to_le_bytes\<close>); \<open>le_value\<close> reads them back (\<open>from_le_bytes\<close>). The big-endian codec is the
  reverse.
\<close>

fun le_bytes :: "nat \<Rightarrow> nat \<Rightarrow> bytes" where
  "le_bytes 0 v = []"
| "le_bytes (Suc n) v = word_of_nat v # le_bytes n (v div 256)"

fun le_value :: "bytes \<Rightarrow> nat" where
  "le_value [] = 0"
| "le_value (b # bs) = unat b + 256 * le_value bs"

definition be_bytes :: "nat \<Rightarrow> nat \<Rightarrow> bytes" where
  "be_bytes n v = rev (le_bytes n v)"

definition be_value :: "bytes \<Rightarrow> nat" where
  "be_value bs = le_value (rev bs)"

lemma unat_u8_of_nat: "unat (word_of_nat v :: u8) = v mod 256"
  by (simp add: unat_of_nat)

lemma unat_u8_less [simp]: "unat (b :: u8) < 256"
  using unsigned_less [of b] by simp

lemma length_le_bytes [simp, codec_simps]: "length (le_bytes n v) = n"
  by (induction n arbitrary: v) auto

lemma length_be_bytes [simp, codec_simps]: "length (be_bytes n v) = n"
  by (simp add: be_bytes_def)

lemma le_value_le_bytes [codec_simps]: "le_value (le_bytes n v) = v mod 256 ^ n"
proof (induction n arbitrary: v)
  case (Suc n)
  have "v mod 256 + 256 * (v div 256 mod 256 ^ n) = v mod (256 * 256 ^ n)"
    by (simp add: mod_mult2_eq)
  with Suc show ?case by (simp add: unat_u8_of_nat)
qed simp

lemma le_value_bound: "le_value bs < 256 ^ length bs"
proof (induction bs)
  case (Cons b bs)
  have "unat b + 256 * le_value bs < 256 * (le_value bs + 1)"
    using unat_u8_less [of b] by simp
  also have "\<dots> \<le> 256 * 256 ^ length bs"
    using Cons by (intro mult_le_mono) auto
  finally show ?case by simp
qed simp

lemma le_bytes_le_value [codec_simps]: "le_bytes (length bs) (le_value bs) = bs"
proof (induction bs)
  case (Cons b bs)
  have "unat (word_of_nat (unat b + 256 * le_value bs) :: u8) = unat b"
    by (simp only: unat_u8_of_nat) simp
  then have "word_of_nat (unat b + 256 * le_value bs) = b"
    by (simp only: word_unat_eq_iff)
  moreover have "(unat b + 256 * le_value bs) div 256 = le_value bs"
    using unat_u8_less [of b] by simp
  ultimately show ?case using Cons by simp
qed simp

lemma be_value_be_bytes [codec_simps]: "be_value (be_bytes n v) = v mod 256 ^ n"
  by (simp add: be_value_def be_bytes_def le_value_le_bytes)

lemma be_bytes_be_value [codec_simps]: "be_bytes (length bs) (be_value bs) = bs"
  using le_bytes_le_value [of "rev bs"] by (simp add: be_bytes_def be_value_def)

lemma be_value_bound: "be_value bs < 256 ^ length bs"
  using le_value_bound [of "rev bs"] by (simp add: be_value_def)

text \<open>The codecs at the widths the program uses.\<close>

definition u16_le :: "u16 \<Rightarrow> bytes" where "u16_le w = le_bytes 2 (unat w)"
definition u32_le :: "u32 \<Rightarrow> bytes" where "u32_le w = le_bytes 4 (unat w)"
definition u16_be :: "u16 \<Rightarrow> bytes" where "u16_be w = be_bytes 2 (unat w)"
definition u32_be :: "u32 \<Rightarrow> bytes" where "u32_be w = be_bytes 4 (unat w)"
definition u128_be :: "u128 \<Rightarrow> bytes" where "u128_be w = be_bytes 16 (unat w)"

definition u16_of_le :: "bytes \<Rightarrow> u16" where "u16_of_le bs = word_of_nat (le_value bs)"
definition u32_of_le :: "bytes \<Rightarrow> u32" where "u32_of_le bs = word_of_nat (le_value bs)"
definition u16_of_be :: "bytes \<Rightarrow> u16" where "u16_of_be bs = word_of_nat (be_value bs)"
definition u32_of_be :: "bytes \<Rightarrow> u32" where "u32_of_be bs = word_of_nat (be_value bs)"
definition u128_of_be :: "bytes \<Rightarrow> u128" where "u128_of_be bs = word_of_nat (be_value bs)"

lemmas int_codec_defs = u16_le_def u32_le_def u16_be_def u32_be_def u128_be_def
  u16_of_le_def u32_of_le_def u16_of_be_def u32_of_be_def u128_of_be_def

lemma length_int_codecs [simp, codec_simps]:
  "length (u16_le a) = 2" "length (u32_le b) = 4" "length (u16_be a) = 2"
  "length (u32_be b) = 4" "length (u128_be c) = 16"
  by (simp_all add: int_codec_defs)

lemma int_codec_roundtrip [simp, codec_simps]:
  "u16_of_le (u16_le a) = a" "u32_of_le (u32_le b) = b" "u16_of_be (u16_be a) = a"
  "u32_of_be (u32_be b) = b" "u128_of_be (u128_be c) = c"
proof -
  have "unat a < 256 ^ 2" for a :: u16 using unsigned_less [of a] by simp
  then show "u16_of_le (u16_le a) = a" "u16_of_be (u16_be a) = a"
    by (simp_all add: int_codec_defs le_value_le_bytes be_value_be_bytes)
  have "unat b < 256 ^ 4" for b :: u32 using unsigned_less [of b] by simp
  then show "u32_of_le (u32_le b) = b" "u32_of_be (u32_be b) = b"
    by (simp_all add: int_codec_defs le_value_le_bytes be_value_be_bytes)
  have "unat c < 256 ^ 16" for c :: u128 using unsigned_less [of c] by simp
  then show "u128_of_be (u128_be c) = c"
    by (simp add: int_codec_defs be_value_be_bytes)
qed

section \<open>Lists\<close>

text \<open>\<open>slice::chunks_exact\<close>: the consecutive chunks of exactly \<open>n\<close> elements; a shorter rest is
  dropped. The fuel argument is the length of the list, and \<open>n = 0\<close> panics in Rust and never
  occurs.\<close>

fun chunks_exact_fuel :: "nat \<Rightarrow> nat \<Rightarrow> 'a list \<Rightarrow> 'a list list" where
  "chunks_exact_fuel 0 n xs = []"
| "chunks_exact_fuel (Suc k) n xs =
     (if length xs < n then [] else take n xs # chunks_exact_fuel k n (drop n xs))"

definition chunks_exact :: "nat \<Rightarrow> 'a list \<Rightarrow> 'a list list" where
  "chunks_exact n xs = chunks_exact_fuel (length xs) n xs"

lemma chunks_exact_fuel_concat:
  assumes "0 < n" and "\<And>c. c \<in> set cs \<Longrightarrow> length c = n" and "length cs \<le> k"
  shows "chunks_exact_fuel k n (concat cs) = cs"
  using assms(2,3)
proof (induction cs arbitrary: k)
  case Nil
  then show ?case using assms(1) by (cases k) auto
next
  case (Cons c cs)
  then show ?case by (cases k) auto
qed

lemma length_concat_const: "(\<And>c. c \<in> set cs \<Longrightarrow> length c = n) \<Longrightarrow> length (concat cs) = length cs * n"
  by (induction cs) auto

lemma chunks_exact_concat [codec_simps]:
  assumes "0 < n" and "\<And>c. c \<in> set cs \<Longrightarrow> length c = n"
  shows "chunks_exact n (concat cs) = cs"
proof -
  have "length cs \<le> length (concat cs)"
    using assms by (simp add: length_concat_const [OF assms(2)])
  then show ?thesis
    using chunks_exact_fuel_concat [OF assms] by (simp add: chunks_exact_def)
qed

text \<open>\<open>Vec::dedup\<close> on a sorted vector leaves a strictly increasing one with the same elements.\<close>

lemma sorted_remdups_adj_strict:
  fixes xs :: "'a :: linorder list"
  assumes "sorted xs"
  shows "sorted (remdups_adj xs)" and "distinct (remdups_adj xs)"
  using assms by (induction xs rule: remdups_adj.induct) (auto simp: le_less)

lemma sorted_distinct_strict:
  "sorted xs \<Longrightarrow> distinct xs \<Longrightarrow> sorted_wrt (<) xs"
  by (simp add: strict_sorted_iff)

lemma find_filter_map: "find P (filter Q xs) = find (\<lambda>x. Q x \<and> P x) xs"
  by (induction xs) auto

lemma find_map: "find P (map f xs) = map_option f (find (P \<circ> f) xs)"
  by (induction xs) auto

lemma find_Some_prefix:
  "find P xs = Some x \<longleftrightarrow> (\<exists>i < length xs. xs ! i = x \<and> P x \<and> (\<forall>j < i. \<not> P (xs ! j)))"
  by (auto simp: find_Some_iff)

end
