(* ===== verification/Rust_Std.thy ===== *)
theory Rust_Std
  imports Prelude
begin

text \<open>
  The parts of Rust's standard library the program's pure code relies on: strings as UTF-8 byte
  sequences (a \<open>char\<close> of HOL is one byte), UTF-8 validation, splitting, trimming, ASCII case,
  integer parsing and printing, and the textual syntax of IPv4 and IPv6 addresses.
\<close>

section \<open>Bytes and characters\<close>

definition code :: "char \<Rightarrow> nat" where
  "code c = of_char c"

definition as_bytes :: "string \<Rightarrow> bytes" where
  "as_bytes s = map (\<lambda>c. word_of_nat (code c)) s"

definition of_bytes :: "bytes \<Rightarrow> string" where
  "of_bytes bs = map (\<lambda>b. char_of (unat b)) bs"

lemma code_less [simp]: "code c < 256"
  by (simp add: code_def)

lemma code_inject [simp]: "code c = code d \<longleftrightarrow> c = d"
  by (simp add: code_def)

lemma of_bytes_as_bytes [simp, codec_simps]: "of_bytes (as_bytes s) = s"
proof -
  have "unat (word_of_nat (code c) :: u8) = code c" for c
    by (simp add: unat_u8_of_nat)
  then show ?thesis by (simp add: of_bytes_def as_bytes_def o_def code_def map_idI)
qed

lemma as_bytes_of_bytes [simp, codec_simps]: "as_bytes (of_bytes bs) = bs"
  by (simp add: of_bytes_def as_bytes_def o_def code_def map_idI)

lemma length_as_bytes [simp, codec_simps]: "length (as_bytes s) = length s"
  by (simp add: as_bytes_def)

lemma length_of_bytes [simp, codec_simps]: "length (of_bytes bs) = length bs"
  by (simp add: of_bytes_def)

lemma as_bytes_append [simp]: "as_bytes (s @ t) = as_bytes s @ as_bytes t"
  by (simp add: as_bytes_def)

lemma as_bytes_inject [simp]: "as_bytes s = as_bytes t \<longleftrightarrow> s = t"
  by (metis of_bytes_as_bytes)

lemma as_bytes_take: "as_bytes (take n s) = take n (as_bytes s)"
  by (simp add: as_bytes_def take_map)

section \<open>UTF-8\<close>

text \<open>
  \<open>utf8_next\<close> looks at the front of a non-empty byte string: \<open>(True, n)\<close> is a well-formed scalar
  of \<open>n\<close> bytes, \<open>(False, n)\<close> an ill-formed maximal subpart of \<open>n\<close> bytes, as
  \<open>core::str::from_utf8\<close> and \<open>String::from_utf8_lossy\<close> classify them.
\<close>

definition cont :: "u8 \<Rightarrow> bool" where
  "cont b \<longleftrightarrow> 0x80 \<le> b \<and> b \<le> 0xBF"

definition second_ok :: "u8 \<Rightarrow> u8 \<Rightarrow> bool" where
  "second_ok b c \<longleftrightarrow>
     (if b = 0xE0 then 0xA0 \<le> c \<and> c \<le> 0xBF
      else if b = 0xED then 0x80 \<le> c \<and> c \<le> 0x9F
      else if b = 0xF0 then 0x90 \<le> c \<and> c \<le> 0xBF
      else if b = 0xF4 then 0x80 \<le> c \<and> c \<le> 0x8F
      else cont c)"

definition utf8_width :: "u8 \<Rightarrow> nat" where
  "utf8_width b =
     (if b < 0x80 then 1
      else if 0xC2 \<le> b \<and> b \<le> 0xDF then 2
      else if 0xE0 \<le> b \<and> b \<le> 0xEF then 3
      else if 0xF0 \<le> b \<and> b \<le> 0xF4 then 4
      else 0)"

fun utf8_next :: "bytes \<Rightarrow> bool \<times> nat" where
  "utf8_next [] = (False, 1)"
| "utf8_next (b # bs) =
     (if utf8_width b = 1 then (True, 1)
      else if utf8_width b = 0 then (False, 1)
      else (case bs of
         [] \<Rightarrow> (False, 1)
       | c # cs \<Rightarrow>
           if \<not> second_ok b c then (False, 1)
           else if utf8_width b = 2 then (True, 2)
           else (case cs of
              [] \<Rightarrow> (False, 2)
            | d # ds \<Rightarrow>
                if \<not> cont d then (False, 2)
                else if utf8_width b = 3 then (True, 3)
                else (case ds of
                   [] \<Rightarrow> (False, 3)
                 | e # _ \<Rightarrow> if cont e then (True, 4) else (False, 3)))))"

lemma utf8_next_pos: "0 < snd (utf8_next bs)"
  by (cases bs) (auto split: list.splits)

function utf8_valid :: "bytes \<Rightarrow> bool" where
  "utf8_valid bs =
     (if bs = [] then True
      else fst (utf8_next bs) \<and> utf8_valid (drop (snd (utf8_next bs)) bs))"
  by pat_completeness auto
termination
  by (relation "measure length") (auto simp: utf8_next_pos)

declare utf8_valid.simps [simp del]

function from_utf8_lossy :: "bytes \<Rightarrow> string" where
  "from_utf8_lossy bs =
     (if bs = [] then []
      else (let n = snd (utf8_next bs);
                rest = from_utf8_lossy (drop n bs)
            in if fst (utf8_next bs) then of_bytes (take n bs) @ rest
               else of_bytes [0xEF, 0xBF, 0xBD] @ rest))"
  by pat_completeness auto
termination
  by (relation "measure length") (auto simp: utf8_next_pos)

declare from_utf8_lossy.simps [simp del]

definition from_utf8 :: "bytes \<Rightarrow> string option" where
  "from_utf8 bs = (if utf8_valid bs then Some (of_bytes bs) else None)"

text \<open>The type invariant of \<open>String\<close> and \<open>&str\<close>.\<close>

definition str_ok :: "string \<Rightarrow> bool" where
  "str_ok s \<longleftrightarrow> utf8_valid (as_bytes s)"

definition ascii :: "string \<Rightarrow> bool" where
  "ascii s \<longleftrightarrow> (\<forall>c \<in> set s. code c < 128)"

lemma from_utf8_as_bytes [codec_simps]: "str_ok s \<Longrightarrow> from_utf8 (as_bytes s) = Some s"
  by (simp add: from_utf8_def str_ok_def)

lemma utf8_valid_ascii: "(\<forall>b \<in> set bs. b < 0x80) \<Longrightarrow> utf8_valid bs"
proof (induction bs)
  case (Cons b bs)
  then show ?case by (subst utf8_valid.simps) (simp add: utf8_width_def)
qed (simp add: utf8_valid.simps)

lemma ascii_bytes: "ascii s \<Longrightarrow> \<forall>b \<in> set (as_bytes s). b < 0x80"
proof -
  have "code c < 128 \<Longrightarrow> (word_of_nat (code c) :: u8) < 0x80" for c
    by (simp add: word_less_nat_alt unat_u8_of_nat)
  then show "ascii s \<Longrightarrow> ?thesis" by (auto simp: ascii_def as_bytes_def)
qed

lemma str_ok_ascii: "ascii s \<Longrightarrow> str_ok s"
  by (simp add: str_ok_def utf8_valid_ascii ascii_bytes)

lemma from_utf8_lossy_valid: "utf8_valid bs \<Longrightarrow> from_utf8_lossy bs = of_bytes bs"
proof (induction bs rule: utf8_valid.induct)
  case (1 bs)
  show ?case
  proof (cases "bs = []")
    case True
    then show ?thesis by (simp add: from_utf8_lossy.simps of_bytes_def)
  next
    case False
    with 1 have v: "fst (utf8_next bs)" "utf8_valid (drop (snd (utf8_next bs)) bs)"
      by (auto simp: utf8_valid.simps [of bs])
    with 1 False have "from_utf8_lossy (drop (snd (utf8_next bs)) bs) = of_bytes (drop (snd (utf8_next bs)) bs)"
      by simp
    with False v show ?thesis
      by (simp add: from_utf8_lossy.simps [of bs] of_bytes_def Let_def map_append [symmetric] del: map_append)
  qed
qed

lemma from_utf8_lossy_as_bytes: "str_ok s \<Longrightarrow> from_utf8_lossy (as_bytes s) = s"
  by (simp add: str_ok_def from_utf8_lossy_valid)

section \<open>Splitting and joining\<close>

fun split_on :: "char \<Rightarrow> string \<Rightarrow> string list" where
  "split_on c [] = [[]]"
| "split_on c (x # xs) =
     (if x = c then [] # split_on c xs
      else (x # hd (split_on c xs)) # tl (split_on c xs))"

fun join :: "string \<Rightarrow> string list \<Rightarrow> string" where
  "join sep [] = []"
| "join sep [x] = x"
| "join sep (x # y # ys) = x @ sep @ join sep (y # ys)"

fun split_once :: "char \<Rightarrow> string \<Rightarrow> (string \<times> string) option" where
  "split_once c [] = None"
| "split_once c (x # xs) =
     (if x = c then Some ([], xs)
      else map_option (\<lambda>(a, b). (x # a, b)) (split_once c xs))"

fun contains_str :: "string \<Rightarrow> string \<Rightarrow> bool" where
  "contains_str [] n = (n = [])"
| "contains_str (x # xs) n = (take (length n) (x # xs) = n \<or> contains_str xs n)"

definition starts_with :: "string \<Rightarrow> string \<Rightarrow> bool" where
  "starts_with s p \<longleftrightarrow> take (length p) s = p"

definition trim_start_matches :: "char \<Rightarrow> string \<Rightarrow> string" where
  "trim_start_matches c s = dropWhile (\<lambda>x. x = c) s"

definition trim_end_matches :: "char \<Rightarrow> string \<Rightarrow> string" where
  "trim_end_matches c s = rev (dropWhile (\<lambda>x. x = c) (rev s))"

definition strip_prefix :: "string \<Rightarrow> string \<Rightarrow> string option" where
  "strip_prefix pre s = (if starts_with s pre then Some (drop (length pre) s) else None)"

text \<open>\<open>str::rfind\<close> with the two sides of the last occurrence.\<close>

definition rsplit_once :: "char \<Rightarrow> string \<Rightarrow> (string \<times> string) option" where
  "rsplit_once c s = map_option (\<lambda>(a, b). (rev b, rev a)) (split_once c (rev s))"

definition ends_with :: "string \<Rightarrow> string \<Rightarrow> bool" where
  "ends_with suf s \<longleftrightarrow> length suf \<le> length s \<and> drop (length s - length suf) s = suf"

lemma split_on_not_Nil [simp]: "split_on c s \<noteq> []"
  by (cases s) auto

text \<open>For evaluation: one recursive call per character.\<close>

lemma split_on_code [code]:
  "split_on c [] = [[]]"
  "split_on c (x # xs) =
     (case split_on c xs of
        [] \<Rightarrow> [[x]]
      | p # ps \<Rightarrow> if x = c then [] # p # ps else (x # p) # ps)"
  using split_on_not_Nil [of c xs] by (auto split: list.splits)

lemma join_Cons: "ys \<noteq> [] \<Longrightarrow> join sep (x # ys) = x @ sep @ join sep ys"
  by (cases ys) auto

lemma join_split_on [simp]: "join [c] (split_on c s) = s"
proof (induction s)
  case (Cons x xs)
  show ?case
  proof (cases "x = c")
    case True
    then show ?thesis using Cons by (simp add: join_Cons)
  next
    case False
    obtain h t where ht: "split_on c xs = h # t" by (cases "split_on c xs") auto
    with Cons False show ?thesis by (cases t) auto
  qed
qed simp

lemma split_on_no_sep: "c \<notin> set s \<Longrightarrow> split_on c s = [s]"
  by (induction s) auto

lemma split_on_pieces: "p \<in> set (split_on c s) \<Longrightarrow> c \<notin> set p"
proof (induction s arbitrary: p)
  case (Cons x xs)
  have "hd (split_on c xs) \<in> set (split_on c xs)" by simp
  moreover have "set (tl (split_on c xs)) \<subseteq> set (split_on c xs)"
    by (cases "split_on c xs") auto
  ultimately show ?case using Cons by (auto split: if_splits)
qed simp

lemma split_on_append: "c \<notin> set a \<Longrightarrow> split_on c (a @ c # b) = a # split_on c b"
  by (induction a) auto

lemma split_on_snoc:
  "split_on c (s @ [x]) =
     (if x = c then split_on c s @ [[]] else butlast (split_on c s) @ [last (split_on c s) @ [x]])"
proof (induction s)
  case (Cons y s)
  then show ?case by (cases "split_on c s") auto
qed simp

lemma split_on_join:
  "ls \<noteq> [] \<Longrightarrow> (\<And>l. l \<in> set ls \<Longrightarrow> c \<notin> set l) \<Longrightarrow> split_on c (join [c] ls) = ls"
proof (induction ls)
  case (Cons l ls)
  show ?case
  proof (cases "ls = []")
    case True
    then show ?thesis using Cons.prems by (simp add: split_on_no_sep)
  next
    case False
    with Cons show ?thesis by (simp add: join_Cons split_on_append)
  qed
qed simp

lemma split_on_inject: "split_on c s = split_on c t \<longleftrightarrow> s = t"
  by (metis join_split_on)

lemma split_once_append: "c \<notin> set a \<Longrightarrow> split_once c (a @ c # b) = Some (a, b)"
  by (induction a) auto

lemma split_once_None_iff: "split_once c s = None \<longleftrightarrow> c \<notin> set s"
  by (induction s) auto

lemma split_once_Some: "split_once c s = Some (a, b) \<longleftrightarrow> s = a @ c # b \<and> c \<notin> set a"
proof
  show "split_once c s = Some (a, b) \<Longrightarrow> s = a @ c # b \<and> c \<notin> set a"
    by (induction s arbitrary: a) (auto split: if_splits)
qed (auto simp: split_once_append)

lemma contains_str_iff: "contains_str h n \<longleftrightarrow> (\<exists>a b. h = a @ n @ b)"
proof (induction h)
  case (Cons x xs)
  have "take (length n) (x # xs) = n \<longleftrightarrow> (\<exists>b. x # xs = n @ b)"
    by (metis append_take_drop_id append_eq_conv_conj)
  moreover have "(\<exists>a b. x # xs = a @ n @ b) \<longleftrightarrow> (\<exists>b. x # xs = n @ b) \<or> (\<exists>a b. xs = a @ n @ b)"
    by (metis append_Cons append_Nil list.inject neq_Nil_conv)
  ultimately show ?case using Cons by simp
qed simp

section \<open>Case and white space\<close>

definition is_ascii_uppercase :: "char \<Rightarrow> bool" where
  "is_ascii_uppercase c \<longleftrightarrow> 65 \<le> code c \<and> code c \<le> 90"

definition ascii_lower :: "char \<Rightarrow> char" where
  "ascii_lower c = (if is_ascii_uppercase c then char_of (code c + 32) else c)"

definition to_ascii_lowercase :: "string \<Rightarrow> string" where
  "to_ascii_lowercase s = map ascii_lower s"

lemma code_char_of: "n < 256 \<Longrightarrow> code (char_of n) = n"
  by (simp add: code_def of_char_of)

lemma ascii_lower_idem [simp]: "ascii_lower (ascii_lower c) = ascii_lower c"
  by (auto simp: ascii_lower_def is_ascii_uppercase_def code_char_of)

lemma to_ascii_lowercase_idem [simp]: "to_ascii_lowercase (to_ascii_lowercase s) = to_ascii_lowercase s"
  by (simp add: to_ascii_lowercase_def)

lemma length_to_ascii_lowercase [simp]: "length (to_ascii_lowercase s) = length s"
  by (simp add: to_ascii_lowercase_def)

lemma to_ascii_lowercase_no_upper: "(\<forall>c \<in> set s. \<not> is_ascii_uppercase c) \<Longrightarrow> to_ascii_lowercase s = s"
  by (simp add: to_ascii_lowercase_def ascii_lower_def map_idI)

lemma ascii_lower_eq_iff:
  "\<not> is_ascii_uppercase d \<Longrightarrow> code d < 97 \<or> 122 < code d \<Longrightarrow> ascii_lower c = d \<longleftrightarrow> c = d"
  by (auto simp: ascii_lower_def is_ascii_uppercase_def code_char_of split: if_splits)

text \<open>
  \<open>char::is_whitespace\<close> is the Unicode property White\_Space; on UTF-8 bytes its members are the
  byte sequences below. \<open>ws_len\<close> is the length of such a sequence at the front of a string and
  \<open>ws_len_rev\<close> at the end, read backwards.
\<close>

definition ws3 :: "nat \<Rightarrow> nat \<Rightarrow> nat \<Rightarrow> bool" where
  "ws3 a b c \<longleftrightarrow>
     a = 0xE1 \<and> b = 0x9A \<and> c = 0x80
     \<or> a = 0xE2 \<and> b = 0x80 \<and> (0x80 \<le> c \<and> c \<le> 0x8A \<or> c = 0xA8 \<or> c = 0xA9 \<or> c = 0xAF)
     \<or> a = 0xE2 \<and> b = 0x81 \<and> c = 0x9F
     \<or> a = 0xE3 \<and> b = 0x80 \<and> c = 0x80"

definition ws1 :: "nat \<Rightarrow> bool" where
  "ws1 a \<longleftrightarrow> 9 \<le> a \<and> a \<le> 13 \<or> a = 32"

definition ws2 :: "nat \<Rightarrow> nat \<Rightarrow> bool" where
  "ws2 a b \<longleftrightarrow> a = 0xC2 \<and> (b = 0x85 \<or> b = 0xA0)"

fun ws_len :: "string \<Rightarrow> nat" where
  "ws_len [] = 0"
| "ws_len [a] = (if ws1 (code a) then 1 else 0)"
| "ws_len [a, b] = (if ws1 (code a) then 1 else if ws2 (code a) (code b) then 2 else 0)"
| "ws_len (a # b # c # _) =
     (if ws1 (code a) then 1 else if ws2 (code a) (code b) then 2
      else if ws3 (code a) (code b) (code c) then 3 else 0)"

fun ws_len_rev :: "string \<Rightarrow> nat" where
  "ws_len_rev [] = 0"
| "ws_len_rev [a] = (if ws1 (code a) then 1 else 0)"
| "ws_len_rev [a, b] = (if ws1 (code a) then 1 else if ws2 (code b) (code a) then 2 else 0)"
| "ws_len_rev (a # b # c # _) =
     (if ws1 (code a) then 1 else if ws2 (code b) (code a) then 2
      else if ws3 (code c) (code b) (code a) then 3 else 0)"

fun strip_ws :: "(string \<Rightarrow> nat) \<Rightarrow> nat \<Rightarrow> string \<Rightarrow> string" where
  "strip_ws w 0 s = s"
| "strip_ws w (Suc k) s = (if w s = 0 then s else strip_ws w k (drop (w s) s))"

definition trim_start :: "string \<Rightarrow> string" where
  "trim_start s = strip_ws ws_len (length s) s"

definition trim_end :: "string \<Rightarrow> string" where
  "trim_end s = rev (strip_ws ws_len_rev (length s) (rev s))"

definition trim :: "string \<Rightarrow> string" where
  "trim s = trim_end (trim_start s)"

text \<open>Graphic ASCII characters are no part of any white space.\<close>

definition graphic :: "char \<Rightarrow> bool" where
  "graphic c \<longleftrightarrow> 33 \<le> code c \<and> code c \<le> 126"

lemma ws_len_graphic: "graphic c \<Longrightarrow> ws_len (c # s) = 0"
  by (cases s rule: ws_len.cases) (auto simp: graphic_def ws1_def ws2_def ws3_def split: list.splits)

lemma ws_len_rev_graphic: "graphic c \<Longrightarrow> ws_len_rev (c # s) = 0"
  by (cases s rule: ws_len.cases) (auto simp: graphic_def ws1_def ws2_def ws3_def split: list.splits)

lemma strip_ws_0: "w s = 0 \<Longrightarrow> strip_ws w k s = s"
  by (cases k) auto

lemma trim_start_graphic: "s \<noteq> [] \<Longrightarrow> graphic (hd s) \<Longrightarrow> trim_start s = s"
  by (cases s) (simp_all add: trim_start_def strip_ws_0 ws_len_graphic)

lemma trim_end_graphic: "s \<noteq> [] \<Longrightarrow> graphic (last s) \<Longrightarrow> trim_end s = s"
  by (cases s rule: rev_cases) (simp_all add: trim_end_def strip_ws_0 ws_len_rev_graphic)

lemma trim_graphic:
  "s \<noteq> [] \<Longrightarrow> graphic (hd s) \<Longrightarrow> graphic (last s) \<Longrightarrow> trim s = s"
  by (simp add: trim_def trim_start_graphic trim_end_graphic)

lemma trim_space_graphic:
  assumes "s \<noteq> []" "graphic (hd s)" "graphic (last s)"
  shows "trim (CHR '' '' # s) = s"
proof -
  have "ws_len (CHR '' '' # s) = 1"
    by (cases s rule: ws_len.cases) (auto simp: ws1_def code_def split: list.splits)
  then have "trim_start (CHR '' '' # s) = s"
    using assms by (cases s) (simp_all add: trim_start_def strip_ws_0 ws_len_graphic)
  then show ?thesis using assms by (simp add: trim_def trim_end_graphic)
qed

text \<open>\<open>str::lines\<close>: pieces ended by a line feed lose a preceding carriage return; a rest after the
  last line feed is a line of its own when it is not empty.\<close>

definition strip_cr :: "string \<Rightarrow> string" where
  "strip_cr s = (if s \<noteq> [] \<and> code (last s) = 13 then butlast s else s)"

definition lines :: "string \<Rightarrow> string list" where
  "lines s = (let ps = split_on (char_of (10 :: nat)) s
              in map strip_cr (butlast ps) @ (if last ps = [] then [] else [last ps]))"

section \<open>Decimal integers\<close>

definition is_digit :: "char \<Rightarrow> bool" where
  "is_digit c \<longleftrightarrow> 48 \<le> code c \<and> code c \<le> 57"

definition digit :: "nat \<Rightarrow> char" where
  "digit d = char_of (48 + d)"

fun show_nat :: "nat \<Rightarrow> string" where
  "show_nat n = (if n < 10 then [digit n] else show_nat (n div 10) @ [digit (n mod 10)])"

declare show_nat.simps [simp del]

definition digits_value :: "string \<Rightarrow> nat" where
  "digits_value s = foldl (\<lambda>v c. 10 * v + (code c - 48)) 0 s"

text \<open>\<open>str::parse\<close> for an unsigned type with maximum \<open>m\<close>: an optional plus sign, at least one
  digit, digits only, and no overflow.\<close>

definition parse_uint :: "nat \<Rightarrow> string \<Rightarrow> nat option" where
  "parse_uint m s =
     (let ds = (case s of [] \<Rightarrow> [] | c # cs \<Rightarrow> if c = CHR ''+'' then cs else s)
      in if ds \<noteq> [] \<and> (\<forall>c \<in> set ds. is_digit c) \<and> digits_value ds \<le> m
         then Some (digits_value ds) else None)"

lemma digit_props: "d < 10 \<Longrightarrow> is_digit (digit d) \<and> code (digit d) = 48 + d \<and> graphic (digit d)"
  by (simp add: digit_def is_digit_def graphic_def code_char_of)

lemma show_nat_digits: "c \<in> set (show_nat n) \<Longrightarrow> is_digit c \<and> graphic c"
proof (induction n rule: show_nat.induct)
  case (1 n)
  then show ?case
    by (subst (asm) (2) show_nat.simps) (auto simp: digit_props split: if_splits)
qed

lemma show_nat_not_Nil [simp]: "show_nat n \<noteq> []"
  by (subst show_nat.simps) simp

lemma digits_value_show_nat: "digits_value (show_nat n) = n"
proof (induction n rule: show_nat.induct)
  case (1 n)
  show ?case
  proof (cases "n < 10")
    case True
    then show ?thesis by (subst show_nat.simps) (simp add: digits_value_def digit_props)
  next
    case False
    with 1 have "digits_value (show_nat (n div 10)) = n div 10" by simp
    moreover have "code (digit (n mod 10)) = 48 + n mod 10" by (simp add: digit_props)
    ultimately show ?thesis using False
      by (subst show_nat.simps) (simp add: digits_value_def)
  qed
qed

lemma parse_uint_show_nat: "n \<le> m \<Longrightarrow> parse_uint m (show_nat n) = Some n"
proof -
  assume n: "n \<le> m"
  obtain c cs where ccs: "show_nat n = c # cs" by (cases "show_nat n") auto
  have "is_digit d" if "d \<in> set (show_nat n)" for d
    using that show_nat_digits by blast
  then have ds: "\<forall>d \<in> set (c # cs). is_digit d" using ccs by simp
  moreover have "\<not> is_digit (CHR ''+'')" by (simp add: is_digit_def code_def)
  ultimately have "c \<noteq> CHR ''+''" by auto
  with ds n show ?thesis
    using digits_value_show_nat [of n] by (simp add: parse_uint_def Let_def ccs)
qed

lemma show_nat_inject: "show_nat a = show_nat b \<longleftrightarrow> a = b"
  by (metis digits_value_show_nat)

section \<open>Addresses\<close>

datatype IpAddr = V4 u32 | V6 u128

record SocketAddr =
  sa_ip :: IpAddr
  sa_port :: u16

text \<open>
  The address parser of \<open>core::net\<close>: a parser takes the rest of the input and gives a value and
  the new rest. \<open>read_number\<close> reads at most \<open>max\<close> digits of a radix (one more digit is a failure,
  not a stop), optionally refusing a leading zero.
\<close>

definition to_digit :: "nat \<Rightarrow> char \<Rightarrow> nat option" where
  "to_digit radix c =
     (let k = code c;
          d = (if 48 \<le> k \<and> k \<le> 57 then k - 48
               else if 97 \<le> k \<and> k \<le> 122 then k - 87
               else if 65 \<le> k \<and> k \<le> 90 then k - 55 else radix)
      in if d < radix then Some d else None)"

fun take_digits :: "nat \<Rightarrow> string \<Rightarrow> nat list \<times> string" where
  "take_digits radix [] = ([], [])"
| "take_digits radix (c # cs) =
     (case to_digit radix c of
        None \<Rightarrow> ([], c # cs)
      | Some d \<Rightarrow> (let (ds, rest) = take_digits radix cs in (d # ds, rest)))"

definition read_number :: "nat \<Rightarrow> nat \<Rightarrow> bool \<Rightarrow> nat \<Rightarrow> string \<Rightarrow> (nat \<times> string) option" where
  "read_number radix max_digits allow_zero_prefix bound s =
     (let (ds, rest) = take_digits radix s;
          v = foldl (\<lambda>v d. radix * v + d) 0 ds
      in if ds = [] \<or> max_digits < length ds
            \<or> \<not> allow_zero_prefix \<and> hd ds = 0 \<and> 1 < length ds \<or> bound < v
         then None else Some (v, rest))"

definition read_separator :: "char \<Rightarrow> nat \<Rightarrow> (string \<Rightarrow> ('a \<times> string) option) \<Rightarrow> string \<Rightarrow> ('a \<times> string) option" where
  "read_separator sep i p s =
     (if i = 0 then p s
      else (case s of [] \<Rightarrow> None | c # cs \<Rightarrow> if c = sep then p cs else None))"

fun read_octets :: "nat \<Rightarrow> nat \<Rightarrow> string \<Rightarrow> (nat list \<times> string) option" where
  "read_octets 0 i s = Some ([], s)"
| "read_octets (Suc k) i s =
     (case read_separator (CHR ''.'') i (read_number 10 3 False 255) s of
        None \<Rightarrow> None
      | Some (o1, rest) \<Rightarrow> map_option (\<lambda>(os, r). (o1 # os, r)) (read_octets k (Suc i) rest))"

definition read_ipv4_addr :: "string \<Rightarrow> (nat list \<times> string) option" where
  "read_ipv4_addr s = read_octets 4 0 s"

definition ipv4_of_octets :: "nat list \<Rightarrow> u32" where
  "ipv4_of_octets os = word_of_nat (foldl (\<lambda>v d. 256 * v + d) 0 os)"

definition parse_ipv4 :: "string \<Rightarrow> u32 option" where
  "parse_ipv4 s =
     (if 15 < length s then None
      else (case read_ipv4_addr s of
              Some (os, []) \<Rightarrow> Some (ipv4_of_octets os)
            | _ \<Rightarrow> None))"

text \<open>\<open>read_groups limit\<close>: the 16-bit groups read (at most \<open>limit\<close>), whether they end with an
  embedded IPv4 address, and the rest.\<close>

fun read_groups :: "nat \<Rightarrow> nat \<Rightarrow> string \<Rightarrow> nat list \<times> bool \<times> string" where
  "read_groups 0 i s = ([], False, s)"
| "read_groups (Suc left) i s =
     (case (if 0 < left then read_separator (CHR '':'') i read_ipv4_addr s else None) of
        Some (os, rest) \<Rightarrow> ([256 * os ! 0 + os ! 1, 256 * os ! 2 + os ! 3], True, rest)
      | None \<Rightarrow>
          (case read_separator (CHR '':'') i (read_number 16 4 True 65535) s of
             None \<Rightarrow> ([], False, s)
           | Some (g, rest) \<Rightarrow>
               (let (gs, v4, r) = read_groups left (Suc i) rest in (g # gs, v4, r))))"

definition ipv6_of_groups :: "nat list \<Rightarrow> u128" where
  "ipv6_of_groups gs = word_of_nat (foldl (\<lambda>v d. 65536 * v + d) 0 gs)"

definition read_ipv6_addr :: "string \<Rightarrow> (nat list \<times> string) option" where
  "read_ipv6_addr s =
     (let (hd_gs, hd_v4, rest) = read_groups 8 0 s
      in if length hd_gs = 8 then Some (hd_gs, rest)
         else if hd_v4 then None
         else if take 2 rest \<noteq> ''::'' then None
         else (let (tl_gs, _, rest') = read_groups (8 - (length hd_gs + 1)) 0 (drop 2 rest)
               in Some (hd_gs @ replicate (8 - length hd_gs - length tl_gs) 0 @ tl_gs, rest')))"

definition parse_ipv6 :: "string \<Rightarrow> u128 option" where
  "parse_ipv6 s =
     (case read_ipv6_addr s of
        Some (gs, []) \<Rightarrow> Some (ipv6_of_groups gs)
      | _ \<Rightarrow> None)"

text \<open>\<open>IpAddr::from_str\<close> tries IPv4 first.\<close>

definition parse_ip :: "string \<Rightarrow> IpAddr option" where
  "parse_ip s =
     (case read_ipv4_addr s of
        Some (os, rest) \<Rightarrow> if rest = [] then Some (V4 (ipv4_of_octets os)) else None
      | None \<Rightarrow> map_option V6 (parse_ipv6 s))"

definition octets4 :: "u32 \<Rightarrow> bytes" where
  "octets4 a = u32_be a"

definition octets6 :: "u128 \<Rightarrow> bytes" where
  "octets6 a = u128_be a"

definition ipv4_of_bytes :: "bytes \<Rightarrow> u32" where
  "ipv4_of_bytes bs = u32_of_be bs"

definition ipv6_of_bytes :: "bytes \<Rightarrow> u128" where
  "ipv6_of_bytes bs = u128_of_be bs"

text \<open>\<open>Ipv6Addr::to_ipv4_mapped\<close>: the addresses \<open>::ffff:a.b.c.d\<close>.\<close>

definition to_ipv4_mapped :: "u128 \<Rightarrow> u32 option" where
  "to_ipv4_mapped a =
     (if drop_bit 32 a = 0xFFFF then Some (word_of_nat (unat a)) else None)"

lemma addr_codec_roundtrip [simp, codec_simps]:
  "ipv4_of_bytes (octets4 a) = a" "ipv6_of_bytes (octets6 b) = b"
  "length (octets4 a) = 4" "length (octets6 b) = 16"
  by (simp_all add: octets4_def octets6_def ipv4_of_bytes_def ipv6_of_bytes_def)

section \<open>Iterators\<close>

text \<open>\<open>min_by_key\<close> keeps the first of several minima.\<close>

fun min_by_key :: "('a \<Rightarrow> nat) \<Rightarrow> 'a list \<Rightarrow> 'a option" where
  "min_by_key f [] = None"
| "min_by_key f (x # xs) =
     (case min_by_key f xs of
        None \<Rightarrow> Some x
      | Some y \<Rightarrow> Some (if f y < f x then y else x))"

lemma min_by_key_Some:
  "xs \<noteq> [] \<Longrightarrow> \<exists>x \<in> set xs. min_by_key f xs = Some x \<and> (\<forall>y \<in> set xs. f x \<le> f y)"
proof (induction xs)
  case (Cons x xs)
  then show ?case by (cases xs) (fastforce split: option.split)+
qed simp

end
