(* ===== verification/Ruleset_Format.thy ===== *)
theory Ruleset_Format
  imports Rust_Std
begin

text \<open>
  The binary rule-set format (\<open>src/ruleset/format.rs\<close>), the error type
  (\<open>src/ruleset/error.rs\<close>), the encoders of \<open>compiler.rs\<close> and the decoders of \<open>loader.rs\<close> for the
  section payloads, with their round trips. The third-party crates the rule-set engine calls are
  gathered in a record of functions, \<open>crates\<close>, which every definition that calls them takes as
  an argument; \<open>fst_laws\<close> states what the engine relies on.
\<close>

section \<open>Third-party crates as parameters\<close>

text \<open>
  \<open>fst_build\<close>: \<open>fst::SetBuilder\<close> fed with the keys in order and finished; \<open>fst_new\<close>:
  \<open>fst::Set::new\<close>; \<open>fst_contains\<close>, \<open>fst_len\<close>: the set's queries. \<open>regex_new\<close>: whether
  \<open>regex::Regex::new\<close> accepts a pattern; \<open>regexset_new\<close>, \<open>regexset_is_match\<close>,
  \<open>regexset_len\<close>: \<open>regex::RegexSet\<close>. \<open>to_lowercase\<close> is \<open>str::to_lowercase\<close>, whose Unicode
  tables are not reproduced.
\<close>

record ('f, 'r) crates =
  fst_build :: "bytes list \<Rightarrow> string + bytes"
  fst_new :: "bytes \<Rightarrow> string + 'f"
  fst_contains :: "'f \<Rightarrow> bytes \<Rightarrow> bool"
  fst_len :: "'f \<Rightarrow> nat"
  regex_new :: "string \<Rightarrow> string + unit"
  regexset_new :: "string list \<Rightarrow> string + 'r"
  regexset_is_match :: "'r \<Rightarrow> string \<Rightarrow> bool"
  regexset_len :: "'r \<Rightarrow> nat"
  to_lowercase :: "string \<Rightarrow> string"

text \<open>
  The documented contract of the \<open>fst\<close> crate: a builder fed with strictly increasing keys
  succeeds, and the set opened from its (non-empty) output contains exactly those keys.
\<close>

definition fst_laws :: "('f, 'r) crates \<Rightarrow> bool" where
  "fst_laws cr \<longleftrightarrow>
     (\<forall>keys. sorted_wrt (<) keys \<longrightarrow>
        (\<exists>bs s. fst_build cr keys = Inr bs \<and> bs \<noteq> [] \<and> fst_new cr bs = Inr s
           \<and> (\<forall>k. fst_contains cr s k \<longleftrightarrow> k \<in> set keys) \<and> fst_len cr s = length keys))"

section \<open>Errors, constants and section types\<close>

text \<open>\<open>Io\<close> is \<open>io::ErrorKind::UnexpectedEof\<close>, the only I/O error reading a byte slice can
  give. \<open>Panic\<close> is no variant of the Rust enum: it stands for an abort of the process (an index
  out of range), so that a panic is a branch of the model like any error.\<close>

datatype RuleSetError =
    ParseError nat string
  | InvalidCidr string string
  | InvalidPort string
  | InvalidRegex string string
  | DomainTooLong string
  | BadMagic
  | UnsupportedVersion u8
  | UnknownSection u8
  | Truncated nat nat
  | InvalidUtf8
  | LoadedInvalidRegex string
  | Io
  | Panic

definition MAGIC :: bytes where "MAGIC = as_bytes ''RRST''"
definition VERSION :: u8 where "VERSION = 0x02"
definition VERSION_V1 :: u8 where "VERSION_V1 = 0x01"
definition HEADER_LEN :: nat where "HEADER_LEN = 14"
definition SECTION_HEADER_LEN :: nat where "SECTION_HEADER_LEN = 9"
definition IPV4_ENTRY_LEN :: nat where "IPV4_ENTRY_LEN = 5"
definition IPV6_ENTRY_LEN :: nat where "IPV6_ENTRY_LEN = 17"
definition PORT_ENTRY_LEN :: nat where "PORT_ENTRY_LEN = 4"

lemmas format_consts = MAGIC_def VERSION_def VERSION_V1_def HEADER_LEN_def SECTION_HEADER_LEN_def
  IPV4_ENTRY_LEN_def IPV6_ENTRY_LEN_def PORT_ENTRY_LEN_def

datatype SectionType =
    SecDomain | SecDomainSuffix | SecDomainKeyword | SecDomainRegex
  | SecDomainFst | SecDomainSuffixFst | SecIpCidrV4 | SecIpCidrV6 | SecPort

fun section_code :: "SectionType \<Rightarrow> u8" where
  "section_code SecDomain = 0x01"
| "section_code SecDomainSuffix = 0x02"
| "section_code SecDomainKeyword = 0x03"
| "section_code SecDomainRegex = 0x04"
| "section_code SecDomainFst = 0x05"
| "section_code SecDomainSuffixFst = 0x06"
| "section_code SecIpCidrV4 = 0x10"
| "section_code SecIpCidrV6 = 0x11"
| "section_code SecPort = 0x20"

definition section_try_from :: "u8 \<Rightarrow> u8 + SectionType" where
  "section_try_from v =
     (if v = 0x01 then Inr SecDomain
      else if v = 0x02 then Inr SecDomainSuffix
      else if v = 0x03 then Inr SecDomainKeyword
      else if v = 0x04 then Inr SecDomainRegex
      else if v = 0x05 then Inr SecDomainFst
      else if v = 0x06 then Inr SecDomainSuffixFst
      else if v = 0x10 then Inr SecIpCidrV4
      else if v = 0x11 then Inr SecIpCidrV6
      else if v = 0x20 then Inr SecPort
      else Inl v)"

lemma section_try_from_code [simp, codec_simps]: "section_try_from (section_code t) = Inr t"
  by (cases t) (simp_all add: section_try_from_def)

lemma section_try_from_Inr: "section_try_from v = Inr t \<Longrightarrow> section_code t = v"
  by (auto simp: section_try_from_def split: if_splits)

section \<open>Encoders (\<open>compiler.rs\<close>)\<close>

text \<open>\<open>s.len() as u8\<close> keeps the low eight bits of the length.\<close>

definition encode_strings :: "string list \<Rightarrow> bytes" where
  "encode_strings list =
     (if list = [] then []
      else concat (map (\<lambda>s. word_of_nat (length s) # as_bytes s) list))"

definition encode_ipv4_cidrs :: "(u32 \<times> u8) list \<Rightarrow> bytes" where
  "encode_ipv4_cidrs list =
     (if list = [] then [] else concat (map (\<lambda>(addr, prefix). octets4 addr @ [prefix]) list))"

definition encode_ipv6_cidrs :: "(u128 \<times> u8) list \<Rightarrow> bytes" where
  "encode_ipv6_cidrs list =
     (if list = [] then [] else concat (map (\<lambda>(addr, prefix). octets6 addr @ [prefix]) list))"

definition encode_ports :: "(u16 \<times> u16) list \<Rightarrow> bytes" where
  "encode_ports list =
     (if list = [] then [] else concat (map (\<lambda>(start, end'). u16_le start @ u16_le end') list))"

text \<open>The scan of length-prefixed strings: the position may jump past the end, which ends the
  loop.\<close>

function count_strings :: "bytes \<Rightarrow> nat \<Rightarrow> nat" where
  "count_strings data i =
     (if i < length data then Suc (count_strings data (i + (1 + unat (data ! i)))) else 0)"
  by pat_completeness auto
termination
  by (relation "measure (\<lambda>(data, i). length data - i)") auto

declare count_strings.simps [simp del]

definition entry_count_for :: "SectionType \<Rightarrow> bytes \<Rightarrow> nat" where
  "entry_count_for sec_type data =
     (case sec_type of
        SecIpCidrV4 \<Rightarrow> length data div IPV4_ENTRY_LEN
      | SecIpCidrV6 \<Rightarrow> length data div IPV6_ENTRY_LEN
      | SecPort \<Rightarrow> length data div PORT_ENTRY_LEN
      | _ \<Rightarrow> count_strings data 0)"

section \<open>Decoders (\<open>loader.rs\<close>)\<close>

text \<open>\<open>expected\<close> only sizes the vector in \<open>decode_strings\<close>; the loop runs to the end of the
  data.\<close>

function decode_strings_from :: "bytes \<Rightarrow> nat \<Rightarrow> RuleSetError + string list" where
  "decode_strings_from data i =
     (if i < length data then
        if length data < i + 1 then Inl (Truncated (i + 1) (length data))
        else
          let len = unat (data ! i); j = i + 1
          in if length data < j + len then Inl (Truncated (j + len) (length data))
             else (case from_utf8 (take len (drop j data)) of
                     None \<Rightarrow> Inl InvalidUtf8
                   | Some s \<Rightarrow> res_bind (decode_strings_from data (j + len)) (\<lambda>ss. Inr (s # ss)))
      else Inr [])"
  by pat_completeness auto
termination
  by (relation "measure (\<lambda>(data, i). length data - i)") auto

declare decode_strings_from.simps [simp del]

definition decode_strings :: "bytes \<Rightarrow> nat \<Rightarrow> RuleSetError + string list" where
  "decode_strings data expected = decode_strings_from data 0"

definition decode_ipv4_cidrs :: "bytes \<Rightarrow> nat \<Rightarrow> RuleSetError + (u32 \<times> u8) list" where
  "decode_ipv4_cidrs data expected =
     (if length data \<noteq> expected * IPV4_ENTRY_LEN
      then Inl (Truncated (expected * IPV4_ENTRY_LEN) (length data))
      else Inr (map (\<lambda>c. (ipv4_of_bytes (take 4 c), c ! 4)) (chunks_exact IPV4_ENTRY_LEN data)))"

definition decode_ipv6_cidrs :: "bytes \<Rightarrow> nat \<Rightarrow> RuleSetError + (u128 \<times> u8) list" where
  "decode_ipv6_cidrs data expected =
     (if length data \<noteq> expected * IPV6_ENTRY_LEN
      then Inl (Truncated (expected * IPV6_ENTRY_LEN) (length data))
      else Inr (map (\<lambda>c. (ipv6_of_bytes (take 16 c), c ! 16)) (chunks_exact IPV6_ENTRY_LEN data)))"

definition decode_ports :: "bytes \<Rightarrow> nat \<Rightarrow> RuleSetError + (u16 \<times> u16) list" where
  "decode_ports data expected =
     (if length data \<noteq> expected * PORT_ENTRY_LEN
      then Inl (Truncated (expected * PORT_ENTRY_LEN) (length data))
      else Inr (map (\<lambda>c. (u16_of_le [c ! 0, c ! 1], u16_of_le [c ! 2, c ! 3]))
                    (chunks_exact PORT_ENTRY_LEN data)))"

section \<open>Round trips of the payloads\<close>

text \<open>A string that fits the one-byte length prefix.\<close>

definition short_string :: "string \<Rightarrow> bool" where
  "short_string s \<longleftrightarrow> length s < 256 \<and> str_ok s"

lemma encode_strings_concat:
  "encode_strings ss = concat (map (\<lambda>s. word_of_nat (length s) # as_bytes s) ss)"
  by (simp add: encode_strings_def)

lemma decode_strings_from_encode:
  "list_all short_string ss \<Longrightarrow> decode_strings_from (pre @ encode_strings ss) (length pre) = Inr ss"
proof (induction ss arbitrary: pre)
  case Nil
  then show ?case by (simp add: encode_strings_def decode_strings_from.simps)
next
  case (Cons s ss)
  let ?hd = "pre @ word_of_nat (length s) # as_bytes s"
  have len: "unat (word_of_nat (length s) :: u8) = length s" and ok: "str_ok s"
    using Cons.prems by (auto simp: short_string_def unat_u8_of_nat)
  have IH: "decode_strings_from (?hd @ encode_strings ss) (Suc (length pre) + length s) = Inr ss"
    using Cons.IH [of ?hd] Cons.prems by simp
  have "decode_strings_from (pre @ encode_strings (s # ss)) (length pre) =
        res_bind (decode_strings_from (?hd @ encode_strings ss) (Suc (length pre) + length s))
          (\<lambda>ss. Inr (s # ss))"
    by (subst decode_strings_from.simps)
      (simp add: encode_strings_concat nth_append len from_utf8_as_bytes [OF ok] Let_def)
  then show ?case by (simp only: IH res_bind_simps)
qed

lemma decode_encode_strings [codec_simps]:
  "list_all short_string ss \<Longrightarrow> decode_strings (encode_strings ss) n = Inr ss"
  using decode_strings_from_encode [of ss "[]"] by (simp add: decode_strings_def)

lemma encode_strings_empty_iff [simp]: "encode_strings ss = [] \<longleftrightarrow> ss = []"
  by (cases ss) (auto simp: encode_strings_def)

text \<open>The three fixed-width codecs share one argument: every record has the same length, so the
  chunks of the concatenation are the records.\<close>

lemma fixed_codec:
  assumes "0 < n" and "\<And>x. x \<in> set xs \<Longrightarrow> length (enc x) = n" and "\<And>x. x \<in> set xs \<Longrightarrow> dec (enc x) = x"
  shows "length (concat (map enc xs)) = length xs * n"
    and "map dec (chunks_exact n (concat (map enc xs))) = xs"
proof -
  show "length (concat (map enc xs)) = length xs * n"
    by (rule length_concat_const [of "map enc xs", simplified]) (use assms(2) in auto)
  have "chunks_exact n (concat (map enc xs)) = map enc xs"
    by (rule chunks_exact_concat) (use assms in auto)
  then show "map dec (chunks_exact n (concat (map enc xs))) = xs"
    using assms(3) by (simp add: map_idI)
qed

lemma decode_encode_ipv4_cidrs [codec_simps]:
  "decode_ipv4_cidrs (encode_ipv4_cidrs xs) (length xs) = Inr xs"
proof -
  note c = fixed_codec [of 5 xs "\<lambda>(addr, prefix). octets4 addr @ [prefix]"
      "\<lambda>c. (ipv4_of_bytes (take 4 c), c ! 4)"]
  have "length (concat (map (\<lambda>(addr, prefix). octets4 addr @ [prefix]) xs)) = length xs * 5"
    by (rule c(1)) (auto simp: nth_append)
  moreover have "map (\<lambda>c. (ipv4_of_bytes (take 4 c), c ! 4))
      (chunks_exact 5 (concat (map (\<lambda>(addr, prefix). octets4 addr @ [prefix]) xs))) = xs"
    by (rule c(2)) (auto simp: nth_append)
  ultimately show ?thesis
    by (cases "xs = []") (simp_all add: decode_ipv4_cidrs_def encode_ipv4_cidrs_def format_consts chunks_exact_def)
qed

lemma decode_encode_ipv6_cidrs [codec_simps]:
  "decode_ipv6_cidrs (encode_ipv6_cidrs xs) (length xs) = Inr xs"
proof -
  note c = fixed_codec [of 17 xs "\<lambda>(addr, prefix). octets6 addr @ [prefix]"
      "\<lambda>c. (ipv6_of_bytes (take 16 c), c ! 16)"]
  have "length (concat (map (\<lambda>(addr, prefix). octets6 addr @ [prefix]) xs)) = length xs * 17"
    by (rule c(1)) (auto simp: nth_append)
  moreover have "map (\<lambda>c. (ipv6_of_bytes (take 16 c), c ! 16))
      (chunks_exact 17 (concat (map (\<lambda>(addr, prefix). octets6 addr @ [prefix]) xs))) = xs"
    by (rule c(2)) (auto simp: nth_append)
  ultimately show ?thesis
    by (cases "xs = []") (simp_all add: decode_ipv6_cidrs_def encode_ipv6_cidrs_def format_consts chunks_exact_def)
qed

lemma u16_le_nth: "[u16_le a ! 0, u16_le a ! Suc 0] = u16_le a"
  by (simp add: u16_le_def numeral_2_eq_2)

lemma decode_encode_ports [codec_simps]:
  "decode_ports (encode_ports xs) (length xs) = Inr xs"
proof -
  let ?enc = "\<lambda>(start, end'). u16_le start @ u16_le end'"
  let ?dec = "\<lambda>c. (u16_of_le [c ! 0, c ! 1], u16_of_le [c ! 2, c ! 3])"
  have dec: "?dec (?enc x) = x" for x :: "u16 \<times> u16"
    by (cases x) (simp add: nth_append u16_le_nth)
  have "length (concat (map ?enc xs)) = length xs * 4"
    by (rule fixed_codec(1) [where dec = ?dec]) (use dec in auto)
  moreover have "map ?dec (chunks_exact 4 (concat (map ?enc xs))) = xs"
    by (rule fixed_codec(2)) (use dec in auto)
  ultimately show ?thesis
    by (cases "xs = []") (simp_all add: decode_ports_def encode_ports_def format_consts chunks_exact_def)
qed

lemma length_encode_fixed:
  "length (encode_ipv4_cidrs a) = 5 * length a"
  "length (encode_ipv6_cidrs b) = 17 * length b"
  "length (encode_ports c) = 4 * length c"
  by (induction a, simp_all add: encode_ipv4_cidrs_def split: if_splits prod.splits)
    (induction b, simp_all add: encode_ipv6_cidrs_def split: if_splits prod.splits,
     induction c, simp_all add: encode_ports_def split: if_splits prod.splits)

lemma encode_fixed_empty_iff [simp]:
  "encode_ipv4_cidrs a = [] \<longleftrightarrow> a = []"
  "encode_ipv6_cidrs b = [] \<longleftrightarrow> b = []"
  "encode_ports c = [] \<longleftrightarrow> c = []"
  by (metis length_encode_fixed length_0_conv mult_is_0 zero_neq_numeral)+

lemma entry_count_fixed:
  "entry_count_for SecIpCidrV4 (encode_ipv4_cidrs a) = length a"
  "entry_count_for SecIpCidrV6 (encode_ipv6_cidrs b) = length b"
  "entry_count_for SecPort (encode_ports c) = length c"
  by (simp_all add: entry_count_for_def length_encode_fixed format_consts)

end
