(* ===== verification/Ip_Ranges.thy ===== *)
theory Ip_Ranges
  imports Ruleset_Format "HOL-Library.Multiset"
begin

text \<open>
  The sorted address ranges of \<open>src/ruleset/matcher.rs\<close>: CIDR blocks turned into closed intervals,
  sorted, merged and searched by \<open>partition_point\<close>. The main result is that the optimised index
  answers exactly as a linear scan of the original blocks would.
\<close>

section \<open>CIDR blocks as intervals\<close>

text \<open>
  Release-profile arithmetic: \<open>32 - prefix\<close> wraps on \<open>u8\<close>, and a shift amount is reduced modulo
  the width of the shifted type.
\<close>

definition shl32 :: "u32 \<Rightarrow> u8 \<Rightarrow> u32" where
  "shl32 x k = push_bit (unat k mod 32) x"

definition shl128 :: "u128 \<Rightarrow> u8 \<Rightarrow> u128" where
  "shl128 x k = push_bit (unat k mod 128) x"

definition ipv4_cidr_to_range :: "u32 \<Rightarrow> u8 \<Rightarrow> u32 \<times> u32" where
  "ipv4_cidr_to_range addr prefix =
     (if prefix = 0 then (0, - 1)
      else (let msk = shl32 (NOT 0) (32 - prefix);
                lo = addr AND msk;
                hi = lo OR NOT msk
            in (lo, hi)))"

definition ipv6_cidr_to_range :: "u128 \<Rightarrow> u8 \<Rightarrow> u128 \<times> u128" where
  "ipv6_cidr_to_range addr prefix =
     (if prefix = 0 then (0, - 1)
      else (let msk = shl128 (NOT 0) (128 - prefix);
                lo = addr AND msk;
                hi = lo OR NOT msk
            in (lo, hi)))"

definition in_range :: "'a :: ord \<Rightarrow> 'a \<times> 'a \<Rightarrow> bool" where
  "in_range a r \<longleftrightarrow> fst r \<le> a \<and> a \<le> snd r"

text \<open>The interval of a block holds exactly the addresses that agree with it above bit \<open>k\<close>.\<close>

lemma not_push_minus1: "NOT (push_bit k (- 1) :: 'a :: len word) = mask k"
  by (rule bit_word_eqI) (auto simp: bit_simps)

lemma and_high_bits: "(w :: 'a :: len word) AND push_bit k (- 1) = push_bit k (drop_bit k w)"
  by (rule bit_word_eqI) (auto simp: bit_simps)

lemma unat_drop_bit: "unat (drop_bit k w) = unat w div 2 ^ k" for w :: "'a :: len word"
  by (simp only: unat_drop_bit_eq drop_bit_eq_div [of k "unat w"])

lemma unat_mask: "k < LENGTH('a) \<Longrightarrow> unat (mask k :: 'a :: len word) = 2 ^ k - 1"
proof -
  assume "k < LENGTH('a)"
  then have "unat (of_nat (mask k) :: 'a word) = mask k"
    by (simp only: unsigned_of_nat take_bit_of_mask) (simp add: min_def)
  then show ?thesis by (simp only: of_nat_mask_eq) (simp only: mask_eq_exp_minus_1 [where 'a = nat])
qed

lemma unat_high_bits:
  fixes w :: "'a :: len word"
  shows "unat (push_bit k (drop_bit k w)) = unat w div 2 ^ k * 2 ^ k"
proof -
  have "unat (push_bit k (drop_bit k w)) = take_bit LENGTH('a) (push_bit k (unat w div 2 ^ k))"
    by (simp only: unsigned_push_bit_eq unat_drop_bit)
  also have "\<dots> = unat w div 2 ^ k * 2 ^ k mod 2 ^ LENGTH('a)"
    by (simp add: push_bit_eq_mult take_bit_eq_mod)
  also have "\<dots> = unat w div 2 ^ k * 2 ^ k"
    by (metis div_times_less_eq_dividend mod_less order_le_less_trans unsigned_less)
  finally show ?thesis .
qed

lemma block_end_bound:
  assumes "k < n" and "(x :: nat) < 2 ^ n"
  shows "x div 2 ^ k * 2 ^ k + (2 ^ k - 1) < 2 ^ n"
proof -
  have "x div 2 ^ k < 2 ^ (n - k)"
    using assms by (simp add: less_mult_imp_div_less flip: power_add)
  then have "(x div 2 ^ k + 1) * 2 ^ k \<le> 2 ^ (n - k) * 2 ^ k"
    by (intro mult_le_mono) auto
  also have "\<dots> = 2 ^ n" using assms by (simp flip: power_add)
  finally have "x div 2 ^ k * 2 ^ k + 2 ^ k \<le> 2 ^ n" by (simp add: algebra_simps)
  moreover have "(0 :: nat) < 2 ^ k" by simp
  ultimately show ?thesis by linarith
qed

lemma high_or_mask:
  fixes w :: "'a :: len word"
  assumes "k < LENGTH('a)"
  shows "unat (push_bit k (drop_bit k w) OR mask k) = unat w div 2 ^ k * 2 ^ k + (2 ^ k - 1)"
proof -
  have "push_bit k (drop_bit k w) OR mask k = push_bit k (drop_bit k w) + mask k"
    by (rule disjunctive_add [symmetric]) (auto simp: bit_simps)
  moreover have "unat (mask k :: 'a word) = 2 ^ k - 1"
    using assms by (rule unat_mask)
  ultimately show ?thesis
    using block_end_bound [OF assms unsigned_less [of w]] by (simp add: unat_word_ariths unat_high_bits)
qed

lemma block_div: "0 < (m :: nat) \<Longrightarrow> b div m * m \<le> a \<and> a \<le> b div m * m + (m - 1) \<longleftrightarrow> a div m = b div m"
proof -
  assume m: "0 < m"
  have "b div m * m \<le> a \<and> a \<le> b div m * m + (m - 1) \<longleftrightarrow> b div m * m \<le> a \<and> a < Suc (b div m) * m"
    using m by auto
  also have "\<dots> \<longleftrightarrow> b div m \<le> a div m \<and> a div m < Suc (b div m)"
    using m by (simp add: less_eq_div_iff_mult_less_eq div_less_iff_less_mult)
  finally show ?thesis by auto
qed

lemma interval_high_bits:
  fixes addr a :: "'a :: len word"
  assumes "k < LENGTH('a)"
  shows "addr AND push_bit k (- 1) \<le> a \<and> a \<le> (addr AND push_bit k (- 1)) OR NOT (push_bit k (- 1))
     \<longleftrightarrow> drop_bit k a = drop_bit k addr"
proof -
  have "drop_bit k a = drop_bit k addr \<longleftrightarrow> unat a div 2 ^ k = unat addr div 2 ^ k"
    by (simp only: word_unat_eq_iff unat_drop_bit)
  moreover have "addr AND push_bit k (- 1) \<le> a \<and> a \<le> (addr AND push_bit k (- 1)) OR NOT (push_bit k (- 1))
     \<longleftrightarrow> unat a div 2 ^ k = unat addr div 2 ^ k"
    unfolding not_push_minus1 and_high_bits word_le_nat_alt unat_high_bits high_or_mask [OF assms]
    by (rule block_div) simp
  ultimately show ?thesis by simp
qed

lemma unat_sub_u8: "p \<le> n \<Longrightarrow> unat (n - p :: u8) = unat n - unat p"
  by (rule unat_sub)

lemma ipv4_cidr_range:
  assumes "unat prefix \<le> 32"
  shows "in_range a (ipv4_cidr_to_range addr prefix) \<longleftrightarrow>
     (prefix = 0 \<or> drop_bit (32 - unat prefix) a = drop_bit (32 - unat prefix) addr)"
proof (cases "prefix = 0")
  case True
  then show ?thesis by (simp add: in_range_def ipv4_cidr_to_range_def)
next
  case False
  then have "unat (32 - prefix) = 32 - unat prefix" and "0 < unat prefix"
    using assms by (simp_all add: unat_sub_u8 word_le_nat_alt unat_gt_0)
  then have "unat (32 - prefix) mod 32 = 32 - unat prefix" and k: "32 - unat prefix < LENGTH(32)"
    by auto
  then show ?thesis
    using False interval_high_bits [OF k, of addr a]
    by (simp add: in_range_def ipv4_cidr_to_range_def shl32_def Let_def)
qed

lemma ipv6_cidr_range:
  assumes "unat prefix \<le> 128"
  shows "in_range a (ipv6_cidr_to_range addr prefix) \<longleftrightarrow>
     (prefix = 0 \<or> drop_bit (128 - unat prefix) a = drop_bit (128 - unat prefix) addr)"
proof (cases "prefix = 0")
  case True
  then show ?thesis by (simp add: in_range_def ipv6_cidr_to_range_def)
next
  case False
  then have "unat (128 - prefix) = 128 - unat prefix" and "0 < unat prefix"
    using assms by (simp_all add: unat_sub_u8 word_le_nat_alt unat_gt_0)
  then have "unat (128 - prefix) mod 128 = 128 - unat prefix" and k: "128 - unat prefix < LENGTH(128)"
    by auto
  then show ?thesis
    using False interval_high_bits [OF k, of addr a]
    by (simp add: in_range_def ipv6_cidr_to_range_def shl128_def Let_def)
qed

section \<open>Sorting, merging and searching\<close>

record 'a IpRanges =
  ranges :: "('a \<times> 'a) list"

text \<open>The loop of \<open>merge_ranges\<close>: the first argument is the last element of \<open>out\<close>, which is the only
  one the loop still changes.\<close>

fun merge_loop :: "('a :: linorder) \<times> 'a \<Rightarrow> ('a \<times> 'a) list \<Rightarrow> ('a \<times> 'a) list" where
  "merge_loop (llo, lhi) [] = [(llo, lhi)]"
| "merge_loop (llo, lhi) ((lo, hi) # rs) =
     (if lo \<le> lhi then merge_loop (llo, if lhi < hi then hi else lhi) rs
      else (llo, lhi) # merge_loop (lo, hi) rs)"

definition merge_ranges :: "(('a :: linorder) \<times> 'a) list \<Rightarrow> ('a \<times> 'a) list" where
  "merge_ranges rs = (case rs of [] \<Rightarrow> [] | r # rest \<Rightarrow> merge_loop r rest)"

definition IpRanges_build :: "(('a :: linorder) \<times> 'a) list \<Rightarrow> 'a IpRanges" where
  "IpRanges_build cidrs = \<lparr>ranges = merge_ranges (sort_key fst cidrs)\<rparr>"

definition IpRanges_len :: "'a IpRanges \<Rightarrow> nat" where
  "IpRanges_len r = length (ranges r)"

definition IpRanges_is_empty :: "'a IpRanges \<Rightarrow> bool" where
  "IpRanges_is_empty r \<longleftrightarrow> ranges r = []"

text \<open>\<open>slice::partition_point\<close> on a slice partitioned by the predicate: the number of elements that
  satisfy it, all of which come first.\<close>

definition partition_point :: "('a \<Rightarrow> bool) \<Rightarrow> 'a list \<Rightarrow> nat" where
  "partition_point P xs = length (takeWhile P xs)"

definition IpRanges_contains :: "('a :: linorder) IpRanges \<Rightarrow> 'a \<Rightarrow> bool" where
  "IpRanges_contains r addr =
     (if ranges r = [] then False
      else (case partition_point (\<lambda>(lo, _). lo \<le> addr) (ranges r) of
              0 \<Rightarrow> False
            | Suc i \<Rightarrow> addr \<le> snd (ranges r ! i)))"

text \<open>After merging, every range ends before the next one starts.\<close>

definition separated :: "(('a :: linorder) \<times> 'a) list \<Rightarrow> bool" where
  "separated rs \<longleftrightarrow> sorted_wrt (\<lambda>r s. fst r \<le> fst s \<and> snd r < fst s) rs"

lemma merge_loop_fst: "r \<in> set (merge_loop l rs) \<Longrightarrow> sorted (map fst (l # rs)) \<Longrightarrow> fst l \<le> fst r"
  by (induction l rs rule: merge_loop.induct) (auto split: if_splits)

lemma merge_loop_separated: "sorted (map fst (l # rs)) \<Longrightarrow> separated (merge_loop l rs)"
proof (induction l rs rule: merge_loop.induct)
  case (1 llo lhi)
  then show ?case by (simp add: separated_def)
next
  case (2 llo lhi lo hi rs)
  show ?case
  proof (cases "lo \<le> lhi")
    case True
    with 2 show ?thesis by auto
  next
    case False
    have s: "sorted (map fst ((lo, hi) # rs))" using "2.prems" by simp
    have "fst r \<ge> lo" if "r \<in> set (merge_loop (lo, hi) rs)" for r
      using merge_loop_fst [OF that s] by simp
    with False 2 s show ?thesis by (fastforce simp: separated_def)
  qed
qed

lemma merge_loop_in_range:
  "sorted (map fst (l # rs)) \<Longrightarrow>
     (\<exists>r \<in> set (merge_loop l rs). in_range a r) \<longleftrightarrow> (\<exists>r \<in> set (l # rs). in_range a r)"
proof (induction l rs rule: merge_loop.induct)
  case (2 llo lhi lo hi rs)
  then show ?case
    by (cases "lo \<le> lhi") (auto simp: in_range_def)
qed simp

lemma merge_ranges_spec:
  assumes "sorted (map fst rs)"
  shows "separated (merge_ranges rs)"
    and "(\<exists>r \<in> set (merge_ranges rs). in_range a r) \<longleftrightarrow> (\<exists>r \<in> set rs. in_range a r)"
proof -
  show "separated (merge_ranges rs)"
    using assms by (cases rs) (simp_all add: merge_ranges_def separated_def [of "[]"] merge_loop_separated)
  show "(\<exists>r \<in> set (merge_ranges rs). in_range a r) \<longleftrightarrow> (\<exists>r \<in> set rs. in_range a r)"
    using assms merge_loop_in_range [of "hd rs" "tl rs" a] by (cases rs) (simp_all add: merge_ranges_def)
qed

lemma IpRanges_contains_separated:
  assumes "separated (ranges r)"
  shows "IpRanges_contains r a \<longleftrightarrow> (\<exists>x \<in> set (ranges r). in_range a x)"
proof -
  define tw where "tw = takeWhile (\<lambda>(lo, _). lo \<le> a) (ranges r)"
  define dw where "dw = dropWhile (\<lambda>(lo, _). lo \<le> a) (ranges r)"
  have rs: "ranges r = tw @ dw" by (simp add: tw_def dw_def)
  have sep: "separated (tw @ dw)" using assms rs by simp
  have dw: "\<not> in_range a x" if "x \<in> set dw" for x
  proof -
    from that obtain y ys where y: "dw = y # ys" by (cases dw) auto
    then have "a < fst y"
      by (metis (mono_tags, lifting) case_prod_beta dropWhile_eq_Cons_conv dw_def linorder_not_le)
    moreover have "fst y \<le> fst x"
      using sep that y by (auto simp: separated_def sorted_wrt_append)
    ultimately have "a < fst x" by (rule less_le_trans)
    then show ?thesis by (simp add: in_range_def not_le)
  qed
  show ?thesis
  proof (cases tw rule: rev_cases)
    case Nil
    then show ?thesis using rs dw
      by (auto simp: IpRanges_contains_def partition_point_def tw_def [symmetric])
  next
    case (snoc ts t)
    have len: "partition_point (\<lambda>(lo, _). lo \<le> a) (ranges r) = Suc (length ts)"
      by (simp add: partition_point_def tw_def [symmetric] snoc)
    have tle: "fst t \<le> a"
      using snoc set_takeWhileD [of t "\<lambda>(lo, _). lo \<le> a" "ranges r"] by (auto simp: tw_def)
    have ts: "\<not> in_range a x" if "x \<in> set ts" for x
      using sep that snoc tle by (auto simp: separated_def sorted_wrt_append in_range_def)
    have "IpRanges_contains r a \<longleftrightarrow> a \<le> snd t"
      unfolding IpRanges_contains_def len using rs snoc by (simp add: nth_append)
    then show ?thesis using rs snoc ts dw tle by (auto simp: in_range_def)
  qed
qed

text \<open>
  \<open>sort_unstable_by_key\<close> leaves the order of equal keys open: the result below holds for every
  permutation of the input sorted by the lower bound.
\<close>

lemma IpRanges_contains_any_sort:
  assumes "mset rs = mset cidrs" and "sorted (map fst rs)"
  shows "IpRanges_contains \<lparr>ranges = merge_ranges rs\<rparr> a \<longleftrightarrow> (\<exists>x \<in> set cidrs. in_range a x)"
  using IpRanges_contains_separated [of "\<lparr>ranges = merge_ranges rs\<rparr>" a]
    merge_ranges_spec [OF assms(2)] mset_eq_setD [OF assms(1)] by simp

lemma IpRanges_contains_build:
  "IpRanges_contains (IpRanges_build cidrs) a \<longleftrightarrow> (\<exists>x \<in> set cidrs. in_range a x)"
  unfolding IpRanges_build_def by (rule IpRanges_contains_any_sort) simp_all

lemma IpRanges_build_empty_iff: "IpRanges_is_empty (IpRanges_build cidrs) \<longleftrightarrow> cidrs = []"
proof -
  have "merge_loop l rs \<noteq> []" for l :: "'a \<times> 'a" and rs
    by (induction l rs rule: merge_loop.induct) auto
  moreover have "sort_key fst cidrs = [] \<longleftrightarrow> cidrs = []"
    by (metis length_0_conv length_sort)
  ultimately show ?thesis
    by (cases "sort_key fst cidrs") (auto simp: IpRanges_is_empty_def IpRanges_build_def merge_ranges_def)
qed

section \<open>The interface of an address index\<close>

text \<open>An index over a linear order of addresses: built from closed ranges, it answers membership in
  their union.\<close>

locale range_index =
  fixes build :: "(('a :: linorder) \<times> 'a) list \<Rightarrow> 'i"
    and member :: "'i \<Rightarrow> 'a \<Rightarrow> bool"
    and no_ranges :: "'i \<Rightarrow> bool"
  assumes member_build: "member (build rs) a \<longleftrightarrow> (\<exists>r \<in> set rs. in_range a r)"
    and no_ranges_build: "no_ranges (build rs) \<longleftrightarrow> rs = []"
begin

text \<open>The guard on an empty index never changes the answer.\<close>

lemma guarded_member:
  "(if no_ranges (build rs) then False else member (build rs) a) \<longleftrightarrow> (\<exists>r \<in> set rs. in_range a r)"
  by (auto simp: member_build no_ranges_build)

lemma member_append:
  "member (build (rs @ qs)) a \<longleftrightarrow> member (build rs) a \<or> member (build qs) a"
  by (auto simp: member_build)

lemma member_perm: "set rs = set qs \<Longrightarrow> member (build rs) a \<longleftrightarrow> member (build qs) a"
  by (simp add: member_build)

end

interpretation ip_ranges: range_index IpRanges_build IpRanges_contains IpRanges_is_empty
  by unfold_locales (simp_all add: IpRanges_contains_build IpRanges_build_empty_iff)

end
