(* ===== verification/Ruleset_Compiler.thy ===== *)
theory Ruleset_Compiler
  imports Ip_Ranges
begin

text \<open>
  The rule-set compiler (\<open>src/ruleset/compiler.rs\<close>): the text and sing-box front ends that fill a
  \<open>CompiledRuleSet\<close>, the value parsers, the keys of the finite-state sets, and the serializer of
  the binary format. The lemmas show that whatever the front ends accept is well formed (masked
  addresses, prefixes within the address width, ordered port ranges, bounded lower-case domains).
\<close>

section \<open>Values: domains, CIDR blocks, ports\<close>

definition quoted :: "string \<Rightarrow> string" where
  "quoted s = CHR 0x27 # s @ [CHR 0x27]"

text \<open>The en dash of two messages, U+2013.\<close>

definition en_dash :: string where
  "en_dash = of_bytes [0xE2, 0x80, 0x93]"

definition validate_domain_len :: "string \<Rightarrow> nat \<Rightarrow> RuleSetError + unit" where
  "validate_domain_len domain line =
     (if 255 < length domain
      then Inl (ParseError line (''domain too long ('' @ show_nat (length domain) @ ''): '' @ quoted domain))
      else Inr ())"

definition mask_ipv4 :: "u32 \<Rightarrow> u8 \<Rightarrow> u32" where
  "mask_ipv4 addr prefix =
     (if prefix = 0 then 0 else addr AND shl32 (NOT 0) (32 - prefix))"

definition mask_ipv6 :: "u128 \<Rightarrow> u8 \<Rightarrow> u128" where
  "mask_ipv6 addr prefix =
     (if prefix = 0 then 0 else addr AND shl128 (NOT 0) (128 - prefix))"

definition parse_ipv4_cidr :: "string \<Rightarrow> RuleSetError + (u32 \<times> u8)" where
  "parse_ipv4_cidr s =
     res_bind (ok_or (InvalidCidr s (''missing '' @ quoted ''/'')) (split_once CHR ''/'' s)) (\<lambda>(addr_str, prefix_str).
     res_bind (ok_or (InvalidCidr s ''invalid IPv4 address syntax'') (parse_ipv4 addr_str)) (\<lambda>addr.
     res_bind (ok_or (InvalidCidr s ''invalid prefix length'') (parse_uint 255 prefix_str)) (\<lambda>prefix.
       if 32 < prefix then Inl (InvalidCidr s (''IPv4 prefix must be 0'' @ en_dash @ ''32''))
       else Inr (mask_ipv4 addr (word_of_nat prefix), word_of_nat prefix))))"

definition parse_ipv6_cidr :: "string \<Rightarrow> RuleSetError + (u128 \<times> u8)" where
  "parse_ipv6_cidr s =
     res_bind (ok_or (InvalidCidr s (''missing '' @ quoted ''/'')) (split_once CHR ''/'' s)) (\<lambda>(addr_str, prefix_str).
     res_bind (ok_or (InvalidCidr s ''invalid IPv6 address syntax'') (parse_ipv6 addr_str)) (\<lambda>addr.
     res_bind (ok_or (InvalidCidr s ''invalid prefix length'') (parse_uint 255 prefix_str)) (\<lambda>prefix.
       if 128 < prefix then Inl (InvalidCidr s (''IPv6 prefix must be 0'' @ en_dash @ ''128''))
       else Inr (mask_ipv6 addr (word_of_nat prefix), word_of_nat prefix))))"

definition parse_u16 :: "string \<Rightarrow> u16 option" where
  "parse_u16 s = map_option word_of_nat (parse_uint 65535 s)"

text \<open>Both separators lead to the same two numbers and the same order check.\<close>

definition parse_bounds :: "string \<Rightarrow> string \<Rightarrow> string \<Rightarrow> RuleSetError + (u16 \<times> u16)" where
  "parse_bounds s start_s end_s =
     res_bind (ok_or (InvalidPort s) (parse_u16 (trim start_s))) (\<lambda>start.
     res_bind (ok_or (InvalidPort s) (parse_u16 (trim end_s))) (\<lambda>end'.
       if end' < start then Inl (InvalidPort s) else Inr (start, end')))"

definition parse_port_range :: "string \<Rightarrow> RuleSetError + (u16 \<times> u16)" where
  "parse_port_range s =
     (case split_once CHR ''-'' s of
        Some (start_s, end_s) \<Rightarrow> parse_bounds s start_s end_s
      | None \<Rightarrow> res_bind (ok_or (InvalidPort s) (parse_u16 (trim s))) (\<lambda>port. Inr (port, port)))"

definition parse_singbox_port_range :: "string \<Rightarrow> RuleSetError + (u16 \<times> u16)" where
  "parse_singbox_port_range s =
     (case split_once CHR '':'' s of
        Some (start_s, end_s) \<Rightarrow> parse_bounds s start_s end_s
      | None \<Rightarrow> parse_port_range s)"

section \<open>The front ends\<close>

record CompiledRuleSet =
  c_domains :: "string list"
  c_domain_suffixes :: "string list"
  c_domain_keywords :: "string list"
  c_domain_regexes :: "string list"
  c_ipv4_cidrs :: "(u32 \<times> u8) list"
  c_ipv6_cidrs :: "(u128 \<times> u8) list"
  c_ports :: "(u16 \<times> u16) list"

definition CompiledRuleSet_default :: CompiledRuleSet where
  "CompiledRuleSet_default =
     \<lparr>c_domains = [], c_domain_suffixes = [], c_domain_keywords = [], c_domain_regexes = [],
      c_ipv4_cidrs = [], c_ipv6_cidrs = [], c_ports = []\<rparr>"

definition push_domain :: "string \<Rightarrow> CompiledRuleSet \<Rightarrow> CompiledRuleSet" where
  "push_domain d = c_domains_update (\<lambda>ds. ds @ [d])"

definition push_suffix :: "string \<Rightarrow> CompiledRuleSet \<Rightarrow> CompiledRuleSet" where
  "push_suffix d = c_domain_suffixes_update (\<lambda>ds. ds @ [d])"

definition push_keyword :: "string \<Rightarrow> CompiledRuleSet \<Rightarrow> CompiledRuleSet" where
  "push_keyword k = c_domain_keywords_update (\<lambda>ks. ks @ [k])"

definition push_regex :: "string \<Rightarrow> CompiledRuleSet \<Rightarrow> CompiledRuleSet" where
  "push_regex r = c_domain_regexes_update (\<lambda>rs. rs @ [r])"

definition push_ipv4 :: "u32 \<times> u8 \<Rightarrow> CompiledRuleSet \<Rightarrow> CompiledRuleSet" where
  "push_ipv4 c = c_ipv4_cidrs_update (\<lambda>cs. cs @ [c])"

definition push_ipv6 :: "u128 \<times> u8 \<Rightarrow> CompiledRuleSet \<Rightarrow> CompiledRuleSet" where
  "push_ipv6 c = c_ipv6_cidrs_update (\<lambda>cs. cs @ [c])"

definition push_port :: "u16 \<times> u16 \<Rightarrow> CompiledRuleSet \<Rightarrow> CompiledRuleSet" where
  "push_port p = c_ports_update (\<lambda>ps. ps @ [p])"

lemmas push_defs = push_domain_def push_suffix_def push_keyword_def push_regex_def push_ipv4_def
  push_ipv6_def push_port_def

text \<open>The \<open>match key\<close> of \<open>from_text\<close>.\<close>

definition text_rule ::
  "('f, 'r) crates \<Rightarrow> nat \<Rightarrow> string \<Rightarrow> string \<Rightarrow> CompiledRuleSet \<Rightarrow> RuleSetError + CompiledRuleSet" where
  "text_rule cr line key value out =
     (if key = ''domain'' then
        res_bind (validate_domain_len value line) (\<lambda>_. Inr (push_domain (to_ascii_lowercase value) out))
      else if key = ''domain-suffix'' then
        let v = trim_start_matches CHR ''.'' value in
        res_bind (validate_domain_len v line) (\<lambda>_. Inr (push_suffix (to_ascii_lowercase v) out))
      else if key = ''domain-keyword'' then Inr (push_keyword (to_ascii_lowercase value) out)
      else if key = ''domain-regex'' then
        res_bind (map_err (InvalidRegex value) (regex_new cr value)) (\<lambda>_. Inr (push_regex value out))
      else if key = ''ip-cidr'' then res_bind (parse_ipv4_cidr value) (\<lambda>c. Inr (push_ipv4 c out))
      else if key = ''ip-cidr6'' then res_bind (parse_ipv6_cidr value) (\<lambda>c. Inr (push_ipv6 c out))
      else if key = ''port'' then res_bind (parse_port_range value) (\<lambda>r. Inr (push_port r out))
      else Inl (ParseError line (''unknown rule type '' @ quoted key)))"

definition text_line ::
  "('f, 'r) crates \<Rightarrow> nat \<times> string \<Rightarrow> CompiledRuleSet \<Rightarrow> RuleSetError + CompiledRuleSet" where
  "text_line cr numbered out =
     (let line = fst numbered + 1; trimmed = trim (snd numbered) in
      if trimmed = [] \<or> starts_with trimmed ''#'' then Inr out
      else
        res_bind (ok_or (ParseError line (''expected '' @ quoted ''key: value'' @ '', got '' @ quoted trimmed))
            (split_once CHR '':'' trimmed))
          (\<lambda>(k, v). text_rule cr line (trim k) (trim v) out))"

definition CompiledRuleSet_from_text :: "('f, 'r) crates \<Rightarrow> string \<Rightarrow> RuleSetError + CompiledRuleSet" where
  "CompiledRuleSet_from_text cr src =
     res_fold (text_line cr) (List.enumerate 0 (lines src)) CompiledRuleSet_default"

text \<open>
  A sing-box rule. A nested rule is a JSON value that is converted when the loop reaches it; the
  value is represented by the result of that conversion (\<open>Unconvertible\<close> with the message of
  \<open>serde_json::from_value\<close>).
\<close>

datatype SingBoxRule =
  SingBoxRule (sb_domain: "string list") (sb_domain_suffix: "string list") (sb_domain_keyword: "string list")
    (sb_domain_regex: "string list") (sb_ip_cidr: "string list") (sb_port: "u16 list")
    (sb_port_range: "string list") (sb_sub_rules: "RawRule list")
and RawRule = Unconvertible string | Converted SingBoxRule

text \<open>The messages of the two conversion failures, in UTF-8.\<close>

definition parse_failed :: string where
  "parse_failed = of_bytes [0xE8, 0xA7, 0xA3, 0xE6, 0x9E, 0x90, 0xE5, 0xA4, 0xB1, 0xE8, 0xB4, 0xA5]"

definition singbox_cidr :: "string \<Rightarrow> CompiledRuleSet \<Rightarrow> RuleSetError + CompiledRuleSet" where
  "singbox_cidr raw out =
     (let cidr = trim raw in
      if CHR '':'' \<in> set cidr then res_bind (parse_ipv6_cidr cidr) (\<lambda>c. Inr (push_ipv6 c out))
      else res_bind (parse_ipv4_cidr cidr) (\<lambda>c. Inr (push_ipv4 c out)))"

definition singbox_domain :: "string \<Rightarrow> CompiledRuleSet \<Rightarrow> RuleSetError + CompiledRuleSet" where
  "singbox_domain d out =
     (let lower = to_ascii_lowercase (trim d)
      in res_bind (validate_domain_len lower 0) (\<lambda>_. Inr (push_domain lower out)))"

definition singbox_suffix :: "string \<Rightarrow> CompiledRuleSet \<Rightarrow> RuleSetError + CompiledRuleSet" where
  "singbox_suffix d out =
     (let v = to_ascii_lowercase (trim_start_matches CHR ''.'' (trim d))
      in res_bind (validate_domain_len v 0) (\<lambda>_. Inr (push_suffix v out)))"

definition singbox_keyword :: "string \<Rightarrow> CompiledRuleSet \<Rightarrow> RuleSetError + CompiledRuleSet" where
  "singbox_keyword k out = Inr (push_keyword (to_ascii_lowercase (trim k)) out)"

definition singbox_regex ::
  "('f, 'r) crates \<Rightarrow> string \<Rightarrow> CompiledRuleSet \<Rightarrow> RuleSetError + CompiledRuleSet" where
  "singbox_regex cr r out = res_bind (map_err (InvalidRegex r) (regex_new cr r)) (\<lambda>_. Inr (push_regex r out))"

definition singbox_port :: "u16 \<Rightarrow> CompiledRuleSet \<Rightarrow> RuleSetError + CompiledRuleSet" where
  "singbox_port p out = Inr (push_port (p, p) out)"

definition singbox_port_range :: "string \<Rightarrow> CompiledRuleSet \<Rightarrow> RuleSetError + CompiledRuleSet" where
  "singbox_port_range pr out = res_bind (parse_singbox_port_range pr) (\<lambda>r. Inr (push_port r out))"

definition singbox_fields ::
  "('f, 'r) crates \<Rightarrow> SingBoxRule \<Rightarrow> CompiledRuleSet \<Rightarrow> RuleSetError + CompiledRuleSet" where
  "singbox_fields cr rule out =
     res_bind (res_fold singbox_domain (sb_domain rule) out) (\<lambda>out.
     res_bind (res_fold singbox_suffix (sb_domain_suffix rule) out) (\<lambda>out.
     res_bind (res_fold singbox_keyword (sb_domain_keyword rule) out) (\<lambda>out.
     res_bind (res_fold (singbox_regex cr) (sb_domain_regex rule) out) (\<lambda>out.
     res_bind (res_fold singbox_cidr (sb_ip_cidr rule) out) (\<lambda>out.
     res_bind (res_fold singbox_port (sb_port rule) out) (\<lambda>out.
       res_fold singbox_port_range (sb_port_range rule) out))))))"

fun ingest_singbox_rule ::
    "('f, 'r) crates \<Rightarrow> SingBoxRule \<Rightarrow> CompiledRuleSet \<Rightarrow> RuleSetError + CompiledRuleSet"
  and ingest_sub_rules ::
    "('f, 'r) crates \<Rightarrow> RawRule list \<Rightarrow> CompiledRuleSet \<Rightarrow> RuleSetError + CompiledRuleSet" where
  "ingest_singbox_rule cr (SingBoxRule d ds dk dr ic p pr subs) out =
     res_bind (ingest_sub_rules cr subs out) (singbox_fields cr (SingBoxRule d ds dk dr ic p pr subs))"
| "ingest_sub_rules cr [] out = Inr out"
| "ingest_sub_rules cr (Unconvertible e # subs) out = Inl (ParseError 0 (''sing-box sub-rule '' @ parse_failed @ '': '' @ e))"
| "ingest_sub_rules cr (Converted sub # subs) out = res_bind (ingest_singbox_rule cr sub out) (ingest_sub_rules cr subs)"

text \<open>\<open>parse\<close> is \<open>serde_json::from_str\<close> on the envelope: its rules, each as converted by
  \<open>serde_json::from_value\<close>.\<close>

definition from_singbox_json ::
  "('f, 'r) crates \<Rightarrow> (string \<Rightarrow> string + RawRule list) \<Rightarrow> string
     \<Rightarrow> RuleSetError + CompiledRuleSet" where
  "from_singbox_json cr parse src =
     res_bind (map_err (\<lambda>e. ParseError 0 (''sing-box JSON '' @ parse_failed @ '': '' @ e)) (parse src)) (\<lambda>rules.
       res_fold (\<lambda>raw_rule out. case raw_rule of
           Unconvertible e \<Rightarrow> Inl (ParseError 0 (''sing-box rule '' @ parse_failed @ '': '' @ e))
         | Converted rule \<Rightarrow> ingest_singbox_rule cr rule out) rules CompiledRuleSet_default)"

section \<open>Keys and serialization\<close>

definition domain_to_fst_key :: "string \<Rightarrow> string" where
  "domain_to_fst_key domain = join ''.'' (rev (split_on CHR ''.'' domain))"

definition suffix_to_fst_key :: "string \<Rightarrow> string" where
  "suffix_to_fst_key domain = join ''.'' (rev (split_on CHR ''.'' domain)) @ ''.''"

text \<open>\<open>sort_unstable\<close> then \<open>dedup\<close> on strings, which Rust orders by their bytes.\<close>

definition sorted_keys :: "string list \<Rightarrow> bytes list" where
  "sorted_keys keys = remdups_adj (sort (map as_bytes keys))"

definition build_domain_fst :: "('f, 'r) crates \<Rightarrow> string list \<Rightarrow> RuleSetError + bytes" where
  "build_domain_fst cr domains =
     (if domains = [] then Inr []
      else map_err (ParseError 0) (fst_build cr (sorted_keys (map domain_to_fst_key domains))))"

definition build_suffix_fst :: "('f, 'r) crates \<Rightarrow> string list \<Rightarrow> RuleSetError + bytes" where
  "build_suffix_fst cr suffixes =
     (if suffixes = [] then Inr []
      else map_err (ParseError 0) (fst_build cr (sorted_keys (map suffix_to_fst_key suffixes))))"

definition all_sections :: "bytes \<Rightarrow> bytes \<Rightarrow> CompiledRuleSet \<Rightarrow> (SectionType \<times> bytes) list" where
  "all_sections domain_fst suffix_fst c =
     [(SecDomainFst, domain_fst),
      (SecDomainSuffixFst, suffix_fst),
      (SecDomainKeyword, encode_strings (c_domain_keywords c)),
      (SecDomainRegex, encode_strings (c_domain_regexes c)),
      (SecIpCidrV4, encode_ipv4_cidrs (c_ipv4_cidrs c)),
      (SecIpCidrV6, encode_ipv6_cidrs (c_ipv6_cidrs c)),
      (SecPort, encode_ports (c_ports c))]"

definition section_bytes :: "SectionType \<times> bytes \<Rightarrow> bytes" where
  "section_bytes s =
     (case s of (sec_type, data) \<Rightarrow>
        section_code sec_type # u32_le (word_of_nat (entry_count_for sec_type data))
          @ u32_le (word_of_nat (length data)) @ data)"

definition file_header :: "nat \<Rightarrow> bytes" where
  "file_header n = MAGIC @ [VERSION, 0] @ u32_le (word_of_nat n) @ replicate 4 0"

definition serialize :: "('f, 'r) crates \<Rightarrow> CompiledRuleSet \<Rightarrow> RuleSetError + bytes" where
  "serialize cr c =
     res_bind (build_domain_fst cr (c_domains c)) (\<lambda>domain_fst.
     res_bind (build_suffix_fst cr (c_domain_suffixes c)) (\<lambda>suffix_fst.
       let sections = filter (\<lambda>(_, data). data \<noteq> []) (all_sections domain_fst suffix_fst c)
       in Inr (file_header (length sections) @ concat (map section_bytes sections))))"

definition total_entries :: "CompiledRuleSet \<Rightarrow> nat" where
  "total_entries c =
     length (c_domains c) + length (c_domain_suffixes c) + length (c_domain_keywords c)
     + length (c_domain_regexes c) + length (c_ipv4_cidrs c) + length (c_ipv6_cidrs c) + length (c_ports c)"

section \<open>What the front ends accept is well formed\<close>

definition domain_ok :: "string \<Rightarrow> bool" where
  "domain_ok d \<longleftrightarrow> length d \<le> 255 \<and> to_ascii_lowercase d = d"

definition suffix_ok :: "string \<Rightarrow> bool" where
  "suffix_ok d \<longleftrightarrow> domain_ok d \<and> (d = [] \<or> hd d \<noteq> CHR ''.'')"

definition ipv4_cidr_ok :: "u32 \<times> u8 \<Rightarrow> bool" where
  "ipv4_cidr_ok c \<longleftrightarrow> unat (snd c) \<le> 32 \<and> mask_ipv4 (fst c) (snd c) = fst c"

definition ipv6_cidr_ok :: "u128 \<times> u8 \<Rightarrow> bool" where
  "ipv6_cidr_ok c \<longleftrightarrow> unat (snd c) \<le> 128 \<and> mask_ipv6 (fst c) (snd c) = fst c"

definition port_range_ok :: "u16 \<times> u16 \<Rightarrow> bool" where
  "port_range_ok r \<longleftrightarrow> fst r \<le> snd r"

definition compiled_ok :: "('f, 'r) crates \<Rightarrow> CompiledRuleSet \<Rightarrow> bool" where
  "compiled_ok cr c \<longleftrightarrow>
     list_all domain_ok (c_domains c) \<and> list_all suffix_ok (c_domain_suffixes c)
     \<and> list_all (\<lambda>k. to_ascii_lowercase k = k) (c_domain_keywords c)
     \<and> list_all (\<lambda>r. regex_new cr r = Inr ()) (c_domain_regexes c)
     \<and> list_all ipv4_cidr_ok (c_ipv4_cidrs c) \<and> list_all ipv6_cidr_ok (c_ipv6_cidrs c)
     \<and> list_all port_range_ok (c_ports c)"

lemma mask_ipv4_idem: "mask_ipv4 (mask_ipv4 a p) p = mask_ipv4 a p"
  by (simp add: mask_ipv4_def and.assoc)

lemma mask_ipv6_idem: "mask_ipv6 (mask_ipv6 a p) p = mask_ipv6 a p"
  by (simp add: mask_ipv6_def and.assoc)

lemma unat_u8_le: "n \<le> 255 \<Longrightarrow> unat (word_of_nat n :: u8) = n"
  by (simp add: unat_u8_of_nat)

lemma parse_ipv4_cidr_ok: "parse_ipv4_cidr s = Inr c \<Longrightarrow> ipv4_cidr_ok c"
  by (auto simp: parse_ipv4_cidr_def ipv4_cidr_ok_def result_simps mask_ipv4_idem unat_u8_le split: if_splits)

lemma parse_ipv6_cidr_ok: "parse_ipv6_cidr s = Inr c \<Longrightarrow> ipv6_cidr_ok c"
  by (auto simp: parse_ipv6_cidr_def ipv6_cidr_ok_def result_simps mask_ipv6_idem unat_u8_le split: if_splits)

lemma parse_port_range_ok: "parse_port_range s = Inr r \<Longrightarrow> port_range_ok r"
  by (auto simp: parse_port_range_def parse_bounds_def port_range_ok_def result_simps split: if_splits option.splits)

lemma parse_singbox_port_range_ok: "parse_singbox_port_range s = Inr r \<Longrightarrow> port_range_ok r"
  using parse_port_range_ok
  by (auto simp: parse_singbox_port_range_def parse_bounds_def port_range_ok_def result_simps
      split: if_splits option.splits)

lemma validate_domain_len_Inr: "validate_domain_len d line = Inr u \<longleftrightarrow> length d \<le> 255"
  by (simp add: validate_domain_len_def)

lemma lower_dot: "ascii_lower c = CHR ''.'' \<longleftrightarrow> c = CHR ''.''"
  by (rule ascii_lower_eq_iff) (simp_all add: is_ascii_uppercase_def code_def)

lemma suffix_ok_trimmed:
  assumes "length (trim_start_matches CHR ''.'' v) \<le> 255"
  shows "suffix_ok (to_ascii_lowercase (trim_start_matches CHR ''.'' v))"
proof (cases "trim_start_matches CHR ''.'' v")
  case (Cons c cs)
  then have "c \<noteq> CHR ''.''" using hd_dropWhile [of "\<lambda>x. x = CHR ''.''" v] by (auto simp: trim_start_matches_def)
  with Cons assms show ?thesis by (simp add: suffix_ok_def domain_ok_def to_ascii_lowercase_def lower_dot)
qed (simp add: suffix_ok_def domain_ok_def to_ascii_lowercase_def)

lemma port_range_ok_single [simp]: "port_range_ok (p, p)"
  by (simp add: port_range_ok_def)

text \<open>Every push of a well-formed value keeps the set well formed.\<close>

lemma compiled_ok_push [simp]:
  "compiled_ok cr (push_domain d c) \<longleftrightarrow> compiled_ok cr c \<and> domain_ok d"
  "compiled_ok cr (push_suffix d c) \<longleftrightarrow> compiled_ok cr c \<and> suffix_ok d"
  "compiled_ok cr (push_keyword k c) \<longleftrightarrow> compiled_ok cr c \<and> to_ascii_lowercase k = k"
  "compiled_ok cr (push_regex r c) \<longleftrightarrow> compiled_ok cr c \<and> regex_new cr r = Inr ()"
  "compiled_ok cr (push_ipv4 x c) \<longleftrightarrow> compiled_ok cr c \<and> ipv4_cidr_ok x"
  "compiled_ok cr (push_ipv6 y c) \<longleftrightarrow> compiled_ok cr c \<and> ipv6_cidr_ok y"
  "compiled_ok cr (push_port p c) \<longleftrightarrow> compiled_ok cr c \<and> port_range_ok p"
  by (auto simp: compiled_ok_def push_defs)

lemma compiled_ok_default [simp]: "compiled_ok cr CompiledRuleSet_default"
  by (simp add: compiled_ok_def CompiledRuleSet_default_def)

lemmas front_end_ok = parse_ipv4_cidr_ok parse_ipv6_cidr_ok parse_port_range_ok
  parse_singbox_port_range_ok suffix_ok_trimmed

lemma text_rule_ok: "text_rule cr line k v c = Inr c' \<Longrightarrow> compiled_ok cr c \<Longrightarrow> compiled_ok cr c'"
  by (auto simp: text_rule_def result_simps validate_domain_len_Inr domain_ok_def Let_def
      intro: front_end_ok split: if_splits)

lemma text_line_ok: "text_line cr l c = Inr c' \<Longrightarrow> compiled_ok cr c \<Longrightarrow> compiled_ok cr c'"
  by (auto simp: text_line_def Let_def result_simps text_rule_ok split: if_splits)

lemma from_text_ok: "CompiledRuleSet_from_text cr src = Inr c \<Longrightarrow> compiled_ok cr c"
  unfolding CompiledRuleSet_from_text_def
  by (rule res_fold_invariant [where P = "compiled_ok cr"]) (auto intro: text_line_ok)

lemma res_fold_ok:
  "res_fold f xs c = Inr c' \<Longrightarrow> compiled_ok cr c \<Longrightarrow>
     (\<And>x c c'. f x c = Inr c' \<Longrightarrow> compiled_ok cr c \<Longrightarrow> compiled_ok cr c') \<Longrightarrow> compiled_ok cr c'"
  by (rule res_fold_invariant [where P = "compiled_ok cr"])

lemma singbox_step_ok:
  "singbox_domain d c = Inr c' \<Longrightarrow> compiled_ok cr c \<Longrightarrow> compiled_ok cr c'"
  "singbox_suffix d c = Inr c' \<Longrightarrow> compiled_ok cr c \<Longrightarrow> compiled_ok cr c'"
  "singbox_keyword d c = Inr c' \<Longrightarrow> compiled_ok cr c \<Longrightarrow> compiled_ok cr c'"
  "singbox_regex cr d c = Inr c' \<Longrightarrow> compiled_ok cr c \<Longrightarrow> compiled_ok cr c'"
  "singbox_cidr d c = Inr c' \<Longrightarrow> compiled_ok cr c \<Longrightarrow> compiled_ok cr c'"
  "singbox_port p c = Inr c' \<Longrightarrow> compiled_ok cr c \<Longrightarrow> compiled_ok cr c'"
  "singbox_port_range d c = Inr c' \<Longrightarrow> compiled_ok cr c \<Longrightarrow> compiled_ok cr c'"
  by (auto simp: singbox_domain_def singbox_suffix_def singbox_keyword_def singbox_regex_def singbox_cidr_def
      singbox_port_def singbox_port_range_def Let_def result_simps validate_domain_len_Inr domain_ok_def
      intro: front_end_ok split: if_splits)

lemma singbox_fields_ok:
  assumes "singbox_fields cr rule c = Inr c'" and c: "compiled_ok cr c"
  shows "compiled_ok cr c'"
proof -
  obtain c1 c2 c3 c4 c5 c6 where
    1: "res_fold singbox_domain (sb_domain rule) c = Inr c1"
    and 2: "res_fold singbox_suffix (sb_domain_suffix rule) c1 = Inr c2"
    and 3: "res_fold singbox_keyword (sb_domain_keyword rule) c2 = Inr c3"
    and 4: "res_fold (singbox_regex cr) (sb_domain_regex rule) c3 = Inr c4"
    and 5: "res_fold singbox_cidr (sb_ip_cidr rule) c4 = Inr c5"
    and 6: "res_fold singbox_port (sb_port rule) c5 = Inr c6"
    and 7: "res_fold singbox_port_range (sb_port_range rule) c6 = Inr c'"
    using assms(1) unfolding singbox_fields_def res_bind_Inr_iff by blast
  show ?thesis
    by (intro res_fold_ok [OF 7] res_fold_ok [OF 6] res_fold_ok [OF 5] res_fold_ok [OF 4]
        res_fold_ok [OF 3] res_fold_ok [OF 2] res_fold_ok [OF 1] c) (erule (1) singbox_step_ok)+
qed

lemma ingest_ok:
  "ingest_singbox_rule cr rule c = Inr c' \<Longrightarrow> compiled_ok cr c \<Longrightarrow> compiled_ok cr c'"
  "ingest_sub_rules cr subs c = Inr c' \<Longrightarrow> compiled_ok cr c \<Longrightarrow> compiled_ok cr c'"
  by (induction cr rule c and cr subs c arbitrary: c' and c' rule: ingest_singbox_rule_ingest_sub_rules.induct)
    (auto simp: result_simps dest: singbox_fields_ok)

lemma from_singbox_json_ok: "from_singbox_json cr parse src = Inr c \<Longrightarrow> compiled_ok cr c"
  by (auto simp: from_singbox_json_def result_simps split: RawRule.splits
      intro: ingest_ok elim!: res_fold_ok [where cr = cr])

section \<open>The keys of the finite-state sets\<close>

abbreviation labels :: "string \<Rightarrow> string list" where
  "labels d \<equiv> split_on CHR ''.'' d"

lemma labels_join: "ls \<noteq> [] \<Longrightarrow> set ls \<subseteq> set (labels d) \<Longrightarrow> labels (join ''.'' ls) = ls"
  by (rule split_on_join) (auto dest: split_on_pieces)

lemma labels_fst_key: "labels (domain_to_fst_key d) = rev (labels d)"
  by (simp add: domain_to_fst_key_def labels_join [of _ d])

lemma domain_to_fst_key_inject: "domain_to_fst_key d = domain_to_fst_key e \<longleftrightarrow> d = e"
  by (metis labels_fst_key rev_rev_ident split_on_inject)

lemma length_join: "ls \<noteq> [] \<Longrightarrow> length (join ''.'' ls) + 1 = sum_list (map length ls) + length ls"
proof (induction ls)
  case (Cons l ls)
  then show ?case by (cases "ls = []") (simp_all add: join_Cons)
qed simp

lemma length_fst_key: "length (domain_to_fst_key d) = length d"
proof -
  have "length (domain_to_fst_key d) + 1 = length (join ''.'' (labels d)) + 1"
    unfolding domain_to_fst_key_def by (simp only: length_join rev_is_Nil_conv split_on_not_Nil not_False_eq_True)
      (simp add: rev_map [symmetric] sum_list_rev)
  then show ?thesis by simp
qed

lemma suffix_to_fst_key_eq: "suffix_to_fst_key d = domain_to_fst_key d @ ''.''"
  by (simp add: suffix_to_fst_key_def domain_to_fst_key_def)

lemma suffix_to_fst_key_inject: "suffix_to_fst_key d = suffix_to_fst_key e \<longleftrightarrow> d = e"
  by (simp add: suffix_to_fst_key_eq domain_to_fst_key_inject)

lemma set_sorted_keys: "set (sorted_keys keys) = as_bytes ` set keys"
  by (simp add: sorted_keys_def)

lemma sorted_keys_strict: "sorted_wrt (<) (sorted_keys keys)"
  unfolding sorted_keys_def by (intro sorted_distinct_strict sorted_remdups_adj_strict) simp_all

text \<open>The reference meaning of a suffix rule: the labels of the rule end the labels of the name.\<close>

definition suffix_match :: "string \<Rightarrow> string \<Rightarrow> bool" where
  "suffix_match s d \<longleftrightarrow> (\<exists>pre. labels d = pre @ labels s)"

lemma suffix_match_code [code]:
  "suffix_match s d \<longleftrightarrow> drop (length (labels d) - length (labels s)) (labels d) = labels s"
proof
  assume "drop (length (labels d) - length (labels s)) (labels d) = labels s"
  then show "suffix_match s d" unfolding suffix_match_def by (metis append_take_drop_id)
qed (auto simp: suffix_match_def)

text \<open>The key of a suffix rule is what a query builds from some number of trailing labels of the
  name exactly when the rule matches.\<close>

lemma suffix_key_prefix:
  "(\<exists>k. 0 < k \<and> k \<le> length (labels d) \<and> suffix_to_fst_key s = join ''.'' (take k (rev (labels d))) @ ''.'')
     \<longleftrightarrow> suffix_match s d"
proof
  assume "\<exists>k. 0 < k \<and> k \<le> length (labels d) \<and> suffix_to_fst_key s = join ''.'' (take k (rev (labels d))) @ ''.''"
  then obtain k where k: "0 < k" "k \<le> length (labels d)"
    and eq: "domain_to_fst_key s = join ''.'' (take k (rev (labels d)))"
    by (auto simp: suffix_to_fst_key_eq)
  have "take k (rev (labels d)) \<noteq> []" using k by auto
  moreover have "set (take k (rev (labels d))) \<subseteq> set (labels d)" using set_take_subset by fastforce
  ultimately have "rev (labels s) = take k (rev (labels d))"
    using labels_fst_key [of s] eq labels_join by metis
  then have "rev (labels d) = rev (labels s) @ drop k (rev (labels d))" by simp
  then have "labels d = rev (drop k (rev (labels d))) @ labels s" by (metis rev_append rev_rev_ident)
  then show "suffix_match s d" unfolding suffix_match_def by blast
next
  assume "suffix_match s d"
  then obtain pre where pre: "labels d = pre @ labels s" by (auto simp: suffix_match_def)
  let ?k = "length (labels s)"
  have "0 < ?k" by simp
  moreover have "?k \<le> length (labels d)" by (simp add: pre)
  moreover have "suffix_to_fst_key s = join ''.'' (take ?k (rev (labels d))) @ ''.''"
    by (simp add: pre suffix_to_fst_key_def)
  ultimately show "\<exists>k. 0 < k \<and> k \<le> length (labels d) \<and> suffix_to_fst_key s = join ''.'' (take k (rev (labels d))) @ ''.''"
    by blast
qed

text \<open>In terms of characters: the name is the rule itself or ends in a dot and the rule.\<close>

lemma suffix_match_chars: "suffix_match s d \<longleftrightarrow> d = s \<or> (\<exists>p. d = p @ CHR ''.'' # s)"
proof -
  have "\<exists>pre. labels (p @ CHR ''.'' # s) = pre @ labels s" for p
  proof (induction p)
    case (Cons c p)
    then obtain pre where pre: "labels (p @ CHR ''.'' # s) = pre @ labels s" by blast
    show ?case
    proof (cases "pre = []")
      case True
      have "length (labels (p @ CHR ''.'' # s)) > length (labels s)"
      proof (induction p)
        case (Cons c p)
        then show ?case by (auto split: list.splits)
      qed simp
      with True pre show ?thesis by simp
    next
      case False
      with pre show ?thesis by (cases pre) (auto simp: Cons_eq_append_conv split: list.splits)
    qed
  qed (auto intro: exI [of _ "[[]]"])
  moreover have "d = s \<or> (\<exists>p. d = p @ CHR ''.'' # s)" if "labels d = pre @ labels s" for pre
  proof (cases "pre = []")
    case True
    with that show ?thesis by (simp add: split_on_inject)
  next
    case False
    have join_app: "join ''.'' (xs @ ys) = join ''.'' xs @ ''.'' @ join ''.'' ys" if "xs \<noteq> []" "ys \<noteq> []" for xs ys
      using that
    proof (induction xs)
      case (Cons x xs)
      then show ?case by (cases xs) (auto simp: join_Cons)
    qed simp
    have "d = join ''.'' (labels d)" by simp
    also have "\<dots> = join ''.'' pre @ ''.'' @ s" using that False by (simp add: join_app)
    finally show ?thesis by auto
  qed
  ultimately show ?thesis unfolding suffix_match_def by auto
qed

end
