(* ===== verification/Ruleset_Loader.thy ===== *)
theory Ruleset_Loader
  imports Ruleset_Compiler
begin

text \<open>
  The rule-set loader (\<open>src/ruleset/loader.rs\<close>): header check, section loop and the fill of
  \<open>LoadedRuleSet\<close>. The main results: what the compiler serializes, the loader reads back field by
  field, and a file that is not a rule set is rejected with the documented error.
\<close>

section \<open>Loading\<close>

record LoadedRuleSet =
  l_domains :: "string list"
  l_domain_suffixes :: "string list"
  l_domain_fst :: bytes
  l_domain_suffix_fst :: bytes
  l_domain_keywords :: "string list"
  l_domain_regexes :: "string list"
  l_ipv4_cidrs :: "(u32 \<times> u8) list"
  l_ipv6_cidrs :: "(u128 \<times> u8) list"
  l_ports :: "(u16 \<times> u16) list"

definition LoadedRuleSet_default :: LoadedRuleSet where
  "LoadedRuleSet_default =
     \<lparr>l_domains = [], l_domain_suffixes = [], l_domain_fst = [], l_domain_suffix_fst = [],
      l_domain_keywords = [], l_domain_regexes = [], l_ipv4_cidrs = [], l_ipv6_cidrs = [], l_ports = []\<rparr>"

text \<open>\<open>Read::read_exact\<close> on a byte slice.\<close>

definition read_exact :: "nat \<Rightarrow> bytes \<Rightarrow> (bytes \<times> bytes) option" where
  "read_exact n r = (if length r < n then None else Some (take n r, drop n r))"

definition apply_section ::
  "SectionType \<Rightarrow> nat \<Rightarrow> bytes \<Rightarrow> LoadedRuleSet \<Rightarrow> RuleSetError + LoadedRuleSet" where
  "apply_section sec_type entry_count data out =
     (case sec_type of
        SecDomain \<Rightarrow> res_bind (decode_strings data entry_count) (\<lambda>v. Inr (out\<lparr>l_domains := v\<rparr>))
      | SecDomainSuffix \<Rightarrow> res_bind (decode_strings data entry_count) (\<lambda>v. Inr (out\<lparr>l_domain_suffixes := v\<rparr>))
      | SecDomainFst \<Rightarrow> Inr (out\<lparr>l_domain_fst := data\<rparr>)
      | SecDomainSuffixFst \<Rightarrow> Inr (out\<lparr>l_domain_suffix_fst := data\<rparr>)
      | SecDomainKeyword \<Rightarrow> res_bind (decode_strings data entry_count) (\<lambda>v. Inr (out\<lparr>l_domain_keywords := v\<rparr>))
      | SecDomainRegex \<Rightarrow> res_bind (decode_strings data entry_count) (\<lambda>v. Inr (out\<lparr>l_domain_regexes := v\<rparr>))
      | SecIpCidrV4 \<Rightarrow> res_bind (decode_ipv4_cidrs data entry_count) (\<lambda>v. Inr (out\<lparr>l_ipv4_cidrs := v\<rparr>))
      | SecIpCidrV6 \<Rightarrow> res_bind (decode_ipv6_cidrs data entry_count) (\<lambda>v. Inr (out\<lparr>l_ipv6_cidrs := v\<rparr>))
      | SecPort \<Rightarrow> res_bind (decode_ports data entry_count) (\<lambda>v. Inr (out\<lparr>l_ports := v\<rparr>)))"

fun load_sections :: "nat \<Rightarrow> bytes \<Rightarrow> LoadedRuleSet \<Rightarrow> RuleSetError + LoadedRuleSet" where
  "load_sections 0 r out = Inr out"
| "load_sections (Suc n) r out =
     res_bind (ok_or Io (read_exact SECTION_HEADER_LEN r)) (\<lambda>(h, r).
     let entry_count = unat (u32_of_le (take 4 (drop 1 h)));
         byte_len = unat (u32_of_le (take 4 (drop 5 h)))
     in res_bind (map_err UnknownSection (section_try_from (h ! 0))) (\<lambda>sec_type.
        res_bind (ok_or (Truncated byte_len 0) (read_exact byte_len r)) (\<lambda>(data, r).
        res_bind (apply_section sec_type entry_count data out) (load_sections n r))))"

definition LoadedRuleSet_from_reader :: "bytes \<Rightarrow> RuleSetError + LoadedRuleSet" where
  "LoadedRuleSet_from_reader r =
     res_bind (ok_or BadMagic (read_exact HEADER_LEN r)) (\<lambda>(h, r).
       if take 4 h \<noteq> MAGIC then Inl BadMagic
       else let ver = h ! 4 in
         if ver \<noteq> VERSION \<and> ver \<noteq> VERSION_V1 then Inl (UnsupportedVersion ver)
         else load_sections (unat (u32_of_le (take 4 (drop 6 h)))) r LoadedRuleSet_default)"

definition LoadedRuleSet_from_bytes :: "bytes \<Rightarrow> RuleSetError + LoadedRuleSet" where
  "LoadedRuleSet_from_bytes data = LoadedRuleSet_from_reader data"

section \<open>The serializer's sections are read back\<close>

lemma read_exact_append [codec_simps]: "n = length a \<Longrightarrow> read_exact n (a @ b) = Some (a, b)"
  by (simp add: read_exact_def)

lemma count_strings_le: "count_strings data i \<le> length data - i"
proof (induction data i rule: count_strings.induct)
  case (1 data i)
  then show ?case by (subst count_strings.simps) fastforce
qed

lemma entry_count_le: "entry_count_for t d \<le> length d"
  using count_strings_le [of d 0]
  by (cases t) (auto simp: entry_count_for_def div_le_dividend)

lemma unat_u32_small: "n < 2 ^ 32 \<Longrightarrow> unat (word_of_nat n :: u32) = n"
  by (simp add: unsigned_of_nat take_bit_nat_eq_self)

lemma section_step:
  assumes "length d < 2 ^ 32"
  shows "load_sections (Suc n) (section_bytes (t, d) @ rest) out =
     res_bind (apply_section t (entry_count_for t d) d out) (load_sections n rest)"
proof -
  let ?h = "section_code t # u32_le (word_of_nat (entry_count_for t d)) @ u32_le (word_of_nat (length d))"
  have "entry_count_for t d < 2 ^ 32" using entry_count_le [of t d] assms by simp
  then have cnt: "unat (word_of_nat (entry_count_for t d) :: u32) = entry_count_for t d"
    and len: "unat (word_of_nat (length d) :: u32) = length d"
    using assms by (simp_all only: unat_u32_small)
  have "read_exact SECTION_HEADER_LEN (section_bytes (t, d) @ rest) = Some (?h, d @ rest)"
    using read_exact_append [of 9 ?h "d @ rest"]
    by (simp add: section_bytes_def format_consts codec_simps)
  then show ?thesis
    by (simp add: cnt len read_exact_append codec_simps)
qed

definition load_one :: "SectionType \<times> bytes \<Rightarrow> LoadedRuleSet \<Rightarrow> RuleSetError + LoadedRuleSet" where
  "load_one s out = (case s of (t, d) \<Rightarrow> apply_section t (entry_count_for t d) d out)"

lemma load_sections_concat:
  "list_all (\<lambda>(t, d). length d < 2 ^ 32) secs \<Longrightarrow>
     load_sections (length secs) (concat (map section_bytes secs)) out = res_fold load_one secs out"
proof (induction secs arbitrary: out)
  case (Cons s secs)
  obtain t d where s: "s = (t, d)" by (cases s)
  have d: "length d < 2 ^ 32" using Cons.prems s by simp
  have IH: "load_sections (length secs) (concat (map section_bytes secs)) = res_fold load_one secs"
    using Cons by (intro ext) simp
  show ?case
    using section_step [OF d, of "length secs" t "concat (map section_bytes secs)" out]
    by (simp add: s load_one_def [of "(t, d)"] IH del: load_sections.simps)
qed simp

text \<open>Leaving out the empty sections, and why it loses nothing: each section only writes its own
  field.\<close>

lemma res_fold_filter:
  "res_fold f (filter P xs) s = res_fold (\<lambda>x s. if P x then f x s else Inr s) xs s"
proof (induction xs arbitrary: s)
  case (Cons x xs)
  then have "res_fold f (filter P xs) = res_fold (\<lambda>x s. if P x then f x s else Inr s) xs" by (intro ext)
  then show ?case by simp
qed simp

lemma from_reader_header:
  assumes "n < 2 ^ 32"
  shows "LoadedRuleSet_from_reader (file_header n @ body) = load_sections n body LoadedRuleSet_default"
proof -
  have "read_exact HEADER_LEN (file_header n @ body) = Some (file_header n, body)"
    by (rule read_exact_append) (simp add: file_header_def format_consts codec_simps)
  moreover have "unat (word_of_nat n :: u32) = n" using assms by (rule unat_u32_small)
  ultimately show ?thesis
    by (simp add: LoadedRuleSet_from_reader_def file_header_def format_consts codec_simps nth_append Let_def)
qed

text \<open>The size limits of the format: one-byte string lengths and four-byte section lengths.\<close>

definition fits_format :: "bytes \<Rightarrow> bytes \<Rightarrow> CompiledRuleSet \<Rightarrow> bool" where
  "fits_format domain_fst suffix_fst c \<longleftrightarrow>
     list_all short_string (c_domain_keywords c) \<and> list_all short_string (c_domain_regexes c)
     \<and> list_all (\<lambda>(t, d). length d < 2 ^ 32) (all_sections domain_fst suffix_fst c)"

definition loaded_of :: "bytes \<Rightarrow> bytes \<Rightarrow> CompiledRuleSet \<Rightarrow> LoadedRuleSet" where
  "loaded_of domain_fst suffix_fst c =
     \<lparr>l_domains = [], l_domain_suffixes = [], l_domain_fst = domain_fst, l_domain_suffix_fst = suffix_fst,
      l_domain_keywords = c_domain_keywords c, l_domain_regexes = c_domain_regexes c,
      l_ipv4_cidrs = c_ipv4_cidrs c, l_ipv6_cidrs = c_ipv6_cidrs c, l_ports = c_ports c\<rparr>"

lemma load_all_sections:
  assumes "fits_format df sf c"
  shows "res_fold load_one (filter (\<lambda>(_, data). data \<noteq> []) (all_sections df sf c)) LoadedRuleSet_default =
    Inr (loaded_of df sf c)"
proof -
  have "list_all short_string (c_domain_keywords c)" "list_all short_string (c_domain_regexes c)"
    using assms by (simp_all add: fits_format_def)
  then show ?thesis
    unfolding res_fold_filter all_sections_def
    by (simp add: load_one_def apply_section_def LoadedRuleSet_default_def loaded_of_def decode_encode_strings
        decode_encode_ipv4_cidrs decode_encode_ipv6_cidrs decode_encode_ports entry_count_fixed)
qed

lemma load_serialized:
  assumes "build_domain_fst cr (c_domains c) = Inr df" and "build_suffix_fst cr (c_domain_suffixes c) = Inr sf"
    and "fits_format df sf c"
  shows "\<exists>bs. serialize cr c = Inr bs \<and> LoadedRuleSet_from_bytes bs = Inr (loaded_of df sf c)"
proof -
  let ?secs = "filter (\<lambda>(_, data). data \<noteq> []) (all_sections df sf c)"
  have "length ?secs \<le> 7"
    using length_filter_le [of _ "all_sections df sf c"] by (simp add: all_sections_def)
  then have n: "length ?secs < 2 ^ 32" by simp
  have "list_all (\<lambda>(t, d). length d < 2 ^ 32) ?secs"
    using assms(3) by (auto simp: fits_format_def list_all_iff)
  then have "LoadedRuleSet_from_bytes (file_header (length ?secs) @ concat (map section_bytes ?secs)) =
      Inr (loaded_of df sf c)"
    by (simp only: LoadedRuleSet_from_bytes_def from_reader_header [OF n] load_sections_concat
        load_all_sections [OF assms(3)])
  with assms(1,2) show ?thesis by (simp add: serialize_def Let_def)
qed

end
