(* ===== verification/Suffix_Trie.thy ===== *)
theory Suffix_Trie
  imports Ruleset_Format "HOL-Library.Sublist"
begin

text \<open>
  The suffix trie of \<open>src/ruleset/trie.rs\<close>: an arena of nodes addressed by \<open>u32\<close> indices, with
  the labels of a domain stored from the last to the first. An index outside the arena is a
  panic, modelled as \<open>None\<close>. The abstraction is the set of label paths that end in a terminal
  node; the locale \<open>suffix_index\<close> states what a client of the trie may rely on.
\<close>

section \<open>The arena and its operations\<close>

record TrieNode =
  children :: "string \<rightharpoonup> u32"
  is_terminal :: bool

record SuffixTrie =
  nodes :: "TrieNode list"

definition TrieNode_new :: TrieNode where
  "TrieNode_new = \<lparr>children = Map.empty, is_terminal = False\<rparr>"

definition SuffixTrie_new :: SuffixTrie where
  "SuffixTrie_new = \<lparr>nodes = [TrieNode_new]\<rparr>"

definition get_node :: "TrieNode list \<Rightarrow> u32 \<Rightarrow> TrieNode option" where
  "get_node ns i = (if unat i < length ns then Some (ns ! unat i) else None)"

text \<open>\<open>str::rsplit('.')\<close>: the labels from the last to the first.\<close>

definition rsplit_labels :: "string \<Rightarrow> string list" where
  "rsplit_labels s = rev (split_on (CHR ''.'') s)"

fun insert_labels :: "TrieNode list \<Rightarrow> u32 \<Rightarrow> string list \<Rightarrow> (TrieNode list \<times> u32) option" where
  "insert_labels ns cur [] = Some (ns, cur)"
| "insert_labels ns cur (label # ls) =
     (case get_node ns cur of
        None \<Rightarrow> None
      | Some nd \<Rightarrow>
          (case children nd label of
             Some idx \<Rightarrow> insert_labels ns idx ls
           | None \<Rightarrow>
               (let new_idx = word_of_nat (length ns)
                in insert_labels
                     ((ns @ [TrieNode_new])[unat cur := nd\<lparr>children := (children nd)(label \<mapsto> new_idx)\<rparr>])
                     new_idx ls)))"

definition SuffixTrie_insert :: "SuffixTrie \<Rightarrow> string \<Rightarrow> SuffixTrie option" where
  "SuffixTrie_insert t domain =
     (case insert_labels (nodes t) 0 (rsplit_labels (trim_start_matches (CHR ''.'') domain)) of
        None \<Rightarrow> None
      | Some (ns, cur) \<Rightarrow>
          (case get_node ns cur of
             None \<Rightarrow> None
           | Some nd \<Rightarrow> Some (t\<lparr>nodes := ns[unat cur := nd\<lparr>is_terminal := True\<rparr>]\<rparr>)))"

fun match_labels :: "TrieNode list \<Rightarrow> u32 \<Rightarrow> string list \<Rightarrow> bool option" where
  "match_labels ns cur [] = map_option is_terminal (get_node ns cur)"
| "match_labels ns cur (label # ls) =
     (case get_node ns cur of
        None \<Rightarrow> None
      | Some nd \<Rightarrow>
          (case children nd label of
             None \<Rightarrow> Some False
           | Some idx \<Rightarrow>
               (case get_node ns idx of
                  None \<Rightarrow> None
                | Some nd' \<Rightarrow> if is_terminal nd' then Some True else match_labels ns idx ls)))"

definition SuffixTrie_matches :: "SuffixTrie \<Rightarrow> string \<Rightarrow> bool option" where
  "SuffixTrie_matches t domain =
     match_labels (nodes t) 0 (rsplit_labels (trim_end_matches (CHR ''.'') domain))"

definition SuffixTrie_len :: "SuffixTrie \<Rightarrow> nat" where
  "SuffixTrie_len t = length (filter is_terminal (nodes t))"

definition SuffixTrie_is_empty :: "SuffixTrie \<Rightarrow> bool" where
  "SuffixTrie_is_empty t \<longleftrightarrow> SuffixTrie_len t = 0"

definition SuffixTrie_node_count :: "SuffixTrie \<Rightarrow> nat" where
  "SuffixTrie_node_count t = length (nodes t)"

section \<open>Abstraction and invariant\<close>

fun walk :: "TrieNode list \<Rightarrow> nat \<Rightarrow> string list \<Rightarrow> nat option" where
  "walk ns i [] = Some i"
| "walk ns i (l # ls) =
     (case children (ns ! i) l of None \<Rightarrow> None | Some j \<Rightarrow> walk ns (unat j) ls)"

fun term_at :: "TrieNode list \<Rightarrow> nat \<Rightarrow> string list \<Rightarrow> bool" where
  "term_at ns i [] = is_terminal (ns ! i)"
| "term_at ns i (l # ls) =
     (case children (ns ! i) l of None \<Rightarrow> False | Some j \<Rightarrow> term_at ns (unat j) ls)"

definition trie_paths :: "SuffixTrie \<Rightarrow> string list set" where
  "trie_paths t = {p. term_at (nodes t) 0 p}"

definition arena_ok :: "TrieNode list \<Rightarrow> bool" where
  "arena_ok ns \<longleftrightarrow> ns \<noteq> [] \<and> length ns \<le> 2 ^ 32
     \<and> (\<forall>i l j. i < length ns \<longrightarrow> children (ns ! i) l = Some j \<longrightarrow> i < unat j \<and> unat j < length ns)
     \<and> (\<forall>i i' l l' j. i < length ns \<longrightarrow> i' < length ns \<longrightarrow> children (ns ! i) l = Some j
          \<longrightarrow> children (ns ! i') l' = Some j \<longrightarrow> i = i' \<and> l = l')"

definition trie_inv :: "SuffixTrie \<Rightarrow> bool" where
  "trie_inv t \<longleftrightarrow> arena_ok (nodes t) \<and> \<not> is_terminal (nodes t ! 0)"

lemma arena_okD:
  assumes "arena_ok ns"
  shows "ns \<noteq> []" "length ns \<le> 2 ^ 32"
    and "i < length ns \<Longrightarrow> children (ns ! i) l = Some j \<Longrightarrow> i < unat j \<and> unat j < length ns"
    and "i < length ns \<Longrightarrow> i' < length ns \<Longrightarrow> children (ns ! i) l = Some j \<Longrightarrow>
           children (ns ! i') l' = Some j \<Longrightarrow> i = i' \<and> l = l'"
  using assms unfolding arena_ok_def by blast+

lemma walk_less: "arena_ok ns \<Longrightarrow> i < length ns \<Longrightarrow> walk ns i p = Some j \<Longrightarrow> j < length ns"
  by (induction p arbitrary: i) (auto split: option.splits dest: arena_okD(3))

lemma walk_append: "walk ns i (p @ q) = (case walk ns i p of None \<Rightarrow> None | Some j \<Rightarrow> walk ns j q)"
  by (induction p arbitrary: i) (auto split: option.splits)

text \<open>Edges lead to larger indices, and every node has one parent, so a node has one path.\<close>

lemma walk_ge: "arena_ok ns \<Longrightarrow> i < length ns \<Longrightarrow> walk ns i p = Some j \<Longrightarrow> i \<le> j"
proof (induction p arbitrary: i)
  case (Cons l ls)
  then obtain k where k: "children (ns ! i) l = Some k" "walk ns (unat k) ls = Some j"
    by (auto split: option.splits)
  with Cons arena_okD(3) [OF Cons.prems(1,2) k(1)] show ?case by fastforce
qed simp

lemma walk_snoc_parent:
  assumes "arena_ok ns" and "walk ns 0 (p @ [l]) = Some j"
  obtains i k where "walk ns 0 p = Some i" "i < length ns" "children (ns ! i) l = Some k" "j = unat k" "0 < j"
proof -
  from assms(2) obtain i where i: "walk ns 0 p = Some i" by (auto simp: walk_append split: option.splits)
  have "0 < length ns" using arena_okD(1) [OF assms(1)] by simp
  with assms(1) i have il: "i < length ns" using walk_less by blast
  from assms(2) i obtain k where k: "children (ns ! i) l = Some k" "j = unat k"
    by (auto simp: walk_append split: option.splits)
  with arena_okD(3) [OF assms(1) il k(1)] show ?thesis using that i il by auto
qed

lemma walk_root_unique:
  assumes "arena_ok ns"
  shows "walk ns 0 p = Some e \<Longrightarrow> walk ns 0 q = Some e \<Longrightarrow> p = q"
proof (induction p arbitrary: q e rule: rev_induct)
  case Nil
  then show ?case
    by (cases q rule: rev_cases) (auto elim!: walk_snoc_parent [OF assms])
next
  case (snoc l p)
  show ?case
  proof (cases q rule: rev_cases)
    case Nil
    with snoc.prems show ?thesis by (auto elim!: walk_snoc_parent [OF assms])
  next
    case (snoc q' l')
    obtain i k where i: "walk ns 0 p = Some i" "i < length ns" "children (ns ! i) l = Some k" "e = unat k"
      using walk_snoc_parent [OF assms snoc.prems(1)] .
    obtain i' k' where i': "walk ns 0 q' = Some i'" "i' < length ns" "children (ns ! i') l' = Some k'" "e = unat k'"
      using walk_snoc_parent [OF assms snoc.prems(2) [unfolded snoc]] .
    from i(4) i'(4) have "k = k'" by (simp add: word_unat_eq_iff)
    with arena_okD(4) [OF assms i(2) i'(2) i(3)] i'(3) have "i = i'" "l = l'" by auto
    with i(1) i'(1) snoc.IH show ?thesis by (simp add: snoc)
  qed
qed

section \<open>Insertion\<close>

text \<open>Adding an edge to a fresh, non-terminal node keeps the arena well formed and changes no
  terminal path.\<close>

definition add_edge :: "TrieNode list \<Rightarrow> nat \<Rightarrow> string \<Rightarrow> TrieNode list" where
  "add_edge ns i l = (ns @ [TrieNode_new])[i := (ns ! i)\<lparr>children := (children (ns ! i))(l \<mapsto> word_of_nat (length ns))\<rparr>]"

lemma unat_fresh: "n < 2 ^ 32 \<Longrightarrow> unat (word_of_nat n :: u32) = n"
  by (simp add: unat_of_nat)

lemma add_edge_nth:
  assumes "i < length ns"
  shows "length (add_edge ns i l) = Suc (length ns)"
    and "children (add_edge ns i l ! i) = (children (ns ! i))(l \<mapsto> word_of_nat (length ns))"
    and "is_terminal (add_edge ns i l ! i) = is_terminal (ns ! i)"
    and "k < length ns \<Longrightarrow> k \<noteq> i \<Longrightarrow> add_edge ns i l ! k = ns ! k"
    and "add_edge ns i l ! length ns = TrieNode_new"
  using assms by (auto simp: add_edge_def nth_append nth_list_update)

lemma arena_ok_add_edge:
  assumes ok: "arena_ok ns" and i: "i < length ns" and room: "length ns < 2 ^ 32"
    and free: "children (ns ! i) l = None"
  shows "arena_ok (add_edge ns i l)"
proof -
  note nths = add_edge_nth [OF i, where l = l]
  have kids: "children (add_edge ns i l ! k) m = Some j \<longleftrightarrow>
      (if k = i \<and> m = l then j = word_of_nat (length ns) else k < length ns \<and> children (ns ! k) m = Some j)"
    if "k < Suc (length ns)" for k m j
    using that nths free i by (cases "k = i"; cases "k = length ns") (auto simp: TrieNode_new_def)
  have fresh: "unat (word_of_nat (length ns) :: u32) = length ns" by (rule unat_fresh [OF room])
  have old: "k < length ns \<Longrightarrow> children (ns ! k) m = Some j \<Longrightarrow> k < unat j \<and> unat j < length ns" for k m j
    by (rule arena_okD(3) [OF ok])
  then have notfresh: "k < length ns \<Longrightarrow> children (ns ! k) m \<noteq> Some (word_of_nat (length ns))" for k m
    using fresh by force
  show ?thesis
    unfolding arena_ok_def
  proof (intro conjI allI impI)
    show "add_edge ns i l \<noteq> []" using nths(1) by auto
    show "length (add_edge ns i l) \<le> 2 ^ 32" using nths(1) room by simp
  next
    fix k m j assume "k < length (add_edge ns i l)" "children (add_edge ns i l ! k) m = Some j"
    then show "k < unat j" "unat j < length (add_edge ns i l)"
      using kids [of k m j] old [of k m j] fresh i nths(1) by (auto split: if_splits)
  next
    fix k k' m m' j
    assume k: "k < length (add_edge ns i l)" "k' < length (add_edge ns i l)"
      "children (add_edge ns i l ! k) m = Some j" "children (add_edge ns i l ! k') m' = Some j"
    have "k = k' \<and> m = m'"
    proof (cases "k = i \<and> m = l \<or> k' = i \<and> m' = l")
      case True
      with k kids [of k m j] kids [of k' m' j] notfresh show ?thesis
        by (auto simp: nths(1) split: if_splits)
    next
      case False
      with k kids [of k m j] kids [of k' m' j] have
        "k < length ns" "k' < length ns" "children (ns ! k) m = Some j" "children (ns ! k') m' = Some j"
        by (auto simp: nths(1))
      then show ?thesis by (rule arena_okD(4) [OF ok])
    qed
    then show "k = k'" "m = m'" by simp_all
  qed
qed

lemma term_at_add_edge:
  assumes ok: "arena_ok ns" and i: "i < length ns" and room: "length ns < 2 ^ 32"
    and free: "children (ns ! i) l = None"
  shows "k < length ns \<Longrightarrow> term_at (add_edge ns i l) k p = term_at ns k p"
proof (induction p arbitrary: k)
  case Nil
  then show ?case using add_edge_nth [OF i, where l = l] by (cases "k = i") auto
next
  case (Cons m p)
  note nths = add_edge_nth [OF i, where l = l]
  have new: "\<not> term_at (add_edge ns i l) (length ns) p"
    by (cases p) (simp_all add: nths(5) TrieNode_new_def)
  show ?case
  proof (cases "k = i \<and> m = l")
    case True
    then show ?thesis using new free nths(2) by (simp add: unat_fresh [OF room])
  next
    case False
    then have "children (add_edge ns i l ! k) m = children (ns ! k) m"
      using nths(2,4) Cons.prems by (cases "k = i") auto
    with Cons arena_okD(3) [OF ok Cons.prems] show ?thesis
      by (auto split: option.splits)
  qed
qed

lemma walk_add_edge:
  assumes "arena_ok ns" "i < length ns" "length ns < 2 ^ 32" "children (ns ! i) l = None"
  shows "k < length ns \<Longrightarrow> walk ns k p = Some j \<Longrightarrow> walk (add_edge ns i l) k p = Some j"
proof (induction p arbitrary: k)
  case (Cons m p)
  then obtain c where c: "children (ns ! k) m = Some c" "walk ns (unat c) p = Some j"
    by (auto split: option.splits)
  then have "children (add_edge ns i l ! k) m = Some c"
    using add_edge_nth [OF assms(2), where l = l] assms(4) Cons.prems(1) by (cases "k = i") auto
  with c Cons arena_okD(3) [OF assms(1) Cons.prems(1) c(1)] show ?case by simp
qed simp

lemma insert_labels_ok:
  assumes "arena_ok ns" and "unat cur < length ns" and "length ns + length ls \<le> 2 ^ 32"
  shows "\<exists>ns' e. insert_labels ns cur ls = Some (ns', e) \<and> arena_ok ns' \<and> unat e < length ns'
     \<and> length ns \<le> length ns' \<and> length ns' \<le> length ns + length ls
     \<and> walk ns' (unat cur) ls = Some (unat e)
     \<and> (\<forall>k p. k < length ns \<longrightarrow> term_at ns' k p = term_at ns k p)
     \<and> (\<forall>k p j. k < length ns \<longrightarrow> walk ns k p = Some j \<longrightarrow> walk ns' k p = Some j)"
  using assms
proof (induction ls arbitrary: ns cur)
  case Nil
  then show ?case by auto
next
  case (Cons l ls)
  let ?i = "unat cur"
  show ?case
  proof (cases "children (ns ! ?i) l")
    case (Some idx)
    have lt: "unat idx < length ns" using arena_okD(3) [OF Cons.prems(1,2) Some] by simp
    from Cons.IH [OF Cons.prems(1) lt] Cons.prems(3) obtain ns' e where
      r: "insert_labels ns idx ls = Some (ns', e)" "arena_ok ns'" "unat e < length ns'"
        "length ns \<le> length ns'" "length ns' \<le> length ns + length ls"
        "walk ns' (unat idx) ls = Some (unat e)"
        "\<forall>k p. k < length ns \<longrightarrow> term_at ns' k p = term_at ns k p"
        "\<forall>k p j. k < length ns \<longrightarrow> walk ns k p = Some j \<longrightarrow> walk ns' k p = Some j"
      by auto
    have "walk ns' ?i [l] = Some (unat idx)"
      using r(8) [rule_format, of ?i "[l]" "unat idx"] Cons.prems(2) Some by simp
    then have "walk ns' ?i (l # ls) = Some (unat e)"
      using r(6) walk_append [of ns' ?i "[l]" ls] by simp
    moreover have "insert_labels ns cur (l # ls) = Some (ns', e)"
      using r(1) Cons.prems(2) Some by (simp add: get_node_def)
    ultimately show ?thesis using r by auto
  next
    case None
    let ?ns = "add_edge ns ?i l" and ?new = "word_of_nat (length ns) :: u32"
    have room: "length ns < 2 ^ 32" using Cons.prems(3) by simp
    note nths = add_edge_nth [OF Cons.prems(2), where l = l]
    have ok: "arena_ok ?ns" by (rule arena_ok_add_edge [OF Cons.prems(1,2) room None])
    have new: "unat ?new = length ns" by (rule unat_fresh [OF room])
    from Cons.IH [OF ok, of ?new] nths(1) new Cons.prems(3) obtain ns' e where
      r: "insert_labels ?ns ?new ls = Some (ns', e)" "arena_ok ns'" "unat e < length ns'"
        "length ?ns \<le> length ns'" "length ns' \<le> length ?ns + length ls"
        "walk ns' (length ns) ls = Some (unat e)"
        "\<forall>k p. k < length ?ns \<longrightarrow> term_at ns' k p = term_at ?ns k p"
        "\<forall>k p j. k < length ?ns \<longrightarrow> walk ?ns k p = Some j \<longrightarrow> walk ns' k p = Some j"
      by auto
    have "walk ns' ?i [l] = Some (length ns)"
      using r(8) [rule_format, of ?i "[l]" "length ns"] nths(1,2) new Cons.prems(2) by simp
    then have "walk ns' ?i (l # ls) = Some (unat e)"
      using r(6) walk_append [of ns' ?i "[l]" ls] by simp
    moreover have "insert_labels ns cur (l # ls) = Some (ns', e)"
      using r(1) Cons.prems(2) None by (simp add: get_node_def add_edge_def Let_def)
    moreover have "\<forall>k p. k < length ns \<longrightarrow> term_at ns' k p = term_at ns k p"
      using r(7) nths(1) term_at_add_edge [OF Cons.prems(1,2) room None] by simp
    moreover have "\<forall>k p j. k < length ns \<longrightarrow> walk ns k p = Some j \<longrightarrow> walk ns' k p = Some j"
      using r(8) nths(1) walk_add_edge [OF Cons.prems(1,2) room None] by simp
    ultimately show ?thesis using r(2-5) nths(1) by auto
  qed
qed

text \<open>Marking a node terminal adds exactly the paths that reach it.\<close>

definition mark :: "TrieNode list \<Rightarrow> nat \<Rightarrow> TrieNode list" where
  "mark ns e = ns[e := (ns ! e)\<lparr>is_terminal := True\<rparr>]"

lemma mark_nth:
  "length (mark ns e) = length ns"
  "children (mark ns e ! k) = children (ns ! k)"
  "e < length ns \<Longrightarrow> is_terminal (mark ns e ! k) \<longleftrightarrow> is_terminal (ns ! k) \<or> k = e"
proof -
  show "children (mark ns e ! k) = children (ns ! k)"
    by (cases "e < length ns"; cases "k = e") (simp_all add: mark_def list_update_beyond)
  show "e < length ns \<Longrightarrow> is_terminal (mark ns e ! k) \<longleftrightarrow> is_terminal (ns ! k) \<or> k = e"
    by (cases "k = e") (simp_all add: mark_def)
qed (simp add: mark_def)

lemma arena_ok_mark: "arena_ok ns \<Longrightarrow> arena_ok (mark ns e)"
proof -
  have "mark ns e = [] \<longleftrightarrow> ns = []" by (simp add: mark_def)
  then show "arena_ok ns \<Longrightarrow> ?thesis"
    unfolding arena_ok_def by (simp only: mark_nth) blast
qed

lemma term_at_mark:
  "arena_ok ns \<Longrightarrow> e < length ns \<Longrightarrow> k < length ns \<Longrightarrow>
     term_at (mark ns e) k p \<longleftrightarrow> term_at ns k p \<or> walk ns k p = Some e"
proof (induction p arbitrary: k)
  case Nil
  then show ?case by (auto simp: mark_nth)
next
  case (Cons l p)
  then show ?case using arena_okD(3) [OF Cons.prems(1,3)]
    by (auto simp: mark_nth split: option.splits)
qed

lemma rsplit_labels_not_Nil [simp]: "rsplit_labels s \<noteq> []" "[] \<noteq> rsplit_labels s"
  by (simp_all add: rsplit_labels_def)

lemma SuffixTrie_insert_ok:
  assumes inv: "trie_inv t"
    and room: "SuffixTrie_node_count t + length (rsplit_labels (trim_start_matches (CHR ''.'') d)) \<le> 2 ^ 32"
  shows "\<exists>t'. SuffixTrie_insert t d = Some t' \<and> trie_inv t'
     \<and> trie_paths t' = insert (rsplit_labels (trim_start_matches (CHR ''.'') d)) (trie_paths t)
     \<and> SuffixTrie_node_count t' \<le>
         SuffixTrie_node_count t + length (rsplit_labels (trim_start_matches (CHR ''.'') d))"
proof -
  let ?ls = "rsplit_labels (trim_start_matches (CHR ''.'') d)" and ?ns = "nodes t"
  have ok: "arena_ok ?ns" and root: "\<not> is_terminal (?ns ! 0)"
    using inv by (auto simp: trie_inv_def)
  have len: "0 < length ?ns" using arena_okD(1) [OF ok] by simp
  from insert_labels_ok [OF ok, of 0 ?ls] len room obtain ns' e where
    r: "insert_labels ?ns 0 ?ls = Some (ns', e)" "arena_ok ns'" "unat e < length ns'"
      "length ?ns \<le> length ns'" "length ns' \<le> length ?ns + length ?ls" "walk ns' 0 ?ls = Some (unat e)"
      "\<forall>k p. k < length ?ns \<longrightarrow> term_at ns' k p = term_at ?ns k p"
    by (auto simp: SuffixTrie_node_count_def)
  let ?t = "t\<lparr>nodes := mark ns' (unat e)\<rparr>"
  have ins: "SuffixTrie_insert t d = Some ?t"
    using r(1,3) by (simp add: SuffixTrie_insert_def get_node_def mark_def)
  have l0: "0 < length ns'" using len r(4) by linarith
  have uniq: "walk ns' 0 p = Some (unat e) \<longleftrightarrow> p = ?ls" for p
    using walk_root_unique [OF r(2)] r(6) by blast
  have paths: "term_at (mark ns' (unat e)) 0 p \<longleftrightarrow> term_at ?ns 0 p \<or> p = ?ls" for p
    using term_at_mark [OF r(2,3) l0] r(7) len uniq by simp
  have "trie_paths ?t = insert ?ls (trie_paths t)"
    using paths by (auto simp: trie_paths_def)
  moreover have "trie_inv ?t"
    using arena_ok_mark [OF r(2)] paths [of "[]"] root by (simp add: trie_inv_def)
  moreover have "SuffixTrie_node_count ?t \<le> SuffixTrie_node_count t + length ?ls"
    using r(5) by (simp add: SuffixTrie_node_count_def mark_nth)
  ultimately show ?thesis using ins by blast
qed

section \<open>Lookup\<close>

lemma match_labels_spec:
  "arena_ok ns \<Longrightarrow> unat cur < length ns \<Longrightarrow>
     match_labels ns cur ls =
       Some ((\<exists>p. p \<noteq> [] \<and> prefix p ls \<and> term_at ns (unat cur) p) \<or> ls = [] \<and> is_terminal (ns ! unat cur))"
proof (induction ls arbitrary: cur)
  case Nil
  then show ?case by (auto simp: get_node_def)
next
  case (Cons l ls)
  have cons: "(\<exists>p. p \<noteq> [] \<and> prefix p (l # ls) \<and> Q p) \<longleftrightarrow> (\<exists>p. prefix p ls \<and> Q (l # p))" for Q
    by (auto simp: prefix_Cons)
  show ?case
  proof (cases "children (ns ! unat cur) l")
    case None
    then show ?thesis using Cons.prems by (auto simp: get_node_def cons)
  next
    case (Some idx)
    have lt: "unat idx < length ns" using arena_okD(3) [OF Cons.prems Some] by simp
    have split: "(\<exists>p. prefix p ls \<and> term_at ns (unat idx) p) \<longleftrightarrow>
        is_terminal (ns ! unat idx) \<or> (\<exists>p. p \<noteq> [] \<and> prefix p ls \<and> term_at ns (unat idx) p)"
      by (metis Nil_prefix term_at.simps(1))
    show ?thesis
      using Cons.IH [OF Cons.prems(1) lt] Cons.prems lt Some split
      by (auto simp: get_node_def cons)
  qed
qed

lemma SuffixTrie_matches_spec:
  assumes "trie_inv t"
  shows "SuffixTrie_matches t d =
     Some (\<exists>p \<in> trie_paths t. prefix p (rsplit_labels (trim_end_matches (CHR ''.'') d)))"
proof -
  have ok: "arena_ok (nodes t)" and root: "\<not> is_terminal (nodes t ! 0)"
    using assms by (auto simp: trie_inv_def)
  have "\<not> term_at (nodes t) 0 []" using root by simp
  with match_labels_spec [OF ok, of 0] arena_okD(1) [OF ok] show ?thesis
    by (auto simp: SuffixTrie_matches_def trie_paths_def) (metis term_at.simps(1))
qed

section \<open>The interface of a suffix index\<close>

text \<open>
  What a client of the index relies on: the invariant of the empty index, insertion within the
  \<open>2 ^ 32\<close> addressable nodes, and lookup by label-wise suffix. \<open>entry\<close> and \<open>query\<close> turn a rule and
  a queried domain into labels, last label first.
\<close>

locale suffix_index =
  fixes new :: 't
    and insert_rule :: "'t \<Rightarrow> string \<Rightarrow> 't option"
    and lookup :: "'t \<Rightarrow> string \<Rightarrow> bool option"
    and invar :: "'t \<Rightarrow> bool"
    and rules :: "'t \<Rightarrow> string list set"
    and used :: "'t \<Rightarrow> nat"
    and entry :: "string \<Rightarrow> string list"
    and query :: "string \<Rightarrow> string list"
  assumes new_ok: "invar new" "rules new = {}" "used new = 1"
    and insert_ok: "invar t \<Longrightarrow> used t + length (entry d) \<le> 2 ^ 32 \<Longrightarrow>
          \<exists>t'. insert_rule t d = Some t' \<and> invar t' \<and> rules t' = insert (entry d) (rules t)
             \<and> used t' \<le> used t + length (entry d)"
    and lookup_ok: "invar t \<Longrightarrow> lookup t d = Some (\<exists>p \<in> rules t. prefix p (query d))"
begin

text \<open>Loading a list of rules.\<close>

fun insert_all :: "'t \<Rightarrow> string list \<Rightarrow> 't option" where
  "insert_all t [] = Some t"
| "insert_all t (d # ds) = (case insert_rule t d of None \<Rightarrow> None | Some t' \<Rightarrow> insert_all t' ds)"

definition weight :: "string list \<Rightarrow> nat" where
  "weight ds = sum_list (map (\<lambda>d. length (entry d)) ds)"

lemma insert_all_ok:
  "invar t \<Longrightarrow> used t + weight ds \<le> 2 ^ 32 \<Longrightarrow>
     \<exists>t'. insert_all t ds = Some t' \<and> invar t' \<and> rules t' = rules t \<union> entry ` set ds"
proof (induction ds arbitrary: t)
  case Nil
  then show ?case by simp
next
  case (Cons d ds)
  have "used t + length (entry d) \<le> 2 ^ 32" using Cons.prems(2) by (simp add: weight_def)
  with insert_ok [OF Cons.prems(1)] obtain t' where
    t': "insert_rule t d = Some t'" "invar t'" "rules t' = insert (entry d) (rules t)"
      "used t' \<le> used t + length (entry d)"
    by blast
  with Cons.prems(2) have "used t' + weight ds \<le> 2 ^ 32" by (simp add: weight_def)
  with Cons.IH [OF t'(2)] t' show ?case by auto
qed

lemma lookup_insert_all:
  assumes "1 + weight ds \<le> 2 ^ 32"
  shows "\<exists>t. insert_all new ds = Some t \<and> invar t
     \<and> (\<forall>d. lookup t d = Some (\<exists>r \<in> set ds. prefix (entry r) (query d)))"
proof -
  have "used new + weight ds \<le> 2 ^ 32" using assms new_ok(3) by simp
  from insert_all_ok [OF new_ok(1) this] new_ok(2) obtain t where
    t: "insert_all new ds = Some t" "invar t" "rules t = entry ` set ds"
    by auto
  from lookup_ok [OF t(2)] t(3) have "\<forall>d. lookup t d = Some (\<exists>r \<in> set ds. prefix (entry r) (query d))"
    by auto
  with t show ?thesis by blast
qed

end

definition trie_entry :: "string \<Rightarrow> string list" where
  "trie_entry d = rsplit_labels (trim_start_matches (CHR ''.'') d)"

definition trie_query :: "string \<Rightarrow> string list" where
  "trie_query d = rsplit_labels (trim_end_matches (CHR ''.'') d)"

lemma trie_new_ok: "trie_inv SuffixTrie_new" "trie_paths SuffixTrie_new = {}" "SuffixTrie_node_count SuffixTrie_new = 1"
proof -
  show "trie_inv SuffixTrie_new"
    by (simp add: trie_inv_def arena_ok_def SuffixTrie_new_def TrieNode_new_def)
  have "\<not> term_at [TrieNode_new] 0 p" for p
    by (cases p) (simp_all add: TrieNode_new_def)
  then show "trie_paths SuffixTrie_new = {}"
    by (simp add: trie_paths_def SuffixTrie_new_def)
  show "SuffixTrie_node_count SuffixTrie_new = 1"
    by (simp add: SuffixTrie_node_count_def SuffixTrie_new_def)
qed

interpretation trie: suffix_index SuffixTrie_new SuffixTrie_insert SuffixTrie_matches trie_inv trie_paths
  SuffixTrie_node_count trie_entry trie_query
  by unfold_locales
    (simp_all add: trie_new_ok SuffixTrie_insert_ok SuffixTrie_matches_spec trie_entry_def trie_query_def)

end
