(* ===== verification/Port_BitSet.thy ===== *)
theory Port_BitSet
  imports Prelude
begin

text \<open>
  The port set of \<open>src/ruleset/matcher.rs\<close>: 65536 bits in an array of 1024 words of 64 bits. The word
  index of a port is \<open>port >> 6\<close>, its bit is \<open>port & 63\<close>. The results say that the bit array is the
  finite set of ports it stands for.
\<close>

section \<open>The bit array\<close>

type_synonym PortBitSet = "u64 list"

definition PortBitSet_new :: PortBitSet where
  "PortBitSet_new = replicate 1024 0"

definition port_word :: "u16 \<Rightarrow> nat" where
  "port_word port = unat (drop_bit 6 port)"

definition port_bit :: "u16 \<Rightarrow> u64" where
  "port_bit port = push_bit (unat (port AND 63)) 1"

definition PortBitSet_set :: "PortBitSet \<Rightarrow> u16 \<Rightarrow> PortBitSet" where
  "PortBitSet_set bs port = bs[port_word port := (bs ! port_word port) OR port_bit port]"

definition ports_inclusive :: "u16 \<Rightarrow> u16 \<Rightarrow> u16 list" where
  "ports_inclusive start end = map of_nat [unat start ..< Suc (unat end)]"

definition PortBitSet_set_range :: "PortBitSet \<Rightarrow> u16 \<Rightarrow> u16 \<Rightarrow> PortBitSet" where
  "PortBitSet_set_range bs start end = fold (\<lambda>p b. PortBitSet_set b p) (ports_inclusive start end) bs"

definition PortBitSet_contains :: "PortBitSet \<Rightarrow> u16 \<Rightarrow> bool" where
  "PortBitSet_contains bs port \<longleftrightarrow> (bs ! port_word port) AND port_bit port \<noteq> 0"

text \<open>The array has its 1024 words, so the index of a port is always in bounds.\<close>

definition bitset_inv :: "PortBitSet \<Rightarrow> bool" where
  "bitset_inv bs \<longleftrightarrow> length bs = 1024"

section \<open>The array is a set of ports\<close>

lemma port_word_div: "port_word p = unat p div 64"
  by (simp only: port_word_def unat_drop_bit_eq drop_bit_eq_div [of 6 "unat p"]) simp

lemma port_word_bound: "port_word p < 1024"
  using unsigned_less [of p, where 'a = nat] by (simp add: port_word_div)

lemma unat_and_63: "unat (p AND 63 :: u16) = unat p mod 64"
proof -
  have "p AND 63 = take_bit 6 p" by (simp add: take_bit_eq_mask mask_eq_exp_minus_1)
  then show ?thesis by (simp only: unsigned_take_bit_eq take_bit_eq_mod [of 6 "unat p"]) simp
qed

lemma bit_port_bit: "bit (port_bit p) i \<longleftrightarrow> i = unat p mod 64"
  by (auto simp: port_bit_def bit_simps unat_and_63 intro: less_trans [OF mod_less_divisor])

lemma and_port_bit: "w AND port_bit p \<noteq> 0 \<longleftrightarrow> bit w (unat p mod 64)"
proof -
  have "w AND port_bit p \<noteq> 0 \<longleftrightarrow> (\<exists>i. bit (w AND port_bit p) i)"
    by (metis bit_eqI bit_0_eq bot_apply bot_bool_def)
  then show ?thesis by (simp add: bit_and_iff bit_port_bit)
qed

lemma port_eq_iff: "(p :: u16) = q \<longleftrightarrow> unat p div 64 = unat q div 64 \<and> unat p mod 64 = unat q mod 64"
  by (metis div_mult_mod_eq word_unat_eq_iff)

lemma bitset_inv_new [simp]: "bitset_inv PortBitSet_new"
  by (simp add: bitset_inv_def PortBitSet_new_def)

lemma bitset_inv_set [simp]: "bitset_inv (PortBitSet_set bs p) \<longleftrightarrow> bitset_inv bs"
  by (simp add: bitset_inv_def PortBitSet_set_def)

lemma contains_new [simp]: "\<not> PortBitSet_contains PortBitSet_new p"
  by (simp add: PortBitSet_contains_def PortBitSet_new_def port_word_bound)

lemma contains_set:
  assumes "bitset_inv bs"
  shows "PortBitSet_contains (PortBitSet_set bs p) q \<longleftrightarrow> q = p \<or> PortBitSet_contains bs q"
proof (cases "port_word p = port_word q")
  case True
  then have "PortBitSet_contains (PortBitSet_set bs p) q \<longleftrightarrow>
      bit ((bs ! port_word q) OR port_bit p) (unat q mod 64)"
    using assms port_word_bound [of q]
    by (simp add: PortBitSet_contains_def PortBitSet_set_def bitset_inv_def and_port_bit)
  also have "\<dots> \<longleftrightarrow> q = p \<or> PortBitSet_contains bs q"
    using True
    by (auto simp: PortBitSet_contains_def and_port_bit bit_or_iff bit_port_bit port_eq_iff port_word_div)
  finally show ?thesis .
next
  case False
  then show ?thesis
    by (auto simp: PortBitSet_contains_def PortBitSet_set_def)
qed

lemma set_all:
  assumes "bitset_inv bs"
  shows "bitset_inv (fold (\<lambda>p b. PortBitSet_set b p) ps bs)"
    and "PortBitSet_contains (fold (\<lambda>p b. PortBitSet_set b p) ps bs) q \<longleftrightarrow> q \<in> set ps \<or> PortBitSet_contains bs q"
proof -
  show "bitset_inv (fold (\<lambda>p b. PortBitSet_set b p) ps bs)"
    using assms by (induction ps arbitrary: bs) auto
  show "PortBitSet_contains (fold (\<lambda>p b. PortBitSet_set b p) ps bs) q \<longleftrightarrow> q \<in> set ps \<or> PortBitSet_contains bs q"
    using assms by (induction ps arbitrary: bs) (auto simp: contains_set)
qed

lemma set_ports_inclusive: "q \<in> set (ports_inclusive start end) \<longleftrightarrow> start \<le> q \<and> q \<le> end"
proof -
  have "q \<in> set (ports_inclusive start end) \<longleftrightarrow> (\<exists>n. unat start \<le> n \<and> n \<le> unat end \<and> q = of_nat n)"
    by (auto simp: ports_inclusive_def)
  also have "\<dots> \<longleftrightarrow> unat start \<le> unat q \<and> unat q \<le> unat end"
  proof
    assume "\<exists>n. unat start \<le> n \<and> n \<le> unat end \<and> q = of_nat n"
    then obtain n where n: "unat start \<le> n" "n \<le> unat end" "q = of_nat n" by blast
    have "n < 2 ^ 16" using n(2) unsigned_less [of "end", where 'a = nat] by simp
    then have "unat q = n" using n(3) by (simp add: unsigned_of_nat take_bit_nat_eq_self)
    then show "unat start \<le> unat q \<and> unat q \<le> unat end" using n by simp
  next
    assume "unat start \<le> unat q \<and> unat q \<le> unat end"
    then show "\<exists>n. unat start \<le> n \<and> n \<le> unat end \<and> q = of_nat n"
      by (intro exI [of _ "unat q"]) simp
  qed
  finally show ?thesis by (simp add: word_le_nat_alt)
qed

lemma bitset_inv_set_range: "bitset_inv bs \<Longrightarrow> bitset_inv (PortBitSet_set_range bs start end)"
  unfolding PortBitSet_set_range_def by (rule set_all)

lemma contains_set_range:
  "bitset_inv bs \<Longrightarrow>
     PortBitSet_contains (PortBitSet_set_range bs start end) q \<longleftrightarrow>
       start \<le> q \<and> q \<le> end \<or> PortBitSet_contains bs q"
  by (simp add: PortBitSet_set_range_def set_all set_ports_inclusive)

section \<open>The interface of a port set\<close>

locale port_set =
  fixes empty :: 's
    and add_range :: "'s \<Rightarrow> 'p \<Rightarrow> 'p \<Rightarrow> 's"
    and has :: "'s \<Rightarrow> 'p \<Rightarrow> bool"
    and inv :: "'s \<Rightarrow> bool"
    and between :: "'p \<Rightarrow> 'p \<Rightarrow> 'p \<Rightarrow> bool"
  assumes inv_empty: "inv empty"
    and inv_add_range: "inv s \<Longrightarrow> inv (add_range s lo hi)"
    and has_empty: "\<not> has empty p"
    and has_add_range: "inv s \<Longrightarrow> has (add_range s lo hi) p \<longleftrightarrow> between lo hi p \<or> has s p"
begin

definition build_ports :: "('p \<times> 'p) list \<Rightarrow> 's" where
  "build_ports rs = fold (\<lambda>(lo, hi) s. add_range s lo hi) rs empty"

lemma has_fold:
  "inv s \<Longrightarrow> inv (fold (\<lambda>(lo, hi) s. add_range s lo hi) rs s) \<and>
     (has (fold (\<lambda>(lo, hi) s. add_range s lo hi) rs s) p \<longleftrightarrow> (\<exists>(lo, hi) \<in> set rs. between lo hi p) \<or> has s p)"
proof (induction rs arbitrary: s)
  case (Cons r rs)
  obtain lo hi where "r = (lo, hi)" by (cases r)
  with Cons.IH [of "add_range s lo hi"] Cons.prems show ?case
    by (simp add: inv_add_range has_add_range) blast
qed simp

lemma has_build_ports: "has (build_ports rs) p \<longleftrightarrow> (\<exists>(lo, hi) \<in> set rs. between lo hi p)"
  using has_fold [OF inv_empty] by (simp add: build_ports_def has_empty)

end

interpretation ports: port_set PortBitSet_new PortBitSet_set_range PortBitSet_contains bitset_inv
    "\<lambda>lo hi p. lo \<le> p \<and> p \<le> hi"
  by unfold_locales (simp_all add: bitset_inv_set_range contains_set_range)

end
