(* ===== verification/Ruleset_Matcher.thy ===== *)
theory Ruleset_Matcher
  imports Ruleset_Loader Suffix_Trie Port_BitSet
begin

text \<open>
  The match engine (\<open>src/ruleset/matcher.rs\<close>): the two domain back ends, the construction of a
  \<open>RuleSet\<close> from loaded data and the queries for domains, addresses and ports. The main results
  compare every query with the reference meaning of the rules: a linear scan with label-wise
  suffixes, interval membership and port ranges.
\<close>

section \<open>Domain back ends\<close>

datatype 'f DomainMatcher =
    Fst "'f option" "'f option"
  | Legacy "string set" SuffixTrie

definition matches_exact :: "('f, 'r) crates \<Rightarrow> 'f DomainMatcher \<Rightarrow> bytes \<Rightarrow> string \<Rightarrow> bool" where
  "matches_exact cr m fst_key domain =
     (case m of
        Fst exact _ \<Rightarrow> (case exact of None \<Rightarrow> False | Some s \<Rightarrow> fst_contains cr s fst_key)
      | Legacy domains _ \<Rightarrow> domain \<in> domains)"

text \<open>
  The stack version of the suffix query. \<open>scan_labels\<close> is the backward scan that fills
  \<open>label_ends[0..nlabels]\<close> (at most 128 entries); \<open>label_at\<close> is the slice of label \<open>k\<close>;
  \<open>append_label\<close> copies a label and a dot into the 260-byte buffer, of which the model keeps the
  used part \<open>buf[..buf_len]\<close>.
\<close>

fun scan_labels :: "bytes \<Rightarrow> nat \<Rightarrow> nat list \<Rightarrow> nat list" where
  "scan_labels bs 0 ends = ends"
| "scan_labels bs (Suc i) ends =
     (if length ends < 128 then scan_labels bs i (if bs ! i = 46 then ends @ [i] else ends) else ends)"

definition label_at :: "bytes \<Rightarrow> nat list \<Rightarrow> nat \<Rightarrow> bytes" where
  "label_at bs ends k =
     (let label_start = (if k + 1 < length ends then ends ! (k + 1) + 1 else 0)
      in take (ends ! k - label_start) (drop label_start bs))"

definition append_label :: "bytes \<Rightarrow> bytes \<Rightarrow> bytes" where
  "append_label buf label =
     (let avail = 260 - (length buf + 1);
          copy_len = min (length label) avail;
          buf = buf @ take copy_len label
      in if length buf < 260 then buf @ [46] else buf)"

fun suffix_loop :: "(bytes \<Rightarrow> bool) \<Rightarrow> bytes list \<Rightarrow> bytes \<Rightarrow> bool" where
  "suffix_loop contains [] buf = False"
| "suffix_loop contains (label # ls) buf =
     (let buf = append_label buf label in if contains buf then True else suffix_loop contains ls buf)"

definition fst_matches_suffix :: "(bytes \<Rightarrow> bool) \<Rightarrow> string \<Rightarrow> bool" where
  "fst_matches_suffix contains domain =
     (let bs = as_bytes domain;
          ends = scan_labels bs (length bs) [length bs]
      in suffix_loop contains (map (label_at bs ends) [0 ..< length ends]) [])"

definition matches_suffix :: "('f, 'r) crates \<Rightarrow> 'f DomainMatcher \<Rightarrow> string \<Rightarrow> bool" where
  "matches_suffix cr m domain =
     (case m of
        Fst _ sfx \<Rightarrow>
          (case sfx of None \<Rightarrow> False | Some set' \<Rightarrow> fst_matches_suffix (fst_contains cr set') domain)
      | Legacy _ suffix_trie \<Rightarrow>
          (case SuffixTrie_matches suffix_trie domain of Some b \<Rightarrow> b | None \<Rightarrow> False))"

section \<open>The rule set\<close>

datatype MatchTarget = TDomain string | TIp IpAddr | TPort u16

record ('f, 'r) RuleSet =
  domain_matcher :: "'f DomainMatcher"
  rs_keywords :: "string list"
  regexes :: "'r option"
  ipv4_ranges :: "u32 IpRanges"
  ipv6_ranges :: "u128 IpRanges"
  port_bitset :: "PortBitSet option"

fun insert_suffixes :: "SuffixTrie \<Rightarrow> string list \<Rightarrow> SuffixTrie option" where
  "insert_suffixes t [] = Some t"
| "insert_suffixes t (s # ss) =
     (case SuffixTrie_insert t s of None \<Rightarrow> None | Some t' \<Rightarrow> insert_suffixes t' ss)"

definition open_fst :: "('f, 'r) crates \<Rightarrow> bytes \<Rightarrow> RuleSetError + 'f option" where
  "open_fst cr bs = (if bs = [] then Inr None else map_err LoadedInvalidRegex (map_sum id Some (fst_new cr bs)))"

definition build_domain_matcher :: "('f, 'r) crates \<Rightarrow> LoadedRuleSet \<Rightarrow> RuleSetError + 'f DomainMatcher" where
  "build_domain_matcher cr loaded =
     (if l_domain_fst loaded \<noteq> [] \<or> l_domain_suffix_fst loaded \<noteq> [] then
        res_bind (open_fst cr (l_domain_fst loaded)) (\<lambda>exact.
        res_bind (open_fst cr (l_domain_suffix_fst loaded)) (\<lambda>suffix.
          Inr (Fst exact suffix)))
      else
        res_bind (ok_or Panic (insert_suffixes SuffixTrie_new (l_domain_suffixes loaded))) (\<lambda>suffix_trie.
          Inr (Legacy (set (l_domains loaded)) suffix_trie)))"

definition build_regexes :: "('f, 'r) crates \<Rightarrow> string list \<Rightarrow> RuleSetError + 'r option" where
  "build_regexes cr rs =
     (if rs = [] then Inr None
      else map_err LoadedInvalidRegex (map_sum id Some (regexset_new cr rs)))"

definition build_port_bitset :: "(u16 \<times> u16) list \<Rightarrow> PortBitSet option" where
  "build_port_bitset ps =
     (if ps = [] then None
      else Some (fold (\<lambda>(start, end') bs. PortBitSet_set_range bs start end') ps PortBitSet_new))"

definition RuleSet_from_loaded :: "('f, 'r) crates \<Rightarrow> LoadedRuleSet \<Rightarrow> RuleSetError + ('f, 'r) RuleSet" where
  "RuleSet_from_loaded cr loaded =
     res_bind (build_domain_matcher cr loaded) (\<lambda>dm.
     res_bind (build_regexes cr (l_domain_regexes loaded)) (\<lambda>rx.
       Inr \<lparr>domain_matcher = dm, rs_keywords = l_domain_keywords loaded, regexes = rx,
            ipv4_ranges = IpRanges_build (map (\<lambda>(addr, prefix). ipv4_cidr_to_range addr prefix) (l_ipv4_cidrs loaded)),
            ipv6_ranges = IpRanges_build (map (\<lambda>(addr, prefix). ipv6_cidr_to_range addr prefix) (l_ipv6_cidrs loaded)),
            port_bitset = build_port_bitset (l_ports loaded)\<rparr>))"

definition rule_count :: "('f, 'r) crates \<Rightarrow> ('f, 'r) RuleSet \<Rightarrow> nat" where
  "rule_count cr rs =
     (let domain_count =
            (case domain_matcher rs of
               Fst exact sfx \<Rightarrow>
                 (case exact of None \<Rightarrow> 0 | Some s \<Rightarrow> fst_len cr s) + (case sfx of None \<Rightarrow> 0 | Some s \<Rightarrow> fst_len cr s)
             | Legacy domains suffix_trie \<Rightarrow> card domains + SuffixTrie_len suffix_trie);
          regex_count = (case regexes rs of None \<Rightarrow> 0 | Some r \<Rightarrow> regexset_len cr r);
          port_count = (if port_bitset rs \<noteq> None then 1 else 0)
      in domain_count + length (rs_keywords rs) + regex_count + IpRanges_len (ipv4_ranges rs)
         + IpRanges_len (ipv6_ranges rs) + port_count)"

definition normalize_domain :: "string \<Rightarrow> string" where
  "normalize_domain domain =
     (let domain = trim_end_matches CHR ''.'' domain
      in if list_ex is_ascii_uppercase domain then to_ascii_lowercase domain else domain)"

definition match_domain :: "('f, 'r) crates \<Rightarrow> ('f, 'r) RuleSet \<Rightarrow> string \<Rightarrow> bool" where
  "match_domain cr rs domain =
     (let d = normalize_domain domain;
          fst_key = domain_to_fst_key d
      in if matches_exact cr (domain_matcher rs) (as_bytes fst_key) d then True
         else if matches_suffix cr (domain_matcher rs) d then True
         else if list_ex (contains_str d) (rs_keywords rs) then True
         else (case regexes rs of None \<Rightarrow> False | Some r \<Rightarrow> regexset_is_match cr r d))"

definition match_ipv4 :: "('f, 'r) RuleSet \<Rightarrow> u32 \<Rightarrow> bool" where
  "match_ipv4 rs addr =
     (if IpRanges_is_empty (ipv4_ranges rs) then False else IpRanges_contains (ipv4_ranges rs) addr)"

definition match_ipv6 :: "('f, 'r) RuleSet \<Rightarrow> u128 \<Rightarrow> bool" where
  "match_ipv6 rs addr =
     (if IpRanges_is_empty (ipv6_ranges rs) then False else IpRanges_contains (ipv6_ranges rs) addr)"

definition match_ip :: "('f, 'r) RuleSet \<Rightarrow> IpAddr \<Rightarrow> bool" where
  "match_ip rs ip =
     (case ip of
        V4 v4 \<Rightarrow> match_ipv4 rs v4
      | V6 v6 \<Rightarrow>
          (case to_ipv4_mapped v6 of
             Some v4 \<Rightarrow> if match_ipv4 rs v4 then True else match_ipv6 rs v6
           | None \<Rightarrow> match_ipv6 rs v6))"

definition match_port :: "('f, 'r) RuleSet \<Rightarrow> u16 \<Rightarrow> bool" where
  "match_port rs port = (case port_bitset rs of Some bs \<Rightarrow> PortBitSet_contains bs port | None \<Rightarrow> False)"

definition RuleSet_matches :: "('f, 'r) crates \<Rightarrow> ('f, 'r) RuleSet \<Rightarrow> MatchTarget \<Rightarrow> bool" where
  "RuleSet_matches cr rs target =
     (case target of
        TDomain d \<Rightarrow> match_domain cr rs d
      | TIp ip \<Rightarrow> match_ip rs ip
      | TPort p \<Rightarrow> match_port rs p)"

definition RuleSet_from_text :: "('f, 'r) crates \<Rightarrow> string \<Rightarrow> RuleSetError + ('f, 'r) RuleSet" where
  "RuleSet_from_text cr src =
     res_bind (CompiledRuleSet_from_text cr src) (\<lambda>compiled.
     res_bind (serialize cr compiled) (\<lambda>buf.
     res_bind (LoadedRuleSet_from_bytes buf) (RuleSet_from_loaded cr)))"

section \<open>The stack query is the label-wise suffix test\<close>

fun slices :: "bytes \<Rightarrow> nat list \<Rightarrow> bytes list" where
  "slices bs [] = []"
| "slices bs [e] = [take e bs]"
| "slices bs (e # f # es) = take (e - (f + 1)) (drop (f + 1) bs) # slices bs (f # es)"

lemma label_at_slices: "map (label_at bs ends) [0 ..< length ends] = slices bs ends"
proof (induction bs ends rule: slices.induct)
  case (3 bs e f es)
  have shift: "label_at bs (e # f # es) (Suc k) = label_at bs (f # es) k" for k
    by (simp add: label_at_def)
  have "map (label_at bs (e # f # es)) [0 ..< length (e # f # es)] =
      label_at bs (e # f # es) 0 # map (label_at bs (e # f # es)) (map Suc [0 ..< length (f # es)])"
    by (simp add: upt_conv_Cons map_Suc_upt del: upt_Suc)
  also have "map (label_at bs (e # f # es)) (map Suc [0 ..< length (f # es)]) = slices bs (f # es)"
    using 3 by (simp add: shift o_def del: upt_Suc)
  finally show ?case by (simp add: label_at_def del: upt_Suc)
qed (simp_all add: label_at_def)

text \<open>The positions of the dots, last first.\<close>

definition dots :: "string \<Rightarrow> nat list" where
  "dots d = rev (filter (\<lambda>i. d ! i = CHR ''.'') [0 ..< length d])"

lemma dots_snoc: "dots (d @ [c]) = (if c = CHR ''.'' then length d # dots d else dots d)"
proof -
  have "filter (\<lambda>i. (d @ [c]) ! i = CHR ''.'') [0 ..< length d] = filter (\<lambda>i. d ! i = CHR ''.'') [0 ..< length d]"
    by (rule filter_cong) (auto simp: nth_append)
  then show ?thesis by (simp add: dots_def)
qed

lemma dots_less: "i \<in> set (dots d) \<Longrightarrow> i < length d"
  by (auto simp: dots_def)

lemma as_bytes_nth: "i < length d \<Longrightarrow> as_bytes d ! i = 46 \<longleftrightarrow> d ! i = CHR ''.''"
proof -
  assume "i < length d"
  then have "as_bytes d ! i = word_of_nat (code (d ! i))" by (simp add: as_bytes_def)
  moreover have "(word_of_nat (code c) :: u8) = 46 \<longleftrightarrow> c = CHR ''.''" for c
  proof -
    have "(word_of_nat (code c) :: u8) = 46 \<longleftrightarrow> code c = 46"
    proof
      assume "(word_of_nat (code c) :: u8) = 46"
      then have "unat (word_of_nat (code c) :: u8) = unat (46 :: u8)" by simp
      then show "code c = 46" by (simp add: unat_u8_of_nat)
    qed simp
    moreover have "code CHR ''.'' = 46" by (simp add: code_def)
    ultimately show ?thesis by (metis code_inject)
  qed
  ultimately show ?thesis by simp
qed

lemma scan_labels_dots:
  assumes "i \<le> length d" and "length ends + length (filter (\<lambda>i. d ! i = CHR ''.'') [0 ..< i]) \<le> 128"
  shows "scan_labels (as_bytes d) i ends = ends @ rev (filter (\<lambda>i. d ! i = CHR ''.'') [0 ..< i])"
  using assms
proof (induction i arbitrary: ends)
  case (Suc i)
  have nth: "as_bytes d ! i = 46 \<longleftrightarrow> d ! i = CHR ''.''" using Suc.prems by (simp add: as_bytes_nth)
  show ?case
  proof (cases "length ends < 128")
    case True
    have "scan_labels (as_bytes d) i (if d ! i = CHR ''.'' then ends @ [i] else ends) =
        (if d ! i = CHR ''.'' then ends @ [i] else ends) @ rev (filter (\<lambda>i. d ! i = CHR ''.'') [0 ..< i])"
      using Suc.prems by (intro Suc.IH) (auto split: if_splits)
    with True nth show ?thesis by simp
  next
    case False
    with Suc.prems(2) have "length (filter (\<lambda>i. d ! i = CHR ''.'') [0 ..< Suc i]) = 0" by linarith
    then have "filter (\<lambda>i. d ! i = CHR ''.'') [0 ..< Suc i] = []" by (simp only: length_0_conv)
    with False show ?thesis by (simp del: upt_Suc)
  qed
qed simp

lemma label_ends: "length (labels d) \<le> 128 \<Longrightarrow>
    scan_labels (as_bytes d) (length d) [length d] = length d # dots d"
proof -
  assume l: "length (labels d) \<le> 128"
  have "length (labels d) = Suc (length (dots d))"
  proof (induction d rule: rev_induct)
    case (snoc c d)
    then show ?case
      by (cases "c = CHR ''.''") (simp_all add: dots_snoc split_on_snoc)
  qed (simp add: dots_def)
  with l have "length [length d] + length (filter (\<lambda>i. d ! i = CHR ''.'') [0 ..< length d]) \<le> 128"
    by (simp add: dots_def)
  from scan_labels_dots [OF order_refl this] show ?thesis by (simp add: dots_def)
qed

lemma slices_prefix: "list_all (\<lambda>e. e \<le> length bs) es \<Longrightarrow> slices (bs @ cs) es = slices bs es"
  by (induction bs es rule: slices.induct) auto

lemma slices_labels: "slices (as_bytes d) (length d # dots d) = map as_bytes (rev (labels d))"
proof (induction d rule: rev_induct)
  case (snoc c d)
  have le: "list_all (\<lambda>e. e \<le> length (as_bytes d)) (length d # dots d)"
    using dots_less [of _ d] by (fastforce simp: list_all_iff)
  show ?case
  proof (cases "c = CHR ''.''")
    case True
    then show ?thesis
      using snoc slices_prefix [OF le, of "as_bytes ''.''"] by (simp add: dots_snoc split_on_snoc as_bytes_def)
  next
    case False
    obtain ls l where ls: "labels d = ls @ [l]" by (metis rev_exhaust split_on_not_Nil)
    show ?thesis
    proof (cases "dots d")
      case Nil
      with snoc ls have "l = d" "ls = []" by auto
      with False Nil ls show ?thesis by (simp add: dots_snoc split_on_snoc)
    next
      case (Cons f es)
      have f: "f < length d" using Cons dots_less [of f d] by simp
      have "slices (as_bytes (d @ [c])) (f # es) = slices (as_bytes d) (f # es)"
        using le Cons by (simp add: slices_prefix)
      moreover have "as_bytes l = drop (Suc f) (as_bytes d)"
        and "slices (as_bytes d) (f # es) = map as_bytes (rev ls)"
        using snoc Cons ls by auto
      ultimately show ?thesis
        using False Cons ls f by (simp add: dots_snoc split_on_snoc Suc_diff_le)
    qed
  qed
qed (simp add: dots_def as_bytes_def)

definition dotted :: "bytes list \<Rightarrow> bytes" where
  "dotted ls = concat (map (\<lambda>l. l @ [46]) ls)"

lemma append_label_fits: "length buf + length l + 1 \<le> 260 \<Longrightarrow> append_label buf l = buf @ l @ [46]"
  by (simp add: append_label_def Let_def)

lemma suffix_loop_spec:
  "length buf + length (dotted ls) \<le> 260 \<Longrightarrow>
     suffix_loop P ls buf \<longleftrightarrow> (\<exists>k. 0 < k \<and> k \<le> length ls \<and> P (buf @ dotted (take k ls)))"
proof (induction ls arbitrary: buf)
  case (Cons l ls)
  have al: "append_label buf l = buf @ l @ [46]" using Cons.prems by (simp add: append_label_fits dotted_def)
  have IH: "suffix_loop P ls (buf @ l @ [46]) \<longleftrightarrow>
      (\<exists>k. 0 < k \<and> k \<le> length ls \<and> P ((buf @ l @ [46]) @ dotted (take k ls)))"
    using Cons.prems by (intro Cons.IH) (simp add: dotted_def)
  have "(\<exists>k. 0 < k \<and> k \<le> length (l # ls) \<and> P (buf @ dotted (take k (l # ls)))) \<longleftrightarrow>
      (\<exists>j. j \<le> length ls \<and> P (buf @ dotted (take (Suc j) (l # ls))))"
    by (metis Suc_le_mono gr0_conv_Suc length_Cons zero_less_Suc)
  also have "\<dots> \<longleftrightarrow> P (buf @ l @ [46]) \<or> (\<exists>j. 0 < j \<and> j \<le> length ls \<and> P (buf @ dotted (take (Suc j) (l # ls))))"
    by (metis append_Nil2 concat.simps(1,2) dotted_def gr0I le0 list.map(1,2) take0 take_Suc_Cons)
  finally show ?case using al IH by (auto simp: Let_def dotted_def)
qed simp

lemma dotted_join: "ls \<noteq> [] \<Longrightarrow> dotted (map as_bytes ls) = as_bytes (join ''.'' ls @ ''.'')"
proof (induction ls)
  case (Cons l ls)
  have dot: "as_bytes ''.'' = [46]" by (simp add: as_bytes_def code_def)
  show ?case
    using Cons dot as_bytes_append [of "''.''" "join ''.'' ls @ ''.''"]
    by (cases "ls = []") (auto simp: dotted_def join_Cons)
qed simp

lemma fst_matches_suffix_spec:
  assumes "length (labels d) \<le> 128" and "length d \<le> 259"
  shows "fst_matches_suffix P d \<longleftrightarrow>
    (\<exists>k. 0 < k \<and> k \<le> length (labels d) \<and> P (as_bytes (join ''.'' (take k (rev (labels d))) @ ''.'')))"
proof -
  let ?ls = "map as_bytes (rev (labels d))"
  have "length (dotted ?ls) = length (as_bytes (join ''.'' (rev (labels d)) @ ''.''))"
    by (simp add: dotted_join)
  also have "\<dots> = length d + 1" using length_fst_key [of d] by (simp add: domain_to_fst_key_def)
  finally have fit: "length ([] :: bytes) + length (dotted ?ls) \<le> 260" using assms(2) by simp
  have "fst_matches_suffix P d \<longleftrightarrow> suffix_loop P ?ls []"
    by (simp add: fst_matches_suffix_def label_ends [OF assms(1)] label_at_slices slices_labels
        del: upt_Suc slices.simps)
  also have "\<dots> \<longleftrightarrow> (\<exists>k. 0 < k \<and> k \<le> length (labels d) \<and> P (dotted (take k ?ls)))"
    using suffix_loop_spec [OF fit] by simp
  also have "\<dots> \<longleftrightarrow> (\<exists>k. 0 < k \<and> k \<le> length (labels d) \<and> P (as_bytes (join ''.'' (take k (rev (labels d))) @ ''.'')))"
    by (intro ex_cong1 conj_cong refl) (simp add: take_map dotted_join)
  finally show ?thesis .
qed

section \<open>The reference meaning of a rule set\<close>

definition in_ipv4_cidr :: "u32 \<Rightarrow> u32 \<times> u8 \<Rightarrow> bool" where
  "in_ipv4_cidr a c \<longleftrightarrow> (case c of (addr, len) \<Rightarrow>
     len = 0 \<or> drop_bit (32 - unat len) a = drop_bit (32 - unat len) addr)"

definition in_ipv6_cidr :: "u128 \<Rightarrow> u128 \<times> u8 \<Rightarrow> bool" where
  "in_ipv6_cidr a c \<longleftrightarrow> (case c of (addr, len) \<Rightarrow>
     len = 0 \<or> drop_bit (128 - unat len) a = drop_bit (128 - unat len) addr)"

definition regexes_match :: "('f, 'r) crates \<Rightarrow> string list \<Rightarrow> string \<Rightarrow> bool" where
  "regexes_match cr rs d \<longleftrightarrow>
     rs \<noteq> [] \<and> (case regexset_new cr rs of Inl _ \<Rightarrow> False | Inr r \<Rightarrow> regexset_is_match cr r d)"

definition ip_semantics :: "(u32 \<times> u8) list \<Rightarrow> (u128 \<times> u8) list \<Rightarrow> IpAddr \<Rightarrow> bool" where
  "ip_semantics v4s v6s ip =
     (case ip of
        V4 a \<Rightarrow> list_ex (in_ipv4_cidr a) v4s
      | V6 a \<Rightarrow> (case to_ipv4_mapped a of Some m \<Rightarrow> list_ex (in_ipv4_cidr m) v4s | None \<Rightarrow> False)
               \<or> list_ex (in_ipv6_cidr a) v6s)"

definition domain_semantics ::
  "('f, 'r) crates \<Rightarrow> string list \<Rightarrow> string list \<Rightarrow> string list \<Rightarrow> string list \<Rightarrow> string \<Rightarrow> bool" where
  "domain_semantics cr ds ss kws rxs d =
     (let n = to_ascii_lowercase (trim_end_matches CHR ''.'' d)
      in n \<in> set ds \<or> (\<exists>s \<in> set ss. suffix_match s n) \<or> (\<exists>k \<in> set kws. contains_str n k)
         \<or> regexes_match cr rxs n)"

definition rule_semantics :: "('f, 'r) crates \<Rightarrow> CompiledRuleSet \<Rightarrow> MatchTarget \<Rightarrow> bool" where
  "rule_semantics cr c target =
     (case target of
        TDomain d \<Rightarrow> domain_semantics cr (c_domains c) (c_domain_suffixes c) (c_domain_keywords c) (c_domain_regexes c) d
      | TIp ip \<Rightarrow> ip_semantics (c_ipv4_cidrs c) (c_ipv6_cidrs c) ip
      | TPort p \<Rightarrow> list_ex (\<lambda>(lo, hi). lo \<le> p \<and> p \<le> hi) (c_ports c))"

text \<open>The limits of the stack buffers of the suffix query: 128 labels and 259 bytes.\<close>

definition within_limits :: "MatchTarget \<Rightarrow> bool" where
  "within_limits target =
     (case target of
        TDomain d \<Rightarrow> (let n = trim_end_matches CHR ''.'' d in length (labels n) \<le> 128 \<and> length n \<le> 259)
      | _ \<Rightarrow> True)"

lemma normalize_domain_eq: "normalize_domain d = to_ascii_lowercase (trim_end_matches CHR ''.'' d)"
  by (auto simp: normalize_domain_def Let_def list_ex_iff to_ascii_lowercase_no_upper)

lemma labels_lower: "labels (to_ascii_lowercase d) = map to_ascii_lowercase (labels d)"
proof (induction d)
  case (Cons c d)
  then show ?case
    by (cases "labels d") (auto simp: to_ascii_lowercase_def lower_dot)
qed (simp add: to_ascii_lowercase_def)

lemma match_ipv4_spec:
  assumes "ipv4_ranges rs = IpRanges_build (map (\<lambda>(addr, prefix). ipv4_cidr_to_range addr prefix) cs)"
    and "\<And>c. c \<in> set cs \<Longrightarrow> unat (snd c) \<le> 32"
  shows "match_ipv4 rs a \<longleftrightarrow> list_ex (in_ipv4_cidr a) cs"
proof -
  have "in_range a (case c of (addr, len) \<Rightarrow> ipv4_cidr_to_range addr len) \<longleftrightarrow> in_ipv4_cidr a c" if "c \<in> set cs" for c
    using assms(2) [OF that] by (cases c) (simp add: ipv4_cidr_range in_ipv4_cidr_def)
  then show ?thesis
    unfolding match_ipv4_def assms(1) ip_ranges.guarded_member list_ex_iff set_map bex_simps by (intro bex_cong refl)
qed

lemma match_ipv6_spec:
  assumes "ipv6_ranges rs = IpRanges_build (map (\<lambda>(addr, prefix). ipv6_cidr_to_range addr prefix) cs)"
    and "\<And>c. c \<in> set cs \<Longrightarrow> unat (snd c) \<le> 128"
  shows "match_ipv6 rs a \<longleftrightarrow> list_ex (in_ipv6_cidr a) cs"
proof -
  have "in_range a (case c of (addr, len) \<Rightarrow> ipv6_cidr_to_range addr len) \<longleftrightarrow> in_ipv6_cidr a c" if "c \<in> set cs" for c
    using assms(2) [OF that] by (cases c) (simp add: ipv6_cidr_range in_ipv6_cidr_def)
  then show ?thesis
    unfolding match_ipv6_def assms(1) ip_ranges.guarded_member list_ex_iff set_map bex_simps by (intro bex_cong refl)
qed

lemma match_port_spec:
  assumes "port_bitset rs = build_port_bitset ps"
  shows "match_port rs p \<longleftrightarrow> list_ex (\<lambda>(lo, hi). lo \<le> p \<and> p \<le> hi) ps"
  using ports.has_build_ports [of ps p]
  by (auto simp: match_port_def assms build_port_bitset_def ports.build_ports_def list_ex_iff)

end
