(* ===== verification/Route_Config.thy ===== *)
theory Route_Config
  imports Ruleset_Matcher
begin

text \<open>
  The routing configuration (\<open>src/config/route.rs\<close>) and the shared connection types of
  \<open>src/inbound/mod.rs\<close>: targets, connections, route rules, port filters with their JSON form, and
  the protocol names of \<open>src/app/sniff.rs\<close> a rule may name.
\<close>

section \<open>Targets and connections (\<open>inbound/mod.rs\<close>)\<close>

datatype Target = Domain string u16 | Socket SocketAddr

fun target_port :: "Target \<Rightarrow> u16" where
  "target_port (Domain _ p) = p"
| "target_port (Socket a) = sa_port a"

text \<open>\<open>show_ip\<close> is \<open>IpAddr::to_string\<close>.\<close>

fun target_host :: "(IpAddr \<Rightarrow> string) \<Rightarrow> Target \<Rightarrow> string" where
  "target_host show_ip (Domain d _) = d"
| "target_host show_ip (Socket a) = show_ip (sa_ip a)"

fun to_socket_addr_lossy :: "Target \<Rightarrow> SocketAddr" where
  "to_socket_addr_lossy (Socket a) = a"
| "to_socket_addr_lossy (Domain _ p) = \<lparr>sa_ip = V4 0, sa_port = p\<rparr>"

text \<open>\<open>Display\<close>: \<open>d:p\<close> for a name, \<open>show_addr\<close> (\<open>SocketAddr::to_string\<close>) for a socket address.\<close>

fun target_display :: "(SocketAddr \<Rightarrow> string) \<Rightarrow> Target \<Rightarrow> string" where
  "target_display show_addr (Domain d p) = d @ '':'' @ show_nat (unat p)"
| "target_display show_addr (Socket a) = show_addr a"

text \<open>
  The inbound stream: the bytes given back after sniffing, and the bytes the inner stream still
  delivers. The live counters are the optional byte counts of the connection tracker.
\<close>

record SniffedStream =
  prefix_bytes :: bytes
  inner :: bytes
  live_down :: "int option"
  live_up :: "int option"

definition SniffedStream_new :: "bytes \<Rightarrow> SniffedStream" where
  "SniffedStream_new stream = \<lparr>prefix_bytes = [], inner = stream, live_down = None, live_up = None\<rparr>"

definition set_live_counters :: "SniffedStream \<Rightarrow> int \<Rightarrow> int \<Rightarrow> SniffedStream" where
  "set_live_counters s up down = s\<lparr>live_up := Some up, live_down := Some down\<rparr>"

definition prepend :: "SniffedStream \<Rightarrow> bytes \<Rightarrow> SniffedStream" where
  "prepend s data =
     (if data = [] then s
      else if prefix_bytes s = [] then s\<lparr>prefix_bytes := data\<rparr>
      else s\<lparr>prefix_bytes := prefix_bytes s @ data\<rparr>)"

text \<open>
  \<open>poll_read\<close> into a buffer with \<open>n\<close> free bytes; \<open>k\<close> is how much the inner stream has ready. The
  prefix is served alone, without touching the inner stream.
\<close>

definition poll_read :: "SniffedStream \<Rightarrow> nat \<Rightarrow> nat \<Rightarrow> bytes \<times> SniffedStream" where
  "poll_read s n k =
     (if prefix_bytes s \<noteq> [] then
        let amt = min (length (prefix_bytes s)) n
        in (take amt (prefix_bytes s),
            s\<lparr>prefix_bytes := drop amt (prefix_bytes s), live_down := map_option (\<lambda>c. c + int amt) (live_down s)\<rparr>)
      else
        let got = take (min n k) (inner s)
        in (got, s\<lparr>inner := drop (min n k) (inner s),
                   live_down := (if 0 < length got then map_option (\<lambda>c. c + int (length got)) (live_down s) else live_down s)\<rparr>))"

record InboundTcpStream =
  stream :: SniffedStream
  tcp_target :: Target
  tcp_inbound_tag :: string
  tcp_sniffed_protocol :: "string option"
  tcp_sniffed_domain :: "string option"

record InboundUdpPacket =
  udp_data :: bytes
  udp_src :: SocketAddr
  udp_target :: Target
  udp_inbound_tag :: string
  udp_sniffed_protocol :: "string option"
  udp_sniffed_domain :: "string option"

section \<open>Route rules (\<open>config/route.rs\<close>)\<close>

datatype NetworkFilter = FTcp | FUdp

datatype PortFilter = PortFilter u16 u16

fun PortFilter_contains :: "PortFilter \<Rightarrow> u16 \<Rightarrow> bool" where
  "PortFilter_contains (PortFilter lo hi) port \<longleftrightarrow> lo \<le> port \<and> port \<le> hi"

text \<open>The JSON values a port filter is read from and written to: a number or a string.\<close>

datatype PortJson = JNum nat | JStr string

fun PortFilter_deserialize :: "PortJson \<Rightarrow> PortFilter option" where
  "PortFilter_deserialize (JNum v) = (if 65535 < v then None else Some (PortFilter (word_of_nat v) (word_of_nat v)))"
| "PortFilter_deserialize (JStr v) =
     (case split_once CHR ''-'' v of
        Some (s, e) \<Rightarrow>
          (case (parse_u16 (trim s), parse_u16 (trim e)) of
             (Some start, Some end') \<Rightarrow> if end' < start then None else Some (PortFilter start end')
           | _ \<Rightarrow> None)
      | None \<Rightarrow> map_option (\<lambda>p. PortFilter p p) (parse_u16 (trim v)))"

fun PortFilter_serialize :: "PortFilter \<Rightarrow> PortJson" where
  "PortFilter_serialize (PortFilter lo hi) =
     (if lo = hi then JNum (unat lo) else JStr (show_nat (unat lo) @ ''-'' @ show_nat (unat hi)))"

record RouteRuleConfig =
  r_inbound :: "string list"
  r_network :: "NetworkFilter option"
  r_ruleset :: "string list"
  r_domain :: "string list"
  r_domain_suffix :: "string list"
  r_domain_keyword :: "string list"
  r_ip_cidr :: "string list"
  r_port :: "PortFilter list"
  r_port_range :: "string list"
  r_sniff :: bool
  r_sniff_timeout_ms :: u64
  r_sniff_type :: "string list"
  r_sniff_override_destination :: bool
  r_protocol :: "string list"
  r_resolve :: bool
  r_resolve_server :: "string option"
  r_hijack_dns :: bool
  r_outbound :: string

definition has_conditions :: "RouteRuleConfig \<Rightarrow> bool" where
  "has_conditions r \<longleftrightarrow>
     r_inbound r \<noteq> [] \<or> r_network r \<noteq> None \<or> r_protocol r \<noteq> [] \<or> r_ruleset r \<noteq> [] \<or> r_domain r \<noteq> []
     \<or> r_domain_suffix r \<noteq> [] \<or> r_domain_keyword r \<noteq> [] \<or> r_ip_cidr r \<noteq> [] \<or> r_port r \<noteq> [] \<or> r_port_range r \<noteq> []"

definition RouteRuleConfig_default :: RouteRuleConfig where
  "RouteRuleConfig_default =
     \<lparr>r_inbound = [], r_network = None, r_ruleset = [], r_domain = [], r_domain_suffix = [], r_domain_keyword = [],
      r_ip_cidr = [], r_port = [], r_port_range = [], r_sniff = False, r_sniff_timeout_ms = 0, r_sniff_type = [],
      r_sniff_override_destination = False, r_protocol = [], r_resolve = False, r_resolve_server = None,
      r_hijack_dns = False, r_outbound = []\<rparr>"

datatype RuleSetType = Local | Remote

record RuleSetRef =
  rsr_tag :: string
  rsr_type :: RuleSetType
  rsr_path :: "string option"
  rsr_url :: "string option"
  rsr_download_detour :: "string option"

record RouteConfig =
  rc_rules :: "RouteRuleConfig list"
  rc_final :: string
  rc_rule_set :: "RuleSetRef list"
  rc_resolve_dns :: bool

section \<open>Protocol names (\<open>app/sniff.rs\<close>)\<close>

datatype SniffType = Tls | Http | Quic | Ssh | BitTorrent

definition SniffType_parse :: "string \<Rightarrow> SniffType option" where
  "SniffType_parse s =
     (let l = to_ascii_lowercase s in
      if l = ''tls'' then Some Tls
      else if l = ''http'' then Some Http
      else if l = ''quic'' then Some Quic
      else if l = ''ssh'' then Some Ssh
      else if l = ''bittorrent'' \<or> l = ''bt'' then Some BitTorrent
      else None)"

definition SniffType_defaults :: "SniffType list" where
  "SniffType_defaults = [Tls, Http, Quic, Ssh, BitTorrent]"

section \<open>Lemmas\<close>

text \<open>Every byte given back by the sniffer is read again, before the rest, and counted once.\<close>

definition pending :: "SniffedStream \<Rightarrow> bytes" where
  "pending s = prefix_bytes s @ inner s"

lemma pending_prepend: "pending (prepend s data) = prefix_bytes s @ data @ inner s"
  by (simp add: pending_def prepend_def)

lemma poll_read_pending:
  assumes "poll_read s n k = (got, s')"
  shows "got @ pending s' = pending s" and "live_up s' = live_up s"
    and "live_down s' = map_option (\<lambda>c. c + int (length got)) (live_down s)"
  using assms
  by (auto simp: poll_read_def pending_def Let_def split: if_splits) (cases "live_down s", simp_all)+

lemma parse_u16_show: "parse_u16 (show_nat (unat p)) = Some p"
proof -
  have "unat p \<le> 65535" using unsigned_less [of p, where 'a = nat] by simp
  then show ?thesis by (simp add: parse_u16_def parse_uint_show_nat)
qed

lemma trim_show_nat: "trim (show_nat n) = show_nat n"
  by (rule trim_graphic) (use show_nat_digits [of _ n] in simp_all)

lemma dash_show_nat: "CHR ''-'' \<notin> set (show_nat n)"
  using show_nat_digits [of "CHR ''-''" n] by (auto simp: is_digit_def code_def)

lemma PortFilter_roundtrip:
  assumes "lo \<le> hi"
  shows "PortFilter_deserialize (PortFilter_serialize (PortFilter lo hi)) = Some (PortFilter lo hi)"
proof (cases "lo = hi")
  case True
  have "\<not> 65535 < unat hi" using unsigned_less [of hi, where 'a = nat] by simp
  with True show ?thesis by simp
next
  case False
  then show ?thesis
    using assms by (simp add: split_once_append dash_show_nat trim_show_nat parse_u16_show)
qed

end
