(* ===== verification/Router.thy ===== *)
theory Router
  imports Route_Config
begin

text \<open>
  The router (\<open>src/router/mod.rs\<close>): rule-set loading, compilation of route rules, rule matching,
  and the full and index-filtered searches. The files, the network and the cache file are a record
  \<open>world\<close>; a rule set is what the match engine of \<open>src/ruleset\<close> builds.
\<close>

section \<open>The world outside\<close>

text \<open>
  \<open>w_files\<close>: readable files; \<open>w_parent\<close>: \<open>Path::parent\<close>; \<open>w_read_error\<close>, \<open>w_mkdir_error\<close>,
  \<open>w_write_error\<close>: the operating system's answer for a file that cannot be read, a directory that
  cannot be created, a file that cannot be written; \<open>w_download\<close>: the answer of \<open>ureq\<close> for a URL,
  a failed call, or a call whose body fails or arrives; \<open>w_now\<close>: the clock; \<open>w_cache_store\<close>:
  entries handed to the cache-file writer, in order.
\<close>

record world =
  w_files :: "string \<Rightarrow> bytes option"
  w_parent :: "string \<Rightarrow> string option"
  w_read_error :: "string \<Rightarrow> string"
  w_mkdir_error :: "string \<Rightarrow> string option"
  w_write_error :: "string \<Rightarrow> string option"
  w_download :: "string \<Rightarrow> string + (string + bytes)"
  w_now :: u64
  w_cache_store :: "(string \<times> bytes) list"

text \<open>\<open>anyhow::Error\<close>: a message, an engine error, or a message with an engine error appended.\<close>

datatype RouterError = Msg string | Rule RuleSetError | Context string RuleSetError

section \<open>Loading rule sets\<close>

definition rule_set_msg :: "string \<Rightarrow> string \<Rightarrow> string" where
  "rule_set_msg tag m = ''rule_set '' @ quoted tag @ '': '' @ m"

definition ruleset_of_bytes ::
  "('f, 'r) crates \<Rightarrow> (RuleSetError \<Rightarrow> RouterError) \<Rightarrow> bytes \<Rightarrow> RouterError + ('f, 'r) RuleSet" where
  "ruleset_of_bytes cr parse_err data =
     res_bind (map_err parse_err (LoadedRuleSet_from_bytes data)) (\<lambda>loaded. map_err Rule (RuleSet_from_loaded cr loaded))"

definition load_ruleset_from_path ::
  "('f, 'r) crates \<Rightarrow> world \<Rightarrow> string \<Rightarrow> string \<Rightarrow> RouterError + ('f, 'r) RuleSet" where
  "load_ruleset_from_path cr w path tag =
     res_bind (ok_or (Msg (rule_set_msg tag (''failed to read file '' @ quoted path @ '': '' @ w_read_error w path)))
         (w_files w path))
       (ruleset_of_bytes cr Rule)"

definition download_bytes :: "world \<Rightarrow> string \<Rightarrow> string \<Rightarrow> RouterError + bytes" where
  "download_bytes w url tag =
     res_bind (map_err (\<lambda>e. Msg (rule_set_msg tag (''download failed from '' @ quoted url @ '': '' @ e))) (w_download w url))
       (\<lambda>body. map_err (\<lambda>e. Msg (rule_set_msg tag (''failed to read response body from '' @ quoted url @ '': '' @ e))) body)"

text \<open>The result of a load keeps the world, which the download branch changes.\<close>

definition store_download ::
  "world \<Rightarrow> string option \<Rightarrow> bool \<Rightarrow> string \<Rightarrow> bytes \<Rightarrow> RouterError + world" where
  "store_download w cache_path has_writer tag data =
     (case cache_path of
        Some path \<Rightarrow>
          (case Option.bind (w_parent w path) (\<lambda>d. map_option (Pair d) (w_mkdir_error w d)) of
             Some (d, e) \<Rightarrow> Inl (Msg (rule_set_msg tag (''failed to create cache dir '' @ quoted d @ '': '' @ e)))
           | None \<Rightarrow>
               (case w_write_error w path of
                  Some e \<Rightarrow> Inl (Msg (rule_set_msg tag (''failed to write disk cache to '' @ quoted path @ '': '' @ e)))
                | None \<Rightarrow> Inr (w\<lparr>w_files := (w_files w)(path \<mapsto> data)\<rparr>)))
      | None \<Rightarrow> Inr (if has_writer then w\<lparr>w_cache_store := w_cache_store w @ [(tag, data)]\<rparr> else w))"

definition load_ruleset_remote ::
  "('f, 'r) crates \<Rightarrow> (string \<Rightarrow> bytes option) option \<Rightarrow> bool \<Rightarrow> string \<Rightarrow> string option \<Rightarrow> string \<Rightarrow> world
     \<Rightarrow> RouterError + (('f, 'r) RuleSet \<times> world)" where
  "load_ruleset_remote cr cache_reader has_writer url cache_path tag w =
     (if cache_path \<noteq> None \<and> w_files w (the cache_path) \<noteq> None
      then res_bind (load_ruleset_from_path cr w (the cache_path) tag) (\<lambda>rs. Inr (rs, w))
      else
        (case (if cache_path = None then Option.bind cache_reader (\<lambda>r. r tag) else None) of
           Some data \<Rightarrow>
             res_bind (ruleset_of_bytes cr (Context (rule_set_msg tag ''failed to parse cached data from cache_file'')) data)
               (\<lambda>rs. Inr (rs, w))
         | None \<Rightarrow>
             res_bind (download_bytes w url tag) (\<lambda>data.
             res_bind (store_download w cache_path has_writer tag data) (\<lambda>w.
             res_bind (ruleset_of_bytes cr (Context (rule_set_msg tag ''failed to parse downloaded data'')) data)
               (\<lambda>rs. Inr (rs, w))))))"

definition load_ruleset_ref ::
  "('f, 'r) crates \<Rightarrow> (string \<Rightarrow> bytes option) option \<Rightarrow> bool \<Rightarrow> RuleSetRef \<Rightarrow> world
     \<Rightarrow> RouterError + (('f, 'r) RuleSet \<times> world)" where
  "load_ruleset_ref cr cache_reader has_writer rs_ref w =
     (case rsr_type rs_ref of
        Local \<Rightarrow>
          res_bind (ok_or (Msg (rule_set_msg (rsr_tag rs_ref) ''`path` is required when type = \"local\"'')) (rsr_path rs_ref))
            (\<lambda>path. res_bind (load_ruleset_from_path cr w path (rsr_tag rs_ref)) (\<lambda>rs. Inr (rs, w)))
      | Remote \<Rightarrow>
          res_bind (ok_or (Msg (rule_set_msg (rsr_tag rs_ref) ''`url` is required when type = \"remote\"'')) (rsr_url rs_ref))
            (\<lambda>url. load_ruleset_remote cr cache_reader has_writer url (rsr_path rs_ref) (rsr_tag rs_ref) w))"

section \<open>Compiled rules\<close>

datatype NetworkKind = Tcp | Udp

datatype RouteAction =
    Outbound string
  | DnsOut
  | Sniff u64 bool "SniffType list"
  | Resolve "string option"

definition to_action :: "string \<Rightarrow> RouteAction" where
  "to_action outbound = (if outbound = ''dns-out'' then DnsOut else Outbound outbound)"

record ('f, 'r) CompiledRule =
  inbound_tags :: "string list"
  cr_network :: "NetworkFilter option"
  protocols :: "string list"
  cr_rulesets :: "('f, 'r) RuleSet list"
  addr_rs :: "('f, 'r) RuleSet option"
  port_rs :: "('f, 'r) RuleSet option"
  action :: RouteAction
  rule_display :: "string \<times> string"

definition addr_lines :: "RouteRuleConfig \<Rightarrow> string list" where
  "addr_lines rule =
     map (\<lambda>d. ''domain: '' @ d) (r_domain rule)
     @ map (\<lambda>d. ''domain-suffix: '' @ d) (r_domain_suffix rule)
     @ map (\<lambda>d. ''domain-keyword: '' @ d) (r_domain_keyword rule)
     @ map (\<lambda>c. if CHR '':'' \<in> set c then ''ip-cidr6: '' @ c else ''ip-cidr: '' @ c) (r_ip_cidr rule)"

definition port_lines :: "RouteRuleConfig \<Rightarrow> string list" where
  "port_lines rule =
     map (\<lambda>p. case p of PortFilter lo hi \<Rightarrow>
            if lo = hi then ''port: '' @ show_nat (unat lo)
            else ''port: '' @ show_nat (unat lo) @ ''-'' @ show_nat (unat hi)) (r_port rule)
     @ map (\<lambda>p. ''port: '' @ p) (r_port_range rule)"

definition inline_ruleset :: "('f, 'r) crates \<Rightarrow> string list \<Rightarrow> RouterError + ('f, 'r) RuleSet option" where
  "inline_ruleset cr ls =
     (if ls = [] then Inr None else map_err Rule (map_sum id Some (RuleSet_from_text cr (join [CHR 0x0A] ls))))"

definition rule_action :: "RouteRuleConfig \<Rightarrow> RouteAction" where
  "rule_action rule =
     (if r_sniff rule then
        Sniff (r_sniff_timeout_ms rule) (r_sniff_override_destination rule) (List.map_filter SniffType_parse (r_sniff_type rule))
      else if r_resolve rule then Resolve (r_resolve_server rule)
      else if r_hijack_dns rule then DnsOut
      else to_action (r_outbound rule))"

fun network_name :: "NetworkFilter \<Rightarrow> string" where
  "network_name FTcp = ''tcp''"
| "network_name FUdp = ''udp''"

definition display_of :: "RouteRuleConfig \<Rightarrow> string \<times> string" where
  "display_of rule =
     (if r_ruleset rule \<noteq> [] then (''rule-set'', join '','' (r_ruleset rule))
      else if r_domain rule \<noteq> [] then (''DOMAIN'', join '','' (r_domain rule))
      else if r_domain_suffix rule \<noteq> [] then (''DOMAIN-SUFFIX'', join '','' (r_domain_suffix rule))
      else if r_domain_keyword rule \<noteq> [] then (''DOMAIN-KEYWORD'', join '','' (r_domain_keyword rule))
      else if r_ip_cidr rule \<noteq> [] then (''IP-CIDR'', join '','' (r_ip_cidr rule))
      else (case r_network rule of
              Some n \<Rightarrow> (''NETWORK'', network_name n)
            | None \<Rightarrow>
                if r_protocol rule \<noteq> [] then (''PROTOCOL'', join '','' (r_protocol rule))
                else if r_inbound rule \<noteq> [] then (''IN-NAME'', join '','' (r_inbound rule))
                else if r_sniff rule then (''SNIFF'', [])
                else if r_resolve rule then (''RESOLVE'', [])
                else if r_hijack_dns rule then (''HIJACK-DNS'', [])
                else (''MATCH'', [])))"

definition compile ::
  "('f, 'r) crates \<Rightarrow> (string \<Rightarrow> ('f, 'r) RuleSet option) \<Rightarrow> RouteRuleConfig \<Rightarrow> RouterError + ('f, 'r) CompiledRule" where
  "compile cr rulesets rule =
     res_bind (res_map (\<lambda>tag. ok_or (Msg (''ruleset '' @ quoted tag @ '' not found'')) (rulesets tag)) (r_ruleset rule)) (\<lambda>rss.
     res_bind (inline_ruleset cr (addr_lines rule)) (\<lambda>addr.
     res_bind (inline_ruleset cr (port_lines rule)) (\<lambda>port.
       Inr \<lparr>inbound_tags = r_inbound rule, cr_network = r_network rule,
            protocols = map (to_lowercase cr) (r_protocol rule), cr_rulesets = rss, addr_rs = addr, port_rs = port,
            action = rule_action rule, rule_display = display_of rule\<rparr>)))"

fun target_to_addr_match :: "Target \<Rightarrow> MatchTarget" where
  "target_to_addr_match (Domain h _) = TDomain h"
| "target_to_addr_match (Socket addr) = TIp (sa_ip addr)"

definition match_target :: "('f, 'r) crates \<Rightarrow> ('f, 'r) CompiledRule \<Rightarrow> Target \<Rightarrow> bool" where
  "match_target cr rule target =
     (let addr_mt = target_to_addr_match target; port_mt = TPort (target_port target)
      in if list_ex (\<lambda>rs. RuleSet_matches cr rs addr_mt \<or> RuleSet_matches cr rs port_mt) (cr_rulesets rule) then True
         else if (case addr_rs rule of Some rs \<Rightarrow> RuleSet_matches cr rs addr_mt | None \<Rightarrow> False) then True
         else (case port_rs rule of Some rs \<Rightarrow> RuleSet_matches cr rs port_mt | None \<Rightarrow> False))"

fun network_ok :: "NetworkFilter option \<Rightarrow> NetworkKind option \<Rightarrow> bool" where
  "network_ok None _ = True"
| "network_ok (Some FTcp) (Some Tcp) = True"
| "network_ok (Some FUdp) (Some Udp) = True"
| "network_ok (Some _) _ = False"

definition protocol_ok :: "('f, 'r) crates \<Rightarrow> string list \<Rightarrow> string option \<Rightarrow> bool" where
  "protocol_ok cr ps sniffed =
     (ps = [] \<or> (case sniffed of Some proto \<Rightarrow> to_lowercase cr proto \<in> set ps | None \<Rightarrow> False))"

definition rule_matches ::
  "('f, 'r) crates \<Rightarrow> ('f, 'r) CompiledRule \<Rightarrow> string \<Rightarrow> NetworkKind option \<Rightarrow> Target \<Rightarrow> string option \<Rightarrow> bool" where
  "rule_matches cr rule inbound_tag net target sniffed_protocol =
     (if inbound_tags rule \<noteq> [] \<and> \<not> list_ex (\<lambda>t. t = inbound_tag) (inbound_tags rule) then False
      else if \<not> network_ok (cr_network rule) net then False
      else if \<not> protocol_ok cr (protocols rule) sniffed_protocol then False
      else
        let has_any = cr_rulesets rule \<noteq> [] \<or> addr_rs rule \<noteq> None \<or> port_rs rule \<noteq> None
        in \<not> (has_any \<and> \<not> match_target cr rule target))"

section \<open>The router\<close>

record RuleSetMeta =
  rule_count_m :: nat
  updated_at_ms :: u64

record ('f, 'r) Router =
  rules :: "('f, 'r) CompiledRule list"
  idx_no_sniff :: "nat list"
  idx_no_sniff_resolve :: "nat list"
  default_a :: RouteAction
  rulesets_m :: "string \<Rightarrow> ('f, 'r) RuleSet option"
  ruleset_meta :: "string \<Rightarrow> RuleSetMeta option"
  route_config :: RouteConfig

definition is_sniff :: "RouteAction \<Rightarrow> bool" where
  "is_sniff a = (case a of Sniff _ _ _ \<Rightarrow> True | _ \<Rightarrow> False)"

definition is_sniff_or_resolve :: "RouteAction \<Rightarrow> bool" where
  "is_sniff_or_resolve a = (case a of Sniff _ _ _ \<Rightarrow> True | Resolve _ \<Rightarrow> True | _ \<Rightarrow> False)"

definition load_all ::
  "('f, 'r) crates \<Rightarrow> (string \<Rightarrow> bytes option) option \<Rightarrow> bool \<Rightarrow> RuleSetRef list \<Rightarrow> world
     \<Rightarrow> RouterError + ((string \<Rightarrow> ('f, 'r) RuleSet option) \<times> (string \<Rightarrow> RuleSetMeta option) \<times> world)" where
  "load_all cr cache_reader has_writer refs w =
     res_fold (\<lambda>rs_ref (rss, meta, w).
         res_bind (load_ruleset_ref cr cache_reader has_writer rs_ref w) (\<lambda>(rs, w).
           Inr (rss(rsr_tag rs_ref \<mapsto> rs),
                meta(rsr_tag rs_ref \<mapsto> \<lparr>rule_count_m = rule_count cr rs, updated_at_ms = w_now w\<rparr>), w)))
       refs (Map.empty, Map.empty, w)"

definition hijack_msg :: "nat \<Rightarrow> string" where
  "hijack_msg i = ''route rule['' @ show_nat i @ '']: `hijack_dns: true` must be used with at least one ''
     @ ''matching condition (e.g. `protocol`, `inbound`, `network`, `port`). ''
     @ ''A bare `hijack_dns: true` with no conditions is not allowed.''"

definition check_hijack :: "RouteRuleConfig list \<Rightarrow> RouterError + unit" where
  "check_hijack rs =
     (case List.find (\<lambda>(i, r). r_hijack_dns r \<and> \<not> has_conditions r) (List.enumerate 0 rs) of
        Some (i, r) \<Rightarrow> Inl (Msg (hijack_msg i))
      | None \<Rightarrow> Inr ())"

definition filter_index :: "(RouteAction \<Rightarrow> bool) \<Rightarrow> ('f, 'r) CompiledRule list \<Rightarrow> nat list" where
  "filter_index drop_action rs =
     List.map_filter (\<lambda>(i, r). if drop_action (action r) then None else Some i) (List.enumerate 0 rs)"

definition from_config ::
  "('f, 'r) crates \<Rightarrow> (string \<Rightarrow> bytes option) option \<Rightarrow> bool \<Rightarrow> RouteConfig \<Rightarrow> world
     \<Rightarrow> RouterError + (('f, 'r) Router \<times> world)" where
  "from_config cr cache_reader has_writer config w =
     res_bind (load_all cr cache_reader has_writer (rc_rule_set config) w) (\<lambda>(rss, meta, w).
     res_bind (check_hijack (rc_rules config)) (\<lambda>_.
     res_bind (res_map (compile cr rss) (rc_rules config)) (\<lambda>rs.
       Inr (\<lparr>rules = rs, idx_no_sniff = filter_index is_sniff rs,
             idx_no_sniff_resolve = filter_index is_sniff_or_resolve rs,
             default_a = to_action (rc_final config), rulesets_m = rss, ruleset_meta = meta,
             route_config = config\<rparr>, w))))"

definition reload_remote_ruleset ::
  "('f, 'r) crates \<Rightarrow> string \<Rightarrow> ('f, 'r) Router \<Rightarrow> world \<Rightarrow> RouterError + (('f, 'r) Router \<times> world)" where
  "reload_remote_ruleset cr tag router w =
     res_bind (ok_or (Msg (''rule_set '' @ quoted tag @ '' not found''))
         (List.find (\<lambda>r. rsr_tag r = tag) (rc_rule_set (route_config router)))) (\<lambda>rs_ref.
     if rsr_type rs_ref \<noteq> Remote then Inl (Msg (''rule_set '' @ quoted tag @ '' is not remote, cannot update''))
     else
       res_bind (ok_or (Msg (rule_set_msg tag ''missing url'')) (rsr_url rs_ref)) (\<lambda>url.
       res_bind (download_bytes w url tag) (\<lambda>data.
         let w = (case rsr_path rs_ref of
                    Some path \<Rightarrow> if w_write_error w path = None then w\<lparr>w_files := (w_files w)(path \<mapsto> data)\<rparr> else w
                  | None \<Rightarrow> w)
         in res_bind (ruleset_of_bytes cr (Context (rule_set_msg tag ''parse error'')) data) (\<lambda>rs.
              Inr (router\<lparr>rulesets_m := (rulesets_m router)(tag \<mapsto> rs),
                          ruleset_meta := (ruleset_meta router)(tag \<mapsto> \<lparr>rule_count_m = rule_count cr rs, updated_at_ms = w_now w\<rparr>)\<rparr>, w)))))"

type_synonym decision = "RouteAction \<times> string \<times> string"

definition hit :: "('f, 'r) CompiledRule \<Rightarrow> decision" where
  "hit rule = (action rule, fst (rule_display rule), snd (rule_display rule))"

fun route_loop ::
  "('f, 'r) crates \<Rightarrow> ('f, 'r) CompiledRule list \<Rightarrow> RouteAction \<Rightarrow> string \<Rightarrow> NetworkKind option \<Rightarrow> Target \<Rightarrow> string option
     \<Rightarrow> decision" where
  "route_loop cr [] dflt tag net target proto = (dflt, ''final'', [])"
| "route_loop cr (rule # rs) dflt tag net target proto =
     (if rule_matches cr rule tag net target proto then hit rule else route_loop cr rs dflt tag net target proto)"

definition route ::
  "('f, 'r) crates \<Rightarrow> ('f, 'r) Router \<Rightarrow> string \<Rightarrow> NetworkKind option \<Rightarrow> Target \<Rightarrow> string option \<Rightarrow> decision" where
  "route cr router tag net target proto = route_loop cr (rules router) (default_a router) tag net target proto"

text \<open>The indexed search: \<open>None\<close> is an index out of bounds, a panic.\<close>

fun route_indexed ::
  "('f, 'r) crates \<Rightarrow> ('f, 'r) Router \<Rightarrow> nat list \<Rightarrow> string \<Rightarrow> NetworkKind option \<Rightarrow> Target \<Rightarrow> string option
     \<Rightarrow> decision option" where
  "route_indexed cr router [] tag net target proto = Some (default_a router, ''final'', [])"
| "route_indexed cr router (i # is) tag net target proto =
     (if i < length (rules router) then
        if rule_matches cr (rules router ! i) tag net target proto then Some (hit (rules router ! i))
        else route_indexed cr router is tag net target proto
      else None)"

definition route_tcp :: "('f, 'r) crates \<Rightarrow> ('f, 'r) Router \<Rightarrow> InboundTcpStream \<Rightarrow> decision" where
  "route_tcp cr router conn =
     route cr router (tcp_inbound_tag conn) (Some Tcp) (tcp_target conn) (tcp_sniffed_protocol conn)"

definition route_tcp_after_sniff ::
  "('f, 'r) crates \<Rightarrow> ('f, 'r) Router \<Rightarrow> InboundTcpStream \<Rightarrow> Target \<Rightarrow> decision option" where
  "route_tcp_after_sniff cr router conn target =
     route_indexed cr router (idx_no_sniff router) (tcp_inbound_tag conn) (Some Tcp) target (tcp_sniffed_protocol conn)"

definition route_tcp_after_resolve ::
  "('f, 'r) crates \<Rightarrow> ('f, 'r) Router \<Rightarrow> InboundTcpStream \<Rightarrow> Target \<Rightarrow> decision option" where
  "route_tcp_after_resolve cr router conn target =
     route_indexed cr router (idx_no_sniff_resolve router) (tcp_inbound_tag conn) (Some Tcp) target (tcp_sniffed_protocol conn)"

definition route_udp :: "('f, 'r) crates \<Rightarrow> ('f, 'r) Router \<Rightarrow> InboundUdpPacket \<Rightarrow> decision" where
  "route_udp cr router packet =
     route cr router (udp_inbound_tag packet) (Some Udp) (udp_target packet) (udp_sniffed_protocol packet)"

definition route_udp_after_sniff ::
  "('f, 'r) crates \<Rightarrow> ('f, 'r) Router \<Rightarrow> InboundUdpPacket \<Rightarrow> decision option" where
  "route_udp_after_sniff cr router packet =
     route_indexed cr router (idx_no_sniff router) (udp_inbound_tag packet) (Some Udp) (udp_target packet)
       (udp_sniffed_protocol packet)"

definition route_udp_after_resolve ::
  "('f, 'r) crates \<Rightarrow> ('f, 'r) Router \<Rightarrow> InboundUdpPacket \<Rightarrow> Target \<Rightarrow> decision option" where
  "route_udp_after_resolve cr router packet target =
     route_indexed cr router (idx_no_sniff_resolve router) (udp_inbound_tag packet) (Some Udp) target
       (udp_sniffed_protocol packet)"

section \<open>The indexed searches\<close>

lemma filter_index_nth:
  "List.map_filter (\<lambda>(i, r). if P (action r) then None else Some i) (List.enumerate n rs) =
     filter (\<lambda>i. \<not> P (action (rs ! (i - n)))) [n ..< n + length rs]"
proof (induction rs arbitrary: n)
  case (Cons r rs)
  have "filter (\<lambda>i. \<not> P (action (rs ! (i - Suc n)))) [Suc n ..< Suc n + length rs] =
      filter (\<lambda>i. \<not> P (action ((r # rs) ! (i - n)))) [Suc n ..< Suc n + length rs]"
    by (rule filter_cong) (auto simp: nth_Cons' Suc_diff_le)
  with Cons.IH [of "Suc n"] show ?case
    by (simp add: List.map_filter_def upt_conv_Cons del: upt_Suc)
qed (simp add: List.map_filter_def)

lemma filter_index_bound: "i \<in> set (filter_index P rs) \<Longrightarrow> i < length rs"
  by (auto simp: filter_index_def filter_index_nth)

lemma filter_index_map: "map (\<lambda>i. rs ! i) (filter_index P rs) = filter (\<lambda>r. \<not> P (action r)) rs"
proof -
  have "map (\<lambda>i. rs ! i) (filter (\<lambda>i. \<not> P (action (rs ! i))) [0 ..< length rs]) =
      filter (\<lambda>r. \<not> P (action r)) (map (\<lambda>i. rs ! i) [0 ..< length rs])"
    by (simp add: filter_map o_def)
  then show ?thesis by (simp add: filter_index_def filter_index_nth map_nth)
qed

lemma route_indexed_map:
  "(\<And>i. i \<in> set is \<Longrightarrow> i < length (rules r)) \<Longrightarrow>
     route_indexed cr r is tag net t p = Some (route_loop cr (map (\<lambda>i. rules r ! i) is) (default_a r) tag net t p)"
  by (induction "is") auto

text \<open>Searching a precomputed index is searching the rules without the dropped actions, and never
  panics.\<close>

lemma route_indexed_filter:
  "route_indexed cr r (filter_index P (rules r)) tag net t p =
     Some (route_loop cr (filter (\<lambda>x. \<not> P (action x)) (rules r)) (default_a r) tag net t p)"
  by (simp add: route_indexed_map filter_index_bound filter_index_map)

lemma route_loop_action:
  "fst (route_loop cr rs dflt tag net t p) = dflt \<or> (\<exists>r \<in> set rs. fst (route_loop cr rs dflt tag net t p) = action r)"
  by (induction rs) (auto simp: hit_def)

lemma compile_action: "compile cr rss rule = Inr r \<Longrightarrow> action r = rule_action rule"
  by (auto simp: compile_def result_simps)

lemma is_sniff_rule_action [simp]: "is_sniff (rule_action rule) \<longleftrightarrow> r_sniff rule"
  by (auto simp: rule_action_def is_sniff_def to_action_def)

lemma is_sniff_or_resolve_rule_action [simp]:
  "is_sniff_or_resolve (rule_action rule) \<longleftrightarrow> r_sniff rule \<or> r_resolve rule"
  by (auto simp: rule_action_def is_sniff_or_resolve_def to_action_def)

lemma to_action_plain [simp]: "\<not> is_sniff_or_resolve (to_action s)"
  by (simp add: to_action_def is_sniff_or_resolve_def)

lemma res_map_filter:
  assumes "res_map f xs = Inr ys" and "\<And>x y. f x = Inr y \<Longrightarrow> Q y \<longleftrightarrow> P x"
  shows "res_map f (filter P xs) = Inr (filter Q ys)"
  using assms
proof (induction xs arbitrary: ys)
  case (Cons x xs)
  from Cons.prems(1) obtain z zs where ys: "f x = Inr z" "res_map f xs = Inr zs" "ys = z # zs"
    by (auto simp: result_simps)
  have "res_map f (filter P xs) = Inr (filter Q zs)" by (rule Cons.IH [OF ys(2) Cons.prems(2)])
  with ys Cons.prems(2) [OF ys(1)] show ?case by auto
qed simp

lemma check_hijack_Inr: "check_hijack rs = Inr () \<longleftrightarrow> list_all (\<lambda>r. r_hijack_dns r \<longrightarrow> has_conditions r) rs"
proof -
  have "check_hijack rs = Inr () \<longleftrightarrow>
      List.find (\<lambda>(i, r). r_hijack_dns r \<and> \<not> has_conditions r) (List.enumerate 0 rs) = None"
    by (simp add: check_hijack_def split: option.splits)
  also have "\<dots> \<longleftrightarrow> (\<forall>x \<in> set (List.enumerate 0 rs). r_hijack_dns (snd x) \<longrightarrow> has_conditions (snd x))"
    by (auto simp: find_None_iff)
  also have "\<dots> \<longleftrightarrow> (\<forall>r \<in> set (map snd (List.enumerate 0 rs)). r_hijack_dns r \<longrightarrow> has_conditions r)"
    unfolding set_map by blast
  finally show ?thesis by (simp add: list_all_iff)
qed

text \<open>A configuration with some rules left out builds the router with those rules left out.\<close>

lemma from_config_filter:
  assumes "from_config cr rd wr config w = Inr (r, w')"
    and "\<And>rule. Q (rule_action rule) \<longleftrightarrow> \<not> P rule"
  shows "\<exists>r'. from_config cr rd wr (config\<lparr>rc_rules := filter P (rc_rules config)\<rparr>) w = Inr (r', w')
    \<and> rules r' = filter (\<lambda>x. \<not> Q (action x)) (rules r) \<and> default_a r' = default_a r"
proof -
  obtain rss meta rs where l: "load_all cr rd wr (rc_rule_set config) w = Inr (rss, meta, w')"
    and h: "check_hijack (rc_rules config) = Inr ()" and c: "res_map (compile cr rss) (rc_rules config) = Inr rs"
    and r: "rules r = rs" "default_a r = to_action (rc_final config)"
    using assms(1) by (auto simp: from_config_def result_simps)
  have "res_map (compile cr rss) (filter P (rc_rules config)) = Inr (filter (\<lambda>x. \<not> Q (action x)) rs)"
    by (rule res_map_filter [OF c]) (use assms(2) compile_action in fastforce)
  moreover have "check_hijack (filter P (rc_rules config)) = Inr ()"
    using h unfolding check_hijack_Inr by (auto simp: list_all_iff)
  ultimately show ?thesis using l r by (simp add: from_config_def)
qed

lemma from_config_indices:
  assumes "from_config cr rd wr config w = Inr (r, w')"
  shows "idx_no_sniff r = filter_index is_sniff (rules r)"
    and "idx_no_sniff_resolve r = filter_index is_sniff_or_resolve (rules r)"
    and "default_a r = to_action (rc_final config)"
  using assms by (auto simp: from_config_def result_simps)

lemma after_sniff_total:
  assumes "from_config cr rd wr config w = Inr (r, w')"
  shows "\<exists>d. route_tcp_after_sniff cr r conn target = Some d \<and> \<not> is_sniff (fst d)"
    and "\<exists>d. route_udp_after_sniff cr r packet = Some d \<and> \<not> is_sniff (fst d)"
proof -
  let ?rs = "filter (\<lambda>x. \<not> is_sniff (action x)) (rules r)"
  have "\<not> is_sniff (to_action s)" for s by (simp add: to_action_def is_sniff_def)
  then have *: "\<not> is_sniff (fst (route_loop cr ?rs (default_a r) tag net t p))" for tag net t p
    using route_loop_action [of cr ?rs "default_a r" tag net t p] from_config_indices(3) [OF assms] by auto
  show "\<exists>d. route_tcp_after_sniff cr r conn target = Some d \<and> \<not> is_sniff (fst d)"
    "\<exists>d. route_udp_after_sniff cr r packet = Some d \<and> \<not> is_sniff (fst d)"
    using * by (simp_all add: route_tcp_after_sniff_def route_udp_after_sniff_def
        from_config_indices(1) [OF assms] route_indexed_filter)
qed

lemma after_resolve_total:
  assumes "from_config cr rd wr config w = Inr (r, w')"
  shows "\<exists>d. route_tcp_after_resolve cr r conn target = Some d \<and> \<not> is_sniff_or_resolve (fst d)"
    and "\<exists>d. route_udp_after_resolve cr r packet target = Some d \<and> \<not> is_sniff_or_resolve (fst d)"
proof -
  let ?rs = "filter (\<lambda>x. \<not> is_sniff_or_resolve (action x)) (rules r)"
  have *: "\<not> is_sniff_or_resolve (fst (route_loop cr ?rs (default_a r) tag net t p))" for tag net t p
    using route_loop_action [of cr ?rs "default_a r" tag net t p] from_config_indices(3) [OF assms] by auto
  show "\<exists>d. route_tcp_after_resolve cr r conn target = Some d \<and> \<not> is_sniff_or_resolve (fst d)"
    "\<exists>d. route_udp_after_resolve cr r packet target = Some d \<and> \<not> is_sniff_or_resolve (fst d)"
    using * by (simp_all add: route_tcp_after_resolve_def route_udp_after_resolve_def
        from_config_indices(2) [OF assms] route_indexed_filter)
qed

end
