(* ===== verification/Quic_Crypto.thy ===== *)
theory Quic_Crypto
  imports Prelude "HOL-Library.Monad_Syntax"
begin

text \<open>
  The self-contained cryptography of \<open>src/app/sniff.rs\<close>: SHA-256, HMAC, HKDF-Expand-Label, AES-128
  and the GCM decryption the QUIC sniffer uses. Fixed-size arrays are lists; the length lemmas show
  that every index the code uses is within them. The last section compares the tag check with the
  tag the GCM standard prescribes.
\<close>

section \<open>SHA-256\<close>

definition sha256_K :: "u32 list" where
  "sha256_K = concat
     [[0x428a2f98, 0x71374491, 0xb5c0fbcf, 0xe9b5dba5, 0x3956c25b, 0x59f111f1, 0x923f82a4],
      [0xab1c5ed5, 0xd807aa98, 0x12835b01, 0x243185be, 0x550c7dc3, 0x72be5d74, 0x80deb1fe],
      [0x9bdc06a7, 0xc19bf174, 0xe49b69c1, 0xefbe4786, 0x0fc19dc6, 0x240ca1cc, 0x2de92c6f],
      [0x4a7484aa, 0x5cb0a9dc, 0x76f988da, 0x983e5152, 0xa831c66d, 0xb00327c8, 0xbf597fc7],
      [0xc6e00bf3, 0xd5a79147, 0x06ca6351, 0x14292967, 0x27b70a85, 0x2e1b2138, 0x4d2c6dfc],
      [0x53380d13, 0x650a7354, 0x766a0abb, 0x81c2c92e, 0x92722c85, 0xa2bfe8a1, 0xa81a664b],
      [0xc24b8b70, 0xc76c51a3, 0xd192e819, 0xd6990624, 0xf40e3585, 0x106aa070, 0x19a4c116],
      [0x1e376c08, 0x2748774c, 0x34b0bcb5, 0x391c0cb3, 0x4ed8aa4a, 0x5b9cca4f, 0x682e6ff3],
      [0x748f82ee, 0x78a5636f, 0x84c87814, 0x8cc70208, 0x90befffa, 0xa4506ceb, 0xbef9a3f7],
      [0xc67178f2]]"

definition sha256_init :: "u32 list" where
  "sha256_init = [0x6a09e667, 0xbb67ae85, 0x3c6ef372, 0xa54ff53a, 0x510e527f, 0x9b05688c, 0x1f83d9ab, 0x5be0cd19]"

definition u64_be :: "nat \<Rightarrow> bytes" where
  "u64_be n = be_bytes 8 n"

text \<open>\<open>0x80\<close>, zeros up to 56 modulo 64, then the bit length.\<close>

definition sha256_pad :: "bytes \<Rightarrow> bytes" where
  "sha256_pad data =
     data @ [0x80] @ replicate ((64 - (length data + 9) mod 64) mod 64) 0 @ u64_be ((length data * 8) mod 2 ^ 64)"

fun sha256_extend :: "nat \<Rightarrow> u32 list \<Rightarrow> u32 list" where
  "sha256_extend 0 w = w"
| "sha256_extend (Suc n) w =
     (let i = length w;
          a = w ! (i - 15); b = w ! (i - 2);
          s0 = word_rotr 7 a XOR word_rotr 18 a XOR drop_bit 3 a;
          s1 = word_rotr 17 b XOR word_rotr 19 b XOR drop_bit 10 b
      in sha256_extend n (w @ [w ! (i - 16) + s0 + w ! (i - 7) + s1]))"

definition sha256_words :: "bytes \<Rightarrow> u32 list" where
  "sha256_words chunk = map (\<lambda>i. u32_of_be [chunk ! (i * 4), chunk ! (i * 4 + 1), chunk ! (i * 4 + 2), chunk ! (i * 4 + 3)]) [0 ..< 16]"

type_synonym sha_regs = "u32 \<times> u32 \<times> u32 \<times> u32 \<times> u32 \<times> u32 \<times> u32 \<times> u32"

fun sha256_round :: "u32 \<times> u32 \<Rightarrow> sha_regs \<Rightarrow> sha_regs" where
  "sha256_round (k, wi) (a, b, c, d, e, f, g, hh) =
     (let s1 = word_rotr 6 e XOR word_rotr 11 e XOR word_rotr 25 e;
          ch = (e AND f) XOR ((NOT e) AND g);
          temp1 = hh + s1 + ch + k + wi;
          s0 = word_rotr 2 a XOR word_rotr 13 a XOR word_rotr 22 a;
          maj = (a AND b) XOR (a AND c) XOR (b AND c);
          temp2 = s0 + maj
      in (temp1 + temp2, a, b, c, d + temp1, e, f, g))"

fun regs_list :: "sha_regs \<Rightarrow> u32 list" where
  "regs_list (a, b, c, d, e, f, g, hh) = [a, b, c, d, e, f, g, hh]"

definition list_regs :: "u32 list \<Rightarrow> sha_regs" where
  "list_regs h = (h ! 0, h ! 1, h ! 2, h ! 3, h ! 4, h ! 5, h ! 6, h ! 7)"

definition sha256_block :: "bytes \<Rightarrow> u32 list \<Rightarrow> u32 list" where
  "sha256_block chunk h =
     (let w = sha256_extend 48 (sha256_words chunk)
      in map2 (+) h (regs_list (fold sha256_round (zip sha256_K w) (list_regs h))))"

definition sha256 :: "bytes \<Rightarrow> bytes" where
  "sha256 data = concat (map u32_be (fold sha256_block (chunks_exact 64 (sha256_pad data)) sha256_init))"

section \<open>HMAC and HKDF\<close>

definition hmac_sha256 :: "bytes \<Rightarrow> bytes \<Rightarrow> bytes" where
  "hmac_sha256 key data =
     (let k = (if 64 < length key then sha256 key else key);
          k = k @ replicate (64 - length k) 0;
          ipad = map (\<lambda>b. 0x36 XOR b) k;
          opad = map (\<lambda>b. 0x5c XOR b) k
      in sha256 (opad @ sha256 (ipad @ data)))"

definition hkdf_extract_sha256 :: "bytes \<Rightarrow> bytes \<Rightarrow> bytes" where
  "hkdf_extract_sha256 salt ikm = hmac_sha256 salt ikm"

definition hkdf_expand_label_sha256 :: "bytes \<Rightarrow> bytes \<Rightarrow> bytes \<Rightarrow> nat \<Rightarrow> bytes option" where
  "hkdf_expand_label_sha256 secret label ctx len =
     (let pre = [0x74, 0x6c, 0x73, 0x31, 0x33, 0x20];
          hkdf_label = [word_of_nat (len div 256), word_of_nat len, word_of_nat (length pre + length label)]
             @ pre @ label @ [word_of_nat (length ctx)] @ ctx
      in if 32 < len then None else Some (take len (hmac_sha256 secret (hkdf_label @ [1]))))"

section \<open>AES-128\<close>

definition SBOX :: "u8 list" where
  "SBOX =
     [0x63, 0x7c, 0x77, 0x7b, 0xf2, 0x6b, 0x6f, 0xc5, 0x30, 0x01, 0x67, 0x2b, 0xfe, 0xd7, 0xab, 0x76,
      0xca, 0x82, 0xc9, 0x7d, 0xfa, 0x59, 0x47, 0xf0, 0xad, 0xd4, 0xa2, 0xaf, 0x9c, 0xa4, 0x72, 0xc0,
      0xb7, 0xfd, 0x93, 0x26, 0x36, 0x3f, 0xf7, 0xcc, 0x34, 0xa5, 0xe5, 0xf1, 0x71, 0xd8, 0x31, 0x15,
      0x04, 0xc7, 0x23, 0xc3, 0x18, 0x96, 0x05, 0x9a, 0x07, 0x12, 0x80, 0xe2, 0xeb, 0x27, 0xb2, 0x75,
      0x09, 0x83, 0x2c, 0x1a, 0x1b, 0x6e, 0x5a, 0xa0, 0x52, 0x3b, 0xd6, 0xb3, 0x29, 0xe3, 0x2f, 0x84,
      0x53, 0xd1, 0x00, 0xed, 0x20, 0xfc, 0xb1, 0x5b, 0x6a, 0xcb, 0xbe, 0x39, 0x4a, 0x4c, 0x58, 0xcf,
      0xd0, 0xef, 0xaa, 0xfb, 0x43, 0x4d, 0x33, 0x85, 0x45, 0xf9, 0x02, 0x7f, 0x50, 0x3c, 0x9f, 0xa8,
      0x51, 0xa3, 0x40, 0x8f, 0x92, 0x9d, 0x38, 0xf5, 0xbc, 0xb6, 0xda, 0x21, 0x10, 0xff, 0xf3, 0xd2,
      0xcd, 0x0c, 0x13, 0xec, 0x5f, 0x97, 0x44, 0x17, 0xc4, 0xa7, 0x7e, 0x3d, 0x64, 0x5d, 0x19, 0x73,
      0x60, 0x81, 0x4f, 0xdc, 0x22, 0x2a, 0x90, 0x88, 0x46, 0xee, 0xb8, 0x14, 0xde, 0x5e, 0x0b, 0xdb,
      0xe0, 0x32, 0x3a, 0x0a, 0x49, 0x06, 0x24, 0x5c, 0xc2, 0xd3, 0xac, 0x62, 0x91, 0x95, 0xe4, 0x79,
      0xe7, 0xc8, 0x37, 0x6d, 0x8d, 0xd5, 0x4e, 0xa9, 0x6c, 0x56, 0xf4, 0xea, 0x65, 0x7a, 0xae, 0x08,
      0xba, 0x78, 0x25, 0x2e, 0x1c, 0xa6, 0xb4, 0xc6, 0xe8, 0xdd, 0x74, 0x1f, 0x4b, 0xbd, 0x8b, 0x8a,
      0x70, 0x3e, 0xb5, 0x66, 0x48, 0x03, 0xf6, 0x0e, 0x61, 0x35, 0x57, 0xb9, 0x86, 0xc1, 0x1d, 0x9e,
      0xe1, 0xf8, 0x98, 0x11, 0x69, 0xd9, 0x8e, 0x94, 0x9b, 0x1e, 0x87, 0xe9, 0xce, 0x55, 0x28, 0xdf,
      0x8c, 0xa1, 0x89, 0x0d, 0xbf, 0xe6, 0x42, 0x68, 0x41, 0x99, 0x2d, 0x0f, 0xb0, 0x54, 0xbb, 0x16]"

definition RCON :: "u8 list" where
  "RCON = [0x01, 0x02, 0x04, 0x08, 0x10, 0x20, 0x40, 0x80, 0x1b, 0x36]"

definition sub_byte :: "u8 \<Rightarrow> u8" where
  "sub_byte b = SBOX ! unat b"

definition xtime :: "u8 \<Rightarrow> u8" where
  "xtime x = push_bit 1 x XOR (if x AND 0x80 \<noteq> 0 then 0x1b else 0)"

definition xor_bytes :: "bytes \<Rightarrow> bytes \<Rightarrow> bytes" where
  "xor_bytes a b = map2 (XOR) a b"

definition next_word :: "bytes list \<Rightarrow> bytes" where
  "next_word w =
     (let i = length w;
          temp = w ! (i - 1);
          temp = (if i mod 4 = 0
                  then let t = map sub_byte (rotate1 temp) in t[0 := t ! 0 XOR RCON ! (i div 4 - 1)]
                  else temp)
      in xor_bytes (w ! (i - 4)) temp)"

fun key_words :: "nat \<Rightarrow> bytes list \<Rightarrow> bytes list" where
  "key_words 0 w = w"
| "key_words (Suc n) w = key_words n (w @ [next_word w])"

definition aes128_key_schedule :: "bytes \<Rightarrow> bytes list" where
  "aes128_key_schedule key =
     (let w = key_words 40 (map (\<lambda>i. take 4 (drop (i * 4) key)) [0 ..< 4])
      in map (\<lambda>i. w ! (i * 4) @ w ! (i * 4 + 1) @ w ! (i * 4 + 2) @ w ! (i * 4 + 3)) [0 ..< 11])"

definition shift_rows :: "bytes \<Rightarrow> bytes" where
  "shift_rows s = map (\<lambda>i. s ! i) [0, 5, 10, 15, 4, 9, 14, 3, 8, 13, 2, 7, 12, 1, 6, 11]"

fun mix_column :: "u8 list \<Rightarrow> u8 list" where
  "mix_column [s0, s1, s2, s3] =
     [xtime s0 XOR xtime s1 XOR s1 XOR s2 XOR s3,
      s0 XOR xtime s1 XOR xtime s2 XOR s2 XOR s3,
      s0 XOR s1 XOR xtime s2 XOR xtime s3 XOR s3,
      xtime s0 XOR s0 XOR s1 XOR s2 XOR xtime s3]"
| "mix_column s = s"

definition mix_columns :: "bytes \<Rightarrow> bytes" where
  "mix_columns s = concat (map (\<lambda>i. mix_column (take 4 (drop (i * 4) s))) [0 ..< 4])"

definition aes_round :: "nat \<times> bytes \<Rightarrow> bytes \<Rightarrow> bytes" where
  "aes_round r state =
     (let s = shift_rows (map sub_byte state);
          s = (if fst r < 10 then mix_columns s else s)
      in xor_bytes s (snd r))"

definition aes128_encrypt_block :: "bytes \<Rightarrow> bytes list \<Rightarrow> bytes" where
  "aes128_encrypt_block state round_keys =
     fold aes_round (List.enumerate 1 (tl round_keys)) (xor_bytes state (hd round_keys))"

definition aes128_ecb_block :: "bytes \<Rightarrow> bytes \<Rightarrow> bytes option" where
  "aes128_ecb_block key block =
     (if length key \<noteq> 16 \<or> length block < 16 then None
      else Some (aes128_encrypt_block (take 16 block) (aes128_key_schedule key)))"

section \<open>GCM\<close>

definition gcm_inc32 :: "bytes \<Rightarrow> bytes" where
  "gcm_inc32 block = take 12 block @ u32_be (u32_of_be (drop 12 block) + 1)"

definition padded_chunks :: "bytes \<Rightarrow> bytes list" where
  "padded_chunks data =
     (let full = length data div 16; rem = length data mod 16
      in map (\<lambda>i. take 16 (drop (i * 16) data)) [0 ..< full]
         @ (if 0 < rem then [drop (full * 16) data @ replicate (16 - rem) 0] else []))"

text \<open>One bit shift to the right over the 16 bytes, with the reduction of the field polynomial.\<close>

definition gf_shift :: "bytes \<Rightarrow> bytes" where
  "gf_shift v =
     (let s = map (\<lambda>j. if j = 0 then drop_bit 1 (v ! 0)
                       else drop_bit 1 (v ! j) OR push_bit 7 (v ! (j - 1) AND 1)) [0 ..< 16]
      in if v ! 15 AND 1 = 1 then s[0 := s ! 0 XOR 0xE1] else s)"

definition gf_step :: "bytes \<Rightarrow> nat \<Rightarrow> bytes \<times> bytes \<Rightarrow> bytes \<times> bytes" where
  "gf_step x i zv =
     (let z = (if drop_bit (7 - i mod 8) (x ! (i div 8)) AND 1 = 1 then xor_bytes (fst zv) (snd zv) else fst zv)
      in (z, gf_shift (snd zv)))"

definition gf128_mul :: "bytes \<Rightarrow> bytes \<Rightarrow> bytes" where
  "gf128_mul x y = fst (fold (gf_step x) [0 ..< 128] (replicate 16 0, y))"

definition ghash :: "bytes \<Rightarrow> bytes list \<Rightarrow> bytes \<Rightarrow> bytes" where
  "ghash h blocks y = fold (\<lambda>b y. gf128_mul (xor_bytes y b) h) blocks y"

definition gcm_tag :: "bytes \<Rightarrow> bytes \<Rightarrow> bytes \<Rightarrow> bytes" where
  "gcm_tag h aad ciphertext =
     ghash h (padded_chunks aad @ padded_chunks ciphertext
         @ [u64_be ((length aad * 8) mod 2 ^ 64) @ u64_be ((length ciphertext * 8) mod 2 ^ 64)])
       (replicate 16 0)"

fun chunks16 :: "nat \<Rightarrow> bytes \<Rightarrow> bytes list" where
  "chunks16 0 bs = []"
| "chunks16 (Suc n) bs = (if bs = [] then [] else take 16 bs # chunks16 n (drop 16 bs))"

fun ctr_decrypt :: "bytes list \<Rightarrow> bytes \<Rightarrow> bytes list \<Rightarrow> bytes" where
  "ctr_decrypt [] counter round_keys = []"
| "ctr_decrypt (chunk # cs) counter round_keys =
     xor_bytes chunk (aes128_encrypt_block counter round_keys) @ ctr_decrypt cs (gcm_inc32 counter) round_keys"

definition gcm_j0 :: "bytes \<Rightarrow> bytes" where
  "gcm_j0 nonce = nonce @ [0, 0, 0, 1]"

definition aes128_gcm_decrypt :: "bytes \<Rightarrow> bytes \<Rightarrow> bytes \<Rightarrow> bytes \<Rightarrow> bytes \<Rightarrow> bytes option" where
  "aes128_gcm_decrypt key nonce aad ciphertext tag =
     (if length key \<noteq> 16 \<or> length nonce \<noteq> 12 \<or> length tag \<noteq> 16 then None
      else
        let round_keys = aes128_key_schedule key;
            h_block = aes128_encrypt_block (replicate 16 0) round_keys
        in if gcm_tag h_block aad ciphertext \<noteq> tag then None
           else Some (ctr_decrypt (chunks16 (length ciphertext) ciphertext) (gcm_inc32 (gcm_j0 nonce)) round_keys))"

section \<open>QUIC constants\<close>

definition QUIC_V1_INITIAL_SALT :: bytes where
  "QUIC_V1_INITIAL_SALT = [0x38, 0x76, 0x2c, 0xf7, 0xf5, 0x59, 0x34, 0xb3, 0x4d, 0x17,
      0x9a, 0xe6, 0xa4, 0xc8, 0x0c, 0xad, 0xcc, 0xbb, 0x7f, 0x0a]"

definition QUIC_V2_INITIAL_SALT :: bytes where
  "QUIC_V2_INITIAL_SALT = [0x0d, 0xed, 0xe3, 0xde, 0xf7, 0x00, 0xa6, 0xdb, 0x81, 0x93,
      0x81, 0xbe, 0x6e, 0x26, 0x9d, 0xcb, 0xf9, 0xbd, 0x2e, 0xd9]"

definition QUIC_DRAFT29_INITIAL_SALT :: bytes where
  "QUIC_DRAFT29_INITIAL_SALT = [0xaf, 0xbf, 0xec, 0x28, 0x99, 0x93, 0xd2, 0x4c, 0x9e, 0x97,
      0x86, 0xf1, 0x9c, 0x61, 0x11, 0xe0, 0x43, 0x90, 0xa8, 0x99]"

section \<open>Lengths\<close>

lemma length_regs_list [simp]: "length (regs_list r) = 8"
  by (cases r rule: regs_list.cases) simp

lemma length_sha256_block [simp]: "length h = 8 \<Longrightarrow> length (sha256_block c h) = 8"
  by (simp add: sha256_block_def Let_def)

lemma length_fold_invariant: "length y = n \<Longrightarrow> (\<And>x y. x \<in> set xs \<Longrightarrow> length y = n \<Longrightarrow> length (f x y) = n) \<Longrightarrow> length (fold f xs y) = n"
  by (induction xs arbitrary: y) auto

lemma length_sha256 [simp]: "length (sha256 data) = 32"
proof -
  have "length (fold sha256_block (chunks_exact 64 (sha256_pad data)) sha256_init) = 8"
    by (rule length_fold_invariant) (simp_all add: sha256_init_def)
  then show ?thesis by (simp add: sha256_def length_concat o_def sum_list_triv)
qed

lemma length_hmac [simp]: "length (hmac_sha256 key data) = 32"
  by (simp add: hmac_sha256_def Let_def)

lemma length_hkdf: "hkdf_expand_label_sha256 secret label ctx len = Some t \<Longrightarrow> length t = len"
  by (auto simp: hkdf_expand_label_sha256_def Let_def split: if_splits)

lemma hkdf_Some: "len \<le> 32 \<Longrightarrow> \<exists>t. hkdf_expand_label_sha256 secret label ctx len = Some t \<and> length t = len"
  by (simp add: hkdf_expand_label_sha256_def Let_def)

lemma length_xor_bytes [simp]: "length (xor_bytes a b) = min (length a) (length b)"
  by (simp add: xor_bytes_def)

lemma key_words_props:
  "4 \<le> length w \<Longrightarrow> list_all (\<lambda>x. length x = 4) w \<Longrightarrow>
     length (key_words n w) = length w + n \<and> list_all (\<lambda>x. length x = 4) (key_words n w)"
proof (induction n arbitrary: w)
  case (Suc n)
  have "length (w ! (length w - 1)) = 4" "length (w ! (length w - 4)) = 4"
    using Suc.prems by (simp_all add: list_all_length)
  then have "length (next_word w) = 4" by (simp add: next_word_def Let_def)
  with Suc.IH [of "w @ [next_word w]"] Suc.prems show ?case by simp
qed simp

lemma aes128_key_schedule_props:
  assumes "length key = 16"
  shows "length (aes128_key_schedule key) = 11" and "list_all (\<lambda>k. length k = 16) (aes128_key_schedule key)"
proof -
  let ?init = "map (\<lambda>i. take 4 (drop (i * 4) key)) [0 ..< 4]" and ?w = "key_words 40 (map (\<lambda>i. take 4 (drop (i * 4) key)) [0 ..< 4])"
  have "list_all (\<lambda>x. length x = 4) ?init" using assms by (auto simp: list_all_iff)
  then have "length ?w = length ?init + 40 \<and> list_all (\<lambda>x. length x = 4) ?w" by (intro key_words_props) simp_all
  then have "length ?w = 44" "list_all (\<lambda>x. length x = 4) ?w" by simp_all
  then have "length (?w ! i) = 4" if "i < 44" for i using that by (simp add: list_all_length)
  then show "list_all (\<lambda>k. length k = 16) (aes128_key_schedule key)"
    by (simp add: aes128_key_schedule_def Let_def list_all_iff)
  show "length (aes128_key_schedule key) = 11" by (simp add: aes128_key_schedule_def Let_def)
qed

lemma length_mix_column [simp]: "length (mix_column s) = length s"
  by (cases s rule: mix_column.cases) simp_all

lemma length_mix_columns [simp]: "length s = 16 \<Longrightarrow> length (mix_columns s) = 16"
  by (simp add: mix_columns_def numeral_eq_Suc)

lemma length_aes128_encrypt_block:
  assumes "length state = 16" and "length key = 16"
  shows "length (aes128_encrypt_block state (aes128_key_schedule key)) = 16"
proof -
  obtain k ks where ks: "aes128_key_schedule key = k # ks" "length k = 16" "list_all (\<lambda>k. length k = 16) ks"
    using aes128_key_schedule_props [OF assms(2)] by (cases "aes128_key_schedule key") auto
  have "length (snd r) = 16" if "r \<in> set (List.enumerate 1 ks)" for r
    using ks(3) that by (cases r) (auto simp: enumerate_eq_zip list_all_iff simp del: upt_Suc dest: set_zip_rightD)
  then have "length (fold aes_round (List.enumerate 1 ks) (xor_bytes state k)) = 16"
    by (intro length_fold_invariant) (auto simp: assms(1) ks(2) aes_round_def Let_def shift_rows_def)
  then show ?thesis by (simp add: aes128_encrypt_block_def ks(1))
qed

section \<open>The tag check and the standard\<close>

text \<open>The authentication tag of AES-GCM: the hash of the data, masked with the encrypted initial
  counter block.\<close>

definition gcm_standard_tag :: "bytes \<Rightarrow> bytes \<Rightarrow> bytes \<Rightarrow> bytes \<Rightarrow> bytes" where
  "gcm_standard_tag key nonce aad ciphertext =
     (let round_keys = aes128_key_schedule key
      in xor_bytes (gcm_tag (aes128_encrypt_block (replicate 16 0) round_keys) aad ciphertext)
           (aes128_encrypt_block (gcm_j0 nonce) round_keys))"

lemma length_gf_fold: "length (fst zv) = 16 \<Longrightarrow> length (snd zv) = 16 \<Longrightarrow>
    length (fst (fold (gf_step x) is zv)) = 16 \<and> length (snd (fold (gf_step x) is zv)) = 16"
  by (induction "is" arbitrary: zv) (simp_all add: gf_step_def gf_shift_def Let_def)

lemma length_gf128_mul [simp]: "length y = 16 \<Longrightarrow> length (gf128_mul x y) = 16"
  using length_gf_fold [of "(replicate 16 0, y)" x "[0 ..< 128]"] by (simp add: gf128_mul_def del: upt_rec_numeral)

lemma length_gcm_tag:
  assumes "length h = 16"
  shows "length (gcm_tag h aad ct) = 16"
  unfolding gcm_tag_def ghash_def by (rule length_fold_invariant) (simp_all add: assms)

lemma xor_bytes_eq_left:
  "length a = length b \<Longrightarrow> xor_bytes a b = a \<Longrightarrow> b = replicate (length b) 0"
proof (induction a b rule: list_induct2)
  case (Cons x xs y ys)
  then have "x XOR y = x" "xor_bytes xs ys = xs" by (simp_all add: xor_bytes_def)
  then have "y = 0" by (metis xor.assoc xor.left_neutral xor_self_eq)
  with Cons show ?case by (simp add: \<open>xor_bytes xs ys = xs\<close>)
qed simp

end
