(* ===== verification/Byte_Access.thy ===== *)
theory Byte_Access
  imports Rust_Std "HOL-Library.Monad_Syntax"
begin

text \<open>
  Checked access to byte slices. A function that indexes network input returns an option whose
  \<open>None\<close> is the panic of an index or slice out of range; the \<open>total_intros\<close> rules prove that a
  function never panics by following its structure.
\<close>

definition idx :: "bytes \<Rightarrow> nat \<Rightarrow> u8 option" where
  "idx buf i = (if i < length buf then Some (buf ! i) else None)"

definition slice :: "bytes \<Rightarrow> nat \<Rightarrow> nat \<Rightarrow> bytes option" where
  "slice buf a b = (if a \<le> b \<and> b \<le> length buf then Some (take (b - a) (drop a buf)) else None)"

definition be16 :: "bytes \<Rightarrow> nat \<Rightarrow> nat option" where
  "be16 buf i = do { a \<leftarrow> idx buf i; b \<leftarrow> idx buf (i + 1); Some (unat (u16_of_be [a, b])) }"

definition be32 :: "bytes \<Rightarrow> nat \<Rightarrow> u32 option" where
  "be32 buf i = do { b \<leftarrow> slice buf i (i + 4); Some (u32_of_be b) }"

named_theorems total_intros \<open>a computation does not panic\<close>

lemma bind_total [total_intros]:
  "m \<noteq> None \<Longrightarrow> (\<And>x. m = Some x \<Longrightarrow> f x \<noteq> None) \<Longrightarrow> m \<bind> f \<noteq> None"
  by (cases m) auto

lemma if_total [total_intros]: "(c \<Longrightarrow> a \<noteq> None) \<Longrightarrow> (\<not> c \<Longrightarrow> b \<noteq> None) \<Longrightarrow> (if c then a else b) \<noteq> None"
  by simp

lemma let_total [total_intros]: "(\<And>y. y = x \<Longrightarrow> f y \<noteq> None) \<Longrightarrow> Let x f \<noteq> None"
  by simp

lemma Some_total [total_intros]: "Some x \<noteq> None"
  by simp

lemma case_option_total [total_intros]:
  "(m = None \<Longrightarrow> a \<noteq> None) \<Longrightarrow> (\<And>x. m = Some x \<Longrightarrow> f x \<noteq> None) \<Longrightarrow> (case m of None \<Rightarrow> a | Some x \<Rightarrow> f x) \<noteq> None"
  by (cases m) auto

lemma case_prod_total [total_intros]: "(\<And>a b. p = (a, b) \<Longrightarrow> f a b \<noteq> None) \<Longrightarrow> (case p of (a, b) \<Rightarrow> f a b) \<noteq> None"
  by (cases p) auto

lemma idx_total [total_intros]: "i < length buf \<Longrightarrow> idx buf i \<noteq> None"
  by (simp add: idx_def)

lemma slice_total [total_intros]: "a \<le> b \<Longrightarrow> b \<le> length buf \<Longrightarrow> slice buf a b \<noteq> None"
  by (simp add: slice_def)

lemma idx_Some [simp]: "i < length buf \<Longrightarrow> idx buf i = Some (buf ! i)"
  by (simp add: idx_def)

lemma be16_total [total_intros]: "i + 1 < length buf \<Longrightarrow> be16 buf i \<noteq> None"
  by (simp add: be16_def)

lemma be32_total [total_intros]: "i + 4 \<le> length buf \<Longrightarrow> be32 buf i \<noteq> None"
  by (simp add: be32_def slice_def)

lemma be16_Some: "i + 1 < length buf \<Longrightarrow> be16 buf i = Some (unat (u16_of_be [buf ! i, buf ! (i + 1)]))"
  by (simp add: be16_def)

lemma slice_Some: "a \<le> b \<Longrightarrow> b \<le> length buf \<Longrightarrow> slice buf a b = Some (take (b - a) (drop a buf))"
  by (simp add: slice_def)

lemma slice_length: "slice buf a b = Some s \<Longrightarrow> length s = b - a"
  by (auto simp: slice_def split: if_splits)

text \<open>The question-mark operator on an \<open>Option\<close> inside a function that may also panic.\<close>

definition try_opt :: "'a option option \<Rightarrow> ('a \<Rightarrow> 'b option option) \<Rightarrow> 'b option option" where
  "try_opt m f = (case m of None \<Rightarrow> None | Some None \<Rightarrow> Some None | Some (Some x) \<Rightarrow> f x)"

lemma try_opt_simps [simp]:
  "try_opt None f = None" "try_opt (Some None) f = Some None" "try_opt (Some (Some x)) f = f x"
  by (simp_all add: try_opt_def)

lemma try_opt_total [total_intros]:
  "m \<noteq> None \<Longrightarrow> (\<And>x. m = Some (Some x) \<Longrightarrow> f x \<noteq> None) \<Longrightarrow> try_opt m f \<noteq> None"
  by (auto simp: try_opt_def split: option.splits)

text \<open>Reading what an encoder put at the front.\<close>

lemma idx_append [simp]: "idx (a @ b) (length a + i) = idx b i"
  by (simp add: idx_def nth_append)

lemma be16_append [simp]: "be16 (a @ b) (length a + i) = be16 b i"
  using idx_append [of a b "i + 1"] by (simp only: be16_def idx_append add.assoc)

lemma slice_append [simp]: "slice (a @ b) (length a + i) (length a + j) = slice b i j"
  by (auto simp: slice_def)

lemma access_append_0 [simp]:
  "idx (a @ b) (length a) = idx b 0" "be16 (a @ b) (length a) = be16 b 0"
  "slice (a @ b) (length a) (length a + j) = slice b 0 j"
  using idx_append [of a b 0] be16_append [of a b 0] slice_append [of a b 0 j] by simp_all

lemma be16_u16_be [simp]: "be16 (u16_be w @ b) 0 = Some (unat w)"
proof -
  obtain x y where "u16_be w = [x, y]" by (simp add: u16_be_def be_bytes_def numeral_2_eq_2)
  moreover from this have "u16_of_be [x, y] = w" using int_codec_roundtrip(3) [of w] by simp
  ultimately show ?thesis by (simp add: be16_def)
qed

text \<open>Reading a field at a known place of a buffer.\<close>

lemma idx_at: "buf = a @ x # b \<Longrightarrow> p = length a \<Longrightarrow> idx buf p = Some x"
  by simp

lemma be16_at: "buf = a @ u16_be w @ b \<Longrightarrow> p = length a \<Longrightarrow> be16 buf p = Some (unat w)"
  by simp

lemma slice_at: "buf = a @ m @ b \<Longrightarrow> p = length a \<Longrightarrow> q = length a + length m \<Longrightarrow> slice buf p q = Some m"
  by (simp add: slice_def)

end
