(* ===== verification/Sniff.thy ===== *)
theory Sniff
  imports Quic_Crypto Route_Config Byte_Access
begin

text \<open>
  Protocol sniffing (\<open>src/app/sniff.rs\<close>): the TLS, HTTP, QUIC, SSH and BitTorrent detectors, the DNS
  heuristic, and the peek at a stream. The bytes come from the network, so every index and slice is
  checked: a function that may index out of range returns an option whose \<open>None\<close> is the panic of the
  Rust code, around the option that is its result.
\<close>

section \<open>TLS ClientHello\<close>

record SniffResult =
  s_domain :: "string option"
  s_protocol :: string

text \<open>The server name extension: the first entry of the list, if it is a host name.\<close>

definition tls_sni :: "bytes \<Rightarrow> nat \<Rightarrow> nat \<Rightarrow> string option \<Rightarrow> string option option" where
  "tls_sni buf pos ext_data_end sni =
     (let p = pos + 2 in
      if p < ext_data_end then do {
        ty \<leftarrow> idx buf p;
        if ty = 0 then
          let p = p + 1 in
          if p + 2 \<le> ext_data_end then do {
            name_len \<leftarrow> be16 buf p;
            let p = p + 2 in
            if p + name_len \<le> ext_data_end then do {
              name \<leftarrow> slice buf p (p + name_len);
              Some (case from_utf8 name of Some n \<Rightarrow> Some n | None \<Rightarrow> sni)
            } else Some sni
          } else Some sni
        else Some sni
      } else Some sni)"

function alpn_loop :: "bytes \<Rightarrow> nat \<Rightarrow> nat \<Rightarrow> bool \<Rightarrow> bool option" where
  "alpn_loop buf list_end p is_h2 =
     (if p < list_end then
        (case idx buf p of
           None \<Rightarrow> None
         | Some proto_len \<Rightarrow>
             let q = p + 1 in
             if q + unat proto_len \<le> list_end then
               (case slice buf q (q + unat proto_len) of
                  None \<Rightarrow> None
                | Some proto \<Rightarrow> alpn_loop buf list_end (q + unat proto_len) (if proto = [0x68, 0x32] then True else is_h2))
             else Some is_h2)
      else Some is_h2)"
  by pat_completeness auto
termination
  by (relation "measure (\<lambda>(buf, list_end, p, h). list_end - p)") auto

declare alpn_loop.simps [simp del]

definition tls_alpn :: "bytes \<Rightarrow> nat \<Rightarrow> nat \<Rightarrow> bool \<Rightarrow> bool option" where
  "tls_alpn buf pos ext_data_end is_h2 =
     do { list_len \<leftarrow> be16 buf pos; alpn_loop buf (min (pos + 2 + list_len) ext_data_end) (pos + 2) is_h2 }"

definition tls_extension ::
  "bytes \<Rightarrow> nat \<Rightarrow> nat \<Rightarrow> nat \<Rightarrow> string option \<Rightarrow> bool \<Rightarrow> (string option \<times> bool) option" where
  "tls_extension buf ext_type pos ext_data_end sni is_h2 =
     (if ext_type = 0x0000 \<and> pos + 2 \<le> ext_data_end then do { s \<leftarrow> tls_sni buf pos ext_data_end sni; Some (s, is_h2) }
      else if ext_type = 0x0010 \<and> pos + 2 \<le> ext_data_end then do { h \<leftarrow> tls_alpn buf pos ext_data_end is_h2; Some (sni, h) }
      else Some (sni, is_h2))"

function tls_ext_loop :: "bytes \<Rightarrow> nat \<Rightarrow> nat \<Rightarrow> string option \<Rightarrow> bool \<Rightarrow> (string option \<times> bool) option" where
  "tls_ext_loop buf ext_end pos sni is_h2 =
     (if pos + 4 \<le> ext_end then
        (case (be16 buf pos, be16 buf (pos + 2)) of
           (Some ext_type, Some ext_len) \<Rightarrow>
             let ext_data_end = min (pos + 4 + ext_len) ext_end in
             (case tls_extension buf ext_type (pos + 4) ext_data_end sni is_h2 of
                None \<Rightarrow> None
              | Some (sni, is_h2) \<Rightarrow>
                  if sni \<noteq> None \<and> is_h2 then Some (sni, is_h2)
                  else tls_ext_loop buf ext_end ext_data_end sni is_h2)
         | _ \<Rightarrow> None)
      else Some (sni, is_h2))"
  by pat_completeness auto
termination
  by (relation "measure (\<lambda>(buf, ext_end, pos, s, h). ext_end - pos)") auto

declare tls_ext_loop.simps [simp del]

definition tls_result :: "string option \<times> bool \<Rightarrow> SniffResult option" where
  "tls_result r = map_option (\<lambda>domain. \<lparr>s_domain = Some domain, s_protocol = (if snd r then ''h2'' else ''tls'')\<rparr>) (fst r)"

definition try_tls :: "bytes \<Rightarrow> SniffResult option option" where
  "try_tls buf =
     (if length buf < 43 then Some None
      else do {
        b0 \<leftarrow> idx buf 0; b1 \<leftarrow> idx buf 1;
        if b0 \<noteq> 0x16 \<or> b1 \<noteq> 0x03 then Some None
        else do {
          b5 \<leftarrow> idx buf 5;
          if b5 \<noteq> 0x01 then Some None
          else
            let pos = 5 + 4 + 2 + 32 in
            if length buf \<le> pos then Some None
            else do {
              sid_len \<leftarrow> idx buf pos;
              let pos = pos + 1 + unat sid_len in
              if length buf < pos + 2 then Some None
              else do {
                cs_len \<leftarrow> be16 buf pos;
                let pos = pos + 2 + cs_len in
                if length buf < pos + 1 then Some None
                else do {
                  cm_len \<leftarrow> idx buf pos;
                  let pos = pos + 1 + unat cm_len in
                  if length buf < pos + 2 then Some None
                  else do {
                    ext_total \<leftarrow> be16 buf pos;
                    let pos = pos + 2 in do {
                      r \<leftarrow> tls_ext_loop buf (min (pos + ext_total) (length buf)) pos None False;
                      Some (tls_result r)
                    }
                  }
                }
              }
            }
        }
      })"

section \<open>HTTP, SSH, BitTorrent, DNS\<close>

fun split_crlf :: "string \<Rightarrow> string list" where
  "split_crlf (a # b # s) =
     (if code a = 13 \<and> code b = 10 then [] # split_crlf s
      else (case split_crlf (b # s) of [] \<Rightarrow> [[a]] | p # ps \<Rightarrow> (a # p) # ps))"
| "split_crlf [a] = [[a]]"
| "split_crlf [] = [[]]"

fun http_host_lines :: "string list \<Rightarrow> SniffResult option" where
  "http_host_lines [] = None"
| "http_host_lines (line # ls) =
     (if line = [] then None
      else
        let lower = to_ascii_lowercase line in
        if starts_with lower ''host:'' then
          let host = trim (drop 5 lower); domain = hd (split_on CHR '':'' host)
          in if domain \<noteq> [] then Some \<lparr>s_domain = Some domain, s_protocol = ''http''\<rparr> else http_host_lines ls
        else http_host_lines ls)"

definition try_http_host :: "bytes \<Rightarrow> SniffResult option" where
  "try_http_host buf =
     do {
       text \<leftarrow> from_utf8 buf;
       (case split_crlf text of
          first_line # second # rest \<Rightarrow>
            if contains_str first_line '' HTTP/'' then http_host_lines (second # rest) else None
        | _ \<Rightarrow> None)
     }"

definition try_ssh :: "bytes \<Rightarrow> SniffResult option" where
  "try_ssh buf = (if take 4 buf = as_bytes ''SSH-'' then Some \<lparr>s_domain = None, s_protocol = ''ssh''\<rparr> else None)"

definition BT_HEADER :: bytes where
  "BT_HEADER = 0x13 # as_bytes ''BitTorrent protocol''"

definition try_bittorrent :: "bytes \<Rightarrow> SniffResult option" where
  "try_bittorrent buf =
     (if length BT_HEADER \<le> length buf \<and> take (length BT_HEADER) buf = BT_HEADER
      then Some \<lparr>s_domain = None, s_protocol = ''bittorrent''\<rparr> else None)"

definition is_dns_wire :: "bytes \<Rightarrow> bool option" where
  "is_dns_wire buf =
     (if length buf < 12 then Some False
      else do {
        flags \<leftarrow> idx buf 2;
        if 5 < drop_bit 3 flags AND 0x0f then Some False
        else do { qdcount \<leftarrow> be16 buf 4; Some (0 < qdcount) }
      })"

section \<open>QUIC Initial packets\<close>

text \<open>A variable-length integer and the number of bytes it took.\<close>

definition read_varint :: "bytes \<Rightarrow> nat \<Rightarrow> (nat \<times> nat) option option" where
  "read_varint buf pos =
     (if length buf \<le> pos then Some None
      else do {
        first \<leftarrow> idx buf pos;
        let n = 2 ^ unat (drop_bit 6 (first AND 0xC0)) in
        if length buf < pos + n then Some None
        else do { rest \<leftarrow> slice buf (pos + 1) (pos + n); Some (Some (be_value ((first AND 0x3F) # rest), n)) }
      })"

definition quic_version :: "nat \<Rightarrow> (bool \<times> bytes) option" where
  "quic_version version =
     (if version = 0x00000001 then Some (False, QUIC_V1_INITIAL_SALT)
      else if version = 0x6b3343cf then Some (True, QUIC_V2_INITIAL_SALT)
      else if version = 0xff00001d then Some (False, QUIC_DRAFT29_INITIAL_SALT)
      else None)"

definition pn_unmask :: "bytes \<Rightarrow> bytes \<Rightarrow> nat \<Rightarrow> bytes option" where
  "pn_unmask payload msk pn_len = do { p \<leftarrow> slice payload 0 pn_len; m \<leftarrow> slice msk 1 (1 + pn_len); Some (xor_bytes p m) }"

definition quic_nonce :: "bytes \<Rightarrow> bytes \<Rightarrow> bytes option" where
  "quic_nonce iv pn_bytes =
     do { hd' \<leftarrow> slice iv 0 8; tl' \<leftarrow> slice iv 8 12;
          Some (hd' @ xor_bytes tl' (pn_bytes @ replicate (4 - length pn_bytes) 0)) }"

definition decrypt_quic_initial :: "bytes \<Rightarrow> bytes \<Rightarrow> bytes \<Rightarrow> bytes option option" where
  "decrypt_quic_initial dcid salt payload =
     (case hkdf_expand_label_sha256 (hkdf_extract_sha256 salt dcid) (as_bytes ''client in'') [] 32 of
        None \<Rightarrow> Some None
      | Some client_secret \<Rightarrow>
          (case (hkdf_expand_label_sha256 client_secret (as_bytes ''quic key'') [] 16,
                 hkdf_expand_label_sha256 client_secret (as_bytes ''quic iv'') [] 12,
                 hkdf_expand_label_sha256 client_secret (as_bytes ''quic hp'') [] 16) of
             (Some key, Some iv, Some hp) \<Rightarrow>
               if length payload < 20 then Some None
               else do {
                 sample \<leftarrow> slice payload 4 20;
                 (case aes128_ecb_block hp sample of
                    None \<Rightarrow> Some None
                  | Some msk \<Rightarrow> do {
                      p0 \<leftarrow> idx payload 0; m0 \<leftarrow> idx msk 0;
                      let first_byte = p0 XOR (m0 AND 0x0F); pn_len = unat (first_byte AND 0x03) + 1 in
                      if length payload < pn_len then Some None
                      else do {
                        pn_bytes \<leftarrow> pn_unmask payload msk pn_len;
                        nonce \<leftarrow> quic_nonce iv pn_bytes;
                        if length payload < pn_len + 16 then Some None
                        else do {
                          ciphertext \<leftarrow> slice payload pn_len (length payload - 16);
                          tag \<leftarrow> slice payload (length payload - 16) (length payload);
                          Some (aes128_gcm_decrypt key nonce (first_byte # pn_bytes) ciphertext tag)
                        }
                      }
                    })
               }
           | _ \<Rightarrow> Some None))"

text \<open>The guard \<open>pos < end'\<close> only serves termination: a slice that exists starts after \<open>pos\<close>.\<close>

function quic_frames :: "bytes \<Rightarrow> nat \<Rightarrow> SniffResult option option" where
  "quic_frames data pos =
     (if pos < length data then
        (case idx data pos of
           None \<Rightarrow> None
         | Some frame_type \<Rightarrow>
             if frame_type = 0x00 then quic_frames data (pos + 1)
             else if frame_type = 0x06 then
               (case read_varint data (pos + 1) of
                  None \<Rightarrow> None
                | Some None \<Rightarrow> Some None
                | Some (Some (off, vl)) \<Rightarrow>
                    (case read_varint data (pos + 1 + vl) of
                       None \<Rightarrow> None
                     | Some None \<Rightarrow> Some None
                     | Some (Some (flen, vl2)) \<Rightarrow>
                         let start = pos + 1 + vl + vl2; end' = min (start + flen) (length data) in
                         (case slice data start end' of
                            None \<Rightarrow> None
                          | Some crypto_data \<Rightarrow>
                              if 4 \<le> length crypto_data \<and> crypto_data ! 0 = 0x01
                              then try_tls ([0x16, 0x03, 0x03, 0x00, 0x00] @ crypto_data)
                              else if pos < end' then quic_frames data end' else None)))
             else Some None)
      else Some None)"
  by pat_completeness auto
termination
  by (relation "measure (\<lambda>(data, pos). length data - pos)") auto

declare quic_frames.simps [simp del]

definition extract_sni_from_quic_crypto :: "bytes \<Rightarrow> SniffResult option option" where
  "extract_sni_from_quic_crypto data = quic_frames data 0"

text \<open>The part of \<open>try_quic\<close> after the connection identifiers.\<close>

definition quic_payload :: "bytes \<Rightarrow> bytes \<Rightarrow> bytes \<Rightarrow> nat \<Rightarrow> SniffResult option option" where
  "quic_payload buf dcid salt pos =
     do {
       tok \<leftarrow> read_varint buf pos;
       (case tok of
          None \<Rightarrow> Some None
        | Some (token_len, vl) \<Rightarrow>
            let pos = pos + (vl + token_len) in do {
              pk \<leftarrow> read_varint buf pos;
              (case pk of
                 None \<Rightarrow> Some None
               | Some (pkt_len, vl2) \<Rightarrow>
                   let pos = pos + vl2 in
                   if length buf \<le> pos then Some None
                   else do {
                     payload \<leftarrow> slice buf pos (min (pos + pkt_len) (length buf));
                     if payload = [] then Some None
                     else do {
                       plain \<leftarrow> decrypt_quic_initial dcid salt payload;
                       (case plain of None \<Rightarrow> Some None | Some plaintext \<Rightarrow> extract_sni_from_quic_crypto plaintext)
                     }
                   })
            })
     }"

definition try_quic :: "bytes \<Rightarrow> SniffResult option option" where
  "try_quic buf =
     (if length buf < 6 then Some None
      else do {
        b0 \<leftarrow> idx buf 0;
        if b0 AND 0xC0 \<noteq> 0xC0 then Some None
        else do {
          v \<leftarrow> slice buf 1 5;
          (case quic_version (be_value v) of
             None \<Rightarrow> Some None
           | Some (is_v2, salt) \<Rightarrow>
               if drop_bit 4 (b0 AND 0x30) \<noteq> (if is_v2 then 0x01 else 0x00) then Some None
               else do {
                 dlen \<leftarrow> idx buf 5;
                 let dcid_len = unat dlen in
                 if dcid_len = 0 \<or> 20 < dcid_len then Some None
                 else if length buf < 6 + dcid_len then Some None
                 else do {
                   dcid \<leftarrow> slice buf 6 (6 + dcid_len);
                   let pos = 6 + dcid_len in
                   if length buf \<le> pos then Some None
                   else do {
                     slen \<leftarrow> idx buf pos;
                     if length buf < pos + 1 + unat slen then Some None
                     else quic_payload buf dcid salt (pos + 1 + unat slen)
                   }
                 }
               })
        }
      })"

section \<open>Sniffing a stream\<close>

definition PEEK_BUF_SIZE :: nat where "PEEK_BUF_SIZE = 2048"

definition try_one :: "SniffType \<Rightarrow> bytes \<Rightarrow> SniffResult option option" where
  "try_one ty data =
     (case ty of
        Tls \<Rightarrow> try_tls data
      | Http \<Rightarrow> Some (try_http_host data)
      | Quic \<Rightarrow> try_quic data
      | Ssh \<Rightarrow> Some (try_ssh data)
      | BitTorrent \<Rightarrow> Some (try_bittorrent data))"

fun try_types :: "SniffType list \<Rightarrow> bytes \<Rightarrow> SniffResult option option" where
  "try_types [] data = Some None"
| "try_types (ty # tys) data =
     (case try_one ty data of None \<Rightarrow> None | Some (Some r) \<Rightarrow> Some (Some r) | Some None \<Rightarrow> try_types tys data)"

definition effective_types :: "SniffType list \<Rightarrow> SniffType list" where
  "effective_types tys = (if tys = [] then SniffType_defaults else tys)"

text \<open>
  \<open>arrives\<close> is how many bytes the inner stream has ready before the timeout (0 when it expires or
  the read fails); a stream with a prefix answers at once from the prefix.
\<close>

definition sniff :: "SniffedStream \<Rightarrow> nat \<Rightarrow> SniffType list \<Rightarrow> (SniffResult option \<times> SniffedStream) option" where
  "sniff st arrives sniff_types =
     (let (data, st) = poll_read st PEEK_BUF_SIZE arrives in
      if data = [] then Some (None, st)
      else map_option (\<lambda>r. (r, prepend st data)) (try_types (effective_types sniff_types) data))"

fun sniff_packet_loop :: "bytes \<Rightarrow> SniffType list \<Rightarrow> SniffResult option option" where
  "sniff_packet_loop data [] = Some None"
| "sniff_packet_loop data (ty # tys) =
     (if ty = Quic then
        (case try_quic data of None \<Rightarrow> None | Some (Some r) \<Rightarrow> Some (Some r) | Some None \<Rightarrow> sniff_packet_loop data tys)
      else sniff_packet_loop data tys)"

definition sniff_packet :: "bytes \<Rightarrow> SniffType list \<Rightarrow> SniffResult option option" where
  "sniff_packet data sniff_types = sniff_packet_loop data (effective_types sniff_types)"

section \<open>No input makes the sniffer panic\<close>

lemma alpn_loop_total: "list_end \<le> length buf \<Longrightarrow> alpn_loop buf list_end p h \<noteq> None"
proof (induction buf list_end p h rule: alpn_loop.induct)
  case (1 buf list_end p h)
  show ?case
  proof (cases "p < list_end \<and> p + 1 + unat (buf ! p) \<le> list_end")
    case True
    then have "idx buf p = Some (buf ! p)"
      "slice buf (p + 1) (p + 1 + unat (buf ! p)) = Some (take (unat (buf ! p)) (drop (p + 1) buf))"
      using "1.prems" by (simp_all add: slice_def)
    with 1 True show ?thesis by (subst alpn_loop.simps) (simp add: Let_def)
  next
    case False
    with "1.prems" show ?thesis by (subst alpn_loop.simps) (auto simp: Let_def)
  qed
qed

lemma tls_sni_total: "e \<le> length buf \<Longrightarrow> tls_sni buf pos e sni \<noteq> None"
  unfolding tls_sni_def by (intro total_intros) auto

lemma tls_alpn_total: "pos + 2 \<le> e \<Longrightarrow> e \<le> length buf \<Longrightarrow> tls_alpn buf pos e h \<noteq> None"
  unfolding tls_alpn_def by (intro total_intros alpn_loop_total) (auto simp: min_def)

lemma tls_extension_total: "e \<le> length buf \<Longrightarrow> tls_extension buf t pos e sni h \<noteq> None"
  unfolding tls_extension_def by (intro total_intros tls_sni_total tls_alpn_total) auto

lemma tls_ext_loop_total: "e \<le> length buf \<Longrightarrow> tls_ext_loop buf e pos sni h \<noteq> None"
proof (induction buf e pos sni h rule: tls_ext_loop.induct)
  case (1 buf e pos sni h)
  show ?case
  proof (cases "pos + 4 \<le> e")
    case True
    then obtain t l where tl: "be16 buf pos = Some t" "be16 buf (pos + 2) = Some l"
      using "1.prems" by (simp add: be16_Some)
    have "min (pos + 4 + l) e \<le> length buf" using "1.prems" by simp
    from tls_extension_total [OF this] obtain s' h' where
      x: "tls_extension buf t (pos + 4) (min (pos + 4 + l) e) sni h = Some (s', h')" by (metis option.exhaust surj_pair)
    show ?thesis
      using "1.IH" [OF True] "1.prems" True tl x
      by (subst tls_ext_loop.simps) (auto simp: Let_def)
  qed (subst tls_ext_loop.simps, simp)
qed

lemma try_tls_total: "try_tls buf \<noteq> None"
  unfolding try_tls_def by (intro total_intros tls_ext_loop_total) auto

lemma read_varint_total: "read_varint buf pos \<noteq> None"
  unfolding read_varint_def by (intro total_intros) auto

lemma read_varint_bound: "read_varint buf pos = Some (Some (v, n)) \<Longrightarrow> 0 < n \<and> pos + n \<le> length buf"
  by (auto simp: read_varint_def Let_def slice_def bind_eq_Some_conv split: if_splits)

lemma is_dns_wire_total: "is_dns_wire buf \<noteq> None"
  unfolding is_dns_wire_def by (intro total_intros) auto

lemma quic_frames_total: "quic_frames data pos \<noteq> None"
proof (induction data pos rule: quic_frames.induct)
  case (1 data pos)
  show ?case
  proof (cases "pos < length data \<and> data ! pos = 0x06")
    case True
    have v: "read_varint data p \<noteq> None" for p by (rule read_varint_total)
    show ?thesis
    proof (cases "read_varint data (pos + 1)")
      case (Some r)
      show ?thesis
      proof (cases r)
        case (Some x)
        obtain off vl where x: "x = (off, vl)" by (cases x)
        show ?thesis
        proof (cases "read_varint data (pos + 1 + vl)")
          case (Some r2)
          show ?thesis
          proof (cases r2)
            case (Some y)
            obtain flen vl2 where y: "y = (flen, vl2)" by (cases y)
            let ?start = "pos + 1 + vl + vl2"
            let ?stop = "min (?start + flen) (length data)"
            have rv: "read_varint data (pos + 1 + vl) = Some (Some (flen, vl2))"
              using \<open>read_varint data (pos + 1 + vl) = Some r2\<close> Some y by simp
            have "?start \<le> length data" using read_varint_bound [OF rv] by simp
            then have sl: "slice data ?start ?stop = Some (take (?stop - ?start) (drop ?start data))" and lt: "pos < ?stop"
              using True by (simp_all add: slice_def)
            show ?thesis
              using "1.IH" True sl lt rv \<open>read_varint data (pos + 1) = Some r\<close> \<open>r = Some x\<close> x try_tls_total
              by (subst quic_frames.simps) (simp add: Let_def)
          qed (use True Some x \<open>r = Some x\<close> \<open>read_varint data (pos + 1) = Some r\<close> in \<open>subst quic_frames.simps, simp\<close>)
        qed (use v in simp)
      qed (use True Some in \<open>subst quic_frames.simps, simp\<close>)
    qed (use v in simp)
  next
    case False
    with "1.IH"(1) show ?thesis by (subst quic_frames.simps) auto
  qed
qed

lemma aes128_ecb_length: "aes128_ecb_block key block = Some m \<Longrightarrow> length m = 16"
  by (auto simp: aes128_ecb_block_def length_aes128_encrypt_block split: if_splits)

lemma unat_and_3: "unat (b AND 3 :: u8) \<le> 3"
proof -
  have "b AND 3 = take_bit 2 b" by (simp add: take_bit_eq_mask mask_eq_exp_minus_1)
  then have "unat (b AND 3) = unat b mod 4" by (simp only: unsigned_take_bit_eq take_bit_eq_mod [of 2 "unat b"]) simp
  then show ?thesis using mod_less_divisor [of 4 "unat b"] by linarith
qed

lemma unat_and_3_less [simp]: "unat (b AND 3 :: u8) < 15"
  using unat_and_3 [of b] by simp

lemma pn_unmask_total:
  "n \<le> length payload \<Longrightarrow> n < length msk \<Longrightarrow> pn_unmask payload msk n \<noteq> None"
  unfolding pn_unmask_def by (intro total_intros) auto

lemma quic_nonce_total: "length iv = 12 \<Longrightarrow> quic_nonce iv pn \<noteq> None"
  unfolding quic_nonce_def by (intro total_intros) auto

lemma decrypt_quic_initial_total: "decrypt_quic_initial dcid salt payload \<noteq> None"
proof -
  let ?secret = "hkdf_extract_sha256 salt dcid"
  obtain cs where cs: "hkdf_expand_label_sha256 ?secret (as_bytes ''client in'') [] 32 = Some cs"
    using hkdf_Some [of 32 ?secret "as_bytes ''client in''" "[]"] by auto
  obtain key where k1: "hkdf_expand_label_sha256 cs (as_bytes ''quic key'') [] 16 = Some key"
    using hkdf_Some [of 16 cs "as_bytes ''quic key''" "[]"] by auto
  obtain iv where k2: "hkdf_expand_label_sha256 cs (as_bytes ''quic iv'') [] 12 = Some iv" "length iv = 12"
    using hkdf_Some [of 12 cs "as_bytes ''quic iv''" "[]"] by auto
  obtain hp where k3: "hkdf_expand_label_sha256 cs (as_bytes ''quic hp'') [] 16 = Some hp"
    using hkdf_Some [of 16 cs "as_bytes ''quic hp''" "[]"] by auto
  show ?thesis
    unfolding decrypt_quic_initial_def cs option.case k1 k2(1) k3 prod.case
    by (intro total_intros pn_unmask_total quic_nonce_total)
      (auto simp: k2(2) dest!: aes128_ecb_length)
qed

lemma quic_payload_total: "quic_payload buf dcid salt pos \<noteq> None"
  unfolding quic_payload_def extract_sni_from_quic_crypto_def
  by (intro total_intros read_varint_total decrypt_quic_initial_total quic_frames_total) auto

lemma try_quic_total: "try_quic buf \<noteq> None"
  unfolding try_quic_def by (intro total_intros quic_payload_total) auto

lemma try_types_total: "try_types tys data \<noteq> None"
proof (induction tys)
  case (Cons ty tys)
  have "try_one ty data \<noteq> None" by (cases ty) (simp_all add: try_one_def try_tls_total try_quic_total del: not_None_eq)
  then show ?case using Cons.IH by (auto split: option.splits)
qed simp

lemma sniff_total: "sniff st arrives tys \<noteq> None"
  using try_types_total by (auto simp: sniff_def Let_def split: prod.splits)

lemma sniff_packet_total: "sniff_packet data tys \<noteq> None"
proof -
  have "sniff_packet_loop data ts \<noteq> None" for ts
  proof (induction ts)
    case (Cons t ts)
    then show ?case using try_quic_total [of data] by (auto split: option.splits)
  qed simp
  then show ?thesis by (simp add: sniff_packet_def)
qed

text \<open>Peeking gives every byte back, in order, when nothing was given back before.\<close>

lemma sniff_nondestructive:
  assumes "sniff st arrives tys = Some (r, st')" and "prefix_bytes st = []"
  shows "pending st' = pending st"
proof -
  obtain data s1 where d: "poll_read st PEEK_BUF_SIZE arrives = (data, s1)" by (cases "poll_read st PEEK_BUF_SIZE arrives")
  have p: "prefix_bytes s1 = []" using d assms(2) by (auto simp: poll_read_def Let_def)
  have "data @ pending s1 = pending st" by (rule poll_read_pending(1) [OF d])
  moreover have "pending (prepend s1 data) = data @ pending s1" using p by (simp add: pending_prepend pending_def [of s1])
  ultimately show ?thesis
    using assms(1) d by (auto simp: sniff_def split: if_splits)
qed

section \<open>A ClientHello gives its server name\<close>

definition enc_ext :: "u16 \<times> bytes \<Rightarrow> bytes" where
  "enc_ext e = u16_be (fst e) @ u16_be (word_of_nat (length (snd e))) @ snd e"

definition enc_exts :: "(u16 \<times> bytes) list \<Rightarrow> bytes" where
  "enc_exts es = concat (map enc_ext es)"

definition sni_ext :: "string \<Rightarrow> u16 \<times> bytes" where
  "sni_ext name = (0, u16_be (word_of_nat (length name + 3)) @ [0] @ u16_be (word_of_nat (length name)) @ as_bytes name)"

text \<open>A ClientHello in one TLS record: \<open>rec\<close> is the rest of the record header (three
  bytes), \<open>hs\<close> the length and version of the handshake (five bytes), \<open>rnd\<close> the 32 random bytes.\<close>

definition hello_front :: "bytes \<Rightarrow> bytes \<Rightarrow> bytes \<Rightarrow> bytes \<Rightarrow> bytes \<Rightarrow> bytes \<Rightarrow> nat \<Rightarrow> bytes" where
  "hello_front rec hs rnd sid cs cm n =
     [0x16, 0x03] @ rec @ [0x01] @ hs @ rnd @ [word_of_nat (length sid)] @ sid
       @ u16_be (word_of_nat (length cs)) @ cs @ [word_of_nat (length cm)] @ cm @ u16_be (word_of_nat n)"

definition client_hello :: "bytes \<Rightarrow> bytes \<Rightarrow> bytes \<Rightarrow> bytes \<Rightarrow> bytes \<Rightarrow> bytes \<Rightarrow> (u16 \<times> bytes) list \<Rightarrow> bytes" where
  "client_hello rec hs rnd sid cs cm es = hello_front rec hs rnd sid cs cm (length (enc_exts es)) @ enc_exts es"

lemma unat_u16_small: "n < 65536 \<Longrightarrow> unat (word_of_nat n :: u16) = n"
  by (simp add: unsigned_of_nat take_bit_nat_eq_self)

lemma ext_step:
  assumes "length d < 65536"
    and "tls_extension (f @ enc_ext (t, d) @ r) (unat t) (length f + 4) (length f + 4 + length d) sni h = Some (sni', h')"
  shows "tls_ext_loop (f @ enc_ext (t, d) @ r) (length (f @ enc_ext (t, d) @ r)) (length f) sni h =
    (if sni' \<noteq> None \<and> h' then Some (sni', h')
     else tls_ext_loop ((f @ enc_ext (t, d)) @ r) (length ((f @ enc_ext (t, d)) @ r)) (length (f @ enc_ext (t, d))) sni' h')"
proof -
  let ?buf = "f @ enc_ext (t, d) @ r"
  have 1: "be16 ?buf (length f) = Some (unat t)"
    by (rule be16_at [where a = f]) (simp_all add: enc_ext_def)
  have "be16 ?buf (length f + 2) = Some (unat (word_of_nat (length d) :: u16))"
    by (rule be16_at [where a = "f @ u16_be t"]) (simp_all add: enc_ext_def)
  then have 2: "be16 ?buf (length f + 2) = Some (length d)" using unat_u16_small [OF assms(1)] by simp
  have "length (enc_ext (t, d)) = 4 + length d" by (simp add: enc_ext_def)
  with 1 2 assms(2) show ?thesis
    by (subst tls_ext_loop.simps) (simp add: Let_def add.assoc)
qed

lemma other_extension: "t \<noteq> 0 \<Longrightarrow> t \<noteq> 16 \<Longrightarrow> tls_extension buf (unat (t :: u16)) pos e sni h = Some (sni, h)"
proof -
  assume "t \<noteq> 0" "t \<noteq> 16"
  then have "unat t \<noteq> 0" "unat t \<noteq> 16"
    using word_unat_eq_iff [of t 0] word_unat_eq_iff [of t 16] by simp_all
  then show ?thesis by (simp add: tls_extension_def)
qed

text \<open>The ALPN extension: the list of the protocols the client offers, each with its length byte.\<close>

definition enc_proto :: "bytes \<Rightarrow> bytes" where
  "enc_proto p = word_of_nat (length p) # p"

definition alpn_ext :: "bytes list \<Rightarrow> u16 \<times> bytes" where
  "alpn_ext ps = (16, u16_be (word_of_nat (length (concat (map enc_proto ps)))) @ concat (map enc_proto ps))"

datatype hello_ext = Alpn "bytes list" | Other u16 bytes

fun ext_of :: "hello_ext \<Rightarrow> u16 \<times> bytes" where
  "ext_of (Alpn ps) = alpn_ext ps"
| "ext_of (Other t d) = (t, d)"

text \<open>Any extension but another server name.\<close>

fun ext_ok :: "hello_ext \<Rightarrow> bool" where
  "ext_ok (Alpn ps) \<longleftrightarrow> list_all (\<lambda>p. length p < 256) ps \<and> length (concat (map enc_proto ps)) < 65534"
| "ext_ok (Other t d) \<longleftrightarrow> t \<noteq> 0 \<and> t \<noteq> 16 \<and> length d < 65536"

fun lists_h2 :: "hello_ext \<Rightarrow> bool" where
  "lists_h2 (Alpn ps) \<longleftrightarrow> as_bytes ''h2'' \<in> set ps"
| "lists_h2 (Other t d) \<longleftrightarrow> False"

lemma h2_bytes: "as_bytes ''h2'' = [0x68, 0x32]"
  by code_simp

lemma alpn_encoded:
  "list_all (\<lambda>p. length p < 256) ps \<Longrightarrow>
     alpn_loop (f @ concat (map enc_proto ps) @ r) (length f + length (concat (map enc_proto ps))) (length f) h
     = Some (h \<or> as_bytes ''h2'' \<in> set ps)"
proof (induction ps arbitrary: f h)
  case Nil
  show ?case by (subst alpn_loop.simps) simp
next
  case (Cons p ps)
  let ?rest = "concat (map enc_proto ps)"
  let ?buf = "f @ enc_proto p @ ?rest @ r"
  have p: "unat (word_of_nat (length p) :: u8) = length p" using Cons.prems by (simp add: unat_u8_of_nat)
  have i: "idx ?buf (length f) = Some (word_of_nat (length p))" by (rule idx_at [where a = f]) (simp_all add: enc_proto_def)
  have sl: "slice ?buf (length f + 1) (length f + 1 + length p) = Some p"
    by (rule slice_at [where a = "f @ [word_of_nat (length p)]"]) (simp_all add: enc_proto_def)
  have l: "length (enc_proto p) = 1 + length p" by (simp add: enc_proto_def)
  have ih: "alpn_loop ?buf (length f + (1 + length p) + length ?rest) (length f + (1 + length p)) h' = Some (h' \<or> as_bytes ''h2'' \<in> set ps)" for h'
    using Cons.IH [of "f @ enc_proto p" h'] Cons.prems by (simp add: l add.assoc)
  have "alpn_loop ?buf (length f + (1 + length p) + length ?rest) (length f) h
      = alpn_loop ?buf (length f + (1 + length p) + length ?rest) (length f + 1 + length p) (if p = [0x68, 0x32] then True else h)"
    using i sl by (subst alpn_loop.simps) (simp add: Let_def p)
  also have "\<dots> = Some (h \<or> as_bytes ''h2'' \<in> set (p # ps))" using ih by (auto simp: h2_bytes add.assoc)
  finally show ?case by (simp add: l add.assoc)
qed

lemma alpn_extension:
  assumes "list_all (\<lambda>p. length p < 256) ps" and "length (concat (map enc_proto ps)) < 65534"
  shows "tls_extension (f @ enc_ext (alpn_ext ps) @ r) 16 (length f + 4) (length f + 4 + length (snd (alpn_ext ps))) sni h =
    Some (sni, h \<or> as_bytes ''h2'' \<in> set ps)"
proof -
  let ?c = "concat (map enc_proto ps)"
  let ?pre = "f @ u16_be 16 @ u16_be (word_of_nat (length (snd (alpn_ext ps))))"
  let ?w = "u16_be (word_of_nat (length ?c)) :: bytes"
  have buf: "f @ enc_ext (alpn_ext ps) @ r = ?pre @ ?w @ ?c @ r" by (simp add: enc_ext_def alpn_ext_def)
  have "be16 (?pre @ ?w @ ?c @ r) (length f + 4) = Some (unat (word_of_nat (length ?c) :: u16))"
    by (rule be16_at [where a = ?pre]) simp_all
  then have 1: "be16 (?pre @ ?w @ ?c @ r) (length f + 4) = Some (length ?c)"
    using unat_u16_small [of "length ?c"] assms(2) by simp
  have len: "length (snd (alpn_ext ps)) = 2 + length ?c" by (simp add: alpn_ext_def)
  have "alpn_loop (?pre @ ?w @ ?c @ r) (length f + 4 + 2 + length ?c) (length f + 4 + 2) h = Some (h \<or> as_bytes ''h2'' \<in> set ps)"
    using alpn_encoded [OF assms(1), of "?pre @ ?w" r h] by (simp add: ac_simps)
  with 1 show ?thesis unfolding buf tls_extension_def tls_alpn_def by (simp add: len add.assoc)
qed

lemma hello_extension:
  assumes "ext_ok x"
  shows "tls_extension (f @ enc_ext (ext_of x) @ r) (unat (fst (ext_of x))) (length f + 4)
    (length f + 4 + length (snd (ext_of x))) sni h = Some (sni, h \<or> lists_h2 x)"
proof (cases x)
  case (Alpn ps)
  then show ?thesis using assms alpn_extension [of ps f r sni h] by (simp add: alpn_ext_def [of ps])
next
  case (Other t d)
  then show ?thesis using assms by (simp add: other_extension)
qed

lemma ext_ok_length: "ext_ok x \<Longrightarrow> length (snd (ext_of x)) < 65536"
  by (cases x) (simp_all add: alpn_ext_def)

lemma hello_step:
  assumes "ext_ok x"
  shows "tls_ext_loop (f @ enc_ext (ext_of x) @ r) (length (f @ enc_ext (ext_of x) @ r)) (length f) sni h =
    (if sni \<noteq> None \<and> (h \<or> lists_h2 x) then Some (sni, h \<or> lists_h2 x)
     else tls_ext_loop ((f @ enc_ext (ext_of x)) @ r) (length ((f @ enc_ext (ext_of x)) @ r)) (length (f @ enc_ext (ext_of x)))
       sni (h \<or> lists_h2 x))"
  using ext_step [of "snd (ext_of x)" f "fst (ext_of x)" r sni h sni "h \<or> lists_h2 x"] hello_extension [OF assms, of f r sni h]
    ext_ok_length [OF assms] by simp

text \<open>Before the server name the loop only collects; after it, it may stop early.\<close>

lemma ext_loop_before:
  "list_all ext_ok xs \<Longrightarrow>
     tls_ext_loop (f @ enc_exts (map ext_of xs) @ r) (length (f @ enc_exts (map ext_of xs) @ r)) (length f) None h =
     tls_ext_loop ((f @ enc_exts (map ext_of xs)) @ r) (length ((f @ enc_exts (map ext_of xs)) @ r))
       (length (f @ enc_exts (map ext_of xs))) None (h \<or> list_ex lists_h2 xs)"
proof (induction xs arbitrary: f h)
  case (Cons x xs)
  from hello_step [of x f "enc_exts (map ext_of xs) @ r" None h] Cons.IH [of "f @ enc_ext (ext_of x)" "h \<or> lists_h2 x"] Cons.prems
  show ?case by (simp add: enc_exts_def disj_assoc)
qed (simp add: enc_exts_def)

lemma ext_loop_after:
  "list_all ext_ok xs \<Longrightarrow>
     tls_ext_loop (f @ enc_exts (map ext_of xs)) (length (f @ enc_exts (map ext_of xs))) (length f) (Some name) False =
     Some (Some name, list_ex lists_h2 xs)"
proof (induction xs arbitrary: f)
  case Nil
  show ?case by (subst tls_ext_loop.simps) (simp add: enc_exts_def)
next
  case (Cons x xs)
  from hello_step [of x f "enc_exts (map ext_of xs)" "Some name" False] Cons.IH [of "f @ enc_ext (ext_of x)"] Cons.prems
  show ?case by (cases "lists_h2 x") (simp_all add: enc_exts_def)
qed

lemma tls_sni_name:
  assumes "idx buf (pos + 2) = Some 0" and "be16 buf (pos + 2 + 1) = Some n"
    and "slice buf (pos + 2 + 1 + 2) (pos + 2 + 1 + 2 + n) = Some (as_bytes name)" and "str_ok name" and "e = pos + 5 + n"
  shows "tls_sni buf pos e sni = Some (Some name)"
  using assms by (simp add: tls_sni_def Let_def from_utf8_as_bytes)

lemma sni_extension:
  assumes "length name < 65531" and "str_ok name"
  shows "tls_extension (f @ enc_ext (sni_ext name) @ r) 0 (length f + 4) (length f + 4 + length (snd (sni_ext name))) sni h =
    Some (Some name, h)"
proof -
  let ?w = "u16_be (word_of_nat (length name + 3)) :: bytes" and ?l = "u16_be (word_of_nat (length name)) :: bytes"
  let ?pre = "f @ u16_be 0 @ u16_be (word_of_nat (length (snd (sni_ext name)))) @ ?w"
  have buf: "f @ enc_ext (sni_ext name) @ r = ?pre @ [0] @ ?l @ as_bytes name @ r"
    by (simp add: enc_ext_def sni_ext_def)
  have len: "length ?pre = length f + 4 + 2" "length (snd (sni_ext name)) = length name + 5" by (simp_all add: sni_ext_def)
  let ?buf = "?pre @ [0] @ ?l @ as_bytes name @ r"
  have 1: "idx ?buf (length f + 4 + 2) = Some 0"
    by (rule idx_at [where a = ?pre]) simp_all
  have "be16 ?buf (length f + 4 + 2 + 1) = Some (unat (word_of_nat (length name) :: u16))"
    by (rule be16_at [where a = "?pre @ [0]"]) simp_all
  then have 2: "be16 ?buf (length f + 4 + 2 + 1) = Some (length name)"
    using unat_u16_small [of "length name"] assms(1) by simp
  have 3: "slice ?buf (length f + 4 + 2 + 1 + 2) (length f + 4 + 2 + 1 + 2 + length name) = Some (as_bytes name)"
    by (rule slice_at [where a = "?pre @ [0] @ ?l"]) simp_all
  have "tls_sni (?pre @ [0] @ ?l @ as_bytes name @ r) (length f + 4) (length f + 4 + length (snd (sni_ext name))) sni = Some (Some name)"
    by (rule tls_sni_name [OF 1 2 3 assms(2)]) (simp add: sni_ext_def)
  then show ?thesis unfolding buf tls_extension_def by (simp add: sni_ext_def)
qed

lemma try_tls_fields:
  assumes "idx buf 0 = Some 0x16" and "idx buf 1 = Some 3" and "idx buf 5 = Some 1" and "idx buf 43 = Some sl"
    and "be16 buf (43 + 1 + unat sl) = Some cl" and "idx buf (43 + 1 + unat sl + 2 + cl) = Some ml"
    and "be16 buf (43 + 1 + unat sl + 2 + cl + 1 + unat ml) = Some el"
    and "length buf = 43 + 1 + unat sl + 2 + cl + 1 + unat ml + 2 + el"
  shows "try_tls buf = map_option tls_result
    (tls_ext_loop buf (length buf) (43 + 1 + unat sl + 2 + cl + 1 + unat ml + 2) None False)"
proof -
  have "5 + 4 + 2 + 32 = (43 :: nat)" by simp
  with assms show ?thesis
    by (cases "tls_ext_loop buf (length buf) (43 + 1 + unat sl + 2 + cl + 1 + unat ml + 2) None False")
      (simp_all add: try_tls_def Let_def del: idx_Some)
qed

lemma try_tls_client_hello:
  assumes "length rec = 3" and "length hs = 5" and "length rnd = 32"
    and "length sid < 256" and "length cs < 65536" and "length cm < 256" and "length (enc_exts es) < 65536"
  shows "try_tls (client_hello rec hs rnd sid cs cm es) = map_option tls_result
    (tls_ext_loop (hello_front rec hs rnd sid cs cm (length (enc_exts es)) @ enc_exts es)
      (length (hello_front rec hs rnd sid cs cm (length (enc_exts es)) @ enc_exts es))
      (length (hello_front rec hs rnd sid cs cm (length (enc_exts es)))) None False)"
proof -
  let ?buf = "client_hello rec hs rnd sid cs cm es"
  let ?a = "[0x16, 0x03] @ rec @ [0x01] @ hs @ rnd :: bytes"
  let ?b = "?a @ [word_of_nat (length sid)] @ sid"
  let ?c = "?b @ u16_be (word_of_nat (length cs)) @ cs"
  let ?d = "?c @ [word_of_nat (length cm)] @ cm"
  have u8: "unat (word_of_nat n :: u8) = n" if "n < 256" for n using that by (simp add: unat_u8_of_nat)
  have la: "length ?a = 43" using assms by simp
  have i0: "idx ?buf 0 = Some 0x16" and i1: "idx ?buf 1 = Some 3" by (simp_all add: client_hello_def hello_front_def)
  have i5: "idx ?buf 5 = Some 1"
    by (rule idx_at [where a = "[0x16, 0x03] @ rec"]) (simp_all add: client_hello_def hello_front_def assms)
  have s: "idx ?buf 43 = Some (word_of_nat (length sid))"
    by (rule idx_at [where a = ?a]) (simp_all add: client_hello_def hello_front_def assms)
  have "be16 ?buf (43 + 1 + length sid) = Some (unat (word_of_nat (length cs) :: u16))"
    by (rule be16_at [where a = ?b]) (simp_all add: client_hello_def hello_front_def assms)
  then have c: "be16 ?buf (43 + 1 + length sid) = Some (length cs)" using unat_u16_small [OF assms(5)] by simp
  have m: "idx ?buf (43 + 1 + length sid + 2 + length cs) = Some (word_of_nat (length cm))"
    by (rule idx_at [where a = ?c]) (simp_all add: client_hello_def hello_front_def assms)
  have "be16 ?buf (43 + 1 + length sid + 2 + length cs + 1 + length cm) = Some (unat (word_of_nat (length (enc_exts es)) :: u16))"
    by (rule be16_at [where a = ?d]) (simp_all add: client_hello_def hello_front_def assms)
  then have e: "be16 ?buf (43 + 1 + length sid + 2 + length cs + 1 + length cm) = Some (length (enc_exts es))"
    using unat_u16_small [OF assms(7)] by simp
  have lb: "length ?buf = 43 + 1 + length sid + 2 + length cs + 1 + length cm + 2 + length (enc_exts es)"
    using assms by (simp add: client_hello_def hello_front_def)
  have "try_tls ?buf = map_option tls_result (tls_ext_loop ?buf (length ?buf)
      (43 + 1 + length sid + 2 + length cs + 1 + length cm + 2) None False)"
    using try_tls_fields [of ?buf "word_of_nat (length sid)" "length cs" "word_of_nat (length cm)" "length (enc_exts es)"]
      i0 i1 i5 s c m e lb u8 [OF assms(4)] u8 [OF assms(6)] by simp
  moreover have "length (hello_front rec hs rnd sid cs cm (length (enc_exts es))) =
      43 + 1 + length sid + 2 + length cs + 1 + length cm + 2"
    using assms by (simp add: hello_front_def)
  ultimately show ?thesis by (simp only: client_hello_def)
qed

text \<open>
  C5. A ClientHello with one server name: whatever the session id, cipher suites, compression methods
  and other extensions are, ALPN included, and wherever the server-name extension stands among them, the
  sniffer reports that name, with the protocol h2 exactly when an ALPN extension offers it and tls otherwise.
\<close>

theorem sniff_tls_server_name:
  assumes "length rec = 3" and "length hs = 5" and "length rnd = 32"
    and "length sid < 256" and "length cs < 65536" and "length cm < 256"
    and "list_all ext_ok pre" and "list_all ext_ok post" and "str_ok name"
    and "length (enc_exts (map ext_of pre @ sni_ext name # map ext_of post)) < 65536"
  shows "try_tls (client_hello rec hs rnd sid cs cm (map ext_of pre @ sni_ext name # map ext_of post)) =
    Some (Some \<lparr>s_domain = Some name, s_protocol = (if list_ex lists_h2 (pre @ post) then ''h2'' else ''tls'')\<rparr>)"
proof -
  let ?es = "map ext_of pre @ sni_ext name # map ext_of post" and ?h = "list_ex lists_h2 pre"
  define f where "f = hello_front rec hs rnd sid cs cm (length (enc_exts ?es))"
  let ?g = "f @ enc_exts (map ext_of pre)" and ?e = "enc_ext (sni_ext name)" and ?r = "enc_exts (map ext_of post)"
  have es: "enc_exts ?es = enc_exts (map ext_of pre) @ ?e @ ?r" by (simp add: enc_exts_def)
  have len: "length (snd (sni_ext name)) = length name + 5" "length ?e = length name + 9" by (simp_all add: sni_ext_def enc_ext_def)
  then have nm: "length name < 65531" "length (snd (sni_ext name)) < 65536" using assms(10) es by simp_all
  have "tls_ext_loop (f @ enc_exts ?es) (length (f @ enc_exts ?es)) (length f) None False =
      tls_ext_loop (?g @ ?e @ ?r) (length (?g @ ?e @ ?r)) (length ?g) None ?h"
    using ext_loop_before [OF assms(7), of f "?e @ ?r" False] by (simp add: es)
  also have "\<dots> = (if ?h then Some (Some name, ?h)
      else tls_ext_loop ((?g @ ?e) @ ?r) (length ((?g @ ?e) @ ?r)) (length (?g @ ?e)) (Some name) ?h)"
    using ext_step [of "snd (sni_ext name)" ?g 0 ?r None ?h "Some name" ?h] nm(2)
      sni_extension [OF nm(1) assms(9), of ?g ?r None ?h] by (simp add: sni_ext_def)
  also have "\<dots> = Some (Some name, list_ex lists_h2 (pre @ post))"
    using ext_loop_after [OF assms(8), of "?g @ ?e" name] by simp
  finally show ?thesis
    using try_tls_client_hello [OF assms(1-6,10)] by (simp only: f_def [symmetric]) (simp add: tls_result_def)
qed

theorem sniff_tls_server_name_witness:
  "try_tls (client_hello [1, 0, 0] [0, 0, 0, 3, 3] (replicate 32 7) [] [0x13, 0x01] [0]
      (map ext_of [Other 43 [2, 3, 4], Alpn [as_bytes ''h2'', as_bytes ''http/1.1'']] @ sni_ext ''example.com'' # map ext_of [Other 10 []])) =
    Some (Some \<lparr>s_domain = Some ''example.com'', s_protocol = ''h2''\<rparr>)"
proof -
  have "list_all ext_ok [Other 43 [2, 3, 4], Alpn [as_bytes ''h2'', as_bytes ''http/1.1'']]" "list_all ext_ok [Other 10 []]"
    "str_ok ''example.com''"
    "length (enc_exts (map ext_of [Other 43 [2, 3, 4], Alpn [as_bytes ''h2'', as_bytes ''http/1.1'']] @ sni_ext ''example.com''
      # map ext_of [Other 10 []])) < 65536"
    by code_simp+
  from sniff_tls_server_name [OF _ _ _ _ _ _ this, of "[1, 0, 0]" "[0, 0, 0, 3, 3]" "replicate 32 7" "[]" "[0x13, 0x01]" "[0]"]
  show ?thesis by simp
qed

text \<open>
  C6. No input makes the sniffer panic: for every byte sequence, every detector and the stream and
  packet entry points return, without an index or slice out of range, through QUIC header
  protection, AES-GCM and the embedded ClientHello included.
\<close>

theorem sniff_never_panics:
  "(\<exists>r. try_tls data = Some r) \<and> (\<exists>r. try_quic data = Some r) \<and> (\<exists>b. is_dns_wire data = Some b)
    \<and> (\<exists>r. sniff_packet data tys = Some r) \<and> (\<exists>r st'. sniff st arrives tys = Some (r, st'))"
proof -
  have "\<exists>x. m = Some x" if "m \<noteq> None" for m :: "'x option" using that by blast
  then show ?thesis
    using try_tls_total [of data] try_quic_total [of data] is_dns_wire_total [of data] sniff_packet_total [of data tys]
      sniff_total [of st arrives tys] by auto
qed

text \<open>
  Sniffing is non-destructive: when nothing was given back to the stream before, every byte the
  peek read is read again, in order, before the rest of the stream.
\<close>

theorem sniff_gives_bytes_back:
  assumes "sniff st arrives tys = Some (r, st')" and "prefix_bytes st = []"
  shows "pending st' = pending st \<and> (poll_read st' n k = (got, st'') \<longrightarrow> got @ pending st'' = pending st)"
  using sniff_nondestructive [OF assms] poll_read_pending(1) by metis

theorem sniff_gives_bytes_back_witness:
  "\<exists>r st'. sniff (SniffedStream_new (as_bytes ''SSH-2.0'')) 100 [Ssh] = Some (r, st') \<and> pending st' = as_bytes ''SSH-2.0''"
proof -
  obtain r st' where s: "sniff (SniffedStream_new (as_bytes ''SSH-2.0'')) 100 [Ssh] = Some (r, st')"
    using sniff_total [of "SniffedStream_new (as_bytes ''SSH-2.0'')" 100 "[Ssh]"] by auto
  have "prefix_bytes (SniffedStream_new (as_bytes ''SSH-2.0'')) = []" by (simp add: SniffedStream_new_def)
  from sniff_gives_bytes_back [OF s this] s show ?thesis by (auto simp: pending_def SniffedStream_new_def)
qed

text \<open>
  The tag check of \<open>aes128_gcm_decrypt\<close> is not the one of AES-GCM: a ciphertext with the tag the
  standard prescribes is rejected unless the encrypted counter block \<open>E(K, J0)\<close> is zero.
\<close>

theorem gcm_rejects_standard_tags:
  assumes "length key = 16" and "length nonce = 12"
  shows "aes128_gcm_decrypt key nonce aad ct (gcm_standard_tag key nonce aad ct) = None
    \<or> aes128_encrypt_block (gcm_j0 nonce) (aes128_key_schedule key) = replicate 16 0"
proof -
  let ?rk = "aes128_key_schedule key"
  let ?g = "gcm_tag (aes128_encrypt_block (replicate 16 0) ?rk) aad ct" and ?e = "aes128_encrypt_block (gcm_j0 nonce) ?rk"
  have e: "length ?e = 16" and h: "length (aes128_encrypt_block (replicate 16 0) ?rk) = 16"
    using assms by (simp_all add: length_aes128_encrypt_block gcm_j0_def)
  have "length ?g = 16" by (rule length_gcm_tag [OF h])
  then have "xor_bytes ?g ?e \<noteq> ?g \<or> ?e = replicate 16 0" using xor_bytes_eq_left [of ?g ?e] e by auto
  then show ?thesis by (auto simp: aes128_gcm_decrypt_def gcm_standard_tag_def Let_def)
qed

theorem gcm_rejects_standard_tags_witness:
  "aes128_gcm_decrypt (replicate 16 1) (replicate 12 0) [] [1, 2, 3]
      (gcm_standard_tag (replicate 16 1) (replicate 12 0) [] [1, 2, 3]) = None
    \<or> aes128_encrypt_block (gcm_j0 (replicate 12 0)) (aes128_key_schedule (replicate 16 1)) = replicate 16 0"
  by (rule gcm_rejects_standard_tags) simp_all

end
