(* ===== verification/Stats.thy ===== *)
theory Stats
  imports Prelude "HOL-Library.Multiset"
begin

text \<open>
  Traffic statistics (\<open>src/app/stats.rs\<close>): one block of atomic counters per outbound tag, shared
  through \<open>Arc\<close>s, and the guards that count a connection while it is open. The blocks live in a heap
  and an \<open>Arc\<close> is an address into it, so that two guards of a tag really share one block. The counters
  are those of a 64-bit target: they wrap at \<open>2 ^ 64\<close>. Every \<open>fetch_add\<close>, \<open>fetch_sub\<close> and \<open>load\<close> is an
  operation of its own; the transition system below interleaves them one by one.
\<close>

section \<open>Counters and the registry\<close>

record TagStats =
  tcp_active :: u64
  udp_active :: u64
  tcp_total :: u64
  udp_total :: u64
  bytes_up :: u64
  bytes_down :: u64
  errors :: u64

type_synonym TagSnapshot = TagStats

definition TagStats_default :: TagStats where
  "TagStats_default = \<lparr>tcp_active = 0, udp_active = 0, tcp_total = 0, udp_total = 0, bytes_up = 0, bytes_down = 0, errors = 0\<rparr>"

definition snapshot :: "TagStats \<Rightarrow> TagSnapshot" where
  "snapshot s = \<lparr>tcp_active = tcp_active s, udp_active = udp_active s, tcp_total = tcp_total s, udp_total = udp_total s,
     bytes_up = bytes_up s, bytes_down = bytes_down s, errors = errors s\<rparr>"

text \<open>The registry: \<open>tags\<close> in insertion order, and the heap of counter blocks.\<close>

record Stats =
  tags :: "(string \<times> nat) list"
  blocks :: "TagStats list"

definition Stats_new :: Stats where
  "Stats_new = \<lparr>tags = [], blocks = []\<rparr>"

text \<open>
  \<open>tag\<close> looks the name up under the read lock and, when it is missing, takes the write lock and
  inserts unless another thread did so in between.
\<close>

definition tag_read :: "Stats \<Rightarrow> string \<Rightarrow> nat option" where
  "tag_read s t = map_of (tags s) t"

definition tag_write :: "Stats \<Rightarrow> string \<Rightarrow> nat \<times> Stats" where
  "tag_write s t =
     (case map_of (tags s) t of
        Some a \<Rightarrow> (a, s)
      | None \<Rightarrow> (length (blocks s), s\<lparr>tags := tags s @ [(t, length (blocks s))], blocks := blocks s @ [TagStats_default]\<rparr>))"

definition tag :: "Stats \<Rightarrow> string \<Rightarrow> nat \<times> Stats" where
  "tag s t = (case tag_read s t of Some a \<Rightarrow> (a, s) | None \<Rightarrow> tag_write s t)"

definition update_block :: "nat \<Rightarrow> (TagStats \<Rightarrow> TagStats) \<Rightarrow> Stats \<Rightarrow> Stats" where
  "update_block a f s = s\<lparr>blocks := (blocks s)[a := f (blocks s ! a)]\<rparr>"

definition snapshot_all :: "Stats \<Rightarrow> (string \<times> TagSnapshot) list" where
  "snapshot_all s = map (\<lambda>(t, a). (t, snapshot (blocks s ! a))) (tags s)"

definition TagSnapshot_zero :: TagSnapshot where
  "TagSnapshot_zero = \<lparr>tcp_active = 0, udp_active = 0, tcp_total = 0, udp_total = 0, bytes_up = 0, bytes_down = 0, errors = 0\<rparr>"

definition snap_add :: "TagSnapshot \<Rightarrow> TagSnapshot \<Rightarrow> TagSnapshot" where
  "snap_add acc snap =
     \<lparr>tcp_active = tcp_active acc + tcp_active snap, udp_active = udp_active acc + udp_active snap,
      tcp_total = tcp_total acc + tcp_total snap, udp_total = udp_total acc + udp_total snap,
      bytes_up = bytes_up acc + bytes_up snap, bytes_down = bytes_down acc + bytes_down snap,
      errors = errors acc + errors snap\<rparr>"

definition global_snapshot :: "Stats \<Rightarrow> TagSnapshot" where
  "global_snapshot s = foldl snap_add TagSnapshot_zero (map (\<lambda>(t, a). snapshot (blocks s ! a)) (tags s))"

section \<open>Atomic operations\<close>

datatype counter = Tcp_active | Udp_active | Tcp_total | Udp_total | Bytes_up | Bytes_down | Errors

text \<open>The fields in the order in which \<open>TagStats::snapshot\<close> loads them.\<close>

definition counters_of_tag :: "counter list" where
  "counters_of_tag = [Tcp_active, Udp_active, Tcp_total, Udp_total, Bytes_up, Bytes_down, Errors]"

definition load_u64 :: "counter \<Rightarrow> TagStats \<Rightarrow> u64" where
  "load_u64 cn b = (case cn of Tcp_active \<Rightarrow> tcp_active b | Udp_active \<Rightarrow> udp_active b | Tcp_total \<Rightarrow> tcp_total b
     | Udp_total \<Rightarrow> udp_total b | Bytes_up \<Rightarrow> bytes_up b | Bytes_down \<Rightarrow> bytes_down b | Errors \<Rightarrow> errors b)"

definition add_to :: "counter \<Rightarrow> u64 \<Rightarrow> TagStats \<Rightarrow> TagStats" where
  "add_to cn v b = (case cn of
       Tcp_active \<Rightarrow> b\<lparr>tcp_active := tcp_active b + v\<rparr> | Udp_active \<Rightarrow> b\<lparr>udp_active := udp_active b + v\<rparr>
     | Tcp_total \<Rightarrow> b\<lparr>tcp_total := tcp_total b + v\<rparr> | Udp_total \<Rightarrow> b\<lparr>udp_total := udp_total b + v\<rparr>
     | Bytes_up \<Rightarrow> b\<lparr>bytes_up := bytes_up b + v\<rparr> | Bytes_down \<Rightarrow> b\<lparr>bytes_down := bytes_down b + v\<rparr>
     | Errors \<Rightarrow> b\<lparr>errors := errors b + v\<rparr>)"

definition fetch_add :: "nat \<Rightarrow> counter \<Rightarrow> u64 \<Rightarrow> Stats \<Rightarrow> Stats" where
  "fetch_add a cn v = update_block a (add_to cn v)"

definition fetch_sub :: "nat \<Rightarrow> counter \<Rightarrow> u64 \<Rightarrow> Stats \<Rightarrow> Stats" where
  "fetch_sub a cn v = update_block a (add_to cn (- v))"

section \<open>Guards\<close>

text \<open>\<open>new\<close> and \<open>add_bytes\<close> are two atomic operations each: the first half, then the second.\<close>

definition TcpGuard_new1 :: "nat \<Rightarrow> Stats \<Rightarrow> Stats" where
  "TcpGuard_new1 a = fetch_add a Tcp_active 1"

definition TcpGuard_new2 :: "nat \<Rightarrow> Stats \<Rightarrow> Stats" where
  "TcpGuard_new2 a = fetch_add a Tcp_total 1"

definition TcpGuard_new :: "nat \<Rightarrow> Stats \<Rightarrow> Stats" where
  "TcpGuard_new a s = TcpGuard_new2 a (TcpGuard_new1 a s)"

definition TcpGuard_add_bytes1 :: "nat \<Rightarrow> u64 \<Rightarrow> Stats \<Rightarrow> Stats" where
  "TcpGuard_add_bytes1 a up = fetch_add a Bytes_up up"

definition TcpGuard_add_bytes2 :: "nat \<Rightarrow> u64 \<Rightarrow> Stats \<Rightarrow> Stats" where
  "TcpGuard_add_bytes2 a down = fetch_add a Bytes_down down"

definition TcpGuard_add_bytes :: "nat \<Rightarrow> u64 \<Rightarrow> u64 \<Rightarrow> Stats \<Rightarrow> Stats" where
  "TcpGuard_add_bytes a up down s = TcpGuard_add_bytes2 a down (TcpGuard_add_bytes1 a up s)"

definition TcpGuard_record_error :: "nat \<Rightarrow> Stats \<Rightarrow> Stats" where
  "TcpGuard_record_error a = fetch_add a Errors 1"

definition TcpGuard_drop :: "nat \<Rightarrow> Stats \<Rightarrow> Stats" where
  "TcpGuard_drop a = fetch_sub a Tcp_active 1"

definition UdpGuard_new1 :: "nat \<Rightarrow> Stats \<Rightarrow> Stats" where
  "UdpGuard_new1 a = fetch_add a Udp_active 1"

definition UdpGuard_new2 :: "nat \<Rightarrow> Stats \<Rightarrow> Stats" where
  "UdpGuard_new2 a = fetch_add a Udp_total 1"

definition UdpGuard_new :: "nat \<Rightarrow> Stats \<Rightarrow> Stats" where
  "UdpGuard_new a s = UdpGuard_new2 a (UdpGuard_new1 a s)"

definition UdpGuard_add_bytes1 :: "nat \<Rightarrow> u64 \<Rightarrow> Stats \<Rightarrow> Stats" where
  "UdpGuard_add_bytes1 a up = fetch_add a Bytes_up up"

definition UdpGuard_add_bytes2 :: "nat \<Rightarrow> u64 \<Rightarrow> Stats \<Rightarrow> Stats" where
  "UdpGuard_add_bytes2 a down = fetch_add a Bytes_down down"

definition UdpGuard_add_bytes :: "nat \<Rightarrow> u64 \<Rightarrow> u64 \<Rightarrow> Stats \<Rightarrow> Stats" where
  "UdpGuard_add_bytes a up down s = UdpGuard_add_bytes2 a down (UdpGuard_add_bytes1 a up s)"

definition UdpGuard_drop :: "nat \<Rightarrow> Stats \<Rightarrow> Stats" where
  "UdpGuard_drop a = fetch_sub a Udp_active 1"

lemmas atomic_defs = TcpGuard_new1_def TcpGuard_new2_def TcpGuard_add_bytes1_def TcpGuard_add_bytes2_def
  TcpGuard_record_error_def TcpGuard_drop_def UdpGuard_new1_def UdpGuard_new2_def UdpGuard_add_bytes1_def
  UdpGuard_add_bytes2_def UdpGuard_drop_def fetch_add_def fetch_sub_def

lemmas guard_defs = TcpGuard_new_def TcpGuard_add_bytes_def UdpGuard_new_def UdpGuard_add_bytes_def
  atomic_defs add_to_def

section \<open>The registry\<close>

definition registry_ok :: "Stats \<Rightarrow> bool" where
  "registry_ok c \<longleftrightarrow> distinct (map fst (tags c)) \<and> map snd (tags c) = [0 ..< length (blocks c)]"

lemma registry_block: "registry_ok c \<Longrightarrow> map_of (tags c) t = Some a \<Longrightarrow> a < length (blocks c)"
proof -
  assume r: "registry_ok c" and "map_of (tags c) t = Some a"
  then have "a \<in> set (map snd (tags c))" by (force dest: map_of_SomeD)
  with r show ?thesis by (simp add: registry_ok_def)
qed

lemma registry_inj:
  assumes "registry_ok c" and "map_of (tags c) t = Some a" and "map_of (tags c) t' = Some a"
  shows "t = t'"
proof -
  have "distinct (map snd (tags c))" using assms(1) by (simp add: registry_ok_def)
  with assms(2,3) show ?thesis by (metis distinct_map fst_conv inj_onD map_of_SomeD snd_conv)
qed

lemma update_block_simps [simp]:
  "tags (update_block a f c) = tags c"
  "length (blocks (update_block a f c)) = length (blocks c)"
  by (simp_all add: update_block_def)

lemma update_block_nth:
  "a < length (blocks c) \<Longrightarrow> blocks (update_block a f c) ! i = (if i = a then f (blocks c ! a) else blocks c ! i)"
  by (simp add: update_block_def)

lemma registry_update [simp]: "registry_ok (update_block a f c) \<longleftrightarrow> registry_ok c"
  by (simp add: registry_ok_def)

lemma load_add_to: "load_u64 cn (add_to cn' v b) = load_u64 cn b + (if cn = cn' then v else 0)"
  by (cases cn; cases cn'; simp add: load_u64_def add_to_def)

lemma load_fresh [simp]: "load_u64 cn TagStats_default = 0"
  by (simp add: load_u64_def TagStats_default_def split: counter.split)

section \<open>The counters of a tag\<close>

text \<open>The counters a lookup of a tag would show; a tag without a block has all counters zero.\<close>

definition block_of :: "Stats \<Rightarrow> string \<Rightarrow> TagStats" where
  "block_of s t = (case tag_read s t of Some a \<Rightarrow> blocks s ! a | None \<Rightarrow> TagStats_default)"

lemma tag_ok:
  assumes "registry_ok s" and "tag s t = (a, s')"
  shows "registry_ok s' \<and> tag_read s' t = Some a \<and> block_of s' = block_of s"
proof (cases "map_of (tags s) t")
  case None
  then have s': "s' = s\<lparr>tags := tags s @ [(t, a)], blocks := blocks s @ [TagStats_default]\<rparr>" and a: "a = length (blocks s)"
    using assms(2) by (auto simp: tag_def tag_read_def tag_write_def)
  have look: "map_of (tags s') u = (if u = t then Some a else map_of (tags s) u)" for u
    using None by (auto simp: s' map_add_def split: option.splits)
  have "registry_ok s'" using assms(1) None by (auto simp: registry_ok_def s' a map_of_eq_None_iff)
  moreover have "block_of s' u = block_of s u" for u
    using None registry_block [OF assms(1), of u] look [of u]
    by (auto simp: block_of_def tag_read_def s' a nth_append split: option.splits)
  ultimately show ?thesis using look by (auto simp: tag_read_def)
next
  case (Some b)
  then show ?thesis using assms by (simp add: tag_def tag_read_def)
qed

lemma tag_read_update [simp]: "tag_read (update_block a f s) t = tag_read s t"
  by (simp add: tag_read_def)

lemma block_of_update:
  assumes "registry_ok s" and "tag_read s t = Some a"
  shows "block_of (update_block a f s) u = (if u = t then f (block_of s t) else block_of s u)"
proof -
  have "a < length (blocks s)" using registry_block [OF assms(1)] assms(2) by (simp add: tag_read_def)
  then have b: "blocks (update_block a f s) ! i = (if i = a then f (blocks s ! a) else blocks s ! i)" for i
    by (rule update_block_nth)
  show ?thesis
  proof (cases "u = t")
    case True
    then show ?thesis using assms(2) b by (simp add: block_of_def)
  next
    case False
    then have "tag_read s u \<noteq> Some a" using registry_inj [OF assms(1), of t a u] assms(2) by (auto simp: tag_read_def)
    then show ?thesis using False b by (simp add: block_of_def split: option.splits)
  qed
qed

section \<open>All interleavings\<close>

text \<open>
  The threads of the program as one transition system whose steps are the atomic operations. A guard is
  opened by a lookup that hits, or by a lookup that misses and, any number of steps later, the locked
  insertion (\<open>missed\<close> holds the threads between the two). The thread then owns an \<open>Arc\<close> and has to do both
  additions of \<open>new\<close>, and both additions of every \<open>add_bytes\<close>, one at a time: its phase says how far it is.
  A reader holds the read lock while it loads the counters one by one, in any order of the tags (the
  registry is a hash map); lookups and guards go on meanwhile, only an insertion has to wait. \<open>events\<close> logs
  what the program's connections did: it is compared with the counters and never read by a step.
\<close>

datatype kind = TcpG | UdpG

datatype phase = Held | Counted | Open | Sending u64

definition guard_new1 :: "kind \<Rightarrow> nat \<Rightarrow> Stats \<Rightarrow> Stats" where
  "guard_new1 k = (case k of TcpG \<Rightarrow> TcpGuard_new1 | UdpG \<Rightarrow> UdpGuard_new1)"

definition guard_new2 :: "kind \<Rightarrow> nat \<Rightarrow> Stats \<Rightarrow> Stats" where
  "guard_new2 k = (case k of TcpG \<Rightarrow> TcpGuard_new2 | UdpG \<Rightarrow> UdpGuard_new2)"

definition guard_add_bytes1 :: "kind \<Rightarrow> nat \<Rightarrow> u64 \<Rightarrow> Stats \<Rightarrow> Stats" where
  "guard_add_bytes1 k = (case k of TcpG \<Rightarrow> TcpGuard_add_bytes1 | UdpG \<Rightarrow> UdpGuard_add_bytes1)"

definition guard_add_bytes2 :: "kind \<Rightarrow> nat \<Rightarrow> u64 \<Rightarrow> Stats \<Rightarrow> Stats" where
  "guard_add_bytes2 k = (case k of TcpG \<Rightarrow> TcpGuard_add_bytes2 | UdpG \<Rightarrow> UdpGuard_add_bytes2)"

definition guard_drop :: "kind \<Rightarrow> nat \<Rightarrow> Stats \<Rightarrow> Stats" where
  "guard_drop k = (case k of TcpG \<Rightarrow> TcpGuard_drop | UdpG \<Rightarrow> UdpGuard_drop)"

record log =
  ev_started :: "(kind \<times> string) list"
  ev_opened :: "(kind \<times> string) list"
  ev_dropped :: "(kind \<times> string) list"
  ev_sent :: "(string \<times> u64) list"
  ev_received :: "(string \<times> u64) list"
  ev_failed :: "string list"

record reader =
  rd_todo :: "(string \<times> nat \<times> counter) list"
  rd_acc :: TagSnapshot
  rd_done :: "(string \<times> counter) list"
  rd_log :: log

record sys =
  counters :: Stats
  missed :: "(kind \<times> string) multiset"
  guards :: "(kind \<times> string \<times> nat \<times> phase) multiset"
  readers :: "reader multiset"
  events :: log

definition sys_init :: sys where
  "sys_init = \<lparr>counters = Stats_new, missed = {#}, guards = {#}, readers = {#},
     events = \<lparr>ev_started = [], ev_opened = [], ev_dropped = [], ev_sent = [], ev_received = [], ev_failed = []\<rparr>\<rparr>"

definition read_plan :: "(string \<times> nat) list \<Rightarrow> (string \<times> nat \<times> counter) list" where
  "read_plan ts = concat (map (\<lambda>(t, a). map (\<lambda>cn. (t, a, cn)) counters_of_tag) ts)"

definition reader_new :: "(string \<times> nat) list \<Rightarrow> log \<Rightarrow> reader" where
  "reader_new ts l = \<lparr>rd_todo = read_plan ts, rd_acc = TagSnapshot_zero, rd_done = [], rd_log = l\<rparr>"

definition reader_load :: "Stats \<Rightarrow> string \<Rightarrow> nat \<Rightarrow> counter \<Rightarrow> reader \<Rightarrow> reader" where
  "reader_load c t a cn r = r\<lparr>rd_todo := tl (rd_todo r), rd_acc := add_to cn (load_u64 cn (blocks c ! a)) (rd_acc r),
     rd_done := (t, cn) # rd_done r\<rparr>"

definition sys_did :: "Stats \<Rightarrow> log \<Rightarrow> (kind \<times> string \<times> nat \<times> phase) multiset \<Rightarrow> sys \<Rightarrow> sys" where
  "sys_did c l g s = s\<lparr>counters := c, events := l, guards := g\<rparr>"

inductive sys_step :: "sys \<Rightarrow> sys \<Rightarrow> bool" where
  lookup_hit: "tag_read (counters s) t = Some a \<Longrightarrow> sys_step s (s\<lparr>guards := add_mset (k, t, a, Held) (guards s)\<rparr>)"
| lookup_miss: "tag_read (counters s) t = None \<Longrightarrow> sys_step s (s\<lparr>missed := add_mset (k, t) (missed s)\<rparr>)"
| insert_tag: "(k, t) \<in># missed s \<Longrightarrow> readers s = {#} \<Longrightarrow> tag_write (counters s) t = (a, c) \<Longrightarrow>
    sys_step s (s\<lparr>counters := c, missed := missed s - {#(k, t)#}, guards := add_mset (k, t, a, Held) (guards s)\<rparr>)"
| add_active: "(k, t, a, Held) \<in># guards s \<Longrightarrow>
    sys_step s (sys_did (guard_new1 k a (counters s)) ((events s)\<lparr>ev_started := (k, t) # ev_started (events s)\<rparr>)
      (add_mset (k, t, a, Counted) (guards s - {#(k, t, a, Held)#})) s)"
| add_total: "(k, t, a, Counted) \<in># guards s \<Longrightarrow>
    sys_step s (sys_did (guard_new2 k a (counters s)) ((events s)\<lparr>ev_opened := (k, t) # ev_opened (events s)\<rparr>)
      (add_mset (k, t, a, Open) (guards s - {#(k, t, a, Counted)#})) s)"
| add_up: "(k, t, a, Open) \<in># guards s \<Longrightarrow>
    sys_step s (sys_did (guard_add_bytes1 k a up (counters s)) ((events s)\<lparr>ev_sent := (t, up) # ev_sent (events s)\<rparr>)
      (add_mset (k, t, a, Sending down) (guards s - {#(k, t, a, Open)#})) s)"
| add_down: "(k, t, a, Sending down) \<in># guards s \<Longrightarrow>
    sys_step s (sys_did (guard_add_bytes2 k a down (counters s))
      ((events s)\<lparr>ev_received := (t, down) # ev_received (events s)\<rparr>)
      (add_mset (k, t, a, Open) (guards s - {#(k, t, a, Sending down)#})) s)"
| failure: "(TcpG, t, a, Open) \<in># guards s \<Longrightarrow>
    sys_step s (sys_did (TcpGuard_record_error a (counters s)) ((events s)\<lparr>ev_failed := t # ev_failed (events s)\<rparr>)
      (guards s) s)"
| close: "(k, t, a, Open) \<in># guards s \<Longrightarrow>
    sys_step s (sys_did (guard_drop k a (counters s)) ((events s)\<lparr>ev_dropped := (k, t) # ev_dropped (events s)\<rparr>)
      (guards s - {#(k, t, a, Open)#}) s)"
| begin_read: "mset ts = mset (tags (counters s)) \<Longrightarrow>
    sys_step s (s\<lparr>readers := add_mset (reader_new ts (events s)) (readers s)\<rparr>)"
| load: "r \<in># readers s \<Longrightarrow> rd_todo r = (t, a, cn) # rest \<Longrightarrow>
    sys_step s (s\<lparr>readers := add_mset (reader_load (counters s) t a cn r) (readers s - {#r#})\<rparr>)"
| end_read: "r \<in># readers s \<Longrightarrow> rd_todo r = [] \<Longrightarrow> sys_step s (s\<lparr>readers := readers s - {#r#}\<rparr>)"

text \<open>A reader that runs alone computes \<open>global_snapshot\<close>: the loads are those of the code, in its order.\<close>

lemma add_to_acc:
  "foldl (\<lambda>acc cn. add_to cn (load_u64 cn b) acc) acc counters_of_tag = snap_add acc (snapshot b)"
  by (simp add: counters_of_tag_def add_to_def load_u64_def snap_add_def snapshot_def)

lemma reader_alone:
  "foldl (\<lambda>acc (t, a, cn). add_to cn (load_u64 cn (blocks c ! a)) acc) TagSnapshot_zero (read_plan (tags c)) = global_snapshot c"
proof -
  have "foldl (\<lambda>acc (t, a, cn). add_to cn (load_u64 cn (blocks c ! a)) acc) acc (read_plan ts)
      = foldl snap_add acc (map (\<lambda>(t, a). snapshot (blocks c ! a)) ts)" for acc ts
    by (induction ts arbitrary: acc) (auto simp: read_plan_def foldl_map add_to_acc)
  then show ?thesis by (simp add: global_snapshot_def)
qed

section \<open>What the counters stand for\<close>

definition bytes_of :: "string \<Rightarrow> (string \<times> u64) list \<Rightarrow> int" where
  "bytes_of t xs = sum_list (map (\<lambda>(t', v). if t' = t then uint v else 0) xs)"

text \<open>
  The number a counter of a tag stands for. The additions are taken from the first log and the drops from
  the second: with both the same, this is the exact number.
\<close>

definition tally :: "log \<Rightarrow> log \<Rightarrow> counter \<Rightarrow> string \<Rightarrow> int" where
  "tally l m cn t = (case cn of
       Tcp_active \<Rightarrow> int (count_list (ev_started l) (TcpG, t)) - int (count_list (ev_dropped m) (TcpG, t))
     | Udp_active \<Rightarrow> int (count_list (ev_started l) (UdpG, t)) - int (count_list (ev_dropped m) (UdpG, t))
     | Tcp_total \<Rightarrow> int (count_list (ev_opened l) (TcpG, t))
     | Udp_total \<Rightarrow> int (count_list (ev_opened l) (UdpG, t))
     | Bytes_up \<Rightarrow> bytes_of t (ev_sent l)
     | Bytes_down \<Rightarrow> bytes_of t (ev_received l)
     | Errors \<Rightarrow> int (count_list (ev_failed l) t))"

definition log_le :: "log \<Rightarrow> log \<Rightarrow> bool" where
  "log_le l m \<longleftrightarrow> (\<forall>cn t l'. tally l l' cn t \<le> tally m l' cn t \<and> tally l' m cn t \<le> tally l' l cn t)"

lemma log_le_refl [simp]: "log_le l l"
  by (simp add: log_le_def)

lemma log_le_trans: "log_le l m \<Longrightarrow> log_le m n \<Longrightarrow> log_le l n"
  unfolding log_le_def by (meson order_trans)

lemma tally_mono: "log_le l l' \<Longrightarrow> log_le m' m \<Longrightarrow> tally l m cn t \<le> tally l' m' cn t"
  unfolding log_le_def by (meson order_trans)

lemma bytes_of_Cons: "bytes_of t ((u, v) # xs) = (if u = t then uint v else 0) + bytes_of t xs"
  by (simp add: bytes_of_def)

definition active_of :: "kind \<Rightarrow> counter" where
  "active_of k = (case k of TcpG \<Rightarrow> Tcp_active | UdpG \<Rightarrow> Udp_active)"

definition total_of :: "kind \<Rightarrow> counter" where
  "total_of k = (case k of TcpG \<Rightarrow> Tcp_total | UdpG \<Rightarrow> Udp_total)"

text \<open>An event: one counter of one tag changes by \<open>d\<close>, and the log only grows.\<close>

definition event :: "log \<Rightarrow> log \<Rightarrow> counter \<Rightarrow> string \<Rightarrow> int \<Rightarrow> bool" where
  "event l m cn t d \<longleftrightarrow> log_le l m \<and> (\<forall>cn' t'. tally m m cn' t' = tally l l cn' t' + (if cn' = cn \<and> t' = t then d else 0))"

lemma events:
  "event l (l\<lparr>ev_started := (k, t) # ev_started l\<rparr>) (active_of k) t 1"
  "event l (l\<lparr>ev_opened := (k, t) # ev_opened l\<rparr>) (total_of k) t 1"
  "event l (l\<lparr>ev_sent := (t, v) # ev_sent l\<rparr>) Bytes_up t (uint v)"
  "event l (l\<lparr>ev_received := (t, v) # ev_received l\<rparr>) Bytes_down t (uint v)"
  "event l (l\<lparr>ev_failed := t # ev_failed l\<rparr>) Errors t 1"
  "event l (l\<lparr>ev_dropped := (k, t) # ev_dropped l\<rparr>) (active_of k) t (- 1)"
  by (cases k; auto simp: event_def log_le_def tally_def active_of_def total_of_def bytes_of_Cons split: counter.split)+

lemma atomic_steps:
  "guard_new1 k a = update_block a (add_to (active_of k) (of_int 1))"
  "guard_new2 k a = update_block a (add_to (total_of k) (of_int 1))"
  "guard_add_bytes1 k a v = update_block a (add_to Bytes_up (of_int (uint v)))"
  "guard_add_bytes2 k a v = update_block a (add_to Bytes_down (of_int (uint v)))"
  "TcpGuard_record_error a = update_block a (add_to Errors (of_int 1))"
  "guard_drop k a = update_block a (add_to (active_of k) (of_int (- 1)))"
  by (cases k; simp add: guard_new1_def guard_new2_def guard_add_bytes1_def guard_add_bytes2_def guard_drop_def
      atomic_defs active_of_def total_of_def)+

section \<open>The invariant\<close>

definition counts_ok :: "Stats \<Rightarrow> log \<Rightarrow> bool" where
  "counts_ok c l \<longleftrightarrow> (\<forall>t cn. case map_of (tags c) t of
       Some a \<Rightarrow> load_u64 cn (blocks c ! a) = of_int (tally l l cn t)
     | None \<Rightarrow> tally l l cn t = 0)"

definition counted :: "kind \<Rightarrow> string \<Rightarrow> kind \<times> string \<times> nat \<times> phase \<Rightarrow> bool" where
  "counted k t g \<longleftrightarrow> (case g of (k', t', a, p) \<Rightarrow> k' = k \<and> t' = t \<and> p \<noteq> Held)"

definition guards_ok :: "Stats \<Rightarrow> log \<Rightarrow> (kind \<times> string \<times> nat \<times> phase) multiset \<Rightarrow> bool" where
  "guards_ok c l gs \<longleftrightarrow> (\<forall>k t a p. (k, t, a, p) \<in># gs \<longrightarrow> map_of (tags c) t = Some a)
     \<and> (\<forall>k t. tally l l (active_of k) t = int (size (filter_mset (counted k t) gs)))"

definition loads_of :: "counter \<Rightarrow> (string \<times> counter) list \<Rightarrow> string list" where
  "loads_of cn xs = map fst (filter (\<lambda>x. snd x = cn) xs)"

definition between :: "log \<Rightarrow> log \<Rightarrow> counter \<Rightarrow> string list \<Rightarrow> u64 \<Rightarrow> bool" where
  "between l m cn ts v \<longleftrightarrow> (\<exists>n. v = of_int n \<and> sum_list (map (tally l m cn) ts) \<le> n \<and> n \<le> sum_list (map (tally m l cn) ts))"

definition reader_ok :: "Stats \<Rightarrow> log \<Rightarrow> reader \<Rightarrow> bool" where
  "reader_ok c l r \<longleftrightarrow> log_le (rd_log r) l
     \<and> (\<forall>t a cn. (t, a, cn) \<in> set (rd_todo r) \<longrightarrow> map_of (tags c) t = Some a)
     \<and> mset (rd_done r) + mset (map (\<lambda>(t, a, cn). (t, cn)) (rd_todo r)) = mset (map (\<lambda>(t, a, cn). (t, cn)) (read_plan (tags c)))
     \<and> (\<forall>cn. between (rd_log r) l cn (loads_of cn (rd_done r)) (load_u64 cn (rd_acc r)))"

definition sys_inv :: "sys \<Rightarrow> bool" where
  "sys_inv s \<longleftrightarrow> registry_ok (counters s) \<and> counts_ok (counters s) (events s)
     \<and> guards_ok (counters s) (events s) (guards s) \<and> (\<forall>r. r \<in># readers s \<longrightarrow> reader_ok (counters s) (events s) r)"

text \<open>A read that goes on while the log grows: the bounds only widen.\<close>

lemma between_mono:
  assumes "log_le m m'" and "between l m cn ts v"
  shows "between l m' cn ts v"
proof -
  have "sum_list (map (tally l m' cn) ts) \<le> sum_list (map (tally l m cn) ts)"
    "sum_list (map (tally m l cn) ts) \<le> sum_list (map (tally m' l cn) ts)"
    using assms(1) by (auto intro!: sum_list_mono tally_mono)
  moreover obtain n where "v = of_int n" "sum_list (map (tally l m cn) ts) \<le> n" "n \<le> sum_list (map (tally m l cn) ts)"
    using assms(2) by (auto simp: between_def)
  ultimately show ?thesis unfolding between_def by (intro exI [of _ n]) simp
qed

lemma between_load:
  assumes "log_le l m" and "between l m cn ts v" and "w = of_int (tally m m cn t)"
  shows "between l m cn (t # ts) (v + w)"
proof -
  obtain n where "v = of_int n" "sum_list (map (tally l m cn) ts) \<le> n" "n \<le> sum_list (map (tally m l cn) ts)"
    using assms(2) by (auto simp: between_def)
  moreover have "tally l m cn t \<le> tally m m cn t" "tally m m cn t \<le> tally m l cn t"
    using assms(1) by (auto intro: tally_mono)
  ultimately show ?thesis
    unfolding between_def by (intro exI [of _ "n + tally m m cn t"]) (simp add: assms(3))
qed

lemma reader_mono: "log_le l m \<Longrightarrow> tags c' = tags c \<Longrightarrow> reader_ok c l r \<Longrightarrow> reader_ok c' m r"
  by (auto simp: reader_ok_def intro: log_le_trans between_mono)

lemma mset_concat_map:
  assumes "mset xs = mset ys"
  shows "mset (concat (map f xs)) = mset (concat (map f ys))"
proof -
  have "mset (concat (map f zs)) = sum_mset (image_mset (mset \<circ> f) (mset zs))" for zs by (induction zs) simp_all
  with assms show ?thesis by simp
qed

lemma reader_new_ok:
  assumes "registry_ok c" and "mset ts = mset (tags c)"
  shows "reader_ok c l (reader_new ts l)"
proof -
  have "(t, a) \<in> set ts \<longleftrightarrow> (t, a) \<in> set (tags c)" for t a using mset_eq_setD [OF assms(2)] by auto
  moreover have "mset (read_plan ts) = mset (read_plan (tags c))"
    unfolding read_plan_def using assms(2) by (rule mset_concat_map)
  moreover have "map_of (tags c) t = Some a" if "(t, a, cn) \<in> set (read_plan ts)" for t a cn
    using that assms(1) calculation(1) by (auto simp: read_plan_def registry_ok_def)
  moreover have "load_u64 cn TagSnapshot_zero = 0" for cn
    by (simp add: load_u64_def TagSnapshot_zero_def split: counter.split)
  ultimately show ?thesis
    by (simp add: reader_ok_def reader_new_def loads_of_def between_def exI [of _ "0 :: int"])
qed

lemma reader_load_ok:
  assumes "reader_ok c l r" and "counts_ok c l" and r: "rd_todo r = (t, a, cn) # rest"
  shows "reader_ok c l (reader_load c t a cn r)"
proof -
  have t: "map_of (tags c) t = Some a" using assms(1) r by (auto simp: reader_ok_def)
  have v: "load_u64 cn (blocks c ! a) = of_int (tally l l cn t)" using assms(2) t by (auto simp: counts_ok_def split: option.splits)
  have "between (rd_log r) l cn' (loads_of cn' ((t, cn) # rd_done r)) (load_u64 cn' (rd_acc (reader_load c t a cn r)))" for cn'
    using assms(1) v by (auto simp: reader_ok_def reader_load_def load_add_to loads_of_def intro!: between_load)
  moreover have "mset ((t, cn) # rd_done r) + mset (map (\<lambda>(t, a, cn). (t, cn)) rest)
      = mset (map (\<lambda>(t, a, cn). (t, cn)) (read_plan (tags c)))"
    using assms(1) r by (simp add: reader_ok_def)
  ultimately show ?thesis using assms(1) r by (auto simp: reader_ok_def reader_load_def)
qed

lemma loads_of_all: "loads_of cn (map (\<lambda>(t, a, cn). (t, cn)) (read_plan ts)) = map fst ts"
  by (induction ts; cases cn) (auto simp: loads_of_def read_plan_def counters_of_tag_def)

lemma reader_done:
  assumes "reader_ok c l r" and "rd_todo r = []"
  shows "between (rd_log r) l cn (map fst (tags c)) (load_u64 cn (rd_acc r))"
proof -
  have "mset (rd_done r) = mset (map (\<lambda>(t, a, cn). (t, cn)) (read_plan (tags c)))" using assms by (simp add: reader_ok_def)
  then have "mset (loads_of cn (rd_done r)) = mset (map fst (tags c))"
    unfolding loads_of_all [of cn, symmetric] by (simp only: loads_of_def mset_map mset_filter)
  then have "sum_list (map f (loads_of cn (rd_done r))) = sum_list (map f (map fst (tags c)))" for f :: "string \<Rightarrow> int"
    by (metis mset_map sum_mset_sum_list)
  moreover have "between (rd_log r) l cn (loads_of cn (rd_done r)) (load_u64 cn (rd_acc r))"
    using assms(1) by (simp add: reader_ok_def)
  ultimately show ?thesis by (simp only: between_def)
qed

text \<open>One atomic operation on the block of a guard, with its event.\<close>

lemma counts_event:
  assumes "registry_ok c" and "counts_ok c l" and "map_of (tags c) t = Some a" and "event l m cn t d"
  shows "counts_ok (update_block a (add_to cn (of_int d)) c) m"
  unfolding counts_ok_def
proof (intro allI)
  fix t' cn'
  have lt: "a < length (blocks c)" by (rule registry_block [OF assms(1,3)])
  have m: "tally m m cn' t' = tally l l cn' t' + (if cn' = cn \<and> t' = t then d else 0)" using assms(4) by (simp add: event_def)
  have l: "case map_of (tags c) t' of Some b \<Rightarrow> load_u64 cn' (blocks c ! b) = of_int (tally l l cn' t')
      | None \<Rightarrow> tally l l cn' t' = 0" using assms(2) by (simp add: counts_ok_def)
  show "case map_of (tags (update_block a (add_to cn (of_int d)) c)) t' of
      Some b \<Rightarrow> load_u64 cn' (blocks (update_block a (add_to cn (of_int d)) c) ! b) = of_int (tally m m cn' t')
    | None \<Rightarrow> tally m m cn' t' = 0"
  proof (cases "t' = t")
    case True
    then show ?thesis using l m assms(3) by (simp add: update_block_nth [OF lt] load_add_to)
  next
    case False
    then have "map_of (tags c) t' \<noteq> Some a" using registry_inj [OF assms(1,3)] by blast
    then show ?thesis using False l m by (simp add: update_block_nth [OF lt] split: option.split_asm)
  qed
qed

lemma inv_event:
  assumes "sys_inv s" and "map_of (tags (counters s)) t = Some a" and "event (events s) m cn t d"
    and "c = update_block a (add_to cn (of_int d)) (counters s)" and "guards_ok (counters s) m gs"
  shows "sys_inv (sys_did c m gs s)"
proof -
  have "counts_ok c m" unfolding assms(4) using assms by (intro counts_event) (auto simp: sys_inv_def)
  moreover have "log_le (events s) m" using assms(3) by (simp add: event_def)
  ultimately show ?thesis
    using assms reader_mono [of "events s" m c "counters s"]
    by (auto simp: sys_inv_def sys_did_def guards_ok_def)
qed

lemma inv_registered: "sys_inv s \<Longrightarrow> (k, t, a, p) \<in># guards s \<Longrightarrow> map_of (tags (counters s)) t = Some a"
  by (auto simp: sys_inv_def guards_ok_def)

text \<open>A guard that moves on to another phase, with the event of its step.\<close>

lemma guards_move:
  assumes "guards_ok c l gs" and g: "(k, t, a, p) \<in># gs" and "event l m cn t d"
    and "p' \<noteq> Held" and "p = Held \<longrightarrow> cn = active_of k \<and> d = 1" and "p \<noteq> Held \<longrightarrow> (\<forall>k. cn \<noteq> active_of k)"
  shows "guards_ok c m (add_mset (k, t, a, p') (gs - {#(k, t, a, p)#}))"
proof -
  obtain gs' where gs: "gs = add_mset (k, t, a, p) gs'" using g by (metis insert_DiffM)
  have "active_of k' = active_of k'' \<longleftrightarrow> k' = k''" for k' k'' by (cases k'; cases k'') (simp_all add: active_of_def)
  then have "tally m m (active_of k') t' = int (size (filter_mset (counted k' t') (add_mset (k, t, a, p') gs')))" for k' t'
    using assms by (cases "p = Held") (auto simp: guards_ok_def event_def gs counted_def)
  then show ?thesis using assms(1) by (auto simp: guards_ok_def gs)
qed

lemma guards_close:
  assumes "guards_ok c l gs" and g: "(k, t, a, p) \<in># gs" and "event l m (active_of k) t (- 1)" and "p \<noteq> Held"
  shows "guards_ok c m (gs - {#(k, t, a, p)#})"
proof -
  obtain gs' where gs: "gs = add_mset (k, t, a, p) gs'" using g by (metis insert_DiffM)
  have "active_of k' = active_of k'' \<longleftrightarrow> k' = k''" for k' k'' by (cases k'; cases k'') (simp_all add: active_of_def)
  then have "tally m m (active_of k') t' = int (size (filter_mset (counted k' t') gs'))" for k' t'
    using assms by (auto simp: guards_ok_def event_def gs counted_def)
  then show ?thesis using assms(1) by (auto simp: guards_ok_def gs)
qed

lemma guards_held: "guards_ok c l gs \<Longrightarrow> map_of (tags c) t = Some a \<Longrightarrow> guards_ok c l (add_mset (k, t, a, Held) gs)"
  by (auto simp: guards_ok_def counted_def)

lemma tag_write_ok:
  assumes "registry_ok c" and "counts_ok c l" and "guards_ok c l gs" and "tag_write c t = (a, c')"
  shows "registry_ok c' \<and> counts_ok c' l \<and> guards_ok c' l gs \<and> map_of (tags c') t = Some a"
proof (cases "map_of (tags c) t")
  case None
  let ?n = "length (blocks c)"
  have c': "a = ?n" "c' = c\<lparr>tags := tags c @ [(t, ?n)], blocks := blocks c @ [TagStats_default]\<rparr>"
    using None assms(4) by (auto simp: tag_write_def)
  have look: "map_of (tags c') u = (if u = t then Some ?n else map_of (tags c) u)" for u
    using None by (auto simp: c' map_add_def split: option.splits)
  have "registry_ok c'"
    using assms(1) None by (auto simp: registry_ok_def c' map_of_eq_None_iff)
  moreover have "counts_ok c' l"
    unfolding counts_ok_def
  proof (intro allI)
    fix u cn
    have "case map_of (tags c) u of Some b \<Rightarrow> load_u64 cn (blocks c ! b) = of_int (tally l l cn u)
      | None \<Rightarrow> tally l l cn u = 0" using assms(2) by (simp add: counts_ok_def)
    then show "case map_of (tags c') u of Some b \<Rightarrow> load_u64 cn (blocks c' ! b) = of_int (tally l l cn u)
      | None \<Rightarrow> tally l l cn u = 0"
      using None registry_block [OF assms(1), of u] look [of u] by (auto simp: c' nth_append split: option.splits if_splits)
  qed
  moreover have "guards_ok c' l gs" using assms(3) None look by (fastforce simp: guards_ok_def)
  ultimately show ?thesis using look c'(1) by simp
next
  case (Some b)
  then show ?thesis using assms by (simp add: tag_write_def)
qed

lemma active_neq [simp]: "total_of k \<noteq> active_of k'" "Bytes_up \<noteq> active_of k'" "Bytes_down \<noteq> active_of k'" "Errors \<noteq> active_of k'"
  "active_of k' \<noteq> Errors"
  by (cases k; cases k'; simp add: total_of_def active_of_def)+

lemma sys_inv_step: "sys_step s s' \<Longrightarrow> sys_inv s \<Longrightarrow> sys_inv s'"
proof (induction rule: sys_step.induct)
  case (lookup_hit s t a k)
  then show ?case by (auto simp: sys_inv_def tag_read_def intro: guards_held)
next
  case (lookup_miss s t k)
  then show ?case by (simp add: sys_inv_def)
next
  case (insert_tag k t s a c)
  then have "registry_ok c \<and> counts_ok c (events s) \<and> guards_ok c (events s) (guards s) \<and> map_of (tags c) t = Some a"
    by (intro tag_write_ok [OF _ _ _ insert_tag.hyps(3)]) (auto simp: sys_inv_def)
  then show ?case using insert_tag.hyps(2) by (auto simp: sys_inv_def intro: guards_held)
next
  case (add_active k t a s)
  show ?case
    by (rule inv_event [OF add_active.prems inv_registered [OF add_active.prems add_active.hyps] events(1)],
        simp only: atomic_steps, rule guards_move [OF _ add_active.hyps events(1)])
      (use add_active.prems in \<open>auto simp: sys_inv_def\<close>)
next
  case (add_total k t a s)
  show ?case
    by (rule inv_event [OF add_total.prems inv_registered [OF add_total.prems add_total.hyps] events(2)],
        simp only: atomic_steps, rule guards_move [OF _ add_total.hyps events(2)])
      (use add_total.prems in \<open>auto simp: sys_inv_def\<close>)
next
  case (add_up k t a s up down)
  show ?case
    by (rule inv_event [OF add_up.prems inv_registered [OF add_up.prems add_up.hyps] events(3)],
        simp only: atomic_steps, rule guards_move [OF _ add_up.hyps events(3)])
      (use add_up.prems in \<open>auto simp: sys_inv_def\<close>)
next
  case (add_down k t a down s)
  show ?case
    by (rule inv_event [OF add_down.prems inv_registered [OF add_down.prems add_down.hyps] events(4)],
        simp only: atomic_steps, rule guards_move [OF _ add_down.hyps events(4)])
      (use add_down.prems in \<open>auto simp: sys_inv_def\<close>)
next
  case (failure t a s)
  have "guards_ok (counters s) ((events s)\<lparr>ev_failed := t # ev_failed (events s)\<rparr>) (guards s)"
    using failure.prems events(5) [of "events s" t] by (auto simp: sys_inv_def guards_ok_def event_def)
  then show ?case
    by (intro inv_event [OF failure.prems inv_registered [OF failure.prems failure.hyps] events(5)])
      (simp_all only: atomic_steps)
next
  case (close k t a s)
  show ?case
    by (rule inv_event [OF close.prems inv_registered [OF close.prems close.hyps] events(6)],
        simp only: atomic_steps, rule guards_close [OF _ close.hyps events(6)])
      (use close.prems in \<open>auto simp: sys_inv_def\<close>)
next
  case (begin_read ts s)
  then show ?case using reader_new_ok by (auto simp: sys_inv_def)
next
  case (load r s t a cn rest)
  then have "reader_ok (counters s) (events s) (reader_load (counters s) t a cn r)"
    by (intro reader_load_ok [OF _ _ load.hyps(2)]) (auto simp: sys_inv_def)
  then show ?case using load.prems by (auto simp: sys_inv_def dest: in_diffD)
next
  case (end_read r s)
  then show ?case by (auto simp: sys_inv_def dest: in_diffD)
qed

lemma sys_inv_reachable: "sys_step\<^sup>*\<^sup>* sys_init s \<Longrightarrow> sys_inv s"
proof (induction rule: rtranclp_induct)
  case base
  show ?case
    by (auto simp: sys_inv_def sys_init_def Stats_new_def registry_ok_def guards_ok_def counts_ok_def tally_def
        bytes_of_def active_of_def split: counter.split kind.split)
qed (rule sys_inv_step)

section \<open>Property\<close>

text \<open>
  C8. For every interleaving of the atomic operations (each \<open>fetch_add\<close>, \<open>fetch_sub\<close> and \<open>load\<close> a step of its
  own, each lookup and each locked insertion one step): racing first lookups of a tag never split its
  counters, every thread that holds a block holds the one the registry has for its tag; the active counter
  of a tag is the number of its guards that did their first addition and are not yet dropped; and its TCP
  total, byte and error counters are the TCP guards completed, the bytes added and the errors recorded,
  all modulo \<open>2 ^ 64\<close>. A global snapshot, which loads the counters one at a time while the guards go on, is
  off by no more than what happened meanwhile: once it has loaded everything, its sum of a counter lies
  between the additions before it began minus the drops so far, and the additions so far minus the drops
  before it began. The UDP total is left out: its comment calls it a number of packets.
\<close>

theorem stats_count_open_guards:
  assumes "sys_step\<^sup>*\<^sup>* sys_init s"
  shows "(\<forall>k t a p. (k, t, a, p) \<in># guards s \<longrightarrow> tag_read (counters s) t = Some a)
    \<and> (\<forall>t a. tag_read (counters s) t = Some a \<longrightarrow>
         tcp_active (blocks (counters s) ! a) = of_nat (size {#(k, t', a', p) \<in># guards s. k = TcpG \<and> t' = t \<and> p \<noteq> Held#})
         \<and> udp_active (blocks (counters s) ! a) = of_nat (size {#(k, t', a', p) \<in># guards s. k = UdpG \<and> t' = t \<and> p \<noteq> Held#})
         \<and> tcp_total (blocks (counters s) ! a) = of_nat (count_list (ev_opened (events s)) (TcpG, t))
         \<and> bytes_up (blocks (counters s) ! a) = of_int (bytes_of t (ev_sent (events s)))
         \<and> bytes_down (blocks (counters s) ! a) = of_int (bytes_of t (ev_received (events s)))
         \<and> errors (blocks (counters s) ! a) = of_nat (count_list (ev_failed (events s)) t))
    \<and> (\<forall>r cn. r \<in># readers s \<longrightarrow> rd_todo r = [] \<longrightarrow> cn \<noteq> Udp_total \<longrightarrow>
         (\<exists>n. load_u64 cn (rd_acc r) = of_int n
            \<and> (\<Sum>t\<leftarrow>map fst (tags (counters s)). tally (rd_log r) (events s) cn t) \<le> n
            \<and> n \<le> (\<Sum>t\<leftarrow>map fst (tags (counters s)). tally (events s) (rd_log r) cn t)))"
proof -
  have inv: "sys_inv s" by (rule sys_inv_reachable [OF assms])
  have val: "load_u64 cn (blocks (counters s) ! a) = of_int (tally (events s) (events s) cn t)"
    if "tag_read (counters s) t = Some a" for t a cn
    using inv that by (auto simp: sys_inv_def counts_ok_def tag_read_def split: option.splits)
  have act: "tally (events s) (events s) (active_of k) t = int (size (filter_mset (counted k t) (guards s)))" for k t
    using inv by (simp add: sys_inv_def guards_ok_def)
  have cnt: "counted k t = (\<lambda>(k', t', a', p). k' = k \<and> t' = t \<and> p \<noteq> Held)" for k t
    by (auto simp: counted_def fun_eq_iff)
  have "tcp_active (blocks (counters s) ! a) = of_nat (size {#(k, t', a', p) \<in># guards s. k = TcpG \<and> t' = t \<and> p \<noteq> Held#})
      \<and> udp_active (blocks (counters s) ! a) = of_nat (size {#(k, t', a', p) \<in># guards s. k = UdpG \<and> t' = t \<and> p \<noteq> Held#})"
    if "tag_read (counters s) t = Some a" for t a
    using val [OF that, of Tcp_active] val [OF that, of Udp_active] act [of TcpG t] act [of UdpG t]
    by (simp add: load_u64_def active_of_def cnt)
  moreover have "tcp_total (blocks (counters s) ! a) = of_nat (count_list (ev_opened (events s)) (TcpG, t))
      \<and> bytes_up (blocks (counters s) ! a) = of_int (bytes_of t (ev_sent (events s)))
      \<and> bytes_down (blocks (counters s) ! a) = of_int (bytes_of t (ev_received (events s)))
      \<and> errors (blocks (counters s) ! a) = of_nat (count_list (ev_failed (events s)) t)"
    if "tag_read (counters s) t = Some a" for t a
    using val [OF that, of Tcp_total] val [OF that, of Bytes_up] val [OF that, of Bytes_down] val [OF that, of Errors]
    by (simp add: load_u64_def tally_def)
  moreover have "between (rd_log r) (events s) cn (map fst (tags (counters s))) (load_u64 cn (rd_acc r))"
    if "r \<in># readers s" "rd_todo r = []" for r cn
    using inv that by (intro reader_done) (auto simp: sys_inv_def)
  ultimately show ?thesis using inv_registered [OF inv] by (simp add: tag_read_def between_def)
qed

text \<open>Two threads race for a new tag, both miss, both insert, and one of them has done its first addition.\<close>

definition race_state :: sys where
  "race_state = sys_did (guard_new1 TcpG 0 (snd (tag_write Stats_new ''p'')))
     ((events sys_init)\<lparr>ev_started := [(TcpG, ''p'')]\<rparr>) {#(TcpG, ''p'', 0, Counted), (TcpG, ''p'', 0, Held)#} sys_init"

lemma race_state_reachable: "sys_step\<^sup>*\<^sup>* sys_init race_state"
proof -
  let ?c = "snd (tag_write Stats_new ''p'')"
  let ?s1 = "sys_init\<lparr>missed := {#(TcpG, ''p'')#}\<rparr>" and ?s2 = "sys_init\<lparr>missed := {#(TcpG, ''p''), (TcpG, ''p'')#}\<rparr>"
  let ?s3 = "sys_init\<lparr>counters := ?c, missed := {#(TcpG, ''p'')#}, guards := {#(TcpG, ''p'', 0, Held)#}\<rparr>"
  let ?s4 = "sys_init\<lparr>counters := ?c, guards := {#(TcpG, ''p'', 0, Held), (TcpG, ''p'', 0, Held)#}\<rparr>"
  have "sys_step sys_init ?s1"
    using sys_step.lookup_miss [of sys_init "''p''" TcpG] by (simp add: sys_init_def Stats_new_def tag_read_def)
  moreover have "sys_step ?s1 ?s2"
    using sys_step.lookup_miss [of ?s1 "''p''" TcpG] by (simp add: sys_init_def Stats_new_def tag_read_def)
  moreover have "sys_step ?s2 ?s3"
    using sys_step.insert_tag [of TcpG "''p''" ?s2 0 ?c] by (simp add: sys_init_def Stats_new_def tag_write_def)
  moreover have "sys_step ?s3 ?s4"
    using sys_step.insert_tag [of TcpG "''p''" ?s3 0 ?c] by (simp add: sys_init_def Stats_new_def tag_write_def)
  moreover have "sys_step ?s4 race_state"
    using sys_step.add_active [of TcpG "''p''" 0 ?s4] by (simp add: sys_init_def race_state_def sys_did_def)
  ultimately show ?thesis by (meson converse_rtranclp_into_rtranclp rtranclp.rtrancl_refl)
qed

theorem stats_count_open_guards_witness:
  "tcp_active (blocks (counters race_state) ! 0) = 1 \<and> tcp_total (blocks (counters race_state) ! 0) = 0"
proof -
  have "tag_read (counters race_state) ''p'' = Some 0"
    by (simp add: race_state_def sys_did_def sys_init_def tag_read_def guard_new1_def atomic_defs tag_write_def Stats_new_def)
  moreover have "guards race_state = {#(TcpG, ''p'', 0, Counted), (TcpG, ''p'', 0, Held)#}"
    and "ev_opened (events race_state) = []"
    by (simp_all add: race_state_def sys_did_def sys_init_def)
  ultimately show ?thesis using stats_count_open_guards [OF race_state_reachable] by simp
qed

end
