(* ===== verification/Conn_Tracker.thy ===== *)
theory Conn_Tracker
  imports Rust_Std "HOL-Library.AList"
begin

text \<open>
  The table of live connections (\<open>ConnectionTracker\<close> of \<open>src/app/clash_api.rs\<close>): identifiers from an
  atomic counter that wraps at \<open>2 ^ 64\<close>, one entry per connection, removed when its guard is dropped or
  through the API. The byte counters of an entry are shared with the relay through \<open>Arc\<close>s: they live in
  \<open>cells\<close> and an \<open>Arc\<close> is an index into it.
\<close>

section \<open>The tracker\<close>

record RuleInfo =
  ri_type :: string
  ri_payload :: string

record ConnInfo =
  ci_network :: string
  ci_host :: string
  ci_source :: SocketAddr
  ci_dest_port :: u16
  ci_inbound :: string
  ci_outbound :: string

record ConnMeta =
  m_id :: u64
  m_network :: string
  m_host :: string
  m_source_ip :: string
  m_source_port :: u16
  m_dest_port :: u16
  m_inbound :: string
  m_outbound :: string
  m_rule :: string
  m_rule_payload :: string
  m_started_ms :: u64
  m_upload :: nat
  m_download :: nat

record ConnectionTracker =
  next_id :: u64
  conns :: "(u64 \<times> ConnMeta) list"
  cells :: "u64 list"

definition ConnectionTracker_new :: ConnectionTracker where
  "ConnectionTracker_new = \<lparr>next_id = 1, conns = [], cells = []\<rparr>"

text \<open>\<open>show_ip\<close> is \<open>IpAddr::to_string\<close>, \<open>now\<close> the wall clock in milliseconds. The result is the
  identifier the guard holds.\<close>

definition register :: "(IpAddr \<Rightarrow> string) \<Rightarrow> u64 \<Rightarrow> ConnInfo \<Rightarrow> RuleInfo \<Rightarrow> ConnectionTracker \<Rightarrow> u64 \<times> ConnectionTracker" where
  "register show_ip now info rule_info t =
     (let i = next_id t;
          meta = \<lparr>m_id = i, m_network = ci_network info, m_host = ci_host info,
                  m_source_ip = show_ip (sa_ip (ci_source info)), m_source_port = sa_port (ci_source info),
                  m_dest_port = ci_dest_port info, m_inbound = ci_inbound info, m_outbound = ci_outbound info,
                  m_rule = ri_type rule_info, m_rule_payload = ri_payload rule_info, m_started_ms = now,
                  m_upload = length (cells t), m_download = length (cells t) + 1\<rparr>
      in (i, t\<lparr>next_id := i + 1, conns := AList.update i meta (conns t), cells := cells t @ [0, 0]\<rparr>))"

definition tracker_remove :: "u64 \<Rightarrow> ConnectionTracker \<Rightarrow> ConnectionTracker" where
  "tracker_remove i t = t\<lparr>conns := AList.delete i (conns t)\<rparr>"

definition tracker_get :: "u64 \<Rightarrow> ConnectionTracker \<Rightarrow> ConnMeta option" where
  "tracker_get i t = map_of (conns t) i"

definition tracker_snapshot :: "ConnectionTracker \<Rightarrow> ConnMeta list" where
  "tracker_snapshot t = map snd (conns t)"

definition tracker_len :: "ConnectionTracker \<Rightarrow> nat" where
  "tracker_len t = length (conns t)"

definition remove_by_id :: "u64 \<Rightarrow> ConnectionTracker \<Rightarrow> ConnectionTracker" where
  "remove_by_id i t = t\<lparr>conns := AList.delete i (conns t)\<rparr>"

definition ConnGuard_drop :: "u64 \<Rightarrow> ConnectionTracker \<Rightarrow> ConnectionTracker" where
  "ConnGuard_drop i t = tracker_remove i t"

definition add_cell :: "nat \<Rightarrow> u64 \<Rightarrow> ConnectionTracker \<Rightarrow> ConnectionTracker" where
  "add_cell a n t = t\<lparr>cells := (cells t)[a := cells t ! a + n]\<rparr>"

definition ConnGuard_add_bytes :: "u64 \<Rightarrow> u64 \<Rightarrow> u64 \<Rightarrow> ConnectionTracker \<Rightarrow> ConnectionTracker" where
  "ConnGuard_add_bytes i up down t =
     (case tracker_get i t of
        Some m \<Rightarrow> add_cell (m_download m) down (add_cell (m_upload m) up t)
      | None \<Rightarrow> t)"

definition live_counters :: "u64 \<Rightarrow> ConnectionTracker \<Rightarrow> (nat \<times> nat) option" where
  "live_counters i t = map_option (\<lambda>m. (m_upload m, m_download m)) (tracker_get i t)"

section \<open>All interleavings\<close>

text \<open>
  Connections register, transfer bytes and end, and the API removes entries, in any order.
  \<open>open_ids\<close> are the guards not yet dropped, \<open>kicked\<close> those whose entry the API removed, \<open>issued\<close> the
  number of registrations.
\<close>

record track =
  tracker :: ConnectionTracker
  open_ids :: "u64 list"
  kicked :: "u64 list"
  issued :: nat

definition track_init :: track where
  "track_init = \<lparr>tracker = ConnectionTracker_new, open_ids = [], kicked = [], issued = 0\<rparr>"

inductive track_step :: "track \<Rightarrow> track \<Rightarrow> bool" where
  registered: "register show_ip now info rule (tracker s) = (i, t') \<Longrightarrow>
    track_step s (s\<lparr>tracker := t', open_ids := i # open_ids s, issued := Suc (issued s)\<rparr>)"
| transferred: "i \<in> set (open_ids s) \<Longrightarrow> track_step s (s\<lparr>tracker := ConnGuard_add_bytes i up down (tracker s)\<rparr>)"
| ended: "i \<in> set (open_ids s) \<Longrightarrow>
    track_step s (s\<lparr>tracker := ConnGuard_drop i (tracker s), open_ids := remove1 i (open_ids s)\<rparr>)"
| removed: "track_step s (s\<lparr>tracker := remove_by_id i (tracker s),
    kicked := (if i \<in> set (open_ids s) then i # kicked s else kicked s)\<rparr>)"

definition ids_of :: "nat \<Rightarrow> u64 set" where
  "ids_of n = of_nat ` {1 .. n}"

text \<open>An entry is filed under its own identifier and shares no counter with another entry.\<close>

definition entries_ok :: "(u64 \<times> ConnMeta) set \<Rightarrow> nat \<Rightarrow> bool" where
  "entries_ok E n \<longleftrightarrow>
     (\<forall>i m. (i, m) \<in> E \<longrightarrow> m_id m = i \<and> m_upload m < m_download m \<and> m_download m < n)
     \<and> (\<forall>i m j m'. (i, m) \<in> E \<and> (j, m') \<in> E \<and> i \<noteq> j \<longrightarrow>
          m_upload m \<noteq> m_upload m' \<and> m_upload m \<noteq> m_download m' \<and> m_download m \<noteq> m_download m')"

definition track_inv :: "track \<Rightarrow> bool" where
  "track_inv s \<longleftrightarrow>
     next_id (tracker s) = of_nat (Suc (issued s))
     \<and> distinct (open_ids s) \<and> set (open_ids s) \<subseteq> ids_of (issued s) \<and> set (kicked s) \<subseteq> ids_of (issued s)
     \<and> distinct (map fst (conns (tracker s)))
     \<and> set (map fst (conns (tracker s))) = set (open_ids s) - set (kicked s)
     \<and> entries_ok (set (conns (tracker s))) (length (cells (tracker s)))"

lemma entries_ok_mono: "entries_ok E n \<Longrightarrow> E' \<subseteq> E \<Longrightarrow> n \<le> n' \<Longrightarrow> entries_ok E' n'"
  unfolding entries_ok_def by (meson order_less_le_trans subsetD)

lemma entries_ok_insert:
  assumes "entries_ok E n" and "m_id m = i" and "m_upload m = n" and "m_download m = n + 1"
  shows "entries_ok (insert (i, m) E) (n + 2)"
proof -
  have old: "m_upload m' < n \<and> m_download m' < n" if "(j, m') \<in> E" for j m'
    using assms(1) that unfolding entries_ok_def by (meson order_less_trans)
  have new: "m_upload m \<noteq> m_upload m' \<and> m_upload m \<noteq> m_download m' \<and> m_download m \<noteq> m_upload m' \<and> m_download m \<noteq> m_download m'"
    if "(j, m') \<in> E" for j m'
    using old [OF that] assms(3,4) by auto
  have pairs: "m_upload p \<noteq> m_upload q \<and> m_upload p \<noteq> m_download q \<and> m_download p \<noteq> m_download q"
    if "(j, p) \<in> insert (i, m) E" "(k, q) \<in> insert (i, m) E" "j \<noteq> k" for j p k q
    using that assms(1) new unfolding entries_ok_def by (elim insertE; metis prod.inject)
  have "m_id p = j \<and> m_upload p < m_download p \<and> m_download p < n + 2" if "(j, p) \<in> insert (i, m) E" for j p
    using that assms unfolding entries_ok_def by (auto simp: less_SucI)
  with pairs show ?thesis unfolding entries_ok_def by blast
qed

lemma fresh_id: "Suc n < 2 ^ 64 \<Longrightarrow> (of_nat (Suc n) :: u64) \<notin> ids_of n"
proof
  assume n: "Suc n < 2 ^ 64" and "(of_nat (Suc n) :: u64) \<in> ids_of n"
  then obtain m where m: "m \<le> n" "(of_nat (Suc n) :: u64) = of_nat m" by (auto simp: ids_of_def)
  have "unat (of_nat (Suc n) :: u64) = Suc n" "unat (of_nat m :: u64) = m"
    using n m(1) by (simp_all add: unsigned_of_nat take_bit_nat_eq_self del: of_nat_Suc)
  then show False using m by simp
qed

lemma ids_of_Suc: "ids_of (Suc n) = insert (of_nat (Suc n)) (ids_of n)"
  by (simp add: ids_of_def atLeastAtMostSuc_conv)

lemma update_fresh: "i \<notin> set (map fst al) \<Longrightarrow> AList.update i m al = al @ [(i, m)]"
  by (induction al) auto

lemma add_bytes_frame [simp]:
  "next_id (ConnGuard_add_bytes i up down t) = next_id t"
  "conns (ConnGuard_add_bytes i up down t) = conns t"
  "length (cells (ConnGuard_add_bytes i up down t)) = length (cells t)"
  by (simp_all add: ConnGuard_add_bytes_def add_cell_def split: option.splits)

lemma set_delete: "x \<in> set (AList.delete i al) \<longleftrightarrow> x \<in> set al \<and> fst x \<noteq> i"
  by (auto simp: AList.delete_eq)

lemma fst_delete: "set (map fst (AList.delete i al)) = set (map fst al) - {i}"
  by (force simp: AList.delete_eq)

lemma inv_delete:
  assumes "track_inv s" and "distinct ids" and "set ids \<subseteq> set (open_ids s)" and "set ks \<subseteq> ids_of (issued s)"
    and "set ids - set ks = set (open_ids s) - set (kicked s) - {i}"
  shows "track_inv (s\<lparr>tracker := (tracker s)\<lparr>conns := AList.delete i (conns (tracker s))\<rparr>, open_ids := ids, kicked := ks\<rparr>)"
proof -
  have "entries_ok (set (AList.delete i (conns (tracker s)))) (length (cells (tracker s)))"
    using assms(1) by (auto simp: track_inv_def set_delete elim: entries_ok_mono)
  then show ?thesis
    using assms fst_delete [of i "conns (tracker s)"] by (auto simp: track_inv_def AList.distinct_delete)
qed

lemma inv_register:
  assumes "track_inv s" and "register show_ip now info rule (tracker s) = (i, t')" and "Suc (issued s) < 2 ^ 64"
  shows "track_inv (s\<lparr>tracker := t', open_ids := i # open_ids s, issued := Suc (issued s)\<rparr>)"
proof -
  let ?t = "tracker s"
  have i: "i = of_nat (Suc (issued s))" "i \<notin> ids_of (issued s)"
    using assms fresh_id [OF assms(3)] by (auto simp: register_def track_inv_def Let_def)
  then have fresh: "i \<notin> set (map fst (conns ?t))" "i \<notin> set (open_ids s)" "i \<notin> set (kicked s)"
    using assms(1) by (auto simp: track_inv_def)
  obtain m where t': "t' = ?t\<lparr>next_id := i + 1, conns := conns ?t @ [(i, m)], cells := cells ?t @ [0, 0]\<rparr>"
    and m: "m_id m = i" "m_upload m = length (cells ?t)" "m_download m = length (cells ?t) + 1"
    using assms(2) update_fresh [OF fresh(1)] by (auto simp: register_def Let_def)
  have "entries_ok (set (conns t')) (length (cells t'))"
    using entries_ok_insert [of _ _ m i] assms(1) m by (simp add: track_inv_def t')
  then show ?thesis
    using assms(1) fresh i by (auto simp: track_inv_def t' ids_of_Suc)
qed

lemma issued_mono: "track_step s s' \<Longrightarrow> issued s \<le> issued s'"
  by (induction rule: track_step.induct) simp_all

lemma track_inv_step:
  assumes "track_step s s'" and "issued s' < 2 ^ 64" and "track_inv s"
  shows "track_inv s'"
  using assms
proof (induction rule: track_step.induct)
  case (registered show_ip now info rule s i t')
  then show ?case using inv_register by simp
next
  case (transferred i s up down)
  then show ?case by (simp add: track_inv_def)
next
  case (ended i s)
  have "distinct (open_ids s)" using ended.prems(2) by (simp add: track_inv_def)
  then show ?case
    using inv_delete [OF ended.prems(2), of "remove1 i (open_ids s)" "kicked s" i] ended.prems(2)
    by (auto simp: ConnGuard_drop_def tracker_remove_def set_remove1_eq track_inv_def [of s])
next
  case (removed s i)
  let ?ks = "if i \<in> set (open_ids s) then i # kicked s else kicked s"
  have "track_inv (s\<lparr>tracker := (tracker s)\<lparr>conns := AList.delete i (conns (tracker s))\<rparr>, open_ids := open_ids s, kicked := ?ks\<rparr>)"
    by (rule inv_delete [OF removed.prems(2)]) (use removed.prems(2) in \<open>auto simp: track_inv_def\<close>)
  then show ?case by (simp add: remove_by_id_def)
qed

lemma track_inv_reachable: "track_step\<^sup>*\<^sup>* track_init s \<Longrightarrow> issued s < 2 ^ 64 \<Longrightarrow> track_inv s"
proof (induction rule: rtranclp_induct)
  case base
  show ?case by (simp add: track_inv_def track_init_def ConnectionTracker_new_def ids_of_def entries_ok_def)
next
  case (step s s')
  then show ?case using issued_mono [OF step.hyps(2)] by (auto intro: track_inv_step)
qed

section \<open>Property\<close>

text \<open>
  C9. While fewer than \<open>2 ^ 64\<close> connections were registered, for every interleaving of registrations,
  transfers, ends and removals through the API: the table lists exactly the connections that are open
  and were not removed, each once and under its own identifier, so an identifier is never reused for a
  live connection; and no two connections share a byte counter.
\<close>

theorem tracker_lists_live_connections:
  assumes "track_step\<^sup>*\<^sup>* track_init s" and "issued s < 2 ^ 64"
  shows "tracker_len (tracker s) = card (set (open_ids s) - set (kicked s))
    \<and> (\<forall>i. tracker_get i (tracker s) \<noteq> None \<longleftrightarrow> i \<in> set (open_ids s) \<and> i \<notin> set (kicked s))
    \<and> (\<forall>i m. tracker_get i (tracker s) = Some m \<longrightarrow> m_id m = i)
    \<and> (\<forall>i j a b c d. i \<noteq> j \<and> live_counters i (tracker s) = Some (a, b) \<and> live_counters j (tracker s) = Some (c, d)
         \<longrightarrow> distinct [a, b, c, d])"
proof -
  let ?cs = "conns (tracker s)"
  have inv: "track_inv s" by (rule track_inv_reachable [OF assms])
  then have d: "distinct (map fst ?cs)" and k: "set (map fst ?cs) = set (open_ids s) - set (kicked s)"
    and e: "entries_ok (set ?cs) (length (cells (tracker s)))" by (auto simp: track_inv_def)
  have "tracker_len (tracker s) = card (set (open_ids s) - set (kicked s))"
    using distinct_card [OF d] by (simp add: tracker_len_def flip: k)
  moreover have "tracker_get i (tracker s) \<noteq> None \<longleftrightarrow> i \<in> set (open_ids s) \<and> i \<notin> set (kicked s)" for i
    using k by (auto simp: tracker_get_def map_of_eq_None_iff simp del: not_None_eq)
  moreover have "m_id m = i" if "tracker_get i (tracker s) = Some m" for i m
    using e that map_of_SomeD unfolding entries_ok_def tracker_get_def by fastforce
  moreover have "distinct [a, b, c, e]"
    if ij: "i \<noteq> j" and i: "live_counters i (tracker s) = Some (a, b)" and j: "live_counters j (tracker s) = Some (c, e)" for i j a b c e
  proof -
    obtain m m' where m: "(i, m) \<in> set ?cs" "a = m_upload m" "b = m_download m"
      and m': "(j, m') \<in> set ?cs" "c = m_upload m'" "e = m_download m'"
      using i j by (auto simp: live_counters_def tracker_get_def dest!: map_of_SomeD)
    have "m_upload m < m_download m" "m_upload m' < m_download m'"
      and "m_upload m \<noteq> m_upload m'" "m_upload m \<noteq> m_download m'" "m_download m \<noteq> m_download m'" "m_upload m' \<noteq> m_download m"
      using \<open>entries_ok (set ?cs) (length (cells (tracker s)))\<close> m(1) m'(1) ij unfolding entries_ok_def by blast+
    then show ?thesis using m m' by auto
  qed
  ultimately show ?thesis by blast
qed

text \<open>Two connections; the API removes the first, then both end.\<close>

definition demo_info :: ConnInfo where
  "demo_info = \<lparr>ci_network = ''tcp'', ci_host = ''a'', ci_source = \<lparr>sa_ip = V4 0, sa_port = 1\<rparr>, ci_dest_port = 443,
     ci_inbound = ''in'', ci_outbound = ''out''\<rparr>"

definition demo_open :: "track \<Rightarrow> track" where
  "demo_open s =
     (let (i, t') = register (\<lambda>_. ''ip'') 0 demo_info \<lparr>ri_type = ''MATCH'', ri_payload = []\<rparr> (tracker s)
      in s\<lparr>tracker := t', open_ids := i # open_ids s, issued := Suc (issued s)\<rparr>)"

lemma demo_open_step: "track_step s (demo_open s)"
  unfolding demo_open_def by (auto simp: track_step.registered split: prod.splits)

theorem tracker_lists_live_connections_witness:
  "tracker_len (tracker ((demo_open (demo_open track_init))\<lparr>tracker := remove_by_id 1 (tracker (demo_open (demo_open track_init))),
     kicked := [1]\<rparr>)) = 1"
proof -
  let ?s = "demo_open (demo_open track_init)"
  let ?s' = "?s\<lparr>tracker := remove_by_id 1 (tracker ?s), kicked := [1]\<rparr>"
  have o: "open_ids ?s = [2, 1]" "kicked ?s = []" "issued ?s = 2" by code_simp+
  have "track_step ?s ?s'" using track_step.removed [of ?s 1] o by simp
  then have "track_step\<^sup>*\<^sup>* track_init ?s'"
    using demo_open_step by (meson rtranclp.rtrancl_into_rtrancl rtranclp.rtrancl_refl)
  then have "tracker_len (tracker ?s') = card (set (open_ids ?s') - set (kicked ?s'))"
    using tracker_lists_live_connections [of ?s'] o(3) by simp
  then show ?thesis using o by simp
qed

end
