(* ===== verification/Dispatcher.thy ===== *)
theory Dispatcher
  imports Router Sniff Stats Conn_Tracker
begin

text \<open>
  The dispatcher (\<open>src/app/dispatcher.rs\<close>): from a connection or packet to a settled routing action
  (FakeIP restoration, routing, sniffing, resolving, re-routing), the table of UDP sessions, and the
  dispatch of a settled action with its statistics. The resolver, the outbounds and the clock are
  arguments. \<open>None\<close> is a panic.
\<close>

section \<open>Settling a TCP connection (\<open>run_tcp\<close>)\<close>

record dns_ops =
  lookup_fakeip :: "IpAddr \<Rightarrow> string option"
  resolve_domain :: "string \<Rightarrow> string + IpAddr"
  resolve_domain_via :: "string \<Rightarrow> string \<Rightarrow> string + IpAddr"

fun restore_fakeip :: "dns_ops \<Rightarrow> Target \<Rightarrow> Target" where
  "restore_fakeip ops (Socket a) =
     (case lookup_fakeip ops (sa_ip a) of Some d \<Rightarrow> Domain d (sa_port a) | None \<Rightarrow> Socket a)"
| "restore_fakeip ops (Domain d p) = Domain d p"

definition apply_sniff :: "bool \<Rightarrow> SniffResult option \<Rightarrow> InboundTcpStream \<Rightarrow> InboundTcpStream" where
  "apply_sniff override_destination res conn =
     (case res of
        None \<Rightarrow> conn
      | Some r \<Rightarrow>
          (let port = target_port (tcp_target conn);
               conn = (if tcp_sniffed_protocol conn = None then conn\<lparr>tcp_sniffed_protocol := Some (s_protocol r)\<rparr> else conn)
           in case s_domain r of
                None \<Rightarrow> conn
              | Some d \<Rightarrow> if override_destination then conn\<lparr>tcp_target := Domain d port\<rparr>
                          else conn\<lparr>tcp_sniffed_domain := Some d\<rparr>))"

definition detect_tcp_dns :: "InboundTcpStream \<Rightarrow> InboundTcpStream option" where
  "detect_tcp_dns conn =
     (if target_port (tcp_target conn) = 53 \<and> tcp_sniffed_protocol conn = None
         \<and> 14 \<le> length (prefix_bytes (stream conn))
      then case is_dns_wire (drop 2 (prefix_bytes (stream conn))) of
             None \<Rightarrow> None
           | Some b \<Rightarrow> Some (if b then conn\<lparr>tcp_sniffed_protocol := Some ''dns''\<rparr> else conn)
      else Some conn)"

definition sniff_conn :: "nat \<Rightarrow> bool \<Rightarrow> SniffType list \<Rightarrow> InboundTcpStream \<Rightarrow> InboundTcpStream option" where
  "sniff_conn arrives override_destination sniff_types conn =
     (case sniff (stream conn) arrives sniff_types of
        None \<Rightarrow> None
      | Some (res, st) \<Rightarrow> detect_tcp_dns (apply_sniff override_destination res (conn\<lparr>stream := st\<rparr>)))"

text \<open>The target of the second search: the resolved address, or the target itself when it is an
  address already or the lookup failed.\<close>

fun resolve_target :: "dns_ops \<Rightarrow> string option \<Rightarrow> Target \<Rightarrow> Target" where
  "resolve_target ops server (Domain host port) =
     (case (case server of Some tg \<Rightarrow> resolve_domain_via ops host tg | None \<Rightarrow> resolve_domain ops host) of
        Inr ip \<Rightarrow> Socket \<lparr>sa_ip = ip, sa_port = port\<rparr>
      | Inl e \<Rightarrow> Domain host port)"
| "resolve_target ops server (Socket a) = Socket a"

definition after_resolve_tcp ::
  "('f, 'r) crates \<Rightarrow> ('f, 'r) Router \<Rightarrow> dns_ops \<Rightarrow> InboundTcpStream \<Rightarrow> decision \<Rightarrow> decision option" where
  "after_resolve_tcp cr router ops conn d =
     (case fst d of
        Resolve server \<Rightarrow> route_tcp_after_resolve cr router conn (resolve_target ops server (tcp_target conn))
      | _ \<Rightarrow> Some d)"

definition settle_tcp ::
  "('f, 'r) crates \<Rightarrow> ('f, 'r) Router \<Rightarrow> dns_ops \<Rightarrow> nat \<Rightarrow> InboundTcpStream \<Rightarrow> (InboundTcpStream \<times> decision) option" where
  "settle_tcp cr router ops arrives conn0 =
     (let conn = conn0\<lparr>tcp_target := restore_fakeip ops (tcp_target conn0)\<rparr>;
          d = route_tcp cr router conn
      in do {
        (conn, d) \<leftarrow> (case fst d of
             Sniff timeout_ms override_destination sniff_types \<Rightarrow> do {
               conn \<leftarrow> sniff_conn arrives override_destination sniff_types conn;
               d \<leftarrow> route_tcp_after_sniff cr router conn (tcp_target conn);
               Some (conn, d)
             }
           | _ \<Rightarrow> Some (conn, d));
        d \<leftarrow> after_resolve_tcp cr router ops conn d;
        Some (conn, d)
      })"

section \<open>Settling a UDP packet (\<open>run_udp\<close>)\<close>

definition detect_udp_dns :: "InboundUdpPacket \<Rightarrow> InboundUdpPacket option" where
  "detect_udp_dns packet =
     (if udp_sniffed_protocol packet = None
      then map_option (\<lambda>b. if b then packet\<lparr>udp_sniffed_protocol := Some ''dns''\<rparr> else packet) (is_dns_wire (udp_data packet))
      else Some packet)"

definition settle_udp ::
  "('f, 'r) crates \<Rightarrow> ('f, 'r) Router \<Rightarrow> dns_ops \<Rightarrow> InboundUdpPacket \<Rightarrow> (InboundUdpPacket \<times> decision) option" where
  "settle_udp cr router ops packet0 =
     do {
       packet \<leftarrow> detect_udp_dns (packet0\<lparr>udp_target := restore_fakeip ops (udp_target packet0)\<rparr>);
       d \<leftarrow> (let d = route_udp cr router packet
             in case fst d of Sniff _ _ _ \<Rightarrow> route_udp_after_sniff cr router packet | _ \<Rightarrow> Some d);
       d \<leftarrow> (case fst d of
               Resolve server \<Rightarrow> route_udp_after_resolve cr router packet (resolve_target ops server (udp_target packet))
             | _ \<Rightarrow> Some d);
       Some (packet, d)
     }"

section \<open>UDP sessions\<close>

text \<open>Times are in seconds.\<close>

definition UDP_TIMEOUT :: nat where "UDP_TIMEOUT = 300"

definition udp_timeout_for_port :: "u16 \<Rightarrow> nat" where
  "udp_timeout_for_port port =
     (if port = 53 then 10 else if port = 123 then 10 else if port = 3478 then 10 else if port = 443 then 30 else UDP_TIMEOUT)"

type_synonym UdpSessionKey = "SocketAddr \<times> string \<times> string"

text \<open>The sending half of a bounded channel of capacity 64: what the session task has not received
  yet, and whether the task has dropped the receiver.\<close>

record UdpSessionHandle =
  queue :: "bytes list"
  is_closed :: bool
  last_seen :: nat

definition try_send :: "bytes \<Rightarrow> UdpSessionHandle \<Rightarrow> UdpSessionHandle" where
  "try_send data h = (if is_closed h \<or> 64 \<le> length (queue h) then h else h\<lparr>queue := queue h @ [data]\<rparr>)"

type_synonym UdpSessionTable = "UdpSessionKey \<Rightarrow> UdpSessionHandle option"

definition UdpSessionTable_new :: UdpSessionTable where
  "UdpSessionTable_new = Map.empty"

definition get_live :: "UdpSessionKey \<Rightarrow> UdpSessionTable \<Rightarrow> UdpSessionHandle option \<times> UdpSessionTable" where
  "get_live key t =
     (case t key of
        Some h \<Rightarrow> if \<not> is_closed h then (Some h, t) else (None, t(key := None))
      | None \<Rightarrow> (None, t(key := None)))"

definition session_gc :: "nat \<Rightarrow> UdpSessionTable \<Rightarrow> UdpSessionTable" where
  "session_gc now t =
     (\<lambda>key. case t key of
        Some h \<Rightarrow> if \<not> is_closed h \<and> now - last_seen h < UDP_TIMEOUT * 2 then Some h else None
      | None \<Rightarrow> None)"

text \<open>What \<open>run_udp\<close> starts for a packet: a dispatch without a session, nothing (the packet went to a
  live session), or a new session task with its idle timeout.\<close>

datatype udp_effect =
    Dispatch InboundUdpPacket RouteAction
  | Reuse
  | Start InboundUdpPacket string nat

definition session_send ::
  "(SocketAddr \<Rightarrow> string) \<Rightarrow> nat \<Rightarrow> InboundUdpPacket \<Rightarrow> string \<Rightarrow> UdpSessionTable \<Rightarrow> udp_effect \<times> UdpSessionTable" where
  "session_send show_addr now packet outbound_tag t =
     (let key = (udp_src packet, target_display show_addr (udp_target packet), outbound_tag);
          timeout = udp_timeout_for_port (target_port (udp_target packet))
      in case get_live key t of
           (Some h, t) \<Rightarrow> (Reuse, t(key \<mapsto> (try_send (udp_data packet) h)\<lparr>last_seen := now\<rparr>))
         | (None, t) \<Rightarrow>
             (Start packet outbound_tag timeout,
              t(key \<mapsto> try_send (udp_data packet) \<lparr>queue = [], is_closed = False, last_seen = now\<rparr>)))"

definition run_udp_packet ::
  "('f, 'r) crates \<Rightarrow> ('f, 'r) Router \<Rightarrow> dns_ops \<Rightarrow> (SocketAddr \<Rightarrow> string) \<Rightarrow> nat \<Rightarrow> InboundUdpPacket \<Rightarrow> UdpSessionTable
     \<Rightarrow> (udp_effect \<times> UdpSessionTable) option" where
  "run_udp_packet cr router ops show_addr now packet0 t =
     do {
       (packet, d) \<leftarrow> settle_udp cr router ops packet0;
       Some (case fst d of
               Outbound tg \<Rightarrow> session_send show_addr now packet tg t
             | act \<Rightarrow> (Dispatch packet act, t))
     }"

section \<open>Dispatching a settled action\<close>

text \<open>
  The shared state a dispatch task touches. An outbound runs for a whole connection; meanwhile other
  tasks run, so it is a transformer of the shared state that yields the byte counts or an error.
\<close>

record core =
  stats :: Stats
  conn_tracker :: ConnectionTracker

type_synonym tcp_outbound = "InboundTcpStream \<Rightarrow> nat \<times> nat \<Rightarrow> core \<Rightarrow> (string + u64 \<times> u64) \<times> core"

record DnsQuery =
  q_message :: bytes
  q_from :: SocketAddr
  q_inbound_tag :: string

definition any_addr :: SocketAddr where
  "any_addr = \<lparr>sa_ip = V4 0, sa_port = 0\<rparr>"

text \<open>
  DNS over TCP: length-prefixed queries until the end of the stream. \<open>dns\<close> is the resolver behind the
  query channel, with the errors of a closed channel; \<open>can_write\<close> says whether the client still takes
  bytes after what was written so far. The result carries what was written.
\<close>

function handle_dns_tcp ::
  "(DnsQuery \<Rightarrow> string + bytes) \<Rightarrow> (bytes \<Rightarrow> bool) \<Rightarrow> SocketAddr \<Rightarrow> string \<Rightarrow> bytes \<Rightarrow> bytes \<Rightarrow> (string + unit) \<times> bytes" where
  "handle_dns_tcp dns can_write peer itag input out =
     (if length input < 2 then (Inr (), out)
      else
        (let len = unat (u16_of_be (take 2 input)); rest = drop 2 input
         in if 4096 < len then (Inl (''DNS TCP message too large: '' @ show_nat len), out)
            else if length rest < len then (Inl ''early eof'', out)
            else case dns \<lparr>q_message = take len rest, q_from = peer, q_inbound_tag = itag\<rparr> of
                   Inl e \<Rightarrow> (Inl e, out)
                 | Inr resp \<Rightarrow>
                     (let hdr = u16_be (word_of_nat (length resp))
                      in if \<not> can_write out then (Inl ''write'', out)
                         else if \<not> can_write (out @ hdr) then (Inl ''write'', out @ hdr)
                         else handle_dns_tcp dns can_write peer itag (drop len rest) (out @ hdr @ resp))))"
  by pat_completeness auto
termination
  by (relation "measure (\<lambda>(_, _, _, _, input, _). length input)") auto

declare handle_dns_tcp.simps [simp del]

definition dispatch_tcp ::
  "(IpAddr \<Rightarrow> string) \<Rightarrow> (string \<Rightarrow> tcp_outbound option) \<Rightarrow> (DnsQuery \<Rightarrow> string + bytes) \<Rightarrow> (bytes \<Rightarrow> bool) \<Rightarrow> u64
     \<Rightarrow> SocketAddr option \<Rightarrow> InboundTcpStream \<Rightarrow> RouteAction \<Rightarrow> RuleInfo \<Rightarrow> core \<Rightarrow> ((string + unit) \<times> core) option" where
  "dispatch_tcp show_ip mgr dns can_write now peer conn act rule_info c =
     (let source = (case peer of Some a \<Rightarrow> a | None \<Rightarrow> any_addr)
      in case act of
           DnsOut \<Rightarrow>
             (let (a, st) = tag (stats c) ''dns-out'';
                  c = c\<lparr>stats := TcpGuard_new a st\<rparr>;
                  res = fst (handle_dns_tcp dns can_write source (tcp_inbound_tag conn) (pending (stream conn)) []);
                  c = (if isl res then c\<lparr>stats := TcpGuard_record_error a (stats c)\<rparr> else c)
              in Some (res, c\<lparr>stats := TcpGuard_drop a (stats c)\<rparr>))
         | Outbound tg \<Rightarrow>
             (case mgr tg of
                None \<Rightarrow> Some (Inl (''outbound '' @ quoted tg @ '' not found''), c)
              | Some ob \<Rightarrow>
                  (let (a, st) = tag (stats c) tg;
                       c = c\<lparr>stats := TcpGuard_new a st\<rparr>;
                       (i, tr) = register show_ip now
                         \<lparr>ci_network = ''tcp'', ci_host = target_host show_ip (tcp_target conn), ci_source = source,
                          ci_dest_port = target_port (tcp_target conn), ci_inbound = tcp_inbound_tag conn, ci_outbound = tg\<rparr>
                         rule_info (conn_tracker c);
                       (live, tr) = (case live_counters i tr of
                           Some l \<Rightarrow> (l, tr)
                         | None \<Rightarrow> ((length (cells tr), length (cells tr) + 1), tr\<lparr>cells := cells tr @ [0, 0]\<rparr>));
                       (res, c) = ob conn live (c\<lparr>conn_tracker := tr\<rparr>);
                       c = (case res of
                              Inr (up, down) \<Rightarrow> c\<lparr>stats := TcpGuard_add_bytes a up down (stats c)\<rparr>
                            | Inl e \<Rightarrow> c\<lparr>stats := TcpGuard_record_error a (stats c)\<rparr>);
                       c = c\<lparr>conn_tracker := ConnGuard_drop i (conn_tracker c)\<rparr>
                   in Some (map_sum id (\<lambda>_. ()) res, c\<lparr>stats := TcpGuard_drop a (stats c)\<rparr>)))
         | Sniff _ _ _ \<Rightarrow> None
         | Resolve _ \<Rightarrow> None)"

definition handle_dns_udp ::
  "(DnsQuery \<Rightarrow> string + bytes) \<Rightarrow> InboundUdpPacket \<Rightarrow> string + (bytes \<times> SocketAddr \<times> SocketAddr)" where
  "handle_dns_udp dns packet =
     res_bind (dns \<lparr>q_message = udp_data packet, q_from = udp_src packet, q_inbound_tag = udp_inbound_tag packet\<rparr>)
       (\<lambda>resp. Inr (resp, udp_src packet, to_socket_addr_lossy (udp_target packet)))"

type_synonym udp_outbound = "InboundUdpPacket \<Rightarrow> core \<Rightarrow> (string + unit) \<times> core"

text \<open>The replies sent to the client, and the shared state.\<close>

definition dispatch_udp ::
  "(IpAddr \<Rightarrow> string) \<Rightarrow> (string \<Rightarrow> udp_outbound option) \<Rightarrow> (DnsQuery \<Rightarrow> string + bytes) \<Rightarrow> u64
     \<Rightarrow> InboundUdpPacket \<Rightarrow> RouteAction \<Rightarrow> RuleInfo \<Rightarrow> core
     \<Rightarrow> (string + unit) \<times> (bytes \<times> SocketAddr \<times> SocketAddr) list \<times> core" where
  "dispatch_udp show_ip mgr dns now packet act rule_info c =
     (case act of
        DnsOut \<Rightarrow>
          (let (a, st) = tag (stats c) ''dns-out'';
               c = c\<lparr>stats := UdpGuard_new a st\<rparr>;
               res = handle_dns_udp dns packet
           in (map_sum id (\<lambda>_. ()) res, (case res of Inr r \<Rightarrow> [r] | Inl _ \<Rightarrow> []), c\<lparr>stats := UdpGuard_drop a (stats c)\<rparr>))
      | Outbound tg \<Rightarrow>
          (case mgr tg of
             None \<Rightarrow> (Inl (''outbound '' @ quoted tg @ '' not found''), [], c)
           | Some ob \<Rightarrow>
               (let (a, st) = tag (stats c) tg;
                    c = c\<lparr>stats := UdpGuard_new a st\<rparr>;
                    (i, tr) = register show_ip now
                      \<lparr>ci_network = ''udp'', ci_host = target_host show_ip (udp_target packet), ci_source = udp_src packet,
                       ci_dest_port = target_port (udp_target packet), ci_inbound = udp_inbound_tag packet, ci_outbound = tg\<rparr>
                      rule_info (conn_tracker c);
                    (res, c) = ob packet (c\<lparr>conn_tracker := tr\<rparr>);
                    c = c\<lparr>conn_tracker := ConnGuard_drop i (conn_tracker c)\<rparr>
                in (res, [], c\<lparr>stats := UdpGuard_drop a (stats c)\<rparr>)))
      | Sniff _ _ _ \<Rightarrow> (Inr (), [], c)
      | Resolve _ \<Rightarrow> (Inr (), [], c))"

end
