(* ===== verification/Ruleset_Correct.thy ===== *)
theory Ruleset_Correct
  imports Ruleset_Matcher
begin

text \<open>
  The rule-set engine as a whole: text to compiled set to binary file to loaded data to match
  engine. The properties of this theory compare the pipeline with the reference meaning of the
  rules and state the round trip of the file format.
\<close>

section \<open>Domain queries\<close>

text \<open>What an opened finite-state set answers, given the contract of the crate.\<close>

lemma fst_build_keys:
  assumes "fst_laws cr"
  obtains bs s where "fst_build cr (sorted_keys keys) = Inr bs" "bs \<noteq> []" "fst_new cr bs = Inr s"
    "\<And>k. fst_contains cr s k \<longleftrightarrow> k \<in> as_bytes ` set keys"
  using assms sorted_keys_strict [of keys] unfolding fst_laws_def by (metis set_sorted_keys)

lemma as_bytes_mem: "as_bytes x \<in> as_bytes ` S \<longleftrightarrow> x \<in> S"
  by auto

lemma exact_query:
  "as_bytes (domain_to_fst_key n) \<in> as_bytes ` set (map domain_to_fst_key ds) \<longleftrightarrow> n \<in> set ds"
  by (auto simp: domain_to_fst_key_inject)

lemma suffix_query:
  assumes "length (labels n) \<le> 128" and "length n \<le> 259"
    and "\<And>k. P k \<longleftrightarrow> k \<in> as_bytes ` set (map suffix_to_fst_key ss)"
  shows "fst_matches_suffix P n \<longleftrightarrow> (\<exists>s \<in> set ss. suffix_match s n)"
proof -
  have "fst_matches_suffix P n \<longleftrightarrow> (\<exists>k. 0 < k \<and> k \<le> length (labels n) \<and>
      (\<exists>s \<in> set ss. suffix_to_fst_key s = join ''.'' (take k (rev (labels n))) @ ''.''))"
    unfolding fst_matches_suffix_spec [OF assms(1,2)] assms(3)
    by (intro ex_cong1 conj_cong refl) (auto simp: as_bytes_mem image_iff simp del: as_bytes_append intro: sym)
  also have "\<dots> \<longleftrightarrow> (\<exists>s \<in> set ss. suffix_match s n)"
    using suffix_key_prefix [of n] by blast
  finally show ?thesis .
qed

text \<open>The back end a compiled set produces after serialization and loading.\<close>

definition domain_backend_ok ::
  "('f, 'r) crates \<Rightarrow> 'f DomainMatcher \<Rightarrow> string list \<Rightarrow> string list \<Rightarrow> bool" where
  "domain_backend_ok cr m ds ss \<longleftrightarrow>
     (\<forall>n. matches_exact cr m (as_bytes (domain_to_fst_key n)) n \<longleftrightarrow> n \<in> set ds)
     \<and> (\<forall>n. length (labels n) \<le> 128 \<and> length n \<le> 259 \<and> trim_end_matches CHR ''.'' n = n \<longrightarrow>
          (matches_suffix cr m n \<longleftrightarrow> (\<exists>s \<in> set ss. suffix_match s n)))"

lemma insert_suffixes_eq: "insert_suffixes t ss = trie.insert_all t ss"
  by (induction ss arbitrary: t) (auto split: option.splits)

lemma prefix_labels_suffix:
  "prefix (rsplit_labels s) (rsplit_labels d) \<longleftrightarrow> suffix_match s d"
proof -
  have "prefix (rev (labels s)) (rev (labels d)) \<longleftrightarrow> (\<exists>zs. rev (labels d) = rev (labels s) @ zs)"
    by (simp add: prefix_def)
  also have "\<dots> \<longleftrightarrow> (\<exists>pre. labels d = pre @ labels s)"
    by (metis rev_append rev_rev_ident)
  finally show ?thesis by (simp add: rsplit_labels_def suffix_match_def)
qed

lemma legacy_backend_ok:
  assumes "1 + trie.weight ss \<le> 2 ^ 32"
  shows "\<exists>t. insert_suffixes SuffixTrie_new ss = Some t
    \<and> domain_backend_ok cr (Legacy (set ds) t) ds (map (trim_start_matches CHR ''.'') ss)"
proof -
  obtain t where t: "trie.insert_all SuffixTrie_new ss = Some t"
    "\<And>d. SuffixTrie_matches t d = Some (\<exists>r \<in> set ss. prefix (trie_entry r) (trie_query d))"
    using trie.lookup_insert_all [OF assms] by blast
  have "domain_backend_ok cr (Legacy (set ds) t) ds (map (trim_start_matches CHR ''.'') ss)"
    by (auto simp: domain_backend_ok_def matches_exact_def matches_suffix_def t trie_entry_def trie_query_def
        prefix_labels_suffix)
  with t(1) show ?thesis by (auto simp: insert_suffixes_eq)
qed

lemma fst_backend_ok:
  assumes laws: "fst_laws cr" and "ds \<noteq> [] \<or> ss \<noteq> []"
  shows "\<exists>df sf exact sfx. build_domain_fst cr ds = Inr df \<and> build_suffix_fst cr ss = Inr sf
    \<and> (df \<noteq> [] \<or> sf \<noteq> []) \<and> open_fst cr df = Inr exact \<and> open_fst cr sf = Inr sfx
    \<and> domain_backend_ok cr (Fst exact sfx) ds ss"
proof -
  obtain df fd where df: "fst_build cr (sorted_keys (map domain_to_fst_key ds)) = Inr df" "df \<noteq> []"
      "fst_new cr df = Inr fd" "\<And>k. fst_contains cr fd k \<longleftrightarrow> k \<in> as_bytes ` set (map domain_to_fst_key ds)"
    using fst_build_keys [OF laws] by blast
  obtain sf fs where sf: "fst_build cr (sorted_keys (map suffix_to_fst_key ss)) = Inr sf" "sf \<noteq> []"
      "fst_new cr sf = Inr fs" "\<And>k. fst_contains cr fs k \<longleftrightarrow> k \<in> as_bytes ` set (map suffix_to_fst_key ss)"
    using fst_build_keys [OF laws] by blast
  let ?df = "if ds = [] then [] else df" and ?sf = "if ss = [] then [] else sf"
  let ?e = "if ds = [] then None else Some fd" and ?s = "if ss = [] then None else Some fs"
  have "build_domain_fst cr ds = Inr ?df" "build_suffix_fst cr ss = Inr ?sf"
    using df(1) sf(1) by (simp_all add: build_domain_fst_def build_suffix_fst_def)
  moreover have "open_fst cr ?df = Inr ?e" "open_fst cr ?sf = Inr ?s"
    using df(2,3) sf(2,3) by (simp_all add: open_fst_def)
  moreover have "matches_exact cr (Fst ?e ?s) (as_bytes (domain_to_fst_key n)) n \<longleftrightarrow> n \<in> set ds" for n
    using exact_query [of n ds] by (auto simp: matches_exact_def df(4))
  moreover have "matches_suffix cr (Fst ?e ?s) n \<longleftrightarrow> (\<exists>s \<in> set ss. suffix_match s n)"
    if "length (labels n) \<le> 128" "length n \<le> 259" for n
    using suffix_query [OF that sf(4)] by (simp add: matches_suffix_def)
  ultimately have "domain_backend_ok cr (Fst ?e ?s) ds ss" and
    "build_domain_fst cr ds = Inr ?df" "build_suffix_fst cr ss = Inr ?sf"
    "open_fst cr ?df = Inr ?e" "open_fst cr ?sf = Inr ?s" "?df \<noteq> [] \<or> ?sf \<noteq> []"
    using assms(2) df(2) sf(2) unfolding domain_backend_ok_def by auto
  then show ?thesis by (intro exI [of _ ?df] exI [of _ ?sf] exI [of _ ?e] exI [of _ ?s] conjI)
qed

section \<open>From rules to answers\<close>

lemma trim_end_normalized:
  "trim_end_matches CHR ''.'' (to_ascii_lowercase (trim_end_matches CHR ''.'' d)) =
     to_ascii_lowercase (trim_end_matches CHR ''.'' d)"
proof -
  have "dropWhile (\<lambda>c. c = CHR ''.'') (map ascii_lower xs) = map ascii_lower (dropWhile (\<lambda>c. c = CHR ''.'') xs)" for xs
    by (induction xs) (auto simp: lower_dot)
  then show ?thesis by (simp add: trim_end_matches_def to_ascii_lowercase_def rev_map)
qed

lemma match_domain_spec:
  assumes ok: "domain_backend_ok cr (domain_matcher rs) ds ss"
    and rx: "build_regexes cr rxs = Inr (regexes rs)" and lim: "within_limits (TDomain d)"
  shows "match_domain cr rs d \<longleftrightarrow> domain_semantics cr ds ss (rs_keywords rs) rxs d"
proof -
  let ?n = "to_ascii_lowercase (trim_end_matches CHR ''.'' d)"
  have "length (labels ?n) \<le> 128" "length ?n \<le> 259"
    using lim by (simp_all add: within_limits_def labels_lower Let_def)
  then have "matches_suffix cr (domain_matcher rs) ?n \<longleftrightarrow> (\<exists>s \<in> set ss. suffix_match s ?n)"
    using ok trim_end_normalized [of d] by (simp add: domain_backend_ok_def)
  moreover have "matches_exact cr (domain_matcher rs) (as_bytes (domain_to_fst_key ?n)) ?n \<longleftrightarrow> ?n \<in> set ds"
    using ok by (simp add: domain_backend_ok_def)
  moreover have "(case regexes rs of None \<Rightarrow> False | Some r \<Rightarrow> regexset_is_match cr r ?n) \<longleftrightarrow> regexes_match cr rxs ?n"
    using rx [symmetric]
    by (cases "regexset_new cr rxs"; cases "regexes rs") (auto simp: build_regexes_def regexes_match_def split: if_splits)
  ultimately show ?thesis
    by (simp add: match_domain_def normalize_domain_eq domain_semantics_def Let_def list_ex_iff)
qed

lemma match_ip_spec:
  assumes "\<And>a. match_ipv4 rs a \<longleftrightarrow> list_ex (in_ipv4_cidr a) v4s" and "\<And>a. match_ipv6 rs a \<longleftrightarrow> list_ex (in_ipv6_cidr a) v6s"
  shows "match_ip rs ip \<longleftrightarrow> ip_semantics v4s v6s ip"
  by (auto simp: match_ip_def ip_semantics_def assms split: IpAddr.splits option.splits)

text \<open>The three remaining fields of a rule set built from loaded data.\<close>

lemma from_loaded_Inr:
  assumes "build_domain_matcher cr l = Inr dm" and "build_regexes cr (l_domain_regexes l) = Inr rx"
    and v4: "\<And>c. c \<in> set (l_ipv4_cidrs l) \<Longrightarrow> unat (snd c) \<le> 32"
    and v6: "\<And>c. c \<in> set (l_ipv6_cidrs l) \<Longrightarrow> unat (snd c) \<le> 128"
  shows "\<exists>rs. RuleSet_from_loaded cr l = Inr rs \<and> domain_matcher rs = dm \<and> regexes rs = rx
    \<and> rs_keywords rs = l_domain_keywords l
    \<and> (\<forall>ip. match_ip rs ip \<longleftrightarrow> ip_semantics (l_ipv4_cidrs l) (l_ipv6_cidrs l) ip)
    \<and> (\<forall>p. match_port rs p \<longleftrightarrow> list_ex (\<lambda>(lo, hi). lo \<le> p \<and> p \<le> hi) (l_ports l))"
proof -
  obtain rs where rs: "RuleSet_from_loaded cr l = Inr rs" and f: "domain_matcher rs = dm" "regexes rs = rx"
      "rs_keywords rs = l_domain_keywords l"
    and r4: "ipv4_ranges rs = IpRanges_build (map (\<lambda>(addr, prefix). ipv4_cidr_to_range addr prefix) (l_ipv4_cidrs l))"
    and r6: "ipv6_ranges rs = IpRanges_build (map (\<lambda>(addr, prefix). ipv6_cidr_to_range addr prefix) (l_ipv6_cidrs l))"
    and p: "port_bitset rs = build_port_bitset (l_ports l)"
  proof (rule that)
    show "RuleSet_from_loaded cr l = Inr \<lparr>domain_matcher = dm, rs_keywords = l_domain_keywords l, regexes = rx,
        ipv4_ranges = IpRanges_build (map (\<lambda>(addr, prefix). ipv4_cidr_to_range addr prefix) (l_ipv4_cidrs l)),
        ipv6_ranges = IpRanges_build (map (\<lambda>(addr, prefix). ipv6_cidr_to_range addr prefix) (l_ipv6_cidrs l)),
        port_bitset = build_port_bitset (l_ports l)\<rparr>"
      using assms(1,2) by (simp add: RuleSet_from_loaded_def)
  qed simp_all
  have "match_ip rs ip \<longleftrightarrow> ip_semantics (l_ipv4_cidrs l) (l_ipv6_cidrs l) ip" for ip
    by (rule match_ip_spec [OF match_ipv4_spec [OF r4 v4] match_ipv6_spec [OF r6 v6]])
  with rs f match_port_spec [OF p] show ?thesis by blast
qed

text \<open>The set a compiled rule set becomes: serialized, read back and indexed.\<close>

definition size_limits :: "('f, 'r) crates \<Rightarrow> CompiledRuleSet \<Rightarrow> bool" where
  "size_limits cr c \<longleftrightarrow>
     (case (build_domain_fst cr (c_domains c), build_suffix_fst cr (c_domain_suffixes c)) of
        (Inr df, Inr sf) \<Rightarrow> fits_format df sf c
      | _ \<Rightarrow> True)"

definition regexes_accepted :: "('f, 'r) crates \<Rightarrow> CompiledRuleSet \<Rightarrow> bool" where
  "regexes_accepted cr c \<longleftrightarrow> c_domain_regexes c = [] \<or> \<not> isl (regexset_new cr (c_domain_regexes c))"

lemma compiled_pipeline:
  assumes laws: "fst_laws cr" and ok: "compiled_ok cr c" and lim: "size_limits cr c" and rx: "regexes_accepted cr c"
  shows "\<exists>bs l rs. serialize cr c = Inr bs \<and> LoadedRuleSet_from_bytes bs = Inr l \<and> RuleSet_from_loaded cr l = Inr rs
    \<and> (\<forall>t. within_limits t \<longrightarrow> (RuleSet_matches cr rs t \<longleftrightarrow> rule_semantics cr c t))"
proof -
  obtain df sf dm where b: "build_domain_fst cr (c_domains c) = Inr df" "build_suffix_fst cr (c_domain_suffixes c) = Inr sf"
    and dm: "build_domain_matcher cr (loaded_of df sf c) = Inr dm"
      "domain_backend_ok cr dm (c_domains c) (c_domain_suffixes c)"
  proof (cases "c_domains c = [] \<and> c_domain_suffixes c = []")
    case True
    obtain t where t: "insert_suffixes SuffixTrie_new [] = Some t" "domain_backend_ok cr (Legacy {} t) [] []"
      using legacy_backend_ok [of "[]" cr "[]"] by (auto simp: trie.weight_def)
    show thesis
      by (rule that [of "[]" "[]" "Legacy {} t"])
        (use True t in \<open>simp_all add: build_domain_fst_def build_suffix_fst_def build_domain_matcher_def loaded_of_def\<close>)
  next
    case False
    then obtain df sf exact sfx where f: "build_domain_fst cr (c_domains c) = Inr df"
        "build_suffix_fst cr (c_domain_suffixes c) = Inr sf" "df \<noteq> [] \<or> sf \<noteq> []"
        "open_fst cr df = Inr exact" "open_fst cr sf = Inr sfx"
        "domain_backend_ok cr (Fst exact sfx) (c_domains c) (c_domain_suffixes c)"
      using fst_backend_ok [OF laws, of "c_domains c" "c_domain_suffixes c"] by blast
    show thesis
      by (rule that [OF f(1,2) _ f(6)]) (use f in \<open>auto simp: build_domain_matcher_def loaded_of_def\<close>)
  qed
  have "fits_format df sf c" using lim b by (simp add: size_limits_def)
  from load_serialized [OF b this] obtain bs where bs: "serialize cr c = Inr bs"
      "LoadedRuleSet_from_bytes bs = Inr (loaded_of df sf c)" by blast
  obtain rxs where rxs: "build_regexes cr (c_domain_regexes c) = Inr rxs"
    using rx that [of None]
    by (cases "c_domain_regexes c = []"; cases "regexset_new cr (c_domain_regexes c)")
      (auto simp: build_regexes_def regexes_accepted_def)
  have c4: "\<And>x. x \<in> set (c_ipv4_cidrs c) \<Longrightarrow> unat (snd x) \<le> 32"
    and c6: "\<And>x. x \<in> set (c_ipv6_cidrs c) \<Longrightarrow> unat (snd x) \<le> 128"
    using ok by (auto simp: compiled_ok_def list_all_iff ipv4_cidr_ok_def ipv6_cidr_ok_def)
  obtain rs where rs: "RuleSet_from_loaded cr (loaded_of df sf c) = Inr rs" "domain_matcher rs = dm" "regexes rs = rxs"
    "rs_keywords rs = c_domain_keywords c"
    "\<And>ip. match_ip rs ip \<longleftrightarrow> ip_semantics (c_ipv4_cidrs c) (c_ipv6_cidrs c) ip"
    "\<And>p. match_port rs p \<longleftrightarrow> list_ex (\<lambda>(lo, hi). lo \<le> p \<and> p \<le> hi) (c_ports c)"
    using from_loaded_Inr [OF dm(1), of rxs] rxs c4 c6 by (auto simp: loaded_of_def)
  have "RuleSet_matches cr rs t \<longleftrightarrow> rule_semantics cr c t" if "within_limits t" for t
    using that match_domain_spec [of cr rs "c_domains c" "c_domain_suffixes c"] dm(2) rs rxs
    by (cases t) (simp_all add: RuleSet_matches_def rule_semantics_def)
  with bs rs(1) show ?thesis by blast
qed

section \<open>A concrete instance of the crates\<close>

text \<open>
  Functions with the contract of the third-party crates, for evaluating the engine on concrete
  input: a key set is stored as tagged bytes, a pattern matches the strings that contain it.
\<close>

definition enc_key :: "bytes \<Rightarrow> bytes" where
  "enc_key k = concat (map (\<lambda>b. [1, b]) k) @ [0]"

fun dec_keys :: "bytes \<Rightarrow> bytes \<Rightarrow> bytes list" where
  "dec_keys cur [] = []"
| "dec_keys cur [a] = (if a = 0 then [cur] else [])"
| "dec_keys cur (a # b # r) =
     (if a = 1 then dec_keys (cur @ [b]) r else if a = 0 then cur # dec_keys [] (b # r) else [])"

definition sample_crates :: "(bytes list, string list) crates" where
  "sample_crates =
     \<lparr>fst_build = (\<lambda>keys. Inr (concat (map enc_key keys) @ [2])),
      fst_new = (\<lambda>bs. Inr (dec_keys [] bs)),
      fst_contains = (\<lambda>s k. k \<in> set s),
      fst_len = length,
      regex_new = (\<lambda>_. Inr ()),
      regexset_new = Inr,
      regexset_is_match = (\<lambda>rs d. list_ex (contains_str d) rs),
      regexset_len = length,
      to_lowercase = to_ascii_lowercase\<rparr>"

lemma dec_keys_enc_key:
  "r \<noteq> [] \<Longrightarrow> dec_keys cur (enc_key k @ r) = (cur @ k) # dec_keys [] r"
proof (induction k arbitrary: cur)
  case Nil
  then show ?case by (cases r) (simp_all add: enc_key_def)
next
  case (Cons b k)
  then show ?case by (simp add: enc_key_def)
qed

lemma dec_keys_enc: "dec_keys [] (concat (map enc_key keys) @ [2]) = keys"
  by (induction keys) (simp_all add: dec_keys_enc_key)

lemma sample_crates_laws: "fst_laws sample_crates"
  by (simp add: fst_laws_def sample_crates_def dec_keys_enc)

section \<open>Properties\<close>

text \<open>
  C1. The whole pipeline: when a rule text compiles, its serialized form loads again and the match
  engine built from it answers every query as the rules say: a name by equality, label-wise suffix,
  keyword or pattern after dropping trailing dots and case, an address by membership in a CIDR
  block (an IPv4-mapped address also by the IPv4 blocks), a port by its ranges. Names are within
  the 128 labels and 259 bytes of the stack buffers of the suffix query.
\<close>

theorem ruleset_text_semantics:
  assumes "fst_laws cr" and "CompiledRuleSet_from_text cr src = Inr c"
    and "size_limits cr c" and "regexes_accepted cr c"
  shows "\<exists>rs. RuleSet_from_text cr src = Inr rs
    \<and> (\<forall>t. within_limits t \<longrightarrow> (RuleSet_matches cr rs t \<longleftrightarrow> rule_semantics cr c t))"
  using compiled_pipeline [OF assms(1) from_text_ok [OF assms(2)] assms(3,4)] assms(2)
  by (fastforce simp: RuleSet_from_text_def)

definition sample_text :: string where
  "sample_text = ''domain: Example.com'' @ [CHR 0x0A] @ ''domain-suffix: .google.com'' @ [CHR 0x0A]
     @ ''ip-cidr: 10.1.2.3/8'' @ [CHR 0x0A] @ ''# ports'' @ [CHR 0x0A] @ ''port: 80-90''"

definition sample_compiled :: CompiledRuleSet where
  "sample_compiled =
     \<lparr>c_domains = [''example.com''], c_domain_suffixes = [''google.com''], c_domain_keywords = [],
      c_domain_regexes = [], c_ipv4_cidrs = [(0x0A000000, 8)], c_ipv6_cidrs = [], c_ports = [(80, 90)]\<rparr>"

theorem ruleset_text_semantics_witness:
  "\<exists>rs. RuleSet_from_text sample_crates sample_text = Inr rs
    \<and> RuleSet_matches sample_crates rs (TDomain ''www.Google.com.'')
    \<and> \<not> RuleSet_matches sample_crates rs (TDomain ''notgoogle.com'')
    \<and> RuleSet_matches sample_crates rs (TIp (V4 0x0AFFFFFF)) \<and> \<not> RuleSet_matches sample_crates rs (TPort 91)"
proof -
  have c: "CompiledRuleSet_from_text sample_crates sample_text = Inr sample_compiled" by code_simp
  have "size_limits sample_crates sample_compiled" by code_simp
  moreover have "regexes_accepted sample_crates sample_compiled" by code_simp
  ultimately obtain rs where rs: "RuleSet_from_text sample_crates sample_text = Inr rs"
    and sem: "\<And>t. within_limits t \<Longrightarrow> RuleSet_matches sample_crates rs t \<longleftrightarrow> rule_semantics sample_crates sample_compiled t"
    using ruleset_text_semantics [OF sample_crates_laws c] by blast
  have "within_limits (TDomain ''www.Google.com.'')" "within_limits (TDomain ''notgoogle.com'')"
    "within_limits (TIp (V4 0x0AFFFFFF))" "within_limits (TPort 91)"
    by code_simp+
  moreover have "rule_semantics sample_crates sample_compiled (TDomain ''www.Google.com.'')"
    "\<not> rule_semantics sample_crates sample_compiled (TDomain ''notgoogle.com'')"
    "rule_semantics sample_crates sample_compiled (TIp (V4 0x0AFFFFFF))"
    "\<not> rule_semantics sample_crates sample_compiled (TPort 91)"
    by code_simp+
  ultimately show ?thesis using rs sem by blast
qed

text \<open>
  Round trip of the file format: whatever the compiler serializes, the loader reads back field
  by field, for every rule set within the limits of the format (strings under 256 bytes, sections
  under \<open>2 ^ 32\<close> bytes).
\<close>

theorem serialize_load_roundtrip:
  assumes "build_domain_fst cr (c_domains c) = Inr df" and "build_suffix_fst cr (c_domain_suffixes c) = Inr sf"
    and "fits_format df sf c"
  shows "\<exists>bs. serialize cr c = Inr bs \<and> LoadedRuleSet_from_bytes bs = Inr (loaded_of df sf c)"
  using assms by (rule load_serialized)

theorem serialize_load_roundtrip_witness:
  "\<exists>bs. serialize sample_crates (sample_compiled\<lparr>c_domains := [], c_domain_suffixes := [], c_domain_keywords := [''ads'']\<rparr>) = Inr bs
    \<and> LoadedRuleSet_from_bytes bs =
        Inr (loaded_of [] [] (sample_compiled\<lparr>c_domains := [], c_domain_suffixes := [], c_domain_keywords := [''ads'']\<rparr>))"
  by (rule serialize_load_roundtrip) code_simp+

text \<open>
  Whatever a front end accepts is well formed: names of at most 255 bytes in lower case,
  suffixes without a leading dot, accepted patterns, addresses masked to a prefix within the
  address width, and ordered port ranges; for the text format and for sing-box JSON with nested
  rules.
\<close>

theorem front_ends_wellformed:
  "(CompiledRuleSet_from_text cr src = Inr c \<longrightarrow> compiled_ok cr c)
    \<and> (from_singbox_json cr parse src = Inr c \<longrightarrow> compiled_ok cr c)"
  using from_text_ok from_singbox_json_ok by blast

theorem front_ends_wellformed_witness:
  "CompiledRuleSet_from_text sample_crates sample_text = Inr sample_compiled \<and> compiled_ok sample_crates sample_compiled"
proof -
  have "CompiledRuleSet_from_text sample_crates sample_text = Inr sample_compiled" by code_simp
  then show ?thesis using front_ends_wellformed [of sample_crates sample_text sample_compiled "\<lambda>_. Inr []"] by simp
qed

text \<open>
  The interval index over IPv4 blocks is a linear scan: after expansion, sorting, merging and
  binary search, an address is found exactly when it agrees with some block on the bits of its
  prefix.
\<close>

theorem ipv4_index_is_scan:
  assumes "\<forall>c \<in> set cs. unat (snd c) \<le> 32"
  shows "IpRanges_contains (IpRanges_build (map (\<lambda>(addr, prefix). ipv4_cidr_to_range addr prefix) cs)) a
    \<longleftrightarrow> list_ex (in_ipv4_cidr a) cs"
proof -
  have "in_range a (case c of (addr, len) \<Rightarrow> ipv4_cidr_to_range addr len) \<longleftrightarrow> in_ipv4_cidr a c" if "c \<in> set cs" for c
    using assms that by (cases c) (auto simp: ipv4_cidr_range in_ipv4_cidr_def)
  then show ?thesis by (auto simp: ip_ranges.member_build list_ex_iff)
qed

theorem ipv4_index_is_scan_witness:
  "IpRanges_contains (IpRanges_build (map (\<lambda>(addr, prefix). ipv4_cidr_to_range addr prefix)
      [(0xC0A80000, 16), (0x0A000000, 8), (0xC0A80100, 24)])) 0xC0A80505"
proof -
  let ?cs = "[(0xC0A80000, 16), (0x0A000000, 8), (0xC0A80100, 24)] :: (u32 \<times> u8) list"
  have "\<forall>c \<in> set ?cs. unat (snd c) \<le> 32" by simp
  moreover have "list_ex (in_ipv4_cidr 0xC0A80505) ?cs" by code_simp
  ultimately show ?thesis using ipv4_index_is_scan by blast
qed

text \<open>
  Files of the first format version: a set loaded from plain name lists uses the hash set and
  the suffix trie, building the trie does not run out of its 32-bit node indices, and a name
  matches by equality or label-wise suffix as in the newer format.
\<close>

theorem legacy_ruleset_semantics:
  assumes "l_domain_fst l = []" and "l_domain_suffix_fst l = []" and "l_domain_regexes l = []"
    and "1 + sum_list (map (\<lambda>s. length (trie_entry s)) (l_domain_suffixes l)) \<le> 2 ^ 32"
    and "list_all (\<lambda>c. unat (snd c) \<le> 32) (l_ipv4_cidrs l)" and "list_all (\<lambda>c. unat (snd c) \<le> 128) (l_ipv6_cidrs l)"
  shows "\<exists>rs. RuleSet_from_loaded cr l = Inr rs
    \<and> (\<forall>d. within_limits (TDomain d) \<longrightarrow> (RuleSet_matches cr rs (TDomain d) \<longleftrightarrow>
          domain_semantics cr (l_domains l) (map (trim_start_matches CHR ''.'') (l_domain_suffixes l)) (l_domain_keywords l) [] d))"
proof -
  obtain t where t: "insert_suffixes SuffixTrie_new (l_domain_suffixes l) = Some t"
    "domain_backend_ok cr (Legacy (set (l_domains l)) t) (l_domains l) (map (trim_start_matches CHR ''.'') (l_domain_suffixes l))"
    using legacy_backend_ok [of "l_domain_suffixes l" cr "l_domains l"] assms(4) by (auto simp: trie.weight_def)
  have dm: "build_domain_matcher cr l = Inr (Legacy (set (l_domains l)) t)"
    and rx: "build_regexes cr (l_domain_regexes l) = Inr None"
    using assms t(1) by (simp_all add: build_domain_matcher_def build_regexes_def)
  obtain rs where rs: "RuleSet_from_loaded cr l = Inr rs" "domain_matcher rs = Legacy (set (l_domains l)) t"
    "regexes rs = None" "rs_keywords rs = l_domain_keywords l"
    using from_loaded_Inr [OF dm rx] assms(5,6) by (auto simp: list_all_iff)
  have "build_regexes cr [] = Inr (regexes rs)" by (simp add: rs build_regexes_def)
  with match_domain_spec [of cr rs "l_domains l" "map (trim_start_matches CHR ''.'') (l_domain_suffixes l)" "[]"] rs t(2)
  show ?thesis by (auto simp: RuleSet_matches_def)
qed

theorem legacy_ruleset_semantics_witness:
  "\<exists>rs. RuleSet_from_loaded sample_crates (LoadedRuleSet_default\<lparr>l_domain_suffixes := [''.cn'', ''google.com'']\<rparr>) = Inr rs
    \<and> RuleSet_matches sample_crates rs (TDomain ''www.google.com'')"
proof -
  let ?l = "LoadedRuleSet_default\<lparr>l_domain_suffixes := [''.cn'', ''google.com'']\<rparr>"
  obtain rs where "RuleSet_from_loaded sample_crates ?l = Inr rs"
    "\<And>d. within_limits (TDomain d) \<Longrightarrow> RuleSet_matches sample_crates rs (TDomain d) \<longleftrightarrow>
        domain_semantics sample_crates (l_domains ?l) (map (trim_start_matches CHR ''.'') (l_domain_suffixes ?l)) (l_domain_keywords ?l) [] d"
    using legacy_ruleset_semantics [of ?l sample_crates]
    by (auto simp: LoadedRuleSet_default_def trie_entry_def rsplit_labels_def trim_start_matches_def)
  moreover have "within_limits (TDomain ''www.google.com'')"
    "domain_semantics sample_crates (l_domains ?l) (map (trim_start_matches CHR ''.'') (l_domain_suffixes ?l)) (l_domain_keywords ?l) [] ''www.google.com''"
    by code_simp+
  ultimately show ?thesis by blast
qed

text \<open>
  A keyword of 256 bytes is accepted by the compiler and its file is rejected by the loader:
  the length prefix of \<open>encode_strings\<close> is one byte and keywords are not length-checked.
\<close>

theorem long_keyword_corrupts_file:
  "\<exists>bs. serialize sample_crates (push_keyword (replicate 256 CHR ''a'') CompiledRuleSet_default) = Inr bs
    \<and> isl (LoadedRuleSet_from_bytes bs)"
proof -
  have "case serialize sample_crates (push_keyword (replicate 256 CHR ''a'') CompiledRuleSet_default) of
      Inl _ \<Rightarrow> False | Inr bs \<Rightarrow> isl (LoadedRuleSet_from_bytes bs)"
    by code_simp
  then show ?thesis by (auto split: sum.splits)
qed

end
