(* ===== verification/Router_Correct.thy ===== *)
theory Router_Correct
  imports Router Ruleset_Correct
begin

text \<open>
  Correctness of routing: what an inline rule means after its detour through the rule-set text
  format, and what the searches that skip actions decide.
\<close>

section \<open>Inline values as rule text\<close>

text \<open>A value that survives being written as one rule line: no line break, no white space at its
  ends.\<close>

definition inline_value :: "string \<Rightarrow> bool" where
  "inline_value s \<longleftrightarrow> s \<noteq> [] \<and> graphic (hd s) \<and> graphic (last s) \<and> CHR 0x0A \<notin> set s"

lemma newline_char: "char_of (10 :: nat) = CHR 0x0A"
  by code_simp

definition line_ok :: "string \<Rightarrow> bool" where
  "line_ok l \<longleftrightarrow> l \<noteq> [] \<and> CHR 0x0A \<notin> set l \<and> code (last l) \<noteq> 13"

lemma lines_join:
  assumes "ls \<noteq> []" and "list_all line_ok ls"
  shows "lines (join [CHR 0x0A] ls) = ls"
proof -
  have "split_on (CHR 0x0A) (join [CHR 0x0A] ls) = ls"
    by (rule split_on_join) (use assms in \<open>auto simp: list_all_iff line_ok_def\<close>)
  moreover have "last ls \<noteq> []" using assms by (simp add: list_all_iff line_ok_def)
  moreover have "map strip_cr (butlast ls) = butlast ls"
    by (rule map_idI) (use assms(2) in \<open>auto simp: strip_cr_def list_all_iff line_ok_def dest: in_set_butlastD\<close>)
  ultimately show ?thesis using assms(1) by (simp add: lines_def newline_char Let_def)
qed

lemma text_line_value:
  assumes v: "inline_value v" and k: "inline_value k" "CHR '':'' \<notin> set k" "CHR ''#'' \<notin> set k"
  shows "text_line cr (n, k @ '': '' @ v) c = text_rule cr (n + 1) k v c"
proof -
  have "trim (k @ '': '' @ v) = k @ '': '' @ v"
    by (rule trim_graphic) (use v k in \<open>auto simp: inline_value_def\<close>)
  moreover have "\<not> starts_with (k @ '': '' @ v) ''#''"
    using k by (cases k) (auto simp: starts_with_def inline_value_def)
  moreover have "split_once CHR '':'' (k @ '': '' @ v) = Some (k, '' '' @ v)"
    using split_once_append [OF k(2), of "'' '' @ v"] by simp
  moreover have "trim k = k" using k by (intro trim_graphic) (auto simp: inline_value_def)
  moreover have "trim ('' '' @ v) = v" using v trim_space_graphic [of v] by (simp add: inline_value_def)
  ultimately show ?thesis using k by (auto simp: text_line_def Let_def inline_value_def)
qed

lemma text_lines_fold:
  assumes "\<And>x n c. x \<in> set xs \<Longrightarrow> text_line cr (n, f x) c = Inr (g x c)"
  shows "res_fold (text_line cr) (List.enumerate n (map f xs)) c = Inr (fold g xs c)"
  using assms by (induction xs arbitrary: n c) auto

lemma fold_push:
  "fold (\<lambda>d. push_domain (h d)) xs c = c\<lparr>c_domains := c_domains c @ map h xs\<rparr>"
  "fold (\<lambda>d. push_suffix (h d)) xs c = c\<lparr>c_domain_suffixes := c_domain_suffixes c @ map h xs\<rparr>"
  "fold (\<lambda>d. push_keyword (h d)) xs c = c\<lparr>c_domain_keywords := c_domain_keywords c @ map h xs\<rparr>"
  "fold (\<lambda>d. push_port (hp d)) ys c = c\<lparr>c_ports := c_ports c @ map hp ys\<rparr>"
  by (induction xs arbitrary: c) (simp_all add: push_defs, induction ys arbitrary: c, simp_all add: push_defs)

text \<open>The addresses of a list of CIDR strings, by family.\<close>

definition cidr_v6 :: "string \<Rightarrow> bool" where
  "cidr_v6 c \<longleftrightarrow> CHR '':'' \<in> set c"

definition cidr_ok :: "string \<Rightarrow> bool" where
  "cidr_ok c \<longleftrightarrow> inline_value c \<and> (if cidr_v6 c then \<not> isl (parse_ipv6_cidr c) else \<not> isl (parse_ipv4_cidr c))"

definition push_cidr :: "string \<Rightarrow> CompiledRuleSet \<Rightarrow> CompiledRuleSet" where
  "push_cidr c out = (if cidr_v6 c then push_ipv6 (projr (parse_ipv6_cidr c)) out else push_ipv4 (projr (parse_ipv4_cidr c)) out)"

lemma fold_push_cidr:
  "fold push_cidr cs out =
     out\<lparr>c_ipv4_cidrs := c_ipv4_cidrs out @ map (\<lambda>c. projr (parse_ipv4_cidr c)) (filter (\<lambda>c. \<not> cidr_v6 c) cs),
         c_ipv6_cidrs := c_ipv6_cidrs out @ map (\<lambda>c. projr (parse_ipv6_cidr c)) (filter cidr_v6 cs)\<rparr>"
  by (induction cs arbitrary: out) (simp_all add: push_cidr_def push_defs)

definition domain_value :: "string \<Rightarrow> bool" where
  "domain_value d \<longleftrightarrow> inline_value d \<and> length d \<le> 255"

definition addr_compiled :: "RouteRuleConfig \<Rightarrow> CompiledRuleSet" where
  "addr_compiled rule = CompiledRuleSet_default
     \<lparr>c_domains := map to_ascii_lowercase (r_domain rule),
      c_domain_suffixes := map (\<lambda>d. to_ascii_lowercase (trim_start_matches CHR ''.'' d)) (r_domain_suffix rule),
      c_domain_keywords := map to_ascii_lowercase (r_domain_keyword rule),
      c_ipv4_cidrs := map (\<lambda>c. projr (parse_ipv4_cidr c)) (filter (\<lambda>c. \<not> cidr_v6 c) (r_ip_cidr rule)),
      c_ipv6_cidrs := map (\<lambda>c. projr (parse_ipv6_cidr c)) (filter cidr_v6 (r_ip_cidr rule))\<rparr>"

definition addr_values_ok :: "RouteRuleConfig \<Rightarrow> bool" where
  "addr_values_ok rule \<longleftrightarrow>
     list_all domain_value (r_domain rule) \<and> list_all domain_value (r_domain_suffix rule)
     \<and> list_all (\<lambda>k. inline_value k \<and> short_string (to_ascii_lowercase k)) (r_domain_keyword rule)
     \<and> list_all cidr_ok (r_ip_cidr rule)"

lemma res_fold_enumerate_append:
  "res_fold f (List.enumerate n (xs @ ys)) c =
     res_bind (res_fold f (List.enumerate n xs) c) (res_fold f (List.enumerate (n + length xs) ys))"
  by (simp add: enumerate_append_eq res_fold_append)

lemma length_trim_start_matches: "length (trim_start_matches c s) \<le> length s"
  by (simp add: trim_start_matches_def length_dropWhile_le)

lemma keys_inline: "inline_value ''domain''" "inline_value ''domain-suffix''" "inline_value ''domain-keyword''"
  "inline_value ''ip-cidr''" "inline_value ''ip-cidr6''" "inline_value ''port''"
  by code_simp+

lemma text_line_domain:
  "domain_value d \<Longrightarrow> text_line cr (n, ''domain: '' @ d) c = Inr (push_domain (to_ascii_lowercase d) c)"
  using text_line_value [of d "''domain''" cr n c] keys_inline
  by (simp add: domain_value_def text_rule_def validate_domain_len_def)

lemma text_line_suffix:
  "domain_value d \<Longrightarrow> text_line cr (n, ''domain-suffix: '' @ d) c =
     Inr (push_suffix (to_ascii_lowercase (trim_start_matches CHR ''.'' d)) c)"
  using text_line_value [of d "''domain-suffix''" cr n c] keys_inline length_trim_start_matches [of "CHR ''.''" d]
  by (simp add: domain_value_def text_rule_def validate_domain_len_def)

lemma text_line_keyword:
  "inline_value d \<Longrightarrow> text_line cr (n, ''domain-keyword: '' @ d) c = Inr (push_keyword (to_ascii_lowercase d) c)"
  using text_line_value [of d "''domain-keyword''" cr n c] keys_inline by (simp add: text_rule_def)

lemma text_line_cidr:
  assumes "cidr_ok d"
  shows "text_line cr (n, if CHR '':'' \<in> set d then ''ip-cidr6: '' @ d else ''ip-cidr: '' @ d) c = Inr (push_cidr d c)"
proof -
  have v: "inline_value d" using assms by (simp add: cidr_ok_def)
  have 6: "text_line cr (n, ''ip-cidr6: '' @ d) c = res_bind (parse_ipv6_cidr d) (\<lambda>x. Inr (push_ipv6 x c))"
    using text_line_value [of d "''ip-cidr6''" cr n c] keys_inline v by (simp add: text_rule_def)
  have 4: "text_line cr (n, ''ip-cidr: '' @ d) c = res_bind (parse_ipv4_cidr d) (\<lambda>x. Inr (push_ipv4 x c))"
    using text_line_value [of d "''ip-cidr''" cr n c] keys_inline v by (simp add: text_rule_def)
  show ?thesis
  proof (cases "cidr_v6 d")
    case True
    with assms obtain x where "parse_ipv6_cidr d = Inr x" by (cases "parse_ipv6_cidr d") (auto simp: cidr_ok_def)
    with True 6 show ?thesis by (simp add: cidr_v6_def push_cidr_def)
  next
    case False
    with assms obtain x where "parse_ipv4_cidr d = Inr x" by (cases "parse_ipv4_cidr d") (auto simp: cidr_ok_def)
    with False 4 show ?thesis by (simp add: cidr_v6_def push_cidr_def)
  qed
qed

text \<open>The address lines of a rule compile to its values.\<close>

lemma addr_lines_fold:
  assumes "addr_values_ok rule"
  shows "res_fold (text_line cr) (List.enumerate 0 (addr_lines rule)) CompiledRuleSet_default = Inr (addr_compiled rule)"
proof -
  have v: "\<And>d. d \<in> set (r_domain rule) \<Longrightarrow> domain_value d" "\<And>d. d \<in> set (r_domain_suffix rule) \<Longrightarrow> domain_value d"
      "\<And>d. d \<in> set (r_domain_keyword rule) \<Longrightarrow> inline_value d" "\<And>d. d \<in> set (r_ip_cidr rule) \<Longrightarrow> cidr_ok d"
    using assms by (auto simp: addr_values_ok_def list_all_iff)
  have 1: "res_fold (text_line cr) (List.enumerate n (map (\<lambda>d. ''domain: '' @ d) (r_domain rule))) c =
      Inr (fold (\<lambda>d. push_domain (to_ascii_lowercase d)) (r_domain rule) c)" for n c
    by (rule text_lines_fold) (rule text_line_domain [OF v(1)])
  have 2: "res_fold (text_line cr) (List.enumerate n (map (\<lambda>d. ''domain-suffix: '' @ d) (r_domain_suffix rule))) c =
      Inr (fold (\<lambda>d. push_suffix (to_ascii_lowercase (trim_start_matches CHR ''.'' d))) (r_domain_suffix rule) c)" for n c
    by (rule text_lines_fold) (rule text_line_suffix [OF v(2)])
  have 3: "res_fold (text_line cr) (List.enumerate n (map (\<lambda>d. ''domain-keyword: '' @ d) (r_domain_keyword rule))) c =
      Inr (fold (\<lambda>d. push_keyword (to_ascii_lowercase d)) (r_domain_keyword rule) c)" for n c
    by (rule text_lines_fold) (rule text_line_keyword [OF v(3)])
  have 4: "res_fold (text_line cr) (List.enumerate n
      (map (\<lambda>c. if CHR '':'' \<in> set c then ''ip-cidr6: '' @ c else ''ip-cidr: '' @ c) (r_ip_cidr rule))) c =
      Inr (fold push_cidr (r_ip_cidr rule) c)" for n c
    by (rule text_lines_fold) (rule text_line_cidr [OF v(4)])
  show ?thesis
    by (simp only: addr_lines_def res_fold_enumerate_append 1 2 3 4 res_bind_simps fold_push fold_push_cidr)
      (simp add: addr_compiled_def CompiledRuleSet_default_def)
qed

lemma graphic_not_cr: "graphic c \<Longrightarrow> code c \<noteq> 13"
  by (simp add: graphic_def)

lemma keyed_line_ok: "inline_value v \<Longrightarrow> CHR 0x0A \<notin> set k \<Longrightarrow> line_ok (k @ v)"
  by (auto simp: inline_value_def graphic_not_cr line_ok_def)

lemma keyed_lines_ok: "(\<And>v. v \<in> set vs \<Longrightarrow> inline_value v) \<Longrightarrow> CHR 0x0A \<notin> set k \<Longrightarrow> list_all line_ok (map (\<lambda>v. k @ v) vs)"
  by (simp add: list_all_iff keyed_line_ok)

lemma addr_lines_ok:
  assumes "addr_values_ok rule"
  shows "list_all line_ok (addr_lines rule)"
proof -
  have v: "\<And>d. d \<in> set (r_domain rule) \<Longrightarrow> inline_value d" "\<And>d. d \<in> set (r_domain_suffix rule) \<Longrightarrow> inline_value d"
      "\<And>d. d \<in> set (r_domain_keyword rule) \<Longrightarrow> inline_value d" "\<And>d. d \<in> set (r_ip_cidr rule) \<Longrightarrow> inline_value d"
    using assms by (auto simp: addr_values_ok_def list_all_iff domain_value_def cidr_ok_def)
  have "line_ok (if CHR '':'' \<in> set c then ''ip-cidr6: '' @ c else ''ip-cidr: '' @ c)" if "c \<in> set (r_ip_cidr rule)" for c
    using keyed_line_ok [OF v(4) [OF that], of "''ip-cidr6: ''"] keyed_line_ok [OF v(4) [OF that], of "''ip-cidr: ''"]
    by simp
  then have "list_all line_ok (map (\<lambda>c. if CHR '':'' \<in> set c then ''ip-cidr6: '' @ c else ''ip-cidr: '' @ c) (r_ip_cidr rule))"
    by (simp only: list_all_iff set_map ball_simps) blast
  moreover have "list_all line_ok (map (\<lambda>d. ''domain: '' @ d) (r_domain rule))"
    by (rule keyed_lines_ok) (use v(1) in auto)
  moreover have "list_all line_ok (map (\<lambda>d. ''domain-suffix: '' @ d) (r_domain_suffix rule))"
    by (rule keyed_lines_ok) (use v(2) in auto)
  moreover have "list_all line_ok (map (\<lambda>d. ''domain-keyword: '' @ d) (r_domain_keyword rule))"
    by (rule keyed_lines_ok) (use v(3) in auto)
  ultimately show ?thesis unfolding addr_lines_def list_all_append by (intro conjI)
qed

lemma addr_from_text:
  assumes "addr_values_ok rule" and "addr_lines rule \<noteq> []"
  shows "CompiledRuleSet_from_text cr (join [CHR 0x0A] (addr_lines rule)) = Inr (addr_compiled rule)"
  using addr_lines_fold [OF assms(1), of cr] lines_join [OF assms(2) addr_lines_ok [OF assms(1)]]
  by (simp add: CompiledRuleSet_from_text_def)

section \<open>Inline ports\<close>

definition port_pair :: "PortFilter \<Rightarrow> u16 \<times> u16" where
  "port_pair p = (case p of PortFilter lo hi \<Rightarrow> (lo, hi))"

definition port_values_ok :: "RouteRuleConfig \<Rightarrow> bool" where
  "port_values_ok rule \<longleftrightarrow> list_all (\<lambda>p. fst (port_pair p) \<le> snd (port_pair p)) (r_port rule)
     \<and> list_all (\<lambda>s. inline_value s \<and> \<not> isl (parse_port_range s)) (r_port_range rule)"

definition port_compiled :: "RouteRuleConfig \<Rightarrow> CompiledRuleSet" where
  "port_compiled rule = CompiledRuleSet_default
     \<lparr>c_ports := map port_pair (r_port rule) @ map (\<lambda>s. projr (parse_port_range s)) (r_port_range rule)\<rparr>"

definition port_text :: "PortFilter \<Rightarrow> string" where
  "port_text p = (case p of PortFilter lo hi \<Rightarrow>
     if lo = hi then show_nat (unat lo) else show_nat (unat lo) @ ''-'' @ show_nat (unat hi))"

lemma port_lines_text:
  "port_lines rule = map (\<lambda>p. ''port: '' @ port_text p) (r_port rule) @ map (\<lambda>p. ''port: '' @ p) (r_port_range rule)"
  by (auto simp: port_lines_def port_text_def split: PortFilter.splits)

lemma parse_port_text:
  assumes "fst (port_pair p) \<le> snd (port_pair p)"
  shows "parse_port_range (port_text p) = Inr (port_pair p)"
proof -
  obtain lo hi where p: "p = PortFilter lo hi" by (cases p)
  have "split_once CHR ''-'' (show_nat (unat lo)) = None" by (simp add: split_once_None_iff dash_show_nat)
  then show ?thesis
    using assms
    by (auto simp: p port_text_def port_pair_def parse_port_range_def parse_bounds_def split_once_append dash_show_nat
        trim_show_nat parse_u16_show)
qed

lemma port_text_inline: "inline_value (port_text p)"
proof -
  obtain lo hi where p: "p = PortFilter lo hi" by (cases p)
  have *: "graphic c \<and> c \<noteq> CHR 0x0A" if "c \<in> set (port_text p)" for c
  proof -
    have "c \<in> set (show_nat (unat lo)) \<or> c \<in> set (show_nat (unat hi)) \<or> c = CHR ''-''"
      using that by (auto simp: p port_text_def split: if_splits)
    then have "graphic c" using show_nat_digits by (auto simp: graphic_def code_def)
    moreover have "\<not> graphic (CHR 0x0A)" by code_simp
    ultimately show ?thesis by auto
  qed
  have "port_text p \<noteq> []" by (simp add: p port_text_def)
  with * [of "hd (port_text p)"] * [of "last (port_text p)"] * [of "CHR 0x0A"] show ?thesis
    by (auto simp: inline_value_def)
qed

lemma text_line_port:
  "inline_value s \<Longrightarrow> parse_port_range s = Inr r \<Longrightarrow> text_line cr (n, ''port: '' @ s) c = Inr (push_port r c)"
  using text_line_value [of s "''port''" cr n c] keys_inline by (simp add: text_rule_def)

lemma port_from_text:
  assumes ok: "port_values_ok rule" and "port_lines rule \<noteq> []"
  shows "CompiledRuleSet_from_text cr (join [CHR 0x0A] (port_lines rule)) = Inr (port_compiled rule)"
proof -
  have v: "inline_value s \<and> parse_port_range s = Inr (projr (parse_port_range s))" if "s \<in> set (r_port_range rule)" for s
    using ok that by (auto simp: port_values_ok_def list_all_iff)
  have p: "text_line cr (n, ''port: '' @ port_text p) c = Inr (push_port (port_pair p) c)" if "p \<in> set (r_port rule)" for p n c
    using ok that by (intro text_line_port port_text_inline parse_port_text) (auto simp: port_values_ok_def list_all_iff)
  have r: "text_line cr (n, ''port: '' @ s) c = Inr (push_port (projr (parse_port_range s)) c)" if "s \<in> set (r_port_range rule)" for s n c
    using v [OF that] by (intro text_line_port) auto
  have "list_all line_ok (map (\<lambda>p. ''port: '' @ port_text p) (r_port rule))"
    using keyed_line_ok [OF port_text_inline, of "''port: ''"] by (simp add: list_all_iff)
  moreover have "list_all line_ok (map (\<lambda>p. ''port: '' @ p) (r_port_range rule))"
    by (rule keyed_lines_ok) (use v in auto)
  ultimately have "list_all line_ok (port_lines rule)" unfolding port_lines_text list_all_append by (rule conjI)
  moreover have "res_fold (text_line cr) (List.enumerate 0 (port_lines rule)) CompiledRuleSet_default = Inr (port_compiled rule)"
  proof -
    have 1: "res_fold (text_line cr) (List.enumerate n (map (\<lambda>p. ''port: '' @ port_text p) (r_port rule))) c =
        Inr (fold (\<lambda>p. push_port (port_pair p)) (r_port rule) c)" for n c
      by (rule text_lines_fold) (rule p)
    have 2: "res_fold (text_line cr) (List.enumerate n (map (\<lambda>s. ''port: '' @ s) (r_port_range rule))) c =
        Inr (fold (\<lambda>s. push_port (projr (parse_port_range s))) (r_port_range rule) c)" for n c
      by (rule text_lines_fold) (rule r)
    show ?thesis
      by (simp only: port_lines_text res_fold_enumerate_append 1 2 res_bind_simps fold_push)
        (simp add: port_compiled_def CompiledRuleSet_default_def)
  qed
  ultimately show ?thesis using lines_join [OF assms(2)] by (simp add: CompiledRuleSet_from_text_def)
qed

section \<open>What a compiled rule means\<close>

lemma text_ruleset:
  assumes "fst_laws cr" and "CompiledRuleSet_from_text cr src = Inr c" and "size_limits cr c" and "c_domain_regexes c = []"
  shows "\<exists>rs. RuleSet_from_text cr src = Inr rs \<and> (\<forall>t. within_limits t \<longrightarrow> (RuleSet_matches cr rs t \<longleftrightarrow> rule_semantics cr c t))"
  using compiled_pipeline [OF assms(1) from_text_ok [OF assms(2)] assms(3)] assms(2,4)
  by (fastforce simp: RuleSet_from_text_def regexes_accepted_def)

definition inline_matches :: "('f, 'r) crates \<Rightarrow> ('f, 'r) RuleSet option \<Rightarrow> MatchTarget \<Rightarrow> bool" where
  "inline_matches cr rs t = (case rs of Some rs \<Rightarrow> RuleSet_matches cr rs t | None \<Rightarrow> False)"

lemma inline_ruleset_semantics:
  assumes "fst_laws cr" and "ls \<noteq> [] \<Longrightarrow> CompiledRuleSet_from_text cr (join [CHR 0x0A] ls) = Inr c"
    and "size_limits cr c" and "c_domain_regexes c = []" and "ls = [] \<Longrightarrow> \<not> rule_semantics cr c t" and "within_limits t"
  shows "\<exists>rs. inline_ruleset cr ls = Inr rs \<and> (rs = None \<longleftrightarrow> ls = [])
    \<and> (inline_matches cr rs t \<longleftrightarrow> rule_semantics cr c t)"
proof (cases "ls = []")
  case True
  with assms(5) show ?thesis by (simp add: inline_ruleset_def inline_matches_def)
next
  case False
  with text_ruleset [OF assms(1) assms(2) assms(3,4)] assms(6) show ?thesis
    by (auto simp: inline_ruleset_def inline_matches_def)
qed

lemma addr_compiled_empty: "addr_lines rule = [] \<Longrightarrow> \<not> rule_semantics cr (addr_compiled rule) t"
  by (cases t) (auto simp: addr_lines_def addr_compiled_def rule_semantics_def domain_semantics_def ip_semantics_def
      regexes_match_def CompiledRuleSet_default_def split: IpAddr.splits option.splits)

lemma port_compiled_empty: "port_lines rule = [] \<Longrightarrow> \<not> rule_semantics cr (port_compiled rule) (TPort p)"
  by (auto simp: port_lines_def port_compiled_def rule_semantics_def CompiledRuleSet_default_def)

text \<open>
  What the code makes of a route rule, over its configuration: conjunction of the source conditions,
  and disjunction of every target condition it has. The documentation asks for a conjunction of all of
  them (\<open>documented_meaning\<close> below); this definition is only the code's side of the comparison.
\<close>

definition has_target_conditions :: "RouteRuleConfig \<Rightarrow> bool" where
  "has_target_conditions rule \<longleftrightarrow> r_ruleset rule \<noteq> [] \<or> addr_lines rule \<noteq> [] \<or> port_lines rule \<noteq> []"

definition target_meaning ::
  "('f, 'r) crates \<Rightarrow> (string \<Rightarrow> ('f, 'r) RuleSet option) \<Rightarrow> RouteRuleConfig \<Rightarrow> Target \<Rightarrow> bool" where
  "target_meaning cr rss rule target \<longleftrightarrow>
     list_ex (\<lambda>tag. case rss tag of None \<Rightarrow> False | Some rs \<Rightarrow>
        RuleSet_matches cr rs (target_to_addr_match target) \<or> RuleSet_matches cr rs (TPort (target_port target))) (r_ruleset rule)
     \<or> rule_semantics cr (addr_compiled rule) (target_to_addr_match target)
     \<or> rule_semantics cr (port_compiled rule) (TPort (target_port target))"

definition rule_meaning ::
  "('f, 'r) crates \<Rightarrow> (string \<Rightarrow> ('f, 'r) RuleSet option) \<Rightarrow> RouteRuleConfig \<Rightarrow> string \<Rightarrow> NetworkKind option \<Rightarrow> Target
     \<Rightarrow> string option \<Rightarrow> bool" where
  "rule_meaning cr rss rule tag net target proto \<longleftrightarrow>
     (r_inbound rule = [] \<or> tag \<in> set (r_inbound rule))
     \<and> network_ok (r_network rule) net
     \<and> protocol_ok cr (map (to_lowercase cr) (r_protocol rule)) proto
     \<and> (has_target_conditions rule \<longrightarrow> target_meaning cr rss rule target)"

definition inline_rule_ok :: "('f, 'r) crates \<Rightarrow> (string \<Rightarrow> ('f, 'r) RuleSet option) \<Rightarrow> RouteRuleConfig \<Rightarrow> bool" where
  "inline_rule_ok cr rss rule \<longleftrightarrow>
     addr_values_ok rule \<and> port_values_ok rule \<and> size_limits cr (addr_compiled rule) \<and> size_limits cr (port_compiled rule)
     \<and> list_all (\<lambda>tag. rss tag \<noteq> None) (r_ruleset rule)"

lemma no_regexes [simp]: "c_domain_regexes (addr_compiled rule) = []" "c_domain_regexes (port_compiled rule) = []"
  by (simp_all add: addr_compiled_def port_compiled_def CompiledRuleSet_default_def)

lemma compile_meaning:
  assumes laws: "fst_laws cr" and ok: "inline_rule_ok cr rss rule" and lim: "within_limits (target_to_addr_match target)"
  shows "\<exists>r. compile cr rss rule = Inr r \<and> (rule_matches cr r tag net target proto \<longleftrightarrow> rule_meaning cr rss rule tag net target proto)"
proof -
  let ?at = "target_to_addr_match target" and ?pt = "TPort (target_port target)"
  have av: "addr_values_ok rule" and as: "size_limits cr (addr_compiled rule)"
    and pv: "port_values_ok rule" and ps: "size_limits cr (port_compiled rule)"
    using ok by (simp_all add: inline_rule_ok_def)
  have plim: "within_limits ?pt" by (simp add: within_limits_def)
  have "res_map (\<lambda>tag. ok_or (Msg (''ruleset '' @ quoted tag @ '' not found'')) (rss tag)) (r_ruleset rule)
      = Inr (map (\<lambda>tag. the (rss tag)) (r_ruleset rule))"
    by (rule res_map_Inr) (use ok in \<open>auto simp: inline_rule_ok_def list_all_iff\<close>)
  moreover
  obtain ars where a: "inline_ruleset cr (addr_lines rule) = Inr ars" "ars = None \<longleftrightarrow> addr_lines rule = []"
      "inline_matches cr ars ?at \<longleftrightarrow> rule_semantics cr (addr_compiled rule) ?at"
    using inline_ruleset_semantics [OF laws addr_from_text [OF av] as no_regexes(1) addr_compiled_empty lim] by blast
  moreover obtain prs where p: "inline_ruleset cr (port_lines rule) = Inr prs" "prs = None \<longleftrightarrow> port_lines rule = []"
      "inline_matches cr prs ?pt \<longleftrightarrow> rule_semantics cr (port_compiled rule) ?pt"
    using inline_ruleset_semantics [OF laws port_from_text [OF pv] ps no_regexes(2) port_compiled_empty plim] by blast
  ultimately obtain r where r: "compile cr rss rule = Inr r" "inbound_tags r = r_inbound rule" "cr_network r = r_network rule"
      "protocols r = map (to_lowercase cr) (r_protocol rule)" "cr_rulesets r = map (\<lambda>tag. the (rss tag)) (r_ruleset rule)"
      "addr_rs r = ars" "port_rs r = prs"
    by (simp add: compile_def)
  have "match_target cr r target \<longleftrightarrow> list_ex (\<lambda>tag. RuleSet_matches cr (the (rss tag)) ?at \<or> RuleSet_matches cr (the (rss tag)) ?pt) (r_ruleset rule)
      \<or> inline_matches cr ars ?at \<or> inline_matches cr prs ?pt"
    by (simp add: match_target_def r Let_def inline_matches_def list_ex_iff)
  also have "\<dots> \<longleftrightarrow> target_meaning cr rss rule target"
    using ok unfolding target_meaning_def a(3) p(3) inline_rule_ok_def by (fastforce simp: list_ex_iff list_all_iff)
  finally have mt: "match_target cr r target \<longleftrightarrow> target_meaning cr rss rule target" .
  have ha: "cr_rulesets r \<noteq> [] \<or> addr_rs r \<noteq> None \<or> port_rs r \<noteq> None \<longleftrightarrow> has_target_conditions rule"
    using a(2) p(2) by (auto simp: r has_target_conditions_def)
  have "rule_matches cr r tag net target proto \<longleftrightarrow> rule_meaning cr rss rule tag net target proto"
    unfolding rule_matches_def rule_meaning_def Let_def ha mt by (auto simp: r(2-4) list_ex_iff)
  with r(1) show ?thesis by blast
qed

section \<open>What the documentation says\<close>

text \<open>
  \<open>config/route.rs:24\<close> and \<open>router/mod.rs:4\<close>: the conditions of a rule that are not empty are joined by AND,
  the values of one condition by OR. One truth value per target condition that is not empty, each taken
  over its own values alone.
\<close>

definition only_addr :: "(RouteRuleConfig \<Rightarrow> RouteRuleConfig) \<Rightarrow> ('f, 'r) crates \<Rightarrow> Target \<Rightarrow> bool" where
  "only_addr set_field cr target =
     rule_semantics cr (addr_compiled (set_field RouteRuleConfig_default)) (target_to_addr_match target)"

definition target_conditions ::
  "('f, 'r) crates \<Rightarrow> (string \<Rightarrow> ('f, 'r) RuleSet option) \<Rightarrow> RouteRuleConfig \<Rightarrow> Target \<Rightarrow> bool list" where
  "target_conditions cr rss rule target =
     (if r_ruleset rule = [] then [] else [list_ex (\<lambda>tag. case rss tag of None \<Rightarrow> False | Some rs \<Rightarrow>
        RuleSet_matches cr rs (target_to_addr_match target) \<or> RuleSet_matches cr rs (TPort (target_port target))) (r_ruleset rule)])
     @ (if r_domain rule = [] then [] else [only_addr (r_domain_update (\<lambda>_. r_domain rule)) cr target])
     @ (if r_domain_suffix rule = [] then [] else [only_addr (r_domain_suffix_update (\<lambda>_. r_domain_suffix rule)) cr target])
     @ (if r_domain_keyword rule = [] then [] else [only_addr (r_domain_keyword_update (\<lambda>_. r_domain_keyword rule)) cr target])
     @ (if r_ip_cidr rule = [] then [] else [only_addr (r_ip_cidr_update (\<lambda>_. r_ip_cidr rule)) cr target])
     @ (if r_port rule = [] \<and> r_port_range rule = [] then []
        else [list_ex (\<lambda>(lo, hi). lo \<le> target_port target \<and> target_port target \<le> hi)
          (map port_pair (r_port rule) @ map (\<lambda>s. projr (parse_port_range s)) (r_port_range rule))])"

definition documented_meaning ::
  "('f, 'r) crates \<Rightarrow> (string \<Rightarrow> ('f, 'r) RuleSet option) \<Rightarrow> RouteRuleConfig \<Rightarrow> string \<Rightarrow> NetworkKind option \<Rightarrow> Target
     \<Rightarrow> string option \<Rightarrow> bool" where
  "documented_meaning cr rss rule tag net target proto \<longleftrightarrow>
     (r_inbound rule = [] \<or> tag \<in> set (r_inbound rule))
     \<and> network_ok (r_network rule) net
     \<and> protocol_ok cr (map (to_lowercase cr) (r_protocol rule)) proto
     \<and> list_all id (target_conditions cr rss rule target)"

lemma addr_semantics_split:
  "rule_semantics cr (addr_compiled rule) (target_to_addr_match target) \<longleftrightarrow>
     only_addr (r_domain_update (\<lambda>_. r_domain rule)) cr target
     \<or> only_addr (r_domain_suffix_update (\<lambda>_. r_domain_suffix rule)) cr target
     \<or> only_addr (r_domain_keyword_update (\<lambda>_. r_domain_keyword rule)) cr target
     \<or> only_addr (r_ip_cidr_update (\<lambda>_. r_ip_cidr rule)) cr target"
  by (cases target)
    (auto simp: only_addr_def addr_compiled_def rule_semantics_def domain_semantics_def
      ip_semantics_def regexes_match_def CompiledRuleSet_default_def RouteRuleConfig_default_def Let_def
      split: IpAddr.splits option.splits)

lemma only_addr_empty:
  "r_domain rule = [] \<Longrightarrow> \<not> only_addr (r_domain_update (\<lambda>_. r_domain rule)) cr target"
  "r_domain_suffix rule = [] \<Longrightarrow> \<not> only_addr (r_domain_suffix_update (\<lambda>_. r_domain_suffix rule)) cr target"
  "r_domain_keyword rule = [] \<Longrightarrow> \<not> only_addr (r_domain_keyword_update (\<lambda>_. r_domain_keyword rule)) cr target"
  "r_ip_cidr rule = [] \<Longrightarrow> \<not> only_addr (r_ip_cidr_update (\<lambda>_. r_ip_cidr rule)) cr target"
  unfolding only_addr_def by (rule addr_compiled_empty; simp add: addr_lines_def RouteRuleConfig_default_def)+

lemma port_semantics:
  "rule_semantics cr (port_compiled rule) (TPort p) \<longleftrightarrow> list_ex (\<lambda>(lo, hi). lo \<le> p \<and> p \<le> hi)
     (map port_pair (r_port rule) @ map (\<lambda>s. projr (parse_port_range s)) (r_port_range rule))"
  by (auto simp: rule_semantics_def port_compiled_def list_ex_iff)

text \<open>The code takes the disjunction of the same truth values.\<close>

lemma target_meaning_conditions:
  "target_meaning cr rss rule target \<longleftrightarrow> list_ex id (target_conditions cr rss rule target)"
proof -
  have "\<not> list_ex (\<lambda>(lo, hi). lo \<le> target_port target \<and> target_port target \<le> hi)
      (map port_pair (r_port rule) @ map (\<lambda>s. projr (parse_port_range s)) (r_port_range rule))"
    if "r_port rule = [] \<and> r_port_range rule = []" using that by simp
  then show ?thesis
    unfolding target_meaning_def target_conditions_def addr_semantics_split port_semantics list_ex_append
    using only_addr_empty [of rule cr target] by auto
qed

lemma has_conditions_iff: "has_target_conditions rule \<longleftrightarrow> target_conditions cr rss rule target \<noteq> []"
  by (auto simp: has_target_conditions_def target_conditions_def addr_lines_def port_lines_def)

section \<open>Properties\<close>

text \<open>
  C2. Compilation of a route rule: with well-formed inline values and known rule sets it succeeds. The
  compiled rule matches every connection that the rule matches as documented, with AND between its
  conditions; and a rule with at most one kind of target condition matches exactly these. Inline values
  take a detour through the rule-set text format, its binary form and the match engine, which changes
  nothing. (A rule with target conditions of several kinds matches more than documented, because the code
  joins them by OR: \<open>compile_meaning\<close>.)
\<close>

theorem compile_rule_semantics:
  assumes "fst_laws cr" and "inline_rule_ok cr rss rule" and "within_limits (target_to_addr_match target)"
  shows "\<exists>r. compile cr rss rule = Inr r
    \<and> (documented_meaning cr rss rule tag net target proto \<longrightarrow> rule_matches cr r tag net target proto)
    \<and> (length (target_conditions cr rss rule target) \<le> 1 \<longrightarrow>
         (rule_matches cr r tag net target proto \<longleftrightarrow> documented_meaning cr rss rule tag net target proto))"
proof -
  let ?cs = "target_conditions cr rss rule target"
  obtain r where r: "compile cr rss rule = Inr r"
      "rule_matches cr r tag net target proto \<longleftrightarrow> rule_meaning cr rss rule tag net target proto"
    using compile_meaning [OF assms] by blast
  have "list_all id ?cs \<longrightarrow> ?cs \<noteq> [] \<longrightarrow> list_ex id ?cs" by (cases ?cs) auto
  moreover have "length ?cs \<le> 1 \<longrightarrow> list_all id ?cs = (?cs \<noteq> [] \<longrightarrow> list_ex id ?cs)"
    by (cases ?cs) (auto simp: Suc_le_eq)
  ultimately show ?thesis
    using r unfolding rule_meaning_def documented_meaning_def target_meaning_conditions has_conditions_iff [of rule cr rss target]
    by blast
qed

definition sample_rule :: RouteRuleConfig where
  "sample_rule = RouteRuleConfig_default\<lparr>r_network := Some FTcp, r_domain_suffix := [''.cn''], r_port := [PortFilter 80 90],
     r_outbound := ''direct''\<rparr>"

definition port_rule :: RouteRuleConfig where
  "port_rule = RouteRuleConfig_default\<lparr>r_network := Some FTcp, r_port := [PortFilter 80 90], r_outbound := ''direct''\<rparr>"

theorem compile_rule_semantics_witness:
  "(\<exists>r. compile sample_crates Map.empty sample_rule = Inr r
     \<and> rule_matches sample_crates r ''in'' (Some Tcp) (Domain ''www.Baidu.cn'' 85) None)
   \<and> (\<exists>r. compile sample_crates Map.empty port_rule = Inr r
     \<and> \<not> rule_matches sample_crates r ''in'' (Some Tcp) (Domain ''www.Baidu.cn'' 91) None)"
proof -
  have "inline_rule_ok sample_crates Map.empty sample_rule" "inline_rule_ok sample_crates Map.empty port_rule"
    by code_simp+
  moreover have "within_limits (target_to_addr_match (Domain ''www.Baidu.cn'' 85))"
    "within_limits (target_to_addr_match (Domain ''www.Baidu.cn'' 91))" by code_simp+
  moreover have "documented_meaning sample_crates Map.empty sample_rule ''in'' (Some Tcp) (Domain ''www.Baidu.cn'' 85) None"
    "\<not> documented_meaning sample_crates Map.empty port_rule ''in'' (Some Tcp) (Domain ''www.Baidu.cn'' 91) None"
    "length (target_conditions sample_crates Map.empty port_rule (Domain ''www.Baidu.cn'' 91)) \<le> 1" by code_simp+
  ultimately show ?thesis using compile_rule_semantics [OF sample_crates_laws] by meson
qed

text \<open>
  C3. The search after sniffing is the search of a router that was configured without the sniff
  rules: the precomputed index drops exactly those rules and is always in bounds.
\<close>

theorem post_sniff_equivalence:
  assumes "from_config cr rd wr config w = Inr (r, w')"
  shows "\<exists>r'. from_config cr rd wr (config\<lparr>rc_rules := filter (\<lambda>x. \<not> r_sniff x) (rc_rules config)\<rparr>) w = Inr (r', w')
    \<and> (\<forall>conn target. route_tcp_after_sniff cr r conn target =
          Some (route cr r' (tcp_inbound_tag conn) (Some Tcp) target (tcp_sniffed_protocol conn)))
    \<and> (\<forall>packet. route_udp_after_sniff cr r packet = Some (route_udp cr r' packet))"
proof -
  obtain r' where r': "from_config cr rd wr (config\<lparr>rc_rules := filter (\<lambda>x. \<not> r_sniff x) (rc_rules config)\<rparr>) w = Inr (r', w')"
      "rules r' = filter (\<lambda>x. \<not> is_sniff (action x)) (rules r)" "default_a r' = default_a r"
    using from_config_filter [OF assms, of is_sniff "\<lambda>x. \<not> r_sniff x"] by auto
  then show ?thesis
    by (simp add: route_tcp_after_sniff_def route_udp_after_sniff_def route_def route_udp_def
        from_config_indices [OF assms] route_indexed_filter)
qed

definition sample_world :: world where
  "sample_world = \<lparr>w_files = Map.empty, w_parent = Map.empty, w_read_error = (\<lambda>_. []), w_mkdir_error = Map.empty,
     w_write_error = Map.empty, w_download = (\<lambda>_. Inl []), w_now = 0, w_cache_store = []\<rparr>"

definition sample_config :: RouteConfig where
  "sample_config = \<lparr>rc_rules = [RouteRuleConfig_default\<lparr>r_sniff := True\<rparr>, RouteRuleConfig_default\<lparr>r_resolve := True\<rparr>, sample_rule],
     rc_final = ''proxy'', rc_rule_set = [], rc_resolve_dns = False\<rparr>"

lemma compile_Inr: "fst_laws cr \<Longrightarrow> inline_rule_ok cr rss rule \<Longrightarrow> compile cr rss rule = Inr (projr (compile cr rss rule))"
  using compile_meaning [of cr rss rule "Domain [] 0"] by (fastforce simp: within_limits_def trim_end_matches_def)

lemma sample_router: "\<exists>r. from_config sample_crates None False sample_config sample_world = Inr (r, sample_world)"
proof -
  let ?c = "compile sample_crates Map.empty"
  have ok: "list_all (inline_rule_ok sample_crates Map.empty) (rc_rules sample_config)" by code_simp
  have h: "check_hijack (rc_rules sample_config) = Inr ()" by code_simp
  have "res_map ?c (rc_rules sample_config) = Inr (map (\<lambda>r. projr (?c r)) (rc_rules sample_config))"
    by (rule res_map_Inr, rule compile_Inr [OF sample_crates_laws]) (use ok in \<open>simp add: list_all_iff\<close>)
  moreover have "rc_rule_set sample_config = []" by (simp add: sample_config_def)
  ultimately show ?thesis using h by (simp add: from_config_def load_all_def)
qed

theorem post_sniff_equivalence_witness:
  "\<exists>r r'. from_config sample_crates None False sample_config sample_world = Inr (r, sample_world)
    \<and> from_config sample_crates None False
        (sample_config\<lparr>rc_rules := filter (\<lambda>x. \<not> r_sniff x) (rc_rules sample_config)\<rparr>) sample_world = Inr (r', sample_world)
    \<and> (\<forall>packet. route_udp_after_sniff sample_crates r packet = Some (route_udp sample_crates r' packet))"
  using sample_router post_sniff_equivalence by blast

text \<open>
  C4. After resolving, one more search settles the connection: its action is never another sniff or
  resolve, for TCP and for UDP, whatever the rules, the target and the \<open>final\<close> outbound are.
\<close>

theorem post_resolve_settles:
  assumes "from_config cr rd wr config w = Inr (r, w')"
  shows "\<exists>d e. route_tcp_after_resolve cr r conn target = Some d \<and> route_udp_after_resolve cr r packet target = Some e
    \<and> \<not> is_sniff_or_resolve (fst d) \<and> \<not> is_sniff_or_resolve (fst e)"
  using after_resolve_total(1) [OF assms, of conn target] after_resolve_total(2) [OF assms, of packet target] by blast

theorem post_resolve_settles_witness:
  "\<exists>r d e. from_config sample_crates None False sample_config sample_world = Inr (r, sample_world)
    \<and> route_tcp_after_resolve sample_crates r
        \<lparr>stream = SniffedStream_new [], tcp_target = Domain ''a'' 1, tcp_inbound_tag = [], tcp_sniffed_protocol = None,
         tcp_sniffed_domain = None\<rparr> (Domain ''a'' 1) = Some d
    \<and> \<not> is_sniff_or_resolve (fst d)"
  using sample_router post_resolve_settles by meson

text \<open>
  Refreshing a remote rule set changes the registry entry and no routing decision: the compiled
  rules hold the rule sets they were built with.
\<close>

theorem reload_keeps_decisions:
  assumes "reload_remote_ruleset cr tag r w = Inr (r', w')"
  shows "rulesets_m r' tag \<noteq> None \<and> (\<forall>conn. route_tcp cr r' conn = route_tcp cr r conn)
    \<and> (\<forall>packet. route_udp cr r' packet = route_udp cr r packet)"
  using assms
  by (auto simp: reload_remote_ruleset_def result_simps Let_def route_tcp_def route_udp_def route_def split: if_splits)

definition reload_router :: "(bytes list, string list) Router" where
  "reload_router = \<lparr>rules = [], idx_no_sniff = [], idx_no_sniff_resolve = [], default_a = DnsOut, rulesets_m = Map.empty,
     ruleset_meta = Map.empty, route_config = sample_config\<lparr>rc_rule_set :=
       [\<lparr>rsr_tag = ''cn'', rsr_type = Remote, rsr_path = None, rsr_url = Some ''u'', rsr_download_detour = None\<rparr>]\<rparr>\<rparr>"

theorem reload_keeps_decisions_witness:
  "\<exists>r' w'. reload_remote_ruleset sample_crates ''cn'' reload_router (sample_world\<lparr>w_download := (\<lambda>_. Inr (Inr (file_header 0)))\<rparr>)
      = Inr (r', w') \<and> rulesets_m r' ''cn'' \<noteq> None"
proof -
  have "\<not> isl (reload_remote_ruleset sample_crates ''cn'' reload_router (sample_world\<lparr>w_download := (\<lambda>_. Inr (Inr (file_header 0)))\<rparr>))"
    by code_simp
  then obtain r' w' where "reload_remote_ruleset sample_crates ''cn'' reload_router
      (sample_world\<lparr>w_download := (\<lambda>_. Inr (Inr (file_header 0)))\<rparr>) = Inr (r', w')"
    by (metis isl_def sum.exhaust surj_pair)
  then show ?thesis using reload_keeps_decisions by blast
qed

text \<open>
  A rule with an address condition and a port condition matches a connection that satisfies only
  the port condition: the two kinds of target conditions are alternatives.
\<close>

theorem address_and_port_conditions_are_alternatives:
  "\<exists>r. compile sample_crates Map.empty sample_rule = Inr r
    \<and> rule_matches sample_crates r ''in'' (Some Tcp) (Domain ''www.google.com'' 80) None"
proof -
  have "inline_rule_ok sample_crates Map.empty sample_rule" by code_simp
  moreover have "within_limits (target_to_addr_match (Domain ''www.google.com'' 80))" by code_simp
  moreover have "rule_meaning sample_crates Map.empty sample_rule ''in'' (Some Tcp) (Domain ''www.google.com'' 80) None" by code_simp
  ultimately show ?thesis using compile_meaning [OF sample_crates_laws] by blast
qed

text \<open>
  A port filter survives its JSON form: what \<open>Serialize\<close> writes, a number or a range string,
  \<open>Deserialize\<close> reads back, for every ordered range.
\<close>

theorem port_filter_json_roundtrip:
  "lo \<le> hi \<Longrightarrow> PortFilter_deserialize (PortFilter_serialize (PortFilter lo hi)) = Some (PortFilter lo hi)"
  by (rule PortFilter_roundtrip)

theorem port_filter_json_roundtrip_witness:
  "PortFilter_deserialize (PortFilter_serialize (PortFilter 8000 9000)) = Some (PortFilter 8000 9000)"
  using port_filter_json_roundtrip [of 8000 9000] by simp

end
