(* ===== verification/Dispatcher_Correct.thy ===== *)
theory Dispatcher_Correct
  imports Dispatcher Router_Correct
begin

text \<open>
  What the dispatcher guarantees: every connection settles on an action that dispatch can run, without
  losing the port or the bytes of the client; sessions are kept apart; DNS over TCP answers every
  query; and dispatching accounts for exactly the connection it runs.
\<close>

section \<open>Settling\<close>

lemma is_sniff_cases: "is_sniff a \<longleftrightarrow> (\<exists>t ov tys. a = Sniff t ov tys)"
  by (cases a) (auto simp: is_sniff_def)

lemma is_sniff_or_resolve_cases: "is_sniff_or_resolve a \<longleftrightarrow> is_sniff a \<or> (\<exists>s. a = Resolve s)"
  by (cases a) (auto simp: is_sniff_def is_sniff_or_resolve_def)

lemma detect_tcp_dns_total: "\<exists>b. detect_tcp_dns conn = Some (if b then conn\<lparr>tcp_sniffed_protocol := Some ''dns''\<rparr> else conn)"
proof -
  obtain b where "is_dns_wire (drop 2 (prefix_bytes (stream conn))) = Some b" using is_dns_wire_total by auto
  then have "detect_tcp_dns conn = Some (if (target_port (tcp_target conn) = 53 \<and> tcp_sniffed_protocol conn = None
      \<and> 14 \<le> length (prefix_bytes (stream conn))) \<and> b then conn\<lparr>tcp_sniffed_protocol := Some ''dns''\<rparr> else conn)"
    by (simp add: detect_tcp_dns_def)
  then show ?thesis by blast
qed

lemma restore_fakeip_port [simp]: "target_port (restore_fakeip ops t) = target_port t"
  by (cases t) (simp_all split: option.splits)

lemma apply_sniff_frame [simp]:
  "target_port (tcp_target (apply_sniff ov res conn)) = target_port (tcp_target conn)"
  "stream (apply_sniff ov res conn) = stream conn"
  "tcp_inbound_tag (apply_sniff ov res conn) = tcp_inbound_tag conn"
  by (simp_all add: apply_sniff_def Let_def split: option.splits)

text \<open>What settling keeps of a connection: the port, the inbound tag and, for a stream whose prefix is
  empty, the bytes to be relayed.\<close>

definition keeps_conn :: "InboundTcpStream \<Rightarrow> InboundTcpStream \<Rightarrow> bool" where
  "keeps_conn c c' \<longleftrightarrow>
     target_port (tcp_target c') = target_port (tcp_target c) \<and> tcp_inbound_tag c' = tcp_inbound_tag c
     \<and> (prefix_bytes (stream c) = [] \<longrightarrow> pending (stream c') = pending (stream c))"

lemma sniff_conn_keeps: "\<exists>c'. sniff_conn arrives ov tys c = Some c' \<and> keeps_conn c c'"
proof -
  obtain res st where s: "sniff (stream c) arrives tys = Some (res, st)" using sniff_total by fastforce
  let ?c = "apply_sniff ov res (c\<lparr>stream := st\<rparr>)"
  obtain b where d: "detect_tcp_dns ?c = Some (if b then ?c\<lparr>tcp_sniffed_protocol := Some ''dns''\<rparr> else ?c)"
    using detect_tcp_dns_total by blast
  have "keeps_conn c (if b then ?c\<lparr>tcp_sniffed_protocol := Some ''dns''\<rparr> else ?c)"
    using sniff_nondestructive [OF s] by (simp add: keeps_conn_def)
  with s d show ?thesis by (simp add: sniff_conn_def)
qed

text \<open>The two stages of settling.\<close>

definition first_stage ::
  "('f, 'r) crates \<Rightarrow> ('f, 'r) Router \<Rightarrow> nat \<Rightarrow> InboundTcpStream \<Rightarrow> (InboundTcpStream \<times> decision) option" where
  "first_stage cr router arrives conn =
     (case fst (route_tcp cr router conn) of
        Sniff timeout_ms ov tys \<Rightarrow> do {
          c \<leftarrow> sniff_conn arrives ov tys conn;
          d \<leftarrow> route_tcp_after_sniff cr router c (tcp_target c);
          Some (c, d)
        }
      | _ \<Rightarrow> Some (conn, route_tcp cr router conn))"

lemma settle_tcp_stages:
  "settle_tcp cr router ops arrives conn =
     do { (c, d) \<leftarrow> first_stage cr router arrives (conn\<lparr>tcp_target := restore_fakeip ops (tcp_target conn)\<rparr>);
          d \<leftarrow> after_resolve_tcp cr router ops c d; Some (c, d) }"
  by (simp add: settle_tcp_def first_stage_def Let_def)

lemma first_stage_total:
  assumes "from_config cr rd wr config w = Inr (r, w')"
  shows "\<exists>c' d. first_stage cr r arrives c = Some (c', d) \<and> \<not> is_sniff (fst d) \<and> keeps_conn c c'"
proof (cases "is_sniff (fst (route_tcp cr r c))")
  case True
  then obtain t ov tys where s: "fst (route_tcp cr r c) = Sniff t ov tys" by (auto simp: is_sniff_cases)
  obtain c' where c': "sniff_conn arrives ov tys c = Some c'" "keeps_conn c c'" using sniff_conn_keeps by blast
  obtain d where "route_tcp_after_sniff cr r c' (tcp_target c') = Some d" "\<not> is_sniff (fst d)"
    using after_sniff_total(1) [OF assms] by blast
  then show ?thesis using s c' by (simp add: first_stage_def)
next
  case False
  then have "first_stage cr r arrives c = Some (c, route_tcp cr r c)"
    by (cases "fst (route_tcp cr r c)") (simp_all add: first_stage_def is_sniff_def)
  then show ?thesis using False by (simp add: keeps_conn_def)
qed

lemma after_resolve_tcp_total:
  assumes "from_config cr rd wr config w = Inr (r, w')" and "\<not> is_sniff (fst d)"
  shows "\<exists>d'. after_resolve_tcp cr r ops c d = Some d' \<and> \<not> is_sniff_or_resolve (fst d')"
  using after_resolve_total(1) [OF assms(1)] assms(2)
  by (cases "fst d") (auto simp: after_resolve_tcp_def is_sniff_or_resolve_cases is_sniff_cases)

lemma settle_tcp_total:
  assumes "from_config cr rd wr config w = Inr (r, w')"
  shows "\<exists>c' d. settle_tcp cr r ops arrives c = Some (c', d) \<and> \<not> is_sniff_or_resolve (fst d) \<and> keeps_conn c c'"
proof -
  let ?c = "c\<lparr>tcp_target := restore_fakeip ops (tcp_target c)\<rparr>"
  obtain c' d where f: "first_stage cr r arrives ?c = Some (c', d)" "\<not> is_sniff (fst d)" "keeps_conn ?c c'"
    using first_stage_total [OF assms] by blast
  moreover have "keeps_conn c c'" using f(3) by (simp add: keeps_conn_def)
  moreover obtain d' where "after_resolve_tcp cr r ops c' d = Some d'" "\<not> is_sniff_or_resolve (fst d')"
    using after_resolve_tcp_total [OF assms f(2)] by blast
  ultimately show ?thesis by (simp add: settle_tcp_stages)
qed

lemma detect_udp_dns_total:
  "\<exists>b. detect_udp_dns packet = Some (if b then packet\<lparr>udp_sniffed_protocol := Some ''dns''\<rparr> else packet)"
proof -
  obtain b where "is_dns_wire (udp_data packet) = Some b" using is_dns_wire_total by auto
  then have "detect_udp_dns packet = Some (if udp_sniffed_protocol packet = None \<and> b
      then packet\<lparr>udp_sniffed_protocol := Some ''dns''\<rparr> else packet)"
    by (simp add: detect_udp_dns_def)
  then show ?thesis by blast
qed

definition keeps_packet :: "InboundUdpPacket \<Rightarrow> InboundUdpPacket \<Rightarrow> bool" where
  "keeps_packet p p' \<longleftrightarrow>
     udp_data p' = udp_data p \<and> udp_src p' = udp_src p \<and> udp_inbound_tag p' = udp_inbound_tag p
     \<and> target_port (udp_target p') = target_port (udp_target p)"

lemma settle_udp_total:
  assumes "from_config cr rd wr config w = Inr (r, w')"
  shows "\<exists>p' d. settle_udp cr r ops p = Some (p', d) \<and> \<not> is_sniff_or_resolve (fst d) \<and> keeps_packet p p'"
proof -
  let ?p = "p\<lparr>udp_target := restore_fakeip ops (udp_target p)\<rparr>"
  obtain b where "detect_udp_dns ?p = Some (if b then ?p\<lparr>udp_sniffed_protocol := Some ''dns''\<rparr> else ?p)"
    using detect_udp_dns_total by blast
  then obtain p' where p': "detect_udp_dns ?p = Some p'" "keeps_packet p p'" by (auto simp: keeps_packet_def)
  have "\<exists>d. (case fst (route_udp cr r p') of Sniff _ _ _ \<Rightarrow> route_udp_after_sniff cr r p' | _ \<Rightarrow> Some (route_udp cr r p')) = Some d
      \<and> \<not> is_sniff (fst d)"
    using after_sniff_total(2) [OF assms, of p']
    by (cases "fst (route_udp cr r p')") (auto simp: is_sniff_def)
  then obtain d where d: "(case fst (route_udp cr r p') of Sniff _ _ _ \<Rightarrow> route_udp_after_sniff cr r p' | _ \<Rightarrow> Some (route_udp cr r p')) = Some d"
    "\<not> is_sniff (fst d)" by blast
  have "\<exists>d'. (case fst d of Resolve server \<Rightarrow> route_udp_after_resolve cr r p' (resolve_target ops server (udp_target p')) | _ \<Rightarrow> Some d) = Some d'
      \<and> \<not> is_sniff_or_resolve (fst d')"
    using after_resolve_total(2) [OF assms, of p'] d(2)
    by (cases "fst d") (auto simp: is_sniff_or_resolve_cases is_sniff_cases)
  then show ?thesis using p' d by (auto simp: settle_udp_def Let_def)
qed

section \<open>Sessions\<close>

text \<open>What a packet does to the table, with the session of its key alive or not.\<close>

definition session_key :: "(SocketAddr \<Rightarrow> string) \<Rightarrow> string \<Rightarrow> InboundUdpPacket \<Rightarrow> UdpSessionKey" where
  "session_key show_addr tg p = (udp_src p, target_display show_addr (udp_target p), tg)"

definition no_session :: "UdpSessionTable \<Rightarrow> UdpSessionKey \<Rightarrow> bool" where
  "no_session t key \<longleftrightarrow> (case t key of Some h \<Rightarrow> is_closed h | None \<Rightarrow> True)"

lemma session_send_new:
  "no_session t (session_key show_addr tg p) \<Longrightarrow>
     session_send show_addr now p tg t =
       (Start p tg (udp_timeout_for_port (target_port (udp_target p))),
        t(session_key show_addr tg p \<mapsto> \<lparr>queue = [udp_data p], is_closed = False, last_seen = now\<rparr>))"
  by (auto simp: session_send_def session_key_def no_session_def get_live_def try_send_def Let_def split: option.splits)

lemma session_send_live:
  "t (session_key show_addr tg p) = Some h \<Longrightarrow> \<not> is_closed h \<Longrightarrow>
     session_send show_addr now p tg t =
       (Reuse, t(session_key show_addr tg p \<mapsto>
          h\<lparr>queue := (if length (queue h) < 64 then queue h @ [udp_data p] else queue h), last_seen := now\<rparr>))"
  by (auto simp: session_send_def session_key_def get_live_def try_send_def Let_def)

fun send_all ::
  "(SocketAddr \<Rightarrow> string) \<Rightarrow> string \<Rightarrow> (nat \<times> InboundUdpPacket) list \<Rightarrow> UdpSessionTable \<Rightarrow> udp_effect list \<times> UdpSessionTable" where
  "send_all show_addr tg [] t = ([], t)"
| "send_all show_addr tg ((now, p) # ps) t =
     (let (e, t) = session_send show_addr now p tg t; (es, t) = send_all show_addr tg ps t in (e # es, t))"

lemma send_all_live:
  assumes "\<forall>(now, p) \<in> set ps. session_key show_addr tg p = key"
    and "t key = Some h" and "\<not> is_closed h" and "length (queue h) \<le> 64"
  shows "send_all show_addr tg ps t =
    (replicate (length ps) Reuse,
     t(key \<mapsto> h\<lparr>queue := take 64 (queue h @ map (\<lambda>x. udp_data (snd x)) ps), last_seen := fst (last ((last_seen h, undefined) # ps))\<rparr>))"
  using assms
proof (induction ps arbitrary: t h)
  case Nil
  then show ?case by (auto simp: fun_upd_idem)
next
  case (Cons x ps)
  obtain now p where x: "x = (now, p)" by (cases x)
  have k: "session_key show_addr tg p = key" using Cons.prems(1) x by simp
  let ?h = "h\<lparr>queue := (if length (queue h) < 64 then queue h @ [udp_data p] else queue h), last_seen := now\<rparr>"
  have s: "session_send show_addr now p tg t = (Reuse, t(key \<mapsto> ?h))"
    using session_send_live [of t show_addr tg p h now] Cons.prems k by simp
  have "send_all show_addr tg ps (t(key \<mapsto> ?h)) =
    (replicate (length ps) Reuse,
     (t(key \<mapsto> ?h))(key \<mapsto> ?h\<lparr>queue := take 64 (queue ?h @ map (\<lambda>x. udp_data (snd x)) ps),
        last_seen := fst (last ((last_seen ?h, undefined) # ps))\<rparr>))"
    by (rule Cons.IH) (use Cons.prems x in auto)
  moreover have "take 64 (queue ?h @ xs) = take 64 (queue h @ udp_data p # xs)" for xs
    using Cons.prems(4) by (auto simp: take_Cons')
  moreover have "fst (last ((last_seen ?h, undefined) # ps)) = fst (last ((last_seen h, undefined) # x # ps))"
    using x by simp
  ultimately show ?case using s unfolding x by (simp add: fun_eq_iff del: last.simps take_append)
qed

section \<open>DNS over TCP\<close>

definition dns_frame :: "bytes \<Rightarrow> bytes" where
  "dns_frame m = u16_be (word_of_nat (length m)) @ m"

lemma handle_dns_tcp_frames:
  assumes "\<And>q. q \<in> set qs \<Longrightarrow> length q \<le> 4096 \<and> dns \<lparr>q_message = q, q_from = peer, q_inbound_tag = itag\<rparr> = Inr (answer q)"
    and "\<And>out. can_write out"
  shows "handle_dns_tcp dns can_write peer itag (concat (map dns_frame qs)) out =
    (Inr (), out @ concat (map (\<lambda>q. dns_frame (answer q)) qs))"
  using assms(1)
proof (induction qs arbitrary: out)
  case (Cons q qs)
  let ?in = "dns_frame q @ concat (map dns_frame qs)"
  have q: "length q \<le> 4096" "dns \<lparr>q_message = q, q_from = peer, q_inbound_tag = itag\<rparr> = Inr (answer q)"
    using Cons.prems [of q] by simp_all
  have two: "length (u16_be w) = 2" for w :: u16 by simp
  have len: "unat (u16_of_be (take 2 ?in)) = length q"
    using q(1) by (simp add: dns_frame_def int_codec_roundtrip two unsigned_of_nat take_bit_nat_eq_self)
  have "handle_dns_tcp dns can_write peer itag ?in out =
      handle_dns_tcp dns can_write peer itag (concat (map dns_frame qs)) (out @ dns_frame (answer q))"
    using q assms(2) len by (subst handle_dns_tcp.simps) (simp add: Let_def dns_frame_def two)
  also have "\<dots> = (Inr (), (out @ dns_frame (answer q)) @ concat (map (\<lambda>q. dns_frame (answer q)) qs))"
    by (rule Cons.IH) (use Cons.prems in auto)
  finally show ?case by simp
qed (subst handle_dns_tcp.simps, simp)

section \<open>Accounting\<close>

text \<open>An outbound that leaves the statistics and the table of connections as they are: no other
  connection starts or ends while it runs.\<close>

definition quiet :: "tcp_outbound \<Rightarrow> bool" where
  "quiet ob \<longleftrightarrow> (\<forall>conn live c. stats (snd (ob conn live c)) = stats c
     \<and> conns (conn_tracker (snd (ob conn live c))) = conns (conn_tracker c))"

lemma delete_fresh: "i \<notin> set (map fst al) \<Longrightarrow> AList.delete i (al @ [(i, m)]) = al"
  by (induction al) auto

lemma register_conns:
  assumes "next_id t \<notin> set (map fst (conns t))" and "register show_ip now info rule t = (i, t')"
  shows "\<exists>m. conns t' = conns t @ [(i, m)] \<and> i \<notin> set (map fst (conns t)) \<and> live_counters i t' = Some (m_upload m, m_download m)"
proof -
  have "map_of (conns t) (next_id t) = None" using assms(1) by (simp add: map_of_eq_None_iff)
  then show ?thesis
    using assms update_fresh [OF assms(1)]
    by (auto simp: register_def Let_def live_counters_def tracker_get_def map_add_def)
qed

lemma dispatch_outbound:
  assumes "registry_ok (stats c)" and "next_id (conn_tracker c) \<notin> set (map fst (conns (conn_tracker c)))"
    and "mgr tg = Some ob" and "quiet ob"
  shows "\<exists>res c'. dispatch_tcp show_ip mgr dns cw now peer conn (Outbound tg) ri c = Some (map_sum id (\<lambda>_. ()) res, c')
    \<and> conns (conn_tracker c') = conns (conn_tracker c)
    \<and> block_of (stats c') = (block_of (stats c)) (tg :=
        (case res of
           Inr (up, down) \<Rightarrow> (block_of (stats c) tg)\<lparr>tcp_total := tcp_total (block_of (stats c) tg) + 1,
             bytes_up := bytes_up (block_of (stats c) tg) + up, bytes_down := bytes_down (block_of (stats c) tg) + down\<rparr>
         | Inl e \<Rightarrow> (block_of (stats c) tg)\<lparr>tcp_total := tcp_total (block_of (stats c) tg) + 1,
             errors := errors (block_of (stats c) tg) + 1\<rparr>))"
proof -
  obtain a st where t: "tag (stats c) tg = (a, st)" by (cases "tag (stats c) tg")
  have st: "registry_ok st" "tag_read st tg = Some a" "block_of st = block_of (stats c)" using tag_ok [OF assms(1) t] by auto
  let ?source = "case peer of Some a \<Rightarrow> a | None \<Rightarrow> any_addr"
  let ?info = "\<lparr>ci_network = ''tcp'', ci_host = target_host show_ip (tcp_target conn), ci_source = ?source,
      ci_dest_port = target_port (tcp_target conn), ci_inbound = tcp_inbound_tag conn, ci_outbound = tg\<rparr>"
  obtain i tr where r: "register show_ip now ?info ri (conn_tracker c) = (i, tr)"
    by (cases "register show_ip now ?info ri (conn_tracker c)")
  obtain m where m: "conns tr = conns (conn_tracker c) @ [(i, m)]" "i \<notin> set (map fst (conns (conn_tracker c)))"
    "live_counters i tr = Some (m_upload m, m_download m)" using register_conns [OF assms(2) r] by blast
  let ?c1 = "c\<lparr>stats := TcpGuard_new a st, conn_tracker := tr\<rparr>"
  obtain res c2 where o: "ob conn (m_upload m, m_download m) ?c1 = (res, c2)" by (cases "ob conn (m_upload m, m_download m) ?c1")
  have c2: "stats c2 = TcpGuard_new a st" "conns (conn_tracker c2) = conns tr"
    using assms(4) o unfolding quiet_def by (metis core.select_convs core.surjective core.update_convs snd_conv)+
  let ?c3 = "case res of Inr (up, down) \<Rightarrow> c2\<lparr>stats := TcpGuard_add_bytes a up down (stats c2)\<rparr>
      | Inl e \<Rightarrow> c2\<lparr>stats := TcpGuard_record_error a (stats c2)\<rparr>"
  let ?c4 = "?c3\<lparr>conn_tracker := ConnGuard_drop i (conn_tracker ?c3)\<rparr>"
  let ?c5 = "?c4\<lparr>stats := TcpGuard_drop a (stats ?c4)\<rparr>"
  have "dispatch_tcp show_ip mgr dns cw now peer conn (Outbound tg) ri c = Some (map_sum id (\<lambda>_. ()) res, ?c5)"
    using assms(3) t r m(3) o by (simp add: dispatch_tcp_def Let_def)
  moreover have "conns (conn_tracker ?c5) = conns (conn_tracker c)"
    using c2 m delete_fresh [OF m(2)]
    by (simp add: ConnGuard_drop_def tracker_remove_def split: sum.splits prod.splits)
  moreover have "block_of (stats ?c5) u = ((block_of (stats c)) (tg :=
        (case res of
           Inr (up, down) \<Rightarrow> (block_of (stats c) tg)\<lparr>tcp_total := tcp_total (block_of (stats c) tg) + 1,
             bytes_up := bytes_up (block_of (stats c) tg) + up, bytes_down := bytes_down (block_of (stats c) tg) + down\<rparr>
         | Inl e \<Rightarrow> (block_of (stats c) tg)\<lparr>tcp_total := tcp_total (block_of (stats c) tg) + 1,
             errors := errors (block_of (stats c) tg) + 1\<rparr>))) u" for u
    using c2 st by (cases res) (auto simp: guard_defs block_of_update)
  ultimately show ?thesis by blast
qed

section \<open>Properties\<close>

text \<open>
  C7. Every TCP connection is settled and dispatched: whatever the rules, the resolver and the first
  bytes are, \<open>run_tcp\<close> reaches an action without an index out of bounds, that action is never the one
  \<open>dispatch_tcp\<close> declares unreachable, the port and the inbound tag of the connection are kept, and no
  byte the sniffer read is lost.
\<close>

theorem tcp_connection_settles:
  assumes "from_config cr rd wr config w = Inr (r, w')"
  shows "\<exists>conn' d res c'. settle_tcp cr r ops arrives conn = Some (conn', d) \<and> keeps_conn conn conn'
    \<and> dispatch_tcp show_ip mgr dns cw now peer conn' (fst d) ri c = Some (res, c')"
proof -
  obtain conn' d where s: "settle_tcp cr r ops arrives conn = Some (conn', d)" "\<not> is_sniff_or_resolve (fst d)" "keeps_conn conn conn'"
    using settle_tcp_total [OF assms] by blast
  have "dispatch_tcp show_ip mgr dns cw now peer conn' (fst d) ri c \<noteq> None"
    using s(2) by (cases "fst d") (simp_all add: dispatch_tcp_def is_sniff_or_resolve_def Let_def split: prod.splits option.splits)
  then show ?thesis using s by fastforce
qed

theorem tcp_connection_settles_witness:
  "\<exists>r conn' d res c'. from_config sample_crates None False sample_config sample_world = Inr (r, sample_world)
    \<and> settle_tcp sample_crates r \<lparr>lookup_fakeip = \<lambda>_. None, resolve_domain = \<lambda>_. Inl [], resolve_domain_via = \<lambda>_ _. Inl []\<rparr> 100
        \<lparr>stream = SniffedStream_new (as_bytes ''SSH-2.0''), tcp_target = Domain ''a'' 1, tcp_inbound_tag = [],
         tcp_sniffed_protocol = None, tcp_sniffed_domain = None\<rparr> = Some (conn', d)
    \<and> dispatch_tcp (\<lambda>_. []) (\<lambda>_. None) (\<lambda>_. Inl []) (\<lambda>_. True) 0 None conn' (fst d) \<lparr>ri_type = [], ri_payload = []\<rparr>
        \<lparr>stats = Stats_new, conn_tracker = ConnectionTracker_new\<rparr> = Some (res, c')"
  using sample_router tcp_connection_settles by meson

text \<open>
  Every UDP packet is settled: \<open>run_udp\<close> either dispatches a DNS query and leaves the sessions alone,
  or hands the packet, with its data, source and port unchanged, to the session of its source, target
  and outbound.
\<close>

theorem udp_packet_settles:
  assumes "from_config cr rd wr config w = Inr (r, w')"
  shows "\<exists>p. keeps_packet packet p
    \<and> (run_udp_packet cr r ops show_addr now packet t = Some (Dispatch p DnsOut, t)
       \<or> (\<exists>tg. run_udp_packet cr r ops show_addr now packet t = Some (session_send show_addr now p tg t)))"
proof -
  obtain p d where s: "settle_udp cr r ops packet = Some (p, d)" "\<not> is_sniff_or_resolve (fst d)" "keeps_packet packet p"
    using settle_udp_total [OF assms] by blast
  then show ?thesis
    by (cases "fst d") (auto simp: run_udp_packet_def is_sniff_or_resolve_def)
qed

theorem udp_packet_settles_witness:
  "\<exists>r. from_config sample_crates None False sample_config sample_world = Inr (r, sample_world)
    \<and> run_udp_packet sample_crates r \<lparr>lookup_fakeip = \<lambda>_. None, resolve_domain = \<lambda>_. Inl [], resolve_domain_via = \<lambda>_ _. Inl []\<rparr>
        (\<lambda>_. []) 0 \<lparr>udp_data = [1], udp_src = any_addr, udp_target = Domain ''a'' 1, udp_inbound_tag = [],
          udp_sniffed_protocol = None, udp_sniffed_domain = None\<rparr> UdpSessionTable_new \<noteq> None"
  using sample_router udp_packet_settles by (metis option.distinct(1))

text \<open>
  Packets of one source, target and outbound share one session: the first starts it, the others are
  queued in order behind it, at most 64 wait and later ones are dropped, and no other session changes,
  as long as the session task has not received anything.
\<close>

theorem udp_session_fifo:
  assumes "\<forall>(now, p) \<in> set ((now0, p0) # ps). session_key show_addr tg p = key" and "no_session t key"
  shows "send_all show_addr tg ((now0, p0) # ps) t =
    (Start p0 tg (udp_timeout_for_port (target_port (udp_target p0))) # replicate (length ps) Reuse,
     t(key \<mapsto> \<lparr>queue = take 64 (map (\<lambda>x. udp_data (snd x)) ((now0, p0) # ps)), is_closed = False,
              last_seen = fst (last ((now0, p0) # ps))\<rparr>))"
proof -
  let ?h = "\<lparr>queue = [udp_data p0], is_closed = False, last_seen = now0\<rparr>"
  have k: "session_key show_addr tg p0 = key" using assms(1) by simp
  have "send_all show_addr tg ps (t(key \<mapsto> ?h)) = (replicate (length ps) Reuse,
     (t(key \<mapsto> ?h))(key \<mapsto> ?h\<lparr>queue := take 64 (queue ?h @ map (\<lambda>x. udp_data (snd x)) ps), last_seen := fst (last ((last_seen ?h, undefined) # ps))\<rparr>))"
    by (rule send_all_live) (use assms in auto)
  then show ?thesis
    using session_send_new [of t show_addr tg p0 now0] assms(2) k by (simp add: Let_def)
qed

theorem udp_session_fifo_witness:
  "\<exists>t'. send_all (\<lambda>_. ''ip'') ''out''
     [(5, \<lparr>udp_data = [1], udp_src = any_addr, udp_target = Domain ''a'' 443, udp_inbound_tag = [], udp_sniffed_protocol = None, udp_sniffed_domain = None\<rparr>),
      (6, \<lparr>udp_data = [2], udp_src = any_addr, udp_target = Domain ''a'' 443, udp_inbound_tag = [], udp_sniffed_protocol = None, udp_sniffed_domain = None\<rparr>)]
     UdpSessionTable_new = ([Start \<lparr>udp_data = [1], udp_src = any_addr, udp_target = Domain ''a'' 443, udp_inbound_tag = [],
         udp_sniffed_protocol = None, udp_sniffed_domain = None\<rparr> ''out'' 30, Reuse], t')
    \<and> t' (any_addr, ''a:443'', ''out'') = Some \<lparr>queue = [[1], [2]], is_closed = False, last_seen = 6\<rparr>"
proof -
  have "show_nat 443 = ''443''" by code_simp
  then show ?thesis
    by (subst udp_session_fifo [where key = "(any_addr, ''a:443'', ''out'')"])
      (simp_all add: session_key_def no_session_def UdpSessionTable_new_def udp_timeout_for_port_def del: show_nat.simps)
qed

text \<open>
  DNS over TCP answers every query: for any sequence of framed queries within the size limit, the
  answers come back framed, complete and in the order of the queries, and the connection ends without
  an error.
\<close>

theorem dns_tcp_answers_in_order:
  assumes "\<And>q. q \<in> set qs \<Longrightarrow> length q \<le> 4096 \<and> dns \<lparr>q_message = q, q_from = peer, q_inbound_tag = itag\<rparr> = Inr (answer q)"
    and "\<And>out. can_write out"
  shows "handle_dns_tcp dns can_write peer itag (concat (map dns_frame qs)) [] =
    (Inr (), concat (map (\<lambda>q. dns_frame (answer q)) qs))"
  using handle_dns_tcp_frames [of qs dns peer itag answer can_write "[]"] assms by simp

theorem dns_tcp_answers_in_order_witness:
  "handle_dns_tcp (\<lambda>q. Inr (rev (q_message q))) (\<lambda>_. True) any_addr ''in'' (concat (map dns_frame [[1, 2, 3], [4]])) [] =
    (Inr (), concat (map (\<lambda>q. dns_frame (rev q)) [[1, 2, 3], [4]]))"
  by (rule dns_tcp_answers_in_order) auto

text \<open>
  Dispatching a connection accounts for that connection and nothing else: when the outbound is done,
  the table of connections is as before, and of all statistics only those of the chosen outbound have
  changed, by one connection and its bytes or one error; its number of active connections is what it
  was.
\<close>

theorem dispatch_tcp_accounts:
  assumes "registry_ok (stats c)" and "next_id (conn_tracker c) \<notin> set (map fst (conns (conn_tracker c)))"
    and "mgr tg = Some ob" and "quiet ob"
  shows "\<exists>res c'. dispatch_tcp show_ip mgr dns cw now peer conn (Outbound tg) ri c = Some (map_sum id (\<lambda>_. ()) res, c')
    \<and> conns (conn_tracker c') = conns (conn_tracker c)
    \<and> block_of (stats c') = (block_of (stats c)) (tg :=
        (case res of
           Inr (up, down) \<Rightarrow> (block_of (stats c) tg)\<lparr>tcp_total := tcp_total (block_of (stats c) tg) + 1,
             bytes_up := bytes_up (block_of (stats c) tg) + up, bytes_down := bytes_down (block_of (stats c) tg) + down\<rparr>
         | Inl e \<Rightarrow> (block_of (stats c) tg)\<lparr>tcp_total := tcp_total (block_of (stats c) tg) + 1,
             errors := errors (block_of (stats c) tg) + 1\<rparr>))"
  using assms by (rule dispatch_outbound)

theorem dispatch_tcp_accounts_witness:
  "\<exists>res c'. dispatch_tcp (\<lambda>_. []) [''direct'' \<mapsto> \<lambda>conn live c. (Inr (10, 20), c)] (\<lambda>_. Inl []) (\<lambda>_. True) 0 None
      \<lparr>stream = SniffedStream_new [], tcp_target = Domain ''a'' 1, tcp_inbound_tag = [], tcp_sniffed_protocol = None, tcp_sniffed_domain = None\<rparr>
      (Outbound ''direct'') \<lparr>ri_type = [], ri_payload = []\<rparr> \<lparr>stats = Stats_new, conn_tracker = ConnectionTracker_new\<rparr> = Some (res, c')
    \<and> conns (conn_tracker c') = []"
  using dispatch_tcp_accounts [of "\<lparr>stats = Stats_new, conn_tracker = ConnectionTracker_new\<rparr>"
      "[''direct'' \<mapsto> \<lambda>conn live c. (Inr (10, 20), c)]" "''direct''" "\<lambda>conn live c. (Inr (10, 20), c)" "\<lambda>_. []"
      "\<lambda>_. Inl []" "\<lambda>_. True" 0 None]
  by (fastforce simp: registry_ok_def Stats_new_def ConnectionTracker_new_def quiet_def)

text \<open>
  With \<open>sniff_override_destination\<close> off, the sniffed name plays no part in routing: the searches after
  sniffing and after resolving decide as if the sniffer had found no name.
\<close>

theorem sniffed_domain_not_used:
  "route_tcp_after_sniff cr r (apply_sniff False (Some res) conn) (tcp_target (apply_sniff False (Some res) conn))
     = route_tcp_after_sniff cr r (apply_sniff False (Some (res\<lparr>s_domain := None\<rparr>)) conn) (tcp_target conn)
   \<and> after_resolve_tcp cr r ops (apply_sniff False (Some res) conn) d
     = after_resolve_tcp cr r ops (apply_sniff False (Some (res\<lparr>s_domain := None\<rparr>)) conn) d"
  by (auto simp: apply_sniff_def Let_def route_tcp_after_sniff_def after_resolve_tcp_def route_tcp_after_resolve_def
      split: option.splits RouteAction.splits)

end
