(* ===== verification/Dns_Wire.thy ===== *)
theory Dns_Wire
  imports Byte_Access
begin

text \<open>
  The DNS wire-format helpers of \<open>src/dns/mod.rs\<close>: names and types of questions, time-to-live values of
  answers and of SOA records, addresses in answers, and the messages the resolver builds. Messages come
  from the network: every index is checked, the outer \<open>None\<close> is a panic and the inner one the \<open>None\<close> of
  the code.
\<close>

section \<open>Reading messages\<close>

function skip_name :: "bytes \<Rightarrow> nat \<Rightarrow> nat option option" where
  "skip_name msg pos =
     (if length msg \<le> pos then Some None
      else case idx msg pos of
             None \<Rightarrow> None
           | Some l \<Rightarrow>
               if l = 0 then Some (Some (pos + 1))
               else if l AND 0xC0 = 0xC0 then Some (Some (pos + 2))
               else skip_name msg (pos + 1 + unat l))"
  by pat_completeness auto
termination
  by (relation "measure (\<lambda>(msg, pos). length msg - pos)") auto

declare skip_name.simps [simp del]

function qname_labels :: "bytes \<Rightarrow> nat \<Rightarrow> string list option option" where
  "qname_labels msg pos =
     (if length msg \<le> pos then Some None
      else case idx msg pos of
             None \<Rightarrow> None
           | Some l \<Rightarrow>
               if l = 0 then Some (Some [])
               else if l AND 0xC0 = 0xC0 then Some (Some [])
               else if length msg < pos + 1 + unat l then Some None
               else case slice msg (pos + 1) (pos + 1 + unat l) of
                      None \<Rightarrow> None
                    | Some lab \<Rightarrow>
                        try_opt (qname_labels msg (pos + 1 + unat l)) (\<lambda>ls. Some (Some (from_utf8_lossy lab # ls))))"
  by pat_completeness auto
termination
  by (relation "measure (\<lambda>(msg, pos). length msg - pos)") auto

declare qname_labels.simps [simp del]

definition extract_qname :: "bytes \<Rightarrow> string option option" where
  "extract_qname msg =
     (if length msg < 13 then Some None
      else try_opt (qname_labels msg 12) (\<lambda>ls. Some (if ls = [] then None else Some (join ''.'' ls))))"

definition extract_qtype :: "bytes \<Rightarrow> nat option option" where
  "extract_qtype msg =
     (if length msg < 13 then Some None
      else try_opt (skip_name msg 12) (\<lambda>pos.
        if length msg < pos + 2 then Some None else do { t \<leftarrow> be16 msg pos; Some (Some t) }))"

definition patch_id :: "bytes \<Rightarrow> bytes \<Rightarrow> bytes option" where
  "patch_id resp query =
     (if 2 \<le> length resp \<and> 2 \<le> length query then do {
        a \<leftarrow> idx query 0; b \<leftarrow> idx query 1;
        Some (resp[0 := a, 1 := b])
      } else Some resp)"

definition skip_rr :: "bytes \<Rightarrow> nat \<Rightarrow> nat option option" where
  "skip_rr msg pos =
     try_opt (skip_name msg pos) (\<lambda>pos.
       if length msg < pos + 10 then Some None
       else do { rdlength \<leftarrow> be16 msg (pos + 8); Some (Some (pos + 10 + rdlength)) })"

fun skip_rrs :: "nat \<Rightarrow> bytes \<Rightarrow> nat \<Rightarrow> nat option option" where
  "skip_rrs 0 msg pos = Some (Some pos)"
| "skip_rrs (Suc n) msg pos = try_opt (skip_rr msg pos) (skip_rrs n msg)"

text \<open>The SOA record of the authority section: the smaller of its own and its negative time to live.\<close>

definition soa_minimum :: "bytes \<Rightarrow> u32 \<Rightarrow> nat \<Rightarrow> u32 option option" where
  "soa_minimum resp rr_ttl pos =
     try_opt (skip_name resp pos) (\<lambda>soa_pos.
     try_opt (skip_name resp soa_pos) (\<lambda>soa_pos.
       if length resp < soa_pos + 20 then Some None
       else do { minimum \<leftarrow> be32 resp (soa_pos + 16); Some (Some (min rr_ttl minimum)) }))"

fun soa_scan :: "nat \<Rightarrow> bytes \<Rightarrow> nat \<Rightarrow> u32 option option" where
  "soa_scan 0 resp rr_start = Some None"
| "soa_scan (Suc n) resp rr_start =
     try_opt (skip_name resp rr_start) (\<lambda>pos.
       if length resp < pos + 10 then Some None
       else do {
         rr_type \<leftarrow> be16 resp pos;
         rr_ttl \<leftarrow> be32 resp (pos + 4);
         rdlength \<leftarrow> be16 resp (pos + 8);
         if rr_type = 6 then soa_minimum resp rr_ttl (pos + 10)
         else try_opt (skip_rr resp rr_start) (soa_scan n resp)
       })"

definition extract_soa_ttl :: "bytes \<Rightarrow> u32 option option" where
  "extract_soa_ttl resp =
     (if length resp < 12 then Some None
      else do {
        nscount \<leftarrow> be16 resp 8;
        if nscount = 0 then Some None
        else do {
          ancount \<leftarrow> be16 resp 6;
          try_opt (skip_name resp 12) (\<lambda>pos.
          try_opt (skip_rrs ancount resp (pos + 4)) (soa_scan nscount resp))
        }
      })"

definition is_cacheable_or_negative :: "bytes \<Rightarrow> bool option" where
  "is_cacheable_or_negative resp =
     (if length resp < 12 then Some False
      else do {
        b \<leftarrow> idx resp 3;
        ancount \<leftarrow> be16 resp 6;
        if b AND 0x0F = 0 \<and> 0 < ancount then Some True
        else if b AND 0x0F = 0 \<or> b AND 0x0F = 3 then do { r \<leftarrow> extract_soa_ttl resp; Some (r \<noteq> None) }
        else Some False
      })"

text \<open>The owner name of an answer: a pointer at its start is two bytes, otherwise labels up to the
  zero byte; a pointer after a label is taken for a length.\<close>

function skip_plain :: "bytes \<Rightarrow> nat \<Rightarrow> nat option option" where
  "skip_plain resp pos =
     (if length resp \<le> pos then Some None
      else case idx resp pos of
             None \<Rightarrow> None
           | Some l \<Rightarrow> if l = 0 then Some (Some (pos + 1)) else skip_plain resp (pos + 1 + unat l))"
  by pat_completeness auto
termination
  by (relation "measure (\<lambda>(resp, pos). length resp - pos)") auto

declare skip_plain.simps [simp del]

definition skip_owner :: "bytes \<Rightarrow> nat \<Rightarrow> nat option option" where
  "skip_owner resp pos =
     do { b \<leftarrow> idx resp pos; if b AND 0xC0 = 0xC0 then Some (Some (pos + 2)) else skip_plain resp pos }"

fun ttl_loop :: "nat \<Rightarrow> bytes \<Rightarrow> nat \<Rightarrow> u32 \<Rightarrow> u32 option option" where
  "ttl_loop 0 resp pos min_ttl = Some (Some min_ttl)"
| "ttl_loop (Suc n) resp pos min_ttl =
     (if length resp \<le> pos then Some (Some min_ttl)
      else try_opt (skip_owner resp pos) (\<lambda>pos.
        if length resp < pos + 10 then Some (Some min_ttl)
        else do {
          ttl \<leftarrow> be32 resp (pos + 4);
          rdlength \<leftarrow> be16 resp (pos + 8);
          ttl_loop n resp (pos + 10 + rdlength) (if ttl < min_ttl then ttl else min_ttl)
        }))"

definition extract_min_ttl :: "bytes \<Rightarrow> u32 option option" where
  "extract_min_ttl resp =
     (if length resp < 12 then Some None
      else do {
        ancount \<leftarrow> be16 resp 6;
        if ancount = 0 then Some None
        else try_opt (skip_name resp 12) (\<lambda>pos.
             try_opt (ttl_loop ancount resp (pos + 4) (- 1)) (\<lambda>m. Some (if m = - 1 then None else Some m)))
      })"

definition extract_min_ttl_or_negative :: "bytes \<Rightarrow> u32 option option" where
  "extract_min_ttl_or_negative resp =
     (if length resp < 12 then Some None
      else do {
        b \<leftarrow> idx resp 3;
        ancount \<leftarrow> be16 resp 6;
        if (b AND 0x0F = 0 \<or> b AND 0x0F = 3) \<and> ancount = 0 then do {
          r \<leftarrow> extract_soa_ttl resp;
          Some (Some (min (case r of Some t \<Rightarrow> t | None \<Rightarrow> 300) 300))
        } else extract_min_ttl resp
      })"

text \<open>The address in the data of a record of the wanted type.\<close>

definition rdata_ip :: "bytes \<Rightarrow> nat \<Rightarrow> nat \<Rightarrow> nat \<Rightarrow> IpAddr option option" where
  "rdata_ip resp pos rdlength qtype =
     (if qtype = 1 \<and> rdlength = 4 then do { b \<leftarrow> slice resp pos (pos + 4); Some (Some (V4 (ipv4_of_bytes b))) }
      else if qtype = 28 \<and> rdlength = 16 then do { b \<leftarrow> slice resp pos (pos + 16); Some (Some (V6 (ipv6_of_bytes b))) }
      else Some None)"

fun ip_loop :: "nat \<Rightarrow> bytes \<Rightarrow> nat \<Rightarrow> nat \<Rightarrow> IpAddr option option" where
  "ip_loop 0 resp pos qtype = Some None"
| "ip_loop (Suc n) resp pos qtype =
     (if length resp \<le> pos then Some None
      else try_opt (skip_owner resp pos) (\<lambda>pos.
        if length resp < pos + 10 then Some None
        else do {
          rr_type \<leftarrow> be16 resp pos;
          rdlength \<leftarrow> be16 resp (pos + 8);
          if length resp < pos + 10 + rdlength then Some None
          else if rr_type = qtype then do {
            r \<leftarrow> rdata_ip resp (pos + 10) rdlength qtype;
            case r of Some ip \<Rightarrow> Some (Some ip) | None \<Rightarrow> ip_loop n resp (pos + 10 + rdlength) qtype
          } else ip_loop n resp (pos + 10 + rdlength) qtype
        }))"

definition extract_first_ip :: "bytes \<Rightarrow> nat \<Rightarrow> IpAddr option option" where
  "extract_first_ip resp qtype =
     (if length resp < 12 then Some None
      else do {
        ancount \<leftarrow> be16 resp 6;
        if ancount = 0 then Some None
        else try_opt (skip_name resp 12) (\<lambda>pos. ip_loop ancount resp (pos + 4) qtype)
      })"

section \<open>Building messages\<close>

definition make_servfail :: "bytes \<Rightarrow> bytes" where
  "make_servfail query =
     (let resp = replicate 12 0;
          resp = (if 2 \<le> length query then resp[0 := query ! 0, 1 := query ! 1] else resp)
      in resp[2 := 0x80, 3 := 0x02])"

definition make_refused :: "bytes \<Rightarrow> bytes" where
  "make_refused query = (make_servfail query)[3 := 0x05]"

definition make_noerror_empty :: "bytes \<Rightarrow> bytes" where
  "make_noerror_empty query = (let v = make_servfail query in v[2 := v ! 2 OR 0x04, 3 := 0x00])"

definition make_nxdomain :: "bytes \<Rightarrow> bytes" where
  "make_nxdomain query = (let v = make_servfail query in v[2 := v ! 2 OR 0x04, 3 := 0x03])"

definition query_labels :: "string list \<Rightarrow> bytes" where
  "query_labels labels =
     concat (map (\<lambda>l. if l = [] then [] else word_of_nat (length l) # as_bytes l) labels)"

definition build_query :: "string \<Rightarrow> u16 \<Rightarrow> bytes" where
  "build_query name qtype =
     [0x00, 0x01, 0x01, 0x00, 0x00, 0x01, 0x00, 0x00, 0x00, 0x00, 0x00, 0x00]
       @ query_labels (split_on CHR ''.'' name) @ [0x00] @ u16_be qtype @ [0x00, 0x01]"

text \<open>The response of the fake-address pool (\<open>src/dns/upstream.rs\<close>).\<close>

definition build_ip_response :: "bytes \<Rightarrow> u16 \<Rightarrow> bytes \<Rightarrow> bytes" where
  "build_ip_response query rtype rdata =
     (if length query < 12 then make_noerror_empty query
      else take 2 query @ [0x81, 0x80] @ [0x00, 0x01] @ [0x00, 0x01] @ [0x00, 0x00] @ [0x00, 0x00]
           @ drop 12 query @ [0xC0, 0x0C] @ u16_be rtype @ [0x00, 0x01] @ u32_be 1
           @ u16_be (word_of_nat (length rdata)) @ rdata)"

definition build_a_response :: "bytes \<Rightarrow> u32 \<Rightarrow> bytes" where
  "build_a_response query ip = build_ip_response query 1 (octets4 ip)"

definition build_aaaa_response :: "bytes \<Rightarrow> u128 \<Rightarrow> bytes" where
  "build_aaaa_response query ip = build_ip_response query 28 (octets6 ip)"

section \<open>No message makes a helper panic\<close>

lemma skip_name_total [total_intros]: "skip_name msg pos \<noteq> None"
proof (induction msg pos rule: skip_name.induct)
  case (1 msg pos)
  then show ?case by (subst skip_name.simps) (simp add: idx_def)
qed

lemma qname_labels_total [total_intros]: "qname_labels msg pos \<noteq> None"
proof (induction msg pos rule: qname_labels.induct)
  case (1 msg pos)
  show ?case
  proof (cases "length msg \<le> pos \<or> msg ! pos = 0 \<or> msg ! pos AND 0xC0 = 0xC0 \<or> length msg < pos + 1 + unat (msg ! pos)")
    case True
    then show ?thesis by (subst qname_labels.simps) auto
  next
    case False
    then have i: "idx msg pos = Some (msg ! pos)" and
      s: "slice msg (pos + 1) (pos + 1 + unat (msg ! pos)) = Some (take (unat (msg ! pos)) (drop (pos + 1) msg))"
      by (simp_all add: slice_def)
    from False have "qname_labels msg (pos + 1 + unat (msg ! pos)) \<noteq> None"
      by (intro "1.IH" [OF _ i]) (use s in auto)
    then have "try_opt (qname_labels msg (pos + 1 + unat (msg ! pos)))
        (\<lambda>ls. Some (Some (from_utf8_lossy (take (unat (msg ! pos)) (drop (pos + 1) msg)) # ls))) \<noteq> None"
      by (intro total_intros)
    then show ?thesis using False i s by (subst qname_labels.simps) simp
  qed
qed

lemma skip_plain_total [total_intros]: "skip_plain msg pos \<noteq> None"
proof (induction msg pos rule: skip_plain.induct)
  case (1 msg pos)
  then show ?case by (subst skip_plain.simps) (simp add: idx_def)
qed

lemma skip_rr_total [total_intros]: "skip_rr msg pos \<noteq> None"
  unfolding skip_rr_def by (intro total_intros) auto

lemma skip_rrs_total [total_intros]: "skip_rrs n msg pos \<noteq> None"
proof (induction n arbitrary: pos)
  case (Suc n)
  show ?case unfolding skip_rrs.simps by (intro total_intros Suc)
qed simp

lemma soa_minimum_total [total_intros]: "soa_minimum resp ttl pos \<noteq> None"
  unfolding soa_minimum_def by (intro total_intros) auto

lemma soa_scan_total [total_intros]: "soa_scan n resp pos \<noteq> None"
proof (induction n arbitrary: pos)
  case (Suc n)
  show ?case unfolding soa_scan.simps by (intro total_intros Suc) auto
qed simp

lemma extract_soa_ttl_total [total_intros]: "extract_soa_ttl resp \<noteq> None"
  unfolding extract_soa_ttl_def by (intro total_intros) auto

lemma skip_owner_total [total_intros]: "pos < length resp \<Longrightarrow> skip_owner resp pos \<noteq> None"
  unfolding skip_owner_def by (intro total_intros)

lemma ttl_loop_total [total_intros]: "ttl_loop n resp pos m \<noteq> None"
proof (induction n arbitrary: pos m)
  case (Suc n)
  show ?case unfolding ttl_loop.simps by (intro total_intros Suc) auto
qed simp

lemma extract_min_ttl_total [total_intros]: "extract_min_ttl resp \<noteq> None"
  unfolding extract_min_ttl_def by (intro total_intros) auto

lemma rdata_ip_total [total_intros]: "pos + rdlength \<le> length resp \<Longrightarrow> rdata_ip resp pos rdlength qtype \<noteq> None"
  unfolding rdata_ip_def by (intro total_intros) auto

lemma ip_loop_total [total_intros]: "ip_loop n resp pos qtype \<noteq> None"
proof (induction n arbitrary: pos)
  case (Suc n)
  show ?case unfolding ip_loop.simps by (intro total_intros Suc) auto
qed simp

lemma extract_first_ip_total [total_intros]: "extract_first_ip resp qtype \<noteq> None"
  unfolding extract_first_ip_def by (intro total_intros) auto

lemma extract_qname_total [total_intros]: "extract_qname msg \<noteq> None"
  unfolding extract_qname_def by (intro total_intros)

lemma extract_qtype_total [total_intros]: "extract_qtype msg \<noteq> None"
  unfolding extract_qtype_def by (intro total_intros) auto

lemma is_cacheable_or_negative_total [total_intros]: "is_cacheable_or_negative resp \<noteq> None"
  unfolding is_cacheable_or_negative_def by (intro total_intros) auto

lemma extract_min_ttl_or_negative_total [total_intros]: "extract_min_ttl_or_negative resp \<noteq> None"
  unfolding extract_min_ttl_or_negative_def by (intro total_intros) auto

lemma patch_id_total [total_intros]: "patch_id resp query \<noteq> None"
  unfolding patch_id_def by (intro total_intros) auto

section \<open>Questions and answers round-trip\<close>

text \<open>A label as the wire format allows it.\<close>

definition label_ok :: "string \<Rightarrow> bool" where
  "label_ok l \<longleftrightarrow> l \<noteq> [] \<and> length l \<le> 63 \<and> str_ok l"

definition dns_name :: "string \<Rightarrow> bool" where
  "dns_name d \<longleftrightarrow> list_all label_ok (split_on CHR ''.'' d)"

lemma not_pointer: "unat (l :: u8) < 192 \<Longrightarrow> l AND 0xC0 \<noteq> 0xC0"
proof
  assume "unat l < 192" and "l AND 0xC0 = 0xC0"
  then have "0xC0 \<le> l" by (metis word_and_le2)
  then show False using \<open>unat l < 192\<close> by (simp add: word_le_nat_alt)
qed

lemma label_byte:
  assumes "label_ok l"
  shows "unat (word_of_nat (length l) :: u8) = length l" and "(word_of_nat (length l) :: u8) \<noteq> 0"
    and "(word_of_nat (length l) :: u8) AND 0xC0 \<noteq> 0xC0"
proof -
  show u: "unat (word_of_nat (length l) :: u8) = length l"
    using assms by (simp add: label_ok_def unsigned_of_nat take_bit_nat_eq_self)
  show "(word_of_nat (length l) :: u8) \<noteq> 0"
    using u assms by (metis label_ok_def length_0_conv unsigned_0)
  show "(word_of_nat (length l) :: u8) AND 0xC0 \<noteq> 0xC0"
    using u assms by (intro not_pointer) (simp add: label_ok_def)
qed

lemma query_labels_Cons: "label_ok l \<Longrightarrow> query_labels (l # ls) = word_of_nat (length l) # as_bytes l @ query_labels ls"
  by (simp add: query_labels_def label_ok_def)

lemma qname_labels_query:
  "list_all label_ok ls \<Longrightarrow> qname_labels (f @ query_labels ls @ 0 # r) (length f) = Some (Some ls)"
proof (induction ls arbitrary: f)
  case Nil
  have "idx (f @ 0 # r) (length f) = Some 0" by (rule idx_at) simp_all
  then show ?case by (subst qname_labels.simps) (simp add: query_labels_def)
next
  case (Cons l ls)
  let ?b = "word_of_nat (length l) :: u8"
  let ?buf = "f @ query_labels (l # ls) @ 0 # r"
  have l: "label_ok l" using Cons.prems by simp
  have buf: "?buf = f @ ?b # as_bytes l @ query_labels ls @ 0 # r" using query_labels_Cons [OF l] by simp
  have i: "idx ?buf (length f) = Some ?b" by (rule idx_at [OF buf]) simp
  have s: "slice ?buf (length f + 1) (length f + 1 + length l) = Some (as_bytes l)"
    by (rule slice_at [where a = "f @ [?b]" and b = "query_labels ls @ 0 # r"]) (simp_all add: buf)
  have "qname_labels ((f @ ?b # as_bytes l) @ query_labels ls @ 0 # r) (length (f @ ?b # as_bytes l)) = Some (Some ls)"
    using Cons by (intro Cons.IH) simp
  then have rest: "qname_labels ?buf (length f + 1 + length l) = Some (Some ls)" by (simp add: buf)
  have "from_utf8_lossy (as_bytes l) = l" using l by (simp add: label_ok_def from_utf8_lossy_as_bytes)
  then show ?case
    using i s rest label_byte [OF l] by (subst qname_labels.simps) (simp add: buf)
qed

lemma skip_name_query:
  "list_all label_ok ls \<Longrightarrow> skip_name (f @ query_labels ls @ 0 # r) (length f) = Some (Some (length f + length (query_labels ls) + 1))"
proof (induction ls arbitrary: f)
  case Nil
  have "idx (f @ 0 # r) (length f) = Some 0" by (rule idx_at) simp_all
  then show ?case by (subst skip_name.simps) (simp add: query_labels_def)
next
  case (Cons l ls)
  let ?b = "word_of_nat (length l) :: u8"
  let ?buf = "f @ query_labels (l # ls) @ 0 # r"
  have l: "label_ok l" using Cons.prems by simp
  have buf: "?buf = f @ ?b # as_bytes l @ query_labels ls @ 0 # r" using query_labels_Cons [OF l] by simp
  have i: "idx ?buf (length f) = Some ?b" by (rule idx_at [OF buf]) simp
  have "skip_name ((f @ ?b # as_bytes l) @ query_labels ls @ 0 # r) (length (f @ ?b # as_bytes l)) =
      Some (Some (length (f @ ?b # as_bytes l) + length (query_labels ls) + 1))"
    using Cons by (intro Cons.IH) simp
  then have "skip_name ?buf (length f + 1 + length l) = Some (Some (length f + length (query_labels (l # ls)) + 1))"
    by (simp add: buf query_labels_Cons [OF l])
  then show ?case
    using i label_byte [OF l] by (subst skip_name.simps) (simp add: buf)
qed

definition query_header :: bytes where
  "query_header = [0x00, 0x01, 0x01, 0x00, 0x00, 0x01, 0x00, 0x00, 0x00, 0x00, 0x00, 0x00]"

lemma length_query_header [simp]: "length query_header = 12"
  by (simp add: query_header_def)

lemma build_query_shape:
  "build_query d t = query_header @ query_labels (split_on CHR ''.'' d) @ 0 # u16_be t @ [0, 1]"
  by (simp add: build_query_def query_header_def)

lemma extract_qname_query:
  assumes "dns_name d"
  shows "extract_qname (build_query d t) = Some (Some d)"
proof -
  have "qname_labels (build_query d t) 12 = Some (Some (split_on CHR ''.'' d))"
    using qname_labels_query [of "split_on CHR ''.'' d" query_header "u16_be t @ [0, 1]"] assms
    by (simp add: build_query_shape dns_name_def)
  moreover have "13 \<le> length (build_query d t)" by (simp add: build_query_shape)
  ultimately show ?thesis by (simp add: extract_qname_def)
qed

lemma extract_qtype_query:
  assumes "dns_name d"
  shows "extract_qtype (build_query d t) = Some (Some (unat t))"
proof -
  let ?ls = "query_labels (split_on CHR ''.'' d)"
  have s: "skip_name (build_query d t) 12 = Some (Some (12 + length ?ls + 1))"
    using skip_name_query [of "split_on CHR ''.'' d" query_header "u16_be t @ [0, 1]"] assms
    by (simp add: build_query_shape dns_name_def)
  have t: "be16 (build_query d t) (12 + length ?ls + 1) = Some (unat t)"
    by (rule be16_at [where a = "query_header @ ?ls @ [0]" and b = "[0, 1]"])
      (simp_all add: build_query_shape)
  have "length (build_query d t) = 12 + length ?ls + 5" by (simp add: build_query_shape)
  then show ?thesis using s t by (simp add: extract_qtype_def)
qed

text \<open>A response built from a question whose name the skipper steps over.\<close>

lemma ip_response_answer:
  assumes n: "query = hdr @ nm @ rest" "length hdr = 12" "length rest = 4"
    and sk: "\<And>f r. length f = 12 \<Longrightarrow> skip_name (f @ nm @ r) 12 = Some (Some (12 + length nm))"
    and rd: "length rdata < 65536"
  shows "extract_first_ip (build_ip_response query rt rdata) (unat rt) =
    rdata_ip (build_ip_response query rt rdata) (12 + length nm + 16) (length rdata) (unat rt)"
proof -
  let ?h = "take 2 query @ [0x81, 0x80, 0, 1, 0, 1, 0, 0, 0, 0] :: bytes"
  let ?fix = "[0, 1] @ u32_be 1 :: bytes"
  let ?resp = "build_ip_response query rt rdata"
  have r: "?resp = ?h @ nm @ rest @ [0xC0, 0x0C] @ u16_be rt @ ?fix @ u16_be (word_of_nat (length rdata)) @ rdata"
    using n by (simp add: build_ip_response_def)
  have l2: "length (take 2 query) = 2" using n by simp
  then have h: "length ?h = 12" by simp
  have q: "skip_name ?resp 12 = Some (Some (12 + length nm))" unfolding r by (rule sk [OF h])
  have an: "be16 ?resp 6 = Some 1"
  proof -
    have "u16_be 1 = [0, 1]" by code_simp
    then have "be16 ?resp 6 = Some (unat (1 :: u16))"
      by (intro be16_at [where a = "take 2 query @ [0x81, 0x80, 0, 1]" and b = "[0, 0, 0, 0] @ nm @ rest @ [0xC0, 0x0C]
            @ u16_be rt @ ?fix @ u16_be (word_of_nat (length rdata)) @ rdata"])
        (use n(2,3) l2 in \<open>simp_all add: r\<close>)
    then show ?thesis by simp
  qed
  have "idx ?resp (12 + length nm + 4) = Some 0xC0"
    by (rule idx_at [where a = "?h @ nm @ rest"]) (use n(2,3) l2 in \<open>simp_all add: r\<close>)
  then have o: "skip_owner ?resp (12 + length nm + 4) = Some (Some (12 + length nm + 6))" by (simp add: skip_owner_def)
  have ty: "be16 ?resp (12 + length nm + 6) = Some (unat rt)"
    by (rule be16_at [where a = "?h @ nm @ rest @ [0xC0, 0x0C]"]) (use n(2,3) l2 in \<open>simp_all add: r\<close>)
  have "be16 ?resp (12 + length nm + 6 + 8) = Some (unat (word_of_nat (length rdata) :: u16))"
    by (rule be16_at [where a = "?h @ nm @ rest @ [0xC0, 0x0C] @ u16_be rt @ ?fix"]) (use n(2,3) l2 in \<open>simp_all add: r\<close>)
  then have rl: "be16 ?resp (12 + length nm + 6 + 8) = Some (length rdata)"
    using rd by (simp add: unsigned_of_nat take_bit_nat_eq_self)
  have len: "length ?resp = 12 + length nm + 16 + length rdata" using n(2,3) l2 by (simp add: r)
  have "rdata_ip ?resp (12 + length nm + 16) (length rdata) (unat rt) \<noteq> None" using len by (intro total_intros) simp
  then show ?thesis
    using q an o ty rl len
    by (auto simp: extract_first_ip_def add.assoc split: option.splits)
qed

lemma ip_response_query:
  assumes "dns_name d" and "length rdata < 65536"
  shows "extract_first_ip (build_ip_response (build_query d t) rt rdata) (unat rt) =
    rdata_ip (build_ip_response (build_query d t) rt rdata) (12 + length (query_labels (split_on CHR ''.'' d)) + 17) (length rdata) (unat rt)"
proof -
  let ?nm = "query_labels (split_on CHR ''.'' d) @ [0]"
  have "skip_name (f @ ?nm @ r) 12 = Some (Some (12 + length ?nm))" if "length f = 12" for f r
    using skip_name_query [of "split_on CHR ''.'' d" f r] assms(1) that by (simp add: dns_name_def)
  then show ?thesis
    using ip_response_answer [of "build_query d t" query_header ?nm "u16_be t @ [0, 1]" rdata rt] assms(2)
    by (simp add: build_query_shape add.assoc)
qed

lemma rdata_at_end:
  assumes "length rdata \<le> length resp" and "drop (length resp - length rdata) resp = rdata"
  shows "slice resp (length resp - length rdata) (length resp - length rdata + length rdata) = Some rdata"
  using assms by (simp add: slice_def)

lemma ip_response_rdata:
  assumes "p = 12 + length (query_labels (split_on CHR ''.'' d)) + 17"
  shows "slice (build_ip_response (build_query d t) rt rdata) p (p + length rdata) = Some rdata"
proof -
  let ?front = "take 2 query_header @ [0x81, 0x80, 0, 1, 0, 1, 0, 0, 0, 0] @ (query_labels (split_on CHR ''.'' d) @ 0 # u16_be t @ [0, 1])
      @ [0xC0, 0x0C] @ u16_be rt @ [0, 1] @ u32_be 1 @ u16_be (word_of_nat (length rdata))"
  have "build_ip_response (build_query d t) rt rdata = ?front @ rdata @ []"
    by (simp add: build_ip_response_def build_query_shape)
  moreover have "length ?front = p" using assms by simp
  ultimately show ?thesis by (intro slice_at [where a = ?front and b = "[]"]) auto
qed

lemma a_response_ip: "dns_name d \<Longrightarrow> extract_first_ip (build_a_response (build_query d t) ip) 1 = Some (Some (V4 ip))"
  using ip_response_query [of d "octets4 ip" t 1] ip_response_rdata [OF refl, of d t 1 "octets4 ip"]
  by (simp add: build_a_response_def rdata_ip_def)

lemma aaaa_response_ip: "dns_name d \<Longrightarrow> extract_first_ip (build_aaaa_response (build_query d t) ip) 28 = Some (Some (V6 ip))"
  using ip_response_query [of d "octets6 ip" t 28] ip_response_rdata [OF refl, of d t 28 "octets6 ip"]
  by (simp add: build_aaaa_response_def rdata_ip_def)

section \<open>Properties\<close>

text \<open>
  C10. Messages round-trip: the name and type of a built question are read back, and the address put
  into a built answer to it is the address extracted from that answer, for A and AAAA, for every name
  of non-empty labels of at most 63 bytes.
\<close>

theorem dns_messages_roundtrip:
  assumes "dns_name d"
  shows "extract_qname (build_query d t) = Some (Some d) \<and> extract_qtype (build_query d t) = Some (Some (unat t))
    \<and> extract_first_ip (build_a_response (build_query d t) ip4) 1 = Some (Some (V4 ip4))
    \<and> extract_first_ip (build_aaaa_response (build_query d t) ip6) 28 = Some (Some (V6 ip6))"
  using assms extract_qname_query extract_qtype_query a_response_ip aaaa_response_ip by blast

theorem dns_messages_roundtrip_witness:
  "extract_qname (build_query ''www.example.com'' 1) = Some (Some ''www.example.com'')
    \<and> extract_first_ip (build_a_response (build_query ''www.example.com'' 1) 0xC6120001) 1 = Some (Some (V4 0xC6120001))"
proof -
  have "dns_name ''www.example.com''" by code_simp
  from dns_messages_roundtrip [OF this] show ?thesis by blast
qed

text \<open>
  C11. No message makes the resolver panic: every helper that reads a message from the network returns,
  for every byte sequence, without an index out of range.
\<close>

theorem dns_wire_never_panics:
  "extract_qname msg \<noteq> None \<and> extract_qtype msg \<noteq> None \<and> patch_id msg query \<noteq> None
    \<and> is_cacheable_or_negative msg \<noteq> None \<and> extract_min_ttl_or_negative msg \<noteq> None \<and> extract_first_ip msg qtype \<noteq> None"
  by (intro conjI total_intros)

text \<open>An answer whose owner name is a label followed by a pointer, as name compression produces it.\<close>

definition pointer_response :: bytes where
  "pointer_response =
     [0, 1, 0x81, 0x80, 0, 1, 0, 1, 0, 0, 0, 0] @ [1, 97, 0] @ [0, 1, 0, 1]
       @ [1, 98, 0xC0, 0x0C] @ [0, 1, 0, 1, 0, 0, 0, 60, 0, 4] @ [1, 2, 3, 4]"

text \<open>
  The address of such an answer is not found: \<open>extract_first_ip\<close> takes the pointer after the label
  for a length, while \<open>skip_name\<close>, used for the authority section, steps over the same name and the
  record behind it holds the address.
\<close>

theorem compressed_owner_is_misread:
  "extract_first_ip pointer_response 1 = Some None \<and> extract_min_ttl pointer_response = Some None
    \<and> skip_name pointer_response 19 = Some (Some 23) \<and> rdata_ip pointer_response 33 4 1 = Some (Some (V4 0x01020304))"
  by code_simp

end
