(* ===== verification/Fakeip.thy ===== *)
theory Fakeip
  imports Dns_Wire
begin

text \<open>
  The pool of fake addresses (\<open>FakeIpStore\<close> of \<open>src/dns/upstream.rs\<close>): a name asked for gets the next
  address of a configured range, round robin, and the address leads back to the name. The mapping is
  kept in two tables per family; when the range is used up the oldest address is given to the new name.
\<close>

section \<open>Configuration\<close>

definition next_addr :: "('a :: len) word \<Rightarrow> 'a word" where
  "next_addr a = a + 1"

definition le_sign :: string where
  "le_sign = of_bytes [0xE2, 0x89, 0xA4]"

definition cidr_net :: "nat \<Rightarrow> ('a :: len) word \<Rightarrow> nat \<Rightarrow> 'a word \<times> 'a word" where
  "cidr_net width addr plen =
     (let m = (if plen = 0 then 0 else push_bit (width - plen) (- 1));
          net = addr AND m
      in (net, net OR NOT m))"

definition fake_ipv4_cidr :: "string \<Rightarrow> string + (u32 \<times> u32)" where
  "fake_ipv4_cidr s =
     res_bind (ok_or (''invalid IPv4 CIDR: '' @ s) (split_once CHR ''/'' s)) (\<lambda>(addr_str, prefix_str).
     res_bind (ok_or (''invalid IPv4 address in CIDR: '' @ s) (parse_ipv4 addr_str)) (\<lambda>addr.
     res_bind (ok_or (''invalid prefix length in CIDR: '' @ s) (parse_uint (2 ^ 32 - 1) prefix_str)) (\<lambda>plen.
       if plen \<le> 32 then Inr (cidr_net 32 addr plen)
       else Inl (''IPv4 prefix length must be '' @ le_sign @ '' 32: '' @ s))))"

definition fake_ipv6_cidr :: "string \<Rightarrow> string + (u128 \<times> u128)" where
  "fake_ipv6_cidr s =
     res_bind (ok_or (''invalid IPv6 CIDR: '' @ s) (split_once CHR ''/'' s)) (\<lambda>(addr_str, prefix_str).
     res_bind (ok_or (''invalid IPv6 address in CIDR: '' @ s) (parse_ipv6 addr_str)) (\<lambda>addr.
     res_bind (ok_or (''invalid prefix length in CIDR: '' @ s) (parse_uint (2 ^ 32 - 1) prefix_str)) (\<lambda>plen.
       if plen \<le> 128 then Inr (cidr_net 128 addr plen)
       else Inl (''IPv6 prefix length must be '' @ le_sign @ '' 128: '' @ s))))"

record FakeIpConfig =
  inet4_range :: "string option"
  inet6_range :: "string option"
  cfg_exclude_domain :: "string list"
  cfg_exclude_domain_suffix :: "string list"

datatype ResolveStrategy = PreferIpv4 | PreferIpv6 | Ipv4Only | Ipv6Only

text \<open>What the store tells the persistent cache, in order; only when persistence is on.\<close>

datatype cache_op = StoreEntry IpAddr string | TouchEntry IpAddr

record FakeIpStore =
  inet4_net :: "(u32 \<times> u32) option"
  inet6_net :: "(u128 \<times> u128) option"
  inet4_current :: "u32 option"
  inet6_current :: "u128 option"
  addr_to_domain :: "IpAddr \<Rightarrow> string option"
  domain_to_v4 :: "string \<Rightarrow> u32 option"
  domain_to_v6 :: "string \<Rightarrow> u128 option"
  exclude_domain :: "string list"
  exclude_domain_suffix :: "string list"
  fake_strategy :: nat
  cache_file :: bool
  cache_ops :: "cache_op list"

definition transpose_opt :: "('a \<Rightarrow> 'e + 'b) \<Rightarrow> 'a option \<Rightarrow> 'e + 'b option" where
  "transpose_opt f m = (case m of None \<Rightarrow> Inr None | Some x \<Rightarrow> res_bind (f x) (\<lambda>y. Inr (Some y)))"

definition in_net :: "(('a :: linorder) \<times> 'a) option \<Rightarrow> 'a \<Rightarrow> bool" where
  "in_net net a = (case net of Some (s, e) \<Rightarrow> s \<le> a \<and> a \<le> e | None \<Rightarrow> False)"

text \<open>One record of the persistent cache is put back when its address still belongs to the range.\<close>

fun restore_record :: "FakeIpStore \<Rightarrow> IpAddr \<times> string \<Rightarrow> FakeIpStore" where
  "restore_record st (V4 v4, domain) =
     (if in_net (inet4_net st) v4
      then st\<lparr>addr_to_domain := (addr_to_domain st)(V4 v4 \<mapsto> domain), domain_to_v4 := (domain_to_v4 st)(domain \<mapsto> v4),
              inet4_current := (case inet4_current st of
                 Some cur \<Rightarrow> if cur \<le> v4 then Some (next_addr v4) else Some cur
               | None \<Rightarrow> None)\<rparr>
      else st)"
| "restore_record st (V6 v6, domain) =
     (if in_net (inet6_net st) v6
      then st\<lparr>addr_to_domain := (addr_to_domain st)(V6 v6 \<mapsto> domain), domain_to_v6 := (domain_to_v6 st)(domain \<mapsto> v6),
              inet6_current := (case inet6_current st of
                 Some cur \<Rightarrow> if cur \<le> v6 then Some (next_addr v6) else Some cur
               | None \<Rightarrow> None)\<rparr>
      else st)"

definition wrap_current :: "(('a :: len) word \<times> 'a word) option \<Rightarrow> 'a word option \<Rightarrow> 'a word option" where
  "wrap_current net cur =
     (case net of
        Some (s, e) \<Rightarrow> (case cur of Some c \<Rightarrow> if e \<le> c then Some (next_addr s) else Some c | None \<Rightarrow> None)
      | None \<Rightarrow> cur)"

definition initial_store ::
  "FakeIpConfig \<Rightarrow> bool \<Rightarrow> (u32 \<times> u32) option \<Rightarrow> (u128 \<times> u128) option \<Rightarrow> FakeIpStore" where
  "initial_store cfg cf net4 net6 =
     \<lparr>inet4_net = net4, inet6_net = net6,
      inet4_current = map_option (\<lambda>(start, _). next_addr start) net4,
      inet6_current = map_option (\<lambda>(start, _). next_addr start) net6,
      addr_to_domain = Map.empty, domain_to_v4 = Map.empty, domain_to_v6 = Map.empty,
      exclude_domain = map to_ascii_lowercase (cfg_exclude_domain cfg),
      exclude_domain_suffix =
        map (\<lambda>s. if starts_with s ''.'' then to_ascii_lowercase s else CHR ''.'' # to_ascii_lowercase s)
          (cfg_exclude_domain_suffix cfg),
      fake_strategy = 0, cache_file = cf, cache_ops = []\<rparr>"

definition restore_all :: "(IpAddr \<times> string) list \<Rightarrow> FakeIpStore \<Rightarrow> FakeIpStore" where
  "restore_all records st =
     (let st = foldl restore_record st records
      in st\<lparr>inet4_current := wrap_current (inet4_net st) (inet4_current st),
            inet6_current := wrap_current (inet6_net st) (inet6_current st)\<rparr>)"

text \<open>\<open>records\<close> is what \<open>load_all_fakeip\<close> read, \<open>None\<close> when it failed or persistence is off.\<close>

definition new_with_cache ::
  "FakeIpConfig \<Rightarrow> bool \<Rightarrow> (IpAddr \<times> string) list option \<Rightarrow> string + FakeIpStore" where
  "new_with_cache cfg cf records =
     res_bind (transpose_opt fake_ipv4_cidr (inet4_range cfg)) (\<lambda>net4.
     res_bind (transpose_opt fake_ipv6_cidr (inet6_range cfg)) (\<lambda>net6.
       if net4 = None \<and> net6 = None
       then Inl ''fakeip: at least one of inet4_range or inet6_range must be set''
       else (let st = initial_store cfg cf net4 net6
             in Inr (case records of Some rs \<Rightarrow> if cf then restore_all rs st else st | None \<Rightarrow> st))))"

section \<open>Operations\<close>

definition set_strategy :: "ResolveStrategy \<Rightarrow> FakeIpStore \<Rightarrow> FakeIpStore" where
  "set_strategy s st =
     st\<lparr>fake_strategy := (case s of PreferIpv4 \<Rightarrow> 0 | PreferIpv6 \<Rightarrow> 1 | Ipv4Only \<Rightarrow> 2 | Ipv6Only \<Rightarrow> 3)\<rparr>"

fun fake_contains :: "FakeIpStore \<Rightarrow> IpAddr \<Rightarrow> bool" where
  "fake_contains st (V4 v4) = in_net (inet4_net st) v4"
| "fake_contains st (V6 v6) = in_net (inet6_net st) v6"

definition fake_lookup :: "FakeIpStore \<Rightarrow> IpAddr \<Rightarrow> string option" where
  "fake_lookup st addr = addr_to_domain st addr"

definition is_excluded :: "FakeIpStore \<Rightarrow> string \<Rightarrow> bool" where
  "is_excluded st domain =
     (let lower = to_ascii_lowercase domain
      in lower \<in> set (exclude_domain st)
         \<or> list_ex (\<lambda>suf. ends_with suf lower \<or> lower = trim_start_matches CHR ''.'' suf) (exclude_domain_suffix st))"

definition emit :: "cache_op \<Rightarrow> FakeIpStore \<Rightarrow> FakeIpStore" where
  "emit op st = (if cache_file st then st\<lparr>cache_ops := cache_ops st @ [op]\<rparr> else st)"

definition pool_next :: "('a :: len) word \<times> 'a word \<Rightarrow> 'a word \<Rightarrow> 'a word" where
  "pool_next net current = (if snd net \<le> next_addr current then next_addr (fst net) else next_addr current)"

definition allocate_v4 :: "string \<Rightarrow> FakeIpStore \<Rightarrow> u32 option \<times> FakeIpStore" where
  "allocate_v4 domain st =
     (case domain_to_v4 st domain of
        Some existing \<Rightarrow> (Some existing, emit (TouchEntry (V4 existing)) st)
      | None \<Rightarrow>
          (case (inet4_net st, inet4_current st) of
             (Some net, Some current) \<Rightarrow>
               (let nxt = pool_next net current;
                    st = st\<lparr>inet4_current := Some nxt\<rparr>;
                    st = (case addr_to_domain st (V4 nxt) of
                            Some old \<Rightarrow> st\<lparr>addr_to_domain := (addr_to_domain st)(V4 nxt := None),
                                          domain_to_v4 := (domain_to_v4 st)(old := None)\<rparr>
                          | None \<Rightarrow> st);
                    st = st\<lparr>addr_to_domain := (addr_to_domain st)(V4 nxt \<mapsto> domain),
                            domain_to_v4 := (domain_to_v4 st)(domain \<mapsto> nxt)\<rparr>
                in (Some nxt, emit (StoreEntry (V4 nxt) domain) st))
           | _ \<Rightarrow> (None, st)))"

definition allocate_v6 :: "string \<Rightarrow> FakeIpStore \<Rightarrow> u128 option \<times> FakeIpStore" where
  "allocate_v6 domain st =
     (case domain_to_v6 st domain of
        Some existing \<Rightarrow> (Some existing, emit (TouchEntry (V6 existing)) st)
      | None \<Rightarrow>
          (case (inet6_net st, inet6_current st) of
             (Some net, Some current) \<Rightarrow>
               (let nxt = pool_next net current;
                    st = st\<lparr>inet6_current := Some nxt\<rparr>;
                    st = (case addr_to_domain st (V6 nxt) of
                            Some old \<Rightarrow> st\<lparr>addr_to_domain := (addr_to_domain st)(V6 nxt := None),
                                          domain_to_v6 := (domain_to_v6 st)(old := None)\<rparr>
                          | None \<Rightarrow> st);
                    st = st\<lparr>addr_to_domain := (addr_to_domain st)(V6 nxt \<mapsto> domain),
                            domain_to_v6 := (domain_to_v6 st)(domain \<mapsto> nxt)\<rparr>
                in (Some nxt, emit (StoreEntry (V6 nxt) domain) st))
           | _ \<Rightarrow> (None, st)))"

text \<open>\<open>None\<close> is a panic.\<close>

definition fake_answer :: "bytes \<Rightarrow> nat \<Rightarrow> string \<Rightarrow> FakeIpStore \<Rightarrow> bytes \<times> FakeIpStore" where
  "fake_answer query qtype qname st =
     (if is_excluded st qname then (make_nxdomain query, st)
      else if qtype = 1 then
        if fake_strategy st = 3 then (make_noerror_empty query, st)
        else (case allocate_v4 qname st of
                (Some ip, st) \<Rightarrow> (build_a_response query ip, st)
              | (None, st) \<Rightarrow> (make_noerror_empty query, st))
      else
        if fake_strategy st = 2 then (make_noerror_empty query, st)
        else (case allocate_v6 qname st of
                (Some ip, st) \<Rightarrow> (build_aaaa_response query ip, st)
              | (None, st) \<Rightarrow> (make_noerror_empty query, st)))"

definition reply :: "bytes \<Rightarrow> FakeIpStore \<Rightarrow> (bytes \<times> FakeIpStore) option" where
  "reply query st =
     do {
       t \<leftarrow> extract_qtype query;
       case t of
         None \<Rightarrow> Some (make_noerror_empty query, st)
       | Some qtype \<Rightarrow>
           if qtype \<noteq> 1 \<and> qtype \<noteq> 28 then Some (make_noerror_empty query, st)
           else do {
             n \<leftarrow> extract_qname query;
             case n of
               None \<Rightarrow> Some (make_noerror_empty query, st)
             | Some qname \<Rightarrow> Some (fake_answer query qtype qname st)
           }
     }"

end
