(* ===== verification/Fakeip_Pool.thy ===== *)
theory Fakeip_Pool
  imports Fakeip
begin

text \<open>
  What the two address pools of the fake-IP store promise. The specification is a pool of addresses
  that are handed out round robin, with a table in both directions; the IPv4 and the IPv6 half of the
  store are both shown to implement it, so that the invariant and the lifetime of a mapping are proved
  once for the two.
\<close>

section \<open>Specification\<close>

record 'a pool =
  rng :: "('a \<times> 'a) option"
  cursor :: "'a option"
  owner :: "'a \<Rightarrow> string option"
  fwd :: "string \<Rightarrow> 'a option"

definition pool_alloc :: "string \<Rightarrow> ('a :: len) word pool \<Rightarrow> 'a word option \<times> 'a word pool" where
  "pool_alloc d p =
     (case fwd p d of
        Some a \<Rightarrow> (Some a, p)
      | None \<Rightarrow>
          (case (rng p, cursor p) of
             (Some net, Some c) \<Rightarrow>
               (let n = pool_next net c
                in (Some n, p\<lparr>cursor := Some n, owner := (owner p)(n \<mapsto> d),
                              fwd := (case owner p n of Some old \<Rightarrow> (fwd p)(old := None) | None \<Rightarrow> fwd p)(d \<mapsto> n)\<rparr>))
           | _ \<Rightarrow> (None, p)))"

text \<open>The tables are inverse to each other and every address lies strictly inside the range.\<close>

definition inside :: "('a :: len) word \<times> 'a word \<Rightarrow> 'a word \<Rightarrow> bool" where
  "inside net a \<longleftrightarrow> fst net < a \<and> a < snd net"

definition pool_inv :: "('a :: len) word pool \<Rightarrow> bool" where
  "pool_inv p \<longleftrightarrow>
     (\<forall>a d. owner p a = Some d \<longleftrightarrow> fwd p d = Some a)
     \<and> (case rng p of
          None \<Rightarrow> cursor p = None \<and> owner p = Map.empty
        | Some net \<Rightarrow> (\<exists>c. cursor p = Some c \<and> inside net c) \<and> (\<forall>a. owner p a \<noteq> None \<longrightarrow> inside net a))"

text \<open>The number of addresses of a range that are handed out, the position of an address among
  them, and how many allocations of other names the address \<open>a\<close> survives.\<close>

definition capacity :: "('a :: len) word \<times> 'a word \<Rightarrow> nat" where
  "capacity net = unat (snd net) - unat (fst net) - 1"

definition slot :: "('a :: len) word \<times> 'a word \<Rightarrow> 'a word \<Rightarrow> nat" where
  "slot net a = unat a - unat (fst net) - 1"

definition dist :: "('a :: len) word \<times> 'a word \<Rightarrow> 'a word \<Rightarrow> 'a word \<Rightarrow> nat" where
  "dist net c a = (slot net a + capacity net - slot net c - 1) mod capacity net"

section \<open>The round robin\<close>

lemma inside_unat: "inside net a \<longleftrightarrow> unat (fst net) < unat a \<and> unat a < unat (snd net)"
  by (simp add: inside_def word_less_nat_alt)

lemma unat_next_addr:
  fixes a b :: "('a :: len) word"
  assumes "unat a < unat b"
  shows "unat (next_addr a) = unat a + 1"
proof -
  have "unat b < 2 ^ LENGTH('a)" by (rule unsigned_less)
  then have "Suc (unat a) < 2 ^ LENGTH('a)" using assms by linarith
  then show ?thesis by (simp add: next_addr_def unat_word_ariths)
qed

lemma next_addr_unat: "inside net c \<Longrightarrow> unat (next_addr c) = unat c + 1"
  using unat_next_addr [of c "snd net"] by (simp add: inside_unat)

lemma next_start_unat: "inside net c \<Longrightarrow> unat (next_addr (fst net)) = unat (fst net) + 1"
  using unat_next_addr [of "fst net" c] by (simp add: inside_unat)

lemma pool_next_unat:
  assumes "inside net c"
  shows "unat (pool_next net c) =
    (if unat (snd net) \<le> unat c + 1 then unat (fst net) + 1 else unat c + 1)"
  using next_addr_unat [OF assms] next_start_unat [OF assms]
  by (simp add: pool_next_def word_le_nat_alt)

lemma pool_next_inside: "inside net c \<Longrightarrow> inside net (pool_next net c)"
  by (auto simp: inside_unat pool_next_unat)

lemma slot_less: "inside net a \<Longrightarrow> slot net a < capacity net"
  by (auto simp: inside_unat slot_def capacity_def)

lemma slot_inject: "inside net a \<Longrightarrow> inside net b \<Longrightarrow> slot net a = slot net b \<Longrightarrow> a = b"
  by (auto simp: inside_unat slot_def word_unat_eq_iff)

lemma slot_pool_next: "inside net c \<Longrightarrow> slot net (pool_next net c) = (if slot net c + 1 = capacity net then 0 else slot net c + 1)"
  by (auto simp: slot_def pool_next_unat capacity_def inside_unat)

lemma dist_cases:
  assumes "inside net c" "inside net a"
  shows "dist net c a = (if slot net c < slot net a then slot net a - slot net c - 1
                         else slot net a + capacity net - slot net c - 1)"
proof (cases "slot net c < slot net a")
  case True
  then have "slot net a + capacity net - slot net c - 1 = (slot net a - slot net c - 1) + capacity net" by simp
  then show ?thesis unfolding dist_def using True slot_less [OF assms(2)] by (simp only: mod_add_self2) simp
next
  case False
  then show ?thesis using slot_less [OF assms(1)] slot_less [OF assms(2)] by (simp add: dist_def)
qed

lemma dist_self: "inside net a \<Longrightarrow> dist net a a = capacity net - 1"
  by (simp add: dist_cases)

lemma dist_step:
  assumes "inside net c" "inside net a" "0 < dist net c a"
  shows "dist net (pool_next net c) a = dist net c a - 1" "pool_next net c \<noteq> a"
  using assms slot_less [OF assms(1)] slot_less [OF assms(2)]
  by (auto simp: dist_cases pool_next_inside slot_pool_next split: if_splits)

section \<open>Allocation in the specification\<close>

lemma pool_inv_owner: "pool_inv p \<Longrightarrow> owner p a = Some d \<longleftrightarrow> fwd p d = Some a"
  by (simp add: pool_inv_def)

lemma pool_alloc_known: "fwd p d = Some a \<Longrightarrow> pool_alloc d p = (Some a, p)"
  by (simp add: pool_alloc_def)

lemma pool_alloc_fresh:
  assumes "fwd p d = None" "rng p = Some net" "cursor p = Some c"
  shows "fst (pool_alloc d p) = Some (pool_next net c)"
    "rng (snd (pool_alloc d p)) = Some net" "cursor (snd (pool_alloc d p)) = Some (pool_next net c)"
    "owner (snd (pool_alloc d p)) = (owner p)(pool_next net c \<mapsto> d)"
  using assms by (simp_all add: pool_alloc_def Let_def)

lemma pool_alloc_rng [simp]: "rng (snd (pool_alloc d p)) = rng p"
  by (simp add: pool_alloc_def Let_def split: option.splits)

lemma pool_alloc_inv:
  assumes inv: "pool_inv p"
  shows "pool_inv (snd (pool_alloc d p))"
proof (cases "fwd p d = None \<and> rng p \<noteq> None")
  case False
  then show ?thesis using inv by (auto simp: pool_alloc_def split: option.splits)
next
  case True
  then obtain net where net: "rng p = Some net" by auto
  with inv obtain c where c: "cursor p = Some c" "inside net c" by (auto simp: pool_inv_def)
  have inverse: "\<And>a e. owner p a = Some e \<longleftrightarrow> fwd p e = Some a" using inv by (simp add: pool_inv_def)
  let ?q = "snd (pool_alloc d p)"
  have "owner ?q a = Some e \<longleftrightarrow> fwd ?q e = Some a" for a e
    using inverse [of a e] inverse [of a d] inverse [of "pool_next net c" e] True net c
    by (auto simp: pool_alloc_def Let_def split: option.splits)
  moreover have "inside net a" if "owner ?q a \<noteq> None" for a
    using that inv True net c pool_next_inside [OF c(2)]
    by (auto simp: pool_alloc_fresh pool_inv_def split: if_splits)
  ultimately show ?thesis
    using True net c pool_next_inside [OF c(2)] by (simp add: pool_inv_def pool_alloc_fresh)
qed

lemma pool_alloc_maps:
  assumes "pool_inv p" "rng p = Some net"
  obtains a where "fst (pool_alloc d p) = Some a" "owner (snd (pool_alloc d p)) a = Some d" "inside net a"
proof (cases "fwd p d")
  case None
  from assms obtain c where "cursor p = Some c" "inside net c" by (auto simp: pool_inv_def)
  with None assms that [of "pool_next net c"] show thesis
    by (simp add: pool_alloc_fresh pool_next_inside)
next
  case (Some a)
  with assms have "owner p a = Some d" by (simp add: pool_inv_def)
  with assms Some that [of a] show thesis by (simp add: pool_alloc_known pool_inv_def)
qed

text \<open>A mapping is lost only when the cursor has gone once around.\<close>

lemma pool_alloc_keeps:
  assumes inv: "pool_inv p" and net: "rng p = Some net" and c: "cursor p = Some c"
    and a: "owner p a = Some d" and more: "0 < dist net c a"
  shows "\<exists>c'. cursor (snd (pool_alloc e p)) = Some c' \<and> dist net c a - 1 \<le> dist net c' a
              \<and> owner (snd (pool_alloc e p)) a = Some d"
proof (cases "fwd p e")
  case None
  have "inside net c" "inside net a" using inv net c a by (auto simp: pool_inv_def)
  then have "dist net (pool_next net c) a = dist net c a - 1" "pool_next net c \<noteq> a"
    using dist_step more by blast+
  then show ?thesis using None net c a by (simp add: pool_alloc_fresh)
next
  case (Some b)
  then show ?thesis using c a by (simp add: pool_alloc_known)
qed

section \<open>The interface of a pool\<close>

text \<open>
  A component implements the pool with an allocation of its own when a view of its state follows the
  specification; other operations of the component leave the view as it is.
\<close>

locale address_pool =
  fixes view :: "'st \<Rightarrow> ('a :: len) word pool"
    and alloc :: "string \<Rightarrow> 'st \<Rightarrow> 'a word option \<times> 'st"
    and step :: "'op \<Rightarrow> 'st \<Rightarrow> 'st"
  assumes alloc_result: "fst (alloc d st) = fst (pool_alloc d (view st))"
    and alloc_view: "view (snd (alloc d st)) = snd (pool_alloc d (view st))"
    and step_view: "view (step op st) = view st \<or> (\<exists>d. view (step op st) = snd (pool_alloc d (view st)))"
begin

lemma step_inv: "pool_inv (view st) \<Longrightarrow> pool_inv (view (step op st))"
  using step_view [of op st] pool_alloc_inv by fastforce

lemma run_inv: "pool_inv (view st) \<Longrightarrow> pool_inv (view (fold step ops st))"
  by (induction ops arbitrary: st) (simp_all add: step_inv)

lemma run_rng: "rng (view (fold step ops st)) = rng (view st)"
proof (induction ops arbitrary: st)
  case (Cons op ops)
  then show ?case using step_view [of op st] by fastforce
qed simp

lemma step_keeps:
  assumes "pool_inv (view st)" "rng (view st) = Some net" "cursor (view st) = Some c"
    "owner (view st) a = Some d" "0 < dist net c a"
  shows "\<exists>c'. cursor (view (step op st)) = Some c' \<and> dist net c a - 1 \<le> dist net c' a
              \<and> owner (view (step op st)) a = Some d"
  using step_view [of op st] pool_alloc_keeps [OF assms] assms by fastforce

lemma run_keeps:
  assumes "pool_inv (view st)" "rng (view st) = Some net" "cursor (view st) = Some c"
    "owner (view st) a = Some d" "length ops \<le> dist net c a"
  shows "owner (view (fold step ops st)) a = Some d"
  using assms
proof (induction ops arbitrary: st c)
  case (Cons op ops)
  then have pos: "0 < dist net c a" by simp
  obtain c' where c': "cursor (view (step op st)) = Some c'" "dist net c a - 1 \<le> dist net c' a"
      "owner (view (step op st)) a = Some d"
    using step_keeps [OF Cons.prems(1-4) pos] by blast
  have "rng (view (step op st)) = Some net" using run_rng [of "[op]" st] Cons.prems(2) by simp
  moreover have "length ops \<le> dist net c' a" using c'(2) Cons.prems(5) by simp
  ultimately show ?case using Cons.IH [of "step op st" c'] Cons.prems(1) c' by (simp add: step_inv)
qed simp

text \<open>A newly handed out address keeps its name for fewer operations than the pool has addresses.\<close>

lemma fresh_survives:
  assumes inv: "pool_inv (view st)" and net: "rng (view st) = Some net" and fresh: "fwd (view st) d = None"
    and few: "length ops < capacity net"
  obtains a where "fst (alloc d st) = Some a" "inside net a"
    "owner (view (fold step ops (snd (alloc d st)))) a = Some d"
proof -
  from inv net obtain c where c: "cursor (view st) = Some c" "inside net c" by (auto simp: pool_inv_def)
  let ?a = "pool_next net c" and ?st = "snd (alloc d st)"
  note new = pool_alloc_fresh [OF fresh net c(1)]
  have a: "inside net ?a" using c by (simp add: pool_next_inside)
  have "pool_inv (view ?st)" by (simp add: alloc_view pool_alloc_inv inv)
  moreover have "length ops \<le> dist net ?a ?a" using few dist_self [OF a] by simp
  ultimately have "owner (view (fold step ops ?st)) ?a = Some d"
    using run_keeps [of ?st net ?a ?a d ops] new by (simp add: alloc_view)
  then show thesis using that a new(1) by (simp add: alloc_result)
qed

end

section \<open>The two halves of the store\<close>

definition view4 :: "FakeIpStore \<Rightarrow> u32 pool" where
  "view4 st = \<lparr>rng = inet4_net st, cursor = inet4_current st, owner = addr_to_domain st \<circ> V4, fwd = domain_to_v4 st\<rparr>"

definition view6 :: "FakeIpStore \<Rightarrow> u128 pool" where
  "view6 st = \<lparr>rng = inet6_net st, cursor = inet6_current st, owner = addr_to_domain st \<circ> V6, fwd = domain_to_v6 st\<rparr>"

lemma V_upd_comp [simp]:
  "m(V4 a := x) \<circ> V4 = (m \<circ> V4)(a := x)" "m(V6 b := x) \<circ> V6 = (m \<circ> V6)(b := x)"
  "m(V4 a := x) \<circ> V6 = m \<circ> V6" "m(V6 b := x) \<circ> V4 = m \<circ> V4"
  by (auto simp: fun_eq_iff)

lemma view_emit [simp]: "view4 (emit op st) = view4 st" "view6 (emit op st) = view6 st"
  by (simp_all add: emit_def view4_def view6_def)

lemma allocate_v4_pool:
  "fst (allocate_v4 d st) = fst (pool_alloc d (view4 st))"
  "view4 (snd (allocate_v4 d st)) = snd (pool_alloc d (view4 st))"
  "view6 (snd (allocate_v4 d st)) = view6 st"
  by (simp_all add: allocate_v4_def pool_alloc_def Let_def split: option.splits)
     (auto simp: view4_def view6_def)

lemma allocate_v6_pool:
  "fst (allocate_v6 d st) = fst (pool_alloc d (view6 st))"
  "view6 (snd (allocate_v6 d st)) = snd (pool_alloc d (view6 st))"
  "view4 (snd (allocate_v6 d st)) = view4 st"
  by (simp_all add: allocate_v6_def pool_alloc_def Let_def split: option.splits)
     (auto simp: view4_def view6_def)

text \<open>The operations of the resolver on the store: answer a query, change the strategy.\<close>

datatype store_op = Reply bytes | SetStrategy ResolveStrategy

fun store_step :: "store_op \<Rightarrow> FakeIpStore \<Rightarrow> FakeIpStore" where
  "store_step (Reply q) st = (case reply q st of Some (_, st') \<Rightarrow> st' | None \<Rightarrow> st)"
| "store_step (SetStrategy s) st = set_strategy s st"

lemma view_set_strategy [simp]: "view4 (set_strategy s st) = view4 st" "view6 (set_strategy s st) = view6 st"
  by (simp_all add: set_strategy_def view4_def view6_def)

lemma fake_answer_cases:
  "snd (fake_answer q t n st) \<in> {st, snd (allocate_v4 n st), snd (allocate_v6 n st)}"
  by (auto simp: fake_answer_def split: prod.splits option.splits)

lemma reply_cases:
  "reply q st = Some (r, st') \<Longrightarrow> \<exists>n. st' \<in> {st, snd (allocate_v4 n st), snd (allocate_v6 n st)}"
proof -
  assume "reply q st = Some (r, st')"
  then have "st' = st \<or> (\<exists>t n. fake_answer q t n st = (r, st'))"
    by (auto simp: reply_def split: Option.bind_split_asm option.split_asm if_split_asm)
  then show ?thesis using fake_answer_cases [of q _ _ st] by (metis insert_iff snd_conv)
qed

lemma store_step_cases:
  "\<exists>n. store_step op st \<in> {st, snd (allocate_v4 n st), snd (allocate_v6 n st)} \<union> range (\<lambda>s. set_strategy s st)"
proof (cases op)
  case (Reply q)
  then show ?thesis using reply_cases [of q st] by (auto split: option.splits)
qed auto

interpretation v4: address_pool view4 allocate_v4 store_step
proof
  fix op st
  obtain n where n: "store_step op st \<in> {st, snd (allocate_v4 n st), snd (allocate_v6 n st)} \<union> range (\<lambda>s. set_strategy s st)"
    using store_step_cases by blast
  then show "view4 (store_step op st) = view4 st \<or> (\<exists>d. view4 (store_step op st) = snd (pool_alloc d (view4 st)))"
    by (auto simp: allocate_v4_pool allocate_v6_pool)
qed (simp_all add: allocate_v4_pool)

interpretation v6: address_pool view6 allocate_v6 store_step
proof
  fix op st
  obtain n where n: "store_step op st \<in> {st, snd (allocate_v4 n st), snd (allocate_v6 n st)} \<union> range (\<lambda>s. set_strategy s st)"
    using store_step_cases by blast
  then show "view6 (store_step op st) = view6 st \<or> (\<exists>d. view6 (store_step op st) = snd (pool_alloc d (view6 st)))"
    by (auto simp: allocate_v4_pool allocate_v6_pool)
qed (simp_all add: allocate_v6_pool)

section \<open>New stores\<close>

text \<open>A range has room for a round robin when it holds an address between its first and its last.\<close>

definition roomy :: "(('a :: len) word \<times> 'a word) option \<Rightarrow> bool" where
  "roomy net = (case net of None \<Rightarrow> True | Some n \<Rightarrow> 0 < capacity n)"

lemma roomy_start: "0 < capacity net \<Longrightarrow> inside net (next_addr (fst net))"
  using unat_next_addr [of "fst net" "snd net"] by (auto simp: inside_unat capacity_def)

lemma new_pool_inv:
  "roomy net \<Longrightarrow>
   pool_inv \<lparr>rng = net, cursor = map_option (\<lambda>(start, _). next_addr start) net, owner = Map.empty, fwd = Map.empty\<rparr>"
  using roomy_start [of "the net"] by (auto simp: roomy_def pool_inv_def split: option.splits)

lemma new_store:
  assumes "new_with_cache cfg cf None = Inr st"
  shows "view4 st = \<lparr>rng = inet4_net st, cursor = map_option (\<lambda>(start, _). next_addr start) (inet4_net st),
            owner = Map.empty, fwd = Map.empty\<rparr>"
    "view6 st = \<lparr>rng = inet6_net st, cursor = map_option (\<lambda>(start, _). next_addr start) (inet6_net st),
            owner = Map.empty, fwd = Map.empty\<rparr>"
  using assms
  by (auto simp: new_with_cache_def initial_store_def res_bind_def Let_def view4_def view6_def fun_eq_iff
      split: sum.splits if_splits)

lemma new_store_inv:
  assumes "new_with_cache cfg cf None = Inr st" "roomy (inet4_net st)" "roomy (inet6_net st)"
  shows "pool_inv (view4 st)" "pool_inv (view6 st)"
  using assms new_pool_inv by (simp_all add: new_store)

lemma view_sel [simp]:
  "rng (view4 st) = inet4_net st" "owner (view4 st) a = fake_lookup st (V4 a)" "fwd (view4 st) = domain_to_v4 st"
  "rng (view6 st) = inet6_net st" "owner (view6 st) b = fake_lookup st (V6 b)" "fwd (view6 st) = domain_to_v6 st"
  by (simp_all add: view4_def view6_def fake_lookup_def)

lemma pool_inv_inside: "pool_inv p \<Longrightarrow> owner p a \<noteq> None \<Longrightarrow> \<exists>net. rng p = Some net \<and> inside net a"
  by (cases "rng p") (simp_all add: pool_inv_def)

lemma views_contain:
  assumes "pool_inv (view4 st)" "pool_inv (view6 st)" "fake_lookup st ip \<noteq> None"
  shows "fake_contains st ip"
proof (cases ip)
  case (V4 a)
  then show ?thesis using pool_inv_inside [OF assms(1), of a] assms(3) by (auto simp: in_net_def inside_def)
next
  case (V6 a)
  then show ?thesis using pool_inv_inside [OF assms(2), of a] assms(3) by (auto simp: in_net_def inside_def)
qed

lemma reply_total: "reply q st \<noteq> None"
  unfolding reply_def by (intro total_intros)

section \<open>Answers to queries\<close>

lemma reply_query4:
  assumes "dns_name d" "\<not> is_excluded st d" "fake_strategy st \<noteq> 3" "fst (allocate_v4 d st) = Some ip"
  shows "reply (build_query d 1) st = Some (build_a_response (build_query d 1) ip, snd (allocate_v4 d st))"
  using assms extract_qname_query [of d 1] extract_qtype_query [of d 1]
  by (cases "allocate_v4 d st") (simp add: reply_def fake_answer_def)

lemma reply_query6:
  assumes "dns_name d" "\<not> is_excluded st d" "fake_strategy st \<noteq> 2" "fst (allocate_v6 d st) = Some ip"
  shows "reply (build_query d 28) st = Some (build_aaaa_response (build_query d 28) ip, snd (allocate_v6 d st))"
  using assms extract_qname_query [of d 28] extract_qtype_query [of d 28]
  by (cases "allocate_v6 d st") (simp add: reply_def fake_answer_def)

definition leads_back :: "FakeIpStore \<Rightarrow> IpAddr \<Rightarrow> string \<Rightarrow> bool" where
  "leads_back st ip d \<longleftrightarrow> fake_contains st ip \<and> fake_lookup st ip = Some d"

lemma views_lead_back:
  "pool_inv (view4 st) \<Longrightarrow> pool_inv (view6 st) \<Longrightarrow> fake_lookup st ip = Some d \<Longrightarrow> leads_back st ip d"
  using views_contain [of st ip] by (simp add: leads_back_def)

lemma fresh_answer4:
  assumes inv: "pool_inv (view4 st)" "pool_inv (view6 st)" and net: "inet4_net st = Some net"
    and d: "dns_name d" "\<not> is_excluded st d" "fake_strategy st \<noteq> 3" "domain_to_v4 st d = None"
    and few: "length ops < capacity net"
  obtains r st' ip where "reply (build_query d 1) st = Some (r, st')"
    "extract_first_ip r 1 = Some (Some (V4 ip))" "leads_back (fold store_step ops st') (V4 ip) d"
proof -
  have "rng (view4 st) = Some net" "fwd (view4 st) d = None" using net d(4) by simp_all
  from v4.fresh_survives [OF inv(1) this few]
  obtain ip where ip: "fst (allocate_v4 d st) = Some ip"
    "owner (view4 (fold store_step ops (snd (allocate_v4 d st)))) ip = Some d" .
  moreover have "pool_inv (view4 (fold store_step ops (snd (allocate_v4 d st))))"
      "pool_inv (view6 (fold store_step ops (snd (allocate_v4 d st))))"
    using inv by (simp_all add: v4.run_inv v6.run_inv allocate_v4_pool pool_alloc_inv)
  ultimately have "leads_back (fold store_step ops (snd (allocate_v4 d st))) (V4 ip) d"
    by (intro views_lead_back) simp_all
  then show thesis
    using that [of "build_a_response (build_query d 1) ip" "snd (allocate_v4 d st)" ip]
      reply_query4 [OF d(1-3) ip(1)] a_response_ip [OF d(1)] by simp
qed

lemma fresh_answer6:
  assumes inv: "pool_inv (view4 st)" "pool_inv (view6 st)" and net: "inet6_net st = Some net"
    and d: "dns_name d" "\<not> is_excluded st d" "fake_strategy st \<noteq> 2" "domain_to_v6 st d = None"
    and few: "length ops < capacity net"
  obtains r st' ip where "reply (build_query d 28) st = Some (r, st')"
    "extract_first_ip r 28 = Some (Some (V6 ip))" "leads_back (fold store_step ops st') (V6 ip) d"
proof -
  have "rng (view6 st) = Some net" "fwd (view6 st) d = None" using net d(4) by simp_all
  from v6.fresh_survives [OF inv(2) this few]
  obtain ip where ip: "fst (allocate_v6 d st) = Some ip"
    "owner (view6 (fold store_step ops (snd (allocate_v6 d st)))) ip = Some d" .
  moreover have "pool_inv (view4 (fold store_step ops (snd (allocate_v6 d st))))"
      "pool_inv (view6 (fold store_step ops (snd (allocate_v6 d st))))"
    using inv by (simp_all add: v4.run_inv v6.run_inv allocate_v6_pool pool_alloc_inv)
  ultimately have "leads_back (fold store_step ops (snd (allocate_v6 d st))) (V6 ip) d"
    by (intro views_lead_back) simp_all
  then show thesis
    using that [of "build_aaaa_response (build_query d 28) ip" "snd (allocate_v6 d st)" ip]
      reply_query6 [OF d(1-3) ip(1)] aaaa_response_ip [OF d(1)] by simp
qed

section \<open>Properties\<close>

text \<open>
  However queries are answered and the strategy is changed, the tables of the store stay inverse to
  each other (an address leads to the one name that leads to it), every address with a name lies in
  the configured range, and no query makes the store panic. The ranges need an address between their
  first and last one.
\<close>

theorem fakeip_tables_inverse:
  assumes "new_with_cache cfg cf None = Inr st" "roomy (inet4_net st)" "roomy (inet6_net st)"
    and "st' = fold store_step ops st"
  shows "(\<forall>a d. fake_lookup st' (V4 a) = Some d \<longleftrightarrow> domain_to_v4 st' d = Some a)
    \<and> (\<forall>b d. fake_lookup st' (V6 b) = Some d \<longleftrightarrow> domain_to_v6 st' d = Some b)
    \<and> (\<forall>ip. fake_lookup st' ip \<noteq> None \<longrightarrow> fake_contains st' ip)
    \<and> (\<forall>q. reply q st' \<noteq> None)"
proof -
  have inv: "pool_inv (view4 st')" "pool_inv (view6 st')"
    using assms v4.run_inv v6.run_inv new_store_inv by simp_all
  show ?thesis
    using pool_inv_owner [OF inv(1)] pool_inv_owner [OF inv(2)] views_contain [OF inv] reply_total by simp
qed

definition demo_config :: FakeIpConfig where
  "demo_config = \<lparr>inet4_range = Some ''198.18.0.0/29'', inet6_range = None,
     cfg_exclude_domain = [], cfg_exclude_domain_suffix = [''lan'']\<rparr>"

definition demo_store :: FakeIpStore where
  "demo_store = initial_store demo_config False (Some (0xC6120000, 0xC6120007)) None"

lemma demo_store: "new_with_cache demo_config False None = Inr demo_store"
proof -
  have "fake_ipv4_cidr ''198.18.0.0/29'' = Inr (0xC6120000, 0xC6120007)" by code_simp
  then show ?thesis
    by (simp add: new_with_cache_def demo_config_def transpose_opt_def demo_store_def)
qed

lemma demo_store_nets: "inet4_net demo_store = Some (0xC6120000, 0xC6120007)" "inet6_net demo_store = None"
  "roomy (inet4_net demo_store)" "roomy (inet6_net demo_store)" "capacity (0xC6120000 :: u32, 0xC6120007) = 6"
  by (simp_all add: demo_store_def initial_store_def roomy_def capacity_def)

theorem fakeip_tables_inverse_witness:
  "fake_lookup (fold store_step [Reply (build_query ''a.com'' 1), SetStrategy Ipv4Only] demo_store) (V4 0xC6120002) = Some ''a.com''
   \<longleftrightarrow> domain_to_v4 (fold store_step [Reply (build_query ''a.com'' 1), SetStrategy Ipv4Only] demo_store) ''a.com'' = Some 0xC6120002"
  using fakeip_tables_inverse [OF demo_store demo_store_nets(3,4) refl] by blast

text \<open>
  C12. The address in the answer to a query for a name that has none leads back to that name for fewer
  than \<open>capacity\<close> further operations on the store, whatever they are: the pool is a round robin, and
  an address is given to another name only after all the others. \<open>capacity\<close> is the number of addresses
  between the first and the last of the range.
\<close>

theorem fakeip_answer_leads_back:
  assumes "new_with_cache cfg cf None = Inr st0" "roomy (inet4_net st0)" "roomy (inet6_net st0)"
    and "st = fold store_step before st0" and "dns_name d" "\<not> is_excluded st d"
  shows "(\<forall>net later. inet4_net st = Some net \<and> fake_strategy st \<noteq> 3 \<and> domain_to_v4 st d = None \<and> length later < capacity net \<longrightarrow>
      (\<exists>r st' ip. reply (build_query d 1) st = Some (r, st') \<and> extract_first_ip r 1 = Some (Some (V4 ip))
         \<and> leads_back (fold store_step later st') (V4 ip) d))
    \<and> (\<forall>net later. inet6_net st = Some net \<and> fake_strategy st \<noteq> 2 \<and> domain_to_v6 st d = None \<and> length later < capacity net \<longrightarrow>
      (\<exists>r st' ip. reply (build_query d 28) st = Some (r, st') \<and> extract_first_ip r 28 = Some (Some (V6 ip))
         \<and> leads_back (fold store_step later st') (V6 ip) d))"
proof -
  have inv: "pool_inv (view4 st)" "pool_inv (view6 st)"
    using assms v4.run_inv v6.run_inv new_store_inv by simp_all
  show ?thesis using fresh_answer4 [OF inv _ assms(5,6)] fresh_answer6 [OF inv _ assms(5,6)] by metis
qed

theorem fakeip_answer_leads_back_witness:
  "\<exists>r st' ip. reply (build_query ''a.com'' 1) demo_store = Some (r, st') \<and> extract_first_ip r 1 = Some (Some (V4 ip))
     \<and> leads_back (fold store_step [Reply (build_query ''b.com'' 1), Reply (build_query ''c.com'' 1)] st') (V4 ip) ''a.com''"
proof -
  have name: "dns_name ''a.com''" by code_simp
  have "\<not> is_excluded demo_store ''a.com''" by code_simp
  note answer = fakeip_answer_leads_back [OF demo_store demo_store_nets(3,4) _ name this, of "[]", simplified fold.simps id_apply,
      OF refl, THEN conjunct1, rule_format]
  have "domain_to_v4 demo_store ''a.com'' = None" "fake_strategy demo_store \<noteq> 3"
    by (simp_all add: demo_store_def initial_store_def)
  then show ?thesis
    by (intro answer [of "(0xC6120000, 0xC6120007)"]) (simp add: demo_store_nets)
qed

text \<open>With a range of one address the store hands out the address after it, which is not in the
  range, so that it does not lead back to the name.\<close>

lemma single_address_range_escapes:
  "\<exists>st st' ip. new_with_cache \<lparr>inet4_range = Some ''198.18.0.1/32'', inet6_range = None,
       cfg_exclude_domain = [], cfg_exclude_domain_suffix = []\<rparr> False None = Inr st
     \<and> allocate_v4 ''a.com'' st = (Some ip, st') \<and> \<not> fake_contains st' (V4 ip)"
proof -
  have "fake_ipv4_cidr ''198.18.0.1/32'' = Inr (0xC6120001, 0xC6120001)" by code_simp
  then show ?thesis
    by (simp add: new_with_cache_def transpose_opt_def initial_store_def allocate_v4_def pool_next_def
        next_addr_def emit_def in_net_def)
qed

end
