(* ===== verification/Addr_Text.thy ===== *)
theory Addr_Text
  imports Rust_Std
begin

text \<open>
  Printing of addresses (\<open>Display\<close> of \<open>core::net\<close>) and its relation to the address parser: the text
  of an IPv4 address is read back as that address.
\<close>

section \<open>Printing\<close>

definition show_ipv4 :: "u32 \<Rightarrow> string" where
  "show_ipv4 a = join ''.'' (map (show_nat \<circ> unat) (octets4 a))"

definition hex_digit :: "nat \<Rightarrow> char" where
  "hex_digit d = char_of (if d < 10 then 48 + d else 87 + d)"

fun show_hex :: "nat \<Rightarrow> string" where
  "show_hex n = (if n < 16 then [hex_digit n] else show_hex (n div 16) @ [hex_digit (n mod 16)])"

declare show_hex.simps [simp del]

text \<open>The first longest run of zero segments, as its start and length.\<close>

fun zero_run :: "nat \<Rightarrow> nat list \<Rightarrow> nat \<times> nat \<Rightarrow> nat \<times> nat \<Rightarrow> nat \<times> nat" where
  "zero_run i [] cur longest = longest"
| "zero_run i (s # ss) cur longest =
     (if s = 0
      then (let cur = (if snd cur = 0 then (i, 1) else (fst cur, snd cur + 1))
            in zero_run (Suc i) ss cur (if snd longest < snd cur then cur else longest))
      else zero_run (Suc i) ss (0, 0) longest)"

definition segments :: "u128 \<Rightarrow> nat list" where
  "segments a = map (\<lambda>i. unat (drop_bit (112 - 16 * i) a) mod 65536) [0..<8]"

definition show_ipv6 :: "u128 \<Rightarrow> string" where
  "show_ipv6 a =
     (case to_ipv4_mapped a of
        Some v4 \<Rightarrow> ''::ffff:'' @ show_ipv4 v4
      | None \<Rightarrow>
          (let ss = segments a; (start, len) = zero_run 0 ss (0, 0) (0, 0);
               fmt = (\<lambda>gs. join '':'' (map show_hex gs))
           in if 1 < len then fmt (take start ss) @ ''::'' @ fmt (drop (start + len) ss) else fmt ss))"

fun show_ip :: "IpAddr \<Rightarrow> string" where
  "show_ip (V4 a) = show_ipv4 a"
| "show_ip (V6 a) = show_ipv6 a"

section \<open>Socket addresses\<close>

definition read_char :: "char \<Rightarrow> string \<Rightarrow> string option" where
  "read_char c s = (case s of [] \<Rightarrow> None | x # xs \<Rightarrow> if x = c then Some xs else None)"

definition read_port :: "string \<Rightarrow> (nat \<times> string) option" where
  "read_port s = Option.bind (read_char CHR '':'' s) (\<lambda>r. read_number 10 (length r) True 65535 r)"

text \<open>The scope identifier of an IPv6 socket address is read and, as it is not used, dropped.\<close>

definition read_scope_id :: "string \<Rightarrow> (nat \<times> string) option" where
  "read_scope_id s = Option.bind (read_char CHR ''%'' s) (\<lambda>r. read_number 10 (length r) True (2 ^ 32 - 1) r)"

definition read_socket_addr_v4 :: "string \<Rightarrow> (SocketAddr \<times> string) option" where
  "read_socket_addr_v4 s =
     Option.bind (read_ipv4_addr s) (\<lambda>(os, r).
     Option.bind (read_port r) (\<lambda>(p, r).
       Some (\<lparr>sa_ip = V4 (ipv4_of_octets os), sa_port = word_of_nat p\<rparr>, r)))"

definition read_socket_addr_v6 :: "string \<Rightarrow> (SocketAddr \<times> string) option" where
  "read_socket_addr_v6 s =
     Option.bind (read_char CHR ''['' s) (\<lambda>r.
     Option.bind (read_ipv6_addr r) (\<lambda>(gs, r).
     (let r = (case read_scope_id r of Some (_, r) \<Rightarrow> r | None \<Rightarrow> r)
      in Option.bind (read_char CHR '']'' r) (\<lambda>r.
         Option.bind (read_port r) (\<lambda>(p, r).
           Some (\<lparr>sa_ip = V6 (ipv6_of_groups gs), sa_port = word_of_nat p\<rparr>, r))))))"

definition parse_socket_addr :: "string \<Rightarrow> SocketAddr option" where
  "parse_socket_addr s =
     (case (case read_socket_addr_v4 s of Some x \<Rightarrow> Some x | None \<Rightarrow> read_socket_addr_v6 s) of
        Some (a, []) \<Rightarrow> Some a
      | _ \<Rightarrow> None)"

section \<open>Reading back\<close>

lemma to_digit_decimal: "is_digit c \<Longrightarrow> to_digit 10 c = Some (code c - 48)"
  by (auto simp: to_digit_def is_digit_def Let_def)

lemma take_digits_append:
  assumes "\<forall>c \<in> set s. is_digit c" "r = [] \<or> to_digit 10 (hd r) = None"
  shows "take_digits 10 (s @ r) = (map (\<lambda>c. code c - 48) s, r)"
  using assms
proof (induction s)
  case Nil
  then show ?case by (cases r) auto
qed (simp add: to_digit_decimal)

lemma show_nat_short:
  shows "n < 10 \<Longrightarrow> show_nat n = [digit n]"
    and "10 \<le> n \<Longrightarrow> n < 100 \<Longrightarrow> show_nat n = [digit (n div 10), digit (n mod 10)]"
    and "100 \<le> n \<Longrightarrow> n < 1000 \<Longrightarrow> show_nat n = [digit (n div 10 div 10), digit (n div 10 mod 10), digit (n mod 10)]"
proof -
  assume "100 \<le> n" "n < 1000"
  then have "\<not> n < 10" "\<not> n div 10 < 10" "n div 10 div 10 < 10" by linarith+
  then show "show_nat n = [digit (n div 10 div 10), digit (n div 10 mod 10), digit (n mod 10)]"
    by (simp only: show_nat.simps [of n] show_nat.simps [of "n div 10"] show_nat.simps [of "n div 10 div 10"]) simp
qed (simp_all add: show_nat.simps [of n] show_nat.simps [of "n div 10"])

lemma show_nat_small:
  assumes "n < 256"
  shows "length (show_nat n) \<le> 3 \<and> (1 < length (show_nat n) \<longrightarrow> code (hd (show_nat n)) \<noteq> 48)"
proof -
  consider "n < 10" | "10 \<le> n" "n < 100" | "100 \<le> n" by linarith
  then show ?thesis
  proof cases
    case 3
    then have "0 < n div 10 div 10" "n div 10 div 10 < 10" using assms by simp_all
    then show ?thesis using 3 assms digit_props [of "n div 10 div 10"] by (simp add: show_nat_short(3))
  qed (simp_all add: show_nat_short digit_props)
qed

lemma read_number_show_nat:
  assumes "n < 256" "r = [] \<or> to_digit 10 (hd r) = None"
  shows "read_number 10 3 False 255 (show_nat n @ r) = Some (n, r)"
proof -
  have ds: "take_digits 10 (show_nat n @ r) = (map (\<lambda>c. code c - 48) (show_nat n), r)"
    using show_nat_digits assms(2) by (intro take_digits_append) blast+
  have "foldl (\<lambda>v d. 10 * v + d) 0 (map (\<lambda>c. code c - 48) (show_nat n)) = n"
    using digits_value_show_nat [of n] by (simp add: digits_value_def foldl_map)
  moreover have "hd (map (\<lambda>c. code c - 48) (show_nat n)) \<noteq> 0" if "1 < length (show_nat n)"
  proof -
    have "is_digit (hd (show_nat n))" using show_nat_digits [of "hd (show_nat n)" n] by simp
    then show ?thesis using show_nat_small [OF assms(1)] that by (simp add: hd_map is_digit_def)
  qed
  ultimately show ?thesis
    using ds show_nat_small [OF assms(1)] assms(1) by (auto simp: read_number_def)
qed

lemma to_digit_dot [simp]: "to_digit 10 (CHR ''.'') = None"
  by (simp add: to_digit_def code_def)

lemma be_value_foldl: "foldl (\<lambda>v d. 256 * v + d) 0 (map unat bs) = be_value bs"
  by (induction bs rule: rev_induct) (simp_all add: be_value_def)

lemma four: "4 = Suc (Suc (Suc (Suc 0)))"
  by simp

lemma read_ipv4_show:
  fixes a b c d :: u8
  assumes "r = [] \<or> to_digit 10 (hd r) = None"
  shows "read_ipv4_addr (join ''.'' (map (show_nat \<circ> unat) [a, b, c, d]) @ r) = Some (map unat [a, b, c, d], r)"
  using assms
  unfolding read_ipv4_addr_def four by (simp add: read_separator_def read_number_show_nat)

lemma length_four: "length xs = 4 \<Longrightarrow> \<exists>a b c d. xs = [a, b, c, d]"
  unfolding four by (auto simp: length_Suc_conv)

lemma parse_show_ipv4 [simp]: "parse_ip (show_ipv4 x) = Some (V4 x)"
proof -
  obtain a b c d where o4: "octets4 x = [a, b, c, d]" using length_four [OF addr_codec_roundtrip(3)] by blast
  have "ipv4_of_octets (map unat (octets4 x)) = x"
    using addr_codec_roundtrip(1) [of x] unfolding ipv4_of_octets_def be_value_foldl
    by (simp add: ipv4_of_bytes_def u32_of_be_def)
  then show ?thesis using read_ipv4_show [of "[]" a b c d] by (simp add: parse_ip_def show_ipv4_def o4)
qed

lemma show_ipv4_inject [simp]: "show_ipv4 a = show_ipv4 b \<longleftrightarrow> a = b"
  by (metis IpAddr.inject(1) option.inject parse_show_ipv4)

end
