(* ===== verification/Cache_File.thy ===== *)
theory Cache_File
  imports Addr_Text "HOL-Library.DAList"
begin

text \<open>
  The persistent cache (\<open>src/experimental/cache_file.rs\<close>): a writer that sends operations over a
  channel, a task that applies them to the tables of an embedded database, a reader, and the cleaning
  of old entries. The database (the \<open>redb\<close> crate) is a parameter: a record of the operations on a table
  with the laws its documentation states. Times are in seconds.
\<close>

section \<open>Tables\<close>

record ('t, 'k, 'v) table_ops =
  t_get :: "'k \<Rightarrow> 't \<Rightarrow> 'v option"
  t_insert :: "'k \<Rightarrow> 'v \<Rightarrow> 't \<Rightarrow> 't"
  t_remove :: "'k \<Rightarrow> 't \<Rightarrow> 't"
  t_iter :: "'t \<Rightarrow> ('k \<times> 'v) list"

definition table_laws :: "('t, 'k, 'v) table_ops \<Rightarrow> bool" where
  "table_laws ops \<longleftrightarrow>
     (\<forall>k v t k'. t_get ops k' (t_insert ops k v t) = (if k' = k then Some v else t_get ops k' t))
     \<and> (\<forall>k t k'. t_get ops k' (t_remove ops k t) = (if k' = k then None else t_get ops k' t))
     \<and> (\<forall>t. distinct (map fst (t_iter ops t)))
     \<and> (\<forall>t k. map_of (t_iter ops t) k = t_get ops k t)"

lemma table_laws_simps:
  assumes "table_laws ops"
  shows "t_get ops k' (t_insert ops k v t) = (if k' = k then Some v else t_get ops k' t)"
    "t_get ops k' (t_remove ops k t) = (if k' = k then None else t_get ops k' t)"
    "distinct (map fst (t_iter ops t))" "map_of (t_iter ops t) k = t_get ops k t"
  using assms unfolding table_laws_def by blast+

lemma table_iter_set: "table_laws ops \<Longrightarrow> (k, v) \<in> set (t_iter ops t) \<longleftrightarrow> t_get ops k t = Some v"
  by (metis table_laws_simps(3,4) map_of_eq_Some_iff)

text \<open>The entries that a scan collects and a second pass removes.\<close>

definition purge :: "('t, 'k, 'v) table_ops \<Rightarrow> ('v \<Rightarrow> bool) \<Rightarrow> 't \<Rightarrow> 't \<times> nat" where
  "purge ops old t =
     (let ks = map fst (filter (\<lambda>(k, v). old v) (t_iter ops t))
      in if ks = [] then (t, 0) else (fold (t_remove ops) ks t, length ks))"

section \<open>The database and the operations on it\<close>

record ('f, 'd, 's, 'r) Database =
  fakeip_table :: 'f
  dns_table :: 'd
  selected_table :: 's
  ruleset_table :: 'r

record ('f, 'd, 's, 'r) redb =
  f_ops :: "('f, string, nat \<times> string) table_ops"
  d_ops :: "('d, bytes, nat \<times> bytes) table_ops"
  s_ops :: "('s, string, string) table_ops"
  r_ops :: "('r, string, bytes) table_ops"

datatype WriteOp =
    StoreFakeip string string nat
  | TouchFakeip string nat
  | SaveDns bytes nat bytes
  | StoreSelected string string
  | StoreRuleset string bytes
  | Cleanup
  | Shutdown

record CacheFile =
  write_tx :: "WriteOp list"
  cf_store_fakeip :: bool
  cf_store_dns :: bool

definition send_op :: "WriteOp \<Rightarrow> CacheFile \<Rightarrow> CacheFile" where
  "send_op op cf = cf\<lparr>write_tx := write_tx cf @ [op]\<rparr>"

definition store_fakeip_entry :: "nat \<Rightarrow> IpAddr \<Rightarrow> string \<Rightarrow> CacheFile \<Rightarrow> CacheFile" where
  "store_fakeip_entry unix_now ip domain cf =
     (if \<not> cf_store_fakeip cf then cf else send_op (StoreFakeip (show_ip ip) domain unix_now) cf)"

definition touch_fakeip_entry :: "nat \<Rightarrow> IpAddr \<Rightarrow> CacheFile \<Rightarrow> CacheFile" where
  "touch_fakeip_entry unix_now ip cf =
     (if \<not> cf_store_fakeip cf then cf else send_op (TouchFakeip (show_ip ip) unix_now) cf)"

definition store_selected :: "string \<Rightarrow> string \<Rightarrow> CacheFile \<Rightarrow> CacheFile" where
  "store_selected grp selected cf = send_op (StoreSelected grp selected) cf"

definition store_ruleset_entry :: "string \<Rightarrow> bytes \<Rightarrow> CacheFile \<Rightarrow> CacheFile" where
  "store_ruleset_entry tg data cf = send_op (StoreRuleset tg data) cf"

definition encode_dns_key :: "string \<Rightarrow> string \<Rightarrow> u16 \<Rightarrow> bytes" where
  "encode_dns_key transport qname qtype =
     u16_be (word_of_nat (length (as_bytes transport))) @ as_bytes transport
     @ as_bytes (to_ascii_lowercase qname) @ [0] @ u16_be qtype"

definition save_dns_cache_async :: "string \<Rightarrow> string \<Rightarrow> u16 \<Rightarrow> bytes \<Rightarrow> nat \<Rightarrow> CacheFile \<Rightarrow> CacheFile" where
  "save_dns_cache_async transport qname qtype raw expire_at cf =
     (if \<not> cf_store_dns cf then cf else send_op (SaveDns (encode_dns_key transport qname qtype) expire_at raw) cf)"

subsection \<open>Reading\<close>

text \<open>A read transaction that fails reads as \<open>None\<close>; \<open>db\<close> is the snapshot of one that succeeds.\<close>

definition load_selected :: "('f, 'd, 's, 'r) redb \<Rightarrow> ('f, 'd, 's, 'r) Database option \<Rightarrow> string \<Rightarrow> string option" where
  "load_selected rd rtx grp = Option.bind rtx (\<lambda>db. t_get (s_ops rd) grp (selected_table db))"

definition load_ruleset_cache :: "('f, 'd, 's, 'r) redb \<Rightarrow> ('f, 'd, 's, 'r) Database option \<Rightarrow> string \<Rightarrow> bytes option" where
  "load_ruleset_cache rd rtx tg = Option.bind rtx (\<lambda>db. t_get (r_ops rd) tg (ruleset_table db))"

definition load_dns_cache ::
  "('f, 'd, 's, 'r) redb \<Rightarrow> bool \<Rightarrow> ('f, 'd, 's, 'r) Database option \<Rightarrow> string \<Rightarrow> string \<Rightarrow> u16 \<Rightarrow> (bytes \<times> nat) option" where
  "load_dns_cache rd store_dns rtx transport qname qtype =
     (if \<not> store_dns then None
      else Option.bind rtx (\<lambda>db.
        map_option (\<lambda>(expire_at, raw). (raw, expire_at))
          (t_get (d_ops rd) (encode_dns_key transport qname qtype) (dns_table db))))"

definition load_all_fakeip :: "('f, 'd, 's, 'r) redb \<Rightarrow> ('f, 'd, 's, 'r) Database \<Rightarrow> (IpAddr \<times> string) list" where
  "load_all_fakeip rd db =
     List.map_filter (\<lambda>(ip_str, _, domain). map_option (\<lambda>ip. (ip, domain)) (parse_ip ip_str))
       (t_iter (f_ops rd) (fakeip_table db))"

subsection \<open>Writing\<close>

definition purge_expired_dns :: "('f, 'd, 's, 'r) redb \<Rightarrow> nat \<Rightarrow> ('f, 'd, 's, 'r) Database \<Rightarrow> ('f, 'd, 's, 'r) Database" where
  "purge_expired_dns rd now_secs db =
     db\<lparr>dns_table := fst (purge (d_ops rd) (\<lambda>(expire_at, _). expire_at \<le> now_secs) (dns_table db))\<rparr>"

definition purge_stale_fakeip :: "('f, 'd, 's, 'r) redb \<Rightarrow> nat \<Rightarrow> ('f, 'd, 's, 'r) Database \<Rightarrow> ('f, 'd, 's, 'r) Database" where
  "purge_stale_fakeip rd cutoff_secs db =
     db\<lparr>fakeip_table := fst (purge (f_ops rd) (\<lambda>(last_seen, _). last_seen < cutoff_secs) (fakeip_table db))\<rparr>"

text \<open>Subtraction of natural numbers saturates at zero, as \<open>saturating_sub\<close> does.\<close>

definition do_cleanup :: "('f, 'd, 's, 'r) redb \<Rightarrow> nat \<Rightarrow> nat \<Rightarrow> ('f, 'd, 's, 'r) Database \<Rightarrow> ('f, 'd, 's, 'r) Database" where
  "do_cleanup rd fakeip_ttl_days now db =
     (let db = purge_expired_dns rd now db
      in if 0 < fakeip_ttl_days then purge_stale_fakeip rd (now - fakeip_ttl_days * 86400) db else db)"

fun apply_op :: "('f, 'd, 's, 'r) redb \<Rightarrow> WriteOp \<Rightarrow> ('f, 'd, 's, 'r) Database \<Rightarrow> ('f, 'd, 's, 'r) Database" where
  "apply_op rd (StoreFakeip ip domain last_seen) db =
     db\<lparr>fakeip_table := t_insert (f_ops rd) ip (last_seen, domain) (fakeip_table db)\<rparr>"
| "apply_op rd (TouchFakeip ip last_seen) db =
     (case t_get (f_ops rd) ip (fakeip_table db) of
        Some (_, domain) \<Rightarrow> db\<lparr>fakeip_table := t_insert (f_ops rd) ip (last_seen, domain) (fakeip_table db)\<rparr>
      | None \<Rightarrow> db)"
| "apply_op rd (SaveDns key expire_at raw) db =
     db\<lparr>dns_table := t_insert (d_ops rd) key (expire_at, raw) (dns_table db)\<rparr>"
| "apply_op rd (StoreSelected grp selected) db =
     db\<lparr>selected_table := t_insert (s_ops rd) grp selected (selected_table db)\<rparr>"
| "apply_op rd (StoreRuleset tg data) db =
     db\<lparr>ruleset_table := t_insert (r_ops rd) tg data (ruleset_table db)\<rparr>"
| "apply_op rd Cleanup db = db"
| "apply_op rd Shutdown db = db"

text \<open>
  What the writing task waits for: an operation, with whether its transaction commits, or the timer.
  A transaction that fails leaves the database as it was and the task goes on.
\<close>

datatype write_event = Received WriteOp bool nat | Tick nat

fun write_loop ::
  "('f, 'd, 's, 'r) redb \<Rightarrow> nat \<Rightarrow> write_event list \<Rightarrow> ('f, 'd, 's, 'r) Database \<Rightarrow> ('f, 'd, 's, 'r) Database" where
  "write_loop rd days [] db = db"
| "write_loop rd days (Received Shutdown _ _ # evs) db = db"
| "write_loop rd days (Received Cleanup _ now # evs) db = write_loop rd days evs (do_cleanup rd days now db)"
| "write_loop rd days (Received op commits _ # evs) db =
     write_loop rd days evs (if commits then apply_op rd op db else db)"
| "write_loop rd days (Tick now # evs) db = write_loop rd days evs (do_cleanup rd days now db)"

text \<open>Operations that are received one after the other and whose transactions commit.\<close>

definition commits :: "WriteOp list \<Rightarrow> write_event list" where
  "commits ops = map (\<lambda>op. Received op True 0) ops"

definition open_cleanup ::
  "('f, 'd, 's, 'r) redb \<Rightarrow> bool \<Rightarrow> nat \<Rightarrow> bool \<Rightarrow> nat \<Rightarrow> ('f, 'd, 's, 'r) Database \<Rightarrow> ('f, 'd, 's, 'r) Database" where
  "open_cleanup rd store_fakeip fakeip_ttl_days store_dns unix_now db =
     (let db = (if store_fakeip \<and> 0 < fakeip_ttl_days
                then purge_stale_fakeip rd (unix_now - fakeip_ttl_days * 86400) db else db)
      in if store_dns then purge_expired_dns rd unix_now db else db)"

section \<open>Laws\<close>

lemma fold_remove_get:
  "table_laws ops \<Longrightarrow> t_get ops k (fold (t_remove ops) ks t) = (if k \<in> set ks then None else t_get ops k t)"
  by (induction ks arbitrary: t) (simp_all add: table_laws_simps)

lemma purge_get:
  assumes "table_laws ops"
  shows "t_get ops k (fst (purge ops old t)) =
    (case t_get ops k t of Some v \<Rightarrow> if old v then None else Some v | None \<Rightarrow> None)"
proof -
  let ?ks = "map fst (filter (\<lambda>(k, v). old v) (t_iter ops t))"
  have "k \<in> set ?ks \<longleftrightarrow> (\<exists>v. t_get ops k t = Some v \<and> old v)"
    by (force simp: table_iter_set [OF assms, symmetric])
  moreover have "fst (purge ops old t) = fold (t_remove ops) ?ks t" by (simp add: purge_def Let_def)
  ultimately show ?thesis using fold_remove_get [OF assms, of k ?ks t] by (auto split: option.splits)
qed

text \<open>Keys of the DNS table: distinct questions have distinct keys, up to the case of the name.\<close>

lemma encode_dns_key_inject:
  assumes "length t < 65536" "length t' < 65536" "encode_dns_key t q y = encode_dns_key t' q' y'"
  shows "t = t' \<and> to_ascii_lowercase q = to_ascii_lowercase q' \<and> y = y'"
proof -
  have len: "u16_of_be (u16_be (word_of_nat n)) = (word_of_nat n :: u16)" for n by simp
  have parts: "u16_be (word_of_nat (length t)) = u16_be (word_of_nat (length t'))"
    "as_bytes t @ as_bytes (to_ascii_lowercase q) @ [0] @ u16_be y =
     as_bytes t' @ as_bytes (to_ascii_lowercase q') @ [0] @ u16_be y'"
    using assms(3) by (simp_all add: encode_dns_key_def)
  then have "(word_of_nat (length t) :: u16) = word_of_nat (length t')" by (metis len)
  then have "unat (word_of_nat (length t) :: u16) = unat (word_of_nat (length t') :: u16)" by simp
  then have "length t = length t'" using assms(1,2) by (simp add: unat_of_nat)
  then have t: "as_bytes t = as_bytes t'"
    and r: "as_bytes (to_ascii_lowercase q) @ [0] @ u16_be y = as_bytes (to_ascii_lowercase q') @ [0] @ u16_be y'"
    using parts(2) by simp_all
  from r have "length (as_bytes (to_ascii_lowercase q)) = length (as_bytes (to_ascii_lowercase q'))"
    by (metis add_right_cancel length_append length_int_codecs(3))
  then have "as_bytes (to_ascii_lowercase q) = as_bytes (to_ascii_lowercase q')" "u16_be y = u16_be y'"
    using r by simp_all
  then show ?thesis using t by (metis int_codec_roundtrip(3) of_bytes_as_bytes)
qed

text \<open>The table laws hold for association lists with distinct keys.\<close>

definition alist_table :: "(('k, 'v) alist, 'k, 'v) table_ops" where
  "alist_table = \<lparr>t_get = (\<lambda>k t. DAList.lookup t k), t_insert = DAList.update, t_remove = DAList.delete,
     t_iter = DAList.impl_of\<rparr>"

lemma alist_table_laws: "table_laws (alist_table :: (('k, 'v) alist, 'k, 'v) table_ops)"
proof -
  have "map_of (DAList.impl_of t) k = DAList.lookup t k" for t :: "('k, 'v) alist" and k
    by (simp add: DAList.lookup.rep_eq)
  then show ?thesis unfolding table_laws_def alist_table_def by (simp add: lookup_update)
qed

definition alist_redb :: "((string, nat \<times> string) alist, (bytes, nat \<times> bytes) alist, (string, string) alist, (string, bytes) alist) redb" where
  "alist_redb = \<lparr>f_ops = alist_table, d_ops = alist_table, s_ops = alist_table, r_ops = alist_table\<rparr>"

definition empty_db :: "((string, nat \<times> string) alist, (bytes, nat \<times> bytes) alist, (string, string) alist, (string, bytes) alist) Database" where
  "empty_db = \<lparr>fakeip_table = DAList.empty, dns_table = DAList.empty, selected_table = DAList.empty, ruleset_table = DAList.empty\<rparr>"

end
