(* ===== verification/Fakeip_Persist.thy ===== *)
theory Fakeip_Persist
  imports Fakeip_Pool Cache_File
begin

text \<open>
  The fake-IP store and the persistent cache together: the calls the store makes on the cache file
  become writes of the database, and a store built after a restart from what the reader loads has the
  same mapping.
\<close>

section \<open>The calls of the store as writes\<close>








section \<open>The writes in the database\<close>










section \<open>The records a restart loads\<close>




section \<open>Restoring\<close>








section \<open>Restart\<close>







section \<open>The life of a process\<close>














end
