(* ===== verification/Dns_Servers.thy ===== *)
theory Dns_Servers
  imports Fakeip
begin

text \<open>
  The configured DNS servers (\<open>src/config/dns.rs\<close>) and the order in which they are built
  (\<open>toposort_servers\<close> of \<open>src/dns/mod.rs\<close>): a server may name another one that resolves its own host
  name, and that one has to be built first.
\<close>

section \<open>Configuration\<close>

datatype DnsProtocol = PUdp | PTcp | PDot | PDoh | PDoq | PRcode | PFakeIp

datatype RcodeAction = Refused | Success | NxDomain

record DnsServerConfig =
  ds_tag :: string
  ds_address :: string
  ds_detour :: "string option"
  ds_fakeip :: "FakeIpConfig option"
  ds_domain_resolver :: "string option"
  ds_timeout :: nat
  ds_sni :: "string option"
  ds_insecure :: bool

definition protocol :: "DnsServerConfig \<Rightarrow> DnsProtocol" where
  "protocol srv =
     (let addr = ds_address srv
      in if starts_with addr ''https://'' then PDoh
         else if starts_with addr ''tls://'' then PDot
         else if starts_with addr ''quic://'' then PDoq
         else if starts_with addr ''tcp://'' then PTcp
         else if starts_with addr ''udp://'' then PUdp
         else if starts_with addr ''rcode://'' then PRcode
         else if starts_with addr ''fakeip://'' then PFakeIp
         else PUdp)"

definition rcode :: "DnsServerConfig \<Rightarrow> RcodeAction option" where
  "rcode srv =
     Option.bind (strip_prefix ''rcode://'' (ds_address srv)) (\<lambda>code.
       if code = ''refused'' then Some Refused
       else if code = ''success'' then Some Success
       else if code = ''nxdomain'' then Some NxDomain
       else None)"

section \<open>Sorting the servers\<close>

definition quote1 :: "string \<Rightarrow> string" where
  "quote1 s = CHR 0x27 # s @ [CHR 0x27]"

text \<open>The index of the last server with a tag: collecting into a hash map keeps the last of equal keys.\<close>

definition tag_to_idx :: "DnsServerConfig list \<Rightarrow> string \<Rightarrow> nat option" where
  "tag_to_idx servers = map_of (rev (zip (map ds_tag servers) [0..<length servers]))"

text \<open>The first pass: the dependency of every server. \<open>in_degree\<close> is one exactly for the servers
  with a dependency.\<close>

fun deps_loop ::
  "DnsServerConfig list \<Rightarrow> (nat \<times> DnsServerConfig) list \<Rightarrow> nat option list \<times> nat list \<Rightarrow> string + (nat option list \<times> nat list)" where
  "deps_loop servers [] (deps, in_degree) = Inr (deps, in_degree)"
| "deps_loop servers ((i, srv) # rest) (deps, in_degree) =
     (case ds_domain_resolver srv of
        None \<Rightarrow> deps_loop servers rest (deps, in_degree)
      | Some tg \<Rightarrow>
          res_bind (ok_or (''dns server '' @ quote1 (ds_tag srv) @ '' domain_resolver '' @ quote1 tg @ '' not found'')
                     (tag_to_idx servers tg)) (\<lambda>j.
            (let deps = deps[i := Some j]; in_degree = in_degree[i := in_degree ! i + 1]
             in if deps ! j = Some i
                then Inl (''dns server domain_resolver cycle between '' @ quote1 (ds_tag (servers ! i))
                          @ '' and '' @ quote1 (ds_tag (servers ! j)))
                else deps_loop servers rest (deps, in_degree))))"

text \<open>The servers that wait for \<open>node\<close> lose their dependency; subtracting from zero would panic.\<close>

fun relax :: "nat option list \<Rightarrow> nat \<Rightarrow> nat list \<Rightarrow> nat list \<times> nat list \<Rightarrow> (nat list \<times> nat list) option" where
  "relax deps node [] (in_degree, queue) = Some (in_degree, queue)"
| "relax deps node (i # is) (in_degree, queue) =
     (if deps ! i = Some node
      then if in_degree ! i = 0 then None
           else (let d = in_degree ! i - 1
                 in relax deps node is (in_degree[i := d], if d = 0 then queue @ [i] else queue))
      else relax deps node is (in_degree, queue))"

lemma relax_measure:
  assumes "relax deps node is (in_degree, queue) = Some (in_degree', queue')" "\<forall>i \<in> set is. i < length in_degree"
  shows "sum_list in_degree' + length queue' \<le> sum_list in_degree + length queue \<and> length in_degree' = length in_degree"
  using assms
proof (induction "is" arbitrary: in_degree queue)
  case (Cons i "is")
  show ?case
  proof (cases "deps ! i = Some node")
    case True
    with Cons.prems have pos: "in_degree ! i \<noteq> 0" and i: "i < length in_degree" by (auto split: if_splits)
    let ?d = "in_degree ! i - 1"
    have "in_degree ! i \<le> sum_list in_degree" using i by (simp add: elem_le_sum_list)
    then have sum: "sum_list (in_degree[i := ?d]) = sum_list in_degree - 1"
      using i pos by (simp add: sum_list_update)
    have "sum_list in_degree \<noteq> 0" using i pos by (metis le_zero_eq elem_le_sum_list)
    then obtain m where "sum_list in_degree = Suc m" using not0_implies_Suc by blast
    with sum show ?thesis
      using Cons.IH [of "in_degree[i := ?d]" "if ?d = 0 then queue @ [i] else queue"] Cons.prems True pos
      by (auto simp: Let_def split: if_splits)
  next
    case False
    then show ?thesis using Cons by auto
  qed
qed simp

function kahn :: "nat option list \<Rightarrow> nat list \<Rightarrow> nat list \<Rightarrow> nat list \<Rightarrow> nat list option" where
  "kahn deps in_degree [] order = Some order"
| "kahn deps in_degree (node # queue) order =
     (case relax deps node [0..<length in_degree] (in_degree, queue) of
        None \<Rightarrow> None
      | Some (in_degree', queue') \<Rightarrow> kahn deps in_degree' queue' (order @ [node]))"
  by pat_completeness auto
termination
proof (relation "measure (\<lambda>(deps, in_degree, queue, order). sum_list in_degree + length queue)")
  fix deps in_degree node queue order r in_degree' queue'
  assume "relax deps node [0..<length in_degree] (in_degree, queue) = Some r" "(in_degree', queue') = r"
  then show "((deps, in_degree', queue', order @ [node]), deps, in_degree, node # queue, order)
      \<in> measure (\<lambda>(deps, in_degree, queue, order). sum_list in_degree + length queue)"
    using relax_measure [of deps node "[0..<length in_degree]" in_degree queue in_degree' queue'] by auto
qed simp

definition toposort_servers :: "DnsServerConfig list \<Rightarrow> (string + nat list) option" where
  "toposort_servers servers =
     (let n = length servers
      in case deps_loop servers (List.enumerate 0 servers) (replicate n None, replicate n 0) of
           Inl e \<Rightarrow> Some (Inl e)
         | Inr (deps, in_degree) \<Rightarrow>
             map_option (\<lambda>order. if length order \<noteq> n then Inl ''dns server domain_resolver has a cycle'' else Inr order)
               (kahn deps in_degree (filter (\<lambda>i. in_degree ! i = 0) [0..<n]) []))"

section \<open>The first pass\<close>

definition dep :: "DnsServerConfig list \<Rightarrow> nat \<Rightarrow> nat option" where
  "dep servers i = Option.bind (ds_domain_resolver (servers ! i)) (tag_to_idx servers)"

definition known_resolvers :: "DnsServerConfig list \<Rightarrow> bool" where
  "known_resolvers servers \<longleftrightarrow>
     (\<forall>i < length servers. \<forall>tg. ds_domain_resolver (servers ! i) = Some tg \<longrightarrow> tag_to_idx servers tg \<noteq> None)"

lemma tag_to_idx_Some: "tag_to_idx servers tg = Some j \<Longrightarrow> j < length servers \<and> ds_tag (servers ! j) = tg"
  by (auto simp: tag_to_idx_def set_zip dest!: map_of_SomeD)

lemma dep_less: "dep servers i = Some j \<Longrightarrow> j < length servers"
  by (auto simp: dep_def bind_eq_Some_conv dest: tag_to_idx_Some)

text \<open>After \<open>k\<close> servers the tables hold the dependencies of these servers.\<close>

definition filled :: "DnsServerConfig list \<Rightarrow> nat \<Rightarrow> nat option list \<Rightarrow> nat list \<Rightarrow> bool" where
  "filled servers k deps in_degree \<longleftrightarrow> length deps = length servers \<and> length in_degree = length servers
     \<and> (\<forall>i < length servers. deps ! i = (if i < k then dep servers i else None)
          \<and> in_degree ! i = (if i < k \<and> dep servers i \<noteq> None then 1 else 0))"

definition acyclic2 :: "DnsServerConfig list \<Rightarrow> bool" where
  "acyclic2 servers \<longleftrightarrow> (\<forall>i j. i < length servers \<longrightarrow> dep servers i = Some j \<longrightarrow> dep servers j \<noteq> Some i)"

lemma filled_skip: "filled servers k deps in_degree \<Longrightarrow> dep servers k = None \<Longrightarrow> filled servers (Suc k) deps in_degree"
  by (auto simp: filled_def less_Suc_eq)

lemma filled_update:
  assumes "filled servers k deps in_degree" "dep servers k = Some j" "k < length servers"
  shows "filled servers (Suc k) (deps[k := Some j]) (in_degree[k := in_degree ! k + 1])"
  using assms by (auto simp: filled_def nth_list_update less_Suc_eq)

lemma deps_loop_result:
  assumes "filled servers k deps in_degree" "servers = pre @ rest" "k = length pre"
  shows "(\<forall>r. deps_loop servers (List.enumerate k rest) (deps, in_degree) = Inr r \<longrightarrow>
        filled servers (length servers) (fst r) (snd r)
        \<and> (\<forall>srv \<in> set rest. \<forall>tg. ds_domain_resolver srv = Some tg \<longrightarrow> tag_to_idx servers tg \<noteq> None))
    \<and> (known_resolvers servers \<and> acyclic2 servers \<longrightarrow> \<not> isl (deps_loop servers (List.enumerate k rest) (deps, in_degree)))"
  using assms
proof (induction rest arbitrary: pre k deps in_degree)
  case (Cons srv rest)
  have srv: "servers ! k = srv" "k < length servers" using Cons.prems by (simp_all add: nth_append)
  have next_pre: "servers = (pre @ [srv]) @ rest" "Suc k = length (pre @ [srv])" using Cons.prems by simp_all
  show ?case
  proof (cases "ds_domain_resolver srv")
    case None
    then have "dep servers k = None" by (simp add: dep_def srv)
    from Cons.IH [OF filled_skip [OF Cons.prems(1) this] next_pre] show ?thesis using None by auto
  next
    case (Some tg)
    show ?thesis
    proof (cases "tag_to_idx servers tg")
      case None
      then show ?thesis using Some srv by (auto simp: known_resolvers_def ok_or_def)
    next
      case j: (Some j)
      then have dep: "dep servers k = Some j" using Some by (simp add: dep_def srv)
      note fill = filled_update [OF Cons.prems(1) dep srv(2)]
      have "deps[k := Some j] ! j = Some k \<longrightarrow> \<not> acyclic2 servers"
        using fill dep dep_less [OF dep] srv(2) by (auto simp: filled_def acyclic2_def split: if_splits)
      then show ?thesis using Cons.IH [OF fill next_pre] Some j by (simp add: ok_or_def Let_def)
    qed
  qed
qed (simp add: filled_def)

section \<open>The second pass\<close>

lemma relax_result:
  assumes "distinct is" "\<forall>i \<in> set is. i < length in_degree \<and> (deps ! i = Some node \<longrightarrow> in_degree ! i = 1)"
  shows "\<exists>in_degree'. relax deps node is (in_degree, queue) = Some (in_degree', queue @ filter (\<lambda>i. deps ! i = Some node) is)
    \<and> length in_degree' = length in_degree
    \<and> (\<forall>i < length in_degree. in_degree' ! i = (if i \<in> set is \<and> deps ! i = Some node then 0 else in_degree ! i))"
  using assms
proof (induction "is" arbitrary: in_degree queue)
  case (Cons i "is")
  show ?case
  proof (cases "deps ! i = Some node")
    case True
    then show ?thesis using Cons.IH [of "in_degree[i := 0]" "queue @ [i]"] Cons.prems
      by (force simp: nth_list_update)
  next
    case False
    then show ?thesis using Cons.IH [of in_degree queue] Cons.prems by auto
  qed
qed simp

definition in_order :: "(nat \<Rightarrow> nat option) \<Rightarrow> nat list \<Rightarrow> bool" where
  "in_order d order \<longleftrightarrow> (\<forall>xs i ys j. order = xs @ i # ys \<longrightarrow> d i = Some j \<longrightarrow> j \<in> set xs)"

lemma in_order_snoc:
  assumes "in_order d order" "\<And>j. d i = Some j \<Longrightarrow> j \<in> set order"
  shows "in_order d (order @ [i])"
  unfolding in_order_def
proof (intro allI impI)
  fix xs k ys j
  assume eq: "order @ [i] = xs @ k # ys" and "d k = Some j"
  then show "j \<in> set xs"
    using assms by (cases ys rule: rev_cases) (auto simp: in_order_def)
qed

definition kahn_inv :: "DnsServerConfig list \<Rightarrow> nat list \<Rightarrow> nat list \<Rightarrow> nat list \<Rightarrow> bool" where
  "kahn_inv servers in_degree queue order \<longleftrightarrow> length in_degree = length servers
     \<and> distinct (order @ queue) \<and> in_order (dep servers) order
     \<and> (\<forall>i < length servers. in_degree ! i = (if \<exists>j. dep servers i = Some j \<and> j \<notin> set order then 1 else 0))
     \<and> (\<forall>i. i \<in> set (order @ queue) \<longleftrightarrow> i < length servers \<and> in_degree ! i = 0)"

lemma kahn_inv_step:
  assumes inv: "kahn_inv servers in_degree (node # queue) order" and full: "filled servers (length servers) deps ind"
  obtains in_degree' queue' where "relax deps node [0..<length in_degree] (in_degree, queue) = Some (in_degree', queue')"
    "kahn_inv servers in_degree' queue' (order @ [node])"
proof -
  let ?n = "length servers"
  have n: "length in_degree = ?n" and deps: "\<And>i. i < ?n \<Longrightarrow> deps ! i = dep servers i"
    using inv full by (auto simp: kahn_inv_def filled_def)
  have ind: "\<And>i. i < ?n \<Longrightarrow> in_degree ! i = (if \<exists>j. dep servers i = Some j \<and> j \<notin> set order then 1 else 0)"
    and node: "node \<notin> set order" "node \<notin> set queue" "node < ?n" "in_degree ! node = 0"
    using inv by (auto simp: kahn_inv_def)
  have ones: "in_degree ! i = 1" if "i < ?n" "dep servers i = Some node" for i
    using ind [OF that(1)] that(2) node(1) by auto
  obtain in_degree' where r: "relax deps node [0..<length in_degree] (in_degree, queue)
        = Some (in_degree', queue @ filter (\<lambda>i. deps ! i = Some node) [0..<?n])"
      "length in_degree' = ?n"
      "\<And>i. i < ?n \<Longrightarrow> in_degree' ! i = (if dep servers i = Some node then 0 else in_degree ! i)"
    using relax_result [of "[0..<length in_degree]" in_degree deps node queue] n deps ones by auto
  have ready: "j \<in> set order" if "dep servers node = Some j" for j
    using ind [OF node(3)] node(4) that by (auto split: if_splits)
  let ?new = "filter (\<lambda>i. deps ! i = Some node) [0..<?n]"
  have "in_degree' ! i = (if \<exists>j. dep servers i = Some j \<and> j \<notin> set (order @ [node]) then 1 else 0)" if "i < ?n" for i
    using r(3) [OF that] ind [OF that] by auto
  moreover have member: "i \<in> set order \<or> i = node \<or> i \<in> set queue \<longleftrightarrow> i < ?n \<and> in_degree ! i = 0" for i
    using inv by (auto simp: kahn_inv_def)
  have "i \<in> set ((order @ [node]) @ queue @ ?new) \<longleftrightarrow> i < ?n \<and> in_degree' ! i = 0" for i
    using member [of i] r(3) deps by (auto split: if_splits)
  moreover have "distinct ((order @ [node]) @ queue @ ?new)"
  proof -
    have "i \<notin> set ?new" if "i \<in> set order \<or> i = node \<or> i \<in> set queue" for i
      using that member [of i] ones deps by auto
    then show ?thesis using inv by (auto simp: kahn_inv_def)
  qed
  moreover have "in_order (dep servers) (order @ [node])"
    using inv ready by (intro in_order_snoc) (auto simp: kahn_inv_def)
  ultimately have "kahn_inv servers in_degree' (queue @ ?new) (order @ [node])"
    using r(2) by (simp add: kahn_inv_def)
  with r(1) show thesis by (rule that)
qed

lemma kahn_result:
  assumes "kahn_inv servers in_degree queue order" "filled servers (length servers) deps ind"
  shows "\<exists>order' in_degree'. kahn deps in_degree queue order = Some order' \<and> kahn_inv servers in_degree' [] order'"
  using assms
proof (induction deps in_degree queue order rule: kahn.induct)
  case (2 deps in_degree node queue order)
  obtain in_degree' queue' where s: "relax deps node [0..<length in_degree] (in_degree, queue) = Some (in_degree', queue')"
    "kahn_inv servers in_degree' queue' (order @ [node])"
    using kahn_inv_step [OF 2(2,3)] by blast
  show ?case using 2(1) [OF s(1) refl s(2) 2(3)] s(1) by simp
qed auto

text \<open>An order in which every server comes once and after the server that resolves its host name.\<close>

definition builds :: "DnsServerConfig list \<Rightarrow> nat list \<Rightarrow> bool" where
  "builds servers order \<longleftrightarrow> known_resolvers servers \<and> distinct order \<and> set order = {..<length servers}
     \<and> in_order (dep servers) order"

lemma kahn_inv_start:
  "filled servers (length servers) deps in_degree \<Longrightarrow>
   kahn_inv servers in_degree (filter (\<lambda>i. in_degree ! i = 0) [0..<length servers]) []"
  by (auto simp: kahn_inv_def filled_def in_order_def)

lemma in_order_position:
  assumes "builds servers order" "i < length servers" "dep servers i = Some j"
  shows "\<exists>p q. p < q \<and> q < length order \<and> order ! p = j \<and> order ! q = i"
proof -
  have "i \<in> set order" using assms by (auto simp: builds_def)
  then obtain xs ys where o: "order = xs @ i # ys" by (auto simp: in_set_conv_decomp)
  then have "j \<in> set xs" using assms unfolding builds_def in_order_def by blast
  then obtain p where "p < length xs" "xs ! p = j" by (auto simp: in_set_conv_nth)
  then show ?thesis using o by (intro exI [of _ p] exI [of _ "length xs"]) (simp add: nth_append)
qed

lemma builds_acyclic2: "builds servers order \<Longrightarrow> acyclic2 servers"
  unfolding acyclic2_def
proof (intro allI impI notI)
  fix i j
  assume b: "builds servers order" and i: "i < length servers" and ij: "dep servers i = Some j" "dep servers j = Some i"
  obtain p q where pq: "p < q" "q < length order" "order ! p = j" "order ! q = i"
    using in_order_position [OF b i ij(1)] by blast
  obtain p' q' where pq': "p' < q'" "q' < length order" "order ! p' = i" "order ! q' = j"
    using in_order_position [OF b dep_less [OF ij(1)] ij(2)] by blast
  have d: "distinct order" using b by (simp add: builds_def)
  have "order ! q = order ! p'" "order ! p = order ! q'" "p' < length order" "p < length order"
    using pq pq' by simp_all
  then have "q = p'" "p = q'" using pq(2) pq'(2) d by (simp_all only: nth_eq_iff_index_eq)
  then show False using pq(1) pq'(1) by simp
qed

lemma kahn_complete:
  assumes b: "builds servers order" and inv: "kahn_inv servers in_degree [] order'"
  shows "length order' = length servers"
proof -
  have member: "i \<in> set order' \<longleftrightarrow> i < length servers \<and> (\<forall>j. dep servers i = Some j \<longrightarrow> j \<in> set order')" for i
  proof (cases "i < length servers")
    case True
    then have "in_degree ! i = (if \<exists>j. dep servers i = Some j \<and> j \<notin> set order' then 1 else 0)"
      and "i \<in> set order' \<longleftrightarrow> in_degree ! i = 0"
      using inv by (simp_all add: kahn_inv_def)
    then show ?thesis using True by (simp split: if_splits)
  qed (use inv in \<open>simp add: kahn_inv_def\<close>)
  have "order ! q \<in> set order'" if "q < length order" for q
    using that
  proof (induction q rule: less_induct)
    case (less q)
    have lt: "order ! q < length servers" using less.prems b nth_mem [OF less.prems] by (auto simp: builds_def)
    moreover have "j \<in> set order'" if dj: "dep servers (order ! q) = Some j" for j
    proof -
      obtain p q' where "p < q'" "q' < length order" "order ! p = j" "order ! q' = order ! q"
        using in_order_position [OF b lt dj] by blast
      then have "p < q" using b less.prems by (auto simp: builds_def nth_eq_iff_index_eq)
      then show ?thesis using less.IH [of p] less.prems \<open>order ! p = j\<close> by simp
    qed
    ultimately show ?case using member by blast
  qed
  then have "set order \<subseteq> set order'" by (metis in_set_conv_nth subsetI)
  then have "{..<length servers} \<subseteq> set order'" using b by (simp add: builds_def)
  then have "set order' = {..<length servers}" using member by auto
  moreover have "distinct order'" using inv by (simp add: kahn_inv_def)
  ultimately show ?thesis using distinct_card [of order'] by simp
qed

text \<open>
  C15. The order in which the servers are built: the computation ends without a panic; an order it
  gives has every server once, after the server that resolves its host name; and it gives one whenever
  such an order exists, so that an error means an unknown resolver or a cycle.
\<close>

theorem toposort_finds_order:
  "\<exists>r. toposort_servers servers = Some r \<and> (\<forall>order. r = Inr order \<longrightarrow> builds servers order)
     \<and> ((\<exists>order. builds servers order) \<longrightarrow> (\<exists>order. r = Inr order))"
proof -
  let ?n = "length servers"
  have "filled servers 0 (replicate ?n None) (replicate ?n 0)" by (simp add: filled_def)
  note first = deps_loop_result [OF this, of "[]" servers, simplified]
  show ?thesis
  proof (cases "deps_loop servers (List.enumerate 0 servers) (replicate ?n None, replicate ?n 0)")
    case (Inl e)
    then have "\<not> (\<exists>order. builds servers order)" using first builds_acyclic2 by (auto simp: builds_def)
    then show ?thesis using Inl by (simp add: toposort_servers_def)
  next
    case (Inr r)
    obtain deps in_degree where r: "r = (deps, in_degree)" by (cases r)
    have full: "filled servers ?n deps in_degree" using first Inr r by simp
    obtain order in_degree' where k: "kahn deps in_degree (filter (\<lambda>i. in_degree ! i = 0) [0..<?n]) [] = Some order"
        "kahn_inv servers in_degree' [] order"
      using kahn_result [OF kahn_inv_start [OF full] full] by blast
    have res: "toposort_servers servers = Some (if length order \<noteq> ?n then Inl ''dns server domain_resolver has a cycle'' else Inr order)"
      using Inr r k(1) by (simp add: toposort_servers_def)
    have "builds servers order" if "length order = ?n"
    proof -
      have "distinct order" "set order \<subseteq> {..<?n}" "in_order (dep servers) order"
        using k(2) by (auto simp: kahn_inv_def)
      moreover have "set order = {..<?n}"
        using calculation that distinct_card [of order] by (intro card_subset_eq) auto
      moreover have "known_resolvers servers" using first Inr r by (auto simp: known_resolvers_def)
      ultimately show ?thesis by (simp add: builds_def)
    qed
    then show ?thesis using res kahn_complete k(2) by auto
  qed
qed

definition demo_server :: "string \<Rightarrow> string option \<Rightarrow> DnsServerConfig" where
  "demo_server tg resolver = \<lparr>ds_tag = tg, ds_address = ''https://dns.example/dns-query'', ds_detour = None, ds_fakeip = None,
     ds_domain_resolver = resolver, ds_timeout = 5, ds_sni = None, ds_insecure = False\<rparr>"

definition demo_servers :: "DnsServerConfig list" where
  "demo_servers = [demo_server ''doh'' (Some ''boot''), demo_server ''boot'' None]"

theorem toposort_finds_order_witness:
  "\<exists>order. toposort_servers demo_servers = Some (Inr order) \<and> builds demo_servers order"
proof -
  have idx: "tag_to_idx demo_servers ''boot'' = Some 1" by code_simp
  have "dep demo_servers 0 = Some 1" "dep demo_servers 1 = None" "length demo_servers = 2"
    using idx by (simp_all add: dep_def demo_servers_def demo_server_def)
  moreover have "known_resolvers demo_servers"
    using idx by (auto simp: known_resolvers_def demo_servers_def demo_server_def less_Suc_eq)
  ultimately have "builds demo_servers [1, 0]"
    by (auto simp: builds_def in_order_def Cons_eq_append_conv)
  then show ?thesis using toposort_finds_order [of demo_servers] by auto
qed

end
