(* ===== verification/Dns_Upstream.thy ===== *)
theory Dns_Upstream
  imports Dns_Servers Addr_Text
begin

text \<open>
  DNS upstreams (\<open>src/dns/upstream.rs\<close>): their construction from the configuration, the framing and the
  HTTP response they read, and the answer to a query. What the network does is a parameter: the outcome of
  an exchange over a datagram socket, a stream or HTTPS.
\<close>

section \<open>Addresses and URLs\<close>

definition parse_addr :: "string \<Rightarrow> u16 \<Rightarrow> string + SocketAddr" where
  "parse_addr s default_port =
     (if starts_with s ''['' then ok_or ''invalid socket address syntax'' (parse_socket_addr s)
      else if CHR '':'' \<in> set s then ok_or ''invalid socket address syntax'' (parse_socket_addr s)
      else ok_or ''invalid socket address syntax'' (parse_socket_addr (s @ '':'' @ show_nat (unat default_port))))"

definition parse_doh_url :: "string \<Rightarrow> string + (string \<times> u16 \<times> string)" where
  "parse_doh_url url =
     res_bind (ok_or (''DoH URL must start with https://: '' @ url) (strip_prefix ''https://'' url)) (\<lambda>rest.
       (let (host_port, path) = (case split_once CHR ''/'' rest of Some (h, p) \<Rightarrow> (h, CHR ''/'' # p) | None \<Rightarrow> (rest, ''/''))
        in case rsplit_once CHR '':'' host_port of
             Some (host, port_str) \<Rightarrow>
               res_bind (ok_or (''invalid DoH port in: '' @ url) (parse_uint 65535 port_str)) (\<lambda>port.
                 Inr (host, word_of_nat port, path))
           | None \<Rightarrow> Inr (host_port, 443, path)))"

section \<open>Upstreams\<close>

text \<open>A fake-IP upstream refers to its store by number, since the store is shared and changes.\<close>

datatype UpstreamKind =
    UpUdp SocketAddr
  | UpTcp SocketAddr
  | UpDoh string u16 string "IpAddr option"
  | UpDot SocketAddr string
  | UpDoq SocketAddr string
  | UpRcode RcodeAction
  | UpFakeIp nat

datatype DnsUpstream =
  DnsUpstream (up_tag: string) (up_kind: UpstreamKind) (up_timeout: nat) (up_detour: "string option")
    (up_resolver: "DnsUpstream option") (up_mark: nat)

fun is_fakeip :: "UpstreamKind \<Rightarrow> bool" where
  "is_fakeip (UpFakeIp _) = True"
| "is_fakeip _ = False"

text \<open>
  \<open>cf\<close> and \<open>records\<close> are the persistent cache of the fake-IP store, \<open>next\<close> the number of a new store;
  the store comes back beside the kind. The TLS and QUIC configurations are not modelled.
\<close>

definition upstream_kind ::
  "DnsServerConfig \<Rightarrow> bool \<Rightarrow> (IpAddr \<times> string) list option \<Rightarrow> nat \<Rightarrow> string + (UpstreamKind \<times> FakeIpStore option)" where
  "upstream_kind cfg cf records n =
     (case protocol cfg of
        PRcode \<Rightarrow> res_bind (ok_or (''invalid rcode in '' @ quote1 (ds_tag cfg)) (rcode cfg)) (\<lambda>a. Inr (UpRcode a, None))
      | PDoh \<Rightarrow> res_bind (parse_doh_url (ds_address cfg)) (\<lambda>(host, port, path). Inr (UpDoh host port path (parse_ip host), None))
      | PTcp \<Rightarrow> res_bind (parse_addr (case strip_prefix ''tcp://'' (ds_address cfg) of Some a \<Rightarrow> a | None \<Rightarrow> ds_address cfg) 53)
                  (\<lambda>a. Inr (UpTcp a, None))
      | PUdp \<Rightarrow> res_bind (parse_addr (case strip_prefix ''udp://'' (ds_address cfg) of Some a \<Rightarrow> a | None \<Rightarrow> ds_address cfg) 53)
                  (\<lambda>a. Inr (UpUdp a, None))
      | PDot \<Rightarrow> res_bind (parse_addr (case strip_prefix ''tls://'' (ds_address cfg) of Some a \<Rightarrow> a | None \<Rightarrow> ds_address cfg) 853)
                  (\<lambda>a. Inr (UpDot a (case ds_sni cfg of Some s \<Rightarrow> s | None \<Rightarrow> show_ip (sa_ip a)), None))
      | PDoq \<Rightarrow> res_bind (parse_addr (case strip_prefix ''quic://'' (ds_address cfg) of Some a \<Rightarrow> a | None \<Rightarrow> ds_address cfg) 853)
                  (\<lambda>a. Inr (UpDoq a (case ds_sni cfg of Some s \<Rightarrow> s | None \<Rightarrow> show_ip (sa_ip a)), None))
      | PFakeIp \<Rightarrow>
          res_bind (ok_or (''dns server '' @ quote1 (ds_tag cfg) @ '': address is 'fakeip://' but 'fakeip' config is missing'')
                     (ds_fakeip cfg)) (\<lambda>fi.
          res_bind (map_err (\<lambda>e. ''dns server '' @ quote1 (ds_tag cfg) @ '' fakeip store: '' @ e) (new_with_cache fi cf records)) (\<lambda>store.
            Inr (UpFakeIp n, Some store))))"

definition from_config_full_with_reader ::
  "DnsServerConfig \<Rightarrow> string option \<Rightarrow> bool \<Rightarrow> (IpAddr \<times> string) list option \<Rightarrow> DnsUpstream option \<Rightarrow> nat \<Rightarrow>
   string + (DnsUpstream \<times> FakeIpStore option)" where
  "from_config_full_with_reader cfg detour cf records resolver n =
     res_bind (upstream_kind cfg cf records n) (\<lambda>(k, store).
       Inr (DnsUpstream (ds_tag cfg) k (ds_timeout cfg) detour resolver 0, store))"

definition with_mark :: "nat \<Rightarrow> DnsUpstream \<Rightarrow> DnsUpstream" where
  "with_mark m u = DnsUpstream (up_tag u) (up_kind u) (up_timeout u) (up_detour u) (up_resolver u) m"

section \<open>Exchanges\<close>

text \<open>A stream: what is written to it, and what the peer will send before it closes.\<close>

definition tcp_framed_exchange :: "bytes \<Rightarrow> bytes \<Rightarrow> bytes \<times> (string + bytes)" where
  "tcp_framed_exchange msg incoming =
     (u16_be (word_of_nat (length msg)) @ msg,
      if length incoming < 2 then Inl ''early eof''
      else (let len = be_value (take 2 incoming); rest = drop 2 incoming
            in if len < 12 then Inl (''dns tcp response too short: '' @ show_nat len)
               else if length rest < len then Inl ''early eof''
               else Inr (take len rest)))"

fun rcode_reply :: "bytes \<Rightarrow> RcodeAction \<Rightarrow> bytes" where
  "rcode_reply query Refused = make_refused query"
| "rcode_reply query Success = make_noerror_empty query"
| "rcode_reply query NxDomain = make_nxdomain query"

definition tc_bit :: "bytes \<Rightarrow> bool" where
  "tc_bit resp \<longleftrightarrow> 3 \<le> length resp \<and> resp ! 2 AND 0x02 \<noteq> 0"

text \<open>The network: a datagram exchange on the shared socket (with the sender of the datagram that was
  read) and on a new one, and exchanges over the other transports. \<open>secure\<close> is a whole exchange with a DoT,
  DoH, DoQ or DoH3 server; its outer option is a panic, which \<open>parse_doh_http_response\<close> below can end in.\<close>

record dns_net =
  shared_udp :: "SocketAddr \<Rightarrow> bytes \<Rightarrow> string + (bytes \<times> SocketAddr)"
  fresh_udp :: "SocketAddr \<Rightarrow> bytes \<Rightarrow> string + bytes"
  tcp_peer :: "SocketAddr \<Rightarrow> bytes \<Rightarrow> string + bytes"
  detour_peer :: "string \<Rightarrow> SocketAddr \<Rightarrow> bytes \<Rightarrow> string + bytes"
  secure :: "DnsUpstream \<Rightarrow> bytes \<Rightarrow> (string + bytes) option"

definition tcp_query :: "dns_net \<Rightarrow> SocketAddr \<Rightarrow> bytes \<Rightarrow> string + bytes" where
  "tcp_query net addr msg = res_bind (tcp_peer net addr msg) (\<lambda>incoming. snd (tcp_framed_exchange msg incoming))"

definition tcp_query_via_detour :: "dns_net \<Rightarrow> string \<Rightarrow> SocketAddr \<Rightarrow> bytes \<Rightarrow> string + bytes" where
  "tcp_query_via_detour net outbound addr msg =
     res_bind (detour_peer net outbound addr msg) (\<lambda>incoming. snd (tcp_framed_exchange msg incoming))"

definition udp_query :: "dns_net \<Rightarrow> SocketAddr \<Rightarrow> bytes \<Rightarrow> string + bytes" where
  "udp_query net addr msg =
     res_bind (fresh_udp net addr msg) (\<lambda>dgram.
       (let buf = take 4096 dgram in if tc_bit buf then tcp_query net addr msg else Inr buf))"

definition udp_query_with_socket :: "dns_net \<Rightarrow> SocketAddr \<Rightarrow> bytes \<Rightarrow> string + bytes" where
  "udp_query_with_socket net addr msg =
     res_bind (shared_udp net addr msg) (\<lambda>(dgram, from_addr).
       (let buf = take 4096 dgram
        in if from_addr \<noteq> addr then udp_query net addr msg
           else if tc_bit buf then tcp_query net addr msg
           else Inr buf))"

text \<open>\<open>DnsUpstream::query\<close>; the outer option is a panic, and the stores change when a fake address is
  given out. A timeout is an error of the network.\<close>

definition query ::
  "dns_net \<Rightarrow> DnsUpstream \<Rightarrow> bytes \<Rightarrow> (nat \<Rightarrow> FakeIpStore option) \<Rightarrow> ((string + bytes) \<times> (nat \<Rightarrow> FakeIpStore option)) option" where
  "query net u msg stores =
     (case up_kind u of
        UpRcode a \<Rightarrow> Some (Inr (rcode_reply msg a), stores)
      | UpFakeIp n \<Rightarrow>
          (case stores n of
             Some st \<Rightarrow> map_option (\<lambda>(r, st'). (Inr r, stores(n \<mapsto> st'))) (reply msg st)
           | None \<Rightarrow> None)
      | UpUdp addr \<Rightarrow>
          Some (case up_detour u of Some ob \<Rightarrow> tcp_query_via_detour net ob addr msg | None \<Rightarrow> udp_query_with_socket net addr msg, stores)
      | UpTcp addr \<Rightarrow>
          Some (case up_detour u of Some ob \<Rightarrow> tcp_query_via_detour net ob addr msg | None \<Rightarrow> tcp_query net addr msg, stores)
      | _ \<Rightarrow> map_option (\<lambda>resp. (resp, stores)) (secure net u msg))"

definition first_answer :: "string + bytes \<Rightarrow> nat \<Rightarrow> IpAddr option option" where
  "first_answer resp t = (case resp of Inr r \<Rightarrow> extract_first_ip r t | Inl _ \<Rightarrow> Some None)"

text \<open>The resolution of the host name of another upstream.\<close>

definition resolve_host ::
  "dns_net \<Rightarrow> DnsUpstream \<Rightarrow> string \<Rightarrow> (nat \<Rightarrow> FakeIpStore option) \<Rightarrow> ((string + IpAddr) \<times> (nat \<Rightarrow> FakeIpStore option)) option" where
  "resolve_host net u host stores =
     do {
       (resp, stores) \<leftarrow> query net u (build_query host 1) stores;
       v4 \<leftarrow> first_answer resp 1;
       case v4 of
         Some ip \<Rightarrow> Some (Inr ip, stores)
       | None \<Rightarrow> do {
           (resp, stores) \<leftarrow> query net u (build_query host 28) stores;
           v6 \<leftarrow> first_answer resp 28;
           Some (ok_or (''domain_resolver failed to resolve host '' @ quote1 host) v6, stores)
         }
     }"

section \<open>HTTP exchanges with a DoH server\<close>

definition crlf :: string where
  "crlf = [CHR 0x0D, CHR 0x0A]"

definition doh_h1_request :: "string \<Rightarrow> u16 \<Rightarrow> string \<Rightarrow> bytes \<Rightarrow> bytes" where
  "doh_h1_request host port path msg =
     as_bytes (''POST '' @ path @ '' HTTP/1.1'' @ crlf
       @ ''Host: '' @ host @ '':'' @ show_nat (unat port) @ crlf
       @ ''Content-Type: application/dns-message'' @ crlf
       @ ''Accept: application/dns-message'' @ crlf
       @ ''Content-Length: '' @ show_nat (length msg) @ crlf
       @ ''Connection: close'' @ crlf @ crlf) @ msg"

fun find4 :: "bytes \<Rightarrow> bytes \<Rightarrow> nat \<Rightarrow> nat option" where
  "find4 pat [] i = None"
| "find4 pat (b # bs) i =
     (if length (b # bs) < length pat then None
      else if take (length pat) (b # bs) = pat then Some i
      else find4 pat bs (Suc i))"

text \<open>The outer option is a panic: \<open>body_start + len\<close> is computed in 64 bits, and when it overflows the
  sum panics, or wraps and the slice of the body panics.\<close>

definition parse_doh_http_response :: "bytes \<Rightarrow> (string + bytes) option" where
  "parse_doh_http_response resp =
     (case find4 [13, 10, 13, 10] resp 0 of
        None \<Rightarrow> Some (Inl ''malformed DoH HTTP response: no header boundary'')
      | Some header_end \<Rightarrow>
          (let status_line_end = length (takeWhile (\<lambda>b. b \<noteq> 13) resp);
               status_line = (case from_utf8 (take status_line_end resp) of Some s \<Rightarrow> s | None \<Rightarrow> []);
               body_start = header_end + 4;
               headers_str = (case from_utf8 (take header_end resp) of Some s \<Rightarrow> s | None \<Rightarrow> []);
               content_length =
                 Option.bind (List.find (\<lambda>l. starts_with (to_ascii_lowercase l) ''content-length:'') (lines headers_str)) (\<lambda>l.
                 Option.bind (split_once CHR '':'' l) (\<lambda>(_, v). parse_uint (2 ^ 64 - 1) (trim v)));
               nonempty = (\<lambda>body. if body = [] then Inl ''DoH response body is empty'' else Inr body)
           in if \<not> contains_str status_line ''200'' then Some (Inl (''DoH server returned non-200: '' @ status_line))
              else (case content_length of
                      Some len \<Rightarrow>
                        if 2 ^ 64 \<le> body_start + len then None
                        else if length resp < body_start + len
                        then Some (Inl (''DoH response body truncated (expected '' @ show_nat len @ '' bytes)''))
                        else Some (nonempty (take len (drop body_start resp)))
                    | None \<Rightarrow> Some (nonempty (drop body_start resp)))))"

section \<open>Two observations\<close>

text \<open>The datagram read on the shared socket is taken as the answer whatever its identifier is: the
  answers to two queries in flight on one socket can be exchanged.\<close>

lemma udp_answer_not_matched:
  assumes "shared_udp net addr msg = Inr (resp, addr)" "length resp \<le> 4096" "\<not> tc_bit resp"
  shows "udp_query_with_socket net addr msg = Inr resp"
  using assms by (simp add: udp_query_with_socket_def)

text \<open>A response that announces a length near the end of the 64-bit range panics.\<close>

lemma doh_content_length_panics:
  "parse_doh_http_response (as_bytes (''HTTP/1.1 200 OK'' @ [CHR 0x0D, CHR 0x0A] @ ''Content-Length: 18446744073709551615''
     @ [CHR 0x0D, CHR 0x0A, CHR 0x0D, CHR 0x0A])) = None"
  by code_simp

text \<open>A framed answer is read back whole, whatever follows it on the stream.\<close>

lemma tcp_framed_exchange_reads:
  assumes "12 \<le> length resp" "length resp < 65536"
  shows "snd (tcp_framed_exchange msg (u16_be (word_of_nat (length resp)) @ resp @ rest)) = Inr resp"
proof -
  have "be_value (u16_be (word_of_nat (length resp))) = length resp"
    using assms(2) by (simp add: u16_be_def be_value_be_bytes unat_of_nat)
  then show ?thesis using assms by (simp add: tcp_framed_exchange_def Let_def)
qed

end
