(* ===== verification/Dns_Cache.thy ===== *)
theory Dns_Cache
  imports Cache_File Byte_Access
begin

text \<open>
  The cache of DNS answers (\<open>src/dns/cache.rs\<close>): an LRU table in memory in front of the persistent
  cache, and the table of queries in flight that lets concurrent queries share one answer. The LRU table
  (the \<open>lru\<close> crate) is a parameter with the laws its documentation states. Instants and durations are
  in nanoseconds, wall-clock times and TTLs in seconds.
\<close>

section \<open>The LRU table\<close>

record ('l, 'k, 'v) lru_ops =
  lru_new :: "nat \<Rightarrow> 'l"
  lru_peek :: "'k \<Rightarrow> 'l \<Rightarrow> 'v option"
  lru_get :: "'k \<Rightarrow> 'l \<Rightarrow> 'v option \<times> 'l"
  lru_put :: "'k \<Rightarrow> 'v \<Rightarrow> 'l \<Rightarrow> 'l"
  lru_pop :: "'k \<Rightarrow> 'l \<Rightarrow> 'l"

text \<open>\<open>get\<close> finds what \<open>peek\<close> shows and changes only the order; \<open>put\<close> stores the entry and may drop
  others; \<open>pop\<close> removes the entry.\<close>

definition lru_laws :: "('l, 'k, 'v) lru_ops \<Rightarrow> bool" where
  "lru_laws lo \<longleftrightarrow>
     (\<forall>n k. 0 < n \<longrightarrow> lru_peek lo k (lru_new lo n) = None)
     \<and> (\<forall>k l. fst (lru_get lo k l) = lru_peek lo k l)
     \<and> (\<forall>k k' l. lru_peek lo k' (snd (lru_get lo k l)) = lru_peek lo k' l)
     \<and> (\<forall>k v l. lru_peek lo k (lru_put lo k v l) = Some v)
     \<and> (\<forall>k k' v l. k' \<noteq> k \<longrightarrow> lru_peek lo k' (lru_put lo k v l) \<in> {None, lru_peek lo k' l})
     \<and> (\<forall>k k' l. lru_peek lo k' (lru_pop lo k l) = (if k' = k then None else lru_peek lo k' l))"

section \<open>Keys and entries\<close>

record CacheKey =
  ck_transport :: string
  ck_qname :: string
  ck_qtype :: u16

definition CacheKey_new :: "string \<Rightarrow> string \<Rightarrow> u16 \<Rightarrow> CacheKey" where
  "CacheKey_new transport qname qtype =
     \<lparr>ck_transport = transport, ck_qname = to_ascii_lowercase qname, ck_qtype = qtype\<rparr>"

record CacheEntry =
  ce_resp :: bytes
  ce_expires :: nat

datatype CacheResult = Hit bytes | Stale bytes | Miss

record 'l DnsCache =
  inner :: 'l
  ttl_cap :: nat
  optimistic_ttl :: "nat option"
  persist_reader :: "bool option"
  persist_writer :: "CacheFile option"
  inflight :: "CacheKey \<Rightarrow> nat option"

definition secs :: "nat \<Rightarrow> nat" where
  "secs n = n * 1000000000"

section \<open>Operations\<close>

definition with_options ::
  "('l, CacheKey, CacheEntry) lru_ops \<Rightarrow> nat \<Rightarrow> nat \<Rightarrow> nat option \<Rightarrow> bool option \<Rightarrow> CacheFile option \<Rightarrow> 'l DnsCache" where
  "with_options lo capacity cap optimistic reader writer =
     \<lparr>inner = lru_new lo (max capacity 1), ttl_cap = cap, optimistic_ttl = optimistic,
      persist_reader = reader, persist_writer = writer, inflight = Map.empty\<rparr>"

definition insert_memory ::
  "('l, CacheKey, CacheEntry) lru_ops \<Rightarrow> nat \<Rightarrow> CacheKey \<Rightarrow> bytes \<Rightarrow> nat \<Rightarrow> 'l DnsCache \<Rightarrow> 'l DnsCache" where
  "insert_memory lo now key resp ttl_secs c =
     c\<lparr>inner := lru_put lo key \<lparr>ce_resp = resp, ce_expires = now + secs ttl_secs\<rparr> (inner c)\<rparr>"

text \<open>The second half of \<open>get\<close>: the persistent layer, read through the transaction \<open>rtx\<close>.\<close>

definition get_persistent ::
  "('l, CacheKey, CacheEntry) lru_ops \<Rightarrow> ('f, 'd, 's, 'r) redb \<Rightarrow> ('f, 'd, 's, 'r) Database option \<Rightarrow> nat \<Rightarrow> nat \<Rightarrow>
   string \<Rightarrow> string \<Rightarrow> u16 \<Rightarrow> 'l DnsCache \<Rightarrow> CacheResult \<times> 'l DnsCache" where
  "get_persistent lo rd rtx now unix_now transport qname qtype c =
     (case persist_reader c of
        None \<Rightarrow> (Miss, c)
      | Some store_dns \<Rightarrow>
          (case load_dns_cache rd store_dns rtx transport (to_ascii_lowercase qname) qtype of
             None \<Rightarrow> (Miss, c)
           | Some (raw, expire_at) \<Rightarrow>
               if unix_now < expire_at
               then (Hit raw, insert_memory lo now (CacheKey_new transport qname qtype) raw
                                (min (expire_at - unix_now) (ttl_cap c)) c)
               else (case optimistic_ttl c of
                       Some opt_dur \<Rightarrow> if secs (unix_now - expire_at) < opt_dur then (Stale raw, c) else (Miss, c)
                     | None \<Rightarrow> (Miss, c))))"

definition cache_get ::
  "('l, CacheKey, CacheEntry) lru_ops \<Rightarrow> ('f, 'd, 's, 'r) redb \<Rightarrow> ('f, 'd, 's, 'r) Database option \<Rightarrow> nat \<Rightarrow> nat \<Rightarrow>
   string \<Rightarrow> string \<Rightarrow> u16 \<Rightarrow> 'l DnsCache \<Rightarrow> CacheResult \<times> 'l DnsCache" where
  "cache_get lo rd rtx now unix_now transport qname qtype c =
     (let key = CacheKey_new transport qname qtype;
          (found, l) = lru_get lo key (inner c);
          c = c\<lparr>inner := l\<rparr>;
          gone = c\<lparr>inner := lru_pop lo key (inner c)\<rparr>
      in case found of
           Some entry \<Rightarrow>
             if now < ce_expires entry then (Hit (ce_resp entry), c)
             else (case optimistic_ttl c of
                     Some opt_dur \<Rightarrow>
                       if now < ce_expires entry + opt_dur then (Stale (ce_resp entry), c)
                       else get_persistent lo rd rtx now unix_now transport qname qtype gone
                   | None \<Rightarrow> get_persistent lo rd rtx now unix_now transport qname qtype gone)
         | None \<Rightarrow> get_persistent lo rd rtx now unix_now transport qname qtype c)"

definition clamp_ttl :: "nat \<Rightarrow> nat \<Rightarrow> nat" where
  "clamp_ttl cap ttl = max (min ttl cap) 1"

definition cache_set ::
  "('l, CacheKey, CacheEntry) lru_ops \<Rightarrow> nat \<Rightarrow> nat \<Rightarrow> string \<Rightarrow> string \<Rightarrow> u16 \<Rightarrow> bytes \<Rightarrow> nat \<Rightarrow> 'l DnsCache \<Rightarrow> 'l DnsCache" where
  "cache_set lo now unix_now transport qname qtype resp ttl0 c =
     (let ttl = clamp_ttl (ttl_cap c) ttl0;
          c = insert_memory lo now (CacheKey_new transport qname qtype) resp ttl c
      in c\<lparr>persist_writer :=
             map_option (save_dns_cache_async transport qname qtype resp (unix_now + ttl)) (persist_writer c)\<rparr>)"

section \<open>Queries in flight\<close>

text \<open>
  A broadcast channel is named by a number that is new when the channel is made; what the cache does
  with its sender is recorded: a subscription, a value sent, the sender dropped.
\<close>

datatype channel_event = Subscribed nat | Sent nat bytes | Dropped nat

datatype InflightResult = Leader | Waiter nat

definition try_lead_inflight ::
  "nat \<Rightarrow> string \<Rightarrow> string \<Rightarrow> u16 \<Rightarrow> 'l DnsCache \<Rightarrow> InflightResult \<times> channel_event list \<times> 'l DnsCache" where
  "try_lead_inflight new transport qname qtype c =
     (let key = CacheKey_new transport qname qtype
      in case inflight c key of
           Some sender \<Rightarrow> (Waiter sender, [Subscribed sender], c)
         | None \<Rightarrow> (Leader, [], c\<lparr>inflight := (inflight c)(key \<mapsto> new)\<rparr>))"

definition complete_inflight ::
  "string \<Rightarrow> string \<Rightarrow> u16 \<Rightarrow> bytes option \<Rightarrow> 'l DnsCache \<Rightarrow> channel_event list \<times> 'l DnsCache" where
  "complete_inflight transport qname qtype resp c =
     (let key = CacheKey_new transport qname qtype
      in case inflight c key of
           Some sender \<Rightarrow>
             ((case resp of Some r \<Rightarrow> [Sent sender r] | None \<Rightarrow> []) @ [Dropped sender],
              c\<lparr>inflight := (inflight c)(key := None)\<rparr>)
         | None \<Rightarrow> ([], c))"

section \<open>Answers from memory\<close>

lemma lru_simps:
  assumes "lru_laws lo"
  shows "lru_peek lo k (lru_new lo (max n (Suc 0))) = None"
    "fst (lru_get lo k l) = lru_peek lo k l" "lru_peek lo k' (snd (lru_get lo k l)) = lru_peek lo k' l"
    "lru_peek lo k (lru_put lo k v l) = Some v"
    "lru_peek lo k' (lru_pop lo k l) = (if k' = k then None else lru_peek lo k' l)"
  using assms unfolding lru_laws_def by (simp_all add: max_def)


text \<open>What a cache of unbounded size would hold: the last answer stored under each key.\<close>

datatype dns_cache_op =
    SetOp nat nat string string u16 bytes nat
  | GetOp nat nat string string u16


fun cache_step ::
  "('l, CacheKey, CacheEntry) lru_ops \<Rightarrow> ('f, 'd, 's, 'r) redb \<Rightarrow> ('f, 'd, 's, 'r) Database option \<Rightarrow> dns_cache_op \<Rightarrow> 'l DnsCache \<Rightarrow> 'l DnsCache" where
  "cache_step lo rd rtx (SetOp now u t q y resp ttl) c = cache_set lo now u t q y resp ttl c"
| "cache_step lo rd rtx (GetOp now u t q y) c = snd (cache_get lo rd rtx now u t q y c)"









text \<open>An LRU table as a list, most recent entry first, cut at its capacity.\<close>

definition list_lru :: "(nat \<times> ('k \<times> 'v) list, 'k, 'v) lru_ops" where
  "list_lru = \<lparr>lru_new = (\<lambda>n. (n, [])), lru_peek = (\<lambda>k (n, xs). map_of xs k),
     lru_get = (\<lambda>k (n, xs). (map_of xs k,
        (n, case map_of xs k of Some v \<Rightarrow> (k, v) # filter (\<lambda>x. fst x \<noteq> k) xs | None \<Rightarrow> xs))),
     lru_put = (\<lambda>k v (n, xs). (n, (k, v) # take (n - 1) (filter (\<lambda>x. fst x \<noteq> k) xs))),
     lru_pop = (\<lambda>k (n, xs). (n, filter (\<lambda>x. fst x \<noteq> k) xs))\<rparr>"

lemma map_of_filter_key: "map_of (filter (\<lambda>x. fst x \<noteq> k) xs) k' = (if k' = k then None else map_of xs k')"
  by (induction xs) auto

lemma map_of_take: "map_of (take n xs) k = None \<or> map_of (take n xs) k = map_of xs k"
  by (induction xs arbitrary: n) (auto simp: take_Cons split: nat.splits)

lemma list_lru_laws: "lru_laws (list_lru :: (nat \<times> ('k \<times> 'v) list, 'k, 'v) lru_ops)"
proof -
  have "map_of (take n (filter (\<lambda>x. fst x \<noteq> k) xs)) k' = None
      \<or> map_of (take n (filter (\<lambda>x. fst x \<noteq> k) xs)) k' = map_of xs k'" if "k' \<noteq> k" for n k k' and xs :: "('k \<times> 'v) list"
    using map_of_take [of n "filter (\<lambda>x. fst x \<noteq> k) xs" k'] that by (simp add: map_of_filter_key)
  then show ?thesis
    by (auto simp: lru_laws_def list_lru_def map_of_filter_key split: option.splits)
qed




section \<open>Answers across a restart\<close>

text \<open>The answer last stored under each key and the wall-clock time at which it expires.\<close>

fun saved_step :: "nat \<Rightarrow> dns_cache_op \<Rightarrow> (CacheKey \<Rightarrow> (bytes \<times> nat) option) \<Rightarrow> CacheKey \<Rightarrow> (bytes \<times> nat) option" where
  "saved_step cap (SetOp now u t q y resp ttl) m = m(CacheKey_new t q y \<mapsto> (resp, u + clamp_ttl cap ttl))"
| "saved_step cap (GetOp now u t q y) m = m"

fun saves :: "nat \<Rightarrow> dns_cache_op \<Rightarrow> WriteOp list" where
  "saves cap (SetOp now u t q y resp ttl) = [SaveDns (encode_dns_key t q y) (u + clamp_ttl cap ttl) resp]"
| "saves cap (GetOp now u t q y) = []"

fun short_transport :: "dns_cache_op \<Rightarrow> bool" where
  "short_transport (SetOp now u t q y resp ttl) \<longleftrightarrow> length t < 65536"
| "short_transport (GetOp now u t q y) = True"

lemma cache_get_writer:
  "persist_writer (snd (cache_get lo rd rtx now u t q y c)) = persist_writer c
   \<and> ttl_cap (snd (cache_get lo rd rtx now u t q y c)) = ttl_cap c"
  by (auto simp: cache_get_def get_persistent_def insert_memory_def Let_def split: prod.splits option.splits)

lemma cache_run_writes:
  assumes "persist_writer c = Some w" "cf_store_dns w" "ttl_cap c = cap"
  shows "\<exists>w'. persist_writer (fold (cache_step lo rd rtx) ops c) = Some w' \<and> cf_store_dns w'
    \<and> write_tx w' = write_tx w @ concat (map (saves cap) ops)"
  using assms
proof (induction ops arbitrary: c w)
  case (Cons op ops)
  show ?case
  proof (cases op)
    case (SetOp now u t q y resp ttl)
    let ?c = "cache_set lo now u t q y resp ttl c"
    have "persist_writer ?c = Some (send_op (SaveDns (encode_dns_key t q y) (u + clamp_ttl cap ttl) resp) w)" "ttl_cap ?c = cap"
      using Cons.prems by (simp_all add: cache_set_def insert_memory_def Let_def save_dns_cache_async_def)
    from Cons.IH [OF this(1) _ this(2)] show ?thesis
      using SetOp Cons.prems(2) by (auto simp: send_op_def)
  next
    case (GetOp now u t q y)
    then show ?thesis using Cons.IH [of "snd (cache_get lo rd rtx now u t q y c)" w] Cons.prems
      by (simp add: cache_get_writer)
  qed
qed simp

lemma encode_dns_key_lower [simp]: "encode_dns_key t (to_ascii_lowercase q) y = encode_dns_key t q y"
  by (simp add: encode_dns_key_def)

lemma encode_key_eq:
  assumes "length t < 65536" "length t' < 65536"
  shows "encode_dns_key t q y = encode_dns_key t' q' y' \<longleftrightarrow> CacheKey_new t q y = CacheKey_new t' q' y'"
proof
  assume "encode_dns_key t q y = encode_dns_key t' q' y'"
  from encode_dns_key_inject [OF assms this] show "CacheKey_new t q y = CacheKey_new t' q' y'"
    by (simp add: CacheKey_new_def)
next
  assume "CacheKey_new t q y = CacheKey_new t' q' y'"
  then show "encode_dns_key t q y = encode_dns_key t' q' y'" by (simp add: CacheKey_new_def encode_dns_key_def)
qed

lemma saves_commit:
  assumes laws: "table_laws (d_ops rd)" and "list_all short_transport ops"
    and "\<And>t q y. length t < 65536 \<Longrightarrow> t_get (d_ops rd) (encode_dns_key t q y) (dns_table db) = map_option prod.swap (m (CacheKey_new t q y))"
    and "length t < 65536"
  shows "t_get (d_ops rd) (encode_dns_key t q y) (dns_table (write_loop rd days (commits (concat (map (saves cap) ops))) db))
    = map_option prod.swap (fold (saved_step cap) ops m (CacheKey_new t q y))"
  using assms(2-)
proof (induction ops arbitrary: db m)
  case (Cons op ops)
  show ?case
  proof (cases op)
    case (SetOp now u t' q' y' resp ttl)
    have "t_get (d_ops rd) (encode_dns_key s n z) (dns_table (apply_op rd (SaveDns (encode_dns_key t' q' y') (u + clamp_ttl cap ttl) resp) db))
        = map_option prod.swap ((saved_step cap op m) (CacheKey_new s n z))" if "length s < 65536" for s n z
      using that Cons.prems(1,2) SetOp encode_key_eq [of s t' n z q' y'] by (simp add: table_laws_simps [OF laws])
    from Cons.IH [of _ "saved_step cap op m", OF _ this assms(4)] show ?thesis using Cons.prems(1) SetOp by (simp add: commits_def del: fun_upd_apply)
  next
    case (GetOp now u t' q' y')
    then show ?thesis using Cons by simp
  qed
qed (simp add: commits_def)

text \<open>
  Stored answers survive a restart: after any sequence of lookups and stores whose writes were
  committed, a new process that opens the database finds for a question, in its first lookup, exactly
  the answer last stored under it, if that has not expired, and nothing otherwise. Upstream tags are
  shorter than 65536 bytes.
\<close>

theorem stored_answers_survive_restart:
  assumes laws: "table_laws (d_ops rd)" "lru_laws lo"
    and old: "persist_writer c0 = Some w" "cf_store_dns w" "write_tx w = []" "ttl_cap c0 = cap"
      "persist_writer (fold (cache_step lo rd rtx) ops c0) = Some w'" "list_all short_transport ops"
    and db: "\<forall>k. t_get (d_ops rd) k (dns_table db0) = None" "db = write_loop rd days (commits (write_tx w')) db0"
    and new: "c1 = with_options lo capacity cap1 opt (Some True) w1" "length t < 65536"
  shows "fst (cache_get lo rd (Some (open_cleanup rd sf days True unix_now db)) now unix_now t q y c1)
    = (case fold (saved_step cap) ops Map.empty (CacheKey_new t q y) of
         Some (resp, expire) \<Rightarrow> if unix_now < expire then Hit resp else Miss
       | None \<Rightarrow> Miss)"
proof -
  let ?m = "fold (saved_step cap) ops Map.empty (CacheKey_new t q y)"
  have "write_tx w' = concat (map (saves cap) ops)"
    using cache_run_writes [OF old(1,2,4), of lo rd rtx ops] old(3,5) by auto
  then have get: "t_get (d_ops rd) (encode_dns_key t q y) (dns_table db) = map_option prod.swap ?m"
    using saves_commit [OF laws(1) old(6), of db0 Map.empty t q y days cap] db new(2) by simp
  have "dns_table (open_cleanup rd sf days True unix_now db) = fst (purge (d_ops rd) (\<lambda>(expire_at, _). expire_at \<le> unix_now) (dns_table db))"
    by (simp add: open_cleanup_def Let_def purge_expired_dns_def purge_stale_fakeip_def)
  then have "t_get (d_ops rd) (encode_dns_key t q y) (dns_table (open_cleanup rd sf days True unix_now db)) =
      (case ?m of Some (resp, expire) \<Rightarrow> if unix_now < expire then Some (expire, resp) else None | None \<Rightarrow> None)"
    by (simp add: purge_get [OF laws(1)] get split: option.splits prod.splits)
  moreover obtain l where "lru_get lo (CacheKey_new t q y) (inner c1) = (None, l)"
    using lru_simps(1,2) [OF laws(2)] new(1) by (metis DnsCache.select_convs(1) One_nat_def prod.collapse with_options_def)
  ultimately show ?thesis
    by (simp add: cache_get_def get_persistent_def load_dns_cache_def new(1) with_options_def split: option.splits prod.splits)
qed

definition persistent_cache :: "(nat \<times> (CacheKey \<times> CacheEntry) list) DnsCache" where
  "persistent_cache = with_options list_lru 8 300 None None (Some \<lparr>write_tx = [], cf_store_fakeip = False, cf_store_dns = True\<rparr>)"

theorem stored_answers_survive_restart_witness:
  "\<exists>w'. persist_writer (fold (cache_step list_lru alist_redb None) [SetOp 0 100 ''up'' ''A.com'' 1 [1, 2] 60] persistent_cache) = Some w'
     \<and> fst (cache_get list_lru alist_redb (Some (open_cleanup alist_redb False 7 True 120
           (write_loop alist_redb 7 (commits (write_tx w')) empty_db))) 0 120 ''up'' ''a.com'' 1
         (with_options list_lru 8 300 None (Some True) None)) = Hit [1, 2]"
proof -
  let ?ops = "[SetOp 0 100 ''up'' ''A.com'' 1 [1, 2] 60]"
  have c: "persist_writer persistent_cache = Some \<lparr>write_tx = [], cf_store_fakeip = False, cf_store_dns = True\<rparr>"
    "ttl_cap persistent_cache = 300" by (simp_all add: persistent_cache_def with_options_def)
  then obtain w' where w': "persist_writer (fold (cache_step list_lru alist_redb None) ?ops persistent_cache) = Some w'"
    using cache_run_writes [OF c(1) _ c(2)] by fastforce
  have laws: "table_laws (d_ops alist_redb)" by (simp add: alist_redb_def alist_table_laws)
  have empty: "\<forall>k. t_get (d_ops alist_redb) k (dns_table empty_db) = None"
    by (simp add: alist_redb_def alist_table_def empty_db_def)
  have short: "list_all short_transport ?ops" "length ''up'' < 65536" by simp_all
  have key: "CacheKey_new ''up'' ''A.com'' 1 = CacheKey_new ''up'' ''a.com'' 1" by code_simp
  have "fst (cache_get list_lru alist_redb (Some (open_cleanup alist_redb False 7 True 120
       (write_loop alist_redb 7 (commits (write_tx w')) empty_db))) 0 120 ''up'' ''a.com'' 1
     (with_options list_lru 8 300 None (Some True) None))
    = (case fold (saved_step 300) ?ops Map.empty (CacheKey_new ''up'' ''a.com'' 1) of
         Some (resp, expire) \<Rightarrow> if 120 < expire then Hit resp else Miss | None \<Rightarrow> Miss)"
    by (rule stored_answers_survive_restart [OF laws list_lru_laws c(1) _ _ c(2) w' short(1) empty refl refl short(2)]) simp_all
  then show ?thesis using w' by (simp add: key clamp_ttl_def)
qed

section \<open>Sharing of answers\<close>

text \<open>
  The queries of a cache that are leading, and what happened on the channels so far. A leader completes
  with the spelling of the question it asked with.
\<close>

record 'l dedup =
  d_cache :: "'l DnsCache"
  d_next :: nat
  d_leaders :: "(string \<times> string \<times> u16) list"
  d_log :: "channel_event list"

definition key_of :: "string \<times> string \<times> u16 \<Rightarrow> CacheKey" where
  "key_of = (\<lambda>(t, q, y). CacheKey_new t q y)"

inductive dedup_step :: "'l dedup \<Rightarrow> 'l dedup \<Rightarrow> bool" where
  lead: "try_lead_inflight (d_next s) t q y (d_cache s) = (Leader, evs, c) \<Longrightarrow>
    dedup_step s (s\<lparr>d_cache := c, d_next := Suc (d_next s), d_leaders := (t, q, y) # d_leaders s, d_log := d_log s @ evs\<rparr>)"
| wait: "try_lead_inflight (d_next s) t q y (d_cache s) = (Waiter ch, evs, c) \<Longrightarrow>
    dedup_step s (s\<lparr>d_cache := c, d_log := d_log s @ evs\<rparr>)"
| complete: "(t, q, y) \<in> set (d_leaders s) \<Longrightarrow> complete_inflight t q y resp (d_cache s) = (evs, c) \<Longrightarrow>
    dedup_step s (s\<lparr>d_cache := c, d_leaders := remove1 (t, q, y) (d_leaders s), d_log := d_log s @ evs\<rparr>)"

definition dedup_start :: "'l DnsCache \<Rightarrow> 'l dedup" where
  "dedup_start c = \<lparr>d_cache = c, d_next = 0, d_leaders = [], d_log = []\<rparr>"

definition closed :: "nat \<Rightarrow> channel_event list \<Rightarrow> bool" where
  "closed ch evs \<longleftrightarrow> Dropped ch \<in> set evs"

definition touched :: "nat \<Rightarrow> channel_event list \<Rightarrow> bool" where
  "touched ch evs \<longleftrightarrow> (\<exists>r. Sent ch r \<in> set evs) \<or> Dropped ch \<in> set evs"

definition in_flight :: "'l dedup \<Rightarrow> nat \<Rightarrow> bool" where
  "in_flight s ch \<longleftrightarrow> (\<exists>k. inflight (d_cache s) k = Some ch)"

text \<open>Nobody subscribes to a channel that was already used.\<close>

fun ordered_rev :: "channel_event list \<Rightarrow> bool" where
  "ordered_rev [] = True"
| "ordered_rev (Subscribed ch # evs) = (\<not> touched ch evs \<and> ordered_rev evs)"
| "ordered_rev (_ # evs) = ordered_rev evs"

definition ordered :: "channel_event list \<Rightarrow> bool" where
  "ordered evs = ordered_rev (rev evs)"

text \<open>One leader per key in flight, channels are not shared or reused, and every subscriber's channel is
  in flight or closed.\<close>

definition dedup_inv :: "'l dedup \<Rightarrow> bool" where
  "dedup_inv s \<longleftrightarrow> distinct (map key_of (d_leaders s)) \<and> dom (inflight (d_cache s)) = key_of ` set (d_leaders s)
     \<and> (\<forall>k k' ch. inflight (d_cache s) k = Some ch \<longrightarrow> inflight (d_cache s) k' = Some ch \<longrightarrow> k = k')
     \<and> (\<forall>k ch. inflight (d_cache s) k = Some ch \<longrightarrow> ch < d_next s \<and> \<not> touched ch (d_log s))
     \<and> (\<forall>ch. touched ch (d_log s) \<longrightarrow> ch < d_next s)
     \<and> (\<forall>ch. Subscribed ch \<in> set (d_log s) \<longrightarrow> in_flight s ch \<or> closed ch (d_log s))
     \<and> ordered (d_log s)"

lemma touched_append: "touched ch (xs @ ys) \<longleftrightarrow> touched ch xs \<or> touched ch ys"
  by (auto simp: touched_def)

lemma touched_single [simp]:
  "\<not> touched ch []" "\<not> touched ch [Subscribed c]" "touched ch [Dropped c] \<longleftrightarrow> ch = c" "touched ch [Sent c r, Dropped c] \<longleftrightarrow> ch = c"
  by (auto simp: touched_def)

lemma touched_rev: "touched ch (rev xs) \<longleftrightarrow> touched ch xs"
  by (simp add: touched_def)

lemma ordered_append [simp]:
  "ordered (xs @ [Subscribed c]) \<longleftrightarrow> \<not> touched c xs \<and> ordered xs"
  "ordered (xs @ [Dropped c]) \<longleftrightarrow> ordered xs"
  "ordered (xs @ [Sent c r, Dropped c]) \<longleftrightarrow> ordered xs"
  by (simp_all add: ordered_def touched_rev)

lemma dedup_lead:
  assumes inv: "dedup_inv s" and new: "inflight (d_cache s) (CacheKey_new t q y) = None"
  shows "dedup_inv (s\<lparr>d_cache := d_cache s\<lparr>inflight := (inflight (d_cache s))(CacheKey_new t q y \<mapsto> d_next s)\<rparr>,
    d_next := Suc (d_next s), d_leaders := (t, q, y) # d_leaders s\<rparr>)" (is "dedup_inv ?s")
proof -
  let ?k = "CacheKey_new t q y"
  have fl: "inflight (d_cache ?s) k = Some ch \<longleftrightarrow> (if k = ?k then ch = d_next s else inflight (d_cache s) k = Some ch)" for k ch
    by auto
  have lt: "ch < d_next s" if "inflight (d_cache s) k = Some ch" for k ch using inv that by (auto simp: dedup_inv_def)
  have unt: "\<not> touched (d_next s) (d_log s)" using inv by (auto simp: dedup_inv_def)
  have "?k \<notin> key_of ` set (d_leaders s)" using inv new by (auto simp: dedup_inv_def)
  then have 1: "distinct (map key_of (d_leaders ?s))" "dom (inflight (d_cache ?s)) = key_of ` set (d_leaders ?s)"
    using inv by (auto simp: dedup_inv_def key_of_def)
  have 2: "k = k'" if "inflight (d_cache ?s) k = Some ch" "inflight (d_cache ?s) k' = Some ch" for k k' ch
    using that lt inv unfolding fl by (auto simp: dedup_inv_def split: if_splits)
  have 3: "ch < d_next ?s \<and> \<not> touched ch (d_log ?s)" if "inflight (d_cache ?s) k = Some ch" for k ch
    using that lt unt inv unfolding fl by (auto simp: dedup_inv_def less_Suc_eq split: if_splits)
  have 4: "in_flight ?s ch" if "in_flight s ch" for ch
  proof -
    from that obtain k where "inflight (d_cache s) k = Some ch" by (auto simp: in_flight_def)
    then have "inflight (d_cache ?s) k = Some ch" using new by auto
    then show ?thesis unfolding in_flight_def by (rule exI)
  qed
  show ?thesis unfolding dedup_inv_def
    using 1 2 3 4 inv by (auto simp: dedup_inv_def less_Suc_eq simp del: fun_upd_apply)
qed

lemma dedup_wait:
  assumes inv: "dedup_inv s" and ch: "inflight (d_cache s) (CacheKey_new t q y) = Some ch"
  shows "dedup_inv (s\<lparr>d_log := d_log s @ [Subscribed ch]\<rparr>)"
  using assms by (auto simp: dedup_inv_def touched_append in_flight_def closed_def)

lemma image_remove1: "distinct (map f xs) \<Longrightarrow> x \<in> set xs \<Longrightarrow> f ` set (remove1 x xs) = f ` set xs - {f x}"
  by (induction xs) auto

lemma dedup_complete:
  assumes inv: "dedup_inv s" and l: "(t, q, y) \<in> set (d_leaders s)"
    and ch: "inflight (d_cache s) (CacheKey_new t q y) = Some ch"
    and evs: "evs = (case resp of Some r \<Rightarrow> [Sent ch r] | None \<Rightarrow> []) @ [Dropped ch]"
  shows "dedup_inv (s\<lparr>d_cache := d_cache s\<lparr>inflight := (inflight (d_cache s))(CacheKey_new t q y := None)\<rparr>,
    d_leaders := remove1 (t, q, y) (d_leaders s), d_log := d_log s @ evs\<rparr>)" (is "dedup_inv ?s")
proof -
  let ?k = "CacheKey_new t q y"
  have fl: "inflight (d_cache ?s) k = Some c \<longleftrightarrow> k \<noteq> ?k \<and> inflight (d_cache s) k = Some c" for k c by auto
  have te: "touched c evs \<longleftrightarrow> c = ch" for c by (cases resp) (simp_all add: evs)
  have ds: "distinct (d_leaders s)" "distinct (map key_of (d_leaders s))"
    using inv by (auto simp: dedup_inv_def distinct_map)
  have "distinct (map key_of (d_leaders ?s))" using ds(2) l by (simp add: distinct_map inj_on_diff)
  moreover have "dom (inflight (d_cache ?s)) = key_of ` set (d_leaders ?s)"
    using inv image_remove1 [OF ds(2) l] by (simp add: dedup_inv_def key_of_def)
  moreover have "c < d_next ?s \<and> \<not> touched c (d_log ?s)" if "inflight (d_cache ?s) k = Some c" for k c
    using that [unfolded fl] inv ch by (auto simp: touched_append te dedup_inv_def)
  moreover have "k = k'" if "inflight (d_cache ?s) k = Some c" "inflight (d_cache ?s) k' = Some c" for k k' c
    using that [unfolded fl] inv by (auto simp: dedup_inv_def)
  moreover have "c < d_next ?s" if "touched c (d_log ?s)" for c
    using that inv ch by (auto simp: touched_append te dedup_inv_def)
  moreover have "in_flight ?s c \<or> closed c (d_log ?s)" if "Subscribed c \<in> set (d_log ?s)" for c
  proof -
    have "Subscribed c \<in> set (d_log s)" using that by (cases resp) (simp_all add: evs)
    then have "in_flight s c \<or> closed c (d_log s)" using inv by (simp add: dedup_inv_def)
    moreover have "in_flight ?s c" if "in_flight s c" "c \<noteq> ch" using that ch unfolding in_flight_def fl by (metis option.inject)
    ultimately show ?thesis by (auto simp: closed_def evs simp del: fun_upd_apply)
  qed
  moreover have "ordered (d_log ?s)" using inv by (cases resp) (simp_all add: evs dedup_inv_def)
  ultimately show ?thesis using inv unfolding dedup_inv_def by (auto simp: fl simp del: fun_upd_apply)
qed

inductive_cases dedup_stepE: "dedup_step s s'"

lemma dedup_step_inv:
  assumes "dedup_step s s'" "dedup_inv s"
  shows "dedup_inv s'"
  using assms
proof cases
  case (lead t q y evs c)
  then have "inflight (d_cache s) (CacheKey_new t q y) = None" "evs = []"
      "c = d_cache s\<lparr>inflight := (inflight (d_cache s))(CacheKey_new t q y \<mapsto> d_next s)\<rparr>"
    by (auto simp: try_lead_inflight_def Let_def split: option.splits)
  then show ?thesis using lead(1) dedup_lead [OF assms(2)] by simp
next
  case (wait t q y ch evs c)
  then have "inflight (d_cache s) (CacheKey_new t q y) = Some ch" "evs = [Subscribed ch]" "c = d_cache s"
    by (auto simp: try_lead_inflight_def Let_def split: option.splits)
  then show ?thesis using wait(1) dedup_wait [OF assms(2)] by simp
next
  case (complete t q y resp evs c)
  have "key_of (t, q, y) \<in> dom (inflight (d_cache s))"
    using assms(2) imageI [OF complete(2), of key_of] by (simp add: dedup_inv_def)
  then have "CacheKey_new t q y \<in> dom (inflight (d_cache s))" by (simp add: key_of_def)
  then obtain ch where ch: "inflight (d_cache s) (CacheKey_new t q y) = Some ch" by blast
  then have "evs = (case resp of Some r \<Rightarrow> [Sent ch r] | None \<Rightarrow> []) @ [Dropped ch]"
      "c = d_cache s\<lparr>inflight := (inflight (d_cache s))(CacheKey_new t q y := None)\<rparr>"
    using complete(3) by (simp_all add: complete_inflight_def Let_def)
  then show ?thesis using complete(1) dedup_complete [OF assms(2) complete(2) ch, of evs resp] by simp
qed

lemma dedup_reach_inv:
  "dedup_step\<^sup>*\<^sup>* (dedup_start (with_options lo capacity cap opt rdr wrt)) s \<Longrightarrow> dedup_inv s"
proof (induction rule: rtranclp_induct)
  case base
  then show ?case by (simp add: dedup_inv_def dedup_start_def with_options_def ordered_def)
next
  case (step s s')
  then show ?case using dedup_step_inv by blast
qed

text \<open>Every leader can complete, whatever the outcomes of the queries are.\<close>

lemma leaders_complete: "\<exists>s'. dedup_step\<^sup>*\<^sup>* s s' \<and> d_leaders s' = []"
proof (induction "length (d_leaders s)" arbitrary: s)
  case (Suc n)
  then obtain t q y ls where ls: "d_leaders s = (t, q, y) # ls" by (metis length_Suc_conv prod_cases3)
  obtain evs c where "complete_inflight t q y None (d_cache s) = (evs, c)" by fastforce
  then have step: "dedup_step s (s\<lparr>d_cache := c, d_leaders := ls, d_log := d_log s @ evs\<rparr>)" (is "dedup_step s ?s")
    using dedup_step.complete [of t q y s None evs c] ls by simp
  moreover have "n = length (d_leaders ?s)" using Suc.hyps(2) ls by simp
  ultimately show ?case using Suc.hyps(1) [of ?s] by (meson converse_rtranclp_into_rtranclp)
qed auto

text \<open>
  C17. Concurrent queries for the same question share one answer and nobody waits for ever: in every
  reachable state each question in flight has exactly one leader; a query waits only on a channel that
  has not been used yet, so that it receives what its leader sends; and however far the leaders are,
  they can complete, after which the table of queries in flight is empty and the channel of every
  waiting query is closed.
\<close>

theorem inflight_queries_share_answers:
  assumes "dedup_step\<^sup>*\<^sup>* (dedup_start (with_options lo capacity cap opt rdr wrt)) s"
  shows "distinct (map key_of (d_leaders s)) \<and> dom (inflight (d_cache s)) = key_of ` set (d_leaders s)
    \<and> ordered (d_log s)
    \<and> (\<exists>s'. dedup_step\<^sup>*\<^sup>* s s' \<and> inflight (d_cache s') = Map.empty
         \<and> (\<forall>ch. Subscribed ch \<in> set (d_log s') \<longrightarrow> closed ch (d_log s')))"
proof -
  obtain s' where s': "dedup_step\<^sup>*\<^sup>* s s'" "d_leaders s' = []" using leaders_complete by blast
  have inv: "dedup_inv s" "dedup_inv s'"
    using dedup_reach_inv assms rtranclp_trans [OF assms s'(1)] by blast+
  then have none: "inflight (d_cache s') = Map.empty" using s'(2) by (simp add: dedup_inv_def)
  then have "closed ch (d_log s')" if "Subscribed ch \<in> set (d_log s')" for ch
    using that inv(2) by (simp add: dedup_inv_def in_flight_def)
  then show ?thesis using inv(1) s'(1) none unfolding dedup_inv_def by blast
qed

theorem inflight_queries_share_answers_witness:
  "\<exists>s. dedup_step\<^sup>*\<^sup>* (dedup_start (with_options list_lru 8 300 None None None)) s
     \<and> d_leaders s = [(''up'', ''a.com'', 1)] \<and> dom (inflight (d_cache s)) = {CacheKey_new ''up'' ''a.com'' 1}"
proof -
  let ?s0 = "dedup_start (with_options list_lru 8 300 None None None)"
  obtain evs c where "try_lead_inflight (d_next ?s0) ''up'' ''a.com'' 1 (d_cache ?s0) = (Leader, evs, c)"
    by (simp add: try_lead_inflight_def dedup_start_def with_options_def)
  then have step: "dedup_step ?s0 (?s0\<lparr>d_cache := c, d_next := Suc (d_next ?s0), d_leaders := (''up'', ''a.com'', 1) # d_leaders ?s0,
      d_log := d_log ?s0 @ evs\<rparr>)" (is "dedup_step ?s0 ?s1")
    by (rule dedup_step.lead)
  then have reach: "dedup_step\<^sup>*\<^sup>* ?s0 ?s1" by (rule r_into_rtranclp)
  have "d_leaders ?s1 = [(''up'', ''a.com'', 1)]" by (simp add: dedup_start_def)
  then show ?thesis using inflight_queries_share_answers [OF reach] reach
    by (intro exI [of _ ?s1]) (simp add: key_of_def)
qed

end
