(* ===== verification/Dns_Resolver.thy ===== *)
theory Dns_Resolver
  imports Dns_Upstream Dns_Cache Router
begin

text \<open>
  The DNS resolver (\<open>src/dns/mod.rs\<close>): rules that choose an upstream, the answering of queries through
  the cache, the sharing of queries in flight, and the resolution of host names for the dispatcher. The
  fake-IP stores and the cache are shared mutable state and are part of the resolver's state here.
\<close>

section \<open>Configuration\<close>

datatype DnsQueryType = QA | QAaaa | QCname | QMx | QTxt | QNs | QPtr | QSrv | QHttps

record DnsRuleConfig =
  dr_inbound :: "string list"
  dr_ruleset :: "string list"
  dr_domain :: "string list"
  dr_domain_suffix :: "string list"
  dr_domain_keyword :: "string list"
  dr_query_type :: "DnsQueryType list"
  dr_server :: string
  dr_disable_cache :: bool

record DnsConfig =
  dc_servers :: "DnsServerConfig list"
  dc_rules :: "DnsRuleConfig list"
  dc_final :: string
  dc_strategy :: ResolveStrategy
  dc_disable_cache :: bool
  dc_cache_ttl_max :: nat
  dc_cache_capacity :: nat
  dc_optimistic_timeout :: nat

section \<open>Rules\<close>

record ('f, 'r) CompiledDnsRule =
  cd_inbound_tags :: "string list"
  cd_query_types :: "nat list"
  cd_inline_rs :: "('f, 'r) RuleSet option"
  cd_file_rulesets :: "('f, 'r) RuleSet list"
  cd_upstream :: DnsUpstream
  cd_disable_cache :: bool

fun query_type_code :: "DnsQueryType \<Rightarrow> nat" where
  "query_type_code QA = 1"
| "query_type_code QAaaa = 28"
| "query_type_code QCname = 5"
| "query_type_code QMx = 15"
| "query_type_code QTxt = 16"
| "query_type_code QNs = 2"
| "query_type_code QPtr = 12"
| "query_type_code QSrv = 33"
| "query_type_code QHttps = 65"

definition dns_rule_lines :: "DnsRuleConfig \<Rightarrow> string list" where
  "dns_rule_lines rule =
     map (\<lambda>d. ''domain: '' @ d) (dr_domain rule)
     @ map (\<lambda>d. ''domain-suffix: '' @ d) (dr_domain_suffix rule)
     @ map (\<lambda>d. ''domain-keyword: '' @ d) (dr_domain_keyword rule)"

definition compile_dns_rule ::
  "('f, 'r) crates \<Rightarrow> (string \<Rightarrow> DnsUpstream option) \<Rightarrow> (string \<Rightarrow> ('f, 'r) RuleSet option) \<Rightarrow> DnsRuleConfig \<Rightarrow>
   RouterError + ('f, 'r) CompiledDnsRule" where
  "compile_dns_rule cr upstreams preloaded rule =
     res_bind (ok_or (Msg (''dns server '' @ quote1 (dr_server rule) @ '' not found'')) (upstreams (dr_server rule))) (\<lambda>upstream.
     res_bind (inline_ruleset cr (dns_rule_lines rule)) (\<lambda>inline_rs.
       Inr \<lparr>cd_inbound_tags = dr_inbound rule, cd_query_types = map query_type_code (dr_query_type rule),
            cd_inline_rs = inline_rs, cd_file_rulesets = List.map_filter preloaded (dr_ruleset rule),
            cd_upstream = upstream, cd_disable_cache = dr_disable_cache rule\<rparr>))"

definition dns_rule_matches ::
  "('f, 'r) crates \<Rightarrow> ('f, 'r) CompiledDnsRule \<Rightarrow> string \<Rightarrow> string \<Rightarrow> nat \<Rightarrow> bool" where
  "dns_rule_matches cr rule inbound_tag qname qtype =
     (if cd_inbound_tags rule \<noteq> [] \<and> inbound_tag \<notin> set (cd_inbound_tags rule) then False
      else if cd_query_types rule \<noteq> [] \<and> qtype \<notin> set (cd_query_types rule) then False
      else if cd_inline_rs rule \<noteq> None \<or> cd_file_rulesets rule \<noteq> [] then
        (case cd_inline_rs rule of Some rs \<Rightarrow> RuleSet_matches cr rs (TDomain qname) | None \<Rightarrow> False)
        \<or> list_ex (\<lambda>rs. RuleSet_matches cr rs (TDomain qname)) (cd_file_rulesets rule)
      else True)"

section \<open>The resolver\<close>

record ('f, 'r, 'l) DnsResolver =
  res_rules :: "('f, 'r) CompiledDnsRule list"
  res_default :: DnsUpstream
  res_cache :: "'l DnsCache option"
  res_upstreams :: "string \<Rightarrow> DnsUpstream option"
  res_strategy :: ResolveStrategy
  res_stores :: "nat \<Rightarrow> FakeIpStore option"

text \<open>One server, built in its turn: \<open>outbounds\<close> tells which outbound tags exist, \<open>None\<close> when there is no
  table of outbounds.\<close>

definition build_upstream ::
  "DnsConfig \<Rightarrow> (string \<Rightarrow> bool) option \<Rightarrow> bool \<Rightarrow> (IpAddr \<times> string) list option \<Rightarrow> nat \<Rightarrow> nat \<Rightarrow>
   (string \<Rightarrow> DnsUpstream option) \<times> (nat \<Rightarrow> FakeIpStore option) \<Rightarrow>
   RouterError + (string \<Rightarrow> DnsUpstream option) \<times> (nat \<Rightarrow> FakeIpStore option)" where
  "build_upstream config outbounds cf records so_mark ix = (\<lambda>(upstreams, stores).
     (let srv = dc_servers config ! ix
      in res_bind (case (ds_detour srv, outbounds) of
                     (Some tg, Some obs) \<Rightarrow>
                       if obs tg then Inr (Some tg)
                       else Inl (Msg (''dns server '' @ quote1 (ds_tag srv) @ '' references unknown detour '' @ quote1 tg))
                   | _ \<Rightarrow> Inr None) (\<lambda>detour.
         res_bind (case ds_domain_resolver srv of
                     Some tg \<Rightarrow>
                       (case upstreams tg of
                          Some up \<Rightarrow> Inr (Some up)
                        | None \<Rightarrow> Inl (Msg (''dns server '' @ quote1 (ds_tag srv) @ '' references unknown domain_resolver '' @ quote1 tg)))
                   | None \<Rightarrow> Inr None) (\<lambda>resolver.
         (let fake = (protocol srv = PFakeIp)
          in res_bind (map_err Msg (from_config_full_with_reader srv detour (fake \<and> cf) (if fake then records else None) resolver ix)) (\<lambda>(u, store).
               Inr (upstreams(ds_tag srv \<mapsto> with_mark so_mark u),
                    case store of Some st \<Rightarrow> stores(ix \<mapsto> set_strategy (dc_strategy config) st) | None \<Rightarrow> stores)))))))"

definition build_cache ::
  "('l, CacheKey, CacheEntry) lru_ops \<Rightarrow> DnsConfig \<Rightarrow> bool option \<Rightarrow> CacheFile option \<Rightarrow> 'l DnsCache option" where
  "build_cache lo config reader writer =
     (if dc_disable_cache config then None
      else Some (with_options lo (dc_cache_capacity config)
             (if 0 < dc_cache_ttl_max config then dc_cache_ttl_max config else 3600)
             (if 0 < dc_optimistic_timeout config then Some (secs (dc_optimistic_timeout config)) else None)
             (if reader = Some True then reader else None) (if reader = Some True then writer else None)))"

definition from_config_full ::
  "('l, CacheKey, CacheEntry) lru_ops \<Rightarrow> ('f, 'r) crates \<Rightarrow> DnsConfig \<Rightarrow> (string \<Rightarrow> ('f, 'r) RuleSet option) \<Rightarrow> (string \<Rightarrow> bool) option \<Rightarrow>
   bool \<Rightarrow> (IpAddr \<times> string) list option \<Rightarrow> bool option \<Rightarrow> CacheFile option \<Rightarrow> nat \<Rightarrow> (RouterError + ('f, 'r, 'l) DnsResolver) option" where
  "from_config_full lo cr config rulesets outbounds cf records reader writer so_mark =
     (if 0 < dc_optimistic_timeout config \<and> dc_disable_cache config
      then Some (Inl (Msg ''`optimistic_timeout` cannot be used with `disable_cache: true`''))
      else map_option (\<lambda>sorted.
        res_bind (map_err Msg sorted) (\<lambda>order.
        res_bind (res_fold (build_upstream config outbounds cf records so_mark) order (Map.empty, Map.empty)) (\<lambda>(upstreams, stores).
        res_bind (res_map (compile_dns_rule cr upstreams rulesets) (dc_rules config)) (\<lambda>rules.
        res_bind (ok_or (Msg (''dns.final '' @ quote1 (dc_final config) @ '' not found'')) (upstreams (dc_final config))) (\<lambda>default.
          Inr \<lparr>res_rules = rules, res_default = default, res_cache = build_cache lo config reader writer,
               res_upstreams = upstreams, res_strategy = dc_strategy config, res_stores = stores\<rparr>)))))
        (toposort_servers (dc_servers config)))"

text \<open>\<open>tags\<close> is the order in which the hash map of upstreams is iterated.\<close>

definition values_in :: "string list \<Rightarrow> (string \<Rightarrow> DnsUpstream option) \<Rightarrow> DnsUpstream list" where
  "values_in hash_order m = List.map_filter m hash_order"

fun lookup_fakeip_in :: "(nat \<Rightarrow> FakeIpStore option) \<Rightarrow> IpAddr \<Rightarrow> DnsUpstream list \<Rightarrow> string option" where
  "lookup_fakeip_in stores addr [] = None"
| "lookup_fakeip_in stores addr (u # us) =
     (case up_kind u of
        UpFakeIp n \<Rightarrow>
          (case stores n of
             Some st \<Rightarrow> if fake_contains st addr then fake_lookup st addr else lookup_fakeip_in stores addr us
           | None \<Rightarrow> lookup_fakeip_in stores addr us)
      | _ \<Rightarrow> lookup_fakeip_in stores addr us)"

definition resolver_lookup_fakeip :: "string list \<Rightarrow> ('f, 'r, 'l) DnsResolver \<Rightarrow> IpAddr \<Rightarrow> string option" where
  "resolver_lookup_fakeip hash_order res addr =
     lookup_fakeip_in (res_stores res) addr (values_in hash_order (res_upstreams res))"

definition set_fakeip_strategy :: "string list \<Rightarrow> ResolveStrategy \<Rightarrow> ('f, 'r, 'l) DnsResolver \<Rightarrow> ('f, 'r, 'l) DnsResolver" where
  "set_fakeip_strategy hash_order s res =
     (let upd = (\<lambda>u stores. case up_kind u of UpFakeIp n \<Rightarrow> stores(n := map_option (set_strategy s) (stores n)) | _ \<Rightarrow> stores)
      in res\<lparr>res_stores := upd (res_default res) (fold upd (values_in hash_order (res_upstreams res)) (res_stores res))\<rparr>)"

subsection \<open>Choosing an upstream\<close>

definition first_real :: "string list \<Rightarrow> ('f, 'r, 'l) DnsResolver \<Rightarrow> DnsUpstream" where
  "first_real hash_order res =
     (case List.find (\<lambda>u. \<not> is_fakeip (up_kind u)) (values_in hash_order (res_upstreams res)) of
        Some u \<Rightarrow> u
      | None \<Rightarrow> res_default res)"

definition select_upstream ::
  "('f, 'r) crates \<Rightarrow> string list \<Rightarrow> ('f, 'r, 'l) DnsResolver \<Rightarrow> string \<Rightarrow> string \<Rightarrow> nat \<Rightarrow> DnsUpstream \<times> bool" where
  "select_upstream cr hash_order res inbound_tag qname qtype =
     (let (upstream, disable_cache) =
            (case List.find (\<lambda>r. dns_rule_matches cr r inbound_tag qname qtype) (res_rules res) of
               Some r \<Rightarrow> (cd_upstream r, cd_disable_cache r)
             | None \<Rightarrow> (res_default res, False))
      in if qtype \<noteq> 1 \<and> qtype \<noteq> 28 \<and> is_fakeip (up_kind upstream) then
           (case List.find (\<lambda>r. dns_rule_matches cr r inbound_tag qname qtype \<and> \<not> is_fakeip (up_kind (cd_upstream r))) (res_rules res) of
              Some r \<Rightarrow> (cd_upstream r, cd_disable_cache r)
            | None \<Rightarrow> (first_real hash_order res, False))
         else (upstream, disable_cache))"

definition resolve_upstream :: "('f, 'r) crates \<Rightarrow> string list \<Rightarrow> ('f, 'r, 'l) DnsResolver \<Rightarrow> string \<Rightarrow> DnsUpstream" where
  "resolve_upstream cr hash_order res host =
     (case List.find (\<lambda>r. dns_rule_matches cr r [] host 1 \<and> \<not> is_fakeip (up_kind (cd_upstream r))) (res_rules res) of
        Some r \<Rightarrow> cd_upstream r
      | None \<Rightarrow> if is_fakeip (up_kind (res_default res)) then first_real hash_order res else res_default res)"

section \<open>Answering\<close>

text \<open>
  The world a query is answered in: the clocks, the database snapshot, the network, the number of a new
  channel, and what a waiting query receives (\<open>None\<close> when the sender is dropped).
\<close>

record ('x, 'd, 's, 'g) dns_env =
  env_now :: nat
  env_unix :: nat
  env_rd :: "('x, 'd, 's, 'g) redb"
  env_rtx :: "('x, 'd, 's, 'g) Database option"
  env_net :: dns_net
  env_channel :: nat
  env_received :: "bytes option"
  env_hash :: "string list"

text \<open>What a task answers: the response, the refresh it starts in the background, and the new state.\<close>

datatype background = Refresh DnsUpstream bytes string u16

record ('f, 'r, 'l) answer =
  a_resp :: "string + bytes"
  a_tasks :: "background list"
  a_res :: "('f, 'r, 'l) DnsResolver"

text \<open>A panic anywhere is \<open>None\<close>. A cacheable response is stored with its TTL, 60 seconds without one.\<close>

definition store_answer ::
  "('l, CacheKey, CacheEntry) lru_ops \<Rightarrow> ('x, 'd, 's, 'g) dns_env \<Rightarrow> string \<Rightarrow> string \<Rightarrow> u16 \<Rightarrow> bytes \<Rightarrow> 'l DnsCache \<Rightarrow> 'l DnsCache option" where
  "store_answer lo env transport qname qtype resp cache =
     do {
       ok \<leftarrow> is_cacheable_or_negative resp;
       if ok then do {
         t \<leftarrow> extract_min_ttl_or_negative resp;
         Some (cache_set lo (env_now env) (env_unix env) transport qname qtype resp
                 (case t of Some ttl \<Rightarrow> unat ttl | None \<Rightarrow> 60) cache)
       } else Some cache
     }"

definition lead_query ::
  "('l, CacheKey, CacheEntry) lru_ops \<Rightarrow> ('x, 'd, 's, 'g) dns_env \<Rightarrow> DnsUpstream \<Rightarrow> bytes \<Rightarrow> string \<Rightarrow> u16 \<Rightarrow> 'l DnsCache \<Rightarrow>
   ('f, 'r, 'l) DnsResolver \<Rightarrow> ('f, 'r, 'l) answer option" where
  "lead_query lo env upstream msg qname qtype cache res =
     do {
       (resp, stores) \<leftarrow> query (env_net env) upstream msg (res_stores res);
       case resp of
         Inr r \<Rightarrow> do {
           cache \<leftarrow> store_answer lo env (up_tag upstream) qname qtype r cache;
           Some \<lparr>a_resp = Inr r, a_tasks = [],
                 a_res = res\<lparr>res_stores := stores, res_cache := Some (snd (complete_inflight (up_tag upstream) qname qtype (Some r) cache))\<rparr>\<rparr>
         }
       | Inl e \<Rightarrow>
           Some \<lparr>a_resp = Inl e, a_tasks = [],
                 a_res = res\<lparr>res_stores := stores, res_cache := Some (snd (complete_inflight (up_tag upstream) qname qtype None cache))\<rparr>\<rparr>
     }"

definition wait_query ::
  "('l, CacheKey, CacheEntry) lru_ops \<Rightarrow> ('x, 'd, 's, 'g) dns_env \<Rightarrow> DnsUpstream \<Rightarrow> bytes \<Rightarrow> string \<Rightarrow> u16 \<Rightarrow> 'l DnsCache \<Rightarrow>
   ('f, 'r, 'l) DnsResolver \<Rightarrow> ('f, 'r, 'l) answer option" where
  "wait_query lo env upstream msg qname qtype cache res =
     (case env_received env of
        Some cached \<Rightarrow> do {
          r \<leftarrow> patch_id cached msg;
          Some \<lparr>a_resp = Inr r, a_tasks = [], a_res = res\<lparr>res_cache := Some cache\<rparr>\<rparr>
        }
      | None \<Rightarrow> do {
          (resp, stores) \<leftarrow> query (env_net env) upstream msg (res_stores res);
          case resp of
            Inr r \<Rightarrow> do {
              cache \<leftarrow> store_answer lo env (up_tag upstream) qname qtype r cache;
              Some \<lparr>a_resp = Inr r, a_tasks = [], a_res = res\<lparr>res_stores := stores, res_cache := Some cache\<rparr>\<rparr>
            }
          | Inl e \<Rightarrow> Some \<lparr>a_resp = Inl e, a_tasks = [], a_res = res\<lparr>res_stores := stores, res_cache := Some cache\<rparr>\<rparr>
        })"

definition handle ::
  "('l, CacheKey, CacheEntry) lru_ops \<Rightarrow> ('f, 'r) crates \<Rightarrow> ('x, 'd, 's, 'g) dns_env \<Rightarrow> bytes \<Rightarrow> string \<Rightarrow> ('f, 'r, 'l) DnsResolver \<Rightarrow>
   ('f, 'r, 'l) answer option" where
  "handle lo cr env msg inbound_tag res =
     do {
       n \<leftarrow> extract_qname msg;
       t \<leftarrow> extract_qtype msg;
       let qname = (case n of Some q \<Rightarrow> q | None \<Rightarrow> []);
       let qtype = (case t of Some q \<Rightarrow> q | None \<Rightarrow> 1);
       let y = (word_of_nat qtype :: u16);
       let (upstream, disable_cache) = select_upstream cr (env_hash env) res inbound_tag qname qtype;
       case (res_cache res, disable_cache) of
         (Some cache, False) \<Rightarrow>
           (case cache_get lo (env_rd env) (env_rtx env) (env_now env) (env_unix env) (up_tag upstream) qname y cache of
              (Hit cached, cache) \<Rightarrow> do {
                r \<leftarrow> patch_id cached msg;
                Some \<lparr>a_resp = Inr r, a_tasks = [], a_res = res\<lparr>res_cache := Some cache\<rparr>\<rparr>
              }
            | (Stale cached, cache) \<Rightarrow> do {
                r \<leftarrow> patch_id cached msg;
                Some \<lparr>a_resp = Inr r, a_tasks = [Refresh upstream msg qname y], a_res = res\<lparr>res_cache := Some cache\<rparr>\<rparr>
              }
            | (Miss, cache) \<Rightarrow>
                (case try_lead_inflight (env_channel env) (up_tag upstream) qname y cache of
                   (Leader, _, cache) \<Rightarrow> lead_query lo env upstream msg qname y cache res
                 | (Waiter _, _, cache) \<Rightarrow> wait_query lo env upstream msg qname y cache res))
       | _ \<Rightarrow> do {
           (resp, stores) \<leftarrow> query (env_net env) upstream msg (res_stores res);
           Some \<lparr>a_resp = resp, a_tasks = [], a_res = res\<lparr>res_stores := stores\<rparr>\<rparr>
         }
     }"

text \<open>The task that refreshes a stale entry.\<close>

fun run_refresh ::
  "('l, CacheKey, CacheEntry) lru_ops \<Rightarrow> ('x, 'd, 's, 'g) dns_env \<Rightarrow> background \<Rightarrow> ('f, 'r, 'l) DnsResolver \<Rightarrow> ('f, 'r, 'l) DnsResolver option" where
  "run_refresh lo env (Refresh upstream msg qname qtype) res =
     do {
       (resp, stores) \<leftarrow> query (env_net env) upstream msg (res_stores res);
       case (resp, res_cache res) of
         (Inr r, Some cache) \<Rightarrow> do {
           cache \<leftarrow> store_answer lo env (up_tag upstream) qname qtype r cache;
           Some (res\<lparr>res_stores := stores, res_cache := Some cache\<rparr>)
         }
       | _ \<Rightarrow> Some (res\<lparr>res_stores := stores\<rparr>)
     }"

text \<open>\<open>run\<close>: what is sent back for one query.\<close>

definition answer_query ::
  "('l, CacheKey, CacheEntry) lru_ops \<Rightarrow> ('f, 'r) crates \<Rightarrow> ('x, 'd, 's, 'g) dns_env \<Rightarrow> bytes \<Rightarrow> string \<Rightarrow> ('f, 'r, 'l) DnsResolver \<Rightarrow>
   (bytes \<times> ('f, 'r, 'l) answer) option" where
  "answer_query lo cr env msg inbound_tag res =
     do {
       a \<leftarrow> handle lo cr env msg inbound_tag res;
       Some (case a_resp a of Inr r \<Rightarrow> r | Inl e \<Rightarrow> make_servfail msg, a)
     }"

section \<open>Resolving host names\<close>

definition resolve_failed :: "string \<Rightarrow> string \<Rightarrow> string" where
  "resolve_failed host why = ''dns resolve failed for '' @ quote1 host @ '': '' @ why"

definition resolve_domain_with_strategy ::
  "dns_net \<Rightarrow> string \<Rightarrow> ResolveStrategy \<Rightarrow> DnsUpstream \<Rightarrow> (nat \<Rightarrow> FakeIpStore option) \<Rightarrow>
   ((string + IpAddr) \<times> (nat \<Rightarrow> FakeIpStore option)) option" where
  "resolve_domain_with_strategy net host strategy upstream stores =
     (case parse_ip host of
        Some ip \<Rightarrow> Some (Inr ip, stores)
      | None \<Rightarrow>
          (case strategy of
             Ipv4Only \<Rightarrow> do {
               (resp, stores) \<leftarrow> query net upstream (build_query host 1) stores;
               v4 \<leftarrow> first_answer resp 1;
               Some (ok_or (resolve_failed host ''no A answer'') v4, stores)
             }
           | Ipv6Only \<Rightarrow> do {
               (resp, stores) \<leftarrow> query net upstream (build_query host 28) stores;
               v6 \<leftarrow> first_answer resp 28;
               Some (ok_or (resolve_failed host ''no AAAA answer'') v6, stores)
             }
           | _ \<Rightarrow> do {
               (resp_a, stores) \<leftarrow> query net upstream (build_query host 1) stores;
               (resp_aaaa, stores) \<leftarrow> query net upstream (build_query host 28) stores;
               ipv4 \<leftarrow> first_answer resp_a 1;
               ipv6 \<leftarrow> first_answer resp_aaaa 28;
               Some (case (strategy, ipv4, ipv6) of
                       (PreferIpv6, _, Some v6) \<Rightarrow> Inr v6
                     | (PreferIpv6, Some v4, None) \<Rightarrow> Inr v4
                     | (_, Some v4, _) \<Rightarrow> Inr v4
                     | (_, None, Some v6) \<Rightarrow> Inr v6
                     | _ \<Rightarrow> Inl (resolve_failed host ''no answer''), stores)
             }))"

definition resolver_resolve_domain ::
  "('f, 'r) crates \<Rightarrow> dns_net \<Rightarrow> string list \<Rightarrow> string \<Rightarrow> ('f, 'r, 'l) DnsResolver \<Rightarrow> ((string + IpAddr) \<times> (nat \<Rightarrow> FakeIpStore option)) option" where
  "resolver_resolve_domain cr net hash_order host res =
     resolve_domain_with_strategy net host (res_strategy res) (resolve_upstream cr hash_order res host) (res_stores res)"

definition resolver_resolve_domain_via ::
  "dns_net \<Rightarrow> string \<Rightarrow> string \<Rightarrow> ('f, 'r, 'l) DnsResolver \<Rightarrow> ((string + IpAddr) \<times> (nat \<Rightarrow> FakeIpStore option)) option" where
  "resolver_resolve_domain_via net host server_tag res =
     resolve_domain_with_strategy net host (res_strategy res)
       (case res_upstreams res server_tag of Some up \<Rightarrow> up | None \<Rightarrow> res_default res) (res_stores res)"

end
