(* ===== verification/Dns_Resolver_Correct.thy ===== *)
theory Dns_Resolver_Correct
  imports Dns_Resolver Dispatcher Fakeip_Pool Ruleset_Correct
begin

text \<open>
  What the resolver promises: which upstream answers, that an answer belongs to its query, and that a
  fake address given out leads the dispatcher back to the name.
\<close>

section \<open>The choice of the upstream\<close>

text \<open>The iteration order of the hash map lists its keys, and some upstream is not a fake-IP one.\<close>

definition real_upstream :: "string list \<Rightarrow> ('f, 'r, 'l) DnsResolver \<Rightarrow> bool" where
  "real_upstream hash_order res \<longleftrightarrow> set hash_order = dom (res_upstreams res)
     \<and> (\<exists>tg u. res_upstreams res tg = Some u \<and> \<not> is_fakeip (up_kind u))"

lemma set_values_in: "u \<in> set (values_in hash_order m) \<longleftrightarrow> (\<exists>tg \<in> set hash_order. m tg = Some u)"
  by (induction hash_order) (auto simp: values_in_def split: option.splits)

lemma find_Some: "List.find P xs = Some x \<Longrightarrow> P x \<and> x \<in> set xs"
  by (auto simp: find_Some_iff)

lemma first_real_real:
  assumes "real_upstream hash_order res"
  shows "\<not> is_fakeip (up_kind (first_real hash_order res))"
proof (cases "List.find (\<lambda>u. \<not> is_fakeip (up_kind u)) (values_in hash_order (res_upstreams res))")
  case None
  then have "is_fakeip (up_kind u)" if "u \<in> set (values_in hash_order (res_upstreams res))" for u
    using that by (auto simp: find_None_iff)
  moreover obtain tg u where "tg \<in> set hash_order" "res_upstreams res tg = Some u" "\<not> is_fakeip (up_kind u)"
    using assms by (auto simp: real_upstream_def)
  ultimately show ?thesis by (auto simp: set_values_in)
qed (auto simp: first_real_def dest: find_Some)

lemma resolve_upstream_real:
  "real_upstream hash_order res \<Longrightarrow> \<not> is_fakeip (up_kind (resolve_upstream cr hash_order res host))"
  by (auto simp: resolve_upstream_def first_real_real split: option.splits dest: find_Some)

lemma select_upstream_real:
  assumes "real_upstream hash_order res" "qtype \<noteq> 1" "qtype \<noteq> 28"
  shows "\<not> is_fakeip (up_kind (fst (select_upstream cr hash_order res inbound_tag qname qtype)))"
  using assms first_real_real [OF assms(1)]
  by (auto simp: select_upstream_def Let_def split: option.splits prod.splits dest: find_Some)

lemma query_real_stores:
  "\<not> is_fakeip (up_kind u) \<Longrightarrow> query net u msg stores = Some (r, stores') \<Longrightarrow> stores' = stores"
  by (auto simp: query_def split: UpstreamKind.splits)

lemma resolve_with_real:
  assumes "\<not> is_fakeip (up_kind u)" "resolve_domain_with_strategy net host s u stores = Some (r, stores')"
  shows "stores' = stores"
  using assms(2)
  by (auto simp: resolve_domain_with_strategy_def split: option.splits ResolveStrategy.splits Option.bind_split_asm prod.splits
      dest!: query_real_stores [OF assms(1)])

text \<open>
  Fake addresses are answers to A and AAAA queries only: when some upstream is a real one, a query
  of another type goes to a real upstream whatever the rules say, and the resolution of a host name for
  the dispatcher asks a real upstream and gives out no fake address.
\<close>

theorem fakeip_answers_addresses_only:
  assumes "real_upstream hash_order res"
  shows "(\<forall>inbound_tag qname qtype. qtype \<noteq> 1 \<and> qtype \<noteq> 28 \<longrightarrow>
      \<not> is_fakeip (up_kind (fst (select_upstream cr hash_order res inbound_tag qname qtype))))
    \<and> (\<forall>host r stores. resolver_resolve_domain cr net hash_order host res = Some (r, stores) \<longrightarrow> stores = res_stores res)"
  using select_upstream_real [OF assms] resolve_with_real [OF resolve_upstream_real [OF assms]]
  by (auto simp: resolver_resolve_domain_def)

definition demo_real :: DnsUpstream where
  "demo_real = DnsUpstream ''udp'' (UpUdp \<lparr>sa_ip = V4 0x08080808, sa_port = 53\<rparr>) 5 None None 0"

definition demo_fake :: DnsUpstream where
  "demo_fake = DnsUpstream ''fake'' (UpFakeIp 0) 5 None None 0"

definition demo_resolver :: "(bytes list, string list, nat \<times> (CacheKey \<times> CacheEntry) list) DnsResolver" where
  "demo_resolver = \<lparr>res_rules = [], res_default = demo_fake, res_cache = None,
     res_upstreams = [''udp'' \<mapsto> demo_real, ''fake'' \<mapsto> demo_fake], res_strategy = PreferIpv4, res_stores = [0 \<mapsto> demo_store]\<rparr>"

theorem fakeip_answers_addresses_only_witness:
  "\<not> is_fakeip (up_kind (fst (select_upstream sample_crates [''fake'', ''udp''] demo_resolver ''dns-in'' ''a.com'' 65)))"
proof -
  have "real_upstream [''fake'', ''udp''] demo_resolver"
    by (auto simp: real_upstream_def demo_resolver_def demo_real_def)
  from fakeip_answers_addresses_only [OF this, of sample_crates] show ?thesis by simp
qed

text \<open>A rule whose rule sets are all missing and that has no domains of its own matches every name.\<close>

lemma missing_ruleset_matches_all:
  assumes "compile_dns_rule cr upstreams preloaded rule = Inr c"
    and "dr_ruleset rule \<noteq> []" "\<forall>tg \<in> set (dr_ruleset rule). preloaded tg = None"
    and "dns_rule_lines rule = []" "dr_inbound rule = []" "dr_query_type rule = []"
  shows "dns_rule_matches cr c inbound_tag qname qtype"
proof -
  have "List.map_filter preloaded (dr_ruleset rule) = []"
    using assms(3) by (induction "dr_ruleset rule") (auto simp: map_filter_def filter_empty_conv)
  then show ?thesis using assms
    by (auto simp: compile_dns_rule_def res_bind_def inline_ruleset_def dns_rule_matches_def split: sum.splits)
qed

section \<open>Answers belong to their queries\<close>

text \<open>Two messages have the same identifier; a response shorter than one has none.\<close>

definition same_id :: "bytes \<Rightarrow> bytes \<Rightarrow> bool" where
  "same_id r msg \<longleftrightarrow> (2 \<le> length r \<longrightarrow> take 2 r = take 2 msg)"

lemma take2_nth: "2 \<le> length xs \<Longrightarrow> take 2 xs = [xs ! 0, xs ! 1]"
  by (auto simp: numeral_2_eq_2 Suc_le_length_iff)

lemma patch_id_same:
  assumes "12 \<le> length msg" "patch_id resp msg = Some r"
  shows "same_id r msg"
proof -
  obtain a b rest where "msg = a # b # rest" using assms(1) by (cases msg; cases "tl msg") auto
  then show ?thesis
    using assms(2) by (auto simp: patch_id_def same_id_def idx_def numeral_2_eq_2 Suc_le_length_iff split: if_splits)
qed

lemma make_same_id:
  assumes "12 \<le> length msg"
  shows "same_id (make_servfail msg) msg" "same_id (make_refused msg) msg"
    "same_id (make_noerror_empty msg) msg" "same_id (make_nxdomain msg) msg" "same_id (build_ip_response msg t d) msg"
  using assms
  by (simp_all add: same_id_def take2_nth make_servfail_def make_refused_def make_noerror_empty_def make_nxdomain_def
      build_ip_response_def Let_def nth_append)

lemma reply_same_id:
  assumes "12 \<le> length msg" "reply msg st = Some (r, st')"
  shows "same_id r msg"
proof -
  have "same_id (fst (fake_answer msg t n st)) msg" for t n
    using make_same_id [OF assms(1)]
    by (simp add: fake_answer_def build_a_response_def build_aaaa_response_def split: option.splits prod.splits)
  moreover have "r = make_noerror_empty msg \<or> (\<exists>t n. fake_answer msg t n st = (r, st'))"
    using assms(2) by (auto simp: reply_def split: Option.bind_split_asm option.split_asm if_split_asm)
  ultimately show ?thesis using make_same_id(3) [OF assms(1)] by (metis fst_conv)
qed

text \<open>
  The upstreams that ask a server over the network, the upstreams of a resolver, and the stores they need:
  every fake-IP upstream has its store.
\<close>

definition network_upstream :: "UpstreamKind \<Rightarrow> bool" where
  "network_upstream k \<longleftrightarrow> \<not> is_fakeip k \<and> (\<forall>a. k \<noteq> UpRcode a)"

definition upstreams_of :: "('f, 'r, 'l) DnsResolver \<Rightarrow> DnsUpstream set" where
  "upstreams_of res = insert (res_default res) (ran (res_upstreams res) \<union> cd_upstream ` set (res_rules res))"

definition has_store :: "(nat \<Rightarrow> FakeIpStore option) \<Rightarrow> DnsUpstream \<Rightarrow> bool" where
  "has_store stores u \<longleftrightarrow> (\<forall>n. up_kind u = UpFakeIp n \<longrightarrow> stores n \<noteq> None)"

text \<open>
  A response to \<open>msg\<close>: it carries the identifier of \<open>msg\<close>, or it is exactly what an upstream in \<open>us\<close> received
  from its server for this very message. The resolver does not compare the identifier a server sends
  (\<open>upstream.rs:607\<close> looks at the sender's address only), so for those nothing can be said of it.
\<close>

definition own_response :: "DnsUpstream set \<Rightarrow> dns_net \<Rightarrow> bytes \<Rightarrow> bytes \<Rightarrow> bool" where
  "own_response us net msg r \<longleftrightarrow> same_id r msg
     \<or> (\<exists>u \<in> us. network_upstream (up_kind u) \<and> (\<exists>stores stores'. query net u msg stores = Some (Inr r, stores')))"

lemma query_own:
  assumes "u \<in> us" "12 \<le> length msg" "query net u msg stores = Some (Inr r, stores')"
  shows "own_response us net msg r"
proof (cases "network_upstream (up_kind u)")
  case True
  then show ?thesis using assms unfolding own_response_def by blast
next
  case False
  then consider a where "up_kind u = UpRcode a" | n where "up_kind u = UpFakeIp n"
    by (cases "up_kind u") (auto simp: network_upstream_def)
  then have "same_id r msg"
  proof cases
    case (1 a)
    then have "r = rcode_reply msg a" using assms(3) by (simp add: query_def)
    then show ?thesis using make_same_id [OF assms(2)] by (cases a) simp_all
  next
    case (2 n)
    then show ?thesis using assms(2,3) reply_same_id by (auto simp: query_def split: option.splits)
  qed
  then show ?thesis by (simp add: own_response_def)
qed

text \<open>The only panic of a query is one inside an exchange with a DoT, DoH, DoQ or DoH3 server.\<close>

lemma query_panic: "has_store stores u \<Longrightarrow> query net u msg stores = None \<Longrightarrow> secure net u msg = None"
  by (auto simp: query_def has_store_def reply_total split: UpstreamKind.splits option.splits)

lemma store_answer_total: "store_answer lo env t q y resp c \<noteq> None"
  unfolding store_answer_def by (intro total_intros)

definition good_answer :: "DnsUpstream set \<Rightarrow> dns_net \<Rightarrow> bytes \<Rightarrow> ('f, 'r, 'l) answer option \<Rightarrow> bool" where
  "good_answer us net msg a \<longleftrightarrow>
     (case a of
        None \<Rightarrow> \<exists>u \<in> us. secure net u msg = None
      | Some x \<Rightarrow> \<forall>r. a_resp x = Inr r \<longrightarrow> own_response us net msg r)"

lemma good_answer_bind:
  "m \<noteq> None \<Longrightarrow> (\<And>x. m = Some x \<Longrightarrow> good_answer us net msg (f x)) \<Longrightarrow> good_answer us net msg (m \<bind> f)"
  by (cases m) simp_all

lemma good_answer_Some [simp]: "good_answer us net msg (Some x) \<longleftrightarrow> (\<forall>r. a_resp x = Inr r \<longrightarrow> own_response us net msg r)"
  by (simp add: good_answer_def)

lemma query_then_good:
  assumes "12 \<le> length msg" "has_store stores u" "u \<in> us"
    and "\<And>r s. own_response us net msg r \<Longrightarrow> good_answer us net msg (f (Inr r, s))" "\<And>e s. good_answer us net msg (f (Inl e, s))"
  shows "good_answer us net msg (query net u msg stores \<bind> f)"
proof (cases "query net u msg stores")
  case None
  then show ?thesis using query_panic [OF assms(2)] assms(3) by (auto simp: good_answer_def)
next
  case (Some x)
  obtain resp s where "x = (resp, s)" by (cases x)
  then show ?thesis
    using Some assms(4,5) query_own [OF assms(3,1)] by (cases resp) auto
qed

lemma store_then_good:
  "(\<And>c'. good_answer us net msg (f c')) \<Longrightarrow> good_answer us net msg (store_answer lo env t q y resp c \<bind> f)"
  by (intro good_answer_bind store_answer_total) blast

lemma patch_then_good:
  "12 \<le> length msg \<Longrightarrow> (\<And>r. own_response us net msg r \<Longrightarrow> good_answer us net msg (f r)) \<Longrightarrow>
     good_answer us net msg (patch_id resp msg \<bind> f)"
  using patch_id_same by (intro good_answer_bind patch_id_total) (auto simp: own_response_def)

lemma lead_query_good:
  assumes "12 \<le> length msg" "has_store (res_stores res) u" "u \<in> us"
  shows "good_answer us (env_net env) msg (lead_query lo env u msg q y c res)"
  unfolding lead_query_def by (intro query_then_good assms) (simp_all add: store_then_good)

lemma wait_query_good:
  assumes "12 \<le> length msg" "has_store (res_stores res) u" "u \<in> us"
  shows "good_answer us (env_net env) msg (wait_query lo env u msg q y c res)"
  unfolding wait_query_def
  by (cases "env_received env")
     (simp_all add: store_then_good patch_then_good [OF assms(1)] query_then_good [OF assms])

lemma handle_good:
  assumes len: "12 \<le> length msg"
    and st: "\<And>inbound q t. has_store (res_stores res) (fst (select_upstream cr (env_hash env) res inbound q t))"
    and us: "\<And>inbound q t. fst (select_upstream cr (env_hash env) res inbound q t) \<in> us"
  shows "good_answer us (env_net env) msg (handle lo cr env msg inbound_tag res)"
proof -
  note good = lead_query_good [OF len] wait_query_good [OF len] query_then_good [OF len] patch_then_good [OF len]
  have st': "has_store (res_stores res) u" "u \<in> us" if "select_upstream cr (env_hash env) res inbound q t = (u, d)" for inbound q t u d
    using st [of inbound q t] us [of inbound q t] that by simp_all
  show ?thesis
    unfolding handle_def Let_def
    by (intro good_answer_bind extract_qname_total extract_qtype_total)
       (auto simp: good st' split: prod.splits option.splits bool.splits CacheResult.splits InflightResult.splits)
qed

lemma select_upstream_of:
  "fst (select_upstream cr hash_order res inbound_tag qname qtype) \<in> upstreams_of res"
proof -
  have "first_real hash_order res \<in> upstreams_of res"
    by (fastforce simp: upstreams_of_def first_real_def set_values_in ran_def split: option.splits dest!: find_Some)
  then show ?thesis
    by (auto simp: select_upstream_def Let_def upstreams_of_def split: option.splits prod.splits dest!: find_Some)
qed

definition stores_ok :: "('f, 'r, 'l) DnsResolver \<Rightarrow> bool" where
  "stores_ok res \<longleftrightarrow> has_store (res_stores res) (res_default res)
     \<and> (\<forall>u \<in> ran (res_upstreams res). has_store (res_stores res) u)
     \<and> (\<forall>r \<in> set (res_rules res). has_store (res_stores res) (cd_upstream r))"

lemma first_real_stored: "stores_ok res \<Longrightarrow> has_store (res_stores res) (first_real hash_order res)"
  by (fastforce simp: stores_ok_def first_real_def set_values_in ran_def split: option.splits dest!: find_Some)

lemma select_upstream_stored:
  assumes "stores_ok res"
  shows "has_store (res_stores res) (fst (select_upstream cr hash_order res inbound_tag qname qtype))"
  using assms first_real_stored [OF assms]
  by (auto simp: select_upstream_def Let_def stores_ok_def split: option.splits prod.splits dest!: find_Some)

text \<open>
  C14. Every query of at least a header is answered, from the cache (whoever asked first), from a shared
  query in flight, from the fake-IP store, from a fixed answer, from the network, or as a failure. The
  answer carries the identifier of the query, or it is what one of the resolver's upstreams received from
  its server for this very query, whose identifier the code does not check. The only way to no answer is
  a panic inside the exchange with a DoT, DoH, DoQ or DoH3 server: the resolver itself has none.
\<close>

theorem every_query_answered_with_its_id:
  assumes "stores_ok res" "12 \<le> length msg"
  shows "case answer_query lo cr env msg inbound_tag res of
      Some (r, a) \<Rightarrow> same_id r msg
        \<or> (\<exists>u \<in> upstreams_of res. network_upstream (up_kind u)
             \<and> (\<exists>stores stores'. query (env_net env) u msg stores = Some (Inr r, stores')))
    | None \<Rightarrow> \<exists>u \<in> upstreams_of res. secure (env_net env) u msg = None"
proof -
  have g: "good_answer (upstreams_of res) (env_net env) msg (handle lo cr env msg inbound_tag res)"
    using assms by (intro handle_good select_upstream_stored select_upstream_of)
  show ?thesis
  proof (cases "handle lo cr env msg inbound_tag res")
    case None
    then show ?thesis using g by (simp add: answer_query_def good_answer_def)
  next
    case (Some a)
    then show ?thesis
      using g make_same_id(1) [OF assms(2)]
      by (cases "a_resp a") (auto simp: answer_query_def own_response_def)
  qed
qed

definition silent_net :: dns_net where
  "silent_net = \<lparr>shared_udp = (\<lambda>a m. Inl ''timeout''), fresh_udp = (\<lambda>a m. Inl ''timeout''), tcp_peer = (\<lambda>a m. Inl ''timeout''),
     detour_peer = (\<lambda>ob a m. Inl ''timeout''), secure = (\<lambda>u m. Some (Inl ''timeout''))\<rparr>"

definition demo_env :: "((string, nat \<times> string) alist, (bytes, nat \<times> bytes) alist, (string, string) alist, (string, bytes) alist) dns_env" where
  "demo_env = \<lparr>env_now = 0, env_unix = 0, env_rd = alist_redb, env_rtx = None, env_net = silent_net, env_channel = 0,
     env_received = None, env_hash = [''udp'', ''fake'']\<rparr>"

lemma silent_net_no_answer: "network_upstream (up_kind u) \<Longrightarrow> query silent_net u msg stores \<noteq> Some (Inr r, stores')"
  by (cases "up_kind u")
     (auto simp: query_def network_upstream_def silent_net_def udp_query_with_socket_def tcp_query_def tcp_query_via_detour_def
       split: option.splits)

lemma demo_resolver_stored: "stores_ok demo_resolver"
  by (auto simp: stores_ok_def has_store_def demo_resolver_def demo_fake_def demo_real_def ran_def split: if_splits)

theorem every_query_answered_with_its_id_witness:
  "\<exists>r a. answer_query list_lru sample_crates demo_env (build_query ''a.com'' 1) ''dns-in'' demo_resolver = Some (r, a)
     \<and> same_id r (build_query ''a.com'' 1)"
proof -
  have "12 \<le> length (build_query ''a.com'' 1)" by (simp add: build_query_def)
  from every_query_answered_with_its_id [OF demo_resolver_stored this, where lo = list_lru and cr = sample_crates and env = demo_env
      and inbound_tag = "''dns-in''"]
  show ?thesis
    using silent_net_no_answer by (auto simp: demo_env_def silent_net_def split: option.splits)
qed

section \<open>From a fake address back to the name\<close>

text \<open>The query goes to the upstream: no cache, or nothing cached and no query in flight.\<close>

definition asks_upstream ::
  "('l, CacheKey, CacheEntry) lru_ops \<Rightarrow> ('x, 'd, 's, 'g) dns_env \<Rightarrow> DnsUpstream \<Rightarrow> bool \<Rightarrow> string \<Rightarrow> u16 \<Rightarrow> ('f, 'r, 'l) DnsResolver \<Rightarrow> bool" where
  "asks_upstream lo env u disabled qname qtype res \<longleftrightarrow>
     (case res_cache res of
        None \<Rightarrow> True
      | Some cache \<Rightarrow> disabled \<or>
          (case cache_get lo (env_rd env) (env_rtx env) (env_now env) (env_unix env) (up_tag u) qname qtype cache of
             (Miss, c) \<Rightarrow> fst (try_lead_inflight (env_channel env) (up_tag u) qname qtype c) = Leader
           | _ \<Rightarrow> False))"

text \<open>No other fake-IP upstream has the address in its range.\<close>

definition owns_address :: "string list \<Rightarrow> ('f, 'r, 'l) DnsResolver \<Rightarrow> nat \<Rightarrow> IpAddr \<Rightarrow> bool" where
  "owns_address hash_order res n ip \<longleftrightarrow>
     (\<exists>u \<in> set (values_in hash_order (res_upstreams res)). up_kind u = UpFakeIp n)
     \<and> (\<forall>u \<in> set (values_in hash_order (res_upstreams res)). \<forall>m st. up_kind u = UpFakeIp m \<longrightarrow> m \<noteq> n \<longrightarrow>
          res_stores res m = Some st \<longrightarrow> \<not> fake_contains st ip)"

lemma lookup_in_owner:
  assumes "\<exists>u \<in> set us. up_kind u = UpFakeIp n"
    and "\<And>u m st. u \<in> set us \<Longrightarrow> up_kind u = UpFakeIp m \<Longrightarrow> m \<noteq> n \<Longrightarrow> stores m = Some st \<Longrightarrow> \<not> fake_contains st ip"
    and "stores n = Some st" "leads_back st ip d"
  shows "lookup_fakeip_in stores ip us = Some d"
  using assms(1,2)
proof (induction us)
  case (Cons u us)
  show ?case
  proof (cases "up_kind u = UpFakeIp n")
    case True
    then show ?thesis using assms(3,4) by (simp add: leads_back_def)
  next
    case False
    then have "lookup_fakeip_in stores ip us = Some d" using Cons by auto
    moreover have "\<not> fake_contains st' ip" if "up_kind u = UpFakeIp m" "stores m = Some st'" for m st'
      using that False Cons.prems(2) [of u m st'] by auto
    ultimately show ?thesis by (cases "up_kind u") (auto split: option.splits)
  qed
qed simp

lemma handle_asks:
  assumes q: "extract_qname msg = Some (Some d)" "extract_qtype msg = Some (Some t)"
    and sel: "select_upstream cr (env_hash env) res inbound_tag d t = (u, dis)"
    and asks: "asks_upstream lo env u dis d (word_of_nat t) res"
    and r: "query (env_net env) u msg (res_stores res) = Some (Inr r, stores')"
  shows "\<exists>a. handle lo cr env msg inbound_tag res = Some a \<and> a_resp a = Inr r
    \<and> res_stores (a_res a) = stores' \<and> res_upstreams (a_res a) = res_upstreams res"
proof -
  have lead: "\<exists>a. lead_query lo env u msg d (word_of_nat t) c res = Some a \<and> a_resp a = Inr r
      \<and> res_stores (a_res a) = stores' \<and> res_upstreams (a_res a) = res_upstreams res" for c
    using r store_answer_total [of lo env "up_tag u" d "word_of_nat t" r c] by (auto simp: lead_query_def)
  show ?thesis
    using asks r lead unfolding handle_def asks_upstream_def
    by (auto simp: q sel Let_def split: option.splits bool.splits prod.splits CacheResult.splits InflightResult.splits)
qed

lemma alloc_leads_back4:
  assumes inv: "pool_inv (view4 st)" "pool_inv (view6 st)" "inet4_net st = Some net"
  obtains ip where "fst (allocate_v4 d st) = Some ip" "leads_back (snd (allocate_v4 d st)) (V4 ip) d"
proof -
  obtain ip where ip: "fst (pool_alloc d (view4 st)) = Some ip" "owner (snd (pool_alloc d (view4 st))) ip = Some d"
    using pool_alloc_maps [of "view4 st" net d] inv by auto
  have "pool_inv (view4 (snd (allocate_v4 d st)))" "pool_inv (view6 (snd (allocate_v4 d st)))"
    using inv by (simp_all add: allocate_v4_pool pool_alloc_inv)
  moreover have "fake_lookup (snd (allocate_v4 d st)) (V4 ip) = Some d"
    using ip(2) by (simp add: allocate_v4_pool(2) [symmetric])
  ultimately show thesis using that ip(1) views_lead_back by (simp add: allocate_v4_pool(1))
qed

text \<open>
  C13. A fake address leads the dispatcher back to the name: when the resolver answers an A query for a
  name from a fake-IP upstream, the answer holds an address, and a connection to that address is turned
  back into a connection to the name before it is routed. The store is in a reachable state, and no
  other fake-IP upstream has the address in its range.
\<close>

theorem fake_answer_restored_by_dispatcher:
  assumes sel: "select_upstream cr (env_hash env) res inbound_tag d 1 = (u, dis)" "up_kind u = UpFakeIp n"
    and asks: "asks_upstream lo env u dis d 1 res"
    and st: "res_stores res n = Some st" "new_with_cache cfg cf None = Inr st0" "roomy (inet4_net st0)" "roomy (inet6_net st0)"
      "st = fold store_step before st0" "inet4_net st \<noteq> None"
    and d: "dns_name d" "\<not> is_excluded st d" "fake_strategy st \<noteq> 3"
    and own: "\<And>ip. fake_contains st ip \<Longrightarrow> owns_address (env_hash env) res n ip"
  shows "\<exists>a r ip. handle lo cr env (build_query d 1) inbound_tag res = Some a \<and> a_resp a = Inr r
    \<and> extract_first_ip r 1 = Some (Some (V4 ip))
    \<and> restore_fakeip \<lparr>lookup_fakeip = resolver_lookup_fakeip (env_hash env) (a_res a), resolve_domain = rd, resolve_domain_via = rv\<rparr>
        (Socket \<lparr>sa_ip = V4 ip, sa_port = port\<rparr>) = Domain d port"
proof -
  have inv: "pool_inv (view4 st)" "pool_inv (view6 st)"
    using st v4.run_inv v6.run_inv new_store_inv by simp_all
  obtain net where "inet4_net st = Some net" using st(6) by auto
  from alloc_leads_back4 [OF inv this, of d] obtain ip
    where ip: "fst (allocate_v4 d st) = Some ip" "leads_back (snd (allocate_v4 d st)) (V4 ip) d" .
  let ?r = "build_a_response (build_query d 1) ip" and ?stores = "(res_stores res)(n \<mapsto> snd (allocate_v4 d st))"
  have q: "query (env_net env) u (build_query d 1) (res_stores res) = Some (Inr ?r, ?stores)"
    using reply_query4 [OF d ip(1)] st(1) sel(2) by (simp add: query_def)
  have names: "extract_qname (build_query d 1) = Some (Some d)" "extract_qtype (build_query d 1) = Some (Some 1)"
    using extract_qname_query [OF d(1), of 1] extract_qtype_query [OF d(1), of 1] by simp_all
  obtain a where a: "handle lo cr env (build_query d 1) inbound_tag res = Some a" "a_resp a = Inr ?r"
      "res_stores (a_res a) = ?stores" "res_upstreams (a_res a) = res_upstreams res"
    using handle_asks [OF names sel(1) _ q] asks by auto
  have "inet4_net (snd (allocate_v4 d st)) = inet4_net st"
    using pool_alloc_rng [of d "view4 st"] by (simp add: allocate_v4_pool(2) [symmetric])
  then have "owns_address (env_hash env) res n (V4 ip)" using own ip(2) by (simp add: leads_back_def)
  then have o: "\<exists>u \<in> set (values_in (env_hash env) (res_upstreams res)). up_kind u = UpFakeIp n"
    "\<And>u m st. u \<in> set (values_in (env_hash env) (res_upstreams res)) \<Longrightarrow> up_kind u = UpFakeIp m \<Longrightarrow> m \<noteq> n \<Longrightarrow>
      ?stores m = Some st \<Longrightarrow> \<not> fake_contains st (V4 ip)"
    unfolding owns_address_def by (blast, metis fun_upd_apply)
  have "resolver_lookup_fakeip (env_hash env) (a_res a) (V4 ip) = Some d"
    unfolding resolver_lookup_fakeip_def a(3,4)
    by (rule lookup_in_owner [OF o(1) _ _ ip(2)], erule (3) o(2)) simp
  then show ?thesis using a a_response_ip [OF d(1), of 1 ip] by auto
qed

theorem fake_answer_restored_by_dispatcher_witness:
  "\<exists>a r ip. handle list_lru sample_crates demo_env (build_query ''a.com'' 1) ''dns-in'' demo_resolver = Some a \<and> a_resp a = Inr r
    \<and> extract_first_ip r 1 = Some (Some (V4 ip))
    \<and> restore_fakeip \<lparr>lookup_fakeip = resolver_lookup_fakeip (env_hash demo_env) (a_res a),
          resolve_domain = (\<lambda>h. Inl ''none''), resolve_domain_via = (\<lambda>h s. Inl ''none'')\<rparr>
        (Socket \<lparr>sa_ip = V4 ip, sa_port = 443\<rparr>) = Domain ''a.com'' 443"
proof (rule fake_answer_restored_by_dispatcher)
  show "select_upstream sample_crates (env_hash demo_env) demo_resolver ''dns-in'' ''a.com'' 1 = (demo_fake, False)"
    by (simp add: select_upstream_def demo_resolver_def)
  show "up_kind demo_fake = UpFakeIp 0" by (simp add: demo_fake_def)
  show "asks_upstream list_lru demo_env demo_fake False ''a.com'' 1 demo_resolver"
    by (simp add: asks_upstream_def demo_resolver_def)
  show "res_stores demo_resolver 0 = Some demo_store" by (simp add: demo_resolver_def)
  show "demo_store = fold store_step [] demo_store" by simp
  show "dns_name ''a.com''" by code_simp
  show "\<not> is_excluded demo_store ''a.com''" by code_simp
  show "fake_strategy demo_store \<noteq> 3" by (simp add: demo_store_def initial_store_def)
  show "owns_address (env_hash demo_env) demo_resolver 0 ip" for ip
    by (auto simp: owns_address_def demo_env_def demo_resolver_def demo_real_def demo_fake_def values_in_def)
qed (use demo_store demo_store_nets in simp_all)

end
