(* ===== verification/Tun_Nat.thy ===== *)
theory Tun_Nat
  imports Rust_Std
begin

text \<open>
  The TCP address translation table of the TUN inbound (\<open>TcpNat\<close> of \<open>src/inbound/tun.rs\<close>): two hash
  maps, from a client's source address to a port of the pool and from a port to the session, and the
  round-robin cursor of the pool. \<open>Instant::now()\<close> is the argument \<open>now\<close>. The iteration order of a hash map
  is unspecified: an operation that iterates takes the keys in the order the map yields them.
\<close>

section \<open>Table and operations\<close>

definition NAT_PORT_START :: u16 where "NAT_PORT_START = 10000"
definition NAT_PORT_END :: u16 where "NAT_PORT_END = 60000"

record TcpNatEntry =
  nat_source :: SocketAddr
  nat_destination :: SocketAddr
  last_active :: nat

record TcpNat =
  port_index :: u16
  addr_map :: "SocketAddr \<Rightarrow> u16 option"
  port_map :: "u16 \<Rightarrow> TcpNatEntry option"

definition TcpNat_new :: TcpNat where
  "TcpNat_new = \<lparr>port_index = NAT_PORT_START, addr_map = Map.empty, port_map = Map.empty\<rparr>"

definition do_insert :: "nat \<Rightarrow> u16 \<Rightarrow> SocketAddr \<Rightarrow> SocketAddr \<Rightarrow> TcpNat \<Rightarrow> TcpNat" where
  "do_insert now port src dst t =
     t\<lparr>addr_map := (addr_map t)(src \<mapsto> port),
       port_map := (port_map t)(port \<mapsto> \<lparr>nat_source = src, nat_destination = dst, last_active = now\<rparr>)\<rparr>"

text \<open>Setting the time stamp of the session of a port, when there is one.\<close>

definition touch :: "nat \<Rightarrow> u16 \<Rightarrow> TcpNat \<Rightarrow> TcpNat" where
  "touch now port t =
     (case port_map t port of
        None \<Rightarrow> t
      | Some e \<Rightarrow> t\<lparr>port_map := (port_map t)(port \<mapsto> e\<lparr>last_active := now\<rparr>)\<rparr>)"

definition next_port :: "u16 \<Rightarrow> u16" where
  "next_port i = (if NAT_PORT_END \<le> i then NAT_PORT_START else i + 1)"

text \<open>The search for a free port: \<open>Inr\<close> the port and the table with the new session, \<open>Inl\<close> when the cursor is
  back where it started. The recursion is the loop of the source, and not returning would be \<open>None\<close>.\<close>

partial_function (option) alloc_loop ::
  "nat \<Rightarrow> SocketAddr \<Rightarrow> SocketAddr \<Rightarrow> u16 \<Rightarrow> TcpNat \<Rightarrow> (TcpNat + u16 \<times> TcpNat) option" where
  "alloc_loop now src dst start t =
     (let port = port_index t; t = t\<lparr>port_index := next_port (port_index t)\<rparr>
      in if port_map t port = None then Some (Inr (port, do_insert now port src dst t))
         else if port_index t = start then Some (Inl t)
         else alloc_loop now src dst start t)"

declare alloc_loop.simps [code]

definition age_key :: "TcpNat \<Rightarrow> u16 \<Rightarrow> nat" where
  "age_key t p = (case port_map t p of Some e \<Rightarrow> last_active e | None \<Rightarrow> 0)"

definition evict :: "u16 \<Rightarrow> TcpNat \<Rightarrow> TcpNat" where
  "evict port t =
     (case port_map t port of
        None \<Rightarrow> t
      | Some old \<Rightarrow> t\<lparr>port_map := (port_map t)(port := None), addr_map := (addr_map t)(nat_source old := None)\<rparr>)"

definition lookup_or_insert :: "u16 list \<Rightarrow> nat \<Rightarrow> SocketAddr \<Rightarrow> SocketAddr \<Rightarrow> TcpNat \<Rightarrow> (u16 \<times> TcpNat) option" where
  "lookup_or_insert keys now src dst t =
     (case addr_map t src of
        Some port \<Rightarrow> Some (port, touch now port t)
      | None \<Rightarrow>
          (case alloc_loop now src dst (port_index t) t of
             None \<Rightarrow> None
           | Some (Inr r) \<Rightarrow> Some r
           | Some (Inl t) \<Rightarrow>
               (let port = (case min_by_key (age_key t) keys of Some p \<Rightarrow> p | None \<Rightarrow> NAT_PORT_START)
                in Some (port, do_insert now port src dst (evict port t)))))"

definition lookup_back :: "nat \<Rightarrow> u16 \<Rightarrow> TcpNat \<Rightarrow> (SocketAddr \<times> SocketAddr) option \<times> TcpNat" where
  "lookup_back now port t =
     (map_option (\<lambda>e. (nat_source e, nat_destination e)) (port_map t port), touch now port t)"

definition expired :: "nat \<Rightarrow> nat \<Rightarrow> TcpNatEntry \<Rightarrow> bool" where
  "expired now timeout e \<longleftrightarrow> timeout < now - last_active e"

definition nat_gc :: "u16 list \<Rightarrow> nat \<Rightarrow> nat \<Rightarrow> TcpNat \<Rightarrow> TcpNat" where
  "nat_gc keys now timeout t =
     fold evict (filter (\<lambda>p. case port_map t p of Some e \<Rightarrow> expired now timeout e | None \<Rightarrow> False) keys) t"

section \<open>Invariant\<close>

definition in_pool :: "u16 \<Rightarrow> bool" where
  "in_pool p \<longleftrightarrow> NAT_PORT_START \<le> p \<and> p \<le> NAT_PORT_END"

definition nat_inv :: "TcpNat \<Rightarrow> bool" where
  "nat_inv t \<longleftrightarrow>
     in_pool (port_index t)
     \<and> (\<forall>p e. port_map t p = Some e \<longrightarrow> in_pool p \<and> addr_map t (nat_source e) = Some p)
     \<and> (\<forall>a p. addr_map t a = Some p \<longrightarrow> (\<exists>e. port_map t p = Some e \<and> nat_source e = a))"

lemma nat_inv_port: "nat_inv t \<Longrightarrow> port_map t p = Some e \<Longrightarrow> in_pool p \<and> addr_map t (nat_source e) = Some p"
  by (simp add: nat_inv_def)

lemma nat_inv_addr: "nat_inv t \<Longrightarrow> addr_map t a = Some p \<Longrightarrow> \<exists>e. port_map t p = Some e \<and> nat_source e = a"
  by (simp add: nat_inv_def)

lemma in_pool_unat: "in_pool p \<longleftrightarrow> 10000 \<le> unat p \<and> unat p \<le> 60000"
  by (simp add: in_pool_def NAT_PORT_START_def NAT_PORT_END_def word_le_nat_alt)

lemma unat_next_port:
  assumes "in_pool i"
  shows "unat (next_port i) = (if unat i = 60000 then 10000 else unat i + 1)"
proof (cases "unat i = 60000")
  case True
  then show ?thesis by (simp add: next_port_def NAT_PORT_START_def NAT_PORT_END_def word_le_nat_alt)
next
  case False
  with assms have "unat i + 1 < 2 ^ LENGTH(16)" "\<not> NAT_PORT_END \<le> i"
    by (auto simp: in_pool_unat NAT_PORT_END_def word_le_nat_alt)
  then show ?thesis using False by (simp add: next_port_def unat_word_ariths)
qed

lemma next_port_in_pool: "in_pool i \<Longrightarrow> in_pool (next_port i)"
  by (auto simp: in_pool_unat unat_next_port)

lemma nat_inv_new: "nat_inv TcpNat_new"
  by (simp add: nat_inv_def TcpNat_new_def in_pool_unat NAT_PORT_START_def)

lemma touch_maps [simp]:
  "addr_map (touch now p t) = addr_map t" "port_index (touch now p t) = port_index t"
  by (auto simp: touch_def split: option.split)

lemma touch_port:
  "port_map (touch now p t) q = (if q = p then map_option (last_active_update (\<lambda>_. now)) (port_map t p) else port_map t q)"
  by (auto simp: touch_def split: option.split)

lemma nat_inv_touch:
  assumes "nat_inv t"
  shows "nat_inv (touch now p t)"
proof -
  have "\<exists>e. port_map (touch now p t) q = Some e \<and> nat_source e = a" if "addr_map t a = Some q" for a q
    using nat_inv_addr [OF assms that] by (auto simp: touch_port)
  moreover have "in_pool q \<and> addr_map t (nat_source e) = Some q" if "port_map (touch now p t) q = Some e" for q e
    using that nat_inv_port [OF assms, of q] by (auto simp: touch_port split: if_split_asm)
  ultimately show ?thesis using assms by (auto simp: nat_inv_def)
qed

lemma nat_inv_evict:
  assumes "nat_inv t"
  shows "nat_inv (evict p t)"
proof (cases "port_map t p")
  case None
  then show ?thesis using assms by (simp add: evict_def)
next
  case (Some old)
  have "\<exists>e. port_map (evict p t) q = Some e \<and> nat_source e = a" if "addr_map (evict p t) a = Some q" for a q
  proof -
    have a: "a \<noteq> nat_source old" "addr_map t a = Some q" using that Some by (auto simp: evict_def split: if_split_asm)
    then obtain e where "port_map t q = Some e" "nat_source e = a" using nat_inv_addr [OF assms] by blast
    with a Some show ?thesis by (auto simp: evict_def)
  qed
  moreover have "in_pool q \<and> addr_map (evict p t) (nat_source e) = Some q" if "port_map (evict p t) q = Some e" for q e
    using that Some nat_inv_port [OF assms, of q e] nat_inv_port [OF assms Some]
    by (auto simp: evict_def split: if_split_asm)
  ultimately show ?thesis using assms Some by (auto simp: nat_inv_def evict_def)
qed

lemma nat_inv_index: "nat_inv t \<Longrightarrow> in_pool i \<Longrightarrow> nat_inv (t\<lparr>port_index := i\<rparr>)"
  by (simp add: nat_inv_def)

lemma nat_inv_insert:
  assumes "nat_inv t" "in_pool p" "port_map t p = None" "addr_map t src = None"
  shows "nat_inv (do_insert now p src dst t)"
  using assms unfolding nat_inv_def do_insert_def by (fastforce split: if_split_asm)

section \<open>The search ends\<close>

text \<open>How many ports the cursor \<open>i\<close> still passes before it is at \<open>start\<close>, and how far \<open>p\<close> is from \<open>i\<close>.\<close>

definition ports_left :: "u16 \<Rightarrow> u16 \<Rightarrow> nat" where
  "ports_left start i = (if unat i < unat start then unat start - unat i else 50001 - (unat i - unat start))"

definition ahead :: "u16 \<Rightarrow> u16 \<Rightarrow> nat" where
  "ahead i p = (if unat i \<le> unat p then unat p - unat i else unat p + 50001 - unat i)"

lemma ports_left_next:
  assumes "in_pool start" "in_pool i" "next_port i \<noteq> start"
  shows "ports_left start (next_port i) = ports_left start i - 1" "1 < ports_left start i"
  using assms by (auto simp: ports_left_def unat_next_port in_pool_unat word_unat_eq_iff split: if_splits)

lemma ahead_next:
  assumes "in_pool i" "in_pool p" "p \<noteq> i"
  shows "ahead (next_port i) p = ahead i p - 1" "0 < ahead i p"
  using assms by (auto simp: ahead_def unat_next_port in_pool_unat word_unat_eq_iff split: if_splits)

lemma ports_left_last:
  "in_pool start \<Longrightarrow> in_pool i \<Longrightarrow> next_port i = start \<Longrightarrow> ports_left start i = 1"
  by (auto simp: ports_left_def unat_next_port in_pool_unat split: if_splits)

lemma ahead_0: "in_pool i \<Longrightarrow> in_pool p \<Longrightarrow> ahead i p = 0 \<Longrightarrow> p = i"
  by (auto simp: ahead_def in_pool_unat word_unat_eq_iff split: if_splits)

lemma alloc_loop_cases:
  assumes "in_pool start" "in_pool (port_index t)"
  shows "(\<exists>p i. alloc_loop now src dst start t = Some (Inr (p, do_insert now p src dst (t\<lparr>port_index := i\<rparr>)))
                \<and> in_pool p \<and> in_pool i \<and> port_map t p = None)
       \<or> (alloc_loop now src dst start t = Some (Inl (t\<lparr>port_index := start\<rparr>))
          \<and> (\<forall>p. in_pool p \<and> ahead (port_index t) p < ports_left start (port_index t) \<longrightarrow> port_map t p \<noteq> None))"
  using assms(2)
proof (induction "ports_left start (port_index t)" arbitrary: t rule: less_induct)
  case less
  let ?i = "port_index t" and ?t = "t\<lparr>port_index := next_port (port_index t)\<rparr>"
  note unfold = alloc_loop.simps [of now src dst start t, unfolded Let_def]
  have i: "in_pool (port_index ?t)" using less.prems by (simp add: next_port_in_pool)
  consider (free) "port_map t ?i = None" | (last) "port_map t ?i \<noteq> None" "next_port ?i = start"
    | (go) "port_map t ?i \<noteq> None" "next_port ?i \<noteq> start" by blast
  then show ?case
  proof cases
    case free
    then show ?thesis using less.prems i by (auto simp: unfold)
  next
    case last
    then have "port_map t p \<noteq> None" if "in_pool p" "ahead ?i p < ports_left start ?i" for p
      using ports_left_last [OF assms(1) less.prems] ahead_0 [of ?i p] that less.prems by fastforce
    with last show ?thesis by (auto simp: unfold)
  next
    case go
    then have eq: "alloc_loop now src dst start t = alloc_loop now src dst start ?t" by (auto simp: unfold)
    note left = ports_left_next [OF assms(1) less.prems go(2)]
    have used: "port_map t p \<noteq> None"
      if "in_pool p" "ahead ?i p < ports_left start ?i"
        and all: "\<And>q. in_pool q \<Longrightarrow> ahead (next_port ?i) q < ports_left start (next_port ?i) \<Longrightarrow> port_map t q \<noteq> None" for p
      using that(1,2) all [of p] left ahead_next [OF less.prems that(1)] go(1) by (cases "p = ?i") auto
    show ?thesis using less.hyps [of ?t] left i used unfolding eq by auto
  qed
qed

lemma full_round: "in_pool i \<Longrightarrow> in_pool p \<Longrightarrow> ahead i p < ports_left i i"
  by (auto simp: ahead_def ports_left_def in_pool_unat)

section \<open>Allocation\<close>

text \<open>The cases of an allocation: a known client keeps its port; a new client gets a free port; with no
  port free it gets the port of the session that was idle longest.\<close>

lemma lookup_or_insert_cases:
  assumes inv: "nat_inv t" and keys: "set keys = dom (port_map t)"
  obtains
    (known) p e where "addr_map t src = Some p" "port_map t p = Some e" "nat_source e = src"
      "lookup_or_insert keys now src dst t = Some (p, touch now p t)"
  | (free) p i where "addr_map t src = None" "port_map t p = None" "in_pool p" "in_pool i"
      "lookup_or_insert keys now src dst t = Some (p, do_insert now p src dst (t\<lparr>port_index := i\<rparr>))"
  | (full) p e where "addr_map t src = None" "port_map t p = Some e" "\<forall>q. in_pool q \<longrightarrow> port_map t q \<noteq> None"
      "\<forall>q e'. port_map t q = Some e' \<longrightarrow> last_active e \<le> last_active e'"
      "lookup_or_insert keys now src dst t = Some (p, do_insert now p src dst (evict p t))"
proof (cases "addr_map t src")
  case (Some p)
  with nat_inv_addr [OF inv this] known show thesis by (auto simp: lookup_or_insert_def)
next
  case None
  have i: "in_pool (port_index t)" using inv by (simp add: nat_inv_def)
  from alloc_loop_cases [OF i i, of now src dst] show thesis
  proof (elim disjE exE conjE)
    fix p j
    assume "alloc_loop now src dst (port_index t) t = Some (Inr (p, do_insert now p src dst (t\<lparr>port_index := j\<rparr>)))"
      "in_pool p" "in_pool j" "port_map t p = None"
    with None free show thesis by (simp add: lookup_or_insert_def)
  next
    assume stop: "alloc_loop now src dst (port_index t) t = Some (Inl (t\<lparr>port_index := port_index t\<rparr>))"
      and used: "\<forall>p. in_pool p \<and> ahead (port_index t) p < ports_left (port_index t) (port_index t) \<longrightarrow> port_map t p \<noteq> None"
    then have used: "\<forall>q. in_pool q \<longrightarrow> port_map t q \<noteq> None" using full_round [OF i] by blast
    with i keys have "keys \<noteq> []" by (auto simp: dom_def)
    from min_by_key_Some [OF this, of "age_key t"] keys obtain p
      where p: "p \<in> dom (port_map t)" "min_by_key (age_key t) keys = Some p"
        "\<forall>q \<in> dom (port_map t). age_key t p \<le> age_key t q" by auto
    then obtain e where "port_map t p = Some e" by auto
    moreover from this p(3) have "last_active e \<le> last_active e'" if "port_map t q = Some e'" for q e'
      using that by (force simp: age_key_def)
    ultimately show thesis using full None stop used p(2) by (simp add: lookup_or_insert_def)
  qed
qed

lemma evict_port: "port_map (evict p t) = (port_map t)(p := None)"
  by (auto simp: evict_def split: option.split)

lemma evict_index [simp]: "port_index (evict p t) = port_index t"
  by (simp add: evict_def split: option.split)

lemma evict_addr_None: "addr_map t a = None \<Longrightarrow> addr_map (evict p t) a = None"
  by (simp add: evict_def split: option.split)

lemma lookup_or_insert_inv:
  assumes "nat_inv t" "set keys = dom (port_map t)" "lookup_or_insert keys now src dst t = Some (p, t')"
  shows "nat_inv t'"
  using assms(1,2)
proof (cases rule: lookup_or_insert_cases [where now = now and src = src and dst = dst])
  case known
  then show ?thesis using assms by (simp add: nat_inv_touch)
next
  case (free q i)
  then show ?thesis using assms nat_inv_insert [OF nat_inv_index [OF assms(1)]] by simp
next
  case (full q e)
  then show ?thesis
    using assms nat_inv_insert [OF nat_inv_evict [OF assms(1)], of q q src now dst] nat_inv_port [OF assms(1) full(2)]
    by (simp add: evict_port evict_addr_None)
qed

lemma nat_inv_gc: "nat_inv t \<Longrightarrow> nat_inv (nat_gc keys now timeout t)"
proof -
  have "nat_inv (fold evict ps t)" if "nat_inv t" for ps using that by (induction ps arbitrary: t) (simp_all add: nat_inv_evict)
  then show "nat_inv t \<Longrightarrow> ?thesis" by (simp add: nat_gc_def)
qed

lemma fold_evict_port: "port_map (fold evict ps t) q = (if q \<in> set ps then None else port_map t q)"
  by (induction ps arbitrary: t) (auto simp: evict_port)

section \<open>Histories of the table\<close>

inductive nat_step :: "TcpNat \<Rightarrow> TcpNat \<Rightarrow> bool" where
  alloc: "set keys = dom (port_map t) \<Longrightarrow> lookup_or_insert keys now src dst t = Some (p, t') \<Longrightarrow> nat_step t t'"
| reply: "nat_step t (snd (lookup_back now p t))"
| collect: "set keys = dom (port_map t) \<Longrightarrow> nat_step t (nat_gc keys now timeout t)"

inductive nat_reachable :: "TcpNat \<Rightarrow> bool" where
  start: "nat_reachable TcpNat_new"
| step: "nat_reachable t \<Longrightarrow> nat_step t t' \<Longrightarrow> nat_reachable t'"

lemma nat_step_inv: "nat_step t t' \<Longrightarrow> nat_inv t \<Longrightarrow> nat_inv t'"
  by (induction rule: nat_step.induct)
    (auto simp: lookup_or_insert_inv nat_inv_gc lookup_back_def nat_inv_touch)

lemma nat_reachable_inv: "nat_reachable t \<Longrightarrow> nat_inv t"
  by (induction rule: nat_reachable.induct) (auto simp: nat_inv_new nat_step_inv)

lemma lookup_back_insert:
  "fst (lookup_back n p (do_insert now p src dst t)) = Some (src, dst)"
  by (simp add: lookup_back_def do_insert_def)

lemma lookup_back_touch: "fst (lookup_back n p (touch now q t)) = fst (lookup_back n p t)"
  by (cases "port_map t p") (auto simp: lookup_back_def touch_port)

text \<open>A port given to a client leads back to that client; to the destination of the packet for a new client,
  to the first destination for one that has a session.\<close>

lemma lookup_or_insert_back:
  assumes "nat_inv t" "set keys = dom (port_map t)"
  obtains p t' where "lookup_or_insert keys now src dst t = Some (p, t')" "in_pool p" "nat_inv t'"
    "fst (lookup_back n p t') = Some (src, case addr_map t src of None \<Rightarrow> dst | Some q \<Rightarrow> nat_destination (the (port_map t q)))"
  using assms
proof (cases rule: lookup_or_insert_cases [where now = now and src = src and dst = dst])
  case (known p e)
  with that [of p "touch now p t"] assms show thesis
    by (simp add: nat_inv_port [OF assms(1)] lookup_back_touch nat_inv_touch) (simp add: lookup_back_def)
next
  case (free p i)
  with that [OF free(5)] lookup_or_insert_inv [OF assms free(5)] show thesis by (simp add: lookup_back_insert)
next
  case (full p e)
  with that [OF full(5)] lookup_or_insert_inv [OF assms full(5)] show thesis
    by (simp add: lookup_back_insert nat_inv_port [OF assms(1)])
qed

lemma lookup_or_insert_others:
  assumes "nat_inv t" "set keys = dom (port_map t)" "lookup_or_insert keys now src dst t = Some (p, t')"
  shows "(\<forall>q. q \<noteq> p \<longrightarrow> port_map t' q = port_map t q)
    \<and> (\<forall>e. port_map t p = Some e \<and> nat_source e \<noteq> src \<longrightarrow>
          (\<forall>q. in_pool q \<longrightarrow> (\<exists>e'. port_map t q = Some e' \<and> last_active e \<le> last_active e')))"
  using assms(1,2)
proof (cases rule: lookup_or_insert_cases [where now = now and src = src and dst = dst])
  case (full q e)
  then show ?thesis using assms(3) by (auto simp: do_insert_def evict_port)
qed (use assms(3) in \<open>auto simp: do_insert_def touch_port\<close>)

section \<open>Properties\<close>

text \<open>
  After any sequence of allocations, reverse lookups and collections, starting from the empty table, the
  two maps of the address translation table are inverse to each other, every port in use and the cursor lie
  in the pool 10000..60000.
\<close>

theorem nat_tables_inverse:
  assumes "nat_reachable t"
  shows "in_pool (port_index t)
    \<and> (\<forall>a p. addr_map t a = Some p \<longleftrightarrow> (\<exists>e. port_map t p = Some e \<and> nat_source e = a))
    \<and> (\<forall>p. port_map t p \<noteq> None \<longrightarrow> in_pool p)"
  using nat_reachable_inv [OF assms] by (auto simp: nat_inv_def)

definition demo_client :: SocketAddr where "demo_client = \<lparr>sa_ip = V4 0x0A000002, sa_port = 5000\<rparr>"
definition demo_server :: SocketAddr where "demo_server = \<lparr>sa_ip = V4 0x01010101, sa_port = 443\<rparr>"

definition demo_nat :: TcpNat where
  "demo_nat = do_insert 7 10000 demo_client demo_server (TcpNat_new\<lparr>port_index := 10001\<rparr>)"

lemma demo_nat_alloc: "lookup_or_insert [] 7 demo_client demo_server TcpNat_new = Some (10000, demo_nat)"
proof -
  have "alloc_loop 7 demo_client demo_server 10000 TcpNat_new = Some (Inr (10000, demo_nat))"
    by (subst alloc_loop.simps)
      (simp add: Let_def TcpNat_new_def demo_nat_def next_port_def NAT_PORT_START_def NAT_PORT_END_def)
  then show ?thesis by (simp add: lookup_or_insert_def TcpNat_new_def NAT_PORT_START_def)
qed

lemma demo_nat_reachable: "nat_reachable demo_nat"
  using nat_reachable.step [OF nat_reachable.start nat_step.alloc [OF _ demo_nat_alloc]] by (simp add: TcpNat_new_def)

theorem nat_tables_inverse_witness:
  "nat_reachable demo_nat \<and> addr_map demo_nat demo_client = Some 10000 \<and> in_pool 10000"
  using nat_tables_inverse [OF demo_nat_reachable] demo_nat_reachable
  by (auto simp: demo_nat_def do_insert_def)

text \<open>
  In every reachable table an allocation ends and gives a port of the pool. The port leads back to the
  client and to the destination of its packet, or, when the client's source address already has a session, to
  the destination of that session. No other session is touched, and a session of another client loses its
  port only when every port of the pool is in use and no session has been idle for longer.
\<close>

theorem nat_allocation:
  assumes "nat_reachable t" and "set keys = dom (port_map t)"
  shows "\<exists>p t'. lookup_or_insert keys now src dst t = Some (p, t') \<and> in_pool p
    \<and> fst (lookup_back n p t') = Some (src, case addr_map t src of None \<Rightarrow> dst | Some q \<Rightarrow> nat_destination (the (port_map t q)))
    \<and> (\<forall>q. q \<noteq> p \<longrightarrow> port_map t' q = port_map t q)
    \<and> (\<forall>e. port_map t p = Some e \<and> nat_source e \<noteq> src \<longrightarrow>
          (\<forall>q. in_pool q \<longrightarrow> (\<exists>e'. port_map t q = Some e' \<and> last_active e \<le> last_active e')))"
proof -
  note inv = nat_reachable_inv [OF assms(1)]
  obtain p t' where "lookup_or_insert keys now src dst t = Some (p, t')" "in_pool p"
    "fst (lookup_back n p t') = Some (src, case addr_map t src of None \<Rightarrow> dst | Some q \<Rightarrow> nat_destination (the (port_map t q)))"
    using lookup_or_insert_back [OF inv assms(2), of now src dst n] .
  with lookup_or_insert_others [OF inv assms(2)] show ?thesis by blast
qed

theorem nat_allocation_witness:
  "\<exists>p t'. lookup_or_insert [10000] 9 demo_server demo_client demo_nat = Some (p, t')
     \<and> fst (lookup_back 10 p t') = Some (demo_server, demo_client)"
proof -
  have "set [10000] = dom (port_map demo_nat)" "addr_map demo_nat demo_server = None"
    by (simp_all add: demo_nat_def do_insert_def TcpNat_new_def demo_client_def demo_server_def)
  with nat_allocation [OF demo_nat_reachable, of "[10000]" 9 demo_server demo_client 10] show ?thesis by auto
qed

text \<open>A client that reuses its source port for another destination is sent to the old one for as long as
  the session lives.\<close>

lemma reused_source_port_keeps_destination:
  assumes "nat_reachable t" "set keys = dom (port_map t)" "addr_map t src = Some q" "port_map t q = Some e"
    "lookup_or_insert keys now src dst t = Some (p, t')"
  shows "fst (lookup_back n p t') = Some (src, nat_destination e)"
proof -
  obtain p2 t2 where "lookup_or_insert keys now src dst t = Some (p2, t2)"
    "fst (lookup_back n p2 t2) = Some (src, case addr_map t src of None \<Rightarrow> dst | Some q \<Rightarrow> nat_destination (the (port_map t q)))"
    using lookup_or_insert_back [OF nat_reachable_inv [OF assms(1)] assms(2), of now src dst n] .
  then show ?thesis using assms(3-5) by simp
qed

end
