(* ===== verification/Tun_Checksum.thy ===== *)
theory Tun_Checksum
  imports Byte_Access
begin

text \<open>
  The Internet checksums of the TUN inbound (\<open>src/inbound/tun.rs\<close>): the header checksum of IPv4 and the
  checksums of TCP, UDP and ICMPv6 over a pseudo header, computed in 32-bit words as the source does, and the
  in-place updates of a packet. A checksum that was stored in its zeroed field verifies at the receiver.
\<close>

section \<open>Writing into a packet\<close>

definition set_at :: "nat \<Rightarrow> u8 \<Rightarrow> bytes \<Rightarrow> bytes option" where
  "set_at i b p = (if i < length p then Some (p[i := b]) else None)"

text \<open>\<open>copy_from_slice\<close> into a range of the length of the source slice.\<close>

definition copy_at :: "nat \<Rightarrow> bytes \<Rightarrow> bytes \<Rightarrow> bytes option" where
  "copy_at i v p = (if i + length v \<le> length p then Some (take i p @ v @ drop (i + length v) p) else None)"

text \<open>The two assignments that store a 16-bit checksum.\<close>

definition store16 :: "nat \<Rightarrow> u16 \<Rightarrow> bytes \<Rightarrow> bytes option" where
  "store16 i w p = do { p \<leftarrow> set_at i (ucast (drop_bit 8 w)) p; set_at (i + 1) (ucast (w AND 0xff)) p }"

section \<open>Checksums\<close>

fun sum_words :: "bytes \<Rightarrow> u32 \<Rightarrow> u32" where
  "sum_words (a # b # r) s = sum_words r (s + (push_bit 8 (ucast a) OR ucast b))"
| "sum_words [a] s = s + push_bit 8 (ucast a)"
| "sum_words [] s = s"

lemma unat_low16: "unat (s AND 0xffff :: u32) = unat s mod 65536"
proof -
  have "s AND 0xffff = take_bit 16 s" by (simp add: take_bit_eq_mask mask_eq_exp_minus_1)
  then show ?thesis by (simp add: take_bit_eq_mod unat_mod_distrib)
qed

lemma fold16_less:
  fixes s :: u32
  assumes "drop_bit 16 s \<noteq> 0"
  shows "unat ((s AND 0xffff) + drop_bit 16 s) = unat s mod 65536 + unat s div 65536"
    and "unat s mod 65536 + unat s div 65536 < unat s"
proof -
  have hi: "unat (drop_bit 16 s) = unat s div 65536" by (simp add: drop_bit_eq_div unat_div_distrib)
  note lo = unat_low16 [of s]
  have "unat s < 65536 * 65536" using unsigned_less [of s] by simp
  then have "unat s div 65536 < 65536" by (simp add: less_mult_imp_div_less)
  moreover have "unat s mod 65536 < 65536" by simp
  ultimately show "unat ((s AND 0xffff) + drop_bit 16 s) = unat s mod 65536 + unat s div 65536"
    unfolding unat_word_ariths hi lo by simp
  from assms hi have "unat s div 65536 \<noteq> 0" by (metis unat_eq_zero)
  then show "unat s mod 65536 + unat s div 65536 < unat s"
    using div_mult_mod_eq [of "unat s" 65536] by linarith
qed

function fold16 :: "u32 \<Rightarrow> u32" where
  "fold16 s = (if drop_bit 16 s \<noteq> 0 then fold16 ((s AND 0xffff) + drop_bit 16 s) else s)"
  by auto
termination
  by (relation "measure unat") (simp_all add: fold16_less)

declare fold16.simps [simp del]

definition internet_checksum :: "bytes \<Rightarrow> u16" where
  "internet_checksum data = NOT (ucast (fold16 (sum_words data 0)))"

definition pseudo_v4 :: "bytes \<Rightarrow> bytes \<Rightarrow> u8 \<Rightarrow> u16 \<Rightarrow> bytes" where
  "pseudo_v4 src dst proto len = src @ dst @ [0, proto, ucast (drop_bit 8 len), ucast (len AND 0xff)]"

definition checksum_with_pseudo_v4 :: "bytes \<Rightarrow> bytes \<Rightarrow> u8 \<Rightarrow> bytes \<Rightarrow> u16" where
  "checksum_with_pseudo_v4 src dst proto data =
     NOT (ucast (fold16 (sum_words data (sum_words (pseudo_v4 src dst proto (word_of_nat (length data))) 0))))"

definition pseudo_sum_v6 :: "bytes \<Rightarrow> bytes \<Rightarrow> u8 \<Rightarrow> u32 \<Rightarrow> u32" where
  "pseudo_sum_v6 src dst proto len =
     sum_words dst (sum_words src 0) + (drop_bit 16 len AND 0xffff) + (len AND 0xffff) + ucast proto"

definition checksum_with_pseudo_v6 :: "bytes \<Rightarrow> bytes \<Rightarrow> u8 \<Rightarrow> bytes \<Rightarrow> u16" where
  "checksum_with_pseudo_v6 src dst proto data =
     NOT (ucast (fold16 (sum_words data (pseudo_sum_v6 src dst proto (word_of_nat (length data))))))"

definition IPPROTO_TCP :: u8 where "IPPROTO_TCP = 6"
definition IPPROTO_UDP :: u8 where "IPPROTO_UDP = 17"
definition IPPROTO_ICMP :: u8 where "IPPROTO_ICMP = 1"
definition IPPROTO_ICMPV6 :: u8 where "IPPROTO_ICMPV6 = 58"

definition udp_checksum_v4 :: "bytes \<Rightarrow> bytes \<Rightarrow> bytes \<Rightarrow> u16" where
  "udp_checksum_v4 src dst udp = checksum_with_pseudo_v4 src dst IPPROTO_UDP udp"

definition udp_checksum_v6 :: "bytes \<Rightarrow> bytes \<Rightarrow> bytes \<Rightarrow> u16" where
  "udp_checksum_v6 src dst udp = checksum_with_pseudo_v6 src dst IPPROTO_UDP udp"

definition recompute_ipv4_checksum :: "bytes \<Rightarrow> bytes option" where
  "recompute_ipv4_checksum pkt =
     (if length pkt < 20 then Some pkt
      else do {
        pkt \<leftarrow> set_at 10 0 pkt;
        pkt \<leftarrow> set_at 11 0 pkt;
        hdr \<leftarrow> slice pkt 0 20;
        store16 10 (internet_checksum hdr) pkt })"

definition recompute_tcp_checksum_v4 :: "bytes \<Rightarrow> nat \<Rightarrow> bytes option" where
  "recompute_tcp_checksum_v4 pkt ihl =
     (if length pkt < ihl + 18 then Some pkt
      else do {
        src_ip \<leftarrow> slice pkt 12 16;
        dst_ip \<leftarrow> slice pkt 16 20;
        pkt \<leftarrow> set_at (ihl + 16) 0 pkt;
        pkt \<leftarrow> set_at (ihl + 17) 0 pkt;
        seg \<leftarrow> slice pkt ihl (length pkt);
        store16 (ihl + 16) (checksum_with_pseudo_v4 src_ip dst_ip IPPROTO_TCP seg) pkt })"

definition recompute_tcp_checksum_v6 :: "bytes \<Rightarrow> bytes option" where
  "recompute_tcp_checksum_v6 pkt =
     (if length pkt < 40 + 18 then Some pkt
      else do {
        src_ip \<leftarrow> slice pkt 8 24;
        dst_ip \<leftarrow> slice pkt 24 40;
        pkt \<leftarrow> set_at (40 + 16) 0 pkt;
        pkt \<leftarrow> set_at (40 + 17) 0 pkt;
        seg \<leftarrow> slice pkt 40 (length pkt);
        store16 (40 + 16) (checksum_with_pseudo_v6 src_ip dst_ip IPPROTO_TCP seg) pkt })"

definition recompute_icmpv6_checksum :: "bytes \<Rightarrow> bytes option" where
  "recompute_icmpv6_checksum pkt =
     (if length pkt < 40 + 8 then Some pkt
      else do {
        src_ip \<leftarrow> slice pkt 8 24;
        dst_ip \<leftarrow> slice pkt 24 40;
        pkt \<leftarrow> set_at (40 + 2) 0 pkt;
        pkt \<leftarrow> set_at (40 + 3) 0 pkt;
        seg \<leftarrow> slice pkt 40 (length pkt);
        store16 (40 + 2) (checksum_with_pseudo_v6 src_ip dst_ip IPPROTO_ICMPV6 seg) pkt })"

section \<open>The sums as numbers\<close>

fun sum16 :: "bytes \<Rightarrow> nat" where
  "sum16 (a # b # r) = 256 * unat a + unat b + sum16 r"
| "sum16 [a] = 256 * unat a"
| "sum16 [] = 0"

lemma sum16_append: "even (length a) \<Longrightarrow> sum16 (a @ b) = sum16 a + sum16 b"
  by (induction a rule: sum16.induct) auto

lemma sum16_bound: "sum16 d \<le> 65535 * ((length d + 1) div 2)"
proof (induction d rule: sum16.induct)
  case (1 a b r)
  have "unat a < 256" "unat b < 256" by simp_all
  then have "256 * unat a + unat b \<le> 65535" by linarith
  with 1 show ?case by simp
next
  case (2 a)
  have "256 * unat a \<le> 65535" using unat_u8_less [of a] by linarith
  then show ?case by simp
qed simp

lemma unat_byte [simp]: "unat (ucast (b :: u8) :: u32) = unat b" "unat (ucast (b :: u8) :: u16) = unat b"
proof -
  have "unat b < 4294967296" "unat b < 65536" using unat_u8_less [of b] by linarith+
  then show "unat (ucast b :: u32) = unat b" "unat (ucast b :: u16) = unat b"
    by (simp_all add: unsigned_ucast_eq take_bit_nat_eq_self)
qed

lemma unat_shifted_byte: "unat (push_bit 8 (ucast (a :: u8)) :: u32) = 256 * unat a"
proof -
  have "unat a * 256 < 4294967296" using unat_u8_less [of a] by linarith
  then show ?thesis by (simp add: push_bit_eq_mult unat_word_ariths)
qed

lemma unat_be_word: "unat (push_bit 8 (ucast (a :: u8)) OR ucast (b :: u8) :: u32) = 256 * unat a + unat b"
proof -
  have ab: "256 * unat a + unat b < 4294967296" using unat_u8_less [of a] unat_u8_less [of b] by linarith
  have "push_bit 8 (ucast a) OR (ucast b :: u32) = push_bit 8 (ucast a) + ucast b"
    by (rule disjunctive_add_eq_or [symmetric], rule bit_eqI) (auto simp: bit_simps dest: bit_imp_le_length)
  then show ?thesis using ab
    by (simp only: unat_word_ariths unat_shifted_byte) simp
qed

lemma unat_sum_words:
  "unat s + sum16 d < 2 ^ 32 \<Longrightarrow> unat (sum_words d s) = unat s + sum16 d"
proof (induction d s rule: sum_words.induct)
  case (1 a b r s)
  let ?w = "push_bit 8 (ucast a) OR ucast b :: u32"
  have "unat (s + ?w) = unat s + (256 * unat a + unat b)"
    using 1(2) by (simp add: unat_word_ariths unat_be_word)
  with 1 show ?case by simp
next
  case (2 a s)
  then show ?case by (simp add: unat_word_ariths unat_shifted_byte)
qed simp

text \<open>Folding keeps the sum modulo \<open>65535\<close> and never makes a sum zero.\<close>

lemma fold16_props:
  "unat (fold16 s) < 65536 \<and> unat (fold16 s) mod 65535 = unat s mod 65535 \<and> (fold16 s = 0 \<longleftrightarrow> s = 0)"
proof (induction s rule: fold16.induct)
  case (1 s)
  show ?case
  proof (cases "drop_bit 16 s = 0")
    case True
    have "unat (drop_bit 16 s) = unat s div 65536" by (simp add: drop_bit_eq_div unat_div_distrib)
    with True have "unat s div 65536 = 0" by simp
    then have "unat s < 65536" by simp
    with True show ?thesis by (simp add: fold16.simps [of s])
  next
    case False
    let ?f = "(s AND 0xffff) + drop_bit 16 s"
    have "unat s mod 65535 = (unat s div 65536 * 65536 + unat s mod 65536) mod 65535" by simp
    also have "\<dots> = (unat s div 65536 * 65535 + (unat s mod 65536 + unat s div 65536)) mod 65535"
      by (simp only: mult.commute) (simp add: algebra_simps)
    also have "\<dots> = unat ?f mod 65535" unfolding fold16_less(1) [OF False] by (simp only: mod_mult_self3)
    finally have m: "unat s mod 65535 = unat ?f mod 65535" .
    have "unat s div 65536 \<noteq> 0" "s \<noteq> 0" using False by (auto simp: drop_bit_eq_div word_unat_eq_iff unat_div_distrib)
    then have "?f \<noteq> 0" "s \<noteq> 0" using fold16_less(1) [OF False] by (auto simp: word_unat_eq_iff)
    with 1 [OF False] m False show ?thesis by (simp add: fold16.simps [of s])
  qed
qed

lemma unat_not16: "unat (NOT w :: u16) = 65535 - unat w"
proof -
  have "NOT w = 0xffff - w" by (simp add: not_eq_complement)
  moreover have "unat w < 65536" using unsigned_less [of w, where 'a = nat] by simp
  then have "w \<le> 0xffff" by (simp add: word_le_nat_alt)
  ultimately show ?thesis by (simp add: unat_sub)
qed

lemma unat_u16_fold: "unat (ucast (fold16 s) :: u16) = unat (fold16 s)"
  using fold16_props [of s] by (simp add: unsigned_ucast_eq take_bit_nat_eq_self)

lemma u16_be_bytes: "u16_be w = [word_of_nat (unat w div 256), word_of_nat (unat w)]"
  by (simp add: u16_be_def be_bytes_def numeral_2_eq_2)

lemma unat_u16_div: "unat (w :: u16) div 256 < 256"
  using unsigned_less [of w, where 'a = nat] by (simp add: less_mult_imp_div_less)

lemma store16_bytes: "[ucast (drop_bit 8 w), ucast (w AND 0xff)] = u16_be w"
proof -
  have "unat (ucast (drop_bit 8 w) :: u8) = unat w div 256"
    using unat_u16_div [of w]
    by (simp add: unsigned_ucast_eq drop_bit_eq_div unat_div_distrib take_bit_nat_eq_self)
  moreover have "w AND 0xff = take_bit 8 w" by (simp add: take_bit_eq_mask mask_eq_exp_minus_1)
  then have "unat (ucast (w AND 0xff) :: u8) = unat w mod 256"
    by (simp add: unsigned_ucast_eq take_bit_eq_mod unat_mod_distrib)
  ultimately show ?thesis
    using unat_u16_div [of w] by (simp only: u16_be_bytes word_unat_eq_iff unat_u8_of_nat list.inject) simp
qed

lemma sum16_u16_be: "sum16 (u16_be w) = unat w"
  using unat_u16_div [of w] by (simp only: u16_be_bytes sum16.simps unat_u8_of_nat) simp

section \<open>Checksum schemes\<close>

text \<open>
  A checksum is the folded sum of the data on top of a part that depends on the length of the data only (the
  pseudo header). Every checksum of the packets the inbound writes is of this form.
\<close>

locale checksum_scheme =
  fixes cs :: "bytes \<Rightarrow> u16" and base :: "nat \<Rightarrow> u32"
  assumes scheme: "cs d = NOT (ucast (fold16 (sum_words d (base (length d)))))"
    and small_base: "unat (base n) \<le> 2000000"
begin

lemma total_sum:
  assumes "length d \<le> 130000"
  shows "unat (sum_words d (base (length d))) = unat (base (length d)) + sum16 d"
    and "unat (base (length d)) + sum16 d < 2 ^ 32 - 65536"
proof -
  have "sum16 d \<le> 65535 * 65000" using sum16_bound [of d] assms by (simp add: order.trans)
  then show "unat (base (length d)) + sum16 d < 2 ^ 32 - 65536" using small_base [of "length d"] by simp
  then show "unat (sum_words d (base (length d))) = unat (base (length d)) + sum16 d"
    by (intro unat_sum_words) simp
qed

lemma zero_iff:
  assumes "length d \<le> 130000"
  shows "cs d = 0 \<longleftrightarrow> 0 < unat (base (length d)) + sum16 d \<and> (unat (base (length d)) + sum16 d) mod 65535 = 0"
proof -
  let ?s = "sum_words d (base (length d))"
  have f: "unat (fold16 ?s) < 65536" "unat (fold16 ?s) mod 65535 = unat ?s mod 65535" "unat (fold16 ?s) = 0 \<longleftrightarrow> unat ?s = 0"
    using fold16_props [of ?s] by (auto simp: word_unat_eq_iff)
  have "cs d = 0 \<longleftrightarrow> unat (fold16 ?s) = 65535"
    using f(1) by (auto simp: scheme word_unat_eq_iff unat_not16 unat_u16_fold)
  also have "\<dots> \<longleftrightarrow> 0 < unat (fold16 ?s) \<and> unat (fold16 ?s) mod 65535 = 0"
    using f(1) by (auto simp: mod_eq_0_iff_dvd dvd_def)
  finally show ?thesis using f(2,3) unfolding total_sum(1) [OF assms] by (simp only: zero_less_iff_neq_zero)
qed

lemma stored_verifies:
  assumes d: "d = a @ [0, 0] @ b" and even: "even (length a)" and len: "length d \<le> 130000"
  shows "cs (a @ u16_be (cs d) @ b) = 0"
proof -
  let ?e = "a @ u16_be (cs d) @ b" and ?b = "unat (base (length d))"
  let ?x = "unat (fold16 (sum_words d (base (length d))))"
  have f: "?x < 65536" "?x mod 65535 = (?b + sum16 d) mod 65535" "?x = 0 \<longleftrightarrow> ?b + sum16 d = 0"
    using fold16_props [of "sum_words d (base (length d))"] total_sum [OF len] by (auto simp: word_unat_eq_iff)
  have "unat (cs d) = 65535 - ?x" by (simp add: scheme unat_not16 unat_u16_fold)
  moreover have l: "length ?e = length d" using d by simp
  moreover have "sum16 ?e = sum16 d + unat (cs d)" using even by (simp add: d sum16_append sum16_u16_be)
  ultimately have t: "unat (base (length ?e)) + sum16 ?e = ?b + sum16 d + (65535 - ?x)" by simp
  have "(?b + sum16 d + (65535 - ?x)) mod 65535 = (?x + (65535 - ?x)) mod 65535"
    by (rule mod_add_cong) (simp_all only: f(2))
  then have "(?b + sum16 d + (65535 - ?x)) mod 65535 = 0" using f(1) by simp
  moreover have "0 < ?b + sum16 d + (65535 - ?x)" using f(3) by linarith
  ultimately show ?thesis using zero_iff [of ?e] len l unfolding t by simp
qed

end

lemma small_sum_words:
  assumes "unat s + 65535 * ((length d + 1) div 2) \<le> 2000000"
  shows "unat (sum_words d s) = unat s + sum16 d" "unat (sum_words d s) \<le> unat s + 65535 * ((length d + 1) div 2)"
  using unat_sum_words [of s d] sum16_bound [of d] assms by simp_all

interpretation header: checksum_scheme internet_checksum "\<lambda>_. 0"
  by unfold_locales (simp_all add: internet_checksum_def)

interpretation segment4: checksum_scheme "checksum_with_pseudo_v4 (u32_be s) (u32_be d) p"
    "\<lambda>n. sum_words (pseudo_v4 (u32_be s) (u32_be d) p (word_of_nat n)) 0" for s d p
proof unfold_locales
  show "unat (sum_words (pseudo_v4 (u32_be s) (u32_be d) p (word_of_nat n)) 0) \<le> 2000000" for n
    using small_sum_words(2) [of 0 "pseudo_v4 (u32_be s) (u32_be d) p (word_of_nat n)"] by (simp add: pseudo_v4_def)
qed (simp add: checksum_with_pseudo_v4_def)

lemma pseudo_sum_v6_small: "unat (pseudo_sum_v6 (u128_be s) (u128_be d) p n) \<le> 2000000"
proof -
  have a: "unat (sum_words (u128_be s) 0) \<le> 524280" using small_sum_words(2) [of 0 "u128_be s"] by simp
  then have b: "unat (sum_words (u128_be d) (sum_words (u128_be s) 0)) \<le> 1048560"
    using small_sum_words(2) [of "sum_words (u128_be s) 0" "u128_be d"] by simp
  have m: "unat (w AND 0xffff) \<le> 65535" for w :: u32
    unfolding unat_low16 using mod_less_divisor [of 65536 "unat w"] by linarith
  have add: "unat (x + y) \<le> unat x + unat y" for x y :: u32 by (simp add: unat_word_ariths)
  let ?a = "sum_words (u128_be d) (sum_words (u128_be s) 0)"
  show ?thesis unfolding pseudo_sum_v6_def
    using b m [of "drop_bit 16 n"] m [of n] unat_u8_less [of p] add [of ?a "drop_bit 16 n AND 0xffff"]
      add [of "?a + (drop_bit 16 n AND 0xffff)" "n AND 0xffff"]
      add [of "?a + (drop_bit 16 n AND 0xffff) + (n AND 0xffff)" "ucast p"] unat_byte(1) [of p] by linarith
qed

interpretation segment6: checksum_scheme "checksum_with_pseudo_v6 (u128_be s) (u128_be d) p"
    "\<lambda>n. pseudo_sum_v6 (u128_be s) (u128_be d) p (word_of_nat n)" for s d p
  by unfold_locales (simp_all add: checksum_with_pseudo_v6_def pseudo_sum_v6_small)

section \<open>The receiver's check\<close>

text \<open>
  The verification of RFC 1071, written down without the functions of the source: the 16-bit words are added
  with end-around carry, an odd last byte padded with zero, and the sum has to be all ones. The pseudo
  headers of RFC 9293 and RFC 768 (IPv4) and of RFC 8200 (IPv6) are spelled out byte by byte.
\<close>

fun ones_add :: "nat \<Rightarrow> nat \<Rightarrow> nat" where
  "ones_add a b = (if a + b \<le> 65535 then a + b else a + b - 65535)"

fun ones_sum :: "nat \<Rightarrow> bytes \<Rightarrow> nat" where
  "ones_sum s (a # b # r) = ones_sum (ones_add s (256 * unat a + unat b)) r"
| "ones_sum s [a] = ones_add s (256 * unat a)"
| "ones_sum s [] = s"

definition rfc1071_ok :: "bytes \<Rightarrow> bool" where
  "rfc1071_ok d \<longleftrightarrow> ones_sum 0 d = 0xFFFF"

definition rfc_segment4 :: "bytes \<Rightarrow> bytes \<Rightarrow> u8 \<Rightarrow> bytes \<Rightarrow> bytes" where
  "rfc_segment4 src dst proto seg = src @ dst @ [0, proto] @ u16_be (word_of_nat (length seg)) @ seg"

definition rfc_segment6 :: "bytes \<Rightarrow> bytes \<Rightarrow> u8 \<Rightarrow> bytes \<Rightarrow> bytes" where
  "rfc_segment6 src dst proto seg = src @ dst @ u32_be (word_of_nat (length seg)) @ [0, 0, 0, proto] @ seg"

text \<open>A header whose checksum is known to be right, and the same header with one bit changed.\<close>

lemma rfc1071_example:
  "rfc1071_ok [0x45, 0x00, 0x00, 0x73, 0x00, 0x00, 0x40, 0x00, 0x40, 0x11, 0xb8, 0x61, 0xc0, 0xa8, 0x00, 0x01, 0xc0, 0xa8, 0x00, 0xc7]"
  "\<not> rfc1071_ok [0x45, 0x00, 0x00, 0x73, 0x00, 0x00, 0x40, 0x00, 0x41, 0x11, 0xb8, 0x61, 0xc0, 0xa8, 0x00, 0x01, 0xc0, 0xa8, 0x00, 0xc7]"
  by (simp_all add: rfc1071_ok_def)

lemma ones_add_props:
  assumes "a \<le> 65535" "b \<le> 65535"
  shows "ones_add a b \<le> 65535" "ones_add a b mod 65535 = (a + b) mod 65535" "ones_add a b = 0 \<longleftrightarrow> a + b = 0"
  using assms by (auto simp: mod_if)

lemma ones_sum_props:
  "s \<le> 65535 \<Longrightarrow> ones_sum s d \<le> 65535 \<and> ones_sum s d mod 65535 = (s + sum16 d) mod 65535 \<and> (ones_sum s d = 0 \<longleftrightarrow> s + sum16 d = 0)"
proof (induction s d rule: ones_sum.induct)
  case (1 s a b r)
  have w: "256 * unat a + unat b \<le> 65535" using unat_u8_less [of a] unat_u8_less [of b] by linarith
  note p = ones_add_props [OF 1(2) w]
  have "(ones_add s (256 * unat a + unat b) + sum16 r) mod 65535 = (s + (256 * unat a + unat b) + sum16 r) mod 65535"
    by (rule mod_add_cong) (simp_all only: p(2))
  then show ?case using 1(1) [OF p(1)] p(3) by (simp only: ones_sum.simps sum16.simps add.assoc) auto
next
  case (2 s a)
  have w: "256 * unat a \<le> 65535" using unat_u8_less [of a] by linarith
  show ?case using ones_add_props [OF 2 w] by (simp only: ones_sum.simps sum16.simps)
qed simp

lemma rfc1071_iff: "rfc1071_ok d \<longleftrightarrow> 0 < sum16 d \<and> sum16 d mod 65535 = 0"
proof -
  let ?s = "ones_sum 0 d"
  have p: "?s \<le> 65535" "?s mod 65535 = sum16 d mod 65535" "?s = 0 \<longleftrightarrow> sum16 d = 0" using ones_sum_props [of 0 d] by auto
  have "?s = 65535 \<longleftrightarrow> 0 < ?s \<and> ?s mod 65535 = 0" using p(1) by (auto simp: mod_eq_0_iff_dvd dvd_def)
  then show ?thesis unfolding rfc1071_ok_def p(2) using p(3) by auto
qed

lemma header_rfc: "length d \<le> 130000 \<Longrightarrow> internet_checksum d = 0 \<longleftrightarrow> rfc1071_ok d"
  using header.zero_iff [of d] by (simp add: rfc1071_iff)

lemma sum16_pseudo4:
  "sum16 (rfc_segment4 (u32_be s) (u32_be d) p seg)
     = sum16 (pseudo_v4 (u32_be s) (u32_be d) p (word_of_nat (length seg))) + sum16 seg"
  by (simp add: rfc_segment4_def pseudo_v4_def store16_bytes sum16_append sum16_u16_be)

lemma segment4_rfc:
  assumes "length seg \<le> 130000"
  shows "checksum_with_pseudo_v4 (u32_be s) (u32_be d) p seg = 0 \<longleftrightarrow> rfc1071_ok (rfc_segment4 (u32_be s) (u32_be d) p seg)"
proof -
  let ?h = "pseudo_v4 (u32_be s) (u32_be d) p (word_of_nat (length seg))"
  have "unat (sum_words ?h 0) = sum16 ?h" using small_sum_words(1) [of 0 ?h] by (simp add: pseudo_v4_def)
  then show ?thesis using segment4.zero_iff [OF assms, of s d p] by (simp add: rfc1071_iff sum16_pseudo4)
qed

lemma le_bytes_4: "le_bytes 4 v = [word_of_nat v, word_of_nat (v div 256), word_of_nat (v div 256 div 256), word_of_nat (v div 256 div 256 div 256)]"
proof -
  have "(4 :: nat) = Suc (Suc (Suc (Suc 0)))" by simp
  then show ?thesis by (simp only: le_bytes.simps)
qed

lemma sum16_u32_be: "sum16 (u32_be w) = unat w div 65536 + unat w mod 65536"
proof -
  have l: "unat w < 4294967296" using unsigned_less [of w, where 'a = nat] by simp
  have b: "u32_be w = [word_of_nat (unat w div 256 div 256 div 256), word_of_nat (unat w div 256 div 256), word_of_nat (unat w div 256), word_of_nat (unat w)]"
    by (simp add: u32_be_def be_bytes_def le_bytes_4)
  have d: "unat w div 256 div 256 = unat w div 65536" "unat w div 65536 div 256 < 256"
    using l by (simp_all add: div_mult2_eq [symmetric] less_mult_imp_div_less)
  have "unat w mod 65536 = 256 * (unat w div 256 mod 256) + unat w mod 256"
    using mod_mult2_eq [of "unat w" 256 256] by simp
  moreover have "unat w div 65536 = 256 * (unat w div 65536 div 256) + unat w div 65536 mod 256"
    using div_mult_mod_eq [of "unat w div 65536" 256] by simp
  ultimately show ?thesis unfolding b sum16.simps unat_u8_of_nat d(1) using d(2) by simp
qed

lemma pseudo_sum_v6_sum16:
  "unat (pseudo_sum_v6 (u128_be s) (u128_be d) p len) = sum16 (u128_be s) + sum16 (u128_be d) + sum16 (u32_be len) + unat p"
proof -
  have a: "unat (sum_words (u128_be s) 0) = sum16 (u128_be s)" "sum16 (u128_be s) \<le> 524280" "sum16 (u128_be d) \<le> 524280"
    using small_sum_words(1) [of 0 "u128_be s"] sum16_bound [of "u128_be s"] sum16_bound [of "u128_be d"] by simp_all
  then have b: "unat (sum_words (u128_be d) (sum_words (u128_be s) 0)) = sum16 (u128_be s) + sum16 (u128_be d)"
    using small_sum_words(1) [of "sum_words (u128_be s) 0" "u128_be d"] by simp
  have l: "unat len < 65536 * 65536" using unsigned_less [of len, where 'a = nat] by simp
  then have hi: "unat (drop_bit 16 len AND 0xffff) = unat len div 65536"
    unfolding unat_low16 by (simp add: drop_bit_eq_div unat_div_distrib less_mult_imp_div_less)
  have lt: "unat len div 65536 < 65536" "unat len mod 65536 < 65536" using l by (simp_all add: less_mult_imp_div_less)
  have add: "unat (x + y) = unat x + unat y" if "unat x + unat y < 4294967296" for x y :: u32
    using that by (simp add: unat_word_ariths)
  let ?b = "sum_words (u128_be d) (sum_words (u128_be s) 0)" and ?h = "drop_bit 16 len AND 0xffff" and ?l = "len AND 0xffff"
  have 1: "unat (?b + ?h) = sum16 (u128_be s) + sum16 (u128_be d) + unat len div 65536"
    using add [of ?b ?h] a(2,3) b hi lt by linarith
  have 2: "unat (?b + ?h + ?l) = sum16 (u128_be s) + sum16 (u128_be d) + unat len div 65536 + unat len mod 65536"
    using add [of "?b + ?h" ?l] 1 a(2,3) lt unat_low16 [of len] by linarith
  show ?thesis unfolding pseudo_sum_v6_def sum16_u32_be
    using add [of "?b + ?h + ?l" "ucast p"] 2 a(2,3) lt unat_u8_less [of p] unat_byte(1) [of p] by linarith
qed

lemma segment6_rfc:
  assumes "length seg \<le> 130000"
  shows "checksum_with_pseudo_v6 (u128_be s) (u128_be d) p seg = 0 \<longleftrightarrow> rfc1071_ok (rfc_segment6 (u128_be s) (u128_be d) p seg)"
proof -
  have "sum16 (rfc_segment6 (u128_be s) (u128_be d) p seg)
      = unat (pseudo_sum_v6 (u128_be s) (u128_be d) p (word_of_nat (length seg))) + sum16 seg"
    by (simp add: rfc_segment6_def sum16_append pseudo_sum_v6_sum16)
  then show ?thesis using segment6.zero_iff [OF assms, of s d p] by (simp add: rfc1071_iff)
qed

end
