(* ===== verification/Tun_Packet.thy ===== *)
theory Tun_Packet
  imports Tun_Nat Tun_Checksum Route_Config
begin

text \<open>
  Packet processing of the TUN inbound (\<open>src/inbound/tun.rs\<close>): the version switch of the read loop, the IPv4 and
  IPv6 handlers for TCP, UDP and ICMP echo, the accept loop of the TCP listener, the UDP session table with
  its reply packets, and the periodic collection. A packet is handled in one atomic step (the table locks are
  held for the whole of each table operation and the read loop is sequential); \<open>None\<close> is a panic.
\<close>

section \<open>Addresses of the interface\<close>

definition prefix_len_to_mask_v4 :: "u8 \<Rightarrow> u32" where
  "prefix_len_to_mask_v4 len = (if len = 0 then 0 else NOT (push_bit (32 - unat (min len 32)) 1 - 1))"

definition parse_addr_prefix :: "string \<Rightarrow> (IpAddr \<times> u8) option" where
  "parse_addr_prefix s = do {
     (ip_str, len_str) \<leftarrow> split_once (CHR ''/'') s;
     ip \<leftarrow> parse_ip ip_str;
     prefix_len \<leftarrow> parse_uint 255 len_str;
     let max_len = (case ip of V4 _ \<Rightarrow> 32 | V6 _ \<Rightarrow> 128);
     if max_len < prefix_len then None else Some (ip, word_of_nat prefix_len) }"

record tun_addrs =
  inet4_addr :: "u32 option"
  inet4_next :: "u32 option"
  inet6_addr :: "u128 option"
  inet6_next :: "u128 option"

definition add_address :: "string \<Rightarrow> tun_addrs \<Rightarrow> tun_addrs" where
  "add_address addr_str t =
     (case parse_addr_prefix addr_str of
        Some (V4 ip, _) \<Rightarrow> if inet4_addr t = None then t\<lparr>inet4_addr := Some ip, inet4_next := Some (ip + 1)\<rparr> else t
      | Some (V6 ip, _) \<Rightarrow> if inet6_addr t = None then t\<lparr>inet6_addr := Some ip, inet6_next := Some (ip + 1)\<rparr> else t
      | None \<Rightarrow> t)"

definition tun_addresses :: "string list \<Rightarrow> string + tun_addrs" where
  "tun_addresses address =
     (let t = fold add_address address \<lparr>inet4_addr = None, inet4_next = None, inet6_addr = None, inet6_next = None\<rparr>
      in if inet4_addr t = None \<and> inet6_addr t = None
         then Inl ''tun: at least one address must be configured'' else Inr t)"

section \<open>State\<close>

text \<open>
  A session's \<open>reply_tx\<close> is the sending end of a channel whose receiving task holds the client's address; the
  channel is named by that address.
\<close>

record UdpEntry =
  reply_tx :: SocketAddr
  last_seen :: nat

record tun_state =
  tcp_nat :: TcpNat
  udp_sessions :: "SocketAddr \<times> SocketAddr \<Rightarrow> UdpEntry option"

datatype tun_effect =
    TunWrite bytes
  | UdpSend InboundUdpPacket SocketAddr

section \<open>TCP\<close>

text \<open>The assignments that give a packet new endpoints.\<close>

definition rewrite_v4 :: "bytes \<Rightarrow> nat \<Rightarrow> u32 \<Rightarrow> u16 \<Rightarrow> u32 \<Rightarrow> u16 \<Rightarrow> bytes option" where
  "rewrite_v4 raw ihl src_ip src_port dst_ip dst_port = do {
     pkt \<leftarrow> copy_at 12 (u32_be src_ip) raw;
     pkt \<leftarrow> copy_at 16 (u32_be dst_ip) pkt;
     pkt \<leftarrow> copy_at ihl (u16_be src_port) pkt;
     pkt \<leftarrow> copy_at (ihl + 2) (u16_be dst_port) pkt;
     pkt \<leftarrow> recompute_tcp_checksum_v4 pkt ihl;
     recompute_ipv4_checksum pkt }"

definition rewrite_v6 :: "bytes \<Rightarrow> u128 \<Rightarrow> u16 \<Rightarrow> u128 \<Rightarrow> u16 \<Rightarrow> bytes option" where
  "rewrite_v6 raw src_ip src_port dst_ip dst_port = do {
     pkt \<leftarrow> copy_at 8 (u128_be src_ip) raw;
     pkt \<leftarrow> copy_at 24 (u128_be dst_ip) pkt;
     pkt \<leftarrow> copy_at 40 (u16_be src_port) pkt;
     pkt \<leftarrow> copy_at 42 (u16_be dst_port) pkt;
     recompute_tcp_checksum_v6 pkt }"

text \<open>\<open>u16::from_be_bytes\<close> of two bytes of a slice.\<close>

definition port_at :: "bytes \<Rightarrow> nat \<Rightarrow> u16 option" where
  "port_at b i = do { x \<leftarrow> idx b i; y \<leftarrow> idx b (i + 1); Some (u16_of_be [x, y]) }"

definition ihl_of :: "bytes \<Rightarrow> nat option" where
  "ihl_of raw = do { b \<leftarrow> idx raw 0; Some (unat (b AND 0x0f) * 4) }"

definition is_broadcast :: "u32 \<Rightarrow> bool" where
  "is_broadcast a \<longleftrightarrow> a = 0xFFFFFFFF"

definition is_multicast_v4 :: "u32 \<Rightarrow> bool" where
  "is_multicast_v4 a \<longleftrightarrow> 224 \<le> drop_bit 24 a \<and> drop_bit 24 a \<le> 239"

definition is_multicast_v6 :: "u128 \<Rightarrow> bool" where
  "is_multicast_v6 a \<longleftrightarrow> drop_bit 120 a = 0xff"

definition handle_tcp_v4 ::
  "u16 list \<Rightarrow> nat \<Rightarrow> bytes \<Rightarrow> bytes \<Rightarrow> u32 \<Rightarrow> u32 \<Rightarrow> u32 option \<Rightarrow> u32 option \<Rightarrow> u16 \<Rightarrow> TcpNat
     \<Rightarrow> (bytes list \<times> TcpNat) option" where
  "handle_tcp_v4 keys now raw tcp_payload src_ip dst_ip addr_opt next_opt tcp_port tab =
     (case (addr_opt, next_opt) of
        (Some addr, Some next) \<Rightarrow>
          if length tcp_payload < 20 then Some ([], tab)
          else do {
            src_port \<leftarrow> port_at tcp_payload 0;
            dst_port \<leftarrow> port_at tcp_payload 2;
            ihl \<leftarrow> ihl_of raw;
            if src_ip = addr \<and> src_port = tcp_port
            then (case lookup_back now dst_port tab of
                    (None, tab) \<Rightarrow> Some ([], tab)
                  | (Some (orig_src, orig_dst), tab) \<Rightarrow>
                      (case (sa_ip orig_dst, sa_ip orig_src) of
                         (V4 new_src_ip, V4 new_dst_ip) \<Rightarrow> do {
                           pkt \<leftarrow> rewrite_v4 raw ihl new_src_ip (sa_port orig_dst) new_dst_ip (sa_port orig_src);
                           Some ([pkt], tab) }
                       | _ \<Rightarrow> Some ([], tab)))
            else if is_broadcast dst_ip \<or> is_multicast_v4 dst_ip \<or> dst_ip = 0 then Some ([], tab)
            else do {
              (nat_port, tab) \<leftarrow> lookup_or_insert keys now \<lparr>sa_ip = V4 src_ip, sa_port = src_port\<rparr>
                                    \<lparr>sa_ip = V4 dst_ip, sa_port = dst_port\<rparr> tab;
              pkt \<leftarrow> rewrite_v4 raw ihl next nat_port addr tcp_port;
              Some ([pkt], tab) } }
      | _ \<Rightarrow> Some ([], tab))"

definition handle_tcp_v6 ::
  "u16 list \<Rightarrow> nat \<Rightarrow> bytes \<Rightarrow> bytes \<Rightarrow> u128 \<Rightarrow> u128 \<Rightarrow> u128 option \<Rightarrow> u128 option \<Rightarrow> u16 \<Rightarrow> TcpNat
     \<Rightarrow> (bytes list \<times> TcpNat) option" where
  "handle_tcp_v6 keys now raw tcp_payload src_ip dst_ip addr_opt next_opt tcp_port tab =
     (case (addr_opt, next_opt) of
        (Some addr, Some next) \<Rightarrow>
          if length tcp_payload < 20 then Some ([], tab)
          else do {
            src_port \<leftarrow> port_at tcp_payload 0;
            dst_port \<leftarrow> port_at tcp_payload 2;
            if src_ip = addr \<and> src_port = tcp_port
            then (case lookup_back now dst_port tab of
                    (None, tab) \<Rightarrow> Some ([], tab)
                  | (Some (orig_src, orig_dst), tab) \<Rightarrow>
                      (case (sa_ip orig_dst, sa_ip orig_src) of
                         (V6 new_src_ip, V6 new_dst_ip) \<Rightarrow> do {
                           pkt \<leftarrow> rewrite_v6 raw new_src_ip (sa_port orig_dst) new_dst_ip (sa_port orig_src);
                           Some ([pkt], tab) }
                       | _ \<Rightarrow> Some ([], tab)))
            else if is_multicast_v6 dst_ip \<or> dst_ip = 0 then Some ([], tab)
            else do {
              (nat_port, tab) \<leftarrow> lookup_or_insert keys now \<lparr>sa_ip = V6 src_ip, sa_port = src_port\<rparr>
                                    \<lparr>sa_ip = V6 dst_ip, sa_port = dst_port\<rparr> tab;
              pkt \<leftarrow> rewrite_v6 raw next nat_port addr tcp_port;
              Some ([pkt], tab) } }
      | _ \<Rightarrow> Some ([], tab))"

text \<open>One connection of the listener: \<open>peer_port\<close> is the port the accepted connection comes from.\<close>

definition accept_conn :: "string \<Rightarrow> nat \<Rightarrow> bytes \<Rightarrow> u16 \<Rightarrow> TcpNat \<Rightarrow> InboundTcpStream option \<times> TcpNat" where
  "accept_conn inbound_tag now conn peer_port tab =
     (case lookup_back now peer_port tab of
        (Some (_, dst), tab) \<Rightarrow>
          (Some \<lparr>stream = SniffedStream_new conn, tcp_target = Socket dst, tcp_inbound_tag = inbound_tag,
                 tcp_sniffed_protocol = None, tcp_sniffed_domain = None\<rparr>, tab)
      | (None, tab) \<Rightarrow> (None, tab))"

section \<open>ICMP echo\<close>

definition handle_icmpv4 :: "bytes \<Rightarrow> nat \<Rightarrow> u32 \<Rightarrow> u32 \<Rightarrow> u32 option \<Rightarrow> bytes list option" where
  "handle_icmpv4 raw ihl src_ip dst_ip addr_opt = do {
     payload \<leftarrow> slice raw ihl (length raw);
     if length payload < 8 then Some []
     else do {
       t \<leftarrow> idx payload 0;
       c \<leftarrow> idx payload 1;
       if t \<noteq> 8 \<or> c \<noteq> 0 then Some []
       else if \<exists>self_addr \<in> set_option addr_opt. dst_ip \<noteq> self_addr then Some []
       else do {
         pkt \<leftarrow> copy_at 12 (u32_be dst_ip) raw;
         pkt \<leftarrow> copy_at 16 (u32_be src_ip) pkt;
         pkt \<leftarrow> set_at ihl 0 pkt;
         pkt \<leftarrow> set_at (ihl + 2) 0 pkt;
         pkt \<leftarrow> set_at (ihl + 3) 0 pkt;
         body \<leftarrow> slice pkt ihl (length pkt);
         pkt \<leftarrow> store16 (ihl + 2) (internet_checksum body) pkt;
         pkt \<leftarrow> recompute_ipv4_checksum pkt;
         Some [pkt] } } }"

definition handle_icmpv6 :: "bytes \<Rightarrow> u128 \<Rightarrow> u128 \<Rightarrow> u128 option \<Rightarrow> bytes list option" where
  "handle_icmpv6 raw src_ip dst_ip addr_opt =
     (if length raw < 48 then Some []
      else do {
        t \<leftarrow> idx raw 40;
        if t \<noteq> 128 then Some []
        else if \<exists>self_addr \<in> set_option addr_opt. dst_ip \<noteq> self_addr then Some []
        else do {
          pkt \<leftarrow> copy_at 8 (u128_be dst_ip) raw;
          pkt \<leftarrow> copy_at 24 (u128_be src_ip) pkt;
          pkt \<leftarrow> set_at 40 129 pkt;
          pkt \<leftarrow> recompute_icmpv6_checksum pkt;
          Some [pkt] } })"

section \<open>UDP\<close>

text \<open>\<open>parse_udp_v4\<close> and \<open>parse_udp_v6\<close> have the same text; the address family is that of the arguments.\<close>

definition parse_udp :: "bytes \<Rightarrow> IpAddr \<Rightarrow> IpAddr \<Rightarrow> (SocketAddr \<times> SocketAddr \<times> bytes) option option" where
  "parse_udp udp src_ip dst_ip =
     (if length udp < 8 then Some None
      else do {
        src_port \<leftarrow> port_at udp 0;
        dst_port \<leftarrow> port_at udp 2;
        len \<leftarrow> be16 udp 4;
        data \<leftarrow> slice udp 8 (8 + min (len - 8) (length udp - 8));
        Some (Some (\<lparr>sa_ip = src_ip, sa_port = src_port\<rparr>, \<lparr>sa_ip = dst_ip, sa_port = dst_port\<rparr>, data)) })"

definition parse_udp_v4 :: "bytes \<Rightarrow> u32 \<Rightarrow> u32 \<Rightarrow> (SocketAddr \<times> SocketAddr \<times> bytes) option option" where
  "parse_udp_v4 udp src_ip dst_ip = parse_udp udp (V4 src_ip) (V4 dst_ip)"

definition parse_udp_v6 :: "bytes \<Rightarrow> u128 \<Rightarrow> u128 \<Rightarrow> (SocketAddr \<times> SocketAddr \<times> bytes) option option" where
  "parse_udp_v6 udp src_ip dst_ip = parse_udp udp (V6 src_ip) (V6 dst_ip)"

text \<open>The lengths are computed in 16 bits: \<open>as u16\<close> truncates and the addition wraps.\<close>

definition build_udp_reply_v4 :: "u32 \<Rightarrow> u16 \<Rightarrow> u32 \<Rightarrow> u16 \<Rightarrow> bytes \<Rightarrow> bytes option" where
  "build_udp_reply_v4 src_ip src_port dst_ip dst_port payload =
     (let udp_len = (word_of_nat (8 + length payload) :: u16);
          total_len = 20 + udp_len;
          pkt = [0x45, 0x00, ucast (drop_bit 8 total_len), ucast (total_len AND 0xff), 0x00, 0x00, 0x40, 0x00,
                 64, IPPROTO_UDP, 0x00, 0x00] @ u32_be src_ip @ u32_be dst_ip
      in do {
        hdr \<leftarrow> slice pkt 0 20;
        pkt \<leftarrow> store16 10 (internet_checksum hdr) pkt;
        let udp_start = length pkt;
        let pkt = pkt @ u16_be src_port @ u16_be dst_port @ u16_be udp_len @ [0x00, 0x00] @ payload;
        seg \<leftarrow> slice pkt udp_start (length pkt);
        store16 (udp_start + 6) (udp_checksum_v4 (u32_be src_ip) (u32_be dst_ip) seg) pkt })"

definition build_udp_reply_v6 :: "u128 \<Rightarrow> u16 \<Rightarrow> u128 \<Rightarrow> u16 \<Rightarrow> bytes \<Rightarrow> bytes option" where
  "build_udp_reply_v6 src_ip src_port dst_ip dst_port payload =
     (let udp_len = (word_of_nat (8 + length payload) :: u16);
          pkt = [0x60, 0x00, 0x00, 0x00] @ u16_be udp_len @ [IPPROTO_UDP, 64] @ u128_be src_ip @ u128_be dst_ip;
          udp_start = length pkt;
          pkt = pkt @ u16_be src_port @ u16_be dst_port @ u16_be udp_len @ [0x00, 0x00] @ payload
      in do {
        seg \<leftarrow> slice pkt udp_start (length pkt);
        store16 (udp_start + 6) (udp_checksum_v6 (u128_be src_ip) (u128_be dst_ip) seg) pkt })"

text \<open>The outer option is the panic, the inner one the function's own result.\<close>

definition build_udp_reply_packet :: "SocketAddr \<Rightarrow> SocketAddr \<Rightarrow> bytes \<Rightarrow> bytes option option" where
  "build_udp_reply_packet src dst payload =
     (case (sa_ip src, sa_ip dst) of
        (V4 s, V4 d) \<Rightarrow> map_option Some (build_udp_reply_v4 s (sa_port src) d (sa_port dst) payload)
      | (V6 s, V6 d) \<Rightarrow> map_option Some (build_udp_reply_v6 s (sa_port src) d (sa_port dst) payload)
      | _ \<Rightarrow> Some None)"

definition tun_dispatch_udp ::
  "string \<Rightarrow> nat \<Rightarrow> SocketAddr \<Rightarrow> SocketAddr \<Rightarrow> bytes \<Rightarrow> (SocketAddr \<times> SocketAddr \<Rightarrow> UdpEntry option)
     \<Rightarrow> tun_effect \<times> (SocketAddr \<times> SocketAddr \<Rightarrow> UdpEntry option)" where
  "tun_dispatch_udp inbound_tag now src dst data sessions =
     (let entry = (case sessions (src, dst) of Some e \<Rightarrow> e | None \<Rightarrow> \<lparr>reply_tx = src, last_seen = now\<rparr>);
          entry = entry\<lparr>last_seen := now\<rparr>
      in (UdpSend \<lparr>udp_data = data, udp_src = src, udp_target = Socket dst, udp_inbound_tag = inbound_tag,
                   udp_sniffed_protocol = None, udp_sniffed_domain = None\<rparr> (reply_tx entry),
          sessions((src, dst) \<mapsto> entry)))"

text \<open>The task of a session: one message \<open>(payload, orig_src, spoofed)\<close> of its channel, and the packet written.\<close>

definition udp_reply_task :: "SocketAddr \<Rightarrow> bytes \<times> SocketAddr \<times> SocketAddr \<Rightarrow> tun_effect list option" where
  "udp_reply_task client msg =
     (case msg of (payload, orig_src, _) \<Rightarrow>
        map_option (\<lambda>r. case r of Some pkt \<Rightarrow> [TunWrite pkt] | None \<Rightarrow> []) (build_udp_reply_packet orig_src client payload))"

section \<open>Packets\<close>

record tun_env =
  tun_tag :: string
  tun_addr :: tun_addrs
  tcp_port_v4 :: u16
  tcp_port_v6 :: u16

definition process_ipv4 :: "tun_env \<Rightarrow> u16 list \<Rightarrow> nat \<Rightarrow> bytes \<Rightarrow> tun_state \<Rightarrow> (tun_effect list \<times> tun_state) option" where
  "process_ipv4 env keys now raw st =
     (if length raw < 20 then Some ([], st)
      else do {
        ihl \<leftarrow> ihl_of raw;
        if length raw < ihl \<or> ihl < 20 then Some ([], st)
        else do {
          flags_frag \<leftarrow> port_at raw 6;
          let more_fragments = (flags_frag AND 0x2000 \<noteq> 0);
          let frag_offset = flags_frag AND 0x1fff;
          src_ip \<leftarrow> be32 raw 12;
          dst_ip \<leftarrow> be32 raw 16;
          payload \<leftarrow> slice raw ihl (length raw);
          proto \<leftarrow> idx raw 9;
          if proto = IPPROTO_TCP then
            (if more_fragments \<or> frag_offset \<noteq> 0 then Some ([], st)
             else do {
               (pkts, tab) \<leftarrow> handle_tcp_v4 keys now raw payload src_ip dst_ip (inet4_addr (tun_addr env))
                                 (inet4_next (tun_addr env)) (tcp_port_v4 env) (tcp_nat st);
               Some (map TunWrite pkts, st\<lparr>tcp_nat := tab\<rparr>) })
          else if proto = IPPROTO_UDP then
            (if more_fragments \<or> frag_offset \<noteq> 0 then Some ([], st)
             else do {
               r \<leftarrow> parse_udp_v4 payload src_ip dst_ip;
               (case r of
                  None \<Rightarrow> Some ([], st)
                | Some (src, dst, data) \<Rightarrow>
                    (let (e, sessions) = tun_dispatch_udp (tun_tag env) now src dst data (udp_sessions st)
                     in Some ([e], st\<lparr>udp_sessions := sessions\<rparr>))) })
          else if proto = IPPROTO_ICMP then do {
            pkts \<leftarrow> handle_icmpv4 raw ihl src_ip dst_ip (inet4_addr (tun_addr env));
            Some (map TunWrite pkts, st) }
          else Some ([], st) } })"

definition process_ipv6 :: "tun_env \<Rightarrow> u16 list \<Rightarrow> nat \<Rightarrow> bytes \<Rightarrow> tun_state \<Rightarrow> (tun_effect list \<times> tun_state) option" where
  "process_ipv6 env keys now raw st =
     (if length raw < 40 then Some ([], st)
      else do {
        src_bytes \<leftarrow> slice raw 8 24;
        dst_bytes \<leftarrow> slice raw 24 40;
        let src_ip = u128_of_be src_bytes;
        let dst_ip = u128_of_be dst_bytes;
        payload \<leftarrow> slice raw 40 (length raw);
        proto \<leftarrow> idx raw 6;
        if proto = IPPROTO_TCP then do {
          (pkts, tab) \<leftarrow> handle_tcp_v6 keys now raw payload src_ip dst_ip (inet6_addr (tun_addr env))
                            (inet6_next (tun_addr env)) (tcp_port_v6 env) (tcp_nat st);
          Some (map TunWrite pkts, st\<lparr>tcp_nat := tab\<rparr>) }
        else if proto = IPPROTO_UDP then do {
          r \<leftarrow> parse_udp_v6 payload src_ip dst_ip;
          (case r of
             None \<Rightarrow> Some ([], st)
           | Some (src, dst, data) \<Rightarrow>
               (let (e, sessions) = tun_dispatch_udp (tun_tag env) now src dst data (udp_sessions st)
                in Some ([e], st\<lparr>udp_sessions := sessions\<rparr>))) }
        else if proto = IPPROTO_ICMPV6 then do {
          pkts \<leftarrow> handle_icmpv6 raw src_ip dst_ip (inet6_addr (tun_addr env));
          Some (map TunWrite pkts, st) }
        else Some ([], st) })"

definition tun_packet :: "tun_env \<Rightarrow> u16 list \<Rightarrow> nat \<Rightarrow> bytes \<Rightarrow> tun_state \<Rightarrow> (tun_effect list \<times> tun_state) option" where
  "tun_packet env keys now pkt st =
     (case pkt of
        [] \<Rightarrow> Some ([], st)
      | b # _ \<Rightarrow>
          if drop_bit 4 b = 4 then process_ipv4 env keys now pkt st
          else if drop_bit 4 b = 6 then process_ipv6 env keys now pkt st
          else Some ([], st))"

definition tun_gc :: "u16 list \<Rightarrow> nat \<Rightarrow> nat \<Rightarrow> tun_state \<Rightarrow> tun_state" where
  "tun_gc keys now timeout st =
     st\<lparr>tcp_nat := nat_gc keys now timeout (tcp_nat st),
        udp_sessions := (\<lambda>k. case udp_sessions st k of
                           Some e \<Rightarrow> if now - last_seen e < timeout then Some e else None | None \<Rightarrow> None)\<rparr>"

end
