(* ===== verification/Tun_Correct.thy ===== *)
theory Tun_Correct
  imports Tun_Packet
begin

text \<open>
  What the packet processing of the TUN inbound promises: no packet makes it panic, and a TCP connection is
  carried transparently. A client's packet reaches the listener with the translated endpoints, the accepted
  connection is announced with the client's destination, and the listener's packets go back to the client as
  if they came from that destination, with checksums that verify and nothing else changed.
\<close>

section \<open>Packets in parts\<close>









section \<open>TCP packets\<close>

text \<open>
  A TCP packet without its endpoints: the IP header before the addresses (for IPv4 without its checksum), the IP
  options, the TCP header between the ports and the checksum, and what follows the checksum.
\<close>

record tcp_fields =
  ip_head :: bytes
  ip_sum :: u16
  ip_opts :: bytes
  tcp_head :: bytes
  tcp_sum :: u16
  tcp_rest :: bytes

fun v4_of :: "IpAddr \<Rightarrow> u32" where
  "v4_of (V4 a) = a" | "v4_of (V6 _) = 0"

fun v6_of :: "IpAddr \<Rightarrow> u128" where
  "v6_of (V6 a) = a" | "v6_of (V4 _) = 0"

definition tcp_seg :: "u16 \<Rightarrow> u16 \<Rightarrow> tcp_fields \<Rightarrow> bytes" where
  "tcp_seg sp dp x = (u16_be sp @ u16_be dp @ tcp_head x) @ u16_be (tcp_sum x) @ tcp_rest x"

definition enc4 :: "SocketAddr \<Rightarrow> SocketAddr \<Rightarrow> tcp_fields \<Rightarrow> bytes" where
  "enc4 src dst x = ip_head x @ u16_be (ip_sum x) @ u32_be (v4_of (sa_ip src)) @ u32_be (v4_of (sa_ip dst))
     @ ip_opts x @ tcp_seg (sa_port src) (sa_port dst) x"

definition enc6 :: "SocketAddr \<Rightarrow> SocketAddr \<Rightarrow> tcp_fields \<Rightarrow> bytes" where
  "enc6 src dst x = ip_head x @ u128_be (v6_of (sa_ip src)) @ u128_be (v6_of (sa_ip dst))
     @ tcp_seg (sa_port src) (sa_port dst) x"

definition wf4 :: "tcp_fields \<Rightarrow> bool" where
  "wf4 x \<longleftrightarrow> length (ip_head x) = 10 \<and> drop_bit 4 (ip_head x ! 0) = 4
     \<and> unat (ip_head x ! 0 AND 0x0f) * 4 = 20 + length (ip_opts x)
     \<and> u16_of_be [ip_head x ! 6, ip_head x ! 7] AND 0x2000 = 0 \<and> u16_of_be [ip_head x ! 6, ip_head x ! 7] AND 0x1fff = 0
     \<and> ip_head x ! 9 = 6 \<and> length (tcp_head x) = 12 \<and> 2 \<le> length (tcp_rest x) \<and> length (tcp_rest x) \<le> 65535"

definition wf6 :: "tcp_fields \<Rightarrow> bool" where
  "wf6 x \<longleftrightarrow> length (ip_head x) = 8 \<and> drop_bit 4 (ip_head x ! 0) = 6 \<and> ip_head x ! 6 = 6
     \<and> length (tcp_head x) = 12 \<and> 2 \<le> length (tcp_rest x) \<and> length (tcp_rest x) \<le> 65535"






section \<open>Reading a packet\<close>









section \<open>Transparent connections\<close>



definition is_v4 :: "SocketAddr \<Rightarrow> bool" where
  "is_v4 a \<longleftrightarrow> (case sa_ip a of V4 _ \<Rightarrow> True | V6 _ \<Rightarrow> False)"





lemma SocketAddr_eqI: "sa_ip a = i \<Longrightarrow> sa_port a = q \<Longrightarrow> a = \<lparr>sa_ip = i, sa_port = q\<rparr>" for a :: SocketAddr
  by (cases a) simp



section \<open>No packet panics\<close>

lemma copy_at_total [total_intros]: "i + length v \<le> length p \<Longrightarrow> copy_at i v p \<noteq> None"
  by (simp add: copy_at_def)

lemma set_at_total [total_intros]: "i < length p \<Longrightarrow> set_at i b p \<noteq> None"
  by (simp add: set_at_def)

lemma store16_total [total_intros]: "i + 1 < length p \<Longrightarrow> store16 i w p \<noteq> None"
  by (simp add: store16_def set_at_def)

lemma port_at_total [total_intros]: "i + 1 < length b \<Longrightarrow> port_at b i \<noteq> None"
  by (simp add: port_at_def)

lemma write_lengths:
  "copy_at i v p = Some q \<Longrightarrow> length q = length p"
  "set_at i b p = Some q \<Longrightarrow> length q = length p"
  "store16 i w p = Some q \<Longrightarrow> length q = length p"
  by (auto simp: copy_at_def set_at_def store16_def split: if_splits Option.bind_splits)

lemma recompute_ipv4_total: "recompute_ipv4_checksum p \<noteq> None"
  unfolding recompute_ipv4_checksum_def by (intro total_intros) (auto dest!: write_lengths)

lemma recompute_tcp_v4_total: "20 \<le> length p \<Longrightarrow> recompute_tcp_checksum_v4 p ihl \<noteq> None"
  unfolding recompute_tcp_checksum_v4_def by (intro total_intros) (auto dest!: write_lengths)

lemma recompute_v6_total: "recompute_tcp_checksum_v6 p \<noteq> None" "recompute_icmpv6_checksum p \<noteq> None"
  unfolding recompute_tcp_checksum_v6_def recompute_icmpv6_checksum_def
  by (intro total_intros; auto dest!: write_lengths)+

lemma rewrite_v4_total: "20 \<le> ihl \<Longrightarrow> ihl + 4 \<le> length raw \<Longrightarrow> rewrite_v4 raw ihl s sp d dp \<noteq> None"
  unfolding rewrite_v4_def
  by (intro total_intros recompute_ipv4_total recompute_tcp_v4_total) (auto dest!: write_lengths)

lemma rewrite_v6_total: "44 \<le> length raw \<Longrightarrow> rewrite_v6 raw s sp d dp \<noteq> None"
  unfolding rewrite_v6_def by (intro total_intros recompute_v6_total) (auto dest!: write_lengths)

lemma handle_icmp_total:
  "20 \<le> ihl \<Longrightarrow> ihl \<le> length raw \<Longrightarrow> handle_icmpv4 raw ihl s d a \<noteq> None" "handle_icmpv6 raw s' d' b \<noteq> None"
  unfolding handle_icmpv4_def handle_icmpv6_def
  by (intro total_intros recompute_ipv4_total recompute_v6_total; auto dest!: write_lengths slice_length)+

lemma parse_udp_total: "parse_udp udp s d \<noteq> None"
  unfolding parse_udp_def by (intro total_intros) auto

text \<open>The TCP handlers, with the table they leave.\<close>

lemma total_fun4: "(\<And>x sx y sy. f x sx y sy \<noteq> None) \<Longrightarrow> \<exists>R. \<forall>x sx y sy. f x sx y sy = Some (R x sx y sy)"
  by (rule exI [of _ "\<lambda>x sx y sy. the (f x sx y sy)"]) simp

lemma handle_tcp_v4_total:
  assumes "nat_inv t" "set keys = dom (port_map t)" "ihl_of raw = Some ihl" "20 \<le> ihl" "length raw = ihl + length seg"
  shows "\<exists>r. handle_tcp_v4 keys now raw seg s d a n port t = Some r \<and> nat_inv (snd r)"
proof (cases "length seg < 20")
  case True
  then show ?thesis using assms by (auto simp: handle_tcp_v4_def split: option.split)
next
  case False
  then obtain sp dp where ports: "port_at seg 0 = Some sp" "port_at seg 2 = Some dp"
    using port_at_total [of 0 seg] port_at_total [of 2 seg] by auto
  have "rewrite_v4 raw ihl x sx y sy \<noteq> None" for x sx y sy using rewrite_v4_total assms False by simp
  from total_fun4 [of "rewrite_v4 raw ihl", OF this] obtain R where R: "\<forall>x sx y sy. rewrite_v4 raw ihl x sx y sy = Some (R x sx y sy)" by blast
  obtain p t' where l: "lookup_or_insert keys now \<lparr>sa_ip = V4 s, sa_port = sp\<rparr> \<lparr>sa_ip = V4 d, sa_port = dp\<rparr> t = Some (p, t')"
    "nat_inv t'" using lookup_or_insert_back [OF assms(1,2)] by metis
  show ?thesis
    using False assms(1,3) nat_inv_touch [OF assms(1), of now dp]
    by (simp add: handle_tcp_v4_def lookup_back_def ports l R split: option.split IpAddr.split)
qed

lemma handle_tcp_v6_total:
  assumes "nat_inv t" "set keys = dom (port_map t)" "length raw = 40 + length seg"
  shows "\<exists>r. handle_tcp_v6 keys now raw seg s d a n port t = Some r \<and> nat_inv (snd r)"
proof (cases "length seg < 20")
  case True
  then show ?thesis using assms by (auto simp: handle_tcp_v6_def split: option.split)
next
  case False
  then obtain sp dp where ports: "port_at seg 0 = Some sp" "port_at seg 2 = Some dp"
    using port_at_total [of 0 seg] port_at_total [of 2 seg] by auto
  have "rewrite_v6 raw x sx y sy \<noteq> None" for x sx y sy using rewrite_v6_total assms False by simp
  from total_fun4 [of "rewrite_v6 raw", OF this] obtain R where R: "\<forall>x sx y sy. rewrite_v6 raw x sx y sy = Some (R x sx y sy)" by blast
  obtain p t' where l: "lookup_or_insert keys now \<lparr>sa_ip = V6 s, sa_port = sp\<rparr> \<lparr>sa_ip = V6 d, sa_port = dp\<rparr> t = Some (p, t')"
    "nat_inv t'" using lookup_or_insert_back [OF assms(1,2)] by metis
  show ?thesis
    using False assms(1) nat_inv_touch [OF assms(1), of now dp]
    by (simp add: handle_tcp_v6_def lookup_back_def ports l R split: option.split IpAddr.split)
qed

lemma slice_tail: "i \<le> length b \<Longrightarrow> slice b i (length b) = Some (drop i b)"
  by (simp add: slice_def)

lemma process_ipv4_total:
  assumes inv: "nat_inv (tcp_nat st)" "set keys = dom (port_map (tcp_nat st))"
  shows "\<exists>r. process_ipv4 env keys now raw st = Some r \<and> nat_inv (tcp_nat (snd r))"
proof (cases "length raw < 20 \<or> length raw < unat (raw ! 0 AND 0x0f) * 4 \<or> unat (raw ! 0 AND 0x0f) * 4 < 20")
  case True
  then show ?thesis using inv(1) by (auto simp: process_ipv4_def ihl_of_def idx_def)
next
  case False
  define ihl where "ihl = unat (raw ! 0 AND 0x0f) * 4"
  with False have ihl: "ihl_of raw = Some ihl" "20 \<le> ihl" "ihl \<le> length raw" by (auto simp: ihl_of_def idx_def)
  obtain fl s d where rd: "port_at raw 6 = Some fl" "be32 raw 12 = Some s" "be32 raw 16 = Some d"
    using port_at_total [of 6 raw] be32_total [of 12 raw] be32_total [of 16 raw] False by auto
  obtain u where u: "parse_udp_v4 (drop ihl raw) s d = Some u" using parse_udp_total by (force simp: parse_udp_v4_def)
  obtain ic where ic: "handle_icmpv4 raw ihl s d (inet4_addr (tun_addr env)) = Some ic"
    using handle_icmp_total(1) [OF ihl(2,3)] by blast
  obtain r where r: "handle_tcp_v4 keys now raw (drop ihl raw) s d (inet4_addr (tun_addr env)) (inet4_next (tun_addr env))
      (tcp_port_v4 env) (tcp_nat st) = Some r" "nat_inv (snd r)"
    using handle_tcp_v4_total [OF inv ihl(1,2), of "drop ihl raw"] ihl(3) by force
  show ?thesis
    using False ihl inv(1) r(2)
    by (cases r) (simp add: process_ipv4_def Let_def rd slice_tail ic u r(1) split: option.split prod.split)
qed

lemma process_ipv6_total:
  assumes inv: "nat_inv (tcp_nat st)" "set keys = dom (port_map (tcp_nat st))"
  shows "\<exists>r. process_ipv6 env keys now raw st = Some r \<and> nat_inv (tcp_nat (snd r))"
proof (cases "length raw < 40")
  case True
  then show ?thesis using inv(1) by (simp add: process_ipv6_def)
next
  case False
  then obtain sb db where rd: "slice raw 8 24 = Some sb" "slice raw 24 40 = Some db"
    using slice_total [of 8 24 raw] slice_total [of 24 40 raw] by auto
  let ?s = "u128_of_be sb" and ?d = "u128_of_be db"
  obtain u where u: "parse_udp_v6 (drop 40 raw) ?s ?d = Some u" using parse_udp_total by (force simp: parse_udp_v6_def)
  obtain ic where ic: "handle_icmpv6 raw ?s ?d (inet6_addr (tun_addr env)) = Some ic"
    using handle_icmp_total(2) by blast
  obtain r where r: "handle_tcp_v6 keys now raw (drop 40 raw) ?s ?d (inet6_addr (tun_addr env)) (inet6_next (tun_addr env))
      (tcp_port_v6 env) (tcp_nat st) = Some r" "nat_inv (snd r)"
    using handle_tcp_v6_total [OF inv, of raw "drop 40 raw"] False by force
  show ?thesis
    using False inv(1) r(2)
    by (cases r) (simp add: process_ipv6_def Let_def rd slice_tail ic u r(1) split: option.split prod.split)
qed

lemma tun_packet_total:
  assumes "nat_inv (tcp_nat st)" "set keys = dom (port_map (tcp_nat st))"
  shows "\<exists>r. tun_packet env keys now raw st = Some r \<and> nat_inv (tcp_nat (snd r))"
  using assms process_ipv4_total [OF assms, of env now raw] process_ipv6_total [OF assms, of env now raw]
  by (cases raw) (auto simp: tun_packet_def)

section \<open>Histories of the inbound\<close>

inductive tun_step :: "tun_env \<Rightarrow> tun_state \<Rightarrow> tun_state \<Rightarrow> bool" for env where
  packet: "set keys = dom (port_map (tcp_nat st)) \<Longrightarrow> tun_packet env keys now raw st = Some (effs, st') \<Longrightarrow> tun_step env st st'"
| conn: "accept_conn (tun_tag env) now bytes peer (tcp_nat st) = (r, tab) \<Longrightarrow> tun_step env st (st\<lparr>tcp_nat := tab\<rparr>)"
| collect: "set keys = dom (port_map (tcp_nat st)) \<Longrightarrow> tun_step env st (tun_gc keys now timeout st)"

inductive tun_reachable :: "tun_env \<Rightarrow> tun_state \<Rightarrow> bool" for env where
  start: "tun_reachable env \<lparr>tcp_nat = TcpNat_new, udp_sessions = Map.empty\<rparr>"
| step: "tun_reachable env st \<Longrightarrow> tun_step env st st' \<Longrightarrow> tun_reachable env st'"

lemma accept_conn_table: "snd (accept_conn tag now bytes peer t) = touch now peer t"
  by (simp add: accept_conn_def lookup_back_def split: option.split prod.split)

lemma tun_step_inv: "tun_step env st st' \<Longrightarrow> nat_inv (tcp_nat st) \<Longrightarrow> nat_inv (tcp_nat st')"
proof (induction rule: tun_step.induct)
  case (packet keys st now raw effs st')
  then show ?case using tun_packet_total [of st keys env now raw] by auto
next
  case (conn now bytes peer st r tab)
  then show ?case using accept_conn_table [of "tun_tag env" now bytes peer "tcp_nat st"] by (simp add: nat_inv_touch)
qed (simp add: tun_gc_def nat_inv_gc)

lemma tun_reachable_inv: "tun_reachable env st \<Longrightarrow> nat_inv (tcp_nat st)"
  by (induction rule: tun_reachable.induct) (auto simp: nat_inv_new tun_step_inv)

section \<open>UDP replies\<close>










section \<open>UDP sessions\<close>

definition udp_inv :: "tun_state \<Rightarrow> bool" where
  "udp_inv st \<longleftrightarrow> (\<forall>k e. udp_sessions st k = Some e \<longrightarrow> reply_tx e = fst k)"

definition replies_to_sender :: "tun_effect list \<Rightarrow> bool" where
  "replies_to_sender effs \<longleftrightarrow> (\<forall>pkt c. UdpSend pkt c \<in> set effs \<longrightarrow> c = udp_src pkt)"

lemma replies_writes [simp]: "replies_to_sender (map TunWrite ps)" "replies_to_sender []"
  by (auto simp: replies_to_sender_def)


lemma udp_inv_nat [simp]: "udp_inv (st\<lparr>tcp_nat := t\<rparr>) = udp_inv st"
  by (simp add: udp_inv_def)









section \<open>Properties\<close>

text \<open>
  C20. No packet makes the TUN inbound panic: in every reachable state, for every byte string read from the device,
  processing ends with a new state and the packets to write or to dispatch.
\<close>

theorem no_packet_panics:
  assumes "tun_reachable env st" and "set keys = dom (port_map (tcp_nat st))"
  shows "\<exists>effs st'. tun_packet env keys now raw st = Some (effs, st') \<and> tun_reachable env st'"
proof -
  from tun_packet_total [OF tun_reachable_inv [OF assms(1)] assms(2), of env now raw]
  obtain effs st' where "tun_packet env keys now raw st = Some (effs, st')" by auto
  with tun_reachable.step [OF assms(1) tun_step.packet [OF assms(2) this]] show ?thesis by blast
qed

definition demo_env :: tun_env where
  "demo_env = \<lparr>tun_tag = ''tun'', tun_addr = \<lparr>inet4_addr = Some 0xAC130001, inet4_next = Some 0xAC130002,
     inet6_addr = Some 1, inet6_next = Some 2\<rparr>, tcp_port_v4 = 40000, tcp_port_v6 = 40001\<rparr>"

definition tun_init :: tun_state where
  "tun_init = \<lparr>tcp_nat = TcpNat_new, udp_sessions = Map.empty\<rparr>"

theorem no_packet_panics_witness:
  "\<exists>effs st'. tun_packet demo_env [] 5 [0x45, 0, 0, 40, 1] tun_init = Some (effs, st') \<and> tun_reachable demo_env st'"
proof -
  have "tun_reachable demo_env tun_init" unfolding tun_init_def by (rule tun_reachable.start)
  moreover have "set [] = dom (port_map (tcp_nat tun_init))" by (simp add: tun_init_def TcpNat_new_def)
  ultimately show ?thesis by (rule no_packet_panics)
qed

text \<open>The two address families together.\<close>

definition tcp_packet :: "SocketAddr \<Rightarrow> SocketAddr \<Rightarrow> tcp_fields \<Rightarrow> bytes" where
  "tcp_packet src dst x = (if is_v4 src then enc4 src dst x else enc6 src dst x)"

definition wf_tcp :: "SocketAddr \<Rightarrow> tcp_fields \<Rightarrow> bool" where
  "wf_tcp a x \<longleftrightarrow> (if is_v4 a then wf4 x else wf6 x)"








definition demo_seg :: tcp_fields where
  "demo_seg = \<lparr>ip_head = [0x45, 0, 0, 40, 0, 0, 0x40, 0, 64, 6], ip_sum = 0, ip_opts = [],
     tcp_head = replicate 12 7, tcp_sum = 0, tcp_rest = [0, 0]\<rparr>"






section \<open>Observations\<close>

text \<open>
  The header checksum is computed over the first 20 bytes only: for a header with options the packet written
  to the device does not verify. Here the options are four bytes of the value 1.
\<close>

definition opts_seg :: tcp_fields where
  "opts_seg = demo_seg\<lparr>ip_head := [0x46, 0, 0, 44, 0, 0, 0x40, 0, 64, 6], ip_opts := [1, 1, 1, 1]\<rparr>"

lemma header_options_break_checksum:
  "wf_tcp demo_client opts_seg
   \<and> (case rewrite_v4 (tcp_packet demo_client demo_server opts_seg) 24 0xAC130002 10000 0xAC130001 40000 of
        Some pkt \<Rightarrow> internet_checksum (take 24 pkt) \<noteq> 0 | None \<Rightarrow> False)"
  by code_simp

text \<open>
  A computed UDP checksum of zero is sent as zero, which over IPv6 means no checksum and is refused by receivers.
\<close>

lemma udp_zero_checksum_is_sent:
  "map_option (\<lambda>pkt. take 2 (drop 46 pkt)) (build_udp_reply_v6 1 53 2 5000 [0xec, 0x1a]) = Some [0, 0]"
  by code_simp

end
