(* ===== verification/Tun_Route.thy ===== *)
theory Tun_Route
  imports Tun_Packet Addr_Text
begin

text \<open>
  The automatic routing of the TUN inbound on Linux (\<open>platform\<close> of \<open>src/inbound/tun.rs\<close>): the user-id ranges
  that stay outside the tunnel, the \<open>ip\<close> commands of \<open>setup\<close> and those of \<open>teardown\<close>. The commands are values;
  their outcome is ignored by the source.
\<close>

section \<open>User-id ranges\<close>

type_synonym uid_range = "u32 \<times> u32"

definition sat_succ :: "u32 \<Rightarrow> u32" where
  "sat_succ b = (if b = 0xFFFFFFFF then b else b + 1)"

definition to_sorted_ranges :: "u32 list \<Rightarrow> uid_range list" where
  "to_sorted_ranges uids = map (\<lambda>u. (u, u)) (remdups_adj (sort uids))"

definition cut_range :: "uid_range \<Rightarrow> uid_range \<Rightarrow> uid_range list" where
  "cut_range s r = (case (s, r) of ((lo, hi), (a, b)) \<Rightarrow>
     (if hi < a \<or> b < lo then [(a, b)]
      else (if a < lo then [(a, lo - 1)] else []) @ (if hi < b then [(hi + 1, b)] else [])))"

definition subtract_ranges :: "uid_range list \<Rightarrow> uid_range list \<Rightarrow> uid_range list" where
  "subtract_ranges bs sub = fold (\<lambda>s bs. concat (map (cut_range s) bs)) sub bs"

fun complement_loop :: "uid_range list \<Rightarrow> u32 \<Rightarrow> u32 \<Rightarrow> uid_range list" where
  "complement_loop [] cur hi = (if cur \<le> hi then [(cur, hi)] else [])"
| "complement_loop ((a, b) # rs) cur hi =
     (if cur < a then [(cur, a - 1)] else []) @ complement_loop rs (sat_succ b) hi"

definition complement_ranges :: "uid_range list \<Rightarrow> u32 \<Rightarrow> u32 \<Rightarrow> uid_range list" where
  "complement_ranges rs lo hi = complement_loop rs lo hi"

fun uid_merge_loop :: "uid_range \<Rightarrow> uid_range list \<Rightarrow> uid_range list" where
  "uid_merge_loop (llo, lhi) [] = [(llo, lhi)]"
| "uid_merge_loop (llo, lhi) ((a, b) # rs) =
     (if a \<le> sat_succ lhi then uid_merge_loop (llo, max lhi b) rs
      else (llo, lhi) # uid_merge_loop (a, b) rs)"

text \<open>\<open>sort_unstable\<close> on pairs is lexicographic.\<close>

definition uid_merge_ranges :: "uid_range list \<Rightarrow> uid_range list" where
  "uid_merge_ranges rs = (case sort_key fst (sort_key snd rs) of [] \<Rightarrow> [] | r # rest \<Rightarrow> uid_merge_loop r rest)"

definition UID_MAX :: u32 where "UID_MAX = 0xFFFFFFFE"

definition build_excluded_uid_ranges :: "u32 list \<Rightarrow> u32 list \<Rightarrow> uid_range list" where
  "build_excluded_uid_ranges include exclude =
     (if include = [] \<and> exclude = [] then []
      else (let include_ranges = to_sorted_ranges include; exclude_ranges = to_sorted_ranges exclude
            in if include_ranges \<noteq> []
               then uid_merge_ranges (complement_ranges (subtract_ranges include_ranges exclude_ranges) 0 UID_MAX)
               else uid_merge_ranges exclude_ranges))"

lemma u32_max: "u \<le> (0xFFFFFFFF :: u32)"
  using unsigned_less [of u, where 'a = nat] by (simp add: word_le_nat_alt)

lemma le_UID_MAX: "u \<le> UID_MAX \<longleftrightarrow> u \<noteq> 0xFFFFFFFF"
proof -
  have "unat (0xFFFFFFFF :: u32) = 4294967295" "unat UID_MAX = 4294967294" by (simp_all add: UID_MAX_def)
  moreover have "unat u < 4294967296" using unsigned_less [of u, where 'a = nat] by simp
  ultimately show ?thesis by (auto simp: word_le_nat_alt word_unat_eq_iff)
qed

lemma unat_sat_succ: "b \<noteq> 0xFFFFFFFF \<Longrightarrow> unat (sat_succ b) = unat b + 1"
proof -
  assume "b \<noteq> 0xFFFFFFFF"
  then have "unat b \<noteq> 4294967295" by (auto simp: word_unat_eq_iff)
  moreover have "unat b < 4294967296" using unsigned_less [of b, where 'a = nat] by simp
  ultimately have "unat b + 1 < 2 ^ LENGTH(32)" by simp
  then show ?thesis using \<open>b \<noteq> 0xFFFFFFFF\<close> by (simp add: sat_succ_def unat_word_ariths)
qed

lemma sat_succ_less: "b \<noteq> 0xFFFFFFFF \<Longrightarrow> sat_succ b \<le> u \<longleftrightarrow> b < u"
  by (auto simp: word_le_nat_alt word_less_nat_alt unat_sat_succ)

lemma pred_ge: "(c :: u32) < a \<Longrightarrow> u \<le> a - 1 \<longleftrightarrow> u < a"
proof -
  assume "c < a"
  then have "a \<noteq> 0" by auto
  then have "unat (a - 1) = unat a - 1" by (simp add: unat_minus_one)
  then show ?thesis using \<open>a \<noteq> 0\<close> by (auto simp: word_le_nat_alt word_less_nat_alt word_unat_eq_iff)
qed

text \<open>Membership in a list of ranges.\<close>

abbreviation covers :: "uid_range list \<Rightarrow> u32 \<Rightarrow> bool" where
  "covers rs u \<equiv> \<exists>r \<in> set rs. in_range u r"

lemma covers_singletons: "covers (map (\<lambda>u. (u, u)) us) u \<longleftrightarrow> u \<in> set us"
  by (auto simp: in_range_def)

lemma subtract_singletons:
  "subtract_ranges (map (\<lambda>u. (u, u)) us) (map (\<lambda>u. (u, u)) xs) = map (\<lambda>u. (u, u)) (filter (\<lambda>u. u \<notin> set xs) us)"
proof (induction xs arbitrary: us)
  case Nil
  then show ?case by (simp add: subtract_ranges_def)
next
  case (Cons x xs)
  have "concat (map (cut_range (x, x)) (map (\<lambda>u. (u, u)) us)) = map (\<lambda>u. (u, u)) (filter (\<lambda>u. u \<noteq> x) us)"
    by (induction us) (auto simp: cut_range_def)
  then show ?case using Cons [of "filter (\<lambda>u. u \<noteq> x) us"] by (simp add: subtract_ranges_def conj_commute)
qed

lemma complement_singletons:
  "sorted us \<Longrightarrow> distinct us \<Longrightarrow> \<forall>x \<in> set us. cur \<le> x \<Longrightarrow> u \<le> UID_MAX
   \<Longrightarrow> covers (complement_loop (map (\<lambda>u. (u, u)) us) cur UID_MAX) u \<longleftrightarrow> cur \<le> u \<and> u \<notin> set us"
proof (induction us arbitrary: cur)
  case (Cons a us)
  have more: "a < x" if "x \<in> set us" for x using Cons.prems that by (metis distinct.simps(2) le_less set_ConsD sorted_simps(2) list.set_intros(2))
  show ?case
  proof (cases "a = 0xFFFFFFFF")
    case True
    have "us = []" using more u32_max [THEN leD] by (cases us) (auto simp: True)
    moreover have "u < a" using Cons.prems(4) u32_max [of u] True by (auto simp: le_UID_MAX less_le)
    ultimately show ?thesis using Cons.prems pred_ge [of cur a u] True
      by (auto simp: in_range_def sat_succ_def UID_MAX_def)
  next
    case False
    have "covers (complement_loop (map (\<lambda>u. (u, u)) us) (sat_succ a) UID_MAX) u \<longleftrightarrow> a < u \<and> u \<notin> set us"
      using Cons.IH [of "sat_succ a"] Cons.prems more by (simp add: sat_succ_less False)
    moreover have "covers (if cur < a then [(cur, a - 1)] else []) u \<longleftrightarrow> cur \<le> u \<and> u < a"
      using pred_ge [of cur a u] by (auto simp: in_range_def)
    ultimately show ?thesis using Cons.prems by auto
  qed
qed (auto simp: in_range_def)

lemma uid_merge_loop_covers:
  "sorted (map fst (l # rs)) \<Longrightarrow> \<forall>r \<in> set (l # rs). fst r \<le> snd r \<Longrightarrow> covers (uid_merge_loop l rs) u \<longleftrightarrow> covers (l # rs) u"
proof (induction l rs rule: uid_merge_loop.induct)
  case (2 llo lhi a b rs)
  show ?case
  proof (cases "a \<le> sat_succ lhi")
    case True
    have "covers ((llo, max lhi b) # rs) u \<longleftrightarrow> covers ((llo, lhi) # (a, b) # rs) u"
    proof (cases "lhi = 0xFFFFFFFF")
      case True
      then have "u \<le> lhi" "b \<le> lhi" by (simp_all add: u32_max)
      then have "max lhi b = lhi" "u \<le> lhi" "b \<le> lhi" by (simp_all add: max_def)
      then show ?thesis using 2(3,4) by (auto simp: in_range_def)
    next
      case False
      then have "a \<le> lhi \<or> (\<forall>x. lhi < x \<longleftrightarrow> a \<le> x)" using True sat_succ_less [OF False] by (metis le_less_linear order.antisym order.trans not_le)
      then show ?thesis using 2(3,4) by (auto simp: in_range_def max_def)
    qed
    moreover have "llo \<le> max lhi b" using 2(4) by (auto simp: max_def)
    ultimately show ?thesis using 2(1) [OF True] 2(3,4) True by auto
  next
    case False
    with 2 show ?thesis by auto
  qed
qed simp

lemma uid_merge_covers:
  assumes "\<forall>r \<in> set rs. fst r \<le> snd r"
  shows "covers (uid_merge_ranges rs) u \<longleftrightarrow> covers rs u"
proof -
  let ?s = "sort_key fst (sort_key snd rs)"
  have "set ?s = set rs" "sorted (map fst ?s)" by simp_all
  then show ?thesis
    using uid_merge_loop_covers [of "hd ?s" "tl ?s" u] assms by (cases ?s) (auto simp: uid_merge_ranges_def)
qed

lemma complement_valid: "(\<forall>r \<in> set (complement_loop rs cur hi). fst r \<le> snd r)"
  by (induction rs cur hi rule: complement_loop.induct) (auto simp: pred_ge)

lemma distinct_remdups_adj_sorted: "sorted xs \<Longrightarrow> distinct (remdups_adj xs)"
  by (induction xs rule: remdups_adj.induct) (auto simp: le_less)

lemma uid_ranges_cover:
  assumes "u \<le> UID_MAX"
  shows "covers (build_excluded_uid_ranges include exclude) u \<longleftrightarrow>
    (if include = [] then u \<in> set exclude else u \<notin> set include \<or> u \<in> set exclude)"
proof (cases "include = []")
  case True
  have "covers (uid_merge_ranges (to_sorted_ranges exclude)) u \<longleftrightarrow> u \<in> set exclude"
    using uid_merge_covers [of "to_sorted_ranges exclude" u] covers_singletons [of "remdups_adj (sort exclude)" u]
    by (simp add: to_sorted_ranges_def)
  with True show ?thesis by (auto simp: build_excluded_uid_ranges_def to_sorted_ranges_def)
next
  case False
  let ?us = "filter (\<lambda>u. u \<notin> set exclude) (remdups_adj (sort include))"
  have "sorted ?us" by (intro sorted_wrt_filter sorted_remdups_adj) simp
  moreover have "distinct ?us" by (simp add: distinct_remdups_adj_sorted)
  ultimately have "covers (complement_loop (map (\<lambda>u. (u, u)) ?us) 0 UID_MAX) u \<longleftrightarrow> u \<notin> set ?us"
    using complement_singletons [of ?us 0 u] assms by simp
  moreover have "subtract_ranges (to_sorted_ranges include) (to_sorted_ranges exclude) = map (\<lambda>u. (u, u)) ?us"
    by (simp add: to_sorted_ranges_def subtract_singletons)
  moreover have "to_sorted_ranges include \<noteq> []"
    using False by (simp add: to_sorted_ranges_def) (metis length_0_conv length_sort)
  ultimately show ?thesis
    using False uid_merge_covers [OF complement_valid, of "map (\<lambda>u. (u, u)) ?us" 0 UID_MAX u]
    by (simp add: build_excluded_uid_ranges_def complement_ranges_def Let_def)
qed

section \<open>Commands\<close>

datatype ip_cmd = Ip "string list" | Ip6 "string list"

record TunInboundConfig =
  tc_tag :: string
  interface_name :: "string option"
  mtu :: u32
  address :: "string list"
  auto_route :: bool
  iproute2_table_index :: u32
  iproute2_rule_index :: u32
  strict_route :: bool
  tc_stack :: string
  include_interface :: "string list"
  exclude_interface :: "string list"
  include_uid :: "u32 list"
  exclude_uid :: "u32 list"
  udp_timeout :: u64

record AddrInfo =
  inet4 :: "(u32 \<times> u8) list"
  inet6 :: "(u128 \<times> u8) list"

definition parse_addresses :: "string list \<Rightarrow> AddrInfo" where
  "parse_addresses addrs =
     (let ps = List.map_filter parse_addr_prefix addrs
      in \<lparr>inet4 = List.map_filter (\<lambda>(ip, pl). case ip of V4 a \<Rightarrow> Some (a, pl) | V6 _ \<Rightarrow> None) ps,
          inet6 = List.map_filter (\<lambda>(ip, pl). case ip of V6 a \<Rightarrow> Some (a, pl) | V4 _ \<Rightarrow> None) ps\<rparr>)"

text \<open>In a release build a shift by the width shifts by zero.\<close>

definition v4_network :: "u32 \<Rightarrow> u8 \<Rightarrow> u32" where
  "v4_network ip pl = ip AND NOT (push_bit ((32 - unat (min pl 32)) mod 32) 1 - 1)"

definition v6_network :: "u128 \<Rightarrow> u8 \<Rightarrow> u128" where
  "v6_network ip pl = ip AND NOT (push_bit ((128 - unat (min pl 128)) mod 128) 1 - 1)"

text \<open>The commands issued so far and the next free priority of each family.\<close>

record rule_gen =
  cmds :: "ip_cmd list"
  p4 :: u32
  p6 :: u32

definition show_u32 :: "u32 \<Rightarrow> string" where
  "show_u32 w = show_nat (unat w)"

definition rule_add :: "string \<Rightarrow> string list \<Rightarrow> string list" where
  "rule_add prio args = [''rule'', ''add'', ''priority'', prio] @ args"

definition rule4 :: "string list \<Rightarrow> rule_gen \<Rightarrow> rule_gen" where
  "rule4 args g = g\<lparr>cmds := cmds g @ [Ip (rule_add (show_u32 (p4 g)) args)], p4 := p4 g + 1\<rparr>"

definition rule6 :: "string list \<Rightarrow> rule_gen \<Rightarrow> rule_gen" where
  "rule6 args g = g\<lparr>cmds := cmds g @ [Ip6 (rule_add (show_u32 (p6 g)) args)], p6 := p6 g + 1\<rparr>"

definition cond :: "bool \<Rightarrow> ('s \<Rightarrow> 's) \<Rightarrow> 's \<Rightarrow> 's" where
  "cond b f s = (if b then f s else s)"

definition issue :: "ip_cmd \<Rightarrow> rule_gen \<Rightarrow> rule_gen" where
  "issue c g = g\<lparr>cmds := cmds g @ [c]\<rparr>"

text \<open>The rule that many steps add for each family that has an address.\<close>

definition both :: "bool \<Rightarrow> bool \<Rightarrow> string list \<Rightarrow> rule_gen \<Rightarrow> rule_gen" where
  "both has_v4 has_v6 args g = cond has_v6 (rule6 args) (cond has_v4 (rule4 args) g)"

definition setup_routes :: "string \<Rightarrow> string \<Rightarrow> AddrInfo \<Rightarrow> rule_gen \<Rightarrow> rule_gen" where
  "setup_routes if_name tab addrs g =
     (let g = issue (Ip [''link'', ''set'', if_name, ''up'']) g;
          g = (case inet4 addrs of [] \<Rightarrow> g
               | (gw_ip, _) # _ \<Rightarrow> issue (Ip [''route'', ''add'', ''0.0.0.0/0'', ''via'', show_ipv4 (gw_ip + 1), ''dev'', if_name, ''table'', tab]) g)
      in (case inet6 addrs of [] \<Rightarrow> g
          | (gw_ip, _) # _ \<Rightarrow> issue (Ip6 [''route'', ''add'', ''::/0'', ''via'', show_ipv6 (gw_ip + 1), ''dev'', if_name, ''table'', tab]) g))"

definition setup_uids :: "TunInboundConfig \<Rightarrow> bool \<Rightarrow> bool \<Rightarrow> string \<Rightarrow> rule_gen \<Rightarrow> rule_gen" where
  "setup_uids cfg has_v4 has_v6 nop =
     fold (\<lambda>(lo, hi). both has_v4 has_v6 [''uidrange'', show_u32 lo @ ''-'' @ show_u32 hi, ''goto'', nop])
       (build_excluded_uid_ranges (include_uid cfg) (exclude_uid cfg))"

definition setup_interfaces :: "TunInboundConfig \<Rightarrow> bool \<Rightarrow> bool \<Rightarrow> string \<Rightarrow> string \<Rightarrow> rule_gen \<Rightarrow> rule_gen" where
  "setup_interfaces cfg has_v4 has_v6 tab nop g =
     (if include_interface cfg \<noteq> [] then
        both has_v4 has_v6 [''goto'', nop]
          (fold (\<lambda>iface. both has_v4 has_v6 [''iif'', iface, ''lookup'', tab]) (include_interface cfg) g)
      else if exclude_interface cfg \<noteq> [] then
        fold (\<lambda>iface. both has_v4 has_v6 [''iif'', iface, ''goto'', nop]) (exclude_interface cfg) g
      else g)"

definition show_net4 :: "u32 \<times> u8 \<Rightarrow> string" where
  "show_net4 = (\<lambda>(ip, pl). show_ipv4 (v4_network ip pl) @ ''/'' @ show_nat (unat pl))"

definition show_net6 :: "u128 \<times> u8 \<Rightarrow> string" where
  "show_net6 = (\<lambda>(ip, pl). show_ipv6 (v6_network ip pl) @ ''/'' @ show_nat (unat pl))"

definition setup_strict :: "TunInboundConfig \<Rightarrow> bool \<Rightarrow> bool \<Rightarrow> rule_gen \<Rightarrow> rule_gen" where
  "setup_strict cfg has_v4 has_v6 g =
     cond (strict_route cfg \<and> \<not> has_v6) (rule6 [''type'', ''unreachable''])
       (cond (strict_route cfg \<and> \<not> has_v4) (rule4 [''type'', ''unreachable'']) g)"

definition setup_subnets :: "AddrInfo \<Rightarrow> string \<Rightarrow> rule_gen \<Rightarrow> rule_gen" where
  "setup_subnets addrs tab g =
     fold (\<lambda>n. rule6 [''to'', show_net6 n, ''lookup'', tab]) (inet6 addrs)
       (fold (\<lambda>n. rule4 [''to'', show_net4 n, ''lookup'', tab]) (inet4 addrs) g)"

definition setup_suppress :: "bool \<Rightarrow> bool \<Rightarrow> string \<Rightarrow> string \<Rightarrow> string \<Rightarrow> rule_gen \<Rightarrow> rule_gen" where
  "setup_suppress has_v4 has_v6 if_name tab nop g =
     both has_v4 has_v6 [''iif'', if_name, ''goto'', nop]
       (both has_v4 has_v6 [''not'', ''iif'', ''lo'', ''lookup'', tab, ''suppress_prefixlength'', ''0''] g)"

definition setup_lookup :: "AddrInfo \<Rightarrow> string \<Rightarrow> rule_gen \<Rightarrow> rule_gen" where
  "setup_lookup addrs tab g =
     cond (inet6 addrs \<noteq> [])
       (\<lambda>g. fold (\<lambda>n. rule6 [''iif'', ''lo'', ''from'', show_net6 n, ''lookup'', tab]) (inet6 addrs)
              (rule6 [''not'', ''iif'', ''lo'', ''lookup'', tab] g))
       (cond (inet4 addrs \<noteq> [])
         (\<lambda>g. fold (\<lambda>n. rule4 [''iif'', ''lo'', ''from'', show_net4 n, ''lookup'', tab]) (inet4 addrs)
                (rule4 [''not'', ''iif'', ''lo'', ''lookup'', tab] g)) g)"

text \<open>Steps 1 to 7 of \<open>setup\<close>, and the whole with the anchor rule and the content of the state file.\<close>

definition setup_rules :: "TunInboundConfig \<Rightarrow> string \<Rightarrow> rule_gen" where
  "setup_rules cfg if_name =
     (let tab = show_u32 (iproute2_table_index cfg);
          prio_base = iproute2_rule_index cfg;
          nop = show_u32 (prio_base + 100);
          addrs = parse_addresses (address cfg);
          has_v4 = (inet4 addrs \<noteq> []);
          has_v6 = (inet6 addrs \<noteq> []);
          g = \<lparr>cmds = [], p4 = prio_base, p6 = prio_base\<rparr>;
          g = setup_routes if_name tab addrs g;
          g = setup_uids cfg has_v4 has_v6 nop g;
          g = setup_interfaces cfg has_v4 has_v6 tab nop g;
          g = setup_strict cfg has_v4 has_v6 g;
          g = setup_subnets addrs tab g;
          g = setup_suppress has_v4 has_v6 if_name tab nop g
      in setup_lookup addrs tab g)"

definition tun_setup :: "TunInboundConfig \<Rightarrow> string \<Rightarrow> ip_cmd list \<times> string" where
  "tun_setup cfg if_name =
     (let nop_prio = iproute2_rule_index cfg + 100;
          nop = show_u32 nop_prio;
          addrs = parse_addresses (address cfg);
          g = setup_rules cfg if_name;
          g = cond (inet4 addrs \<noteq> []) (issue (Ip (rule_add nop []))) g;
          g = cond (inet6 addrs \<noteq> []) (issue (Ip6 (rule_add nop []))) g
      in (cmds g, show_u32 (p4 g) @ '' '' @ show_u32 (p6 g) @ '' '' @ show_u32 nop_prio))"

text \<open>\<open>str::split_whitespace\<close>; the second argument holds the current word backwards.\<close>

function split_ws :: "string \<Rightarrow> string \<Rightarrow> string list" where
  "split_ws [] cur = (if cur = [] then [] else [rev cur])"
| "split_ws (c # s) cur =
     (let w = ws_len (c # s)
      in if w = 0 then split_ws s (c # cur)
         else (if cur = [] then [] else [rev cur]) @ split_ws (drop (w - 1) s) [])"
  by pat_completeness auto
termination
  by (relation "measure (\<lambda>(s, _). length s)") auto

definition split_whitespace :: "string \<Rightarrow> string list" where
  "split_whitespace s = split_ws s []"

text \<open>\<open>state\<close> is the content of the state file, when it can be read.\<close>

definition tun_teardown :: "TunInboundConfig \<Rightarrow> string option \<Rightarrow> ip_cmd list" where
  "tun_teardown cfg state =
     (let tab = show_u32 (iproute2_table_index cfg);
          prio_base = iproute2_rule_index cfg;
          fallback = (prio_base + 120, prio_base + 120, prio_base + 100);
          (p4_max, p6_max, nop_prio) =
            (case state of
               None \<Rightarrow> fallback
             | Some s \<Rightarrow>
                 (case List.map_filter (\<lambda>x. map_option word_of_nat (parse_uint 4294967295 x)) (split_whitespace s) of
                    [a, b, c] \<Rightarrow> (a, b, c)
                  | _ \<Rightarrow> fallback));
          prios = (\<lambda>m. map show_nat [unat prio_base..<Suc (unat m)])
      in [Ip [''route'', ''flush'', ''table'', tab], Ip6 [''route'', ''flush'', ''table'', tab]]
         @ concat (map (\<lambda>ps. replicate 3 (Ip [''rule'', ''del'', ''priority'', ps])) (prios (max p4_max nop_prio)))
         @ concat (map (\<lambda>ps. replicate 3 (Ip6 [''rule'', ''del'', ''priority'', ps])) (prios (max p6_max nop_prio))))"

section \<open>Priorities in use\<close>

text \<open>
  As long as the 32-bit counters do not wrap, every rule added so far has a priority between the base and the
  counter of its family.
\<close>

definition prios_below :: "u32 \<Rightarrow> rule_gen \<Rightarrow> bool" where
  "prios_below prio_base g \<longleftrightarrow>
     unat prio_base + length (cmds g) < 2 ^ 32 \<longrightarrow>
       unat prio_base \<le> unat (p4 g) \<and> unat (p4 g) \<le> unat prio_base + length (cmds g)
       \<and> unat prio_base \<le> unat (p6 g) \<and> unat (p6 g) \<le> unat prio_base + length (cmds g)
       \<and> (\<forall>p args. Ip (rule_add p args) \<in> set (cmds g) \<longrightarrow>
            (\<exists>q. p = show_nat q \<and> unat prio_base \<le> q \<and> q < unat (p4 g)))
       \<and> (\<forall>p args. Ip6 (rule_add p args) \<in> set (cmds g) \<longrightarrow>
            (\<exists>q. p = show_nat q \<and> unat prio_base \<le> q \<and> q < unat (p6 g)))"

definition keeps :: "u32 \<Rightarrow> (rule_gen \<Rightarrow> rule_gen) \<Rightarrow> bool" where
  "keeps prio_base f \<longleftrightarrow> (\<forall>g. prios_below prio_base g \<longrightarrow> prios_below prio_base (f g))"

named_theorems keeps_intros \<open>steps that keep the priorities below the counters\<close>

lemma keepsD: "keeps b f \<Longrightarrow> prios_below b g \<Longrightarrow> prios_below b (f g)"
  by (simp add: keeps_def)

lemma unat_succ: "unat (w :: u32) + 1 < 2 ^ 32 \<Longrightarrow> unat (w + 1) = unat w + 1"
  by (simp add: unat_word_ariths)

lemma keeps_rule4 [keeps_intros]: "keeps b (rule4 args)"
  unfolding keeps_def prios_below_def
  by (auto simp: rule4_def rule_add_def show_u32_def unat_succ less_Suc_eq) blast

lemma keeps_rule6 [keeps_intros]: "keeps b (rule6 args)"
  unfolding keeps_def prios_below_def
  by (auto simp: rule6_def rule_add_def show_u32_def unat_succ less_Suc_eq) blast

lemma keeps_cond [keeps_intros]: "keeps b f \<Longrightarrow> keeps b (cond c f)"
  by (simp add: keeps_def cond_def)

lemma keeps_fold [keeps_intros]: "(\<And>x. keeps b (f x)) \<Longrightarrow> keeps b (fold f xs)"
  by (induction xs) (simp_all add: keeps_def)

lemma keeps_both [keeps_intros]: "keeps b (both h4 h6 args)"
  unfolding keeps_def both_def by (blast intro: keepsD keeps_cond keeps_rule4 keeps_rule6)

lemma keeps_setup_uids [keeps_intros]: "keeps b (setup_uids cfg h4 h6 nop)"
  unfolding setup_uids_def by (rule keeps_fold) (simp add: keeps_both split: prod.split)

lemma keeps_setup_interfaces [keeps_intros]: "keeps b (setup_interfaces cfg h4 h6 tab nop)"
  by (simp add: keeps_def setup_interfaces_def keepsD [OF keeps_both] keepsD [OF keeps_fold [OF keeps_both]])

lemma keeps_then_fold [keeps_intros]: "keeps b f \<Longrightarrow> (\<And>x. keeps b (h x)) \<Longrightarrow> keeps b (\<lambda>g. fold h xs (f g))"
  by (simp add: keeps_def keepsD [OF keeps_fold])

lemma keeps_issue: "(\<And>p args. c \<noteq> Ip (rule_add p args) \<and> c \<noteq> Ip6 (rule_add p args)) \<Longrightarrow> keeps b (issue c)"
  unfolding keeps_def prios_below_def by (fastforce simp: issue_def)

lemma keeps_setup_routes [keeps_intros]: "keeps b (setup_routes if_name tab addrs)"
proof -
  have k: "keeps b (issue (Ip (''link'' # r)))" "keeps b (issue (Ip (''route'' # r)))" "keeps b (issue (Ip6 (''route'' # r)))" for r
    by (rule keeps_issue; simp add: rule_add_def)+
  show ?thesis unfolding keeps_def setup_routes_def Let_def
    by (simp add: k [THEN keepsD] split: list.split)
qed

lemma keeps_setup_steps [keeps_intros]:
  "keeps b (setup_strict cfg h4 h6)" "keeps b (setup_subnets addrs tab)"
  "keeps b (setup_suppress h4 h6 if_name tab nop)" "keeps b (setup_lookup addrs tab)"
  unfolding keeps_def setup_strict_def setup_subnets_def setup_suppress_def setup_lookup_def
  by (blast intro: keepsD keeps_intros)+

lemma setup_rules_below: "prios_below (iproute2_rule_index cfg) (setup_rules cfg if_name)"
  unfolding setup_rules_def Let_def
  by (rule keepsD, intro keeps_intros)+ (simp add: prios_below_def)

section \<open>The state file\<close>

lemma split_ws_word:
  "\<forall>c \<in> set w. graphic c \<Longrightarrow> w \<noteq> [] \<or> cur \<noteq> [] \<Longrightarrow>
     split_ws (w @ CHR '' '' # s) cur = (rev cur @ w) # split_ws s []"
proof (induction w arbitrary: cur)
  case Nil
  have "ws_len (CHR '' '' # s) = 1" by (cases s rule: ws_len.cases) (simp_all add: ws1_def code_def split: list.split)
  then show ?case using Nil by simp
next
  case (Cons c w)
  then show ?case using ws_len_graphic [of c "w @ CHR '' '' # s"] by simp
qed

lemma split_ws_last: "\<forall>c \<in> set w. graphic c \<Longrightarrow> w \<noteq> [] \<or> cur \<noteq> [] \<Longrightarrow> split_ws w cur = [rev cur @ w]"
proof (induction w arbitrary: cur)
  case (Cons c w)
  then show ?case using ws_len_graphic [of c w] by simp
qed simp

lemma show_u32_word: "\<forall>c \<in> set (show_u32 w). graphic c" "show_u32 w \<noteq> []"
  using show_nat_digits by (auto simp: show_u32_def is_digit_def graphic_def)

lemma state_file_parse:
  "List.map_filter (\<lambda>x. map_option word_of_nat (parse_uint 4294967295 x))
     (split_whitespace (show_u32 a @ '' '' @ show_u32 b @ '' '' @ show_u32 c)) = [a, b, c]"
proof -
  have "split_whitespace (show_u32 a @ '' '' @ show_u32 b @ '' '' @ show_u32 c) = [show_u32 a, show_u32 b, show_u32 c]"
    using split_ws_word [OF show_u32_word(1) disjI1 [OF show_u32_word(2)]] split_ws_last [OF show_u32_word(1) disjI1 [OF show_u32_word(2)]]
    by (simp add: split_whitespace_def)
  moreover have "parse_uint 4294967295 (show_u32 w) = Some (unat w)" for w
    using parse_uint_show_nat [of "unat w" 4294967295] unsigned_less [of w, where 'a = nat] by (simp add: show_u32_def)
  ultimately show ?thesis by (simp add: List.map_filter_def)
qed

section \<open>Properties\<close>

text \<open>
  The user-id ranges kept outside the tunnel contain exactly the excluded users: with an include list, every
  user that is not on it or that is also excluded; without one, the users of the exclude list.
\<close>

theorem excluded_uid_ranges:
  assumes "u \<le> UID_MAX"
  shows "(\<exists>r \<in> set (build_excluded_uid_ranges include exclude). in_range u r) \<longleftrightarrow>
    (if include = [] then u \<in> set exclude else u \<notin> set include \<or> u \<in> set exclude)"
  by (rule uid_ranges_cover [OF assms])

theorem excluded_uid_ranges_witness:
  "build_excluded_uid_ranges [1000, 1001, 1003] [1003] = [(0, 999), (1002, UID_MAX)]
   \<and> (\<exists>r \<in> set (build_excluded_uid_ranges [1000, 1001, 1003] [1003]). in_range 1003 r)"
proof
  show "build_excluded_uid_ranges [1000, 1001, 1003] [1003] = [(0, 999), (1002, UID_MAX)]" by code_simp
  have "(1003 :: u32) \<le> UID_MAX" by code_simp
  from excluded_uid_ranges [OF this, of "[1000, 1001, 1003]" "[1003]"]
  show "\<exists>r \<in> set (build_excluded_uid_ranges [1000, 1001, 1003] [1003]). in_range 1003 r" by simp
qed

text \<open>
  The teardown that reads the state file of the setup deletes every rule the setup added: for each priority
  of a rule that was added in a family, a deletion of that priority in that family is issued.
\<close>

theorem teardown_covers_setup:
  assumes "tun_setup cfg if_name = (cs, state)"
    and "unat (iproute2_rule_index cfg) + 100 + length cs < 2 ^ 32"
  shows "(\<forall>p args. Ip (rule_add p args) \<in> set cs \<longrightarrow> Ip [''rule'', ''del'', ''priority'', p] \<in> set (tun_teardown cfg (Some state)))
       \<and> (\<forall>p args. Ip6 (rule_add p args) \<in> set cs \<longrightarrow> Ip6 [''rule'', ''del'', ''priority'', p] \<in> set (tun_teardown cfg (Some state)))"
proof -
  let ?g = "setup_rules cfg if_name" and ?b = "iproute2_rule_index cfg"
  have st: "state = show_u32 (p4 ?g) @ '' '' @ show_u32 (p6 ?g) @ '' '' @ show_u32 (?b + 100)"
    using assms(1) by (auto simp: tun_setup_def Let_def cond_def issue_def)
  have cs: "set cs \<subseteq> set (cmds ?g) \<union> {Ip (rule_add (show_u32 (?b + 100)) []), Ip6 (rule_add (show_u32 (?b + 100)) [])}"
    "length (cmds ?g) \<le> length cs"
    using assms(1) by (auto simp: tun_setup_def Let_def cond_def issue_def split: if_splits)
  have "unat ?b + length (cmds ?g) < 2 ^ 32" using assms(2) cs(2) by simp
  note below = setup_rules_below [of cfg if_name, unfolded prios_below_def, rule_format, OF this]
  have nop: "unat (?b + 100) = unat ?b + 100" using assms(2) by (simp add: unat_word_ariths)
  have td: "tun_teardown cfg (Some state) =
      [Ip [''route'', ''flush'', ''table'', show_u32 (iproute2_table_index cfg)], Ip6 [''route'', ''flush'', ''table'', show_u32 (iproute2_table_index cfg)]]
      @ concat (map (\<lambda>ps. replicate 3 (Ip [''rule'', ''del'', ''priority'', ps])) (map show_nat [unat ?b..<Suc (unat (max (p4 ?g) (?b + 100)))]))
      @ concat (map (\<lambda>ps. replicate 3 (Ip6 [''rule'', ''del'', ''priority'', ps])) (map show_nat [unat ?b..<Suc (unat (max (p6 ?g) (?b + 100)))]))"
    by (simp only: tun_teardown_def st option.case state_file_parse list.case Let_def prod.case)
  have mx: "q \<le> unat x \<or> q \<le> unat y \<Longrightarrow> q < Suc (unat (max x y))" for q and x y :: u32
    by (auto simp: max_def word_le_nat_alt)
  have in4: "Ip [''rule'', ''del'', ''priority'', show_nat q] \<in> set (tun_teardown cfg (Some state))"
    if "unat ?b \<le> q" "q \<le> unat (p4 ?g) \<or> q \<le> unat (?b + 100)" for q
    using that(1) mx [OF that(2)] by (auto simp: td simp del: upt_Suc)
  have in6: "Ip6 [''rule'', ''del'', ''priority'', show_nat q] \<in> set (tun_teardown cfg (Some state))"
    if "unat ?b \<le> q" "q \<le> unat (p6 ?g) \<or> q \<le> unat (?b + 100)" for q
    using that(1) mx [OF that(2)] by (auto simp: td simp del: upt_Suc)
  have "Ip [''rule'', ''del'', ''priority'', p] \<in> set (tun_teardown cfg (Some state))" if "Ip (rule_add p args) \<in> set cs" for p args
  proof (cases "Ip (rule_add p args) \<in> set (cmds ?g)")
    case True
    then obtain q where "p = show_nat q" "unat ?b \<le> q" "q < unat (p4 ?g)" using below by blast
    then show ?thesis using in4 [of q] by simp
  next
    case False
    with that cs(1) have "p = show_u32 (?b + 100)" by (auto simp: rule_add_def)
    then show ?thesis using in4 [of "unat (?b + 100)"] nop by (simp add: show_u32_def)
  qed
  moreover have "Ip6 [''rule'', ''del'', ''priority'', p] \<in> set (tun_teardown cfg (Some state))" if "Ip6 (rule_add p args) \<in> set cs" for p args
  proof (cases "Ip6 (rule_add p args) \<in> set (cmds ?g)")
    case True
    then obtain q where "p = show_nat q" "unat ?b \<le> q" "q < unat (p6 ?g)" using below by blast
    then show ?thesis using in6 [of q] by simp
  next
    case False
    with that cs(1) have "p = show_u32 (?b + 100)" by (auto simp: rule_add_def)
    then show ?thesis using in6 [of "unat (?b + 100)"] nop by (simp add: show_u32_def)
  qed
  ultimately show ?thesis by blast
qed

definition demo_tun :: TunInboundConfig where
  "demo_tun = \<lparr>tc_tag = ''tun'', interface_name = None, mtu = 9000, address = [''172.19.0.1/30''], auto_route = True,
     iproute2_table_index = 2022, iproute2_rule_index = 9000, strict_route = True, tc_stack = ''system'',
     include_interface = [], exclude_interface = [''eth1''], include_uid = [], exclude_uid = [0], udp_timeout = 0\<rparr>"

theorem teardown_covers_setup_witness:
  "Ip (rule_add ''9000'' [''uidrange'', ''0-0'', ''goto'', ''9100'']) \<in> set (fst (tun_setup demo_tun ''tun0''))
   \<and> Ip [''rule'', ''del'', ''priority'', ''9000''] \<in> set (tun_teardown demo_tun (Some (snd (tun_setup demo_tun ''tun0''))))"
proof -
  have small: "unat (iproute2_rule_index demo_tun) + 100 + length (fst (tun_setup demo_tun ''tun0'')) < 2 ^ 32" by code_simp
  have "Ip (rule_add ''9000'' [''uidrange'', ''0-0'', ''goto'', ''9100'']) \<in> set (fst (tun_setup demo_tun ''tun0''))" by code_simp
  with teardown_covers_setup [OF surjective_pairing small] show ?thesis by blast
qed

section \<open>Observations\<close>

text \<open>
  The anchor rule has the fixed priority base plus 100. With more than 100 rules it comes before some of them:
  the rule with the anchor's own priority would jump to itself, later ones backwards.
\<close>

lemma anchor_overtaken:
  "Ip (rule_add ''9101'' [''iif'', ''eth1'', ''goto'', ''9100''])
     \<in> set (cmds (setup_interfaces (demo_tun\<lparr>exclude_interface := replicate 102 ''eth1''\<rparr>) True False ''2022'' ''9100''
                   \<lparr>cmds = [], p4 = 9000, p6 = 9000\<rparr>))"
  by code_simp

end
