(* ===== verification/Outbound_Group.thy ===== *)
theory Outbound_Group
  imports Route_Config Dns_Upstream Cache_File
begin

text \<open>
  The outbound groups (\<open>src/outbound/group.rs\<close>): the selector with its interrupt group and its persisted choice, the
  url-test group with its background probes, and the relay that a switch interrupts. The registry of outbounds is a map
  from tags; the outcome of probes, connections and byte copies are arguments. The running probes of a url-test group
  are kept in a list, so that every interleaving of connections, probes and node updates is a sequence of steps.
\<close>

section \<open>Configuration (\<open>config/outbound.rs\<close>, \<open>config/provider.rs\<close>)\<close>

record ProviderRef =
  pr_tags :: "string list"
  pr_exclude_filter :: "string list"
  pr_filter :: "string list"

text \<open>\<open>lower\<close> is \<open>str::to_lowercase\<close>.\<close>

definition ProviderRef_matches :: "(string \<Rightarrow> string) \<Rightarrow> ProviderRef \<Rightarrow> string \<Rightarrow> bool" where
  "ProviderRef_matches lower r name =
     (let name_lower = lower name
      in if \<exists>kw \<in> set (pr_exclude_filter r). contains_str name_lower (lower kw) then False
         else if pr_filter r = [] then True
         else \<exists>kw \<in> set (pr_filter r). contains_str name_lower (lower kw))"

record SelectorOutboundConfig =
  sc_tag :: string
  sc_outbounds :: "string list"
  sc_providers :: "ProviderRef option"
  sc_default :: "string option"
  interrupt_existing_connections :: bool

record UrlTestOutboundConfig =
  uc_tag :: string
  uc_outbounds :: "string list"
  uc_providers :: "ProviderRef option"
  uc_url :: string
  uc_interval :: string
  uc_idle_timeout :: string
  uc_tolerance :: u64

text \<open>In a release build the multiplications wrap.\<close>

definition parse_duration :: "string \<Rightarrow> string + u64" where
  "parse_duration s0 =
     (let s = trim s0; num = takeWhile is_digit s; unit = dropWhile is_digit s
      in if s = [] then Inl ''duration cannot be empty''
         else if num = [] then Inl (''duration missing number: '' @ quote1 s)
         else res_bind (ok_or ''number too large'' (parse_uint (2 ^ 64 - 1) num)) (\<lambda>n.
           (let value = (word_of_nat n :: u64)
            in if unit = [] \<or> unit = ''s'' then Inr value
               else if unit = ''m'' then Inr (value * 60)
               else if unit = ''h'' then Inr (value * 60 * 60)
               else if unit = ''d'' then Inr (value * 24 * 60 * 60)
               else Inl (''unsupported duration unit in '' @ quote1 s))))"

section \<open>Interrupt group\<close>

record ConnItem =
  close_tx :: nat
  is_external :: bool

text \<open>\<open>ended\<close> tells of which connections the receiving end is closed.\<close>

definition InterruptGroup_register :: "(nat \<Rightarrow> bool) \<Rightarrow> bool \<Rightarrow> nat \<Rightarrow> ConnItem list \<Rightarrow> ConnItem list" where
  "InterruptGroup_register ended ext rx conns =
     filter (\<lambda>item. \<not> ended (close_tx item)) conns @ [\<lparr>close_tx = rx, is_external = ext\<rparr>]"

text \<open>The signalled connections and the items that stay.\<close>

definition interrupt :: "(nat \<Rightarrow> bool) \<Rightarrow> bool \<Rightarrow> ConnItem list \<Rightarrow> nat list \<times> ConnItem list" where
  "interrupt ended interrupt_external conns =
     (let live = filter (\<lambda>item. \<not> ended (close_tx item)) conns;
          hit = (\<lambda>item. \<not> is_external item \<or> interrupt_external)
      in (map close_tx (filter hit live), filter (\<lambda>item. \<not> hit item) live))"

section \<open>Selector\<close>

record SelectorOutbound =
  s_config :: SelectorOutboundConfig
  all_tags :: "string list"
  selected :: string
  cache_writer :: "CacheFile option"
  conns :: "ConnItem list"

definition first_or_default :: "string list \<Rightarrow> string" where
  "first_or_default xs = (case xs of [] \<Rightarrow> [] | x # _ \<Rightarrow> x)"

text \<open>\<open>saved\<close> is what the cache reader finds for the tag of the group, when there is a cache.\<close>

definition SelectorOutbound_new :: "SelectorOutboundConfig \<Rightarrow> CacheFile option \<Rightarrow> string option \<Rightarrow> SelectorOutbound" where
  "SelectorOutbound_new cfg writer saved =
     (let initial_tags = sc_outbounds cfg
      in \<lparr>s_config = cfg, all_tags = initial_tags,
          selected =
            (case saved of
               Some t \<Rightarrow> if t \<in> set initial_tags then t
                         else (case sc_default cfg of Some d \<Rightarrow> d | None \<Rightarrow> first_or_default initial_tags)
             | None \<Rightarrow> (case sc_default cfg of Some d \<Rightarrow> d | None \<Rightarrow> first_or_default initial_tags)),
          cache_writer = writer, conns = []\<rparr>)"

text \<open>The node list after an update of the providers; both groups compute it the same way.\<close>

definition push_new :: "string \<Rightarrow> string list \<Rightarrow> string list" where
  "push_new x acc = (if x \<in> set acc then acc else acc @ [x])"

definition merge_nodes :: "string list \<Rightarrow> string list \<Rightarrow> string list \<Rightarrow> string list" where
  "merge_nodes outbounds all provider_nodes = fold push_new provider_nodes (filter (\<lambda>t. t \<in> set all) outbounds)"

definition selector_refresh_nodes :: "string list \<Rightarrow> SelectorOutbound \<Rightarrow> SelectorOutbound" where
  "selector_refresh_nodes provider_nodes s =
     (let new_all = merge_nodes (sc_outbounds (s_config s)) (all_tags s) provider_nodes;
          cur = selected s;
          s = (if cur \<noteq> [] \<and> cur \<notin> set new_all \<and> new_all \<noteq> [] then s\<lparr>selected := hd new_all\<rparr> else s)
      in s\<lparr>all_tags := new_all\<rparr>)"

definition selector_current_tag :: "SelectorOutbound \<Rightarrow> string" where
  "selector_current_tag s =
     (if selected s \<in> set (all_tags s) then selected s else first_or_default (all_tags s))"

text \<open>The second component are the connections that get the interrupt signal.\<close>

definition set_selected :: "(nat \<Rightarrow> bool) \<Rightarrow> string \<Rightarrow> SelectorOutbound \<Rightarrow> (string + unit) \<times> nat list \<times> SelectorOutbound" where
  "set_selected ended t s =
     (if t \<notin> set (all_tags s)
      then (Inl (''selector '' @ quote1 (sc_tag (s_config s)) @ '' does not contain outbound '' @ quote1 t), [], s)
      else if selected s = t then (Inr (), [], s)
      else
        (let s = s\<lparr>selected := t, cache_writer := map_option (store_selected (sc_tag (s_config s)) t) (cache_writer s)\<rparr>;
             (sig, keep) = interrupt ended (interrupt_existing_connections (s_config s)) (conns s)
         in (Inr (), sig, s\<lparr>conns := keep\<rparr>)))"

definition lookup_outbound :: "(string \<Rightarrow> 'o option) \<Rightarrow> string \<Rightarrow> string + 'o" where
  "lookup_outbound registry t = ok_or (''outbound '' @ quote1 t @ '' not found'') (registry t)"

text \<open>
  What ends the two copies first: the upload, the download, or the interrupt. A copy that fails counts as
  zero bytes. The other copy is dropped with its count.
\<close>

datatype relay_end = UploadEnds "u64 option" | DownloadEnds "u64 option" | Interrupted

definition relay_with_interrupt :: "relay_end \<Rightarrow> u64 \<times> u64" where
  "relay_with_interrupt e =
     (case e of
        UploadEnds n \<Rightarrow> (case n of Some b \<Rightarrow> b | None \<Rightarrow> 0, 0)
      | DownloadEnds n \<Rightarrow> (0, case n of Some b \<Rightarrow> b | None \<Rightarrow> 0)
      | Interrupted \<Rightarrow> (0, 0))"

text \<open>
  A TCP connection through the selector. \<open>rx\<close> is the new interrupt receiver; \<open>connect\<close> is the connection of the chosen
  outbound, with \<open>None\<close> for its time-out; \<open>ends\<close> is how the relay of the connected stream ends.
\<close>

definition selector_handle_tcp ::
  "(string \<Rightarrow> 'o option) \<Rightarrow> (nat \<Rightarrow> bool) \<Rightarrow> nat \<Rightarrow> ('o \<Rightarrow> string \<Rightarrow> u16 \<Rightarrow> (string + 'r) option) \<Rightarrow> ('r \<Rightarrow> relay_end)
     \<Rightarrow> (IpAddr \<Rightarrow> string) \<Rightarrow> Target \<Rightarrow> SelectorOutbound \<Rightarrow> (string + u64 \<times> u64) \<times> SelectorOutbound" where
  "selector_handle_tcp registry ended rx connect ends show_addr target s =
     (case lookup_outbound registry (selector_current_tag s) of
        Inl e \<Rightarrow> (Inl e, s)
      | Inr outbound \<Rightarrow>
          (let s = s\<lparr>conns := InterruptGroup_register ended True rx (conns s)\<rparr>
           in (case connect outbound (target_host show_addr target) (target_port target) of
                 None \<Rightarrow> (Inl ''selector connect_tcp timeout'', s)
               | Some (Inl e) \<Rightarrow> (Inl e, s)
               | Some (Inr remote) \<Rightarrow> (Inr (relay_with_interrupt (ends remote)), s))))"

section \<open>Url-test\<close>

definition parse_probe_url :: "string \<Rightarrow> string + (string \<times> u16)" where
  "parse_probe_url url =
     (case (case strip_prefix ''https://'' url of Some r \<Rightarrow> Some (443, r)
            | None \<Rightarrow> (case strip_prefix ''http://'' url of Some r \<Rightarrow> Some (80, r) | None \<Rightarrow> None)) of
        None \<Rightarrow> Inl (''url-test url must start with http:// or https://: '' @ quote1 url)
      | Some (default_port, r) \<Rightarrow>
          (let authority = hd (split_on CHR ''/'' r)
           in if authority = [] then Inl (''url-test url missing host: '' @ quote1 url)
              else res_bind
                (case rsplit_once CHR '':'' authority of
                   Some (host, port) \<Rightarrow> res_bind (ok_or ''invalid digit'' (parse_uint 65535 port)) (\<lambda>p. Inr (host, word_of_nat p))
                 | None \<Rightarrow> Inr (authority, default_port))
                (\<lambda>(host, port). if host = [] then Inl (''url-test url missing host: '' @ quote1 url) else Inr (host, port))))"

definition parse_probe_path :: "string \<Rightarrow> string" where
  "parse_probe_path url =
     (let r = (case strip_prefix ''https://'' url of Some r \<Rightarrow> r
               | None \<Rightarrow> (case strip_prefix ''http://'' url of Some r \<Rightarrow> r | None \<Rightarrow> url));
          path = dropWhile (\<lambda>c. c \<noteq> CHR ''/'') r
      in if path = [] then ''/'' else path)"

text \<open>The request of a probe, and the check of the first bytes of the answer.\<close>

definition probe_request :: "string \<Rightarrow> string \<Rightarrow> bytes" where
  "probe_request host path =
     as_bytes (''HEAD '' @ path @ '' HTTP/1.1'' @ [CHR 0x0D, CHR 0x0A] @ ''Host: '' @ host @ [CHR 0x0D, CHR 0x0A]
       @ ''User-Agent: reflex/1.0'' @ [CHR 0x0D, CHR 0x0A] @ ''Connection: close'' @ [CHR 0x0D, CHR 0x0A, CHR 0x0D, CHR 0x0A])"

definition probe_response :: "string \<Rightarrow> bytes \<Rightarrow> string + unit" where
  "probe_response url got =
     (if got = [] then Inl (''probe: empty response from '' @ url)
      else if take 5 (take 256 got) = as_bytes ''HTTP/'' then Inr ()
      else Inl (''probe: non-HTTP response from '' @ url))"

datatype probe_task = Spawned "string list" | Probing "string list" | Finished

record UrlTestOutbound =
  u_config :: UrlTestOutboundConfig
  u_all_tags :: "string list"
  u_selected :: "string option"
  latencies :: "string \<Rightarrow> u64 option option"
  last_check :: "nat option"
  is_checking :: bool
  is_checking_arc :: bool
  probes :: "probe_task list"

definition UrlTestOutbound_new :: "UrlTestOutboundConfig \<Rightarrow> string + UrlTestOutbound" where
  "UrlTestOutbound_new cfg =
     (let has_providers = (case uc_providers cfg of Some p \<Rightarrow> pr_tags p \<noteq> [] | None \<Rightarrow> False)
      in if uc_outbounds cfg = [] \<and> \<not> has_providers then Inl (''url-test outbound '' @ quote1 (uc_tag cfg) @ '': outbounds is empty'')
         else res_bind (parse_probe_url (uc_url cfg)) (\<lambda>_.
           res_bind (parse_duration (uc_interval cfg)) (\<lambda>_.
           res_bind (parse_duration (uc_idle_timeout cfg)) (\<lambda>_.
             Inr \<lparr>u_config = cfg, u_all_tags = uc_outbounds cfg, u_selected = None, latencies = Map.empty,
                  last_check = None, is_checking = False, is_checking_arc = False, probes = []\<rparr>))))"

definition urltest_refresh_nodes :: "string list \<Rightarrow> UrlTestOutbound \<Rightarrow> UrlTestOutbound" where
  "urltest_refresh_nodes provider_nodes u =
     (let new_all = merge_nodes (uc_outbounds (u_config u)) (u_all_tags u) provider_nodes;
          sel = (case u_selected u of Some cur \<Rightarrow> if cur \<in> set new_all then Some cur else None | None \<Rightarrow> None)
      in u\<lparr>u_selected := sel, u_all_tags := new_all, last_check := None\<rparr>)"

text \<open>Times are in seconds.\<close>

definition should_check :: "nat \<Rightarrow> UrlTestOutbound \<Rightarrow> bool" where
  "should_check now u =
     (let interval = (case parse_duration (uc_interval (u_config u)) of Inr d \<Rightarrow> unat d | Inl _ \<Rightarrow> 180)
      in case last_check u of None \<Rightarrow> True | Some t \<Rightarrow> interval \<le> now - t)"

definition urltest_current_tag :: "nat \<Rightarrow> UrlTestOutbound \<Rightarrow> string \<times> UrlTestOutbound" where
  "urltest_current_tag now u =
     (let u = (if should_check now u \<and> \<not> is_checking u
               then u\<lparr>is_checking := True, probes := probes u @ [Spawned (u_all_tags u)]\<rparr> else u)
      in (case u_selected u of Some t \<Rightarrow> t | None \<Rightarrow> first_or_default (u_all_tags u), u))"

text \<open>
  A background probe sets the time of the check when it starts. When it ends, \<open>results\<close> are the outcomes of the probes
  of its snapshot of the node list and \<open>order\<close> is the order in which the hash map of the results is iterated.
\<close>

definition probe_start :: "nat \<Rightarrow> nat \<Rightarrow> UrlTestOutbound \<Rightarrow> UrlTestOutbound" where
  "probe_start now k u =
     (case probes u ! k of
        Spawned tags \<Rightarrow>
          (let u = u\<lparr>last_check := Some now\<rparr>
           in (case parse_probe_url (uc_url (u_config u)) of
                 Inl _ \<Rightarrow> u\<lparr>probes := (probes u)[k := Finished], is_checking_arc := False\<rparr>
               | Inr _ \<Rightarrow> u\<lparr>probes := (probes u)[k := Probing tags]\<rparr>))
      | _ \<Rightarrow> u)"

definition best_probe :: "(string \<Rightarrow> u64 option option) \<Rightarrow> string list \<Rightarrow> (string \<times> u64) option" where
  "best_probe measured order =
     min_by_key (\<lambda>(_, l). unat l)
       (List.map_filter (\<lambda>t. case measured t of Some (Some l) \<Rightarrow> Some (t, l) | _ \<Rightarrow> None) order)"

definition choose_node :: "u64 \<Rightarrow> (string \<Rightarrow> u64 option option) \<Rightarrow> string list \<Rightarrow> string option \<Rightarrow> string option" where
  "choose_node tolerance measured order cur =
     (case best_probe measured order of
        None \<Rightarrow> cur
      | Some (best_tag, best_latency) \<Rightarrow>
          (case cur of
             None \<Rightarrow> Some best_tag
           | Some c \<Rightarrow>
               (case measured c of
                  Some (Some l) \<Rightarrow> if l \<le> best_latency + tolerance then Some c else Some best_tag
                | _ \<Rightarrow> Some best_tag)))"

definition probe_end :: "(string \<times> u64 option) list \<Rightarrow> string list \<Rightarrow> nat \<Rightarrow> UrlTestOutbound \<Rightarrow> UrlTestOutbound" where
  "probe_end results order k u =
     (let measured = map_of (rev results)
      in u\<lparr>u_selected := choose_node (uc_tolerance (u_config u)) measured order (u_selected u),
           latencies := measured, is_checking_arc := False, probes := (probes u)[k := Finished]\<rparr>)"

definition force_selected :: "string \<Rightarrow> UrlTestOutbound \<Rightarrow> (string + unit) \<times> UrlTestOutbound" where
  "force_selected t u =
     (if t \<notin> set (u_all_tags u)
      then (Inl (''url-test '' @ quote1 (uc_tag (u_config u)) @ '' does not contain outbound '' @ quote1 t), u)
      else (Inr (), u\<lparr>u_selected := Some t\<rparr>))"

definition urltest_handle_tcp ::
  "(string \<Rightarrow> 'o option) \<Rightarrow> nat \<Rightarrow> ('o \<Rightarrow> string + u64 \<times> u64) \<Rightarrow> UrlTestOutbound \<Rightarrow> (string + u64 \<times> u64) \<times> UrlTestOutbound" where
  "urltest_handle_tcp registry now handle u =
     (let (t, u) = urltest_current_tag now u
      in (res_bind (lookup_outbound registry t) handle, u))"

section \<open>Status\<close>

record OutboundStatus =
  st_name :: string
  type_name :: string
  now_tag :: "string option"
  st_all :: "string list"
  st_history :: "(string \<times> u64) list"

definition selector_status :: "SelectorOutbound \<Rightarrow> OutboundStatus" where
  "selector_status s =
     \<lparr>st_name = sc_tag (s_config s), type_name = ''Selector'', now_tag = Some (selector_current_tag s),
      st_all = all_tags s, st_history = []\<rparr>"

text \<open>\<open>order\<close> is the order in which the hash map of the latencies is iterated.\<close>

definition status_snapshot :: "string list \<Rightarrow> UrlTestOutbound \<Rightarrow> OutboundStatus" where
  "status_snapshot order u =
     \<lparr>st_name = uc_tag (u_config u), type_name = ''URLTest'',
      now_tag = (case u_selected u of Some t \<Rightarrow> Some t
                 | None \<Rightarrow> (case u_all_tags u of [] \<Rightarrow> None | t # _ \<Rightarrow> Some t)),
      st_all = u_all_tags u,
      st_history = List.map_filter (\<lambda>t. case latencies u t of Some (Some l) \<Rightarrow> Some (t, l) | _ \<Rightarrow> None) order\<rparr>"

section \<open>The choice of a url-test group\<close>

lemma map_filter_mem: "y \<in> set (List.map_filter f xs) \<longleftrightarrow> (\<exists>x \<in> set xs. f x = Some y)"
  by (induction xs) (auto simp: List.map_filter_simps split: option.split)

lemma best_probe_Some:
  assumes "measured t = Some (Some l)" "t \<in> set order"
  shows "\<exists>bt bl. best_probe measured order = Some (bt, bl) \<and> measured bt = Some (Some bl)
           \<and> (\<forall>t' \<in> set order. \<forall>l'. measured t' = Some (Some l') \<longrightarrow> unat bl \<le> unat l')"
proof -
  let ?f = "\<lambda>t. case measured t of Some (Some l) \<Rightarrow> Some (t, l) | _ \<Rightarrow> None"
  have f: "?f x = Some (t', l') \<longleftrightarrow> x = t' \<and> measured t' = Some (Some l')" for x t' l'
    by (cases "measured x") (auto split: option.split)
  have elems: "(t', l') \<in> set (List.map_filter ?f order) \<longleftrightarrow> t' \<in> set order \<and> measured t' = Some (Some l')" for t' l'
    by (auto simp: map_filter_mem f)
  with assms have "List.map_filter ?f order \<noteq> []" by (metis empty_iff list.set(1))
  from min_by_key_Some [OF this, of "\<lambda>(_, l). unat l"] obtain bt bl
    where b: "(bt, bl) \<in> set (List.map_filter ?f order)" "best_probe measured order = Some (bt, bl)"
      "\<forall>x \<in> set (List.map_filter ?f order). unat bl \<le> (case x of (_, l) \<Rightarrow> unat l)"
    unfolding best_probe_def by auto
  have "unat bl \<le> unat l'" if "t' \<in> set order" "measured t' = Some (Some l')" for t' l'
    using b(3) elems [of t' l'] that by fastforce
  with b(1,2) elems show ?thesis by blast
qed

lemma best_probe_None: "(\<forall>t \<in> set order. \<forall>l. measured t \<noteq> Some (Some l)) \<Longrightarrow> best_probe measured order = None"
  by (simp add: best_probe_def List.map_filter_def filter_empty_conv split: option.split)

definition near_best :: "(string \<Rightarrow> u64 option option) \<Rightarrow> u64 \<Rightarrow> string \<Rightarrow> bool" where
  "near_best measured tolerance t \<longleftrightarrow>
     (\<exists>l. measured t = Some (Some l)
        \<and> (\<forall>t' l'. measured t' = Some (Some l') \<longrightarrow> unat l \<le> unat l' + unat tolerance))"

lemma choose_node_near:
  assumes ord: "\<And>t l. m t = Some (Some l) \<Longrightarrow> t \<in> set order"
    and small: "\<And>t l. m t = Some (Some l) \<Longrightarrow> unat l + unat tol < 2 ^ 64"
    and some: "\<exists>t l. m t = Some (Some l)"
  shows "\<exists>t. choose_node tol m order cur = Some t \<and> near_best m tol t \<and> (\<forall>c. cur = Some c \<and> near_best m tol c \<longrightarrow> t = c)"
proof -
  from some obtain t l where "m t = Some (Some l)" by blast
  from best_probe_Some [of m t l order, OF this ord [OF this]] obtain bt bl
    where b: "best_probe m order = Some (bt, bl)" "m bt = Some (Some bl)"
      and least: "\<forall>t' \<in> set order. \<forall>l'. m t' = Some (Some l') \<longrightarrow> unat bl \<le> unat l'" by blast
  have add: "unat (bl + tol) = unat bl + unat tol" using small [OF b(2)] by (simp add: unat_word_ariths)
  have near: "near_best m tol c \<longleftrightarrow> (\<exists>l. m c = Some (Some l) \<and> l \<le> bl + tol)" for c
  proof
    assume "near_best m tol c"
    then show "\<exists>l. m c = Some (Some l) \<and> l \<le> bl + tol" using b(2) add by (auto simp: near_best_def word_le_nat_alt)
  next
    assume "\<exists>l. m c = Some (Some l) \<and> l \<le> bl + tol"
    then obtain l where l: "m c = Some (Some l)" "unat l \<le> unat bl + unat tol" using add by (auto simp: word_le_nat_alt)
    have "unat l \<le> unat l' + unat tol" if "m t' = Some (Some l')" for t' l'
      using least ord [OF that] that l(2) by fastforce
    with l(1) show "near_best m tol c" by (auto simp: near_best_def)
  qed
  have best: "near_best m tol bt" using b(2) add by (auto simp: near word_le_nat_alt)
  show ?thesis
  proof (cases "\<exists>c. cur = Some c \<and> near_best m tol c")
    case True
    then show ?thesis using b(1) near by (auto simp: choose_node_def)
  next
    case False
    then have "choose_node tol m order cur = Some bt"
      using b(1) near by (auto simp: choose_node_def split: option.split)
    with best False show ?thesis by blast
  qed
qed

section \<open>Histories of a url-test group\<close>

inductive urltest_step :: "UrlTestOutbound \<Rightarrow> UrlTestOutbound \<Rightarrow> bool" where
  connection: "urltest_step u (snd (urltest_current_tag now u))"
| starts: "k < length (probes u) \<Longrightarrow> urltest_step u (probe_start now k u)"
| ends: "k < length (probes u) \<Longrightarrow> probes u ! k = Probing tags \<Longrightarrow> map fst results = tags
         \<Longrightarrow> set order = set tags \<Longrightarrow> urltest_step u (probe_end results order k u)"
| nodes: "urltest_step u (urltest_refresh_nodes provider_nodes u)"
| forced: "urltest_step u (snd (force_selected t u))"

inductive urltest_reachable :: "UrlTestOutboundConfig \<Rightarrow> UrlTestOutbound \<Rightarrow> bool" for cfg where
  created: "UrlTestOutbound_new cfg = Inr u \<Longrightarrow> urltest_reachable cfg u"
| step: "urltest_reachable cfg u \<Longrightarrow> urltest_step u u' \<Longrightarrow> urltest_reachable cfg u'"

definition probed_once :: "UrlTestOutbound \<Rightarrow> bool" where
  "probed_once u \<longleftrightarrow> length (probes u) \<le> 1 \<and> (is_checking u \<longleftrightarrow> probes u \<noteq> []) \<and> (probes u = [] \<longrightarrow> last_check u = None)"

lemma probe_start_fields:
  "length (probes (probe_start now k u)) = length (probes u)" "is_checking (probe_start now k u) = is_checking u"
  by (auto simp: probe_start_def Let_def split: probe_task.split sum.split)

lemma urltest_step_probed_once: "urltest_step u u' \<Longrightarrow> probed_once u \<Longrightarrow> probed_once u'"
proof (induction rule: urltest_step.induct)
  case (starts k u now)
  then show ?case using probe_start_fields [of now k u] by (auto simp: probed_once_def simp flip: length_0_conv)
qed (auto simp: probed_once_def urltest_current_tag_def probe_end_def urltest_refresh_nodes_def force_selected_def Let_def)

lemma UrlTestOutbound_new_probed_once: "UrlTestOutbound_new cfg = Inr u \<Longrightarrow> probed_once u"
  by (auto simp: UrlTestOutbound_new_def Let_def probed_once_def result_simps split: if_splits)

lemma urltest_reachable_probed_once: "urltest_reachable cfg u \<Longrightarrow> probed_once u"
  by (induction rule: urltest_reachable.induct) (auto simp: UrlTestOutbound_new_probed_once urltest_step_probed_once)

section \<open>The persisted choice\<close>

lemma set_selected_cases:
  obtains (absent) "t \<notin> set (all_tags s)" "snd (snd (set_selected ended t s)) = s"
  | (same) "t \<in> set (all_tags s)" "selected s = t" "snd (snd (set_selected ended t s)) = s"
  | (switched) "t \<in> set (all_tags s)" "selected s \<noteq> t"
      "snd (snd (set_selected ended t s)) =
         s\<lparr>selected := t, cache_writer := map_option (store_selected (sc_tag (s_config s)) t) (cache_writer s),
           conns := snd (interrupt ended (interrupt_existing_connections (s_config s)) (conns s))\<rparr>"
  by (cases "t \<in> set (all_tags s)"; cases "selected s = t")
    (auto simp: set_selected_def Let_def split: prod.split)

text \<open>What the database holds for the group once the pending operations are committed.\<close>

definition committed_choice ::
  "('f, 'd, 's, 'r) redb \<Rightarrow> nat \<Rightarrow> ('f, 'd, 's, 'r) Database \<Rightarrow> string \<Rightarrow> CacheFile \<Rightarrow> string option" where
  "committed_choice rd days db grp cf = load_selected rd (Some (write_loop rd days (commits (write_tx cf)) db)) grp"

lemma write_loop_snoc_selected:
  "\<forall>op \<in> set ops. op \<noteq> Shutdown \<Longrightarrow>
   write_loop rd days (commits (ops @ [StoreSelected g t])) db =
   apply_op rd (StoreSelected g t) (write_loop rd days (commits ops) db)"
proof (induction ops arbitrary: db)
  case (Cons op ops)
  then show ?case by (cases op) (simp_all add: commits_def)
qed (simp add: commits_def)

definition select_all :: "(nat \<Rightarrow> bool) \<Rightarrow> string list \<Rightarrow> SelectorOutbound \<Rightarrow> SelectorOutbound" where
  "select_all ended ts s = fold (\<lambda>t s. snd (snd (set_selected ended t s))) ts s"

definition choice_kept ::
  "('f, 'd, 's, 'r) redb \<Rightarrow> nat \<Rightarrow> ('f, 'd, 's, 'r) Database \<Rightarrow> SelectorOutbound \<Rightarrow> bool" where
  "choice_kept rd days db s \<longleftrightarrow> all_tags s = sc_outbounds (s_config s) \<and>
     (case cache_writer s of
        None \<Rightarrow> False
      | Some cf \<Rightarrow> (\<forall>op \<in> set (write_tx cf). op \<noteq> Shutdown)
          \<and> selected s = selected (SelectorOutbound_new (s_config s) None (committed_choice rd days db (sc_tag (s_config s)) cf)))"

lemma choice_kept_step:
  assumes laws: "table_laws (s_ops rd)" and kept: "choice_kept rd days db s"
  shows "choice_kept rd days db (snd (snd (set_selected ended t s)))"
proof (cases rule: set_selected_cases [of t s ended])
  case switched
  from kept obtain cf where cf: "cache_writer s = Some cf" "\<forall>op \<in> set (write_tx cf). op \<noteq> Shutdown"
    "all_tags s = sc_outbounds (s_config s)"
    by (auto simp: choice_kept_def split: option.splits)
  have "committed_choice rd days db (sc_tag (s_config s)) (store_selected (sc_tag (s_config s)) t cf) = Some t"
    using write_loop_snoc_selected [OF cf(2), of rd days "sc_tag (s_config s)" t db] laws
    by (simp add: committed_choice_def store_selected_def send_op_def load_selected_def table_laws_simps)
  then show ?thesis
    using cf switched by (auto simp: choice_kept_def SelectorOutbound_new_def Let_def store_selected_def send_op_def)
qed (use kept in simp_all)

lemma choice_kept_all: "table_laws (s_ops rd) \<Longrightarrow> choice_kept rd days db s \<Longrightarrow> choice_kept rd days db (select_all ended ts s)"
  by (induction ts arbitrary: s) (simp_all add: select_all_def choice_kept_step)

lemma select_all_config [simp]: "s_config (select_all ended ts s) = s_config s"
proof (induction ts arbitrary: s)
  case (Cons t ts)
  have "s_config (snd (snd (set_selected ended t s))) = s_config s"
    by (cases rule: set_selected_cases [of t s ended]) simp_all
  with Cons show ?case by (simp add: select_all_def)
qed (simp add: select_all_def)

section \<open>Properties\<close>

text \<open>
  The choice of a selector survives a restart. After any sequence of choices, once the operations it sent to the
  persistent cache are committed, a selector created from the same configuration with what the cache holds uses the
  same outbound.
\<close>

theorem selection_survives_restart:
  assumes "table_laws (s_ops rd)"
    and "s = select_all ended ts (SelectorOutbound_new cfg (Some \<lparr>write_tx = [], cf_store_fakeip = f, cf_store_dns = d\<rparr>)
               (load_selected rd (Some db) (sc_tag cfg)))"
    and "cache_writer s = Some cf"
    and "db' = write_loop rd days (commits (write_tx cf)) db"
  shows "selector_current_tag (SelectorOutbound_new cfg writer (load_selected rd (Some db') (sc_tag cfg))) = selector_current_tag s"
proof -
  let ?s0 = "SelectorOutbound_new cfg (Some \<lparr>write_tx = [], cf_store_fakeip = f, cf_store_dns = d\<rparr>) (load_selected rd (Some db) (sc_tag cfg))"
  have "choice_kept rd days db ?s0"
    by (simp add: choice_kept_def SelectorOutbound_new_def Let_def committed_choice_def commits_def)
  then have k: "choice_kept rd days db s" using choice_kept_all [OF assms(1)] assms(2) by blast
  have c: "s_config s = cfg" using assms(2) by (simp add: SelectorOutbound_new_def Let_def)
  with k assms(3,4) have "selected s = selected (SelectorOutbound_new cfg writer (load_selected rd (Some db') (sc_tag cfg)))"
    "all_tags s = sc_outbounds cfg"
    by (auto simp: choice_kept_def committed_choice_def SelectorOutbound_new_def Let_def)
  then show ?thesis by (simp add: selector_current_tag_def SelectorOutbound_new_def Let_def)
qed

definition demo_selector :: SelectorOutboundConfig where
  "demo_selector = \<lparr>sc_tag = ''proxy'', sc_outbounds = [''a'', ''b''], sc_providers = None, sc_default = Some ''a'',
     interrupt_existing_connections = True\<rparr>"

definition demo_choice :: SelectorOutbound where
  "demo_choice = select_all (\<lambda>_. False) [''b''] (SelectorOutbound_new demo_selector (Some \<lparr>write_tx = [], cf_store_fakeip = False, cf_store_dns = False\<rparr>)
     (load_selected alist_redb (Some empty_db) (sc_tag demo_selector)))"

theorem selection_survives_restart_witness:
  "\<exists>db'. selector_current_tag (SelectorOutbound_new demo_selector None (load_selected alist_redb (Some db') ''proxy'')) = ''b''"
proof -
  have w: "cache_writer demo_choice = Some \<lparr>write_tx = [StoreSelected ''proxy'' ''b''], cf_store_fakeip = False, cf_store_dns = False\<rparr>"
    "selector_current_tag demo_choice = ''b''" by code_simp+
  have "table_laws (s_ops alist_redb)" by (simp add: alist_redb_def alist_table_laws)
  from selection_survives_restart [OF this demo_choice_def w(1) refl, of None 0] show ?thesis
    unfolding w(2) by (auto simp: demo_selector_def)
qed

text \<open>
  A probe of a url-test group that ends chooses a node that answered and that is slower than no other node by more
  than the tolerance; it keeps the current node when that is such a node. When no node answered the choice does not
  change.
\<close>

theorem url_test_choice:
  assumes "set order = dom (map_of (rev results))"
    and "\<forall>t l. map_of (rev results) t = Some (Some l) \<longrightarrow> unat l + unat (uc_tolerance (u_config u)) < 2 ^ 64"
    and "u' = probe_end results order k u"
  shows "if \<exists>t l. map_of (rev results) t = Some (Some l)
    then \<exists>t. u_selected u' = Some t \<and> near_best (map_of (rev results)) (uc_tolerance (u_config u)) t
           \<and> (\<forall>c. u_selected u = Some c \<and> near_best (map_of (rev results)) (uc_tolerance (u_config u)) c \<longrightarrow> t = c)
    else u_selected u' = u_selected u"
proof -
  let ?m = "map_of (rev results)" and ?tol = "uc_tolerance (u_config u)"
  have sel: "u_selected u' = choose_node ?tol ?m order (u_selected u)" by (simp add: assms(3) probe_end_def Let_def)
  have ord: "\<And>t l. ?m t = Some (Some l) \<Longrightarrow> t \<in> set order" using assms(1) by (auto simp: dom_def)
  show ?thesis
  proof (cases "\<exists>t l. ?m t = Some (Some l)")
    case True
    from choose_node_near [OF ord assms(2) [rule_format]] True show ?thesis unfolding sel by simp
  next
    case False
    then show ?thesis using best_probe_None [of order ?m] by (auto simp: sel choose_node_def)
  qed
qed

definition demo_group :: UrlTestOutbound where
  "demo_group = \<lparr>u_config = \<lparr>uc_tag = ''auto'', uc_outbounds = [''a'', ''b''], uc_providers = None,
       uc_url = ''https://www.gstatic.com/generate_204'', uc_interval = ''3m'', uc_idle_timeout = ''30m'', uc_tolerance = 50\<rparr>,
     u_all_tags = [''a'', ''b''], u_selected = Some ''a'', latencies = Map.empty, last_check = Some 0, is_checking = True,
     is_checking_arc = False, probes = [Probing [''a'', ''b'']]\<rparr>"

theorem url_test_choice_witness:
  "\<exists>t. u_selected (probe_end [(''a'', Some 200), (''b'', Some 100)] [''b'', ''a''] 0 demo_group) = Some t
     \<and> near_best (map_of [(''b'', Some 100), (''a'', Some 200)]) 50 t"
proof -
  have "set [''b'', ''a''] = dom (map_of (rev [(''a'', Some 200), (''b'', Some 100)]))" by auto
  moreover have "\<forall>t l. map_of (rev [(''a'', Some 200), (''b'', Some (100 :: u64))]) t = Some (Some l)
      \<longrightarrow> unat l + unat (uc_tolerance (u_config demo_group)) < 2 ^ 64" by (auto simp: demo_group_def)
  moreover have "\<exists>t l. map_of (rev [(''a'', Some 200), (''b'', Some (100 :: u64))]) t = Some (Some l)"
    by (intro exI [of _ "''b''"] exI [of _ 100]) simp
  ultimately show ?thesis
    using url_test_choice [OF _ _ refl, of "[''b'', ''a'']" "[(''a'', Some 200), (''b'', Some 100)]" demo_group 0]
    by (auto simp: demo_group_def)
qed

text \<open>
  A url-test group probes its nodes only once. The first connection starts a probe; from then on no connection
  starts another one, however much time has passed and whether or not the first has ended, because the end of a probe
  resets a flag that nothing reads.
\<close>

theorem url_test_probes_once:
  assumes "urltest_reachable cfg u"
  shows "length (probes u) \<le> 1
    \<and> probes (snd (urltest_current_tag now u)) = (if probes u = [] then [Spawned (u_all_tags u)] else probes u)"
  using urltest_reachable_probed_once [OF assms]
  by (auto simp: probed_once_def urltest_current_tag_def should_check_def Let_def)

theorem url_test_probes_once_witness:
  "\<exists>u. UrlTestOutbound_new (u_config demo_group) = Inr u
     \<and> probes (snd (urltest_current_tag 100000 (snd (urltest_current_tag 5 u)))) = [Spawned [''a'', ''b'']]"
proof -
  have n: "\<not> isl (UrlTestOutbound_new (u_config demo_group))" by code_simp
  then obtain u where u: "UrlTestOutbound_new (u_config demo_group) = Inr u" by (cases "UrlTestOutbound_new (u_config demo_group)") auto
  then have f: "probes u = []" "u_all_tags u = [''a'', ''b'']"
    by (auto simp: UrlTestOutbound_new_def Let_def result_simps demo_group_def split: if_splits)
  have r: "urltest_reachable (u_config demo_group) u" using u by (rule urltest_reachable.created)
  then have "probes (snd (urltest_current_tag 5 u)) = [Spawned [''a'', ''b'']]"
    using url_test_probes_once [OF r, of 5] f by simp
  with url_test_probes_once [OF urltest_reachable.step [OF r urltest_step.connection [of u 5]], of 100000] u
  show ?thesis by auto
qed

section \<open>Observations\<close>

text \<open>
  The relay of a selector ends with the direction that ends first, and only the bytes of that direction are counted.
\<close>

lemma relay_counts_one_direction: "fst (relay_with_interrupt e) = 0 \<or> snd (relay_with_interrupt e) = 0"
  by (auto simp: relay_with_interrupt_def split: relay_end.split option.split)

text \<open>The persisted choice of a node that comes from a provider is not restored: only the static outbounds are known then.\<close>

lemma provider_choice_not_restored:
  assumes "t \<notin> set (sc_outbounds cfg)" "set (sc_outbounds cfg) \<noteq> {}"
  shows "selector_current_tag (SelectorOutbound_new cfg writer (Some t)) \<noteq> t"
  using assms
  by (auto simp: selector_current_tag_def SelectorOutbound_new_def first_or_default_def Let_def split: option.splits list.splits)

end
