(* ===== verification/Stream_Io.thy ===== *)
theory Stream_Io
  imports Route_Config Addr_Text
begin

text \<open>
  Code that talks over a byte stream. A handshake is a value of type \<open>proc\<close>: what it does next (read exactly so many
  bytes, look at the next byte, write) and how it goes on. The theory gives the meaning of such a value on a given
  input and the interleavings of two of them at the two ends of a connection, and shows that the end of a conversation
  does not depend on the interleaving.
\<close>

section \<open>Programs over a stream\<close>

datatype 'a proc =
    Ret 'a
  | Err string
  | Read nat "bytes \<Rightarrow> 'a proc"
  | Peek "u8 \<Rightarrow> 'a proc"
  | Write bytes "'a proc"

definition read_u8 :: "(u8 \<Rightarrow> 'a proc) \<Rightarrow> 'a proc" where
  "read_u8 k = Read 1 (\<lambda>bs. k (hd bs))"

definition read_u16 :: "(u16 \<Rightarrow> 'a proc) \<Rightarrow> 'a proc" where
  "read_u16 k = Read 2 (\<lambda>bs. k (u16_of_be bs))"

definition ensure :: "bool \<Rightarrow> string \<Rightarrow> 'a proc \<Rightarrow> 'a proc" where
  "ensure b e p = (if b then p else Err e)"

primrec proc_bind :: "'a proc \<Rightarrow> ('a \<Rightarrow> 'b proc) \<Rightarrow> 'b proc" where
  "proc_bind (Ret x) f = f x"
| "proc_bind (Err e) f = Err e"
| "proc_bind (Read n k) f = Read n (\<lambda>bs. proc_bind (k bs) f)"
| "proc_bind (Peek k) f = Peek (\<lambda>b. proc_bind (k b) f)"
| "proc_bind (Write bs p) f = Write bs (proc_bind p f)"

text \<open>The question mark operator on a value that is already there.\<close>

definition of_result :: "string + 'a \<Rightarrow> 'a proc" where
  "of_result r = (case r of Inl e \<Rightarrow> Err e | Inr x \<Rightarrow> Ret x)"

text \<open>
  On the given input, after which the peer closes: the result, the bytes written, the input left. A peek at the end
  of the input leaves its buffer zero.
\<close>

primrec run :: "'a proc \<Rightarrow> bytes \<Rightarrow> (string + 'a) \<times> bytes \<times> bytes" where
  "run (Ret x) inp = (Inr x, [], inp)"
| "run (Err e) inp = (Inl e, [], inp)"
| "run (Read n k) inp =
     (if n \<le> length inp then run (k (take n inp)) (drop n inp) else (Inl ''early eof'', [], inp))"
| "run (Peek k) inp = run (k (if inp = [] then 0 else hd inp)) inp"
| "run (Write bs p) inp = (let (r, out, rest) = run p inp in (r, bs @ out, rest))"

lemma proc_bind_assoc [simp]: "proc_bind (proc_bind p f) g = proc_bind p (\<lambda>x. proc_bind (f x) g)"
  by (induction p) auto

lemma proc_bind_ops [simp]:
  "proc_bind (read_u8 k) f = read_u8 (\<lambda>b. proc_bind (k b) f)"
  "proc_bind (read_u16 k16) f = read_u16 (\<lambda>w. proc_bind (k16 w) f)"
  "proc_bind (ensure c e p) f = ensure c e (proc_bind p f)"
  by (auto simp: read_u8_def read_u16_def ensure_def)

lemma ensure_simps [simp]: "ensure True e p = p" "ensure False e p = Err e"
  by (simp_all add: ensure_def)

lemma of_result_simps [simp]: "of_result (Inr x) = Ret x" "of_result (Inl e) = Err e"
  by (simp_all add: of_result_def)

lemma run_bind:
  "run (proc_bind p f) inp =
     (case run p inp of
        (Inl e, out, rest) \<Rightarrow> (Inl e, out, rest)
      | (Inr x, out, rest) \<Rightarrow> (let (r, out', rest') = run (f x) rest in (r, out @ out', rest')))"
  by (induction p arbitrary: inp) (auto simp: Let_def split: prod.splits sum.splits)

lemma run_u8 [simp]: "run (read_u8 k) (b # bs) = run (k b) bs"
  by (simp add: read_u8_def)

text \<open>What a program leaves of its input is a suffix of it.\<close>

lemma run_suffix: "run p inp = (r, out, rest) \<Longrightarrow> \<exists>used. inp = used @ rest"
proof (induction p arbitrary: inp r out)
  case (Read n k)
  show ?case
  proof (cases "n \<le> length inp")
    case True
    with Read.prems have "run (k (take n inp)) (drop n inp) = (r, out, rest)" by simp
    from Read.IH [OF _ this] obtain used where "drop n inp = used @ rest" by auto
    then have "inp = (take n inp @ used) @ rest" by (metis append_assoc append_take_drop_id)
    then show ?thesis by blast
  next
    case False
    with Read.prems show ?thesis by auto
  qed
next
  case (Peek k)
  from Peek.IH [OF rangeI] Peek.prems show ?case by simp
qed (auto simp: Let_def split: prod.splits)

section \<open>Two ends of a connection\<close>

text \<open>One step of a program on the bytes that have arrived: how it goes on, the bytes left, the bytes written.\<close>

fun advance :: "'a proc \<Rightarrow> bytes \<Rightarrow> ('a proc \<times> bytes \<times> bytes) option" where
  "advance (Read n k) inp = (if n \<le> length inp then Some (k (take n inp), drop n inp, []) else None)"
| "advance (Peek k) inp = (if inp = [] then None else Some (k (hd inp), inp, []))"
| "advance (Write bs p) inp = Some (p, inp, bs)"
| "advance _ inp = None"

text \<open>A connection: the programs of the client and of the server, the bytes on their way up and down.\<close>

type_synonym ('a, 'b) session = "'a proc \<times> 'b proc \<times> bytes \<times> bytes"

inductive session_step :: "('a, 'b) session \<Rightarrow> ('a, 'b) session \<Rightarrow> bool" where
  client_step: "advance c dn = Some (c', dn', out) \<Longrightarrow> session_step (c, s, up, dn) (c', s, up @ out, dn')"
| server_step: "advance s up = Some (s', up', out) \<Longrightarrow> session_step (c, s, up, dn) (c, s', up', dn @ out)"

inductive_cases session_stepE: "session_step (c, s, up, dn) st"

definition session_end :: "('a, 'b) session \<Rightarrow> bool" where
  "session_end st \<longleftrightarrow> \<not> (\<exists>st'. session_step st st')"

text \<open>The bytes that arrive later do not change a step that is possible now.\<close>

lemma advance_append: "advance p inp = Some (p', rest, out) \<Longrightarrow> advance p (inp @ later) = Some (p', rest @ later, out)"
  by (cases p) (auto split: if_splits)

text \<open>One end never disturbs the other: two different steps from a state can be done in either order.\<close>

lemma session_diamond:
  assumes "session_step x y" "session_step x z"
  shows "y = z \<or> (\<exists>w. session_step y w \<and> session_step z w)"
proof -
  obtain c s up dn where x: "x = (c, s, up, dn)" by (cases x)
  have swap: "session_step (c', s, up @ out, dn') (c', s', up' @ out, dn' @ out')
      \<and> session_step (c, s', up', dn @ out') (c', s', up' @ out, dn' @ out')"
    if "advance c dn = Some (c', dn', out)" "advance s up = Some (s', up', out')" for c' dn' out s' up' out'
    using that by (auto intro: session_step.intros dest: advance_append)
  from assms show ?thesis unfolding x by (elim session_stepE) (auto dest: swap)
qed

lemma session_step_shortens:
  assumes "(session_step ^^ n) x f" "session_end f" "session_step x y"
  shows "\<exists>m. n = Suc m \<and> (session_step ^^ m) y f"
  using assms
proof (induction n arbitrary: x y)
  case 0
  then have "x = f" by simp
  with 0(2,3) have False unfolding session_end_def by blast
  then show ?case ..
next
  case (Suc n)
  from Suc.prems(1) obtain z where z: "session_step x z" "(session_step ^^ n) z f" by (meson relpowp_Suc_E2)
  from session_diamond [OF Suc.prems(3) z(1)] show ?case
  proof
    assume "y = z"
    with z(2) show ?thesis by auto
  next
    assume "\<exists>w. session_step y w \<and> session_step z w"
    then obtain w where w: "session_step y w" "session_step z w" by blast
    from Suc.IH [OF z(2) Suc.prems(2) w(2)] obtain m where "n = Suc m" "(session_step ^^ m) w f" by blast
    with w(1) show ?thesis by (metis relpowp_Suc_I2)
  qed
qed

text \<open>
  The conversation that starts in a state comes to a given end: the end is reached, and nothing more happens there.
  By the lemmas below every interleaving then comes to this end, after the same number of steps.
\<close>

definition comes_to :: "('a, 'b) session \<Rightarrow> ('a, 'b) session \<Rightarrow> bool" where
  "comes_to x f \<longleftrightarrow> session_step\<^sup>*\<^sup>* x f \<and> session_end f"

lemma comes_to_step:
  assumes "session_step x y"
  shows "comes_to x f \<longleftrightarrow> comes_to y f"
proof
  assume "comes_to x f"
  then obtain n where n: "(session_step ^^ n) x f" "session_end f" by (auto simp: comes_to_def rtranclp_power)
  from session_step_shortens [OF n assms] n(2) show "comes_to y f" by (auto simp: comes_to_def rtranclp_power)
next
  assume "comes_to y f"
  with assms show "comes_to x f" by (auto simp: comes_to_def)
qed

theorem comes_to_always:
  assumes "comes_to x f" "session_step\<^sup>*\<^sup>* x y"
  shows "session_step\<^sup>*\<^sup>* y f"
proof -
  from assms(2,1) have "comes_to y f" by (induction rule: rtranclp_induct) (auto simp: comes_to_step)
  then show ?thesis by (simp add: comes_to_def)
qed

theorem comes_to_bounded: "comes_to x f \<Longrightarrow> \<exists>n. \<forall>m y. (session_step ^^ m) x y \<longrightarrow> m \<le> n"
proof -
  assume "comes_to x f"
  then obtain n where n: "(session_step ^^ n) x f" "session_end f" by (auto simp: comes_to_def rtranclp_power)
  have "m \<le> n" if "(session_step ^^ m) x y" for m y
    using that n
  proof (induction m arbitrary: x n)
    case (Suc m)
    from Suc.prems(1) obtain z where z: "session_step x z" "(session_step ^^ m) z y" by (meson relpowp_Suc_E2)
    from session_step_shortens [OF Suc.prems(2,3) z(1)] obtain k where k: "n = Suc k" "(session_step ^^ k) z f" by blast
    from Suc.IH [OF z(2) k(2) Suc.prems(3)] k(1) show ?case by simp
  qed simp
  then show ?thesis by blast
qed

section \<open>Following a conversation\<close>

named_theorems talk

lemma comes_to_write [talk]:
  "comes_to (Write bs c, s, up, dn) f \<longleftrightarrow> comes_to (c, s, up @ bs, dn) f"
  "comes_to (c', Write bs s', up, dn) f' \<longleftrightarrow> comes_to (c', s', up, dn @ bs) f'"
  by (rule comes_to_step, simp add: session_step.simps)+

lemma comes_to_read [talk]:
  "n \<le> length dn \<Longrightarrow> comes_to (Read n k, s, up, dn) f \<longleftrightarrow> comes_to (k (take n dn), s, up, drop n dn) f"
  "n \<le> length up \<Longrightarrow> comes_to (c', Read n k', up, dn) f' \<longleftrightarrow> comes_to (c', k' (take n up), drop n up, dn) f'"
  by (rule comes_to_step, simp add: session_step.simps)+

lemma comes_to_server_read: "length bs = n \<Longrightarrow> comes_to (c, Read n k, bs @ up, dn) f \<longleftrightarrow> comes_to (c, k bs, up, dn) f"
  by (rule comes_to_step) (simp add: session_step.simps)

lemma comes_to_client_read: "length bs = n \<Longrightarrow> comes_to (Read n k, s, up, bs @ dn) f \<longleftrightarrow> comes_to (k bs, s, up, dn) f"
  by (rule comes_to_step) (simp add: session_step.simps)

lemma comes_to_u8 [talk]:
  "comes_to (read_u8 k, s, up, b # dn) f \<longleftrightarrow> comes_to (k b, s, up, dn) f"
  "comes_to (c', read_u8 k', b # up, dn) f' \<longleftrightarrow> comes_to (c', k' b, up, dn) f'"
  unfolding read_u8_def
  by (simp_all add: comes_to_server_read [of "[b]", simplified] comes_to_client_read [of "[b]", simplified])

lemma comes_to_u16 [talk]:
  "comes_to (read_u16 k, s, up, u16_be w @ dn) f \<longleftrightarrow> comes_to (k w, s, up, dn) f"
  "comes_to (c', read_u16 k', u16_be w @ up, dn) f' \<longleftrightarrow> comes_to (c', k' w, up, dn) f'"
  unfolding read_u16_def by (simp_all add: comes_to_server_read comes_to_client_read)

lemma comes_to_peek [talk]:
  "comes_to (Peek k, s, up, b # dn) f \<longleftrightarrow> comes_to (k b, s, up, b # dn) f"
  "comes_to (c', Peek k', b # up, dn) f' \<longleftrightarrow> comes_to (c', k' b, b # up, dn) f'"
  by (rule comes_to_step, simp add: session_step.simps)+

text \<open>A program that has ended, in success or failure.\<close>

definition finished :: "'a proc \<Rightarrow> bool" where
  "finished p \<longleftrightarrow> (case p of Ret _ \<Rightarrow> True | Err _ \<Rightarrow> True | _ \<Rightarrow> False)"

lemma comes_to_end [talk]:
  assumes "finished c" "finished s"
  shows "comes_to (c, s, up, dn) f \<longleftrightarrow> f = (c, s, up, dn)"
proof -
  have "session_end (c, s, up, dn)"
    using assms by (auto simp: session_end_def finished_def session_step.simps split: proc.splits)
  then show ?thesis by (metis comes_to_def converse_rtranclpE rtranclp.rtrancl_refl session_end_def)
qed

lemma finished_simps [talk]: "finished (Ret x)" "finished (Err e)"
  by (simp_all add: finished_def)

section \<open>Decoders\<close>

text \<open>A program that only reads accepts exactly the given bytes with the given result.\<close>

inductive reads :: "'a proc \<Rightarrow> bytes \<Rightarrow> 'a \<Rightarrow> bool" where
  reads_Ret: "reads (Ret x) [] x"
| reads_Read: "length bs = n \<Longrightarrow> reads (k bs) bs' x \<Longrightarrow> reads (Read n k) (bs @ bs') x"

inductive_cases reads_RetE: "reads (Ret x) bs y"
inductive_cases reads_ReadE: "reads (Read n k) bs y"

lemma reads_Read_iff [talk]: "length bs = n \<Longrightarrow> reads (Read n k) (bs @ bs') x \<longleftrightarrow> reads (k bs) bs' x"
  by (auto elim: reads_ReadE intro: reads_Read)

lemma reads_Read_take [talk]: "n \<le> length bs \<Longrightarrow> reads (Read n k) bs x \<longleftrightarrow> reads (k (take n bs)) (drop n bs) x"
  using reads_Read_iff [of "take n bs" n k "drop n bs" x] by simp

lemma reads_u8 [talk]: "reads (read_u8 k) (b # bs) x \<longleftrightarrow> reads (k b) bs x"
  by (simp add: read_u8_def reads_Read_iff [of "[b]" "Suc 0", simplified])

lemma reads_u16 [talk]:
  "reads (read_u16 k) (u16_be w @ bs) x \<longleftrightarrow> reads (k w) bs x"
  "reads (read_u16 k) (u16_be w) x \<longleftrightarrow> reads (k w) [] x"
  by (simp_all add: read_u16_def talk)

lemma reads_Ret_iff [talk]: "reads (Ret x) bs y \<longleftrightarrow> bs = [] \<and> x = y"
  by (auto elim: reads_RetE intro: reads_Ret)

lemma reads_bind: "reads p bs x \<Longrightarrow> reads (f x) bs' y \<Longrightarrow> reads (proc_bind p f) (bs @ bs') y"
  by (induction rule: reads.induct) (auto intro: reads_Read)

lemma reads_run: "reads p bs x \<Longrightarrow> run p (bs @ rest) = (Inr x, [], rest)"
  by (induction rule: reads.induct) auto

lemma reads_server: "reads p bs x \<Longrightarrow> comes_to (c, proc_bind p k, bs @ up, dn) f \<longleftrightarrow> comes_to (c, k x, up, dn) f"
  by (induction arbitrary: c rule: reads.induct) (auto simp: comes_to_server_read)

lemma reads_client: "reads p bs x \<Longrightarrow> comes_to (proc_bind p k, s, up, bs @ dn) f \<longleftrightarrow> comes_to (k x, s, up, dn) f"
  by (induction arbitrary: s rule: reads.induct) (auto simp: comes_to_client_read)

text \<open>
  The interface of a codec on a stream: what is encoded is decoded again, whatever follows. Every request header and
  frame of the proxy protocols is an interpretation.
\<close>

locale stream_codec =
  fixes enc :: "'t \<Rightarrow> bytes"
    and dec :: "'t proc"
    and ok :: "'t \<Rightarrow> bool"
  assumes dec_enc: "ok t \<Longrightarrow> reads dec (enc t) t"
begin

lemma decodes: "ok t \<Longrightarrow> run dec (enc t @ rest) = (Inr t, [], rest)"
  by (rule reads_run [OF dec_enc])

lemma server_decodes: "ok t \<Longrightarrow> comes_to (c, proc_bind dec k, enc t @ up, dn) f \<longleftrightarrow> comes_to (c, k t, up, dn) f"
  by (rule reads_server [OF dec_enc])

lemma client_decodes: "ok t \<Longrightarrow> comes_to (proc_bind dec k, s, up, enc t @ dn) f \<longleftrightarrow> comes_to (k t, s, up, dn) f"
  by (rule reads_client [OF dec_enc])

lemma unambiguous:
  assumes "ok t" "ok t'" "enc t @ rest = enc t' @ rest'"
  shows "t = t' \<and> rest = rest'"
  using decodes [OF assms(1), of rest] decodes [OF assms(2), of rest'] unfolding assms(3) by simp

end

section \<open>Addresses on the wire\<close>

text \<open>Two hexadecimal digits, as \<open>{:02x}\<close> prints a byte.\<close>

definition hex02 :: "u8 \<Rightarrow> string" where
  "hex02 b = [hex_digit (unat b div 16), hex_digit (unat b mod 16)]"

text \<open>
  A target that fits a request header: the name is a Rust string and its length fits the length byte. Socket addresses
  always fit.
\<close>

definition sendable :: "Target \<Rightarrow> bool" where
  "sendable t = (case t of Domain h _ \<Rightarrow> str_ok h \<and> length h \<le> 255 | Socket _ \<Rightarrow> True)"

lemma unat_length_byte [talk]: "length h \<le> 255 \<Longrightarrow> unat (word_of_nat (length h) :: u8) = length h"
  by (simp add: unat_u8_of_nat)

lemma socket_eta [talk]: "\<lparr>sa_ip = sa_ip a, sa_port = sa_port a\<rparr> = a"
  by simp

section \<open>Blocks\<close>

text \<open>\<open>slice::chunks\<close>: consecutive blocks of a given size, the last one possibly shorter.\<close>

function chunks_of :: "nat \<Rightarrow> bytes \<Rightarrow> bytes list" where
  "chunks_of n data = (if data = [] \<or> n = 0 then [] else take n data # chunks_of n (drop n data))"
  by pat_completeness auto
termination by (relation "measure (\<lambda>(n, data). length data)") auto

declare chunks_of.simps [simp del]

lemma chunks_of_spec: "0 < n \<Longrightarrow> concat (chunks_of n data) = data \<and> (\<forall>b \<in> set (chunks_of n data). b \<noteq> [] \<and> length b \<le> n)"
proof (induction n data rule: chunks_of.induct)
  case (1 n data)
  then show ?case by (subst (1 2) chunks_of.simps) auto
qed

end
