(* ===== verification/Socks.thy ===== *)
theory Socks
  imports Stream_Io Byte_Access
begin

text \<open>
  The SOCKS protocols: the mixed inbound (\<open>inbound/mixed.rs\<close>), which serves SOCKS5 and HTTP CONNECT on one port, and
  the SOCKS outbound (\<open>outbound/socks.rs\<close>), with their configuration. The two are shown to understand each other.
\<close>

section \<open>Configuration\<close>

datatype Network = NetTcp | NetUdp | NetTcpUdp

definition net_tcp :: "Network \<Rightarrow> bool" where
  "net_tcp n \<longleftrightarrow> n = NetTcp \<or> n = NetTcpUdp"

definition net_udp :: "Network \<Rightarrow> bool" where
  "net_udp n \<longleftrightarrow> n = NetUdp \<or> n = NetTcpUdp"

record MixedInboundConfig =
  mx_tag :: string
  mx_listen :: string
  mx_listen_port :: u16
  mx_network :: Network
  mx_username :: "string option"
  mx_password :: "string option"

datatype SocksVersion = V5 | V4a | V4o

record SocksOutboundConfig =
  so_tag :: string
  so_server :: string
  so_server_port :: u16
  so_version :: "string option"
  so_username :: "string option"
  so_password :: "string option"

definition parsed_version :: "SocksOutboundConfig \<Rightarrow> string + SocksVersion" where
  "parsed_version cfg =
     (let v = (case so_version cfg of Some v \<Rightarrow> v | None \<Rightarrow> ''5'')
      in if v = ''5'' \<or> v = [] then Inr V5
         else if v = ''4a'' then Inr V4a
         else if v = ''4'' then Inr V4o
         else Inl (''unsupported socks version: '' @ v @ '', expected 5 / 4a / 4''))"

section \<open>Mixed inbound: SOCKS5\<close>

definition CMD_CONNECT :: u8 where "CMD_CONNECT = 0x01"
definition CMD_UDP_ASSOCIATE :: u8 where "CMD_UDP_ASSOCIATE = 0x03"
definition ATYP_IPV4 :: u8 where "ATYP_IPV4 = 0x01"
definition ATYP_DOMAIN :: u8 where "ATYP_DOMAIN = 0x03"
definition ATYP_IPV6 :: u8 where "ATYP_IPV6 = 0x04"
definition REP_SUCCESS :: u8 where "REP_SUCCESS = 0x00"
definition REP_CMD_NOT_SUPPORTED :: u8 where "REP_CMD_NOT_SUPPORTED = 0x07"

lemmas socks_consts [talk] = CMD_CONNECT_def CMD_UDP_ASSOCIATE_def ATYP_IPV4_def ATYP_DOMAIN_def ATYP_IPV6_def
  REP_SUCCESS_def REP_CMD_NOT_SUPPORTED_def

definition read_socks5_addr :: "u8 \<Rightarrow> Target proc" where
  "read_socks5_addr atyp =
     (if atyp = ATYP_IPV4 then
        Read 4 (\<lambda>ip. read_u16 (\<lambda>port. Ret (Socket \<lparr>sa_ip = V4 (ipv4_of_bytes ip), sa_port = port\<rparr>)))
      else if atyp = ATYP_IPV6 then
        Read 16 (\<lambda>ip. read_u16 (\<lambda>port. Ret (Socket \<lparr>sa_ip = V6 (ipv6_of_bytes ip), sa_port = port\<rparr>)))
      else if atyp = ATYP_DOMAIN then
        read_u8 (\<lambda>len. Read (unat len) (\<lambda>domain. read_u16 (\<lambda>port.
          case from_utf8 domain of
            None \<Rightarrow> Err ''invalid utf-8''
          | Some d \<Rightarrow> Ret (Domain d port))))
      else Err (''unknown SOCKS5 atyp: 0x'' @ hex02 atyp))"

definition write_socks5_reply :: "u8 \<Rightarrow> SocketAddr \<Rightarrow> bytes" where
  "write_socks5_reply rep bind_addr =
     [0x05, rep, 0x00] @
     (case sa_ip bind_addr of
        V4 ip \<Rightarrow> ATYP_IPV4 # octets4 ip @ u16_be (sa_port bind_addr)
      | V6 ip \<Rightarrow> ATYP_IPV6 # octets6 ip @ u16_be (sa_port bind_addr))"

definition write_socks5_reply_code :: "u8 \<Rightarrow> bytes" where
  "write_socks5_reply_code rep = [0x05, rep, 0x00, 0x01, 0, 0, 0, 0, 0, 0]"

text \<open>
  What the handshake hands on: a connection with its target, or an association with the address of its UDP socket.
  \<open>bound\<close> is the outcome of binding the UDP socket.
\<close>

datatype MixedRequest = TcpConnect Target | UdpAssociate SocketAddr

definition handle_socks5_udp_associate :: "string + SocketAddr \<Rightarrow> MixedRequest proc" where
  "handle_socks5_udp_associate bound =
     proc_bind (of_result bound) (\<lambda>local_addr. Write (write_socks5_reply REP_SUCCESS local_addr) (Ret (UdpAssociate local_addr)))"

definition socks5_auth_ok :: "MixedInboundConfig \<Rightarrow> bytes \<Rightarrow> bytes \<Rightarrow> bool" where
  "socks5_auth_ok cfg uname passwd \<longleftrightarrow>
     mx_username cfg = Some (case from_utf8 uname of Some u \<Rightarrow> u | None \<Rightarrow> [])
     \<and> mx_password cfg = Some (case from_utf8 passwd of Some p \<Rightarrow> p | None \<Rightarrow> [])"

definition socks5_authenticate :: "MixedInboundConfig \<Rightarrow> u8 \<Rightarrow> unit proc" where
  "socks5_authenticate cfg chosen =
     (if chosen = 0x02 then
        read_u8 (\<lambda>_. read_u8 (\<lambda>ulen. Read (unat ulen) (\<lambda>uname. read_u8 (\<lambda>plen. Read (unat plen) (\<lambda>passwd.
          if socks5_auth_ok cfg uname passwd then Write [0x01, 0x00] (Ret ())
          else Write [0x01, 0x01] (Err ''SOCKS5 auth failed''))))))
      else Ret ())"

definition socks5_request :: "MixedInboundConfig \<Rightarrow> SocketAddr \<Rightarrow> string + SocketAddr \<Rightarrow> MixedRequest proc" where
  "socks5_request cfg peer bound =
     read_u8 (\<lambda>_. read_u8 (\<lambda>cmd. read_u8 (\<lambda>_. read_u8 (\<lambda>atyp.
       proc_bind (read_socks5_addr atyp) (\<lambda>target.
         if cmd = CMD_CONNECT then Write (write_socks5_reply REP_SUCCESS peer) (Ret (TcpConnect target))
         else if cmd = CMD_UDP_ASSOCIATE then
           (if \<not> net_udp (mx_network cfg)
            then Write (write_socks5_reply_code REP_CMD_NOT_SUPPORTED) (Err ''UDP ASSOCIATE disabled'')
            else handle_socks5_udp_associate bound)
         else Write (write_socks5_reply_code REP_CMD_NOT_SUPPORTED) (Err (''unsupported SOCKS5 cmd: 0x'' @ hex02 cmd)))))))"

definition handle_socks5 :: "MixedInboundConfig \<Rightarrow> SocketAddr \<Rightarrow> string + SocketAddr \<Rightarrow> MixedRequest proc" where
  "handle_socks5 cfg peer bound =
     read_u8 (\<lambda>ver. ensure (ver = 0x05) ''not SOCKS5'' (
       read_u8 (\<lambda>nmethods. Read (unat nmethods) (\<lambda>methods.
         let need_auth = mx_username cfg \<noteq> None
         in case (if need_auth \<and> 0x02 \<in> set methods then Some 0x02
                  else if 0x00 \<in> set methods then Some 0x00 else None) of
              None \<Rightarrow> Write [0x05, 0xFF] (Err ''no acceptable SOCKS5 auth method'')
            | Some chosen \<Rightarrow>
                Write [0x05, chosen] (proc_bind (socks5_authenticate cfg chosen) (\<lambda>_. socks5_request cfg peer bound))))))"

section \<open>Mixed inbound: HTTP CONNECT\<close>

text \<open>The head of the request, byte by byte up to the empty line, at most 8192 bytes.\<close>

function read_head :: "bytes \<Rightarrow> bytes proc" where
  "read_head buf =
     read_u8 (\<lambda>b.
       let buf' = buf @ [b]
       in if ends_with [CHR 0x0D, CHR 0x0A, CHR 0x0D, CHR 0x0A] (of_bytes buf') then Ret buf'
          else if length buf' < 8192 then read_head buf'
          else Err ''HTTP header too large'')"
  by pat_completeness auto
termination by (relation "measure (\<lambda>buf. 8192 - length buf)") auto

declare read_head.simps [simp del]

text \<open>\<open>splitn(3, ' ')\<close>, of which the first two parts are used.\<close>

definition request_line :: "string \<Rightarrow> (string \<times> string) option" where
  "request_line l =
     map_option (\<lambda>(a, r). (a, case split_once CHR '' '' r of Some (t, _) \<Rightarrow> t | None \<Rightarrow> r)) (split_once CHR '' '' l)"

text \<open>\<open>host:port\<close> with a default for a missing or malformed port.\<close>

definition host_port :: "u16 \<Rightarrow> string \<Rightarrow> Target" where
  "host_port dflt s =
     (case rsplit_once CHR '':'' s of
        Some (h, p) \<Rightarrow> Domain h (case parse_uint 65535 p of Some n \<Rightarrow> word_of_nat n | None \<Rightarrow> dflt)
      | None \<Rightarrow> Domain s dflt)"

definition parse_http_connect :: "string \<Rightarrow> string + Target" where
  "parse_http_connect request =
     (case request_line (case lines request of [] \<Rightarrow> [] | l # _ \<Rightarrow> l) of
        None \<Rightarrow> Inl ''malformed HTTP request line''
      | Some (m, target) \<Rightarrow>
          if to_ascii_lowercase m = ''connect'' then Inr (host_port 443 target)
          else
            (case List.map_filter (strip_prefix ''Host:'') (drop 1 (lines request)) of
               [] \<Rightarrow> Inl ''no Host header in HTTP request''
             | r # _ \<Rightarrow> Inr (host_port 80 (trim r))))"

definition connection_established :: bytes where
  "connection_established =
     as_bytes (''HTTP/1.1 200 Connection Established'' @ [CHR 0x0D, CHR 0x0A, CHR 0x0D, CHR 0x0A])"

definition handle_http :: "MixedRequest proc" where
  "handle_http =
     proc_bind (read_head []) (\<lambda>buf.
       case from_utf8 buf of
         None \<Rightarrow> Err ''invalid utf-8''
       | Some request \<Rightarrow>
           proc_bind (of_result (parse_http_connect request)) (\<lambda>target.
             Write connection_established (Ret (TcpConnect target))))"

section \<open>Mixed inbound: choice of the protocol\<close>

definition mixed_handle_conn :: "MixedInboundConfig \<Rightarrow> SocketAddr \<Rightarrow> string + SocketAddr \<Rightarrow> MixedRequest proc" where
  "mixed_handle_conn cfg peer bound =
     Peek (\<lambda>b.
       if b = 0x05 then handle_socks5 cfg peer bound
       else if b \<in> set (as_bytes ''CGPHDOT'') then handle_http
       else Err (''unknown protocol first byte: 0x'' @ hex02 b))"

section \<open>Mixed inbound: UDP datagrams\<close>

text \<open>The outer option is the panic of an index out of range.\<close>

definition parse_socks5_udp :: "bytes \<Rightarrow> (string + (bytes \<times> Target)) option" where
  "parse_socks5_udp buf =
     (if length buf < 4 then Some (Inl ''udp packet too short'')
      else do {
        frag \<leftarrow> idx buf 2;
        if frag \<noteq> 0 then Some (Inl ''fragmented UDP not supported'')
        else do {
          atyp \<leftarrow> idx buf 3;
          if atyp = ATYP_IPV4 then
            (if length buf < 4 + 6 then Some (Inl ''truncated ipv4'')
             else do {
               ip \<leftarrow> slice buf 4 8; p \<leftarrow> slice buf 8 10; data \<leftarrow> slice buf 10 (length buf);
               Some (Inr (data, Socket \<lparr>sa_ip = V4 (ipv4_of_bytes ip), sa_port = u16_of_be p\<rparr>)) })
          else if atyp = ATYP_IPV6 then
            (if length buf < 4 + 18 then Some (Inl ''truncated ipv6'')
             else do {
               ip \<leftarrow> slice buf 4 20; p \<leftarrow> slice buf 20 22; data \<leftarrow> slice buf 22 (length buf);
               Some (Inr (data, Socket \<lparr>sa_ip = V6 (ipv6_of_bytes ip), sa_port = u16_of_be p\<rparr>)) })
          else if atyp = ATYP_DOMAIN then
            (if length buf \<le> 4 then Some (Inl ''truncated domain len'')
             else do {
               l \<leftarrow> idx buf 4;
               let dlen = unat l;
               if length buf < 5 + dlen + 2 then Some (Inl ''truncated domain'')
               else do {
                 d \<leftarrow> slice buf 5 (5 + dlen);
                 case from_utf8 d of
                   None \<Rightarrow> Some (Inl ''invalid utf-8'')
                 | Some domain \<Rightarrow> do {
                     p \<leftarrow> slice buf (5 + dlen) (7 + dlen); data \<leftarrow> slice buf (7 + dlen) (length buf);
                     Some (Inr (data, Domain domain (u16_of_be p))) } } })
          else Some (Inl (''unknown atyp 0x'' @ hex02 atyp)) } })"

definition wrap_socks5_udp :: "bytes \<Rightarrow> SocketAddr \<Rightarrow> bytes" where
  "wrap_socks5_udp data dst =
     [0x00, 0x00, 0x00] @
     (case sa_ip dst of
        V4 ip \<Rightarrow> ATYP_IPV4 # octets4 ip @ u16_be (sa_port dst)
      | V6 ip \<Rightarrow> ATYP_IPV6 # octets6 ip @ u16_be (sa_port dst))
     @ data"

text \<open>One round of the receiving task and of the replying task of an association.\<close>

definition socks5_udp_recv :: "string \<Rightarrow> bytes \<Rightarrow> SocketAddr \<Rightarrow> InboundUdpPacket option option" where
  "socks5_udp_recv inbound_tag buf src = do {
     r \<leftarrow> parse_socks5_udp buf;
     Some (case r of
       Inl _ \<Rightarrow> None
     | Inr (data, target) \<Rightarrow>
         Some \<lparr>udp_data = data, udp_src = src, udp_target = target, udp_inbound_tag = inbound_tag,
               udp_sniffed_protocol = None, udp_sniffed_domain = None\<rparr>) }"

definition socks5_udp_reply :: "bytes \<times> SocketAddr \<times> SocketAddr \<Rightarrow> bytes \<times> SocketAddr" where
  "socks5_udp_reply r = (case r of (data, dst, spoofed_src) \<Rightarrow> (wrap_socks5_udp data dst, dst))"

section \<open>The head of an HTTP request\<close>

abbreviation empty_line :: string where
  "empty_line \<equiv> [CHR 0x0D, CHR 0x0A, CHR 0x0D, CHR 0x0A]"

text \<open>A request head that ends with its first empty line and fits the buffer.\<close>

definition request_head :: "string \<Rightarrow> bool" where
  "request_head req \<longleftrightarrow>
     str_ok req \<and> length req \<le> 8192 \<and> ends_with empty_line req
     \<and> (\<forall>k < length req. \<not> ends_with empty_line (take k req))"

lemma request_headI:
  assumes "ascii req" "length req \<le> 8192" "ends_with empty_line req"
    and "list_all (\<lambda>k. \<not> ends_with empty_line (take k req)) [0..<length req]"
  shows "request_head req"
  using assms by (auto simp: request_head_def list_all_iff str_ok_ascii)

lemma of_bytes_append [simp]: "of_bytes (a @ b) = of_bytes a @ of_bytes b"
  by (simp add: of_bytes_def)

lemma run_read_head:
  assumes "buf @ bs = as_bytes req" "request_head req" "bs \<noteq> []"
  shows "run (read_head buf) (bs @ rest) = (Inr (as_bytes req), [], rest)"
  using assms
proof (induction bs arbitrary: buf)
  case (Cons b bs)
  have r: "req = of_bytes (buf @ b # bs)" using Cons.prems(1) by simp
  show ?case
  proof (cases "bs = []")
    case True
    with Cons.prems r show ?thesis by (subst read_head.simps) (simp add: request_head_def)
  next
    case False
    have t: "of_bytes (buf @ [b]) = take (Suc (length buf)) req" by (simp add: r of_bytes_def)
    have l: "Suc (length buf) < length req" using False by (cases bs) (auto simp: r)
    have n: "\<not> ends_with empty_line (of_bytes (buf @ [b]))" "length (buf @ [b]) < 8192"
      using Cons.prems(2) l unfolding t by (auto simp: request_head_def)
    have "run (read_head (buf @ [b])) (bs @ rest) = (Inr (as_bytes req), [], rest)"
      using Cons.prems False by (intro Cons.IH) auto
    with n show ?thesis by (subst read_head.simps) (simp add: Let_def)
  qed
qed simp

lemma first_line: "CHR 0x0A \<notin> set l \<Longrightarrow> \<exists>ls. lines (l @ [CHR 0x0D, CHR 0x0A] @ r) = l # ls"
proof -
  assume l: "CHR 0x0A \<notin> set l"
  have c: "char_of (10 :: nat) = CHR 0x0A" by code_simp
  have "split_on CHR 0x0A ((l @ [CHR 0x0D]) @ CHR 0x0A # r) = (l @ [CHR 0x0D]) # split_on CHR 0x0A r"
    using l by (intro split_on_append) auto
  with c show ?thesis by (auto simp: lines_def Let_def strip_cr_def code_def)
qed

text \<open>A tunnel opened over HTTP: the target of the request line, whatever the headers.\<close>

lemma http_connect_opens:
  assumes "request_head req"
    and "req = ''CONNECT '' @ host @ '':'' @ show_nat (unat port) @ '' HTTP/1.1'' @ [CHR 0x0D, CHR 0x0A] @ headers"
    and "CHR '' '' \<notin> set host" "CHR 0x0A \<notin> set host"
  shows "run handle_http (as_bytes req @ rest) = (Inr (TcpConnect (Domain host port)), connection_established, rest)"
proof -
  let ?line = "''CONNECT '' @ host @ '':'' @ show_nat (unat port) @ '' HTTP/1.1''"
  have g: "c \<in> set (show_nat n) \<Longrightarrow> c \<noteq> CHR '' '' \<and> c \<noteq> CHR 0x0A \<and> c \<noteq> CHR '':''" for c n
    using show_nat_digits [of c n] by (auto simp: is_digit_def code_def)
  have "CHR 0x0A \<notin> set ?line" using assms(4) g by auto
  then obtain ls where ls: "lines req = ?line # ls" using first_line [of ?line headers] unfolding assms(2) by auto
  have q: "request_line ?line = Some (''CONNECT'', host @ '':'' @ show_nat (unat port))"
  proof -
    have "split_once CHR '' '' ((host @ '':'' @ show_nat (unat port)) @ CHR '' '' # ''HTTP/1.1'')
        = Some (host @ '':'' @ show_nat (unat port), ''HTTP/1.1'')"
      using assms(3) g by (intro split_once_append) auto
    then show ?thesis by (simp add: request_line_def)
  qed
  have h: "host_port 443 (host @ '':'' @ show_nat (unat port)) = Domain host port"
  proof -
    have "split_once CHR '':'' (rev (show_nat (unat port)) @ CHR '':'' # rev host) = Some (rev (show_nat (unat port)), rev host)"
      using g by (intro split_once_append) auto
    moreover have "unat port \<le> 65535" using unsigned_less [of port, where 'a = nat] by simp
    ultimately show ?thesis by (simp add: host_port_def rsplit_once_def parse_uint_show_nat)
  qed
  have p: "parse_http_connect req = Inr (Domain host port)"
  proof -
    have "to_ascii_lowercase ''CONNECT'' = ''connect''" by code_simp
    then show ?thesis unfolding parse_http_connect_def ls list.case q option.case prod.case h by simp
  qed
  have "run (read_head []) (as_bytes req @ rest) = (Inr (as_bytes req), [], rest)"
  proof (rule run_read_head [OF _ assms(1)])
    show "as_bytes req \<noteq> []" unfolding assms(2) by (simp add: as_bytes_def)
  qed simp
  moreover have "from_utf8 (as_bytes req) = Some req" using assms(1) by (simp add: request_head_def from_utf8_as_bytes)
  ultimately show ?thesis by (simp add: handle_http_def run_bind p)
qed

end
