(* ===== verification/Socks_Outbound.thy ===== *)
theory Socks_Outbound
  imports Socks
begin

text \<open>
  The SOCKS outbound (\<open>outbound/socks.rs\<close>): the handshakes of SOCKS5, SOCKS4 and SOCKS4a, UDP through an association,
  and the properties of the conversation with the mixed inbound.
\<close>

section \<open>Handshakes\<close>

definition SOCKS5_VERSION :: u8 where "SOCKS5_VERSION = 0x05"
definition SOCKS5_NO_AUTH :: u8 where "SOCKS5_NO_AUTH = 0x00"
definition SOCKS5_USER_PASS_AUTH :: u8 where "SOCKS5_USER_PASS_AUTH = 0x02"
definition SOCKS5_NO_ACCEPTABLE :: u8 where "SOCKS5_NO_ACCEPTABLE = 0xFF"
definition SOCKS5_AUTH_VERSION :: u8 where "SOCKS5_AUTH_VERSION = 0x01"
definition SOCKS5_AUTH_SUCCESS :: u8 where "SOCKS5_AUTH_SUCCESS = 0x00"
definition SOCKS5_CMD_CONNECT :: u8 where "SOCKS5_CMD_CONNECT = 0x01"
definition SOCKS5_CMD_UDP_ASSOCIATE :: u8 where "SOCKS5_CMD_UDP_ASSOCIATE = 0x03"
definition SOCKS5_ATYP_IPV4 :: u8 where "SOCKS5_ATYP_IPV4 = 0x01"
definition SOCKS5_ATYP_DOMAIN :: u8 where "SOCKS5_ATYP_DOMAIN = 0x03"
definition SOCKS5_ATYP_IPV6 :: u8 where "SOCKS5_ATYP_IPV6 = 0x04"
definition SOCKS5_REP_SUCCESS :: u8 where "SOCKS5_REP_SUCCESS = 0x00"
definition SOCKS4_VERSION :: u8 where "SOCKS4_VERSION = 0x04"
definition SOCKS4_CMD_CONNECT :: u8 where "SOCKS4_CMD_CONNECT = 0x01"
definition SOCKS4_REP_SUCCESS :: u8 where "SOCKS4_REP_SUCCESS = 0x5A"

lemmas socks_client_consts [talk] =
  SOCKS5_VERSION_def SOCKS5_NO_AUTH_def SOCKS5_USER_PASS_AUTH_def SOCKS5_NO_ACCEPTABLE_def SOCKS5_AUTH_VERSION_def
  SOCKS5_AUTH_SUCCESS_def SOCKS5_CMD_CONNECT_def SOCKS5_CMD_UDP_ASSOCIATE_def SOCKS5_ATYP_IPV4_def SOCKS5_ATYP_DOMAIN_def
  SOCKS5_ATYP_IPV6_def SOCKS5_REP_SUCCESS_def SOCKS4_VERSION_def SOCKS4_CMD_CONNECT_def SOCKS4_REP_SUCCESS_def

definition socks5_offer :: "SocksOutboundConfig \<Rightarrow> bytes" where
  "socks5_offer cfg =
     (if so_username cfg \<noteq> None then [SOCKS5_VERSION, 2, SOCKS5_NO_AUTH, SOCKS5_USER_PASS_AUTH]
      else [SOCKS5_VERSION, 1, SOCKS5_NO_AUTH])"

definition or_empty :: "string option \<Rightarrow> string" where
  "or_empty s = (case s of Some t \<Rightarrow> t | None \<Rightarrow> [])"

definition socks5_credentials :: "SocksOutboundConfig \<Rightarrow> bytes" where
  "socks5_credentials cfg =
     (let user = or_empty (so_username cfg); pass = or_empty (so_password cfg)
      in [SOCKS5_AUTH_VERSION, word_of_nat (length user)] @ as_bytes user @ [word_of_nat (length pass)] @ as_bytes pass)"

text \<open>Method negotiation and authentication, the first two phases of the handshake.\<close>

definition socks5_negotiate :: "SocksOutboundConfig \<Rightarrow> unit proc" where
  "socks5_negotiate cfg =
     Write (socks5_offer cfg) (Read 2 (\<lambda>resp.
       ensure (resp ! 0 = SOCKS5_VERSION) ''socks5: unexpected server version'' (
       ensure (resp ! 1 \<noteq> SOCKS5_NO_ACCEPTABLE) ''socks5: server rejected all auth methods'' (
       if resp ! 1 = SOCKS5_USER_PASS_AUTH then
         ensure (length (or_empty (so_username cfg)) \<le> 255 \<and> length (or_empty (so_password cfg)) \<le> 255)
           ''socks5: username/password too long'' (
         Write (socks5_credentials cfg) (Read 2 (\<lambda>auth_resp.
           ensure (auth_resp ! 1 = SOCKS5_AUTH_SUCCESS) ''socks5: authentication failed'' (Ret ()))))
       else Ret ()))))"

definition socks5_client_request :: "u8 \<Rightarrow> Target \<Rightarrow> string + bytes" where
  "socks5_client_request cmd target =
     res_bind
       (case target of
          Socket addr \<Rightarrow>
            (case sa_ip addr of
               V4 ip \<Rightarrow> Inr (SOCKS5_ATYP_IPV4 # octets4 ip)
             | V6 ip \<Rightarrow> Inr (SOCKS5_ATYP_IPV6 # octets6 ip))
        | Domain host _ \<Rightarrow>
            if length host \<le> 255 then Inr (SOCKS5_ATYP_DOMAIN # word_of_nat (length host) # as_bytes host)
            else Inl ''socks5: domain too long'')
       (\<lambda>dst. Inr ([SOCKS5_VERSION, cmd, 0x00] @ dst @ u16_be (target_port target)))"

text \<open>The reply; the bound address in it is skipped.\<close>

definition socks5_reply :: "unit proc" where
  "socks5_reply =
     Read 4 (\<lambda>hdr.
       ensure (hdr ! 0 = SOCKS5_VERSION) ''socks5: bad reply version'' (
       ensure (hdr ! 1 = SOCKS5_REP_SUCCESS) (''socks5: server refused, REP=0x'' @ hex02 (hdr ! 1)) (
       if hdr ! 3 = SOCKS5_ATYP_IPV4 then Read 6 (\<lambda>_. Ret ())
       else if hdr ! 3 = SOCKS5_ATYP_IPV6 then Read 18 (\<lambda>_. Ret ())
       else if hdr ! 3 = SOCKS5_ATYP_DOMAIN then Read 1 (\<lambda>len. Read (unat (len ! 0) + 2) (\<lambda>_. Ret ()))
       else Err (''socks5: unknown BND.ATYP=0x'' @ hex02 (hdr ! 3)))))"

definition socks5_handshake :: "SocksOutboundConfig \<Rightarrow> Target \<Rightarrow> u8 \<Rightarrow> unit proc" where
  "socks5_handshake cfg target cmd =
     proc_bind (socks5_negotiate cfg) (\<lambda>_.
       proc_bind (of_result (socks5_client_request cmd target)) (\<lambda>req. Write req socks5_reply))"

text \<open>SOCKS4 resolves names itself (\<open>resolve\<close> is \<open>resolve_target\<close>), SOCKS4a sends them.\<close>

definition socks4_request :: "(Target \<Rightarrow> string + SocketAddr) \<Rightarrow> SocksVersion \<Rightarrow> Target \<Rightarrow> string + bytes" where
  "socks4_request resolve version target =
     res_bind
       (case target of
          Socket addr \<Rightarrow>
            (case sa_ip addr of
               V4 ip \<Rightarrow> Inr (octets4 ip, sa_port addr, None)
             | V6 _ \<Rightarrow> Inl ''socks4: IPv6 target not supported'')
        | Domain host port \<Rightarrow>
            if version = V4a then Inr ([0, 0, 0, 1], port, Some host)
            else res_bind (resolve target) (\<lambda>addr.
              case sa_ip addr of
                V4 ip \<Rightarrow> Inr (octets4 ip, sa_port addr, None)
              | V6 _ \<Rightarrow> Inl ''socks4: resolved to IPv6, not supported''))
       (\<lambda>(ip_bytes, port, domain).
          Inr ([SOCKS4_VERSION, SOCKS4_CMD_CONNECT] @ u16_be port @ ip_bytes @ [0x00]
               @ (case domain of Some d \<Rightarrow> as_bytes d @ [0x00] | None \<Rightarrow> [])))"

definition socks4_handshake :: "(Target \<Rightarrow> string + SocketAddr) \<Rightarrow> SocksVersion \<Rightarrow> Target \<Rightarrow> unit proc" where
  "socks4_handshake resolve version target =
     proc_bind (of_result (socks4_request resolve version target)) (\<lambda>req.
       Write req (Read 8 (\<lambda>resp.
         ensure (resp ! 0 = 0x00) (''socks4: unexpected VN byte: 0x'' @ hex02 (resp ! 0)) (
         ensure (resp ! 1 = SOCKS4_REP_SUCCESS) (''socks4: server refused, CD=0x'' @ hex02 (resp ! 1)) (Ret ())))))"

definition connect_tunnel :: "(Target \<Rightarrow> string + SocketAddr) \<Rightarrow> SocksVersion \<Rightarrow> SocksOutboundConfig \<Rightarrow> Target \<Rightarrow> unit proc" where
  "connect_tunnel resolve version cfg target =
     (case version of
        V5 \<Rightarrow> socks5_handshake cfg target SOCKS5_CMD_CONNECT
      | _ \<Rightarrow> socks4_handshake resolve version target)"

section \<open>UDP through an association\<close>

text \<open>
  The second handshake of an association reads the relay address. Its negotiation is that of the first but for the
  error texts and the missing check of the lengths of the credentials, whose length bytes wrap.
\<close>

definition socks5_udp_negotiate :: "SocksOutboundConfig \<Rightarrow> unit proc" where
  "socks5_udp_negotiate cfg =
     Write (socks5_offer cfg) (Read 2 (\<lambda>resp.
       ensure (resp ! 0 = SOCKS5_VERSION) ''socks5 udp: unexpected version'' (
       ensure (resp ! 1 \<noteq> SOCKS5_NO_ACCEPTABLE) ''socks5 udp: no acceptable method'' (
       if resp ! 1 = SOCKS5_USER_PASS_AUTH then
         Write (socks5_credentials cfg) (Read 2 (\<lambda>ar.
           ensure (ar ! 1 = SOCKS5_AUTH_SUCCESS) ''socks5 udp: auth failed'' (Ret ())))
       else Ret ()))))"

definition socks5_relay_reply :: "SocketAddr proc" where
  "socks5_relay_reply =
     Read 4 (\<lambda>hdr.
       ensure (hdr ! 0 = SOCKS5_VERSION) ''socks5 udp: bad reply version'' (
       ensure (hdr ! 1 = SOCKS5_REP_SUCCESS) (''socks5 udp: UDP ASSOCIATE refused, REP=0x'' @ hex02 (hdr ! 1)) (
       if hdr ! 3 = SOCKS5_ATYP_IPV4 then
         Read 6 (\<lambda>buf. Ret \<lparr>sa_ip = V4 (ipv4_of_bytes (take 4 buf)), sa_port = u16_of_be (drop 4 buf)\<rparr>)
       else if hdr ! 3 = SOCKS5_ATYP_IPV6 then
         Read 18 (\<lambda>buf. Ret \<lparr>sa_ip = V6 (ipv6_of_bytes (take 16 buf)), sa_port = u16_of_be (drop 16 buf)\<rparr>)
       else Err (''socks5 udp: unsupported BND.ATYP=0x'' @ hex02 (hdr ! 3)))))"

text \<open>An unspecified relay address stands for the proxy's own (\<open>proxy\<close> is what the name of the server resolves to).\<close>

definition ip_unspecified :: "IpAddr \<Rightarrow> bool" where
  "ip_unspecified ip \<longleftrightarrow> ip = V4 0 \<or> ip = V6 0"

definition socks5_udp_associate_get_relay :: "string + SocketAddr \<Rightarrow> SocksOutboundConfig \<Rightarrow> SocketAddr proc" where
  "socks5_udp_associate_get_relay proxy cfg =
     proc_bind (socks5_udp_negotiate cfg) (\<lambda>_.
       Write [SOCKS5_VERSION, SOCKS5_CMD_UDP_ASSOCIATE, 0x00, SOCKS5_ATYP_IPV4, 0, 0, 0, 0, 0, 0] (
       proc_bind socks5_relay_reply (\<lambda>relay_addr.
         if ip_unspecified (sa_ip relay_addr)
         then proc_bind (of_result proxy) (\<lambda>proxy_addr. Ret \<lparr>sa_ip = sa_ip proxy_addr, sa_port = sa_port relay_addr\<rparr>)
         else Ret relay_addr)))"

definition build_dgram :: "Target \<Rightarrow> bytes \<Rightarrow> bytes" where
  "build_dgram target data =
     [0x00, 0x00, 0x00] @
     (case target of
        Socket addr \<Rightarrow>
          (case sa_ip addr of
             V4 ip \<Rightarrow> SOCKS5_ATYP_IPV4 # octets4 ip @ u16_be (sa_port addr)
           | V6 ip \<Rightarrow> SOCKS5_ATYP_IPV6 # octets6 ip @ u16_be (sa_port addr))
      | Domain host port \<Rightarrow> SOCKS5_ATYP_DOMAIN # word_of_nat (length host) # as_bytes host @ u16_be port)
     @ data"

definition socks5_udp_strip_header :: "bytes \<Rightarrow> (string + bytes) option" where
  "socks5_udp_strip_header buf =
     (if length buf < 4 then Some (Inl ''socks5 udp: response too short'')
      else do {
        atyp \<leftarrow> idx buf 3;
        header_len \<leftarrow>
          (if atyp = SOCKS5_ATYP_IPV4 then Some (Inr (4 + 4 + 2))
           else if atyp = SOCKS5_ATYP_IPV6 then Some (Inr (4 + 16 + 2))
           else if atyp = SOCKS5_ATYP_DOMAIN then
             (if length buf < 5 then Some (Inl ''socks5 udp: domain header truncated'')
              else do { l \<leftarrow> idx buf 4; Some (Inr (4 + 1 + unat l + 2)) })
           else Some (Inl (''socks5 udp: unknown ATYP=0x'' @ hex02 atyp @ '' in response'')));
        case header_len of
          Inl e \<Rightarrow> Some (Inl e)
        | Inr n \<Rightarrow>
            if length buf < n then Some (Inl ''socks5 udp: response truncated'')
            else do { payload \<leftarrow> slice buf n (length buf); Some (Inr payload) } })"

text \<open>
  A UDP session once the relay address is known: the datagrams sent for the first packet and the later ones, and what
  is handed back for the datagrams that come in; a datagram without a proper header is skipped.
\<close>

definition socks5_udp_send :: "InboundUdpPacket \<Rightarrow> bytes list \<Rightarrow> bytes list" where
  "socks5_udp_send packet upstream =
     build_dgram (udp_target packet) (udp_data packet) # map (build_dgram (udp_target packet)) upstream"

definition socks5_udp_receive :: "InboundUdpPacket \<Rightarrow> bytes list \<Rightarrow> (bytes \<times> SocketAddr \<times> SocketAddr) list" where
  "socks5_udp_receive packet dgrams =
     List.map_filter (\<lambda>buf.
       case socks5_udp_strip_header buf of
         Some (Inr payload) \<Rightarrow> Some (payload, udp_src packet, to_socket_addr_lossy (udp_target packet))
       | _ \<Rightarrow> None) dgrams"

section \<open>The two ends understand each other\<close>

text \<open>The request is a codec: the mixed inbound reads the target the outbound wrote.\<close>

definition socks5_dst :: "Target \<Rightarrow> bytes" where
  "socks5_dst target = tl (tl (tl (case socks5_client_request 0 target of Inr bs \<Rightarrow> bs | Inl _ \<Rightarrow> [])))"

lemma socks5_client_request_dst:
  "sendable t \<Longrightarrow> socks5_client_request cmd t = Inr ([SOCKS5_VERSION, cmd, 0x00] @ socks5_dst t)"
  by (auto simp: socks5_client_request_def socks5_dst_def sendable_def split: Target.splits IpAddr.splits)

interpretation socks_dst: stream_codec socks5_dst "read_u8 read_socks5_addr" sendable
proof
  fix t
  assume "sendable t"
  then show "reads (read_u8 read_socks5_addr) (socks5_dst t) t"
    by (auto simp: socks5_dst_def socks5_client_request_def read_socks5_addr_def sendable_def talk
        from_utf8_as_bytes split: Target.splits IpAddr.splits)
qed

lemma server_reads_dst [talk]:
  "sendable t \<Longrightarrow> comes_to (c, read_u8 (\<lambda>atyp. proc_bind (read_socks5_addr atyp) k), socks5_dst t @ up, dn) f
     \<longleftrightarrow> comes_to (c, k t, up, dn) f"
  using socks_dst.server_decodes [of t c k] by simp

text \<open>
  Whom the mixed inbound is meant to let in: everybody when it has no user name, and a client with the right credentials.
\<close>

definition admitted :: "MixedInboundConfig \<Rightarrow> SocksOutboundConfig \<Rightarrow> bool" where
  "admitted scfg ccfg \<longleftrightarrow>
     mx_username scfg = None
     \<or> (mx_username scfg = so_username ccfg \<and> mx_password scfg = Some (or_empty (so_password ccfg)))"

definition credentials_fit :: "SocksOutboundConfig \<Rightarrow> bool" where
  "credentials_fit cfg \<longleftrightarrow>
     (\<forall>s \<in> {or_empty (so_username cfg), or_empty (so_password cfg)}. str_ok s \<and> length s \<le> 255)"

text \<open>The client's side of the negotiation with the server's, up to the point where the request begins.\<close>

lemma server_starts_socks5:
  "comes_to (proc_bind (socks5_negotiate ccfg) c, mixed_handle_conn scfg peer bound, [], []) f
   \<longleftrightarrow> comes_to (proc_bind (socks5_negotiate ccfg) c, handle_socks5 scfg peer bound, [], []) f"
  by (simp add: socks5_negotiate_def mixed_handle_conn_def socks5_offer_def talk)

lemma negotiate_without_credentials:
  assumes "mx_username scfg = None \<or> so_username ccfg = None"
  shows "comes_to (proc_bind (socks5_negotiate ccfg) c, handle_socks5 scfg peer bound, [], []) f
     \<longleftrightarrow> comes_to (c (), socks5_request scfg peer bound, [], []) f"
  using assms
  by (auto simp: socks5_negotiate_def handle_socks5_def socks5_offer_def socks5_authenticate_def talk)

lemma server_checks_credentials:
  assumes "credentials_fit cfg"
  shows "comes_to (c, proc_bind (socks5_authenticate scfg 0x02) k, socks5_credentials cfg, dn) f
     \<longleftrightarrow> comes_to (c,
          (if mx_username scfg = Some (or_empty (so_username cfg)) \<and> mx_password scfg = Some (or_empty (so_password cfg))
           then Write [0x01, 0x00] (k ()) else Write [0x01, 0x01] (Err ''SOCKS5 auth failed'')), [], dn) f"
  using assms
  by (simp add: socks5_authenticate_def socks5_credentials_def credentials_fit_def socks5_auth_ok_def talk
      from_utf8_as_bytes Let_def)

lemma negotiate_with_credentials:
  assumes "mx_username scfg \<noteq> None" "so_username ccfg \<noteq> None" "credentials_fit ccfg"
  shows "comes_to (proc_bind (socks5_negotiate ccfg) c, handle_socks5 scfg peer bound, [], []) f
     \<longleftrightarrow> (if admitted scfg ccfg then comes_to (c (), socks5_request scfg peer bound, [], []) f
        else f = (Err ''socks5: authentication failed'', Err ''SOCKS5 auth failed'', [], []))"
proof -
  have a: "admitted scfg ccfg \<longleftrightarrow>
      mx_username scfg = Some (or_empty (so_username ccfg)) \<and> mx_password scfg = Some (or_empty (so_password ccfg))"
    using assms by (auto simp: admitted_def or_empty_def)
  have l: "length (or_empty (so_username ccfg)) \<le> 255" "length (or_empty (so_password ccfg)) \<le> 255"
    using assms(3) by (simp_all add: credentials_fit_def)
  show ?thesis
    using assms(1,2) l unfolding a
    by (simp add: socks5_negotiate_def handle_socks5_def socks5_offer_def server_checks_credentials [OF assms(3)] talk)
qed

lemma client_reads_reply [talk]:
  "comes_to (proc_bind socks5_reply c, s, up, write_socks5_reply REP_SUCCESS addr @ dn) f \<longleftrightarrow> comes_to (c (), s, up, dn) f"
  by (simp add: socks5_reply_def write_socks5_reply_def talk split: IpAddr.split)

lemma request_granted:
  assumes "sendable t"
  shows "comes_to (proc_bind (of_result (socks5_client_request 1 t)) (\<lambda>req. Write req (proc_bind socks5_reply c)),
      socks5_request scfg peer bound, [], []) f \<longleftrightarrow> comes_to (c (), Ret (TcpConnect t), [], []) f"
  using assms client_reads_reply [of c "Ret (TcpConnect t)" "[]" peer "[]" f]
  by (simp add: socks5_client_request_dst socks5_request_def server_reads_dst [where up = "[]", simplified] talk)

section \<open>Properties\<close>

text \<open>
  C22. A connection through the SOCKS outbound to the mixed inbound, for an outbound with a user name or an inbound that
  asks for none. However the two ends interleave, the conversation ends, and it ends the same way: when the inbound asks
  for no credentials or gets the right ones, both sides succeed, the inbound hands on the target the outbound asked for,
  and the first bytes it then reads are those that follow the handshake; with wrong credentials both sides fail with an
  authentication error. (An outbound without a user name is let in by an inbound that has one:
  \<open>mixed_admits_unauthenticated\<close>.)
\<close>

theorem socks_tunnel:
  assumes "sendable t" "credentials_fit ccfg" "so_username ccfg \<noteq> None \<or> mx_username scfg = None"
    and "session_step\<^sup>*\<^sup>*
      (proc_bind (connect_tunnel resolve V5 ccfg t) (\<lambda>_. Write data (Ret ())), mixed_handle_conn scfg peer bound, [], []) st"
  shows "session_step\<^sup>*\<^sup>* st
     (if admitted scfg ccfg then (Ret (), Ret (TcpConnect t), data, [])
      else (Err ''socks5: authentication failed'', Err ''SOCKS5 auth failed'', [], []))"
proof -
  have "comes_to (proc_bind (connect_tunnel resolve V5 ccfg t) (\<lambda>_. Write data (Ret ())), mixed_handle_conn scfg peer bound, [], [])
     (if admitted scfg ccfg then (Ret (), Ret (TcpConnect t), data, [])
      else (Err ''socks5: authentication failed'', Err ''SOCKS5 auth failed'', [], []))"
  proof (cases "mx_username scfg = None \<or> so_username ccfg = None")
    case True
    then show ?thesis
      using assms(1,3)
      by (auto simp: connect_tunnel_def socks5_handshake_def server_starts_socks5 negotiate_without_credentials
          request_granted admitted_def talk)
  next
    case False
    then show ?thesis
      using assms(1,2)
      by (auto simp: connect_tunnel_def socks5_handshake_def server_starts_socks5 negotiate_with_credentials
          request_granted talk)
  qed
  then show ?thesis using assms(4) by (rule comes_to_always)
qed

definition demo_mixed :: MixedInboundConfig where
  "demo_mixed = \<lparr>mx_tag = ''in'', mx_listen = ''127.0.0.1'', mx_listen_port = 1080, mx_network = NetTcpUdp,
     mx_username = Some ''user'', mx_password = Some ''secret''\<rparr>"

definition demo_socks :: "string \<Rightarrow> SocksOutboundConfig" where
  "demo_socks pass = \<lparr>so_tag = ''out'', so_server = ''proxy'', so_server_port = 1080, so_version = None,
     so_username = Some ''user'', so_password = Some pass\<rparr>"

lemma demo_fits: "ascii pass \<Longrightarrow> length pass \<le> 255 \<Longrightarrow> credentials_fit (demo_socks pass)"
proof -
  have "str_ok ''user''" by (rule str_ok_ascii) (code_simp)
  then show "ascii pass \<Longrightarrow> length pass \<le> 255 \<Longrightarrow> credentials_fit (demo_socks pass)"
    by (auto simp: credentials_fit_def demo_socks_def or_empty_def dest: str_ok_ascii)
qed

theorem socks_tunnel_witness:
  "session_step\<^sup>*\<^sup>*
      (proc_bind (connect_tunnel (\<lambda>_. Inl []) V5 (demo_socks ''secret'') (Domain ''a.b'' 443)) (\<lambda>_. Write [1, 2] (Ret ())),
       mixed_handle_conn demo_mixed \<lparr>sa_ip = V4 0, sa_port = 9\<rparr> (Inl []), [], [])
      (Ret (), Ret (TcpConnect (Domain ''a.b'' 443)), [1, 2], [])
   \<and> session_step\<^sup>*\<^sup>*
      (proc_bind (connect_tunnel (\<lambda>_. Inl []) V5 (demo_socks ''guess'') (Domain ''a.b'' 443)) (\<lambda>_. Write [1, 2] (Ret ())),
       mixed_handle_conn demo_mixed \<lparr>sa_ip = V4 0, sa_port = 9\<rparr> (Inl []), [], [])
      (Err ''socks5: authentication failed'', Err ''SOCKS5 auth failed'', [], [])"
proof -
  have "str_ok ''a.b''" by (rule str_ok_ascii) code_simp
  then have t: "sendable (Domain ''a.b'' 443)" by (simp add: sendable_def)
  have f: "credentials_fit (demo_socks ''secret'')" "credentials_fit (demo_socks ''guess'')"
    by (rule demo_fits, code_simp, simp)+
  have a: "admitted demo_mixed (demo_socks ''secret'')" "\<not> admitted demo_mixed (demo_socks ''guess'')" by code_simp+
  have u: "so_username (demo_socks p) \<noteq> None \<or> mx_username demo_mixed = None" for p by (simp add: demo_socks_def)
  from socks_tunnel [OF t f(1) u rtranclp.rtrancl_refl] socks_tunnel [OF t f(2) u rtranclp.rtrancl_refl] a
  show ?thesis by simp
qed

text \<open>
  The credentials of the mixed inbound are not required. Whatever its configuration, a SOCKS5 client that offers no
  method but the one without authentication is connected to the target it asks for, and so is an HTTP client, whatever
  headers it sends.
\<close>

theorem mixed_admits_unauthenticated:
  assumes "sendable t"
    and "request_head req"
    and "req = ''CONNECT '' @ host @ '':'' @ show_nat (unat port) @ '' HTTP/1.1'' @ [CHR 0x0D, CHR 0x0A] @ headers"
    and "CHR '' '' \<notin> set host" "CHR 0x0A \<notin> set host"
  shows "run (mixed_handle_conn cfg peer bound) ([5, 1, 0, 5, 1, 0] @ socks5_dst t @ rest)
      = (Inr (TcpConnect t), [5, 0] @ write_socks5_reply REP_SUCCESS peer, rest)
    \<and> run (mixed_handle_conn cfg peer bound) (as_bytes req @ rest)
      = (Inr (TcpConnect (Domain host port)), connection_established, rest)"
proof
  have "run (read_u8 (\<lambda>atyp. proc_bind (read_socks5_addr atyp) k)) (socks5_dst t @ rest) = run (k t) rest"
    for k :: "Target \<Rightarrow> MixedRequest proc"
    using run_bind [of "read_u8 read_socks5_addr" k "socks5_dst t @ rest"] by (simp add: socks_dst.decodes [OF assms(1)])
  then show "run (mixed_handle_conn cfg peer bound) ([5, 1, 0, 5, 1, 0] @ socks5_dst t @ rest)
      = (Inr (TcpConnect t), [5, 0] @ write_socks5_reply REP_SUCCESS peer, rest)"
    by (simp add: mixed_handle_conn_def handle_socks5_def socks5_authenticate_def socks5_request_def CMD_CONNECT_def)
next
  have "hd (as_bytes req) = 0x43" "as_bytes req \<noteq> []" unfolding assms(3) by (simp_all add: as_bytes_def code_def)
  then show "run (mixed_handle_conn cfg peer bound) (as_bytes req @ rest)
      = (Inr (TcpConnect (Domain host port)), connection_established, rest)"
    using http_connect_opens [OF assms(2-5)] by (simp add: mixed_handle_conn_def) (simp add: as_bytes_def code_def)
qed

theorem mixed_admits_unauthenticated_witness:
  "fst (run (mixed_handle_conn demo_mixed \<lparr>sa_ip = V4 0, sa_port = 9\<rparr> (Inl []))
      ([5, 1, 0, 5, 1, 0] @ socks5_dst (Domain ''a.b'' 443) @ [7])) = Inr (TcpConnect (Domain ''a.b'' 443))"
proof -
  let ?req = "''CONNECT '' @ ''a.b'' @ '':'' @ show_nat (unat (443 :: u16)) @ '' HTTP/1.1'' @ [CHR 0x0D, CHR 0x0A] @ [CHR 0x0D, CHR 0x0A]"
  have "request_head ?req" by (rule request_headI) code_simp+
  moreover have "sendable (Domain ''a.b'' 443)" unfolding sendable_def by (simp add: str_ok_ascii ascii_def code_def)
  ultimately show ?thesis
    using mixed_admits_unauthenticated [OF _ _ refl, of "Domain ''a.b'' 443" "''a.b''" 443 "[CHR 0x0D, CHR 0x0A]" demo_mixed]
    by simp
qed

section \<open>UDP datagrams\<close>

lemma parse_socks5_udp_total: "parse_socks5_udp buf \<noteq> None"
  unfolding parse_socks5_udp_def by (intro total_intros) auto

lemma socks5_udp_strip_header_total: "socks5_udp_strip_header buf \<noteq> None"
  unfolding socks5_udp_strip_header_def
  by (intro total_intros) (auto split: sum.splits simp: slice_def)

lemma drop_numeral_add: "drop (numeral k + n) xs = drop n (drop (numeral k) xs)"
  by (simp add: add.commute)

lemma parse_build_dgram:
  assumes "sendable t"
  shows "parse_socks5_udp (build_dgram t data) = Some (Inr (data, t))"
proof (cases t)
  case (Domain h p)
  with assms have h: "str_ok h" "length h \<le> 255" by (auto simp: sendable_def)
  then show ?thesis
    by (simp add: Domain parse_socks5_udp_def build_dgram_def slice_def from_utf8_as_bytes drop_numeral_add Let_def talk)
next
  case (Socket a)
  then show ?thesis
    by (cases "sa_ip a") (simp_all add: parse_socks5_udp_def build_dgram_def slice_def talk)
qed

lemma strip_wrap: "socks5_udp_strip_header (wrap_socks5_udp data a) = Some (Inr data)"
  by (cases "sa_ip a") (simp_all add: socks5_udp_strip_header_def wrap_socks5_udp_def slice_def talk)

lemma receive_replies:
  "socks5_udp_receive packet (map (fst \<circ> socks5_udp_reply) replies)
     = map (\<lambda>(data, _). (data, udp_src packet, to_socket_addr_lossy (udp_target packet))) replies"
  by (induction replies) (auto simp: socks5_udp_receive_def socks5_udp_reply_def strip_wrap List.map_filter_simps)

text \<open>
  UDP through the SOCKS outbound and the mixed inbound. Every datagram of a session arrives at the inbound as a
  packet with the session's target and its payload, in order, and the payload of every reply the inbound wraps is handed
  back to the client of the outbound. No datagram, whatever its bytes, makes either end panic.
\<close>

theorem socks_udp_relay:
  assumes "sendable (udp_target packet)"
  shows "map (\<lambda>d. socks5_udp_recv tg d src) (socks5_udp_send packet upstream)
      = map (\<lambda>data. Some (Some \<lparr>udp_data = data, udp_src = src, udp_target = udp_target packet, udp_inbound_tag = tg,
          udp_sniffed_protocol = None, udp_sniffed_domain = None\<rparr>)) (udp_data packet # upstream)
    \<and> socks5_udp_receive packet (map (fst \<circ> socks5_udp_reply) replies)
      = map (\<lambda>(data, _). (data, udp_src packet, to_socket_addr_lossy (udp_target packet))) replies
    \<and> parse_socks5_udp buf \<noteq> None \<and> socks5_udp_strip_header buf \<noteq> None"
  using assms
  by (auto simp: socks5_udp_send_def socks5_udp_recv_def parse_build_dgram receive_replies parse_socks5_udp_total
      socks5_udp_strip_header_total)

theorem socks_udp_relay_witness:
  "socks5_udp_recv ''in'' (build_dgram (Domain ''a.b'' 53) [1, 2]) \<lparr>sa_ip = V4 7, sa_port = 9\<rparr>
   = Some (Some \<lparr>udp_data = [1, 2], udp_src = \<lparr>sa_ip = V4 7, sa_port = 9\<rparr>, udp_target = Domain ''a.b'' 53,
       udp_inbound_tag = ''in'', udp_sniffed_protocol = None, udp_sniffed_domain = None\<rparr>)"
proof -
  let ?p = "\<lparr>udp_data = [1, 2], udp_src = \<lparr>sa_ip = V4 1, sa_port = 2\<rparr>, udp_target = Domain ''a.b'' 53, udp_inbound_tag = ''tun'',
     udp_sniffed_protocol = None, udp_sniffed_domain = None\<rparr>"
  have "sendable (udp_target ?p)" by (simp add: sendable_def str_ok_ascii ascii_def code_def)
  from socks_udp_relay [OF this, of "''in''" _ "[]"] show ?thesis by (simp add: socks5_udp_send_def)
qed

section \<open>Observations\<close>

text \<open>
  The header of a reply names the client it is sent to instead of the remote host it comes from: the source of the
  reply is dropped.
\<close>

lemma reply_header_names_client: "parse_socks5_udp (fst (socks5_udp_reply (data, dst, src))) = Some (Inr (data, Socket dst))"
  using parse_build_dgram [of "Socket dst" data]
  by (simp add: socks5_udp_reply_def wrap_socks5_udp_def build_dgram_def sendable_def talk split: IpAddr.splits)

text \<open>A name of 256 bytes is announced with length zero in a datagram, so its first bytes are taken for the port.\<close>

lemma long_name_corrupts_datagram:
  "length h = 256 \<Longrightarrow> build_dgram (Domain h p) data = [0, 0, 0, 3, 0] @ as_bytes h @ u16_be p @ data"
  by (simp add: build_dgram_def talk)

text \<open>
  An ordinary request sent to the inbound as to an HTTP proxy is answered as if it had been a CONNECT; its head is
  consumed and does not reach the target.
\<close>

lemma plain_request_is_swallowed:
  assumes "request_head req" "req \<noteq> []" "parse_http_connect req = Inr t"
  shows "run handle_http (as_bytes req @ rest) = (Inr (TcpConnect t), connection_established, rest)"
proof -
  have "as_bytes req \<noteq> []" using assms(2) by (simp add: as_bytes_def)
  with assms show ?thesis
    by (simp add: handle_http_def run_bind run_read_head from_utf8_as_bytes request_head_def)
qed

end
