(* ===== verification/Relay.thy ===== *)
theory Relay
  imports Stream_Io
begin

text \<open>
  The relay between two streams (\<open>outbound/mod.rs\<close>): one copy per direction, each ending with the end of its source
  and a shutdown of its sink. The source is a function that reads the next bytes, the sink one that writes some or
  fails. The interface of a source (\<open>byte_source\<close>) is what the relay relies on; a stream adapter that satisfies it is
  relayed completely.
\<close>

section \<open>Copying\<close>

text \<open>The result is the number of bytes copied, the source and the sink afterwards. An empty read is the end of the source.\<close>

partial_function (option) copy_half ::
  "('s \<Rightarrow> bytes \<times> 's) \<Rightarrow> ('w \<Rightarrow> bytes \<Rightarrow> 'w option) \<Rightarrow> 's \<Rightarrow> 'w \<Rightarrow> u64 \<Rightarrow> (u64 \<times> 's \<times> 'w) option" where
  "copy_half reader writer s w acc =
     (case reader s of (buf, s') \<Rightarrow>
        if buf = [] then Some (acc, s', w)
        else (case writer w buf of
                None \<Rightarrow> Some (acc, s', w)
              | Some w' \<Rightarrow> copy_half reader writer s' w' (acc + word_of_nat (length buf))))"

declare copy_half.simps [code]

text \<open>The same with a live counter that is updated after every write.\<close>

partial_function (option) copy_half_tracked ::
  "('s \<Rightarrow> bytes \<times> 's) \<Rightarrow> ('w \<Rightarrow> bytes \<Rightarrow> 'w option) \<Rightarrow> 's \<Rightarrow> 'w \<Rightarrow> int \<Rightarrow> u64 \<Rightarrow> (u64 \<times> 's \<times> 'w \<times> int) option" where
  "copy_half_tracked reader writer s w live acc =
     (case reader s of (buf, s') \<Rightarrow>
        if buf = [] then Some (acc, s', w, live)
        else (case writer w buf of
                None \<Rightarrow> Some (acc, s', w, live)
              | Some w' \<Rightarrow> copy_half_tracked reader writer s' w' (live + int (length buf)) (acc + word_of_nat (length buf))))"

declare copy_half_tracked.simps [code]

text \<open>
  A stream has a reading and a writing half that do not share state, so the two copies do not disturb each other and
  both run to their end. The halves of the streams are given apart.
\<close>

definition relay ::
  "('s \<Rightarrow> bytes \<times> 's) \<Rightarrow> ('w \<Rightarrow> bytes \<Rightarrow> 'w option) \<Rightarrow> ('t \<Rightarrow> bytes \<times> 't) \<Rightarrow> ('v \<Rightarrow> bytes \<Rightarrow> 'v option)
     \<Rightarrow> 's \<Rightarrow> 'w \<Rightarrow> 't \<Rightarrow> 'v \<Rightarrow> (u64 \<times> u64 \<times> 'w \<times> 'v) option" where
  "relay read_a write_b read_b write_a ar bw br aw =
     (case (copy_half read_a write_b ar bw 0, copy_half read_b write_a br aw 0) of
        (Some (r1, _, bw'), Some (r2, _, aw')) \<Rightarrow> Some (r1, r2, bw', aw')
      | _ \<Rightarrow> None)"

section \<open>Counted streams\<close>

text \<open>A wrapper that adds the bytes of every read and write to a counter.\<close>

record 's CountedStream =
  cs_inner :: 's
  cs_up :: int
  cs_down :: int

definition counted_read :: "('s \<Rightarrow> bytes \<times> 's) \<Rightarrow> 's CountedStream \<Rightarrow> bytes \<times> 's CountedStream" where
  "counted_read reader c =
     (case reader (cs_inner c) of (buf, s') \<Rightarrow>
        (buf, c\<lparr>cs_inner := s', cs_down := (if 0 < length buf then cs_down c + int (length buf) else cs_down c)\<rparr>))"

text \<open>\<open>n\<close> is how many bytes the inner stream takes of the write.\<close>

definition counted_write :: "('s \<Rightarrow> bytes \<Rightarrow> (nat \<times> 's) option) \<Rightarrow> 's CountedStream \<Rightarrow> bytes \<Rightarrow> (nat \<times> 's CountedStream) option" where
  "counted_write writer c buf =
     (case writer (cs_inner c) buf of
        None \<Rightarrow> None
      | Some (n, s') \<Rightarrow> Some (n, c\<lparr>cs_inner := s', cs_up := cs_up c + int n\<rparr>))"

section \<open>Addresses of targets\<close>

text \<open>\<open>lookup_host\<close> gives the addresses of a name, or an error; \<open>resolver\<close> is the internal resolver, when there is one.\<close>

definition resolve_target :: "(string \<Rightarrow> u16 \<Rightarrow> string + SocketAddr list) \<Rightarrow> Target \<Rightarrow> string + SocketAddr" where
  "resolve_target lookup_host target =
     (case target of
        Socket addr \<Rightarrow> Inr addr
      | Domain host port \<Rightarrow>
          res_bind (lookup_host host port) (\<lambda>addrs.
            case addrs of [] \<Rightarrow> Inl (''DNS lookup failed for '' @ host) | a # _ \<Rightarrow> Inr a))"

definition resolve_target_with_dns ::
  "(string \<Rightarrow> u16 \<Rightarrow> string + SocketAddr list) \<Rightarrow> (string \<Rightarrow> string + IpAddr) option \<Rightarrow> Target \<Rightarrow> string + SocketAddr" where
  "resolve_target_with_dns lookup_host resolver target =
     (case target of
        Socket addr \<Rightarrow> Inr addr
      | Domain host port \<Rightarrow>
          (case resolver of
             Some r \<Rightarrow> res_bind (r host) (\<lambda>ip. Inr \<lparr>sa_ip = ip, sa_port = port\<rparr>)
           | None \<Rightarrow>
               res_bind (lookup_host host port) (\<lambda>addrs.
                 case addrs of [] \<Rightarrow> Inl (''DNS lookup failed for '' @ host) | a # _ \<Rightarrow> Inr a)))"

section \<open>What the relay relies on\<close>

text \<open>
  A source with the bytes it still delivers: a read delivers the next of them, and only a source at its end delivers
  nothing.
\<close>

locale byte_source =
  fixes reader :: "'s \<Rightarrow> bytes \<times> 's"
    and remaining :: "'s \<Rightarrow> bytes"
    and wf :: "'s \<Rightarrow> bool"
  assumes read_next: "wf s \<Longrightarrow> reader s = (buf, s') \<Longrightarrow> buf @ remaining s' = remaining s \<and> wf s'"
    and read_end: "wf s \<Longrightarrow> reader s = ([], s') \<Longrightarrow> remaining s = []"
begin

text \<open>The copy ends, and a sink that accepts everything has got everything.\<close>

lemma copy_half_complete:
  assumes "wf s" "\<And>w buf. writer w buf = Some (w @ buf)"
  shows "\<exists>s'. copy_half reader writer s w acc = Some (acc + word_of_nat (length (remaining s)), s', w @ remaining s)"
  using assms(1)
proof (induction "length (remaining s)" arbitrary: s w acc rule: less_induct)
  case less
  obtain buf s' where r: "reader s = (buf, s')" by (cases "reader s")
  from read_next [OF less.prems r] have n: "buf @ remaining s' = remaining s" "wf s'" by auto
  show ?case
  proof (cases "buf = []")
    case True
    with r have "remaining s = []" using read_end [OF less.prems] by simp
    with r True show ?thesis by (simp add: copy_half.simps)
  next
    case False
    then have l: "length (remaining s') < length (remaining s)" using n(1) by (metis length_append length_greater_0_conv less_add_same_cancel2)
    from less.hyps [OF l n(2), of "w @ buf" "acc + word_of_nat (length buf)"] n(1) [symmetric] r False show ?thesis
      by (subst copy_half.simps) (auto simp: assms(2) ac_simps)
  qed
qed

text \<open>The live counter of the tracked copy grows by the number of bytes copied.\<close>

lemma copy_half_tracked_agrees:
  assumes "wf s" "\<And>w buf. writer w buf = Some (w @ buf)"
  shows "\<exists>s'. copy_half_tracked reader writer s w live acc
     = Some (acc + word_of_nat (length (remaining s)), s', w @ remaining s, live + int (length (remaining s)))"
  using assms(1)
proof (induction "length (remaining s)" arbitrary: s w acc live rule: less_induct)
  case less
  obtain buf s' where r: "reader s = (buf, s')" by (cases "reader s")
  from read_next [OF less.prems r] have n: "buf @ remaining s' = remaining s" "wf s'" by auto
  show ?case
  proof (cases "buf = []")
    case True
    with r have "remaining s = []" using read_end [OF less.prems] by simp
    with r True show ?thesis by (simp add: copy_half_tracked.simps)
  next
    case False
    then have l: "length (remaining s') < length (remaining s)" using n(1) by (metis length_append length_greater_0_conv less_add_same_cancel2)
    from less.hyps [OF l n(2), of "w @ buf" "live + int (length buf)" "acc + word_of_nat (length buf)"] n(1) [symmetric] r False
    show ?thesis by (subst copy_half_tracked.simps) (auto simp: assms(2) ac_simps)
  qed
qed

end

section \<open>A transport connection as a source\<close>

text \<open>
  What arrives on a connection, segment by segment; a read of at most \<open>n\<close> bytes takes the next segment or a part of
  it. No segments left is the end of the stream.
\<close>

definition seg_read :: "nat \<Rightarrow> bytes list \<Rightarrow> bytes \<times> bytes list" where
  "seg_read n segs =
     (case segs of
        [] \<Rightarrow> ([], [])
      | s # ss \<Rightarrow> if length s \<le> n then (s, ss) else (take n s, drop n s # ss))"

definition BUF_SIZE :: nat where "BUF_SIZE = 65536"

definition segs_ok :: "bytes list \<Rightarrow> bool" where
  "segs_ok segs \<longleftrightarrow> [] \<notin> set segs"

lemma seg_read_next:
  assumes "segs_ok segs" "0 < n" "seg_read n segs = (buf, segs')"
  shows "buf @ concat segs' = concat segs" "segs_ok segs'" "buf = [] \<Longrightarrow> segs = []" "length buf \<le> n"
  using assms by (auto simp: seg_read_def segs_ok_def split: list.splits if_splits)

interpretation tcp_source: byte_source "seg_read BUF_SIZE" concat segs_ok
proof
  fix s buf s'
  assume a: "segs_ok s" "seg_read BUF_SIZE s = (buf, s')"
  have "0 < BUF_SIZE" by (simp add: BUF_SIZE_def)
  from seg_read_next [OF a(1) this a(2)] show "buf @ concat s' = concat s \<and> segs_ok s'" by simp
next
  fix s s'
  assume a: "segs_ok s" "seg_read BUF_SIZE s = ([], s')"
  have "0 < BUF_SIZE" by (simp add: BUF_SIZE_def)
  from seg_read_next(3) [OF a(1) this a(2)] show "concat s = []" by simp
qed

end
