(* ===== verification/Vless.thy ===== *)
theory Vless
  imports Relay
begin

text \<open>
  VLESS: the request and response headers and UDP frames (\<open>outbound/proto.rs\<close>, \<open>outbound/vless.rs\<close>), the stream
  adapters of the outbound, and the server inbound (\<open>inbound/vless_server.rs\<close>).
\<close>

section \<open>Identifiers\<close>

definition is_ascii_hexdigit :: "char \<Rightarrow> bool" where
  "is_ascii_hexdigit c \<longleftrightarrow> to_digit 16 c \<noteq> None"

definition hex_pair :: "string \<Rightarrow> u8" where
  "hex_pair p = word_of_nat (16 * the (to_digit 16 (p ! 0)) + the (to_digit 16 (p ! 1)))"

definition vless_parse_uuid :: "string \<Rightarrow> string + bytes" where
  "vless_parse_uuid s =
     (let hex = filter is_ascii_hexdigit s
      in if length hex = 32 then Inr (map hex_pair (chunks_exact 2 hex)) else Inl (''invalid UUID: '' @ s))"

section \<open>Headers\<close>

definition vless_addr :: "Target \<Rightarrow> bytes" where
  "vless_addr target =
     (case target of
        Domain host _ \<Rightarrow> 0x02 # word_of_nat (length host) # as_bytes host
      | Socket addr \<Rightarrow>
          (case sa_ip addr of
             V4 ip \<Rightarrow> 0x01 # octets4 ip
           | V6 ip \<Rightarrow> 0x03 # octets6 ip))"

definition vless_build_request :: "bytes \<Rightarrow> Target \<Rightarrow> bytes" where
  "vless_build_request uuid target =
     [0x00] @ uuid @ [0x00, 0x01] @ u16_be (target_port target) @ vless_addr target"

definition vless_build_udp_request :: "bytes \<Rightarrow> Target \<Rightarrow> bytes" where
  "vless_build_udp_request uuid target =
     [0x00] @ uuid @ [0x00, 0x02] @ u16_be (target_port target) @ vless_addr target"

definition parse_response_header :: "bytes \<Rightarrow> string + nat" where
  "parse_response_header buf =
     (if length buf < 2 then Inl ''vless response too short''
      else if buf ! 0 \<noteq> 0x00 then Inl (''unsupported vless response version: '' @ show_nat (unat (buf ! 0)))
      else if length buf < 2 + unat (buf ! 1) then Inl ''vless response addon truncated''
      else Inr (2 + unat (buf ! 1)))"

definition vless_encode_udp_frame :: "bytes \<Rightarrow> bytes" where
  "vless_encode_udp_frame payload = u16_be (word_of_nat (length payload)) @ payload"

definition vless_decode_udp_frame_len :: "bytes \<Rightarrow> string + nat \<times> nat" where
  "vless_decode_udp_frame_len buf =
     (if length buf < 2 then Inl ''vless udp frame: need at least 2 bytes for length''
      else Inr (2, unat (u16_of_be (take 2 buf))))"

text \<open>The outbound and the inbound have copies of the same functions.\<close>

definition parse_uuid :: "string \<Rightarrow> string + bytes" where
  "parse_uuid s = vless_parse_uuid s"

definition server_parse_uuid :: "string \<Rightarrow> string + bytes" where
  "server_parse_uuid s = vless_parse_uuid s"

definition build_request_header :: "bytes \<Rightarrow> Target \<Rightarrow> bytes" where
  "build_request_header uuid target = vless_build_request uuid target"

section \<open>Server\<close>

definition decode_vless_header :: "bytes list \<Rightarrow> Target proc" where
  "decode_vless_header users =
     read_u8 (\<lambda>ver. ensure (ver = 0x00) (''vless: unsupported version 0x'' @ hex02 ver) (
     Read 16 (\<lambda>uuid. ensure (uuid \<in> set users) ''vless: unauthorized UUID'' (
     read_u8 (\<lambda>addon_len.
     (if 0 < unat addon_len then Read (unat addon_len) else (\<lambda>k. k [])) (\<lambda>_.
     read_u8 (\<lambda>cmd. ensure (cmd = 0x01) (''vless: unsupported cmd 0x'' @ hex02 cmd) (
     read_u16 (\<lambda>port. read_u8 (\<lambda>atyp.
       if atyp = 0x01 then Read 4 (\<lambda>ip. Ret (Socket \<lparr>sa_ip = V4 (ipv4_of_bytes ip), sa_port = port\<rparr>))
       else if atyp = 0x02 then
         read_u8 (\<lambda>dlen. Read (unat dlen) (\<lambda>domain.
           case from_utf8 domain of
             None \<Rightarrow> Err ''invalid utf-8''
           | Some d \<Rightarrow> Ret (Domain d port)))
       else if atyp = 0x03 then Read 16 (\<lambda>ip. Ret (Socket \<lparr>sa_ip = V6 (ipv6_of_bytes ip), sa_port = port\<rparr>))
       else Err (''vless: unknown atyp 0x'' @ hex02 atyp)))))))))))"

text \<open>Without TLS the connection is handed to the dispatcher after the response header is written.\<close>

definition vless_handle_conn_plain :: "bytes list \<Rightarrow> Target proc" where
  "vless_handle_conn_plain users =
     proc_bind (decode_vless_header users) (\<lambda>target. Write [0x00, 0x00] (Ret target))"

text \<open>The identifiers of the users are parsed once, at the start; one that does not parse stops the inbound.\<close>

definition vless_users :: "string list \<Rightarrow> string + bytes list" where
  "vless_users us = map_err (\<lambda>e. ''vless inbound: invalid user UUID: '' @ e) (res_map server_parse_uuid us)"

text \<open>
  A WebSocket message is read into the free part of a buffer; what does not fit is dropped with the message. A read of
  exactly \<open>n\<close> bytes polls until it has them.
\<close>

definition ws_server_read :: "nat \<Rightarrow> bytes list \<Rightarrow> bytes \<times> bytes list" where
  "ws_server_read n msgs = (case msgs of [] \<Rightarrow> ([], []) | m # ms \<Rightarrow> (take n m, ms))"

fun ws_read_exact :: "nat \<Rightarrow> bytes list \<Rightarrow> (bytes \<times> bytes list) option" where
  "ws_read_exact n [] = (if n = 0 then Some ([], []) else None)"
| "ws_read_exact n (m # ms) =
     (if n = 0 then Some ([], m # ms)
      else if m = [] then None
      else map_option (\<lambda>(bs, rest). (take n m @ bs, rest)) (ws_read_exact (n - length (take n m)) ms))"

primrec run_ws :: "'a proc \<Rightarrow> bytes list \<Rightarrow> (string + 'a) \<times> bytes list" where
  "run_ws (Ret x) msgs = (Inr x, msgs)"
| "run_ws (Err e) msgs = (Inl e, msgs)"
| "run_ws (Read n k) msgs =
     (case ws_read_exact n msgs of
        None \<Rightarrow> (Inl ''early eof'', [])
      | Some (bs, ms) \<Rightarrow> run_ws (k bs) ms)"
| "run_ws (Peek k) msgs = run_ws (k (case msgs of (b # _) # _ \<Rightarrow> b | _ \<Rightarrow> 0)) msgs"
| "run_ws (Write bs p) msgs = run_ws p msgs"

section \<open>Outbound streams\<close>

text \<open>
  The adapter over TCP, TLS or REALITY: the request header goes out with the first write, the response header is cut
  from the first reads.
\<close>

record VlessTcpStream =
  vt_inner :: "bytes list"
  pending_header :: "bytes option"
  vt_read_buf :: bytes
  response_header_skipped :: bool
  raw_buf :: bytes

definition VlessTcpStream_new :: "bytes list \<Rightarrow> bytes \<Rightarrow> VlessTcpStream" where
  "VlessTcpStream_new inner_stream header =
     \<lparr>vt_inner = inner_stream, pending_header = Some header, vt_read_buf = [], response_header_skipped = False, raw_buf = []\<rparr>"

definition vless_poll_read :: "nat \<Rightarrow> VlessTcpStream \<Rightarrow> bytes \<times> VlessTcpStream" where
  "vless_poll_read n st =
     (if vt_read_buf st \<noteq> [] then (take n (vt_read_buf st), st\<lparr>vt_read_buf := drop n (vt_read_buf st)\<rparr>)
      else if \<not> response_header_skipped st then
        (case seg_read 512 (vt_inner st) of (filled, segs) \<Rightarrow>
           if filled = [] then ([], st\<lparr>vt_inner := segs\<rparr>)
           else
             (let raw = raw_buf st @ filled;
                  st = st\<lparr>vt_inner := segs, raw_buf := raw\<rparr>
              in if 2 \<le> length raw \<and> 2 + unat (raw ! 1) \<le> length raw then
                   (let payload = drop (2 + unat (raw ! 1)) raw;
                        st = st\<lparr>response_header_skipped := True, raw_buf := []\<rparr>
                    in if payload \<noteq> [] then (take n payload, st\<lparr>vt_read_buf := drop n payload\<rparr>) else ([], st))
                 else ([], st)))
      else (case seg_read n (vt_inner st) of (buf, segs) \<Rightarrow> (buf, st\<lparr>vt_inner := segs\<rparr>)))"

text \<open>
  \<open>accept\<close> is how many bytes the inner stream takes. The result is the count reported to the caller, the bytes that
  went out, and the adapter afterwards.
\<close>

definition vless_poll_write :: "nat \<Rightarrow> bytes \<Rightarrow> VlessTcpStream \<Rightarrow> nat \<times> bytes \<times> VlessTcpStream" where
  "vless_poll_write accept data st =
     (case pending_header st of
        Some header \<Rightarrow>
          (let combined = header @ data; n = min accept (length combined)
           in (if length header \<le> n then n - length header else 0, take n combined, st\<lparr>pending_header := None\<rparr>))
      | None \<Rightarrow> (min accept (length data), take (min accept (length data)) data, st))"

text \<open>The adapter over WebSocket: every write is a message, the first one carries the header.\<close>

record WsStream =
  ws_inner :: "bytes list"
  ws_pending_header :: "bytes option"
  ws_read_buf :: bytes
  ws_header_skipped :: bool

definition WsStream_new :: "bytes list \<Rightarrow> bytes \<Rightarrow> WsStream" where
  "WsStream_new msgs header = \<lparr>ws_inner = msgs, ws_pending_header = Some header, ws_read_buf = [], ws_header_skipped = False\<rparr>"

definition ws_poll_write :: "bytes \<Rightarrow> WsStream \<Rightarrow> bytes \<times> WsStream" where
  "ws_poll_write data st =
     (case ws_pending_header st of
        Some header \<Rightarrow> (header @ data, st\<lparr>ws_pending_header := None\<rparr>)
      | None \<Rightarrow> (data, st))"

text \<open>Messages are taken until one leaves bytes to deliver.\<close>

fun ws_fill :: "bool \<Rightarrow> bytes list \<Rightarrow> bytes \<times> bool \<times> bytes list" where
  "ws_fill skipped [] = ([], skipped, [])"
| "ws_fill skipped (m # ms) =
     (let data = (if skipped then m else (case parse_response_header m of Inr k \<Rightarrow> drop k m | Inl _ \<Rightarrow> m))
      in if data = [] then ws_fill True ms else (data, True, ms))"

definition ws_poll_read :: "nat \<Rightarrow> WsStream \<Rightarrow> bytes \<times> WsStream" where
  "ws_poll_read n st =
     (if ws_read_buf st \<noteq> [] then (take n (ws_read_buf st), st\<lparr>ws_read_buf := drop n (ws_read_buf st)\<rparr>)
      else (case ws_fill (ws_header_skipped st) (ws_inner st) of (data, skipped, ms) \<Rightarrow>
              (take n data, st\<lparr>ws_read_buf := drop n data, ws_header_skipped := skipped, ws_inner := ms\<rparr>)))"

section \<open>UDP\<close>

text \<open>The frames of a session, and the loop that reads the answers; an empty frame ends it.\<close>

definition vless_udp_frames :: "InboundUdpPacket \<Rightarrow> bytes list \<Rightarrow> bytes" where
  "vless_udp_frames packet upstream =
     vless_encode_udp_frame (udp_data packet) @ concat (map vless_encode_udp_frame upstream)"

function vless_udp_answers :: "bytes \<Rightarrow> bytes list \<times> string option" where
  "vless_udp_answers inp =
     (if length inp < 2 then ([], None)
      else
        (let data_len = unat (u16_of_be (take 2 inp)); r = drop 2 inp
         in if data_len = 0 then ([], None)
            else if length r < data_len then ([], Some ''early eof'')
            else (case vless_udp_answers (drop data_len r) of (as, e) \<Rightarrow> (take data_len r # as, e))))"
  by pat_completeness auto
termination by (relation "measure length") auto

declare vless_udp_answers.simps [simp del]

section \<open>Outbound and inbound\<close>

interpretation vless_header: stream_codec "build_request_header uuid" "decode_vless_header users"
  "\<lambda>t. sendable t \<and> length uuid = 16 \<and> uuid \<in> set users" for uuid users
proof
  fix t
  assume a: "sendable t \<and> length uuid = 16 \<and> uuid \<in> set users"
  then have "reads (decode_vless_header users) (0x00 # uuid @ 0x00 # 0x01 # u16_be (target_port t) @ vless_addr t) t"
    by (auto simp: decode_vless_header_def vless_addr_def sendable_def talk from_utf8_as_bytes
        split: Target.splits IpAddr.splits)
  then show "reads (decode_vless_header users) (build_request_header uuid t) t"
    by (simp add: build_request_header_def vless_build_request_def)
qed

lemma unknown_uuid_rejected:
  "length uuid = 16 \<Longrightarrow> uuid \<notin> set users
   \<Longrightarrow> fst (run (decode_vless_header users) (build_request_header uuid t @ rest)) = Inl ''vless: unauthorized UUID''"
  by (simp add: decode_vless_header_def build_request_header_def vless_build_request_def)

text \<open>Once the response header is cut, or when it comes together with data, the adapter is a proper source.\<close>

definition vless_source_ok :: "VlessTcpStream \<Rightarrow> bool" where
  "vless_source_ok st \<longleftrightarrow>
     segs_ok (vt_inner st)
     \<and> (response_header_skipped st
        \<or> vt_read_buf st = [] \<and> raw_buf st = [] \<and> (\<exists>d ss. vt_inner st = ([0x00, 0x00] @ d) # ss \<and> d \<noteq> []))"

definition vless_remaining :: "VlessTcpStream \<Rightarrow> bytes" where
  "vless_remaining st =
     (if response_header_skipped st then vt_read_buf st @ concat (vt_inner st) else drop 2 (concat (vt_inner st)))"

lemma vless_first_read:
  assumes "vt_inner st = (0x00 # 0x00 # d) # ss" "d \<noteq> []" "vt_read_buf st = []" "raw_buf st = []" "\<not> response_header_skipped st"
  shows "vless_poll_read n st =
     (take n (take 510 d),
      st\<lparr>vt_inner := (if length d \<le> 510 then ss else drop 510 d # ss), response_header_skipped := True,
         raw_buf := [], vt_read_buf := drop n (take 510 d)\<rparr>)"
proof (cases "length d \<le> 510")
  case True
  with assms show ?thesis by (simp add: vless_poll_read_def seg_read_def)
next
  case False
  then have "take 510 d \<noteq> []" by auto
  with False assms show ?thesis by (simp add: vless_poll_read_def seg_read_def)
qed

lemma vless_later_read:
  assumes "response_header_skipped st" "vt_read_buf st = []"
  shows "vless_poll_read n st = (case seg_read n (vt_inner st) of (buf, segs) \<Rightarrow> (buf, st\<lparr>vt_inner := segs\<rparr>))"
  using assms by (simp add: vless_poll_read_def)

lemma vless_read_props:
  assumes "vless_source_ok s" "vless_poll_read BUF_SIZE s = (buf, s')"
  shows "buf @ vless_remaining s' = vless_remaining s \<and> vless_source_ok s' \<and> (buf = [] \<longrightarrow> vless_remaining s = [])"
proof -
  have b: "0 < BUF_SIZE" by (simp add: BUF_SIZE_def)
  have ok: "segs_ok (vt_inner s)" using assms(1) by (simp add: vless_source_ok_def)
  consider "vt_read_buf s \<noteq> []" | "vt_read_buf s = []" "response_header_skipped s"
    | "vt_read_buf s = []" "\<not> response_header_skipped s" by blast
  then show ?thesis
  proof cases
    case 1
    with assms b show ?thesis by (auto simp: vless_poll_read_def vless_remaining_def vless_source_ok_def)
  next
    case 2
    obtain segs where r: "seg_read BUF_SIZE (vt_inner s) = (buf, segs)" "s' = s\<lparr>vt_inner := segs\<rparr>"
      using assms(2) 2 by (auto simp: vless_later_read split: prod.splits)
    from seg_read_next [OF ok b r(1)] 2 show ?thesis by (auto simp: r(2) vless_remaining_def vless_source_ok_def)
  next
    case 3
    then obtain d ss where d: "vt_inner s = (0x00 # 0x00 # d) # ss" "d \<noteq> []" "raw_buf s = []"
      using assms(1) by (auto simp: vless_source_ok_def)
    from assms(2) ok 3 d b show ?thesis
      by (auto simp: vless_first_read [OF d(1,2) _ d(3)] vless_remaining_def vless_source_ok_def segs_ok_def BUF_SIZE_def
          split: if_splits)
  qed
qed

interpretation vless_source: byte_source "vless_poll_read BUF_SIZE" vless_remaining vless_source_ok
  by unfold_locales (use vless_read_props in blast)+

text \<open>The frames of UDP packets are read back in order.\<close>

lemma vless_udp_frames_read_back:
  assumes "\<forall>p \<in> set ps. p \<noteq> [] \<and> length p < 65536"
  shows "vless_udp_answers (concat (map vless_encode_udp_frame ps)) = (ps, None)"
  using assms
proof (induction ps)
  case Nil
  then show ?case by (simp add: vless_udp_answers.simps)
next
  case (Cons p ps)
  have "unat (word_of_nat (length p) :: u16) = length p" using Cons.prems by (simp add: unat_of_nat)
  with Cons show ?case by (subst vless_udp_answers.simps) (simp add: vless_encode_udp_frame_def [of p] Let_def)
qed

section \<open>Properties\<close>

text \<open>
  C23. A connection opened by the VLESS outbound is accepted by the VLESS inbound for exactly the users it knows. The
  first write of the outbound carries the request; the inbound answers with the response header, hands on the target and
  reads next the bytes the outbound wrote after the request. A request with another identifier is refused.
\<close>

theorem vless_request_accepted:
  assumes "sendable t" "length uuid = 16"
    and "length (build_request_header uuid t @ data) \<le> accept"
    and "vless_poll_write accept data (VlessTcpStream_new segs (build_request_header uuid t)) = (n, out, st)"
  shows "n = length data \<and> pending_header st = None
    \<and> (if uuid \<in> set users
       then run (vless_handle_conn_plain users) (out @ rest) = (Inr t, [0x00, 0x00], data @ rest)
       else fst (run (vless_handle_conn_plain users) (out @ rest)) = Inl ''vless: unauthorized UUID'')"
proof -
  have o: "n = length data" "out = build_request_header uuid t @ data" "pending_header st = None"
    using assms(3,4) by (auto simp: vless_poll_write_def VlessTcpStream_new_def Let_def min_def split: if_splits)
  show ?thesis
  proof (cases "uuid \<in> set users")
    case True
    with vless_header.decodes [of t uuid users "data @ rest"] assms(1,2) o show ?thesis
      by (simp add: vless_handle_conn_plain_def run_bind)
  next
    case False
    obtain r w u where d: "run (decode_vless_header users) (build_request_header uuid t @ data @ rest) = (r, w, u)"
      by (cases "run (decode_vless_header users) (build_request_header uuid t @ data @ rest)")
    with unknown_uuid_rejected [OF assms(2) False, of t "data @ rest"] have "r = Inl ''vless: unauthorized UUID''" by simp
    with d False o show ?thesis by (simp add: vless_handle_conn_plain_def run_bind)
  qed
qed

text \<open>
  C24. What the relay of a VLESS connection downloads depends on how the response header arrives. When data comes in one
  segment with it, the relay delivers all the data. When it arrives alone, as the inbound sends it before the target has
  answered, the relay takes the empty read for the end of the stream and delivers nothing.
\<close>

theorem vless_download:
  assumes "segs_ok segs" "\<And>w buf. writer w buf = Some (w @ buf)"
  shows "(\<exists>st. copy_half (vless_poll_read BUF_SIZE) writer (VlessTcpStream_new ([0x00, 0x00] # segs) hdr) w 0 = Some (0, st, w))
    \<and> (d \<noteq> [] \<longrightarrow> (\<exists>st. copy_half (vless_poll_read BUF_SIZE) writer (VlessTcpStream_new (([0x00, 0x00] @ d) # segs) hdr) w 0
         = Some (word_of_nat (length (d @ concat segs)), st, w @ d @ concat segs)))"
proof (intro conjI impI)
  show "\<exists>st. copy_half (vless_poll_read BUF_SIZE) writer (VlessTcpStream_new ([0x00, 0x00] # segs) hdr) w 0 = Some (0, st, w)"
    by (simp add: copy_half.simps vless_poll_read_def VlessTcpStream_new_def seg_read_def)
next
  assume d: "d \<noteq> []"
  let ?s = "VlessTcpStream_new (([0x00, 0x00] @ d) # segs) hdr"
  have "vless_source_ok ?s" using assms(1) d by (auto simp: vless_source_ok_def VlessTcpStream_new_def segs_ok_def)
  from vless_source.copy_half_complete [OF this assms(2), of w 0]
  show "\<exists>st. copy_half (vless_poll_read BUF_SIZE) writer ?s w 0
      = Some (word_of_nat (length (d @ concat segs)), st, w @ d @ concat segs)"
    by (simp add: vless_remaining_def VlessTcpStream_new_def)
qed

theorem vless_download_witness:
  "(\<exists>st. copy_half (vless_poll_read BUF_SIZE) (\<lambda>w buf. Some (w @ buf)) (VlessTcpStream_new [[0, 0], [7, 8]] []) [] 0
      = Some (0, st, []))
   \<and> (\<exists>st. copy_half (vless_poll_read BUF_SIZE) (\<lambda>w buf. Some (w @ buf)) (VlessTcpStream_new [[0, 0, 7], [8]] []) [] 0
      = Some (2, st, [7, 8]))"
proof -
  have s: "segs_ok [[7, 8]]" "segs_ok [[8]]" by (simp_all add: segs_ok_def)
  show ?thesis
    using vless_download [OF s(1), of "\<lambda>w buf. Some (w @ buf)" "[]" "[]" "[7]"]
      vless_download [OF s(2), of "\<lambda>w buf. Some (w @ buf)" "[]" "[]" "[7]"] by simp
qed

theorem vless_request_accepted_witness:
  "run (vless_handle_conn_plain [replicate 16 9]) (build_request_header (replicate 16 9) (Domain ''a.b'' 443) @ [1, 2])
     = (Inr (Domain ''a.b'' 443), [0, 0], [1, 2])"
proof -
  have "sendable (Domain ''a.b'' 443)" by (simp add: sendable_def str_ok_ascii ascii_def code_def)
  from vless_request_accepted [OF this, of "replicate 16 9" "[1, 2]" 1000 "[]" _ _ _ "[replicate 16 9]" "[]"]
  show ?thesis
    by (simp add: vless_poll_write_def VlessTcpStream_new_def build_request_header_def vless_build_request_def vless_addr_def)
qed

section \<open>Observations\<close>

text \<open>
  Over WebSocket the inbound loses the rest of a message after the first byte it reads of it, so it never decodes the
  message in which the outbound sends its request.
\<close>

lemma vless_over_ws_fails:
  "fst (run_ws (decode_vless_header users) [fst (ws_poll_write data (WsStream_new msgs (build_request_header uuid t)))])
     = Inl ''early eof''"
  by (simp add: ws_poll_write_def WsStream_new_def build_request_header_def vless_build_request_def decode_vless_header_def
      read_u8_def)

text \<open>The inbound refuses the UDP requests of the outbound.\<close>

lemma vless_udp_refused:
  "length uuid = 16 \<Longrightarrow> uuid \<in> set users
   \<Longrightarrow> fst (run (vless_handle_conn_plain users) (vless_build_udp_request uuid t @ rest)) = Inl (''vless: unsupported cmd 0x'' @ hex02 2)"
  by (simp add: vless_handle_conn_plain_def decode_vless_header_def vless_build_udp_request_def run_bind)

text \<open>The outbound sends its request with the first write only: a target that speaks first is never reached.\<close>

lemma vless_request_waits_for_write: "comes_to (Read (Suc n) k, vless_handle_conn_plain users, [], []) f
   \<longleftrightarrow> f = (Read (Suc n) k, vless_handle_conn_plain users, [], [])"
proof -
  have "session_end (Read (Suc n) k, vless_handle_conn_plain users, [], [])"
    by (auto simp: session_end_def vless_handle_conn_plain_def decode_vless_header_def read_u8_def session_step.simps)
  then show ?thesis unfolding comes_to_def session_end_def by (metis converse_rtranclpE rtranclp.rtrancl_refl)
qed

text \<open>A transport that takes less than the header loses the rest of it and reports a write of no bytes, an error for the caller.\<close>

lemma vless_short_write_loses_header:
  "accept < length header \<Longrightarrow>
   vless_poll_write accept data (VlessTcpStream_new segs header)
     = (0, take accept header, (VlessTcpStream_new segs header)\<lparr>pending_header := None\<rparr>)"
  by (simp add: vless_poll_write_def VlessTcpStream_new_def)

end
