(* ===== verification/Trojan.thy ===== *)
theory Trojan
  imports Relay
begin

text \<open>
  Trojan: request header, UDP frames and stream adapters of the outbound (\<open>outbound/trojan.rs\<close>), and the server
  inbound (\<open>inbound/trojan_server.rs\<close>). The digest of a password, SHA-224 printed in hexadecimal (crates \<open>sha2\<close> and
  \<open>hex\<close>), is a parameter; the code relies on its 56 characters.
\<close>

section \<open>Header and frames\<close>

definition KEY_LEN :: nat where "KEY_LEN = 56"
definition CMD_TCP :: u8 where "CMD_TCP = 0x01"
definition CMD_UDP :: u8 where "CMD_UDP = 0x03"
definition ATYP_IPV4 :: u8 where "ATYP_IPV4 = 0x01"
definition ATYP_DOMAIN :: u8 where "ATYP_DOMAIN = 0x03"
definition ATYP_IPV6 :: u8 where "ATYP_IPV6 = 0x04"
definition CRLF :: bytes where "CRLF = [0x0D, 0x0A]"

lemmas trojan_consts [talk] = CMD_TCP_def CMD_UDP_def ATYP_IPV4_def ATYP_DOMAIN_def ATYP_IPV6_def CRLF_def

text \<open>Copying a digest of another length than the key's panics.\<close>

definition derive_key :: "(bytes \<Rightarrow> bytes) \<Rightarrow> string \<Rightarrow> bytes option" where
  "derive_key sha224_hex password =
     (let h = sha224_hex (as_bytes password) in if length h = KEY_LEN then Some h else None)"

definition write_addr :: "Target \<Rightarrow> bytes" where
  "write_addr target =
     (case target of
        Domain host port \<Rightarrow> ATYP_DOMAIN # word_of_nat (length host) # as_bytes host @ u16_be port
      | Socket addr \<Rightarrow>
          (case sa_ip addr of
             V4 ip \<Rightarrow> ATYP_IPV4 # octets4 ip @ u16_be (sa_port addr)
           | V6 ip \<Rightarrow> ATYP_IPV6 # octets6 ip @ u16_be (sa_port addr)))"

definition build_tcp_header :: "bytes \<Rightarrow> Target \<Rightarrow> bytes" where
  "build_tcp_header key target = key @ CRLF @ [CMD_TCP] @ write_addr target @ CRLF"

definition build_udp_handshake :: "bytes \<Rightarrow> Target \<Rightarrow> bytes" where
  "build_udp_handshake key target = key @ CRLF @ [CMD_UDP] @ write_addr target @ CRLF"

definition build_udp_frame :: "Target \<Rightarrow> bytes \<Rightarrow> bytes" where
  "build_udp_frame target data = write_addr target @ u16_be (word_of_nat (length data)) @ CRLF @ data"

section \<open>Outbound streams\<close>

text \<open>The adapter over TCP or TLS adds the header to the first write; reads pass through.\<close>

definition trojan_poll_write :: "nat \<Rightarrow> bytes \<Rightarrow> bytes option \<Rightarrow> nat \<times> bytes \<times> bytes option" where
  "trojan_poll_write accept data header_left =
     (case header_left of
        Some header \<Rightarrow>
          (let combined = header @ data; n = min accept (length combined)
           in (if length header \<le> n then n - length header else 0, take n combined, None))
      | None \<Rightarrow> (min accept (length data), take (min accept (length data)) data, None))"

definition trojan_poll_read :: "nat \<Rightarrow> bytes list \<Rightarrow> bytes \<times> bytes list" where
  "trojan_poll_read n inner_stream = seg_read n inner_stream"

text \<open>The adapter over WebSocket buffers the message it is reading; empty messages are passed over.\<close>

record TrojanWsStream =
  tw_inner :: "bytes list"
  tw_pending_header :: "bytes option"
  tw_read_buf :: bytes

definition TrojanWsStream_new :: "bytes list \<Rightarrow> bytes \<Rightarrow> TrojanWsStream" where
  "TrojanWsStream_new msgs header = \<lparr>tw_inner = msgs, tw_pending_header = Some header, tw_read_buf = []\<rparr>"

definition trojan_ws_read :: "nat \<Rightarrow> TrojanWsStream \<Rightarrow> bytes \<times> TrojanWsStream" where
  "trojan_ws_read n st =
     (if tw_read_buf st \<noteq> [] then (take n (tw_read_buf st), st\<lparr>tw_read_buf := drop n (tw_read_buf st)\<rparr>)
      else (case dropWhile (\<lambda>m. m = []) (tw_inner st) of
              [] \<Rightarrow> ([], st\<lparr>tw_inner := []\<rparr>)
            | m # ms \<Rightarrow> (take n m, st\<lparr>tw_inner := ms, tw_read_buf := drop n m\<rparr>)))"

definition trojan_ws_write :: "bytes \<Rightarrow> TrojanWsStream \<Rightarrow> bytes \<times> TrojanWsStream" where
  "trojan_ws_write data st =
     (case tw_pending_header st of
        Some header \<Rightarrow> (header @ data, st\<lparr>tw_pending_header := None\<rparr>)
      | None \<Rightarrow> (data, st))"

section \<open>UDP\<close>

definition trojan_udp_frames :: "InboundUdpPacket \<Rightarrow> bytes list \<Rightarrow> bytes" where
  "trojan_udp_frames packet upstream =
     build_udp_frame (udp_target packet) (udp_data packet) @ concat (map (build_udp_frame (udp_target packet)) upstream)"

text \<open>
  The loop that reads the answers. The address of a frame is skipped; a frame of an unknown type, an empty one, and the
  end of the stream end it; a stream that ends inside a frame is an error.
\<close>

function trojan_udp_answers :: "bytes \<Rightarrow> bytes list \<times> string option" where
  "trojan_udp_answers inp =
     (case inp of
        [] \<Rightarrow> ([], None)
      | atyp # r \<Rightarrow>
          (case (if atyp = ATYP_IPV4 then Some (Some (4, r))
                 else if atyp = ATYP_IPV6 then Some (Some (16, r))
                 else if atyp = ATYP_DOMAIN then Some (case r of [] \<Rightarrow> None | l # r' \<Rightarrow> Some (unat l, r'))
                 else None) of
             None \<Rightarrow> ([], None)
           | Some None \<Rightarrow> ([], Some ''early eof'')
           | Some (Some (addr_len, r)) \<Rightarrow>
               if length r < addr_len + 6 then ([], Some ''early eof'')
               else
                 (let data_len = unat (u16_of_be (take 2 (drop (addr_len + 2) r))); r = drop (addr_len + 6) r
                  in if data_len = 0 then ([], None)
                     else if length r < data_len then ([], Some ''early eof'')
                     else (case trojan_udp_answers (drop data_len r) of (as, e) \<Rightarrow> (take data_len r # as, e)))))"
  by pat_completeness auto
termination by (relation "measure length") (auto split: if_splits list.splits)

declare trojan_udp_answers.simps [simp del]

section \<open>Server\<close>

definition trojan_users :: "(bytes \<Rightarrow> bytes) \<Rightarrow> string list \<Rightarrow> bytes list" where
  "trojan_users sha224_hex passwords = map (\<lambda>p. sha224_hex (as_bytes p)) passwords"

definition decode_trojan_header :: "bytes list \<Rightarrow> Target proc" where
  "decode_trojan_header hashed_passwords =
     Read 56 (\<lambda>password_hex. ensure (password_hex \<in> set hashed_passwords) ''trojan: unauthorized password'' (
     Read 2 (\<lambda>crlf. ensure (crlf = CRLF) ''trojan: expected CRLF after password'' (
     read_u8 (\<lambda>cmd. ensure (cmd = 0x01) ''trojan: only TCP CONNECT (0x01) supported'' (
     read_u8 (\<lambda>atyp.
       proc_bind
         (if atyp = 0x01 then
            Read 4 (\<lambda>ip. read_u16 (\<lambda>port. Ret (Socket \<lparr>sa_ip = V4 (ipv4_of_bytes ip), sa_port = port\<rparr>)))
          else if atyp = 0x03 then
            read_u8 (\<lambda>dlen. Read (unat dlen) (\<lambda>domain. read_u16 (\<lambda>port.
              case from_utf8 domain of
                None \<Rightarrow> Err ''invalid utf-8''
              | Some d \<Rightarrow> Ret (Domain d port))))
          else if atyp = 0x04 then
            Read 16 (\<lambda>ip. read_u16 (\<lambda>port. Ret (Socket \<lparr>sa_ip = V6 (ipv6_of_bytes ip), sa_port = port\<rparr>)))
          else Err (''trojan: unknown atyp 0x'' @ hex02 atyp))
         (\<lambda>target.
            Read 2 (\<lambda>crlf. ensure (crlf = CRLF) ''trojan: expected CRLF after address'' (Ret target))))))))))"

section \<open>Outbound and inbound\<close>

interpretation trojan_header: stream_codec "build_tcp_header key" "decode_trojan_header users"
  "\<lambda>t. sendable t \<and> length key = 56 \<and> key \<in> set users" for key users
proof
  fix t
  assume a: "sendable t \<and> length key = 56 \<and> key \<in> set users"
  then have "reads (decode_trojan_header users) (key @ 0x0D # 0x0A # 0x01 # write_addr t @ [0x0D, 0x0A]) t"
    by (auto simp: decode_trojan_header_def write_addr_def sendable_def talk from_utf8_as_bytes
        split: Target.splits IpAddr.splits)
  then show "reads (decode_trojan_header users) (build_tcp_header key t) t"
    by (simp add: build_tcp_header_def CRLF_def CMD_TCP_def)
qed

lemma unknown_password_rejected:
  "length key = 56 \<Longrightarrow> key \<notin> set users
   \<Longrightarrow> fst (run (decode_trojan_header users) (build_tcp_header key t @ rest)) = Inl ''trojan: unauthorized password''"
  by (simp add: decode_trojan_header_def build_tcp_header_def)

interpretation trojan_source: byte_source "trojan_poll_read BUF_SIZE" concat segs_ok
  unfolding trojan_poll_read_def [abs_def] by (rule tcp_source.byte_source_axioms)

text \<open>Over WebSocket every message is delivered, whatever the messages.\<close>

definition trojan_ws_remaining :: "TrojanWsStream \<Rightarrow> bytes" where
  "trojan_ws_remaining st = tw_read_buf st @ concat (tw_inner st)"

lemma concat_dropWhile_Nil: "concat (dropWhile (\<lambda>m. m = []) ms) = concat ms"
  by (induction ms) auto

interpretation trojan_ws_source: byte_source "trojan_ws_read BUF_SIZE" trojan_ws_remaining "\<lambda>_. True"
proof
  fix s s' :: TrojanWsStream and buf
  assume r: "trojan_ws_read BUF_SIZE s = (buf, s')"
  show "buf @ trojan_ws_remaining s' = trojan_ws_remaining s \<and> True"
  proof (cases "dropWhile (\<lambda>m. m = []) (tw_inner s)")
    case Nil
    with r concat_dropWhile_Nil [of "tw_inner s"] show ?thesis
      by (auto simp: trojan_ws_read_def trojan_ws_remaining_def simp del: dropWhile_eq_Nil_conv split: if_splits)
  next
    case (Cons m ms)
    with r concat_dropWhile_Nil [of "tw_inner s"] show ?thesis
      by (auto simp: trojan_ws_read_def trojan_ws_remaining_def split: if_splits)
         (metis append_take_drop_id append_assoc)
  qed
next
  fix s s' :: TrojanWsStream
  assume r: "trojan_ws_read BUF_SIZE s = ([], s')"
  have b: "0 < BUF_SIZE" by (simp add: BUF_SIZE_def)
  have rb: "tw_read_buf s = []"
  proof (rule ccontr)
    assume "tw_read_buf s \<noteq> []"
    with r b show False by (simp add: trojan_ws_read_def)
  qed
  show "trojan_ws_remaining s = []"
  proof (cases "dropWhile (\<lambda>m. m = []) (tw_inner s)")
    case Nil
    then have "concat (tw_inner s) = []" using concat_dropWhile_Nil [of "tw_inner s"] by (metis concat.simps(1))
    with rb show ?thesis by (simp add: trojan_ws_remaining_def)
  next
    case (Cons m ms)
    then have "m \<noteq> []" using hd_dropWhile [of "\<lambda>m. m = []" "tw_inner s"] by simp
    with Cons r rb b show ?thesis by (simp add: trojan_ws_read_def)
  qed
qed

lemma trojan_udp_frame_read:
  assumes "sendable t" "p \<noteq> []" "length p < 65536"
  shows "trojan_udp_answers (build_udp_frame t p @ rest) = (case trojan_udp_answers rest of (as, e) \<Rightarrow> (p # as, e))"
proof -
  have l: "unat (word_of_nat (length p) :: u16) = length p" using assms(3) by (simp add: unat_of_nat)
  have d: "take 2 (drop (n + 2) (h @ u16_be port @ u16_be w @ r)) = u16_be w" "drop (n + 6) (h @ u16_be port @ u16_be w @ 13 # 10 # r) = r"
    if "length h = n" for h n port w r
    using that by simp_all
  show ?thesis
    using assms l
    by (cases t; cases "sa_ip (case t of Socket a \<Rightarrow> a)")
       (subst trojan_udp_answers.simps, simp add: build_udp_frame_def write_addr_def sendable_def Let_def d talk)+
qed

section \<open>Properties\<close>

text \<open>
  C36. A connection opened by the Trojan outbound to a target it can encode, whose first write the transport takes whole, is
  accepted by the Trojan inbound exactly when the digest of the password is one of the digests of the inbound's passwords;
  otherwise it is refused as unauthorized. The inbound hands on the target and reads next the bytes the outbound wrote after
  the request, and what it sends back is delivered completely by the relay of the outbound, over TCP and over WebSocket.
\<close>

theorem trojan_tunnel:
  assumes "sendable t" "derive_key sha224_hex password = Some key"
    and "length (build_tcp_header key t @ data) \<le> accept"
    and "trojan_poll_write accept data (Some (build_tcp_header key t)) = (n, out, header_left)"
    and "segs_ok segs" "\<And>w buf. writer w buf = Some (w @ buf)"
  shows "n = length data \<and> header_left = None
    \<and> (if sha224_hex (as_bytes password) \<in> (\<lambda>p. sha224_hex (as_bytes p)) ` set passwords
       then run (decode_trojan_header (trojan_users sha224_hex passwords)) (out @ rest) = (Inr t, [], data @ rest)
       else fst (run (decode_trojan_header (trojan_users sha224_hex passwords)) (out @ rest)) = Inl ''trojan: unauthorized password'')
    \<and> (\<exists>s. copy_half (trojan_poll_read BUF_SIZE) writer segs w 0 = Some (word_of_nat (length (concat segs)), s, w @ concat segs))
    \<and> (\<exists>s. copy_half (trojan_ws_read BUF_SIZE) writer (TrojanWsStream_new segs hdr) w 0
         = Some (word_of_nat (length (concat segs)), s, w @ concat segs))"
proof -
  have k: "key = sha224_hex (as_bytes password)" "length key = 56"
    using assms(2) by (auto simp: derive_key_def KEY_LEN_def Let_def split: if_splits)
  have o: "n = length data" "out = build_tcp_header key t @ data" "header_left = None"
    using assms(3,4) by (auto simp: trojan_poll_write_def Let_def min_def split: if_splits)
  have u: "key \<in> set (trojan_users sha224_hex passwords) \<longleftrightarrow> key \<in> (\<lambda>p. sha224_hex (as_bytes p)) ` set passwords"
    by (simp add: trojan_users_def)
  have d: "if key \<in> (\<lambda>p. sha224_hex (as_bytes p)) ` set passwords
       then run (decode_trojan_header (trojan_users sha224_hex passwords)) (out @ rest) = (Inr t, [], data @ rest)
       else fst (run (decode_trojan_header (trojan_users sha224_hex passwords)) (out @ rest)) = Inl ''trojan: unauthorized password''"
    using trojan_header.decodes [of t key "trojan_users sha224_hex passwords" "data @ rest"] assms(1) k(2)
      unknown_password_rejected [of key "trojan_users sha224_hex passwords" t "data @ rest"] unfolding u o by simp
  have ws: "\<exists>s. copy_half (trojan_ws_read BUF_SIZE) writer (TrojanWsStream_new segs hdr) w 0
      = Some (0 + word_of_nat (length (trojan_ws_remaining (TrojanWsStream_new segs hdr))), s, w @ trojan_ws_remaining (TrojanWsStream_new segs hdr))"
    by (rule trojan_ws_source.copy_half_complete) (auto simp: assms(6))
  show ?thesis
    using d o(1,3) ws trojan_source.copy_half_complete [OF assms(5,6), of w 0]
    unfolding k(1) by (auto simp: trojan_ws_remaining_def TrojanWsStream_new_def)
qed

theorem trojan_tunnel_witness:
  "run (decode_trojan_header (trojan_users (\<lambda>p. replicate 56 (word_of_nat (length p))) [''secret'', ''x'']))
      (build_tcp_header (replicate 56 6) (Domain ''a.b'' 443) @ [1, 2]) = (Inr (Domain ''a.b'' 443), [], [1, 2])"
proof -
  have s: "sendable (Domain ''a.b'' 443)" by (simp add: sendable_def str_ok_ascii ascii_def code_def)
  have k: "derive_key (\<lambda>p. replicate 56 (word_of_nat (length p))) ''secret'' = Some (replicate 56 6)"
    by (simp add: derive_key_def KEY_LEN_def)
  have l: "length (build_tcp_header (replicate 56 6) (Domain ''a.b'' 443) @ [1, 2]) \<le> 100" by code_simp
  have g: "segs_ok []" by (simp add: segs_ok_def)
  have w: "trojan_poll_write 100 [1, 2] (Some (build_tcp_header (replicate 56 6) (Domain ''a.b'' 443)))
      = (2, build_tcp_header (replicate 56 6) (Domain ''a.b'' 443) @ [1, 2], None)" by code_simp
  from trojan_tunnel [OF s k l w g, of "\<lambda>w b. Some (w @ b)" "[''secret'', ''x'']" "[]"] show ?thesis by simp
qed

section \<open>Observations\<close>

text \<open>The frames of UDP packets are read back in order, though the inbound of this program refuses the UDP request.\<close>

lemma trojan_udp_frames_read_back:
  assumes "sendable t" "\<forall>p \<in> set ps. p \<noteq> [] \<and> length p < 65536"
  shows "trojan_udp_answers (concat (map (build_udp_frame t) ps)) = (ps, None)"
  using assms(2)
proof (induction ps)
  case Nil
  then show ?case by (simp add: trojan_udp_answers.simps)
next
  case (Cons p ps)
  then show ?case by (simp add: trojan_udp_frame_read [OF assms(1)])
qed

lemma trojan_udp_refused:
  "length key = 56 \<Longrightarrow> key \<in> set users
   \<Longrightarrow> fst (run (decode_trojan_header users) (build_udp_handshake key t @ rest)) = Inl ''trojan: only TCP CONNECT (0x01) supported''"
  by (simp add: decode_trojan_header_def build_udp_handshake_def talk)

end
