(* ===== verification/Config_Types.thy ===== *)
theory Config_Types
  imports Outbound_Group Socks Dns_Resolver Tun_Route
begin

text \<open>
  The configuration as the program reads it (\<open>config/outbound.rs\<close>, \<open>config/inbound.rs\<close>, \<open>config/provider.rs\<close>,
  \<open>config/global.rs\<close>, \<open>config/log.rs\<close>, \<open>config/experimental.rs\<close>): one record per struct, one datatype per tagged enum,
  and the defaults of the fields that have one. Decoding JSON into these types is done by serde.
\<close>

section \<open>Transport and TLS of the outbounds\<close>

datatype TlsVersion = Tls12 | Tls13

record TlsConfig =
  tls_enabled :: bool
  tls_server_name :: "string option"
  tls_insecure :: bool
  tls_ca_path :: "string option"
  tls_alpn :: "string list"
  tls_min_version :: "TlsVersion option"
  tls_max_version :: "TlsVersion option"

definition TlsConfig_default :: TlsConfig where
  "TlsConfig_default =
     \<lparr>tls_enabled = True, tls_server_name = None, tls_insecure = False, tls_ca_path = None, tls_alpn = [],
      tls_min_version = None, tls_max_version = None\<rparr>"

definition default_disabled_tls :: TlsConfig where
  "default_disabled_tls = TlsConfig_default\<lparr>tls_enabled := False\<rparr>"

record RealityConfig =
  reality_enabled :: bool
  reality_public_key :: string
  reality_short_id :: string

record VlessTlsConfig =
  vtls_enabled :: bool
  vtls_server_name :: "string option"
  vtls_insecure :: bool
  vtls_ca_path :: "string option"
  vtls_alpn :: "string list"
  vtls_reality :: "RealityConfig option"

record WsTransportConfig =
  wst_path :: string
  wst_headers :: "string \<rightharpoonup> string"
  wst_early_data_header_name :: "string option"
  wst_max_early_data :: u32

record XmuxConfig =
  max_concurrency :: "u32 option"
  max_connections :: "u32 option"
  c_max_reuse_times :: "u32 option"
  h_max_request_times :: "u32 option"
  h_max_reusable_secs :: "u32 option"
  h_keep_alive_period :: "u64 option"

record XhttpTransportConfig =
  xh_host :: "string option"
  xh_path :: "string option"
  xh_mode :: "string option"
  xh_headers :: "string \<rightharpoonup> string"
  sc_max_each_post_bytes :: "u64 option"
  sc_min_posts_interval_ms :: "u64 option"
  sc_max_buffered_posts :: "u64 option"
  no_grpc_header :: bool
  no_sse_header :: bool
  uplink_http_method :: "string option"
  xmux :: "XmuxConfig option"

datatype ShadowsocksTransportConfig = SsWs WsTransportConfig | SsXhttp XhttpTransportConfig

datatype VlessTransportConfig = VlWs WsTransportConfig | VlTcp bool | VlXhttp XhttpTransportConfig

datatype VmessTransportConfig = VmTcp | VmWs WsTransportConfig | VmXhttp XhttpTransportConfig

datatype TrojanTransportConfig = TrTcp | TrWs WsTransportConfig | TrXhttp XhttpTransportConfig

section \<open>Outbounds\<close>

record ShadowsocksOutboundConfig =
  ss_tag :: string
  ss_server :: string
  ss_server_port :: u16
  ss_method :: string
  ss_password :: string
  ss_plugin :: "string option"
  ss_plugin_opts :: "string option"
  ss_transport :: "ShadowsocksTransportConfig option"
  ss_tls :: "TlsConfig option"
  ss_detour :: "string option"

record VlessOutboundConfig =
  vl_tag :: string
  vl_server :: string
  vl_server_port :: u16
  vl_uuid :: string
  vl_transport :: "VlessTransportConfig option"
  vl_tls :: "VlessTlsConfig option"
  vl_detour :: "string option"

record VmessOutboundConfig =
  vm_tag :: string
  vm_server :: string
  vm_server_port :: u16
  vm_uuid :: string
  vm_security :: string
  vm_transport :: VmessTransportConfig
  vm_tls :: TlsConfig
  vm_detour :: "string option"

record Hysteria2OutboundConfig =
  hy_tag :: string
  hy_server :: string
  hy_server_port :: u16
  hy_password :: string
  hy_tls :: TlsConfig
  hy_up_mbps :: u64
  hy_down_mbps :: u64
  hy_detour :: "string option"

text \<open>In a release build the multiplication wraps.\<close>

definition mbps_to_bps :: "u64 \<Rightarrow> u64" where
  "mbps_to_bps mbps = mbps * 1000000 div 8"

record TuicOutboundConfig =
  tu_tag :: string
  tu_server :: string
  tu_server_port :: u16
  tu_uuid :: string
  tu_password :: string
  tu_congestion_control :: string
  tu_udp_relay_mode :: string
  tu_tls :: TlsConfig
  tu_heartbeat :: "string option"
  tu_zero_rtt_handshake :: bool
  tu_detour :: "string option"

record TrojanOutboundConfig =
  tr_tag :: string
  tr_server :: string
  tr_server_port :: u16
  tr_password :: string
  tr_transport :: "TrojanTransportConfig option"
  tr_tls :: TlsConfig
  tr_detour :: "string option"

record DirectOutboundConfig =
  di_tag :: string
  di_bind_address :: "string option"

record BlockOutboundConfig =
  bl_tag :: string

datatype OutboundConfig =
    Vless VlessOutboundConfig
  | Vmess VmessOutboundConfig
  | Shadowsocks ShadowsocksOutboundConfig
  | Hysteria2 Hysteria2OutboundConfig
  | Tuic TuicOutboundConfig
  | Trojan TrojanOutboundConfig
  | Direct DirectOutboundConfig
  | Block BlockOutboundConfig
  | Socks SocksOutboundConfig
  | Selector SelectorOutboundConfig
  | UrlTest UrlTestOutboundConfig

fun outbound_tag :: "OutboundConfig \<Rightarrow> string" where
  "outbound_tag (Vless c) = vl_tag c"
| "outbound_tag (Vmess c) = vm_tag c"
| "outbound_tag (Shadowsocks c) = ss_tag c"
| "outbound_tag (Hysteria2 c) = hy_tag c"
| "outbound_tag (Tuic c) = tu_tag c"
| "outbound_tag (Trojan c) = tr_tag c"
| "outbound_tag (Direct c) = di_tag c"
| "outbound_tag (Block c) = bl_tag c"
| "outbound_tag (Socks c) = so_tag c"
| "outbound_tag (Selector c) = sc_tag c"
| "outbound_tag (UrlTest c) = uc_tag c"

fun child_outbounds :: "OutboundConfig \<Rightarrow> string list" where
  "child_outbounds (Selector c) = sc_outbounds c"
| "child_outbounds (UrlTest c) = uc_outbounds c"
| "child_outbounds _ = []"

fun group_providers :: "OutboundConfig \<Rightarrow> ProviderRef option" where
  "group_providers (Selector c) = sc_providers c"
| "group_providers (UrlTest c) = uc_providers c"
| "group_providers _ = None"

fun group_default :: "OutboundConfig \<Rightarrow> string option" where
  "group_default (Selector c) = sc_default c"
| "group_default _ = None"

fun is_group :: "OutboundConfig \<Rightarrow> bool" where
  "is_group (Selector _) = True"
| "is_group (UrlTest _) = True"
| "is_group _ = False"

section \<open>Inbounds\<close>

record TProxyInboundConfig =
  tp_tag :: string
  tp_listen :: string
  tp_listen_port :: u16
  tp_network :: Network
  tp_routing_mark :: u32

record RedirInboundConfig =
  rd_tag :: string
  rd_listen :: string
  rd_listen_port :: u16

record DnsInboundConfig =
  dn_tag :: string
  dn_listen :: string
  dn_listen_port :: u16
  dn_network :: Network

record RealityServerConfig =
  rs_enabled :: bool
  rs_private_key :: string
  rs_public_key :: string
  rs_short_ids :: "string list"
  rs_dest :: string
  rs_server_name :: string
  rs_max_time_diff :: u64

record ServerTlsConfig =
  stls_enabled :: bool
  stls_certificate_path :: "string option"
  stls_certificate :: "string list"
  stls_key_path :: "string option"
  stls_key :: "string list"
  stls_server_name :: "string option"
  stls_alpn :: "string list"
  stls_reality :: "RealityServerConfig option"

record WsServerTransportConfig =
  wss_path :: string
  wss_host :: "string option"
  wss_max_early_data :: u32
  wss_early_data_header_name :: string

record XhttpServerTransportConfig =
  xhs_path :: string
  xhs_host :: "string option"

record GrpcServerTransportConfig =
  service_name :: string

record HttpUpgradeServerTransportConfig =
  hus_path :: string
  hus_host :: "string option"

datatype ServerTransportConfig =
    StTcp
  | StWs WsServerTransportConfig
  | StXhttp XhttpServerTransportConfig
  | StGrpc GrpcServerTransportConfig
  | StHttpUpgrade HttpUpgradeServerTransportConfig

record ServerMultiplexConfig =
  mux_enabled :: bool
  mux_padding :: bool

record VlessUser =
  vu_name :: string
  vu_uuid :: string
  vu_flow :: "string option"

record VlessInboundConfig =
  vli_tag :: string
  vli_listen :: string
  vli_listen_port :: u16
  vli_users :: "VlessUser list"
  vli_tls :: "ServerTlsConfig option"
  vli_transport :: "ServerTransportConfig option"
  vli_multiplex :: "ServerMultiplexConfig option"

record VmessUser =
  mu_name :: string
  mu_uuid :: string
  mu_alter_id :: u16

record VmessInboundConfig =
  vmi_tag :: string
  vmi_listen :: string
  vmi_listen_port :: u16
  vmi_users :: "VmessUser list"
  vmi_tls :: "ServerTlsConfig option"
  vmi_transport :: "ServerTransportConfig option"
  vmi_multiplex :: "ServerMultiplexConfig option"

record TrojanUser =
  tru_name :: string
  tru_password :: string

record FallbackConfig =
  fb_server :: string
  fb_server_port :: u16

record TrojanInboundConfig =
  tri_tag :: string
  tri_listen :: string
  tri_listen_port :: u16
  tri_users :: "TrojanUser list"
  tri_tls :: "ServerTlsConfig option"
  tri_transport :: "ServerTransportConfig option"
  tri_multiplex :: "ServerMultiplexConfig option"
  tri_fallback :: "FallbackConfig option"

record ShadowsocksUser =
  su_name :: string
  su_password :: string

record ShadowsocksInboundConfig =
  ssi_tag :: string
  ssi_listen :: string
  ssi_listen_port :: u16
  ssi_method :: string
  ssi_password :: "string option"
  ssi_users :: "ShadowsocksUser list"
  ssi_network :: Network
  ssi_multiplex :: "ServerMultiplexConfig option"

record Hysteria2User =
  hu_name :: string
  hu_password :: string

record Hysteria2ObfsConfig =
  obfs_type :: string
  obfs_password :: string

record Hysteria2MasqueradeConfig =
  masquerade_type :: string
  masq_url :: "string option"
  rewrite_host :: bool
  masq_directory :: "string option"
  masq_content :: "string option"
  masq_status_code :: u16

record Hysteria2InboundConfig =
  hyi_tag :: string
  hyi_listen :: string
  hyi_listen_port :: u16
  hyi_users :: "Hysteria2User list"
  hyi_tls :: ServerTlsConfig
  hyi_up_mbps :: u32
  hyi_down_mbps :: u32
  ignore_client_bandwidth :: bool
  hyi_obfs :: "Hysteria2ObfsConfig option"
  hyi_masquerade :: "Hysteria2MasqueradeConfig option"

record TuicUser =
  tuu_name :: string
  tuu_uuid :: string
  tuu_password :: string

record TuicInboundConfig =
  tui_tag :: string
  tui_listen :: string
  tui_listen_port :: u16
  tui_users :: "TuicUser list"
  tui_tls :: ServerTlsConfig
  tui_congestion_control :: string
  tui_auth_timeout :: u64
  tui_zero_rtt_handshake :: bool
  tui_heartbeat :: u64

datatype InboundConfig =
    TProxyIn TProxyInboundConfig
  | RedirIn RedirInboundConfig
  | MixedIn MixedInboundConfig
  | DnsIn DnsInboundConfig
  | TunIn TunInboundConfig
  | VlessIn VlessInboundConfig
  | VmessIn VmessInboundConfig
  | TrojanIn TrojanInboundConfig
  | ShadowsocksIn ShadowsocksInboundConfig
  | Hysteria2In Hysteria2InboundConfig
  | TuicIn TuicInboundConfig

fun inbound_tag :: "InboundConfig \<Rightarrow> string" where
  "inbound_tag (TProxyIn c) = tp_tag c"
| "inbound_tag (RedirIn c) = rd_tag c"
| "inbound_tag (MixedIn c) = mx_tag c"
| "inbound_tag (DnsIn c) = dn_tag c"
| "inbound_tag (TunIn c) = tc_tag c"
| "inbound_tag (VlessIn c) = vli_tag c"
| "inbound_tag (VmessIn c) = vmi_tag c"
| "inbound_tag (TrojanIn c) = tri_tag c"
| "inbound_tag (ShadowsocksIn c) = ssi_tag c"
| "inbound_tag (Hysteria2In c) = hyi_tag c"
| "inbound_tag (TuicIn c) = tui_tag c"

fun listen_addr :: "InboundConfig \<Rightarrow> string \<times> u16" where
  "listen_addr (TProxyIn c) = (tp_listen c, tp_listen_port c)"
| "listen_addr (RedirIn c) = (rd_listen c, rd_listen_port c)"
| "listen_addr (MixedIn c) = (mx_listen c, mx_listen_port c)"
| "listen_addr (DnsIn c) = (dn_listen c, dn_listen_port c)"
| "listen_addr (TunIn c) = ([], 0)"
| "listen_addr (VlessIn c) = (vli_listen c, vli_listen_port c)"
| "listen_addr (VmessIn c) = (vmi_listen c, vmi_listen_port c)"
| "listen_addr (TrojanIn c) = (tri_listen c, tri_listen_port c)"
| "listen_addr (ShadowsocksIn c) = (ssi_listen c, ssi_listen_port c)"
| "listen_addr (Hysteria2In c) = (hyi_listen c, hyi_listen_port c)"
| "listen_addr (TuicIn c) = (tui_listen c, tui_listen_port c)"

fun is_tun :: "InboundConfig \<Rightarrow> bool" where
  "is_tun (TunIn _) = True"
| "is_tun _ = False"

section \<open>Providers\<close>

record HealthCheckConfig =
  hc_url :: string
  hc_interval :: string
  hc_timeout :: string

record RemoteProviderConfig =
  rp_tag :: string
  rp_url :: string
  rp_path :: "string option"
  rp_user_agent :: string
  rp_update_interval :: string
  rp_health_check :: "HealthCheckConfig option"

record LocalProviderConfig =
  lp_tag :: string
  lp_path :: string
  lp_health_check :: "HealthCheckConfig option"

datatype ProviderConfig = Remote RemoteProviderConfig | Local LocalProviderConfig

fun provider_tag :: "ProviderConfig \<Rightarrow> string" where
  "provider_tag (Remote c) = rp_tag c"
| "provider_tag (Local c) = lp_tag c"

definition strip_suffix_char :: "char \<Rightarrow> string \<Rightarrow> string option" where
  "strip_suffix_char c s = (if s \<noteq> [] \<and> last s = c then Some (butlast s) else None)"

text \<open>Durations of providers have a grammar of their own. In a release build the multiplications wrap.\<close>

definition provider_parse_duration :: "string \<Rightarrow> string + u64" where
  "provider_parse_duration s0 =
     (let s = trim s0;
          value = (\<lambda>t factor. res_bind (ok_or ''invalid digit found in string'' (parse_uint (2 ^ 64 - 1) (trim t)))
            (\<lambda>n. Inr (word_of_nat n * factor)))
      in case strip_suffix_char CHR ''h'' s of
           Some t \<Rightarrow> value t 3600
         | None \<Rightarrow>
             (case strip_suffix_char CHR ''m'' s of
                Some t \<Rightarrow> value t 60
              | None \<Rightarrow>
                  (case strip_suffix_char CHR ''s'' s of
                     Some t \<Rightarrow> value t 1
                   | None \<Rightarrow> Inl (''invalid duration: '' @ s @ '' (expected format: 12h / 10m / 5s)''))))"

section \<open>Global options, logging, experimental features\<close>

record GlobalConfig =
  g_ipv6 :: bool
  g_routing_mark :: u32

definition GlobalConfig_default :: GlobalConfig where
  "GlobalConfig_default = \<lparr>g_ipv6 = True, g_routing_mark = 0\<rparr>"

datatype LogLevel = LTrace | LDebug | LInfo | LWarn | LError | LOff

record LogConfig =
  log_level :: LogLevel
  log_output :: string
  log_timestamp :: bool

definition LogConfig_default :: LogConfig where
  "LogConfig_default = \<lparr>log_level = LInfo, log_output = ''stderr'', log_timestamp = True\<rparr>"

record CacheFileConfig =
  cf_enabled :: bool
  cf_path :: string
  cf_store_fakeip :: bool
  cf_fakeip_ttl_days :: u32
  cf_store_dns :: bool
  cf_dns_cleanup_interval_secs :: u64

definition CacheFileConfig_default :: CacheFileConfig where
  "CacheFileConfig_default =
     \<lparr>cf_enabled = False, cf_path = ''cache.db'', cf_store_fakeip = False, cf_fakeip_ttl_days = 7, cf_store_dns = False,
      cf_dns_cleanup_interval_secs = 0\<rparr>"

record ClashApiConfig =
  api_enabled :: bool
  default_mode :: string
  mode_list :: "string list"
  external_controller :: string
  api_secret :: string
  external_ui :: "string option"

definition ClashApiConfig_default :: ClashApiConfig where
  "ClashApiConfig_default =
     \<lparr>api_enabled = True, default_mode = ''rule'', mode_list = [], external_controller = ''127.0.0.1:9090'', api_secret = [],
      external_ui = None\<rparr>"

record ExperimentalConfig =
  ex_cache_file :: "CacheFileConfig option"
  ex_clash_api :: "ClashApiConfig option"

record Config =
  c_global :: GlobalConfig
  c_log :: LogConfig
  c_dns :: DnsConfig
  c_inbounds :: "InboundConfig list"
  c_providers :: "ProviderConfig list"
  c_outbounds :: "OutboundConfig list"
  c_route :: RouteConfig
  c_experimental :: ExperimentalConfig

end
