(* ===== verification/Config_Check.thy ===== *)
theory Config_Check
  imports Config_Types Vless
begin

text \<open>
  Reading and checking the configuration (\<open>config/mod.rs\<close>): comments are stripped, paths resolved, and \<open>validate\<close>
  refuses a configuration with dangling references, duplicate tags or a cycle of groups. The central result is that it
  accepts exactly the well-formed configurations.
\<close>

section \<open>Comments\<close>

text \<open>The position of the first \<open>//\<close> outside a string; \<open>i\<close> is the position of the head of the list.\<close>

fun find_comment :: "bool \<Rightarrow> nat \<Rightarrow> string \<Rightarrow> nat option" where
  "find_comment in_str i [] = None"
| "find_comment in_str i (c # cs) =
     (if c = CHR 0x22 then find_comment (\<not> in_str) (i + 1) cs
      else if c = CHR 0x5C \<and> in_str then find_comment in_str (i + 2) (drop 1 cs)
      else if c = CHR ''/'' \<and> \<not> in_str \<and> cs \<noteq> [] \<and> hd cs = CHR ''/'' then Some i
      else find_comment in_str (i + 1) cs)"

definition find_line_comment :: "string \<Rightarrow> nat option" where
  "find_line_comment line = find_comment False 0 line"

definition strip_line :: "string \<Rightarrow> string" where
  "strip_line line =
     (let trimmed = trim_start line
      in if starts_with trimmed ''//'' \<or> starts_with trimmed ''#'' then []
         else (case find_line_comment line of Some pos \<Rightarrow> take pos line | None \<Rightarrow> line))"

definition strip_comments :: "string \<Rightarrow> string" where
  "strip_comments s = concat (map (\<lambda>line. strip_line line @ [CHR 0x0A]) (lines s))"

section \<open>Paths\<close>

definition is_absolute :: "string \<Rightarrow> bool" where
  "is_absolute p \<longleftrightarrow> starts_with p ''/''"

text \<open>\<open>Path::join\<close> with a relative path.\<close>

definition path_join :: "string \<Rightarrow> string \<Rightarrow> string" where
  "path_join base p =
     (if is_absolute p then p
      else if base = [] \<or> last base = CHR ''/'' then base @ p
      else base @ ''/'' @ p)"

definition resolve_path :: "string \<Rightarrow> string \<Rightarrow> string" where
  "resolve_path base_dir p = (if is_absolute p then p else path_join base_dir p)"

definition resolve_provider :: "string \<Rightarrow> ProviderConfig \<Rightarrow> ProviderConfig" where
  "resolve_provider base_dir p =
     (case p of
        Local l \<Rightarrow> Local (l\<lparr>lp_path := resolve_path base_dir (lp_path l)\<rparr>)
      | Remote r \<Rightarrow> Remote (r\<lparr>rp_path := map_option (resolve_path base_dir) (rp_path r)\<rparr>))"

definition resolve_paths :: "string \<Rightarrow> Config \<Rightarrow> Config" where
  "resolve_paths base_dir cfg =
     (let ex = c_experimental cfg;
          ex = ex\<lparr>ex_cache_file := map_option (\<lambda>cf. cf\<lparr>cf_path := resolve_path base_dir (cf_path cf)\<rparr>) (ex_cache_file ex)\<rparr>;
          ex = ex\<lparr>ex_clash_api :=
                 map_option (\<lambda>api. api\<lparr>external_ui := map_option (resolve_path base_dir) (external_ui api)\<rparr>) (ex_clash_api ex)\<rparr>;
          route = (c_route cfg)\<lparr>rc_rule_set :=
                 map (\<lambda>rs. rs\<lparr>rsr_path := map_option (resolve_path base_dir) (rsr_path rs)\<rparr>) (rc_rule_set (c_route cfg))\<rparr>
      in cfg\<lparr>c_experimental := ex, c_route := route, c_providers := map (resolve_provider base_dir) (c_providers cfg)\<rparr>)"

section \<open>Identifiers\<close>

definition single_quoted :: "string \<Rightarrow> string" where
  "single_quoted s = CHR 0x27 # s @ [CHR 0x27]"

definition validate_uuid :: "string \<Rightarrow> string + unit" where
  "validate_uuid s =
     (let hex = filter is_ascii_hexdigit s
      in if length hex \<noteq> 32 then Inl (''UUID must contain exactly 32 hex digits, got '' @ show_nat (length hex) @ '': '' @ single_quoted s)
         else if CHR ''-'' \<in> set s \<and> map length (split_on CHR ''-'' s) \<noteq> [8, 4, 4, 4, 12]
         then Inl (''UUID must be in format xxxxxxxx-xxxx-xxxx-xxxx-xxxxxxxxxxxx: '' @ single_quoted s)
         else Inr ())"

section \<open>Groups\<close>

definition require :: "bool \<Rightarrow> string \<Rightarrow> string + unit" where
  "require b e = (if b then Inr () else Inl e)"

definition with_context :: "string \<Rightarrow> string + 'a \<Rightarrow> string + 'a" where
  "with_context c r = map_err (\<lambda>e. c @ '': '' @ e) r"

text \<open>One check after another, a check for every element of a list.\<close>

definition and_then :: "string + 'a \<Rightarrow> string + unit \<Rightarrow> string + unit" where
  "and_then a b = res_bind a (\<lambda>_. b)"

fun for_each :: "('a \<Rightarrow> string + unit) \<Rightarrow> 'a list \<Rightarrow> string + unit" where
  "for_each f [] = Inr ()"
| "for_each f (x # xs) = and_then (f x) (for_each f xs)"

definition validate_outbound_group :: "string list \<Rightarrow> string list \<Rightarrow> OutboundConfig \<Rightarrow> string + unit" where
  "validate_outbound_group tags provider_tags ob =
     (if \<not> is_group ob then Inr ()
      else
        let has_providers = (case group_providers ob of Some p \<Rightarrow> pr_tags p \<noteq> [] | None \<Rightarrow> False)
        in and_then (require (child_outbounds ob \<noteq> [] \<or> has_providers)
             (''outbound '' @ single_quoted (outbound_tag ob) @ '': both outbounds and providers are empty''))
           (and_then
             (for_each (\<lambda>child.
                and_then (require (child \<noteq> outbound_tag ob) (''outbound group cannot reference itself: '' @ single_quoted child))
                  (require (child \<in> set tags) (''outbound group references unknown outbound '' @ single_quoted child)))
              (child_outbounds ob))
           (and_then
             (case group_providers ob of
                Some pref \<Rightarrow>
                  for_each (\<lambda>ptag. require (ptag \<in> set provider_tags)
                    (''outbound '' @ single_quoted (outbound_tag ob) @ '' references unknown provider '' @ single_quoted ptag)) (pr_tags pref)
              | None \<Rightarrow> Inr ())
           (and_then
             (case group_default ob of
                Some d \<Rightarrow> require (d \<in> set (child_outbounds ob)) (''selector default '' @ single_quoted d @ '' is not listed in outbounds'')
              | None \<Rightarrow> Inr ())
             (case ob of
                UrlTest c \<Rightarrow> and_then (parse_duration (uc_interval c)) (and_then (parse_duration (uc_idle_timeout c)) (Inr ()))
              | _ \<Rightarrow> Inr ())))))"

text \<open>
  The depth-first search for a cycle. The set of tags on the path is restored when a visit returns without an error, so
  it is an argument; the set of finished tags is threaded through. The graph is the hash map from a group to its children.
\<close>

function visit :: "(string \<times> string list) list \<Rightarrow> string list \<Rightarrow> string \<Rightarrow> string list \<Rightarrow> string + string list" where
  "visit graph visiting t visited =
     (if t \<in> set visited then Inr visited
      else if t \<in> set visiting then Inl (''outbound group cycle detected at '' @ single_quoted t)
      else
        (case map_of graph t of
           None \<Rightarrow> Inr (t # visited)
         | Some cs \<Rightarrow>
             res_bind
               (res_fold (\<lambda>child vis. if map_of graph child \<noteq> None then visit graph (t # visiting) child vis else Inr vis)
                  cs visited)
               (\<lambda>vis. Inr (t # vis))))"
  by pat_completeness auto
termination
proof (relation "measure (\<lambda>(graph, visiting, t, visited). card (dom (map_of graph) - set visiting))")
  fix graph :: "(string \<times> string list) list" and visiting t visited cs child vis
  assume "t \<notin> set visiting" "map_of graph t = Some cs"
  then have "dom (map_of graph) - set (t # visiting) \<subset> dom (map_of graph) - set visiting" by auto
  then show "((graph, t # visiting, child, vis), (graph, visiting, t, visited))
      \<in> measure (\<lambda>(graph, visiting, t, visited). card (dom (map_of graph) - set visiting))"
    by (simp add: psubset_card_mono finite_dom_map_of)
qed simp

declare visit.simps [simp del]

definition group_graph :: "OutboundConfig list \<Rightarrow> (string \<times> string list) list" where
  "group_graph obs = rev (map (\<lambda>ob. (outbound_tag ob, child_outbounds ob)) (filter is_group obs))"

text \<open>\<open>order\<close> is the order in which the hash map is iterated.\<close>

definition validate_outbound_group_cycles :: "string list \<Rightarrow> OutboundConfig list \<Rightarrow> string + unit" where
  "validate_outbound_group_cycles order obs =
     and_then (res_fold (visit (group_graph obs) []) order []) (Inr ())"

section \<open>The check of a configuration\<close>

text \<open>A loop over tagged items: every tag is new, and every item passes its own check.\<close>

fun check_unique :: "string \<Rightarrow> ('a \<Rightarrow> string) \<Rightarrow> ('a \<Rightarrow> string + unit) \<Rightarrow> 'a list \<Rightarrow> string list \<Rightarrow> string + string list" where
  "check_unique what tg check [] seen = Inr seen"
| "check_unique what tg check (x # xs) seen =
     (if tg x \<in> set seen then Inl (''duplicate '' @ what @ '' tag: '' @ single_quoted (tg x))
      else res_bind (check x) (\<lambda>_. check_unique what tg check xs (tg x # seen)))"

definition check_health :: "string \<Rightarrow> HealthCheckConfig option \<Rightarrow> string + unit" where
  "check_health t hc =
     (case hc of
        None \<Rightarrow> Inr ()
      | Some h \<Rightarrow>
          and_then (with_context (''provider '' @ single_quoted t @ '': invalid health_check.interval'') (provider_parse_duration (hc_interval h)))
          (and_then (with_context (''provider '' @ single_quoted t @ '': invalid health_check.timeout'') (provider_parse_duration (hc_timeout h)))
            (Inr ())))"

definition check_provider :: "ProviderConfig \<Rightarrow> string + unit" where
  "check_provider p =
     (case p of
        Remote r \<Rightarrow>
          and_then (with_context (''provider '' @ single_quoted (rp_tag r) @ '': invalid update_interval'') (provider_parse_duration (rp_update_interval r)))
            (check_health (rp_tag r) (rp_health_check r))
      | Local l \<Rightarrow> check_health (lp_tag l) (lp_health_check l))"

definition check_outbound :: "OutboundConfig \<Rightarrow> string + unit" where
  "check_outbound ob =
     (case ob of
        Vless c \<Rightarrow> with_context (''outbound '' @ single_quoted (vl_tag c) @ '': invalid UUID'') (validate_uuid (vl_uuid c))
      | Vmess c \<Rightarrow> with_context (''outbound '' @ single_quoted (vm_tag c) @ '': invalid UUID'') (validate_uuid (vm_uuid c))
      | Tuic c \<Rightarrow> with_context (''outbound '' @ single_quoted (tu_tag c) @ '': invalid UUID'') (validate_uuid (tu_uuid c))
      | _ \<Rightarrow> Inr ())"

definition check_inbound :: "InboundConfig \<Rightarrow> string + unit" where
  "check_inbound ib =
     and_then (require (snd (listen_addr ib) \<noteq> 0 \<or> is_tun ib) (''inbound '' @ single_quoted (inbound_tag ib) @ '': listen_port cannot be 0''))
       (case ib of
          VlessIn c \<Rightarrow> for_each (\<lambda>u. with_context (''inbound vless '' @ single_quoted (vli_tag c) @ '': user '' @ single_quoted (vu_name u) @ '' invalid UUID'')
            (validate_uuid (vu_uuid u))) (vli_users c)
        | VmessIn c \<Rightarrow> for_each (\<lambda>u. with_context (''inbound vmess '' @ single_quoted (vmi_tag c) @ '': user '' @ single_quoted (mu_name u) @ '' invalid UUID'')
            (validate_uuid (mu_uuid u))) (vmi_users c)
        | TuicIn c \<Rightarrow> for_each (\<lambda>u. with_context (''inbound tuic '' @ single_quoted (tui_tag c) @ '': user '' @ single_quoted (tuu_name u) @ '' invalid UUID'')
            (validate_uuid (tuu_uuid u))) (tui_users c)
        | TrojanIn c \<Rightarrow> require (tri_users c \<noteq> []) (''inbound trojan '' @ single_quoted (tri_tag c) @ '': no users configured'')
        | ShadowsocksIn c \<Rightarrow> require (ssi_password c \<noteq> None \<or> ssi_users c \<noteq> [])
            (''inbound shadowsocks '' @ single_quoted (ssi_tag c) @ '': no password or users configured'')
        | Hysteria2In c \<Rightarrow>
            and_then (require (hyi_users c \<noteq> []) (''inbound hysteria2 '' @ single_quoted (hyi_tag c) @ '': no users configured''))
              (require (stls_enabled (hyi_tls c)) (''inbound hysteria2 '' @ single_quoted (hyi_tag c) @ '': TLS must be enabled (Hysteria2 requires QUIC+TLS)''))
        | _ \<Rightarrow> Inr ())"

text \<open>A rule that only sniffs, resolves or hijacks DNS needs no outbound.\<close>

definition needs_outbound :: "RouteRuleConfig \<Rightarrow> bool" where
  "needs_outbound r \<longleftrightarrow> \<not> (r_hijack_dns r \<or> r_sniff r \<or> r_resolve r)"

definition indexed :: "string \<Rightarrow> nat \<Rightarrow> string" where
  "indexed what i = what @ ''['' @ show_nat i @ '']''"

definition validate :: "string list \<Rightarrow> Config \<Rightarrow> string + unit" where
  "validate order cfg =
     (let route = c_route cfg; dns = c_dns cfg; rules = List.enumerate 0 (rc_rules route)
      in res_bind (check_unique ''provider'' provider_tag check_provider (c_providers cfg) []) (\<lambda>provider_tags.
         res_bind (check_unique ''outbound'' outbound_tag check_outbound (c_outbounds cfg) []) (\<lambda>ob_tags.
         and_then (for_each (\<lambda>ob. with_context (''outbound '' @ single_quoted (outbound_tag ob) @ '': invalid group'')
             (validate_outbound_group ob_tags provider_tags ob)) (c_outbounds cfg)) (
         and_then (validate_outbound_group_cycles order (c_outbounds cfg)) (
         and_then (require (rc_final route \<in> set ob_tags) (''route.final '' @ single_quoted (rc_final route) @ '' does not match any outbound tag'')) (
         and_then (for_each (\<lambda>(i, r).
             if \<not> needs_outbound r then Inr ()
             else require (r_outbound r = ''dns-out'' \<or> r_outbound r \<in> set ob_tags)
               (indexed ''route.rules'' i @ ''.outbound '' @ single_quoted (r_outbound r) @ '' does not match any outbound tag'')) rules) (
         and_then (require (card (rsr_tag ` set (rc_rule_set route)) = length (rc_rule_set route))
             ''duplicate ruleset tag in route.rule_set'') (
         and_then (for_each (\<lambda>(i, r). for_each (\<lambda>t. require (t \<in> rsr_tag ` set (rc_rule_set route))
             (indexed ''route.rules'' i @ ''.ruleset '' @ single_quoted t @ '' is not declared in route.rule_set'')) (r_ruleset r)) rules) (
         res_bind (check_unique ''inbound'' inbound_tag check_inbound (c_inbounds cfg) []) (\<lambda>in_tags.
         and_then (for_each (\<lambda>(i, r). for_each (\<lambda>t. require (t \<in> set in_tags)
             (indexed ''route.rules'' i @ ''.inbound '' @ single_quoted t @ '' does not match any inbound tag'')) (r_inbound r)) rules) (
         res_bind (check_unique ''dns server'' ds_tag (\<lambda>_. Inr ()) (dc_servers dns) []) (\<lambda>dns_tags.
         and_then (require (dc_servers dns = [] \<or> dc_final dns \<in> set dns_tags)
             (''dns.final '' @ single_quoted (dc_final dns) @ '' does not match any dns server tag''))
         (for_each (\<lambda>(i, r).
             and_then (require (dr_server r \<in> set dns_tags)
               (indexed ''dns.rules'' i @ ''.server '' @ single_quoted (dr_server r) @ '' does not match any dns server tag''))
             (for_each (\<lambda>t. require (t \<in> set in_tags)
               (indexed ''dns.rules'' i @ ''.inbound '' @ single_quoted t @ '' does not match any inbound tag'')) (dr_inbound r)))
           (List.enumerate 0 (dc_rules dns)))))))))))))))"

text \<open>\<open>parse_json\<close> is the decoder of serde for \<open>Config\<close>, with the defaults of the fields.\<close>

definition from_text :: "(string \<Rightarrow> string + Config) \<Rightarrow> string list \<Rightarrow> string \<Rightarrow> string + Config" where
  "from_text parse_json order s =
     res_bind (map_err (\<lambda>e. ''JSON parse error: '' @ e) (parse_json (strip_comments s))) (\<lambda>cfg.
       res_bind (validate order cfg) (\<lambda>_. Inr cfg))"

section \<open>Lemmas on checks\<close>

named_theorems checks

lemma check_simps [checks]:
  "require b e = Inr u \<longleftrightarrow> b"
  "with_context c r = Inr x \<longleftrightarrow> r = Inr x"
  "and_then a c' = Inr u' \<longleftrightarrow> (\<exists>y. a = Inr y) \<and> c' = Inr u'"
  by (auto simp: require_def with_context_def and_then_def result_simps) 

lemma for_each_iff [checks]: "for_each f xs = Inr u \<longleftrightarrow> (\<forall>x \<in> set xs. f x = Inr ())"
  by (induction xs) (auto simp: checks)

lemma check_unique_iff [checks]:
  "check_unique what tg check xs seen = Inr r \<longleftrightarrow>
     distinct (map tg xs) \<and> set (map tg xs) \<inter> set seen = {} \<and> (\<forall>x \<in> set xs. check x = Inr ()) \<and> r = rev (map tg xs) @ seen"
  by (induction xs arbitrary: seen) (auto simp: result_simps)

section \<open>The search for cycles\<close>

text \<open>The edges between groups.\<close>

definition group_edges :: "(string \<times> string list) list \<Rightarrow> (string \<times> string) set" where
  "group_edges graph = {(a, b). \<exists>cs. map_of graph a = Some cs \<and> b \<in> set cs \<and> map_of graph b \<noteq> None}"

lemma res_fold_Inl:
  assumes "res_fold f xs s = Inl e"
  shows "\<exists>x \<in> set xs. \<exists>s'. f x s' = Inl e"
  using assms
proof (induction xs arbitrary: s)
  case (Cons x xs)
  then show ?case by (cases "f x s") auto
qed simp

lemma res_fold_grows:
  assumes "res_fold f xs s = Inr s'" "I s"
    and "\<And>x v v'. x \<in> set xs \<Longrightarrow> I v \<Longrightarrow> f x v = Inr v' \<Longrightarrow> I v' \<and> set v \<subseteq> set v' \<and> (Q x \<longrightarrow> x \<in> set v')"
  shows "I s' \<and> set s \<subseteq> set s' \<and> (\<forall>x \<in> set xs. Q x \<longrightarrow> x \<in> set s')"
  using assms
proof (induction xs arbitrary: s)
  case (Cons x xs)
  from Cons.prems(1) obtain v where v: "f x s = Inr v" "res_fold f xs v = Inr s'" by (auto simp: res_bind_Inr_iff)
  have step: "I v \<and> set s \<subseteq> set v \<and> (Q x \<longrightarrow> x \<in> set v)" using Cons.prems(3) [OF _ Cons.prems(2) v(1)] by simp
  moreover have "I s' \<and> set v \<subseteq> set s' \<and> (\<forall>y \<in> set xs. Q y \<longrightarrow> y \<in> set s')"
  proof (rule Cons.IH [OF v(2)])
    show "I v" using step by simp
  next
    fix y w w'
    assume "y \<in> set xs" "I w" "f y w = Inr w'"
    then show "I w' \<and> set w \<subseteq> set w' \<and> (Q y \<longrightarrow> y \<in> set w')" by (intro Cons.prems(3)) simp_all
  qed
  ultimately show ?case by auto
qed simp

text \<open>An error means that there is a cycle: every tag on the path leads to the visited tag.\<close>

lemma visit_error:
  assumes "visit graph visiting t visited = Inl e" "\<forall>v \<in> set visiting. (v, t) \<in> (group_edges graph)\<^sup>+"
  shows "\<not> acyclic (group_edges graph)"
  using assms
proof (induction graph visiting t visited rule: visit.induct)
  case (1 graph visiting t visited)
  show ?case
  proof (cases "t \<in> set visiting")
    case True
    then show ?thesis using "1.prems" by (auto simp: acyclic_def)
  next
    case False
    with "1.prems"(1) obtain cs where t: "t \<notin> set visited" and cs: "map_of graph t = Some cs"
      by (auto simp: visit.simps [of graph visiting t] split: if_splits option.splits)
    let ?f = "\<lambda>child vis. if map_of graph child \<noteq> None then visit graph (t # visiting) child vis else Inr vis"
    have "res_fold ?f cs visited = Inl e"
      using False t cs "1.prems"(1) by (cases "res_fold ?f cs visited") (simp_all add: visit.simps [of graph visiting t])
    from res_fold_Inl [OF this] obtain child vis where child: "child \<in> set cs" "map_of graph child \<noteq> None"
      and err: "visit graph (t # visiting) child vis = Inl e"
      by (metis sum.distinct(1))
    have "(t, child) \<in> group_edges graph" using cs child by (auto simp: group_edges_def)
    then have "\<forall>v \<in> set (t # visiting). (v, child) \<in> (group_edges graph)\<^sup>+" using "1.prems"(2) by auto
    then show ?thesis using "1.IH" [OF t False cs child(2) err] by blast
  qed
qed

text \<open>The finished tags are closed under the edges and lie on no cycle.\<close>

definition settled :: "(string \<times> string) set \<Rightarrow> string list \<Rightarrow> string list \<Rightarrow> bool" where
  "settled E visiting visited \<longleftrightarrow>
     set visited \<inter> set visiting = {} \<and> E `` set visited \<subseteq> set visited \<and> (\<forall>a \<in> set visited. (a, a) \<notin> E\<^sup>+)"

lemma trancl_closed:
  assumes "(a, b) \<in> E\<^sup>+" "a \<in> S" "E `` S \<subseteq> S"
  shows "b \<in> S"
  using assms by (induction rule: trancl_induct) auto

lemma settled_insert:
  assumes "settled E (t # visiting) vis" "t \<notin> set visiting" "E `` {t} \<subseteq> set vis"
  shows "settled E visiting (t # vis)"
proof -
  have "(t, t) \<notin> E\<^sup>+"
  proof
    assume "(t, t) \<in> E\<^sup>+"
    then obtain c where "(t, c) \<in> E" "(c, t) \<in> E\<^sup>*" by (meson tranclD)
    moreover have "t \<notin> set vis" using assms(1) by (auto simp: settled_def)
    moreover have "E `` set vis \<subseteq> set vis" using assms(1) by (simp add: settled_def)
    ultimately show False using trancl_closed [of c t E "set vis"] assms(3) by (auto simp: rtrancl_eq_or_trancl)
  qed
  then show ?thesis using assms by (auto simp: settled_def)
qed

lemma visit_ok:
  assumes "visit graph visiting t visited = Inr vis" "settled (group_edges graph) visiting visited"
  shows "settled (group_edges graph) visiting vis \<and> set visited \<subseteq> set vis \<and> t \<in> set vis"
  using assms
proof (induction graph visiting t visited arbitrary: vis rule: visit.induct)
  case (1 graph visiting t visited)
  consider "t \<in> set visited" | "t \<notin> set visited" "t \<notin> set visiting"
    using "1.prems"(1) by (auto simp: visit.simps [of graph visiting t] split: if_splits)
  then show ?case
  proof cases
    case 1
    then show ?thesis using "1.prems" by (simp add: visit.simps [of graph visiting t])
  next
    case 2
    let ?E = "group_edges graph"
    have s0: "settled ?E (t # visiting) visited" using "1.prems"(2) 2 by (auto simp: settled_def)
    show ?thesis
    proof (cases "map_of graph t")
      case None
      then have "?E `` {t} \<subseteq> set visited" by (auto simp: group_edges_def)
      then show ?thesis
        using settled_insert [OF s0 2(2)] None 2 "1.prems"(1) by (auto simp: visit.simps [of graph visiting t])
    next
      case (Some cs)
      let ?f = "\<lambda>child vis. if map_of graph child \<noteq> None then visit graph (t # visiting) child vis else Inr vis"
      obtain w where w: "res_fold ?f cs visited = Inr w" and vis: "vis = t # w"
        using "1.prems"(1) Some 2 by (auto simp: visit.simps [of graph visiting t] res_bind_Inr_iff)
      have "settled ?E (t # visiting) w \<and> set visited \<subseteq> set w \<and> (\<forall>x \<in> set cs. map_of graph x \<noteq> None \<longrightarrow> x \<in> set w)"
      proof (rule res_fold_grows [where I = "settled ?E (t # visiting)", OF w s0])
        fix x v v'
        assume "settled ?E (t # visiting) v" "?f x v = Inr v'"
        then show "settled ?E (t # visiting) v' \<and> set v \<subseteq> set v' \<and> (map_of graph x \<noteq> None \<longrightarrow> x \<in> set v')"
          using "1.IH" [OF 2 Some, of x v v'] by (auto split: if_splits)
      qed
      then show ?thesis
        using settled_insert [of ?E t visiting w] 2(2) Some unfolding vis by (auto simp: group_edges_def)
    qed
  qed
qed

lemma visit_all_iff:
  assumes "set order = dom (map_of graph)"
  shows "(\<exists>vis. res_fold (visit graph []) order [] = Inr vis) \<longleftrightarrow> acyclic (group_edges graph)"
proof
  assume "\<exists>vis. res_fold (visit graph []) order [] = Inr vis"
  then obtain vis where vis: "res_fold (visit graph []) order [] = Inr vis" ..
  have "settled (group_edges graph) [] vis \<and> set [] \<subseteq> set vis \<and> (\<forall>x \<in> set order. True \<longrightarrow> x \<in> set vis)"
    by (rule res_fold_grows [where I = "settled (group_edges graph) []", OF vis]) (simp add: settled_def, blast dest: visit_ok)
  moreover have "(a, a) \<in> (group_edges graph)\<^sup>+ \<Longrightarrow> a \<in> dom (map_of graph)" for a
    by (drule tranclD) (auto simp: group_edges_def)
  ultimately show "acyclic (group_edges graph)" using assms by (auto simp: acyclic_def settled_def)
next
  assume "acyclic (group_edges graph)"
  then show "\<exists>vis. res_fold (visit graph []) order [] = Inr vis"
    using visit_error [of graph "[]"] by (cases "res_fold (visit graph []) order []") (auto dest!: res_fold_Inl)
qed

section \<open>Well-formed configurations\<close>

definition accepted :: "'e + 'a \<Rightarrow> bool" where
  "accepted r \<longleftrightarrow> (\<exists>x. r = Inr x)"

lemma accepted_simps [checks]: "accepted (Inr x)" "\<not> accepted (Inl e)"
  by (simp_all add: accepted_def)

text \<open>
  A UUID as documented (\<open>config/mod.rs:584\<close>): 32 hexadecimal digits, all together or with dashes in the canonical
  places, and nothing else.
\<close>

definition valid_uuid :: "string \<Rightarrow> bool" where
  "valid_uuid s \<longleftrightarrow> list_all (list_all is_ascii_hexdigit) (split_on CHR ''-'' s)
     \<and> map length (split_on CHR ''-'' s) \<in> {[32], [8, 4, 4, 4, 12]}"

text \<open>The code ignores any other characters; without them it accepts exactly the UUIDs.\<close>

definition uuid_accepted :: "string \<Rightarrow> bool" where
  "uuid_accepted s \<longleftrightarrow> length (filter is_ascii_hexdigit s) = 32
     \<and> (CHR ''-'' \<in> set s \<longrightarrow> map length (split_on CHR ''-'' s) = [8, 4, 4, 4, 12])"

definition plain_uuid :: "string \<Rightarrow> bool" where
  "plain_uuid s \<longleftrightarrow> (\<forall>c \<in> set s. is_ascii_hexdigit c \<or> c = CHR ''-'')"

lemma split_dash:
  "filter is_ascii_hexdigit s = concat (map (filter is_ascii_hexdigit) (split_on CHR ''-'' s))"
  "CHR ''-'' \<notin> set s \<longleftrightarrow> length (split_on CHR ''-'' s) = 1" "split_on CHR ''-'' s \<noteq> []"
  "plain_uuid s \<longleftrightarrow> list_all (list_all is_ascii_hexdigit) (split_on CHR ''-'' s)"
proof -
  have "filter is_ascii_hexdigit s = concat (map (filter is_ascii_hexdigit) (split_on CHR ''-'' s))
      \<and> (CHR ''-'' \<notin> set s \<longleftrightarrow> length (split_on CHR ''-'' s) = 1) \<and> split_on CHR ''-'' s \<noteq> []
      \<and> (plain_uuid s \<longleftrightarrow> list_all (list_all is_ascii_hexdigit) (split_on CHR ''-'' s))"
  proof (induction s)
    case (Cons x s)
    have dash: "\<not> is_ascii_hexdigit CHR ''-''" by code_simp
    obtain p ps where "split_on CHR ''-'' s = p # ps" using Cons.IH by (cases "split_on CHR ''-'' s") auto
    then show ?case using Cons.IH dash by (cases "x = CHR ''-''") (auto simp: plain_uuid_def)
  qed (simp add: plain_uuid_def)
  then show "filter is_ascii_hexdigit s = concat (map (filter is_ascii_hexdigit) (split_on CHR ''-'' s))"
    "CHR ''-'' \<notin> set s \<longleftrightarrow> length (split_on CHR ''-'' s) = 1" "split_on CHR ''-'' s \<noteq> []"
    "plain_uuid s \<longleftrightarrow> list_all (list_all is_ascii_hexdigit) (split_on CHR ''-'' s)" by simp_all
qed

lemma valid_uuid_accepted: "valid_uuid s \<longleftrightarrow> plain_uuid s \<and> uuid_accepted s"
proof -
  let ?p = "split_on CHR ''-'' s"
  have "length (filter is_ascii_hexdigit s) = sum_list (map length ?p)" if "list_all (list_all is_ascii_hexdigit) ?p"
  proof -
    have "map (filter is_ascii_hexdigit) ?p = ?p" using that by (intro map_idI filter_True) (auto simp: list_all_iff)
    then show ?thesis using split_dash(1) [of s] by (simp add: length_concat)
  qed
  moreover have "map length ?p = [32] \<longleftrightarrow> length ?p = 1 \<and> sum_list (map length ?p) = 32" by (cases ?p) auto
  moreover have "length ?p = 5" if "map length ?p = [8, 4, 4, 4, 12]" using arg_cong [OF that, of length] by simp
  ultimately show ?thesis
    unfolding valid_uuid_def uuid_accepted_def split_dash(4) using split_dash(2) [of s] by auto
qed

definition health_of :: "ProviderConfig \<Rightarrow> HealthCheckConfig option" where
  "health_of p = (case p of Remote r \<Rightarrow> rp_health_check r | Local l \<Rightarrow> lp_health_check l)"

definition provider_ok :: "ProviderConfig \<Rightarrow> bool" where
  "provider_ok p \<longleftrightarrow>
     (\<forall>r. p = Remote r \<longrightarrow> accepted (provider_parse_duration (rp_update_interval r)))
     \<and> (\<forall>h. health_of p = Some h \<longrightarrow>
           accepted (provider_parse_duration (hc_interval h)) \<and> accepted (provider_parse_duration (hc_timeout h)))"

fun uuids_of_outbound :: "OutboundConfig \<Rightarrow> string list" where
  "uuids_of_outbound (Vless c) = [vl_uuid c]"
| "uuids_of_outbound (Vmess c) = [vm_uuid c]"
| "uuids_of_outbound (Tuic c) = [tu_uuid c]"
| "uuids_of_outbound _ = []"

fun uuids_of_inbound :: "InboundConfig \<Rightarrow> string list" where
  "uuids_of_inbound (VlessIn c) = map vu_uuid (vli_users c)"
| "uuids_of_inbound (VmessIn c) = map mu_uuid (vmi_users c)"
| "uuids_of_inbound (TuicIn c) = map tuu_uuid (tui_users c)"
| "uuids_of_inbound _ = []"

text \<open>The protocols that authenticate by password need at least one.\<close>

fun has_credentials :: "InboundConfig \<Rightarrow> bool" where
  "has_credentials (TrojanIn c) \<longleftrightarrow> tri_users c \<noteq> []"
| "has_credentials (ShadowsocksIn c) \<longleftrightarrow> ssi_password c \<noteq> None \<or> ssi_users c \<noteq> []"
| "has_credentials (Hysteria2In c) \<longleftrightarrow> hyi_users c \<noteq> [] \<and> stls_enabled (hyi_tls c)"
| "has_credentials _ \<longleftrightarrow> True"

text \<open>The conditions are stated over what counts as a UUID, \<open>uuid\<close>.\<close>

definition inbound_ok :: "(string \<Rightarrow> bool) \<Rightarrow> InboundConfig \<Rightarrow> bool" where
  "inbound_ok uuid ib \<longleftrightarrow>
     (is_tun ib \<or> snd (listen_addr ib) \<noteq> 0) \<and> (\<forall>u \<in> set (uuids_of_inbound ib). uuid u) \<and> has_credentials ib"

definition provider_refs :: "OutboundConfig \<Rightarrow> string list" where
  "provider_refs ob = (case group_providers ob of Some p \<Rightarrow> pr_tags p | None \<Rightarrow> [])"

text \<open>A group has members, which exist, and its default is one of them.\<close>

definition group_ok :: "string set \<Rightarrow> string set \<Rightarrow> OutboundConfig \<Rightarrow> bool" where
  "group_ok tags provider_tags ob \<longleftrightarrow>
     (child_outbounds ob \<noteq> [] \<or> provider_refs ob \<noteq> [])
     \<and> set (child_outbounds ob) \<subseteq> tags \<and> set (provider_refs ob) \<subseteq> provider_tags
     \<and> (\<forall>d. group_default ob = Some d \<longrightarrow> d \<in> set (child_outbounds ob))
     \<and> (\<forall>c. ob = UrlTest c \<longrightarrow> accepted (parse_duration (uc_interval c)) \<and> accepted (parse_duration (uc_idle_timeout c)))"

text \<open>Group \<open>a\<close> contains group \<open>b\<close>.\<close>

definition contains_group :: "OutboundConfig list \<Rightarrow> (string \<times> string) set" where
  "contains_group obs =
     {(outbound_tag a, outbound_tag b) | a b.
        a \<in> set obs \<and> b \<in> set obs \<and> is_group a \<and> is_group b \<and> outbound_tag b \<in> set (child_outbounds a)}"

definition tags_unique :: "Config \<Rightarrow> bool" where
  "tags_unique cfg \<longleftrightarrow>
     distinct (map provider_tag (c_providers cfg)) \<and> distinct (map outbound_tag (c_outbounds cfg))
     \<and> distinct (map inbound_tag (c_inbounds cfg)) \<and> distinct (map ds_tag (dc_servers (c_dns cfg)))
     \<and> distinct (map rsr_tag (rc_rule_set (c_route cfg)))"

definition outbounds_ok :: "(string \<Rightarrow> bool) \<Rightarrow> Config \<Rightarrow> bool" where
  "outbounds_ok uuid cfg \<longleftrightarrow>
     (\<forall>p \<in> set (c_providers cfg). provider_ok p)
     \<and> (\<forall>ob \<in> set (c_outbounds cfg). \<forall>u \<in> set (uuids_of_outbound ob). uuid u)
     \<and> (\<forall>ob \<in> set (c_outbounds cfg). is_group ob \<longrightarrow>
           group_ok (outbound_tag ` set (c_outbounds cfg)) (provider_tag ` set (c_providers cfg)) ob)
     \<and> acyclic (contains_group (c_outbounds cfg))"

definition routes_ok :: "Config \<Rightarrow> bool" where
  "routes_ok cfg \<longleftrightarrow>
     rc_final (c_route cfg) \<in> outbound_tag ` set (c_outbounds cfg)
     \<and> (\<forall>r \<in> set (rc_rules (c_route cfg)).
           (needs_outbound r \<longrightarrow> r_outbound r \<in> insert ''dns-out'' (outbound_tag ` set (c_outbounds cfg)))
           \<and> set (r_ruleset r) \<subseteq> rsr_tag ` set (rc_rule_set (c_route cfg))
           \<and> set (r_inbound r) \<subseteq> inbound_tag ` set (c_inbounds cfg))"

definition dns_ok :: "Config \<Rightarrow> bool" where
  "dns_ok cfg \<longleftrightarrow>
     (dc_servers (c_dns cfg) \<noteq> [] \<longrightarrow> dc_final (c_dns cfg) \<in> ds_tag ` set (dc_servers (c_dns cfg)))
     \<and> (\<forall>r \<in> set (dc_rules (c_dns cfg)).
           dr_server r \<in> ds_tag ` set (dc_servers (c_dns cfg)) \<and> set (dr_inbound r) \<subseteq> inbound_tag ` set (c_inbounds cfg))"

definition well_formed_by :: "(string \<Rightarrow> bool) \<Rightarrow> Config \<Rightarrow> bool" where
  "well_formed_by uuid cfg \<longleftrightarrow>
     tags_unique cfg \<and> outbounds_ok uuid cfg \<and> routes_ok cfg \<and> (\<forall>ib \<in> set (c_inbounds cfg). inbound_ok uuid ib) \<and> dns_ok cfg"

definition well_formed :: "Config \<Rightarrow> bool" where
  "well_formed cfg \<longleftrightarrow> well_formed_by valid_uuid cfg"

definition uuid_texts :: "Config \<Rightarrow> string list" where
  "uuid_texts cfg = concat (map uuids_of_outbound (c_outbounds cfg)) @ concat (map uuids_of_inbound (c_inbounds cfg))"

lemma well_formed_accepted:
  "well_formed cfg \<longleftrightarrow> well_formed_by uuid_accepted cfg \<and> list_all plain_uuid (uuid_texts cfg)"
  by (auto simp: well_formed_def well_formed_by_def outbounds_ok_def inbound_ok_def uuid_texts_def list_all_iff valid_uuid_accepted)

section \<open>The check accepts exactly the well-formed configurations\<close>

lemma validate_uuid_iff [checks]: "validate_uuid s = Inr u \<longleftrightarrow> uuid_accepted s"
  by (simp add: validate_uuid_def uuid_accepted_def Let_def)

lemma check_provider_iff [checks]: "check_provider p = Inr u \<longleftrightarrow> provider_ok p"
  by (cases p) (auto simp: check_provider_def provider_ok_def check_health_def health_of_def checks accepted_def split: option.splits)

lemma check_outbound_iff [checks]: "check_outbound ob = Inr u \<longleftrightarrow> (\<forall>u \<in> set (uuids_of_outbound ob). uuid_accepted u)"
  by (cases ob) (simp_all add: check_outbound_def checks)

lemma check_inbound_iff [checks]: "check_inbound ib = Inr u \<longleftrightarrow> inbound_ok uuid_accepted ib"
  by (cases ib) (auto simp: check_inbound_def inbound_ok_def checks)

lemma group_edges_eq:
  assumes "distinct (map outbound_tag obs)"
  shows "group_edges (group_graph obs) = contains_group obs"
proof -
  have d: "distinct (map fst (group_graph obs))"
    using distinct_map_filter [OF assms, of is_group] by (simp add: group_graph_def rev_map [symmetric] comp_def)
  have "map_of (group_graph obs) t = Some cs \<longleftrightarrow> (\<exists>ob \<in> set obs. is_group ob \<and> t = outbound_tag ob \<and> cs = child_outbounds ob)" for t cs
    using d by (auto simp: map_of_eq_Some_iff group_graph_def)
  then show ?thesis unfolding group_edges_def contains_group_def by auto
qed

lemma dom_group_graph: "dom (map_of (group_graph obs)) = outbound_tag ` {ob \<in> set obs. is_group ob}"
  by (force simp: dom_map_of_conv_image_fst group_graph_def)

lemma cycles_iff:
  assumes "distinct (map outbound_tag obs)" "set order = outbound_tag ` {ob \<in> set obs. is_group ob}"
  shows "validate_outbound_group_cycles order obs = Inr u \<longleftrightarrow> acyclic (contains_group obs)"
  using visit_all_iff [of order "group_graph obs"] assms
  by (simp add: validate_outbound_group_cycles_def checks dom_group_graph group_edges_eq)

text \<open>That a group does not contain itself follows from the absence of cycles.\<close>

lemma not_own_child:
  assumes "acyclic (contains_group obs)" "ob \<in> set obs" "is_group ob"
  shows "outbound_tag ob \<notin> set (child_outbounds ob)"
proof
  assume "outbound_tag ob \<in> set (child_outbounds ob)"
  then have "(outbound_tag ob, outbound_tag ob) \<in> contains_group obs" using assms by (auto simp: contains_group_def)
  then show False using assms(1) by (auto simp: acyclic_def)
qed

lemma validate_outbound_group_iff [checks]:
  "validate_outbound_group tags ptags ob = Inr u \<longleftrightarrow>
     (is_group ob \<longrightarrow> outbound_tag ob \<notin> set (child_outbounds ob) \<and> group_ok (set tags) (set ptags) ob)"
  by (cases ob)
    (auto simp: validate_outbound_group_def group_ok_def provider_refs_def checks accepted_def Let_def split: option.splits)

lemma ball_enumerate [checks]:
  "(\<forall>p \<in> set (List.enumerate n xs). (case p of (i, x) \<Rightarrow> f i x) = v) \<longleftrightarrow> (\<forall>i < length xs. f (n + i) (xs ! i) = v)"
  by (induction xs arbitrary: n) (simp_all add: All_less_Suc2)

lemma check_option_iff [checks]: "(if b then Inr () else r) = Inr u \<longleftrightarrow> b \<or> r = Inr ()"
  by simp

lemma distinct_card_iff: "card (f ` set xs) = length xs \<longleftrightarrow> distinct (map f xs)"
  by (metis card_distinct distinct_card length_map list.set_map)

lemma validate_steps:
  "validate order cfg = Inr () \<longleftrightarrow>
     tags_unique cfg \<and> (\<forall>p \<in> set (c_providers cfg). provider_ok p)
     \<and> (\<forall>ob \<in> set (c_outbounds cfg). \<forall>u \<in> set (uuids_of_outbound ob). uuid_accepted u)
     \<and> (\<forall>ob \<in> set (c_outbounds cfg). is_group ob \<longrightarrow> outbound_tag ob \<notin> set (child_outbounds ob)
           \<and> group_ok (outbound_tag ` set (c_outbounds cfg)) (provider_tag ` set (c_providers cfg)) ob)
     \<and> validate_outbound_group_cycles order (c_outbounds cfg) = Inr ()
     \<and> routes_ok cfg \<and> (\<forall>ib \<in> set (c_inbounds cfg). inbound_ok uuid_accepted ib) \<and> dns_ok cfg"
  by (simp add: validate_def Let_def res_bind_Inr_iff checks distinct_card_iff 
    all_set_conv_all_nth [of "rc_rules (c_route cfg)"] all_set_conv_all_nth [of "dc_rules (c_dns cfg)"]
    tags_unique_def routes_ok_def dns_ok_def subset_eq imp_conjR all_conj_distrib) argo

text \<open>
  C25. The check is exact: whatever the order in which the hash map of the groups is iterated, every well-formed
  configuration is accepted, and an accepted configuration whose UUID texts hold no other characters than hexadecimal
  digits and dashes is well formed. Well formed: the tags of providers, outbounds, inbounds, DNS servers and rule sets are
  unique; the members, providers and default of every group, the outbounds, rule sets and inbounds of the route rules, the
  final outbound, and the servers and inbounds of the DNS rules exist; durations, UUIDs (as documented), ports and
  credentials are in order; no group contains itself, directly or through others. (The rule sets of DNS rules and the
  detours and address resolvers of DNS servers are not checked and not part of this.)
\<close>

theorem validate_exact:
  assumes "set order = outbound_tag ` {ob \<in> set (c_outbounds cfg). is_group ob}"
  shows "(well_formed cfg \<longrightarrow> validate order cfg = Inr ())
    \<and> (list_all plain_uuid (uuid_texts cfg) \<longrightarrow> validate order cfg = Inr () \<longrightarrow> well_formed cfg)"
proof -
  have "validate order cfg = Inr () \<longleftrightarrow> well_formed_by uuid_accepted cfg"
    using cycles_iff [OF _ assms] not_own_child [of "c_outbounds cfg"]
    by (auto simp: validate_steps well_formed_by_def outbounds_ok_def tags_unique_def)
  then show ?thesis by (simp add: well_formed_accepted)
qed

definition selector_of :: "string \<Rightarrow> string list \<Rightarrow> OutboundConfig" where
  "selector_of t cs = Selector \<lparr>sc_tag = t, sc_outbounds = cs, sc_providers = None, sc_default = None, interrupt_existing_connections = True\<rparr>"

definition direct_of :: "string \<Rightarrow> OutboundConfig" where
  "direct_of t = Direct \<lparr>di_tag = t, di_bind_address = None\<rparr>"

definition demo_dns :: DnsConfig where
  "demo_dns = \<lparr>dc_servers = [], dc_rules = [], dc_final = [], dc_strategy = PreferIpv4, dc_disable_cache = False,
     dc_cache_ttl_max = 0, dc_cache_capacity = 0, dc_optimistic_timeout = 0\<rparr>"

text \<open>A configuration with a group inside a group; the arguments are the members of the inner one.\<close>

definition demo_config :: "string list \<Rightarrow> Config" where
  "demo_config cs =
     \<lparr>c_global = GlobalConfig_default, c_log = LogConfig_default, c_dns = demo_dns, c_inbounds = [], c_providers = [],
      c_outbounds = [selector_of ''proxy'' [''auto'', ''direct''], selector_of ''auto'' cs, direct_of ''direct''],
      c_route = \<lparr>rc_rules = [], rc_final = ''proxy'', rc_rule_set = [], rc_resolve_dns = False\<rparr>,
      c_experimental = \<lparr>ex_cache_file = None, ex_clash_api = None\<rparr>\<rparr>"

lemma demo_groups:
  "outbound_tag ` {ob \<in> set (c_outbounds (demo_config cs)). is_group ob} = set [''auto'', ''proxy'']"
  unfolding set_filter [symmetric] by (simp add: demo_config_def selector_of_def direct_of_def insert_commute)

theorem validate_exact_witness:
  "well_formed (demo_config [''direct'']) \<and> \<not> well_formed (demo_config [''proxy''])"
proof -
  have "validate [''auto'', ''proxy''] (demo_config [''direct'']) = Inr ()" by code_simp
  moreover have "validate [''auto'', ''proxy''] (demo_config [''proxy'']) \<noteq> Inr ()" by code_simp
  moreover have "list_all plain_uuid (uuid_texts (demo_config [''direct'']))" by code_simp
  ultimately show ?thesis using validate_exact [OF demo_groups [symmetric]] by blast
qed

end
