(* ===== verification/Provider.thy ===== *)
theory Provider
  imports Config_Check
begin

text \<open>
  Proxy providers (\<open>src/provider\<close>): the parsers of subscription files, the manager that gives every node of every
  provider a tag of its own, the remote and local providers that feed it, and the health check. The decoders of JSON,
  YAML and base64, the file system and the HTTP client are arguments. An update of a provider takes two locks one after
  the other; the two critical sections are separate steps, so that the updates of different providers interleave.
\<close>

type_synonym ProviderNodes = "(string \<times> OutboundConfig) list"

section \<open>Clash subscriptions (\<open>parser/clash.rs\<close>)\<close>

record ClashWsOpts =
  cw_path :: "string option"
  cw_headers :: "(string \<rightharpoonup> string) option"
  cw_early_data_header_name :: "string option"
  cw_max_early_data :: "u32 option"

definition ClashWsOpts_default :: ClashWsOpts where
  "ClashWsOpts_default = \<lparr>cw_path = None, cw_headers = None, cw_early_data_header_name = None, cw_max_early_data = None\<rparr>"

record ClashRealityOpts =
  cr_public_key :: string
  cr_short_id :: string

record ClashProxy =
  cp_name :: string
  cp_type :: string
  cp_server :: string
  cp_port :: u16
  cp_cipher :: "string option"
  cp_password :: "string option"
  cp_uuid :: "string option"
  cp_tls :: "bool option"
  skip_cert_verify :: bool
  cp_sni :: "string option"
  cp_alpn :: "string list option"
  cp_network :: "string option"
  ws_opts :: "ClashWsOpts option"
  cp_up :: "string option"
  cp_down :: "string option"
  congestion_controller :: "string option"
  cp_udp_relay_mode :: "string option"
  reality_opts :: "ClashRealityOpts option"

definition unwrap_or :: "'a \<Rightarrow> 'a option \<Rightarrow> 'a" where
  "unwrap_or d v = (case v of Some x \<Rightarrow> x | None \<Rightarrow> d)"

definition build_tls :: "bool \<Rightarrow> bool \<Rightarrow> string option \<Rightarrow> string list option \<Rightarrow> TlsConfig" where
  "build_tls enabled insecure sni alpn =
     \<lparr>tls_enabled = enabled, tls_server_name = sni, tls_insecure = insecure, tls_ca_path = None,
      tls_alpn = unwrap_or [] alpn, tls_min_version = None, tls_max_version = None\<rparr>"

definition build_ws_transport :: "ClashWsOpts option \<Rightarrow> WsTransportConfig" where
  "build_ws_transport opts0 =
     (let opts = unwrap_or ClashWsOpts_default opts0
      in \<lparr>wst_path = unwrap_or ''/'' (cw_path opts), wst_headers = unwrap_or Map.empty (cw_headers opts),
          wst_early_data_header_name = cw_early_data_header_name opts, wst_max_early_data = unwrap_or 0 (cw_max_early_data opts)\<rparr>)"

text \<open>The first word of a text.\<close>

fun until_ws :: "string \<Rightarrow> string" where
  "until_ws [] = []"
| "until_ws (c # cs) = (if 0 < ws_len (c # cs) then [] else c # until_ws cs)"

definition first_word :: "string \<Rightarrow> string option" where
  "first_word s = (let t = trim_start s in if t = [] then None else Some (until_ws t))"

definition parse_mbps :: "string \<Rightarrow> u64 option" where
  "parse_mbps s = Option.bind (first_word s) (\<lambda>w. map_option word_of_nat (parse_uint (2 ^ 64 - 1) w))"

definition build_ss :: "string \<Rightarrow> ClashProxy \<Rightarrow> string + OutboundConfig" where
  "build_ss t p = Inl (''shadowsocks is not yet supported in Reflex (node: '' @ cp_name p @ '')'')"

definition build_vmess :: "string \<Rightarrow> ClashProxy \<Rightarrow> string + OutboundConfig" where
  "build_vmess t p =
     res_bind (ok_or ''vmess: missing uuid'' (cp_uuid p)) (\<lambda>uuid.
       Inr (Vmess
         \<lparr>vm_tag = t, vm_server = cp_server p, vm_server_port = cp_port p, vm_uuid = uuid,
          vm_security = unwrap_or ''auto'' (cp_cipher p),
          vm_transport = (if cp_network p = Some ''ws'' then VmWs (build_ws_transport (ws_opts p)) else VmTcp),
          vm_tls = build_tls (unwrap_or False (cp_tls p)) (skip_cert_verify p) (cp_sni p) (cp_alpn p), vm_detour = None\<rparr>))"

definition build_vless :: "string \<Rightarrow> ClashProxy \<Rightarrow> string + OutboundConfig" where
  "build_vless t p =
     res_bind (ok_or ''vless: missing uuid'' (cp_uuid p)) (\<lambda>uuid.
       (let transport = (if cp_network p = Some ''ws'' then Some (VlWs (build_ws_transport (ws_opts p))) else None);
            tls = (if unwrap_or False (cp_tls p)
                   then Some \<lparr>vtls_enabled = True, vtls_server_name = cp_sni p, vtls_insecure = skip_cert_verify p,
                              vtls_ca_path = None, vtls_alpn = unwrap_or [] (cp_alpn p),
                              vtls_reality = map_option (\<lambda>ro. \<lparr>reality_enabled = True,
                                reality_public_key = cr_public_key ro, reality_short_id = cr_short_id ro\<rparr>) (reality_opts p)\<rparr>
                   else None)
        in Inr (Vless
             \<lparr>vl_tag = t, vl_server = cp_server p, vl_server_port = cp_port p, vl_uuid = uuid, vl_transport = transport,
              vl_tls = tls, vl_detour = None\<rparr>)))"

definition build_trojan :: "string \<Rightarrow> ClashProxy \<Rightarrow> string + OutboundConfig" where
  "build_trojan t p =
     res_bind (ok_or ''trojan: missing password'' (cp_password p)) (\<lambda>password.
       Inr (Trojan
         \<lparr>tr_tag = t, tr_server = cp_server p, tr_server_port = cp_port p, tr_password = password,
          tr_transport = (if cp_network p = Some ''ws'' then Some (TrWs (build_ws_transport (ws_opts p))) else None),
          tr_tls = build_tls (unwrap_or True (cp_tls p)) (skip_cert_verify p) (cp_sni p) (cp_alpn p), tr_detour = None\<rparr>))"

definition build_hysteria2 :: "string \<Rightarrow> ClashProxy \<Rightarrow> string + OutboundConfig" where
  "build_hysteria2 t p =
     res_bind (ok_or ''hysteria2: missing password'' (cp_password p)) (\<lambda>password.
       Inr (Hysteria2
         \<lparr>hy_tag = t, hy_server = cp_server p, hy_server_port = cp_port p, hy_password = password,
          hy_tls = build_tls True (skip_cert_verify p) (cp_sni p) (cp_alpn p),
          hy_up_mbps = unwrap_or 0 (Option.bind (cp_up p) parse_mbps),
          hy_down_mbps = unwrap_or 0 (Option.bind (cp_down p) parse_mbps), hy_detour = None\<rparr>))"

definition build_tuic :: "string \<Rightarrow> ClashProxy \<Rightarrow> string + OutboundConfig" where
  "build_tuic t p =
     res_bind (ok_or ''tuic: missing uuid'' (cp_uuid p)) (\<lambda>uuid.
     res_bind (ok_or ''tuic: missing password'' (cp_password p)) (\<lambda>password.
       Inr (Tuic
         \<lparr>tu_tag = t, tu_server = cp_server p, tu_server_port = cp_port p, tu_uuid = uuid, tu_password = password,
          tu_congestion_control = unwrap_or ''cubic'' (congestion_controller p),
          tu_udp_relay_mode = unwrap_or ''native'' (cp_udp_relay_mode p),
          tu_tls = build_tls True (skip_cert_verify p) (cp_sni p) (cp_alpn p), tu_heartbeat = None,
          tu_zero_rtt_handshake = False, tu_detour = None\<rparr>)))"

definition build_outbound :: "ClashProxy \<Rightarrow> string + OutboundConfig" where
  "build_outbound p =
     (let t = cp_name p; ty = cp_type p
      in if ty = ''ss'' \<or> ty = ''shadowsocks'' then build_ss t p
         else if ty = ''vmess'' then build_vmess t p
         else if ty = ''vless'' then build_vless t p
         else if ty = ''trojan'' then build_trojan t p
         else if ty = ''hysteria2'' \<or> ty = ''hy2'' then build_hysteria2 t p
         else if ty = ''tuic'' then build_tuic t p
         else Inl (''unsupported proxy type: '' @ single_quoted ty))"

text \<open>A proxy that cannot be used is skipped.\<close>

definition parse_clash_yaml :: "(string \<Rightarrow> string + ClashProxy list) \<Rightarrow> string \<Rightarrow> string + ProviderNodes" where
  "parse_clash_yaml from_yaml txt =
     res_bind (map_err (\<lambda>e. ''clash yaml parse error: '' @ e) (from_yaml txt)) (\<lambda>proxies.
       Inr (List.map_filter (\<lambda>p. case build_outbound p of Inr ob \<Rightarrow> Some (cp_name p, ob) | Inl _ \<Rightarrow> None) proxies))"

section \<open>Sing-box subscriptions and detection of the format (\<open>parser/singbox.rs\<close>, \<open>parser/mod.rs\<close>)\<close>

fun is_real_node :: "OutboundConfig \<Rightarrow> bool" where
  "is_real_node (Direct _) = False"
| "is_real_node (Block _) = False"
| "is_real_node (Selector _) = False"
| "is_real_node (UrlTest _) = False"
| "is_real_node _ = True"

definition parse_singbox_json :: "(string \<Rightarrow> string + OutboundConfig list) \<Rightarrow> string \<Rightarrow> string + ProviderNodes" where
  "parse_singbox_json from_json txt =
     res_bind (map_err (\<lambda>e. ''sing-box json parse error: '' @ e) (from_json txt)) (\<lambda>obs.
       Inr (map (\<lambda>ob. (outbound_tag ob, ob)) (filter is_real_node obs)))"

definition looks_like_yaml :: "string \<Rightarrow> bool" where
  "looks_like_yaml txt \<longleftrightarrow> (\<exists>line \<in> set (lines txt). starts_with (trim_start line) ''proxies:'')"

text \<open>The decoders of a subscription.\<close>

record decoders =
  from_json :: "string \<Rightarrow> string + OutboundConfig list"
  from_yaml :: "string \<Rightarrow> string + ClashProxy list"
  standard_decode :: "bytes \<Rightarrow> string + bytes"
  url_safe_decode :: "bytes \<Rightarrow> string + bytes"

definition try_parse :: "decoders \<Rightarrow> bytes \<Rightarrow> string + ProviderNodes" where
  "try_parse dec bs =
     res_bind (ok_or ''content is not valid UTF-8'' (from_utf8 bs)) (\<lambda>txt.
       (let yaml = (if looks_like_yaml txt then parse_clash_yaml (from_yaml dec) txt else Inl ''unrecognized format'')
        in case parse_singbox_json (from_json dec) txt of
             Inr ns \<Rightarrow> if ns \<noteq> [] then Inr ns else yaml
           | Inl _ \<Rightarrow> yaml))"

definition is_ascii_whitespace :: "u8 \<Rightarrow> bool" where
  "is_ascii_whitespace b \<longleftrightarrow> b \<in> {0x20, 0x09, 0x0A, 0x0C, 0x0D}"

definition decode_base64 :: "decoders \<Rightarrow> bytes \<Rightarrow> string + bytes" where
  "decode_base64 dec bs =
     (let trimmed = filter (\<lambda>b. \<not> is_ascii_whitespace b) bs
      in case standard_decode dec trimmed of
           Inr d \<Rightarrow> Inr d
         | Inl _ \<Rightarrow> map_err (\<lambda>e. ''base64 decode failed: '' @ e) (url_safe_decode dec trimmed))"

definition parse_auto :: "decoders \<Rightarrow> bytes \<Rightarrow> string + ProviderNodes" where
  "parse_auto dec bs =
     (case try_parse dec bs of
        Inr ns \<Rightarrow> Inr ns
      | Inl _ \<Rightarrow> res_bind (decode_base64 dec bs) (\<lambda>decoded.
          map_err (\<lambda>_. ''unable to detect provider format (tried json, yaml, base64)'') (try_parse dec decoded)))"

section \<open>The manager (\<open>provider/mod.rs\<close>)\<close>

text \<open>A watch channel is the number of values sent so far.\<close>

record ProviderManager =
  pm_nodes :: "string \<rightharpoonup> ProviderNodes"
  global_tags :: "string set"
  pm_senders :: "string \<rightharpoonup> nat"

definition ProviderManager_new :: "ProviderConfig list \<Rightarrow> ProviderManager" where
  "ProviderManager_new configs =
     \<lparr>pm_nodes = Map.empty, global_tags = {}, pm_senders = map_of (map (\<lambda>c. (provider_tag c, 0)) configs)\<rparr>"

definition subscribe :: "string \<Rightarrow> ProviderManager \<Rightarrow> nat option" where
  "subscribe t pm = pm_senders pm t"

definition nodes_snapshot :: "string \<Rightarrow> ProviderManager \<Rightarrow> ProviderNodes" where
  "nodes_snapshot t pm = unwrap_or [] (pm_nodes pm t)"

definition expand_nodes :: "(string \<Rightarrow> string) \<Rightarrow> ProviderRef \<Rightarrow> ProviderManager \<Rightarrow> ProviderNodes" where
  "expand_nodes lower pref pm =
     concat (map (\<lambda>ptag. filter (\<lambda>(t, ob). ProviderRef_matches lower pref t) (nodes_snapshot ptag pm)) (pr_tags pref))"

text \<open>The counter of the search for a free name is a 32-bit number; \<open>None\<close> is a search that never ends.\<close>

definition numbered :: "string \<Rightarrow> u32 \<Rightarrow> string" where
  "numbered name i = name @ ''_'' @ show_nat (unat i)"

partial_function (option) free_name_loop :: "string \<Rightarrow> string set \<Rightarrow> u32 \<Rightarrow> string option" where
  "free_name_loop name global i = (if numbered name i \<notin> global then Some (numbered name i) else free_name_loop name global (i + 1))"

definition alloc_unique_tag :: "string \<Rightarrow> string set \<Rightarrow> (string \<times> string set) option" where
  "alloc_unique_tag name global =
     (if name \<notin> global then Some (name, insert name global)
      else map_option (\<lambda>candidate. (candidate, insert candidate global)) (free_name_loop name global 1))"

fun set_outbound_tag :: "OutboundConfig \<Rightarrow> string \<Rightarrow> OutboundConfig" where
  "set_outbound_tag (Vless c) t = Vless (c\<lparr>vl_tag := t\<rparr>)"
| "set_outbound_tag (Vmess c) t = Vmess (c\<lparr>vm_tag := t\<rparr>)"
| "set_outbound_tag (Shadowsocks c) t = Shadowsocks (c\<lparr>ss_tag := t\<rparr>)"
| "set_outbound_tag (Hysteria2 c) t = Hysteria2 (c\<lparr>hy_tag := t\<rparr>)"
| "set_outbound_tag (Tuic c) t = Tuic (c\<lparr>tu_tag := t\<rparr>)"
| "set_outbound_tag (Trojan c) t = Trojan (c\<lparr>tr_tag := t\<rparr>)"
| "set_outbound_tag (Direct c) t = Direct (c\<lparr>di_tag := t\<rparr>)"
| "set_outbound_tag (Block c) t = Block (c\<lparr>bl_tag := t\<rparr>)"
| "set_outbound_tag (Socks c) t = Socks (c\<lparr>so_tag := t\<rparr>)"
| "set_outbound_tag (Selector c) t = Selector (c\<lparr>sc_tag := t\<rparr>)"
| "set_outbound_tag (UrlTest c) t = UrlTest (c\<lparr>uc_tag := t\<rparr>)"

fun assign_tags :: "ProviderNodes \<Rightarrow> string set \<Rightarrow> (ProviderNodes \<times> string set) option" where
  "assign_tags [] global = Some ([], global)"
| "assign_tags ((name, ob) # raw) global =
     Option.bind (alloc_unique_tag name global) (\<lambda>(t, global).
       map_option (\<lambda>(rest, global). ((t, set_outbound_tag ob t) # rest, global)) (assign_tags raw global))"

definition dedup_name :: "string \<Rightarrow> ProviderNodes \<Rightarrow> ProviderManager \<Rightarrow> (ProviderNodes \<times> ProviderManager) option" where
  "dedup_name ptag raw pm =
     (let released = global_tags pm - set (map fst (nodes_snapshot ptag pm))
      in map_option (\<lambda>(named, global). (named, pm\<lparr>global_tags := global\<rparr>)) (assign_tags raw released))"

definition commit_nodes :: "string \<Rightarrow> ProviderNodes \<Rightarrow> ProviderManager \<Rightarrow> ProviderManager" where
  "commit_nodes ptag named pm =
     pm\<lparr>pm_nodes := (pm_nodes pm)(ptag \<mapsto> named),
        pm_senders := (case pm_senders pm ptag of Some n \<Rightarrow> (pm_senders pm)(ptag \<mapsto> n + 1) | None \<Rightarrow> pm_senders pm)\<rparr>"

definition update_nodes :: "string \<Rightarrow> ProviderNodes \<Rightarrow> ProviderManager \<Rightarrow> ProviderManager option" where
  "update_nodes ptag raw pm = map_option (\<lambda>(named, pm). commit_nodes ptag named pm) (dedup_name ptag raw pm)"

section \<open>Remote and local providers (\<open>provider/remote.rs\<close>)\<close>

type_synonym files = "string \<rightharpoonup> bytes"

text \<open>
  A refresh from the network: \<open>got\<close> is the outcome of the download, \<open>writes\<close> tells whether the cache file can be
  written. The cache is written before the content is parsed.
\<close>

definition fetch_and_update ::
  "decoders \<Rightarrow> string + bytes \<Rightarrow> bool \<Rightarrow> string \<Rightarrow> string option \<Rightarrow> files \<Rightarrow> ProviderManager
     \<Rightarrow> ((string + unit) \<times> files \<times> ProviderManager) option" where
  "fetch_and_update dec got writes ptag cache_path fs pm =
     (case got of
        Inl e \<Rightarrow> Some (Inl e, fs, pm)
      | Inr bs \<Rightarrow>
          (let fs = (case cache_path of Some path \<Rightarrow> if writes then fs(path \<mapsto> bs) else fs | None \<Rightarrow> fs)
           in case parse_auto dec bs of
                Inl e \<Rightarrow> Some (Inl e, fs, pm)
              | Inr raw \<Rightarrow> map_option (\<lambda>pm. (Inr (), fs, pm)) (update_nodes ptag raw pm)))"

definition load_cached :: "decoders \<Rightarrow> string option \<Rightarrow> files \<Rightarrow> ProviderNodes option" where
  "load_cached dec cache_path fs =
     Option.bind cache_path (\<lambda>path. Option.bind (fs path) (\<lambda>bs.
       (case parse_auto dec bs of Inr raw \<Rightarrow> Some raw | Inl _ \<Rightarrow> None)))"

definition start_remote_provider ::
  "decoders \<Rightarrow> (string \<Rightarrow> string \<Rightarrow> string + bytes) \<Rightarrow> bool \<Rightarrow> string \<Rightarrow> RemoteProviderConfig \<Rightarrow> files \<Rightarrow> ProviderManager
     \<Rightarrow> (files \<times> ProviderManager) option" where
  "start_remote_provider dec download writes config_dir cfg fs pm =
     (let cache_path = map_option (resolve_path config_dir) (rp_path cfg)
      in case load_cached dec cache_path fs of
           Some raw \<Rightarrow> map_option (\<lambda>pm. (fs, pm)) (update_nodes (rp_tag cfg) raw pm)
         | None \<Rightarrow>
             map_option (\<lambda>(_, fs, pm). (fs, pm))
               (fetch_and_update dec (download (rp_url cfg) (rp_user_agent cfg)) writes (rp_tag cfg) cache_path fs pm))"

definition start_local_provider ::
  "decoders \<Rightarrow> string \<Rightarrow> LocalProviderConfig \<Rightarrow> files \<Rightarrow> ProviderManager \<Rightarrow> ProviderManager option" where
  "start_local_provider dec config_dir cfg fs pm =
     (case fs (resolve_path config_dir (lp_path cfg)) of
        Some bs \<Rightarrow> (case parse_auto dec bs of Inr raw \<Rightarrow> update_nodes (lp_tag cfg) raw pm | Inl _ \<Rightarrow> Some pm)
      | None \<Rightarrow> Some pm)"

section \<open>Health check (\<open>provider/health.rs\<close>) and delay history (\<open>app/clash_api.rs\<close>)\<close>

record DelayRecord =
  dr_time_ms :: u64
  dr_delay :: u64

type_synonym DelayHistory = "string \<rightharpoonup> DelayRecord"

definition history_store :: "u64 \<Rightarrow> string \<Rightarrow> u64 \<Rightarrow> DelayHistory \<Rightarrow> DelayHistory" where
  "history_store now t d h = h(t \<mapsto> \<lparr>dr_time_ms = now, dr_delay = d\<rparr>)"

definition history_load :: "string \<Rightarrow> DelayHistory \<Rightarrow> DelayRecord option" where
  "history_load t h = h t"

definition history_delete :: "string \<Rightarrow> DelayHistory \<Rightarrow> DelayHistory" where
  "history_delete t h = h(t := None)"

definition health_probe_url :: "string \<Rightarrow> string + (string \<times> u16)" where
  "health_probe_url url =
     (case (case strip_prefix ''https://'' url of Some r \<Rightarrow> Some (443, r)
            | None \<Rightarrow> (case strip_prefix ''http://'' url of Some r \<Rightarrow> Some (80, r) | None \<Rightarrow> None)) of
        None \<Rightarrow> Inl ''health_check url must start with http:// or https://''
      | Some (default_port, r) \<Rightarrow>
          (let authority = hd (split_on CHR ''/'' r)
           in res_bind
                (case rsplit_once CHR '':'' authority of
                   Some (h, p) \<Rightarrow> res_bind (ok_or ''invalid digit'' (parse_uint 65535 p)) (\<lambda>n. Inr (h, word_of_nat n))
                 | None \<Rightarrow> Inr (authority, default_port))
                (\<lambda>(host, port). if host = [] then Inl ''health_check url missing host'' else Inr (host, port))))"

definition health_probe_path :: "string \<Rightarrow> string" where
  "health_probe_path url = parse_probe_path url"

text \<open>
  One round of the check. \<open>probe\<close> is the measured latency of a probe through a registered outbound, \<open>None\<close> when it
  fails or times out; a node that is not registered is not probed.
\<close>

definition run_health_check ::
  "(string \<rightharpoonup> 'o) \<Rightarrow> ('o \<Rightarrow> string \<Rightarrow> u16 \<Rightarrow> string \<Rightarrow> u64 option) \<Rightarrow> u64 \<Rightarrow> string \<Rightarrow> string \<Rightarrow> ProviderManager
     \<Rightarrow> DelayHistory \<Rightarrow> DelayHistory" where
  "run_health_check registry probe now url ptag pm history =
     (let ns = nodes_snapshot ptag pm
      in if ns = [] then history
         else case health_probe_url url of
                Inl _ \<Rightarrow> history
              | Inr (host, port) \<Rightarrow>
                  fold (\<lambda>(t, ob) h.
                      case Option.bind (registry t) (\<lambda>o'. probe o' host port (health_probe_path url)) of
                        Some ms \<Rightarrow> history_store now t ms h
                      | None \<Rightarrow> h) ns history)"

section \<open>Names are found and are new\<close>

lemma numbered_inject: "inj (numbered name)"
  by (auto simp: inj_def numbered_def show_nat_inject word_unat_eq_iff)

lemma free_name_loop_reaches:
  assumes "numbered name (i + word_of_nat k) \<notin> global"
  shows "\<exists>j. free_name_loop name global i = Some (numbered name j) \<and> numbered name j \<notin> global"
  using assms
proof (induction k arbitrary: i)
  case 0
  then show ?case by (auto simp: free_name_loop.simps)
next
  case (Suc k)
  then have "numbered name (i + 1 + word_of_nat k) \<notin> global" by (simp add: add.commute add.left_commute)
  then show ?case using Suc.IH [of "i + 1"] by (cases "numbered name i \<notin> global") (auto simp: free_name_loop.simps [of name global i])
qed

lemma free_name_loop_total:
  assumes "finite global" "card global < 2 ^ 32"
  shows "\<exists>j. free_name_loop name global i = Some (numbered name j) \<and> numbered name j \<notin> global"
proof -
  have "card (range (numbered name)) = 2 ^ 32"
    using card_image [OF numbered_inject] by (simp add: card_word)
  then have "\<not> range (numbered name) \<subseteq> global" using assms card_mono [of global "range (numbered name)"] by auto
  then obtain j where "numbered name j \<notin> global" by auto
  then have "numbered name (i + word_of_nat (unat (j - i))) \<notin> global" by simp
  then show ?thesis by (rule free_name_loop_reaches)
qed

lemma free_name_loop_fresh: "free_name_loop name global i = Some n \<Longrightarrow> n \<notin> global"
  by (erule free_name_loop.raw_induct [rotated, where P = "\<lambda>name global i n. n \<notin> global"]) (auto split: if_splits)

lemma alloc_unique_tag_Some:
  assumes "alloc_unique_tag name global = Some (t, global')"
  shows "t \<notin> global \<and> global' = insert t global"
  using assms by (auto simp: alloc_unique_tag_def dest: free_name_loop_fresh split: if_splits)

lemma alloc_unique_tag_total:
  assumes "finite global" "card global < 2 ^ 32"
  shows "\<exists>t. alloc_unique_tag name global = Some (t, insert t global)"
  using free_name_loop_total [OF assms, of name 1] by (auto simp: alloc_unique_tag_def)

lemma outbound_tag_set [simp]: "outbound_tag (set_outbound_tag ob t) = t"
  by (cases ob) simp_all

lemma is_real_node_set [simp]: "is_real_node (set_outbound_tag ob t) = is_real_node ob"
  by (cases ob) simp_all

lemma assign_tags_total:
  assumes "finite global" "card global + length raw < 2 ^ 32"
  shows "\<exists>r. assign_tags raw global = Some r"
  using assms
proof (induction raw arbitrary: global)
  case (Cons node raw)
  obtain name ob where node: "node = (name, ob)" by (cases node)
  have "card global < 2 ^ 32" using Cons.prems by simp
  then obtain t where t: "alloc_unique_tag name global = Some (t, insert t global)"
    using alloc_unique_tag_total [OF Cons.prems(1)] by blast
  have "card (insert t global) + length raw < 2 ^ 32"
    using Cons.prems card_insert_le_m1 [of "Suc (card global)" global t] by (simp add: card_insert_if)
  then obtain r where "assign_tags raw (insert t global) = Some r" using Cons.IH [of "insert t global"] Cons.prems(1) by auto
  then show ?case by (cases r) (simp add: node t)
qed simp

text \<open>A node that carries its own tag and is neither a group nor a built-in outbound.\<close>

definition node_ok :: "string \<times> OutboundConfig \<Rightarrow> bool" where
  "node_ok = (\<lambda>(t, ob). outbound_tag ob = t \<and> is_real_node ob)"

lemma assign_tags_Some:
  assumes "assign_tags raw global = Some (named, global')"
  shows "global' = global \<union> set (map fst named) \<and> distinct (map fst named) \<and> set (map fst named) \<inter> global = {}
         \<and> ((\<forall>(_, ob) \<in> set raw. is_real_node ob) \<longrightarrow> (\<forall>node \<in> set named. node_ok node))"
  using assms
proof (induction raw arbitrary: global named)
  case (Cons node raw)
  obtain name ob where node: "node = (name, ob)" by (cases node)
  from Cons.prems obtain t g rest where t: "alloc_unique_tag name global = Some (t, g)"
    and rest: "assign_tags raw g = Some (rest, global')" and named: "named = (t, set_outbound_tag ob t) # rest"
    by (auto simp: node bind_eq_Some_conv)
  show ?case using Cons.IH [OF rest] alloc_unique_tag_Some [OF t] by (auto simp: named node node_ok_def)
qed simp

section \<open>Interleaved updates\<close>

text \<open>
  The updates in progress: a provider whose new nodes have their tags but are not stored yet. Every provider has one
  task that updates it.
\<close>

type_synonym pm_state = "ProviderManager \<times> (string \<rightharpoonup> ProviderNodes)"

inductive pm_step :: "decoders \<Rightarrow> pm_state \<Rightarrow> pm_state \<Rightarrow> bool" for dec where
  names: "upd ptag = None \<Longrightarrow> parse_auto dec bs = Inr raw \<Longrightarrow> dedup_name ptag raw pm = Some (named, pm')
    \<Longrightarrow> pm_step dec (pm, upd) (pm', upd(ptag \<mapsto> named))"
| stores: "upd ptag = Some named \<Longrightarrow> pm_step dec (pm, upd) (commit_nodes ptag named pm, upd(ptag := None))"

inductive pm_reachable :: "decoders \<Rightarrow> ProviderConfig list \<Rightarrow> pm_state \<Rightarrow> bool" for dec configs where
  start: "pm_reachable dec configs (ProviderManager_new configs, Map.empty)"
| step: "pm_reachable dec configs st \<Longrightarrow> pm_step dec st st' \<Longrightarrow> pm_reachable dec configs st'"

inductive_cases pm_stepE: "pm_step dec (pm, upd) st'"

text \<open>What a provider owns: the nodes of its update, if one is in progress, otherwise the stored ones.\<close>

definition owned :: "pm_state \<Rightarrow> string \<Rightarrow> ProviderNodes" where
  "owned st p = (case st of (pm, upd) \<Rightarrow> unwrap_or (nodes_snapshot p pm) (upd p))"

definition owned_tags :: "pm_state \<Rightarrow> string \<Rightarrow> string set" where
  "owned_tags st p = fst ` set (owned st p)"

definition tags_owned_once :: "pm_state \<Rightarrow> bool" where
  "tags_owned_once st \<longleftrightarrow>
     global_tags (fst st) = (\<Union>p. owned_tags st p)
     \<and> (\<forall>p. distinct (map fst (owned st p))) \<and> (\<forall>p q. p \<noteq> q \<longrightarrow> owned_tags st p \<inter> owned_tags st q = {})"

lemma owned_names:
  assumes "upd ptag = None" "dedup_name ptag raw pm = Some (named, pm')"
  shows "owned (pm', upd(ptag \<mapsto> named)) p = (if p = ptag then named else owned (pm, upd) p)"
  using assms by (auto simp: owned_def dedup_name_def unwrap_or_def nodes_snapshot_def Let_def split: option.split)

lemma owned_stores:
  assumes "upd ptag = Some named"
  shows "owned (commit_nodes ptag named pm, upd(ptag := None)) = owned (pm, upd)"
  using assms by (auto simp: owned_def commit_nodes_def unwrap_or_def nodes_snapshot_def fun_eq_iff split: option.split)

lemma tags_owned_once_names:
  assumes inv: "tags_owned_once (pm, upd)" and free: "upd ptag = None" and dd: "dedup_name ptag raw pm = Some (named, pm')"
  shows "tags_owned_once (pm', upd(ptag \<mapsto> named))"
proof -
  let ?st = "(pm, upd)" and ?st' = "(pm', upd(ptag \<mapsto> named))"
  let ?others = "global_tags pm - set (map fst (nodes_snapshot ptag pm))"
  from dd have a: "assign_tags raw ?others = Some (named, global_tags pm')" by (auto simp: dedup_name_def Let_def)
  have own: "owned_tags ?st' p = (if p = ptag then fst ` set named else owned_tags ?st p)" for p
    using owned_names [where upd = upd and p = p, OF free dd] by (simp add: owned_tags_def)
  have g: "global_tags pm = (\<Union>p. owned_tags ?st p)" and dis: "\<forall>p q. p \<noteq> q \<longrightarrow> owned_tags ?st p \<inter> owned_tags ?st q = {}"
    and dst: "\<forall>p. distinct (map fst (owned ?st p))"
    using inv by (simp_all add: tags_owned_once_def)
  have sn: "set (map fst (nodes_snapshot ptag pm)) = owned_tags ?st ptag"
    using free by (simp add: owned_tags_def owned_def unwrap_or_def)
  have others: "?others = (\<Union>p \<in> - {ptag}. owned_tags ?st p)" unfolding g sn using dis by blast
  have new: "global_tags pm' = ?others \<union> fst ` set named" "distinct (map fst named)" "fst ` set named \<inter> ?others = {}"
    using assign_tags_Some [OF a] by simp_all
  have "global_tags pm' = (\<Union>p. owned_tags ?st' p)" unfolding new(1) others own by (auto split: if_splits)
  moreover have "\<forall>p. distinct (map fst (owned ?st' p))"
    using new(2) dst by (simp add: owned_names [where upd = upd, OF free dd])
  moreover have "\<forall>p q. p \<noteq> q \<longrightarrow> owned_tags ?st' p \<inter> owned_tags ?st' q = {}"
    using new(3) dis unfolding others own by (auto split: if_splits)
  ultimately show ?thesis by (simp add: tags_owned_once_def)
qed

lemma pm_step_tags_owned_once: "pm_step dec st st' \<Longrightarrow> tags_owned_once st \<Longrightarrow> tags_owned_once st'"
proof (induction rule: pm_step.induct)
  case (stores upd ptag named pm)
  then show ?case
    by (simp add: tags_owned_once_def owned_tags_def owned_stores) (simp add: commit_nodes_def)
qed (rule tags_owned_once_names)

lemma pm_reachable_tags_owned_once: "pm_reachable dec configs st \<Longrightarrow> tags_owned_once st"
proof (induction rule: pm_reachable.induct)
  case start
  then show ?case
    by (simp add: tags_owned_once_def owned_tags_def owned_def unwrap_or_def nodes_snapshot_def ProviderManager_new_def)
qed (rule pm_step_tags_owned_once)

lemma distinct_concat_disjoint:
  assumes "\<And>p. p \<in> set ps \<Longrightarrow> distinct (f p)" "distinct ps"
    and "\<And>p q. p \<in> set ps \<Longrightarrow> q \<in> set ps \<Longrightarrow> p \<noteq> q \<Longrightarrow> set (f p) \<inter> set (f q) = {}"
  shows "distinct (concat (map f ps))"
  using assms
proof (induction ps)
  case (Cons p ps)
  then have "set (f p) \<inter> set (f q) = {}" if "q \<in> set ps" for q using that by auto
  with Cons show ?case by fastforce
qed simp

text \<open>
  C29. Whenever no update is in progress, after any interleaving of the updates of the providers, no two nodes of any
  providers have the same tag, and the global table holds exactly the tags of the nodes: none is lost, none leaks.
\<close>

theorem provider_tags_unique:
  assumes "pm_reachable dec configs (pm, Map.empty)" "distinct ps"
  shows "distinct (map fst (concat (map (\<lambda>p. nodes_snapshot p pm) ps)))
         \<and> global_tags pm = (\<Union>p. fst ` set (nodes_snapshot p pm))"
proof -
  have own: "owned (pm, Map.empty) p = nodes_snapshot p pm" for p by (simp add: owned_def unwrap_or_def)
  have inv: "tags_owned_once (pm, Map.empty)" by (rule pm_reachable_tags_owned_once [OF assms(1)])
  have "distinct (concat (map (\<lambda>p. map fst (nodes_snapshot p pm)) ps))"
    by (rule distinct_concat_disjoint) (use inv assms(2) in \<open>auto simp: tags_owned_once_def owned_tags_def own\<close>)
  then show ?thesis using inv by (simp add: map_concat comp_def tags_owned_once_def owned_tags_def own)
qed

lemmas builders =
  build_ss_def build_vmess_def build_vless_def build_trojan_def build_hysteria2_def build_tuic_def

lemma build_outbound_real: "build_outbound p = Inr ob \<Longrightarrow> is_real_node ob \<and> outbound_tag ob = cp_name p"
  by (auto simp: build_outbound_def builders Let_def res_bind_Inr_iff split: if_splits)

lemma usable_proxy:
  "(case build_outbound p of Inr ob \<Rightarrow> Some (cp_name p, ob) | Inl _ \<Rightarrow> None) = Some node \<Longrightarrow> node_ok node"
  by (cases "build_outbound p") (auto simp: node_ok_def dest: build_outbound_real)

lemma try_parse_real:
  assumes "try_parse dec bs = Inr raw"
  shows "\<forall>node \<in> set raw. node_ok node"
proof -
  have singbox: "\<forall>node \<in> set r. node_ok node" if "parse_singbox_json (from_json dec) s = Inr r" for s r
    using that by (auto simp: parse_singbox_json_def res_bind_Inr_iff node_ok_def)
  have clash: "\<forall>node \<in> set r. node_ok node" if "parse_clash_yaml (from_yaml dec) s = Inr r" for s r
    using that by (auto simp: parse_clash_yaml_def res_bind_Inr_iff map_filter_mem dest: usable_proxy)
  obtain s where s: "ok_or ''content is not valid UTF-8'' (from_utf8 bs) = Inr s"
    using assms by (auto simp: try_parse_def res_bind_Inr_iff)
  show ?thesis
    using assms singbox [of s] clash [of s]
    by (cases "parse_singbox_json (from_json dec) s") (simp_all add: try_parse_def s Let_def split: if_splits)
qed

lemma parse_auto_real: "parse_auto dec bs = Inr raw \<Longrightarrow> \<forall>node \<in> set raw. node_ok node"
  by (auto simp: parse_auto_def res_bind_Inr_iff map_err_Inr_iff split: sum.splits dest: try_parse_real)

definition nodes_typed :: "pm_state \<Rightarrow> bool" where
  "nodes_typed = (\<lambda>(pm, upd). (\<forall>p. \<forall>node \<in> set (nodes_snapshot p pm). node_ok node)
     \<and> (\<forall>p ns. upd p = Some ns \<longrightarrow> (\<forall>node \<in> set ns. node_ok node)))"

lemma dedup_name_typed:
  assumes "dedup_name ptag raw pm = Some (named, pm')" "parse_auto dec bs = Inr raw"
  shows "(\<forall>node \<in> set named. node_ok node) \<and> pm_nodes pm' = pm_nodes pm \<and> (finite (global_tags pm) \<longrightarrow> finite (global_tags pm'))"
proof -
  from assms(1) obtain g where a: "assign_tags raw (global_tags pm - set (map fst (nodes_snapshot ptag pm))) = Some (named, g)"
    and pm': "pm' = pm\<lparr>global_tags := g\<rparr>" by (auto simp: dedup_name_def Let_def)
  have "\<forall>(_, ob) \<in> set raw. is_real_node ob" using parse_auto_real [OF assms(2)] by (auto simp: node_ok_def)
  then show ?thesis using assign_tags_Some [OF a] by (simp add: pm')
qed

lemma pm_step_typed: "pm_step dec st st' \<Longrightarrow> nodes_typed st \<Longrightarrow> nodes_typed st'"
proof (induction rule: pm_step.induct)
  case (names upd ptag bs raw pm named pm')
  then show ?case using dedup_name_typed [OF names(3,2)] by (auto simp: nodes_typed_def nodes_snapshot_def)
next
  case (stores upd ptag named pm)
  then show ?case by (auto simp: nodes_typed_def nodes_snapshot_def commit_nodes_def unwrap_or_def split: if_splits)
qed

text \<open>
  C30. Every node a provider ever holds carries the tag it is listed under and is a proxy: never a group, a direct or a
  block outbound, whatever the subscription contains and in whatever format it is.
\<close>

theorem provider_nodes_typed:
  assumes "pm_reachable dec configs (pm, upd)" "(t, ob) \<in> set (nodes_snapshot p pm)"
  shows "outbound_tag ob = t
    \<and> ob \<notin> range Direct \<and> ob \<notin> range Block \<and> ob \<notin> range Selector \<and> ob \<notin> range UrlTest"
proof -
  have "nodes_typed (pm, upd)"
    using assms(1)
  proof (induction "(pm, upd)" arbitrary: pm upd rule: pm_reachable.induct)
    case start
    then show ?case by (simp add: nodes_typed_def nodes_snapshot_def ProviderManager_new_def unwrap_or_def)
  next
    case (step st)
    then show ?case using pm_step_typed by (cases st) auto
  qed
  then have "node_ok (t, ob)" using assms(2) by (auto simp: nodes_typed_def)
  then show ?thesis by (cases ob) (auto simp: node_ok_def)
qed

lemma pm_reachable_finite: "pm_reachable dec configs st \<Longrightarrow> finite (global_tags (fst st))"
proof (induction rule: pm_reachable.induct)
  case (step st st')
  then show ?case by (induction rule: pm_step.induct [OF step(2)]) (auto simp: commit_nodes_def dest: dedup_name_typed)
qed (simp add: ProviderManager_new_def)

text \<open>
  An update ends: as long as there are fewer than \<open>2 ^ 32\<close> tags, the search for free names succeeds for every node,
  although its counter is a 32-bit number that wraps.
\<close>

theorem provider_update_ends:
  assumes "pm_reachable dec configs (pm, upd)" "card (global_tags pm) + length raw < 2 ^ 32"
  shows "\<exists>pm'. update_nodes ptag raw pm = Some pm' \<and> length (nodes_snapshot ptag pm') = length raw"
proof -
  let ?free = "global_tags pm - set (map fst (nodes_snapshot ptag pm))"
  have fin: "finite (global_tags pm)" using pm_reachable_finite [OF assms(1)] by simp
  then have "card ?free + length raw < 2 ^ 32" using assms(2) card_mono [of "global_tags pm" ?free] by auto
  then obtain named g where a: "assign_tags raw ?free = Some (named, g)" using assign_tags_total [of ?free raw] fin by fastforce
  have "length named = length raw" if "assign_tags raw g0 = Some (named, g)" for raw g0 named g
    using that by (induction raw arbitrary: g0 named) (auto simp: bind_eq_Some_conv)
  with a show ?thesis
    by (auto simp: update_nodes_def dedup_name_def Let_def commit_nodes_def nodes_snapshot_def unwrap_or_def)
qed

section \<open>A concrete run\<close>

text \<open>A whole update is two steps.\<close>

lemma update_reachable:
  assumes "pm_reachable dec configs (pm, upd)" "upd p = None" "parse_auto dec bs = Inr raw" "update_nodes p raw pm = Some pm'"
  shows "pm_reachable dec configs (pm', upd)"
proof -
  from assms(4) obtain named pm1 where d: "dedup_name p raw pm = Some (named, pm1)" and pm': "pm' = commit_nodes p named pm1"
    by (auto simp: update_nodes_def)
  have "pm_reachable dec configs (pm1, upd(p \<mapsto> named))"
    using pm_reachable.step [OF assms(1) pm_step.names [where upd = upd, OF assms(2,3) d]] .
  then have "pm_reachable dec configs (commit_nodes p named pm1, (upd(p \<mapsto> named))(p := None))"
    by (rule pm_reachable.step) (rule pm_step.stores, simp)
  then show ?thesis using assms(2) by (simp add: pm' fun_upd_idem)
qed

definition demo_node :: OutboundConfig where
  "demo_node = Trojan \<lparr>tr_tag = ''jp'', tr_server = ''jp.example.com'', tr_server_port = 443, tr_password = ''secret'',
     tr_transport = None, tr_tls = TlsConfig_default, tr_detour = None\<rparr>"

definition demo_decoders :: decoders where
  "demo_decoders = \<lparr>from_json = (\<lambda>_. Inr [demo_node, direct_of ''direct'', demo_node]), from_yaml = (\<lambda>_. Inl []),
     standard_decode = Inr, url_safe_decode = Inr\<rparr>"

definition demo_raw :: ProviderNodes where
  "demo_raw = [(''jp'', demo_node), (''jp'', demo_node)]"

definition demo_pm1 :: ProviderManager where
  "demo_pm1 = the (update_nodes ''a'' demo_raw (ProviderManager_new []))"

definition demo_pm2 :: ProviderManager where
  "demo_pm2 = the (update_nodes ''b'' demo_raw demo_pm1)"

lemma demo_parse: "parse_auto demo_decoders [] = Inr demo_raw"
proof -
  have "from_utf8 [] = Some []" by code_simp
  then show ?thesis
    by (simp add: parse_auto_def try_parse_def parse_singbox_json_def demo_decoders_def demo_raw_def demo_node_def direct_of_def Let_def)
qed

lemma demo_numbered: "numbered ''jp'' 1 = ''jp_1''" "numbered ''jp'' 2 = ''jp_2''" "numbered ''jp'' 3 = ''jp_3''"
  by code_simp+

lemma demo_alloc:
  "alloc_unique_tag ''jp'' {} = Some (''jp'', {''jp''})"
  "alloc_unique_tag ''jp'' {''jp''} = Some (''jp_1'', {''jp_1'', ''jp''})"
  "alloc_unique_tag ''jp'' {''jp_1'', ''jp''} = Some (''jp_2'', {''jp_2'', ''jp_1'', ''jp''})"
  "alloc_unique_tag ''jp'' {''jp_2'', ''jp_1'', ''jp''} = Some (''jp_3'', {''jp_3'', ''jp_2'', ''jp_1'', ''jp''})"
  by (simp_all add: alloc_unique_tag_def demo_numbered free_name_loop.simps [of _ _ 1] free_name_loop.simps [of _ _ 2] free_name_loop.simps [of _ _ 3])

definition demo_named :: "string \<Rightarrow> string \<times> OutboundConfig" where
  "demo_named t = (t, set_outbound_tag demo_node t)"

lemma demo_update1:
  "update_nodes ''a'' demo_raw (ProviderManager_new []) =
   Some \<lparr>pm_nodes = [''a'' \<mapsto> [demo_named ''jp'', demo_named ''jp_1'']], global_tags = {''jp_1'', ''jp''}, pm_senders = Map.empty\<rparr>"
  by (simp add: update_nodes_def dedup_name_def ProviderManager_new_def nodes_snapshot_def unwrap_or_def demo_raw_def
    demo_alloc commit_nodes_def demo_named_def)

lemmas demo_pm1_eq = demo_pm1_def [unfolded demo_update1 option.sel]

lemma demo_update2:
  "update_nodes ''b'' demo_raw demo_pm1 =
   Some \<lparr>pm_nodes = [''a'' \<mapsto> [demo_named ''jp'', demo_named ''jp_1''], ''b'' \<mapsto> [demo_named ''jp_2'', demo_named ''jp_3'']],
         global_tags = {''jp_3'', ''jp_2'', ''jp_1'', ''jp''}, pm_senders = Map.empty\<rparr>"
  by (simp add: demo_pm1_eq update_nodes_def dedup_name_def nodes_snapshot_def unwrap_or_def demo_raw_def
    demo_alloc commit_nodes_def demo_named_def)

lemma demo_reachable: "pm_reachable demo_decoders [] (demo_pm2, Map.empty)"
proof -
  have "pm_reachable demo_decoders [] (demo_pm1, Map.empty)"
    by (rule update_reachable [OF pm_reachable.start _ demo_parse, where p = "''a''"]) (simp_all add: demo_pm1_def demo_update1)
  then show ?thesis
    by (rule update_reachable [OF _ _ demo_parse, where p = "''b''"]) (simp_all add: demo_pm2_def demo_update2)
qed

lemma demo_snapshots:
  "nodes_snapshot ''a'' demo_pm2 = [demo_named ''jp'', demo_named ''jp_1'']"
  "nodes_snapshot ''b'' demo_pm2 = [demo_named ''jp_2'', demo_named ''jp_3'']"
  by (simp_all add: demo_pm2_def demo_update2 nodes_snapshot_def unwrap_or_def)

theorem provider_tags_unique_witness: "distinct [''jp'', ''jp_1'', ''jp_2'', ''jp_3'']"
  using provider_tags_unique [OF demo_reachable, of "[''a'', ''b'']"] by (simp add: demo_snapshots demo_named_def)

theorem provider_nodes_typed_witness:
  "(''jp_2'', set_outbound_tag demo_node ''jp_2'') \<in> set (nodes_snapshot ''b'' demo_pm2)
   \<and> outbound_tag (set_outbound_tag demo_node ''jp_2'') = ''jp_2'' \<and> set_outbound_tag demo_node ''jp_2'' \<notin> range Direct"
proof -
  have mem: "(''jp_2'', set_outbound_tag demo_node ''jp_2'') \<in> set (nodes_snapshot ''b'' demo_pm2)"
    by (simp add: demo_snapshots demo_named_def)
  then show ?thesis using provider_nodes_typed [OF demo_reachable mem] by simp
qed

theorem provider_update_ends_witness: "\<exists>pm'. update_nodes ''a'' demo_raw demo_pm2 = Some pm' \<and> length (nodes_snapshot ''a'' pm') = Suc (Suc 0)"
proof -
  have "card (global_tags demo_pm2) + length demo_raw < 2 ^ 32" using demo_update2 by (simp add: demo_pm2_def) (simp add: demo_raw_def)
  then show ?thesis using provider_update_ends [OF demo_reachable, of demo_raw "''a''"] by (simp add: demo_raw_def)
qed

end
