(* ===== verification/Outbound_Mgr.thy ===== *)
theory Outbound_Mgr
  imports Provider
begin

text \<open>
  The registry of outbounds (\<open>app/outbound_mgr.rs\<close>), the dialling of a group through its choice, and the tasks of
  \<open>app/mod.rs\<close> that hand the nodes of the providers to the groups. The constructors of the protocol outbounds (TLS
  roots, keys) are an argument that only says whether they succeed; the groups are built by the definitions of
  \<open>Outbound_Group\<close>. A group finds its members in the registry, which is filled once.
\<close>

section \<open>Outbounds and the registry\<close>

datatype Outbound =
    OSelector SelectorOutbound
  | OUrlTest UrlTestOutbound
  | OLeaf OutboundConfig u32

type_synonym OutboundManager = "string \<rightharpoonup> Outbound"

text \<open>\<open>saved\<close> is the persisted choice of a selector, \<open>mk\<close> the routing mark.\<close>

definition new_outbound ::
  "(OutboundConfig \<Rightarrow> string + unit) \<Rightarrow> CacheFile option \<Rightarrow> (string \<Rightarrow> string option) \<Rightarrow> u32 \<Rightarrow> OutboundConfig \<Rightarrow> string + Outbound" where
  "new_outbound leaf_new writer saved mk cfg =
     (case cfg of
        Selector c \<Rightarrow> Inr (OSelector (SelectorOutbound_new c writer (saved (sc_tag c))))
      | UrlTest c \<Rightarrow> res_bind (UrlTestOutbound_new c) (\<lambda>u. Inr (OUrlTest u))
      | Block c \<Rightarrow> Inr (OLeaf cfg 0)
      | Direct c \<Rightarrow> Inr (OLeaf cfg mk)
      | Socks c \<Rightarrow> res_bind (parsed_version c) (\<lambda>_. Inr (OLeaf cfg mk))
      | _ \<Rightarrow> res_bind (leaf_new cfg) (\<lambda>_. Inr (OLeaf cfg mk)))"

definition OutboundManager_from_config ::
  "(OutboundConfig \<Rightarrow> string + unit) \<Rightarrow> CacheFile option \<Rightarrow> (string \<Rightarrow> string option) \<Rightarrow> u32 \<Rightarrow> OutboundConfig list \<Rightarrow> string + OutboundManager" where
  "OutboundManager_from_config leaf_new writer saved mk configs =
     res_fold (\<lambda>cfg m.
         if m (outbound_tag cfg) \<noteq> None then Inl (''duplicate outbound tag: '' @ single_quoted (outbound_tag cfg))
         else res_bind (new_outbound leaf_new writer saved mk cfg) (\<lambda>ob. Inr (m(outbound_tag cfg \<mapsto> ob))))
       configs Map.empty"

definition mgr_get :: "string \<Rightarrow> OutboundManager \<Rightarrow> Outbound option" where
  "mgr_get t m = m t"

definition plain_status :: "string \<Rightarrow> string \<Rightarrow> OutboundStatus" where
  "plain_status t ty = \<lparr>st_name = t, type_name = ty, now_tag = None, st_all = [], st_history = []\<rparr>"

text \<open>\<open>order\<close> is the order in which the hash map of the latencies of a url-test group is iterated.\<close>

fun outbound_status :: "string list \<Rightarrow> Outbound \<Rightarrow> OutboundStatus" where
  "outbound_status order (OSelector s) = selector_status s"
| "outbound_status order (OUrlTest u) = status_snapshot order u"
| "outbound_status order (OLeaf (Direct c) mk) = plain_status (di_tag c) ''Direct''"
| "outbound_status order (OLeaf (Block c) mk) = plain_status (bl_tag c) ''Reject''"
| "outbound_status order (OLeaf (Vmess c) mk) = plain_status (vm_tag c) ''VMess''"
| "outbound_status order (OLeaf (Shadowsocks c) mk) = plain_status (ss_tag c) ''Shadowsocks''"
| "outbound_status order (OLeaf (Tuic c) mk) = plain_status (tu_tag c) ''TUIC''"
| "outbound_status order (OLeaf (Socks c) mk) = plain_status (so_tag c)
     (case parsed_version c of Inr V4a \<Rightarrow> ''SOCKS4a'' | Inr V4o \<Rightarrow> ''SOCKS4'' | _ \<Rightarrow> ''SOCKS5'')"
| "outbound_status order (OLeaf cfg mk) = plain_status (outbound_tag cfg) ''Proxy''"

definition mgr_status :: "string list \<Rightarrow> string \<Rightarrow> OutboundManager \<Rightarrow> OutboundStatus option" where
  "mgr_status order t m = map_option (outbound_status order) (m t)"

text \<open>\<open>keys\<close> is the order in which the hash map of the registry is iterated.\<close>

definition mgr_statuses :: "string list \<Rightarrow> string list \<Rightarrow> OutboundManager \<Rightarrow> OutboundStatus list" where
  "mgr_statuses keys order m = sort_key st_name (List.map_filter (\<lambda>t. mgr_status order t m) keys)"

definition select_child :: "(nat \<Rightarrow> bool) \<Rightarrow> string \<Rightarrow> Outbound \<Rightarrow> (string + unit) \<times> Outbound" where
  "select_child ended child ob =
     (case ob of
        OSelector s \<Rightarrow> (let (r, _, s) = set_selected ended child s in (r, OSelector s))
      | OUrlTest u \<Rightarrow> (let (r, u) = force_selected child u in (r, OUrlTest u))
      | OLeaf cfg mk \<Rightarrow> (Inl (''outbound '' @ single_quoted (outbound_tag cfg) @ '' is not selectable''), ob))"

definition mgr_select :: "(nat \<Rightarrow> bool) \<Rightarrow> string \<Rightarrow> string \<Rightarrow> OutboundManager \<Rightarrow> (string + unit) \<times> OutboundManager" where
  "mgr_select ended t child m =
     (case m t of
        None \<Rightarrow> (Inl (''outbound '' @ single_quoted t @ '' not found''), m)
      | Some ob \<Rightarrow> (let (r, ob) = select_child ended child ob in (r, m(t \<mapsto> ob))))"

section \<open>Dialling\<close>

text \<open>
  A tunnel of the protocol of an outbound, or a plain TCP connection to the destination, which is what the default
  method of the trait opens.
\<close>

datatype connection = Tunnel OutboundConfig string u16 | Plain string u16

text \<open>The outbounds with a \<open>connect_tcp\<close> of their own: all but Shadowsocks and Block.\<close>

fun overrides_connect_tcp :: "OutboundConfig \<Rightarrow> bool" where
  "overrides_connect_tcp (Shadowsocks _) = False"
| "overrides_connect_tcp (Block _) = False"
| "overrides_connect_tcp _ = True"

definition next_choice :: "nat \<Rightarrow> Outbound \<Rightarrow> string option" where
  "next_choice now ob =
     (case ob of
        OSelector s \<Rightarrow> Some (selector_current_tag s)
      | OUrlTest u \<Rightarrow> Some (fst (urltest_current_tag now u))
      | OLeaf cfg mk \<Rightarrow> None)"

text \<open>
  A group dials the member it has chosen, which may be a group again. \<open>None\<close> is a recursion that never returns; what
  the outbound at its end opens is the result.
\<close>

partial_function (option) connect_tcp ::
  "OutboundManager \<Rightarrow> nat \<Rightarrow> string \<Rightarrow> string \<Rightarrow> u16 \<Rightarrow> (string + connection) option" where
  "connect_tcp m now t host port =
     (case m t of
        None \<Rightarrow> Some (Inl (''outbound '' @ single_quoted t @ '' not found''))
      | Some (OLeaf cfg mk) \<Rightarrow> Some (Inr (if overrides_connect_tcp cfg then Tunnel cfg host port else Plain host port))
      | Some (OSelector s) \<Rightarrow> connect_tcp m now (selector_current_tag s) host port
      | Some (OUrlTest u) \<Rightarrow> connect_tcp m now (fst (urltest_current_tag now u)) host port)"

section \<open>Nodes of the providers (\<open>app/mod.rs\<close>)\<close>

text \<open>What the watcher of a group does when one of its providers has changed, and once at the start.\<close>

definition refresh_group :: "(string \<Rightarrow> string) \<Rightarrow> ProviderRef \<Rightarrow> ProviderManager \<Rightarrow> string \<Rightarrow> OutboundManager \<Rightarrow> OutboundManager" where
  "refresh_group lower pref pm t m =
     (let tags = map fst (expand_nodes lower pref pm)
      in case mgr_get t m of
           Some (OSelector s) \<Rightarrow> m(t \<mapsto> OSelector (selector_refresh_nodes tags s))
         | Some (OUrlTest u) \<Rightarrow> m(t \<mapsto> OUrlTest (urltest_refresh_nodes tags u))
         | _ \<Rightarrow> m)"

text \<open>
  The steps of the running groups: choices made by the user, connections, probes of the url-test groups, and updates
  of the node lists. \<open>P\<close> bounds the names of the nodes the providers deliver.
\<close>

inductive mgr_step :: "string set \<Rightarrow> OutboundManager \<Rightarrow> OutboundManager \<Rightarrow> bool" for P where
  selects: "mgr_step P m (snd (mgr_select ended t child m))"
| dials: "m t = Some (OSelector s) \<Longrightarrow> mgr_step P m (m(t \<mapsto> OSelector (s\<lparr>conns := cs\<rparr>)))"
| asks: "m t = Some (OUrlTest u) \<Longrightarrow> mgr_step P m (m(t \<mapsto> OUrlTest (snd (urltest_current_tag now u))))"
| starts_probe: "m t = Some (OUrlTest u) \<Longrightarrow> k < length (probes u) \<Longrightarrow> mgr_step P m (m(t \<mapsto> OUrlTest (probe_start now k u)))"
| ends_probe: "m t = Some (OUrlTest u) \<Longrightarrow> k < length (probes u) \<Longrightarrow> probes u ! k = Probing tags \<Longrightarrow> set order = set tags
    \<Longrightarrow> mgr_step P m (m(t \<mapsto> OUrlTest (probe_end results order k u)))"
| refreshes: "fst ` set (expand_nodes lower pref pm) \<subseteq> P \<Longrightarrow> mgr_step P m (refresh_group lower pref pm t m)"

inductive mgr_reachable :: "string set \<Rightarrow> OutboundManager \<Rightarrow> OutboundManager \<Rightarrow> bool" for P m0 where
  start: "mgr_reachable P m0 m0"
| step: "mgr_reachable P m0 m \<Longrightarrow> mgr_step P m m' \<Longrightarrow> mgr_reachable P m0 m'"

section \<open>The members of the groups\<close>

fun probe_tags :: "probe_task \<Rightarrow> string set" where
  "probe_tags (Spawned ts) = set ts"
| "probe_tags (Probing ts) = set ts"
| "probe_tags Finished = {}"

text \<open>Every tag a url-test group may come to choose.\<close>

definition urltest_tags :: "UrlTestOutbound \<Rightarrow> string set" where
  "urltest_tags u = set (u_all_tags u) \<union> set_option (u_selected u) \<union> (\<Union>p \<in> set (probes u). probe_tags p)"

fun members_ok :: "OutboundConfig list \<Rightarrow> string set \<Rightarrow> string \<Rightarrow> Outbound \<Rightarrow> bool" where
  "members_ok configs P t (OSelector s) \<longleftrightarrow>
     sc_tag (s_config s) = t \<and> Selector (s_config s) \<in> set configs \<and> set (all_tags s) \<subseteq> set (sc_outbounds (s_config s)) \<union> P"
| "members_ok configs P t (OUrlTest u) \<longleftrightarrow>
     uc_tag (u_config u) = t \<and> UrlTest (u_config u) \<in> set configs \<and> urltest_tags u \<subseteq> set (uc_outbounds (u_config u)) \<union> P"
| "members_ok configs P t (OLeaf cfg mk) \<longleftrightarrow> outbound_tag cfg = t \<and> cfg \<in> set configs \<and> \<not> is_group cfg"

definition mgr_ok :: "OutboundConfig list \<Rightarrow> string set \<Rightarrow> OutboundManager \<Rightarrow> bool" where
  "mgr_ok configs P m \<longleftrightarrow> dom m = outbound_tag ` set configs \<and> (\<forall>t ob. m t = Some ob \<longrightarrow> members_ok configs P t ob)"

lemma mgr_ok_upd:
  assumes "mgr_ok configs P m" "m t = Some ob" "members_ok configs P t ob \<Longrightarrow> members_ok configs P t ob'"
  shows "mgr_ok configs P (m(t \<mapsto> ob'))"
  using assms by (auto simp: mgr_ok_def dom_def)

lemma new_outbound_ok:
  assumes "new_outbound leaf_new writer saved mk cfg = Inr ob" "cfg \<in> set configs"
  shows "members_ok configs P (outbound_tag cfg) ob"
  using assms
  by (cases cfg) (auto simp: new_outbound_def res_bind_Inr_iff SelectorOutbound_new_def UrlTestOutbound_new_def Let_def
    urltest_tags_def split: if_splits)

lemma OutboundManager_from_config_ok:
  assumes "OutboundManager_from_config leaf_new writer saved mk configs = Inr m"
  shows "mgr_ok configs P m"
proof -
  let ?f = "\<lambda>cfg m. if m (outbound_tag cfg) \<noteq> None then Inl (''duplicate outbound tag: '' @ single_quoted (outbound_tag cfg))
         else res_bind (new_outbound leaf_new writer saved mk cfg) (\<lambda>ob. Inr (m(outbound_tag cfg \<mapsto> ob)))"
  have "dom m = dom m0 \<union> outbound_tag ` set cs \<and> (\<forall>t ob. m t = Some ob \<longrightarrow> members_ok configs P t ob)"
    if "res_fold ?f cs m0 = Inr m" "set cs \<subseteq> set configs" "\<forall>t ob. m0 t = Some ob \<longrightarrow> members_ok configs P t ob" for cs m0
    using that
  proof (induction cs arbitrary: m0)
    case (Cons cfg cs)
    from Cons.prems(1) obtain ob where ob: "new_outbound leaf_new writer saved mk cfg = Inr ob"
      and rest: "res_fold ?f cs (m0(outbound_tag cfg \<mapsto> ob)) = Inr m"
      by (auto simp: res_bind_Inr_iff split: if_splits)
    have "members_ok configs P (outbound_tag cfg) ob" using new_outbound_ok [OF ob] Cons.prems(2) by simp
    then have "\<forall>t ob'. (m0(outbound_tag cfg \<mapsto> ob)) t = Some ob' \<longrightarrow> members_ok configs P t ob'" using Cons.prems(3) by simp
    moreover have "set cs \<subseteq> set configs" using Cons.prems(2) by simp
    ultimately have all: "\<forall>t ob. m t = Some ob \<longrightarrow> members_ok configs P t ob"
      and dom: "dom m = dom (m0(outbound_tag cfg \<mapsto> ob)) \<union> outbound_tag ` set cs"
      using Cons.IH [OF rest] by blast+
    have "dom m = dom m0 \<union> outbound_tag ` set (cfg # cs)" unfolding dom by simp
    with all show ?case by blast
  qed simp
  from this [of configs Map.empty] show ?thesis using assms by (simp add: OutboundManager_from_config_def mgr_ok_def)
qed

lemma merge_nodes_subset: "set (merge_nodes outbounds all provider_nodes) \<subseteq> set outbounds \<union> set provider_nodes"
proof -
  have "set (fold push_new xs acc) \<subseteq> set acc \<union> set xs" for xs acc :: "string list"
    by (induction xs arbitrary: acc) (fastforce simp: push_new_def split: if_splits)+
  then show ?thesis unfolding merge_nodes_def by fastforce
qed

lemma select_child_ok: "members_ok configs P t ob \<Longrightarrow> members_ok configs P t (snd (select_child ended child ob))"
proof (cases ob)
  case (OSelector s)
  assume "members_ok configs P t ob"
  then show ?thesis by (cases rule: set_selected_cases [of child s ended]) (auto simp: OSelector select_child_def Let_def split: prod.splits)
qed (auto simp: select_child_def force_selected_def urltest_tags_def Let_def split: prod.splits if_splits)

lemma best_probe_in:
  assumes "best_probe measured order = Some (bt, bl)"
  shows "bt \<in> set order"
proof -
  let ?xs = "List.map_filter (\<lambda>t. case measured t of Some (Some l) \<Rightarrow> Some (t, l) | _ \<Rightarrow> None) order"
  have "?xs \<noteq> []" using assms by (auto simp: best_probe_def)
  then have "(bt, bl) \<in> set ?xs" using min_by_key_Some [of ?xs "\<lambda>(_, l). unat l"] assms by (auto simp: best_probe_def)
  then show ?thesis by (auto simp: map_filter_mem split: option.splits)
qed

lemma choose_node_in: "set_option (choose_node tol measured order cur) \<subseteq> set_option cur \<union> set order"
  by (auto simp: choose_node_def dest: best_probe_in split: option.splits prod.splits if_splits)

lemma probes_update_subset:
  "(\<Union>p \<in> set (ps[k := q]). probe_tags p) \<subseteq> (\<Union>p \<in> set ps. probe_tags p) \<union> probe_tags q"
  by (auto dest!: set_mp [OF set_update_subset_insert])

lemma urltest_ops_tags:
  "urltest_tags (snd (urltest_current_tag now u)) \<subseteq> urltest_tags u"
  "k < length (probes u) \<Longrightarrow> urltest_tags (probe_start now k u) \<subseteq> urltest_tags u"
  "k < length (probes u) \<Longrightarrow> probes u ! k = Probing tags \<Longrightarrow> set order = set tags \<Longrightarrow>
     urltest_tags (probe_end results order k u) \<subseteq> urltest_tags u"
proof -
  show "urltest_tags (snd (urltest_current_tag now u)) \<subseteq> urltest_tags u"
    by (auto simp: urltest_current_tag_def urltest_tags_def Let_def)
  assume k: "k < length (probes u)"
  then have mem: "probes u ! k \<in> set (probes u)" by simp
  show "urltest_tags (probe_start now k u) \<subseteq> urltest_tags u"
  proof (cases "probes u ! k")
    case (Spawned ts)
    then have "set ts \<subseteq> (\<Union>p \<in> set (probes u). probe_tags p)" using mem by force
    then show ?thesis
      using probes_update_subset [of "probes u" k "Probing ts"] probes_update_subset [of "probes u" k Finished] Spawned
      by (auto simp: probe_start_def urltest_tags_def Let_def split: sum.split) 
  qed (simp_all add: probe_start_def)
  assume "probes u ! k = Probing tags" "set order = set tags"
  then have "set order \<subseteq> (\<Union>p \<in> set (probes u). probe_tags p)" using mem by force
  then show "urltest_tags (probe_end results order k u) \<subseteq> urltest_tags u"
    using choose_node_in [of "uc_tolerance (u_config u)" "map_of (rev results)" order "u_selected u"]
      probes_update_subset [of "probes u" k Finished]
    by (fastforce simp: probe_end_def urltest_tags_def Let_def)
qed

lemma refresh_ok:
  assumes "members_ok configs P t (OSelector s)" "set tags \<subseteq> P"
  shows "members_ok configs P t (OSelector (selector_refresh_nodes tags s))"
  using assms merge_nodes_subset [of "sc_outbounds (s_config s)" "all_tags s" tags]
  by (auto simp: selector_refresh_nodes_def Let_def)

lemma urltest_refresh_ok:
  assumes "members_ok configs P t (OUrlTest u)" "set tags \<subseteq> P"
  shows "members_ok configs P t (OUrlTest (urltest_refresh_nodes tags u))"
  using assms merge_nodes_subset [of "uc_outbounds (u_config u)" "u_all_tags u" tags]
  by (auto simp: urltest_refresh_nodes_def urltest_tags_def Let_def split: option.splits if_splits)

lemma urltest_config_kept [simp]:
  "u_config (snd (urltest_current_tag now u)) = u_config u"
  "u_config (probe_start now k u) = u_config u" "u_config (probe_end results order k u) = u_config u"
  by (auto simp: urltest_current_tag_def probe_start_def probe_end_def Let_def split: probe_task.split sum.split)

lemma mgr_step_ok: "mgr_step P m m' \<Longrightarrow> mgr_ok configs P m \<Longrightarrow> mgr_ok configs P m'"
proof (induction rule: mgr_step.induct)
  case (selects m ended t child)
  show ?case
  proof (cases "m t")
    case (Some ob)
    have "mgr_ok configs P (m(t \<mapsto> snd (select_child ended child ob)))"
      by (rule mgr_ok_upd [OF selects Some]) (rule select_child_ok)
    then show ?thesis by (cases "select_child ended child ob") (simp add: mgr_select_def Some fun_upd_def)
  qed (simp add: mgr_select_def selects)
next
  case (dials m t s cs)
  show ?case by (rule mgr_ok_upd [OF dials(2,1)]) simp
next
  case (asks m t u now)
  show ?case by (rule mgr_ok_upd [OF asks(2,1)]) (use urltest_ops_tags(1) [of now u] in auto)
next
  case (starts_probe m t u k now)
  show ?case by (rule mgr_ok_upd [OF starts_probe(3,1)]) (use urltest_ops_tags(2) [OF starts_probe(2)] in auto)
next
  case (ends_probe m t u k tags order results)
  show ?case by (rule mgr_ok_upd [OF ends_probe(5,1)]) (use urltest_ops_tags(3) [OF ends_probe(2,3,4)] in auto)
next
  case (refreshes lower pref pm m t)
  then show ?case
    by (auto simp: refresh_group_def mgr_get_def Let_def split: option.split Outbound.split
      intro!: mgr_ok_upd refresh_ok urltest_refresh_ok)
qed

lemma mgr_reachable_ok: "mgr_reachable P m0 m \<Longrightarrow> mgr_ok configs P m0 \<Longrightarrow> mgr_ok configs P m"
  by (induction rule: mgr_reachable.induct) (auto simp: mgr_step_ok)

section \<open>Dialling ends\<close>

text \<open>The choice of a group is one of its members, if it has any.\<close>

lemma next_choice_member:
  assumes "members_ok configs P t ob" "next_choice now ob = Some t'" "t' \<noteq> []" "P \<inter> groups = {}" "t' \<in> groups"
  shows "\<exists>cfg \<in> set configs. outbound_tag cfg = t \<and> is_group cfg \<and> t' \<in> set (child_outbounds cfg)"
proof (cases ob)
  case (OSelector s)
  then have "t' \<in> set (all_tags s)"
    using assms(2,3) by (auto simp: next_choice_def selector_current_tag_def first_or_default_def split: if_splits list.splits)
  then show ?thesis using assms OSelector by (intro bexI [of _ "Selector (s_config s)"]) auto
next
  case (OUrlTest u)
  then have "t' \<in> urltest_tags u"
    using assms(2,3)
    by (auto simp: next_choice_def urltest_current_tag_def urltest_tags_def first_or_default_def Let_def split: if_splits list.splits option.splits)
  then show ?thesis using assms OUrlTest by (intro bexI [of _ "UrlTest (u_config u)"]) auto
qed (use assms in \<open>simp add: next_choice_def\<close>)

lemma contains_group_finite: "finite (contains_group obs)"
proof -
  have "contains_group obs \<subseteq> outbound_tag ` set obs \<times> outbound_tag ` set obs" by (auto simp: contains_group_def)
  then show ?thesis by (rule finite_subset) simp
qed

lemma connect_tcp_next:
  assumes "m t = Some ob" "next_choice now ob = Some t'"
  shows "connect_tcp m now t host port = connect_tcp m now t' host port"
  using assms by (cases ob) (simp_all add: connect_tcp.simps [of m now t] next_choice_def)

definition group_tags :: "OutboundConfig list \<Rightarrow> string set" where
  "group_tags configs = outbound_tag ` {ob \<in> set configs. is_group ob}"

text \<open>What a dial may come to: an unknown tag, or a configured outbound that is no group, for the given destination.\<close>

definition dial_result_ok :: "OutboundConfig list \<Rightarrow> string \<Rightarrow> u16 \<Rightarrow> string + connection \<Rightarrow> bool" where
  "dial_result_ok configs host port r =
     (case r of
        Inl e \<Rightarrow> \<exists>t. e = ''outbound '' @ single_quoted t @ '' not found'' \<and> t \<notin> outbound_tag ` set configs
      | Inr (Tunnel cfg h p) \<Rightarrow> cfg \<in> set configs \<and> \<not> is_group cfg \<and> h = host \<and> p = port
      | Inr (Plain h p) \<Rightarrow> h = host \<and> p = port)"

lemma connect_tcp_step:
  assumes "mgr_ok configs P m"
  obtains (ends) r where "connect_tcp m now t host port = Some r" "dial_result_ok configs host port r"
  | (goes_on) ob t' where "m t = Some ob" "next_choice now ob = Some t'"
proof (cases "m t")
  case None
  then have "t \<notin> outbound_tag ` set configs" using assms by (auto simp: mgr_ok_def)
  with None that(1) show ?thesis by (auto simp: connect_tcp.simps [of m now t] dial_result_ok_def)
next
  case (Some ob)
  show ?thesis
  proof (cases ob)
    case (OLeaf cfg mk)
    have "members_ok configs P t ob" using Some assms by (simp add: mgr_ok_def)
    then have "cfg \<in> set configs \<and> \<not> is_group cfg" by (simp add: OLeaf)
    with Some OLeaf that(1) show ?thesis by (simp add: connect_tcp.simps [of m now t] dial_result_ok_def)
  qed (use Some that(2) in \<open>simp_all add: next_choice_def\<close>)
qed

lemma connect_tcp_ends:
  assumes ok: "mgr_ok configs P m" and acyc: "acyclic (contains_group configs)"
    and sep: "P \<inter> group_tags configs = {}" and noempty: "[] \<notin> group_tags configs"
  shows "\<exists>r. connect_tcp m now t host port = Some r \<and> dial_result_ok configs host port r"
proof -
  have wf: "wf ((contains_group configs)\<inverse>)" using acyc contains_group_finite by (rule finite_acyclic_wf_converse [rotated])
  show ?thesis
  proof (induction t rule: wf_induct_rule [OF wf])
    case (1 t)
    from ok show ?case
    proof (cases rule: connect_tcp_step [where t = t and now = now and host = host and port = port])
      case (goes_on ob t')
      show ?thesis
      proof (cases "t' \<in> group_tags configs")
        case True
        then have "t' \<noteq> []" using noempty by auto
        moreover have "members_ok configs P t ob" using goes_on ok by (simp add: mgr_ok_def)
        ultimately obtain cfg where "cfg \<in> set configs" "outbound_tag cfg = t" "is_group cfg" "t' \<in> set (child_outbounds cfg)"
          using next_choice_member [OF _ goes_on(2) _ sep True] by blast
        then have "(t', t) \<in> (contains_group configs)\<inverse>" using True by (auto simp: contains_group_def group_tags_def)
        then show ?thesis using 1 connect_tcp_next [where m = m, OF goes_on] by simp
      next
        case False
        from ok show ?thesis
        proof (cases rule: connect_tcp_step [where t = t' and now = now and host = host and port = port])
          case (goes_on ob' t'')
          then have "members_ok configs P t' ob'" using ok by (simp add: mgr_ok_def)
          then have "t' \<in> group_tags configs" using goes_on(2) by (cases ob') (force simp: next_choice_def group_tags_def)+
          with False show ?thesis ..
        qed (use connect_tcp_next [where m = m, OF goes_on] in auto)
      qed
    qed blast
  qed
qed

text \<open>
  C26. In an accepted configuration in which no group has the empty name, dialling through a group always comes to an end:
  after any choices, probes and node updates, as long as no provider delivers a node with the name of a group (such a node
  makes the group contain itself and the dial recurse without end), every dial returns, and what it opens is a connection
  of a configured outbound that is no group to the requested destination, or the plain connection of the default method,
  or it fails because the chosen name is not configured.
\<close>

theorem group_dial_ends:
  assumes "validate order cfg = Inr ()" "set order = group_tags (c_outbounds cfg)"
    and "OutboundManager_from_config leaf_new writer saved mk (c_outbounds cfg) = Inr m0" "mgr_reachable P m0 m"
    and "P \<inter> group_tags (c_outbounds cfg) = {}" "[] \<notin> group_tags (c_outbounds cfg)"
  shows "\<exists>r. connect_tcp m now t host port = Some r \<and> dial_result_ok (c_outbounds cfg) host port r"
proof -
  have "distinct (map outbound_tag (c_outbounds cfg))" using assms(1) by (simp add: validate_steps tags_unique_def)
  then have "acyclic (contains_group (c_outbounds cfg))"
    using assms(1,2) cycles_iff [of "c_outbounds cfg" order] by (simp add: validate_steps group_tags_def)
  then show ?thesis
    using connect_tcp_ends [OF mgr_reachable_ok [OF assms(4) OutboundManager_from_config_ok [OF assms(3)]]] assms(5,6) by blast
qed

text \<open>
  C28. The registry holds the configured outbounds only: a group, selector or url-test, that has chosen a node of a
  provider which is not also a configured outbound fails every dial, because the nodes of the providers are never built.
\<close>

theorem provider_nodes_not_dialled:
  assumes "OutboundManager_from_config leaf_new writer saved mk configs = Inr m0" "mgr_reachable P m0 m"
    and "m t = Some ob" "next_choice now ob = Some node" "node \<notin> outbound_tag ` set configs"
  shows "connect_tcp m now t host port = Some (Inl (''outbound '' @ single_quoted node @ '' not found''))"
proof -
  have "mgr_ok configs P m" by (rule mgr_reachable_ok [OF assms(2) OutboundManager_from_config_ok [OF assms(1)]])
  then have "m node = None" using assms(5) by (auto simp: mgr_ok_def)
  then have "connect_tcp m now node host port = Some (Inl (''outbound '' @ single_quoted node @ '' not found''))"
    by (simp add: connect_tcp.simps [of m now node])
  then show ?thesis using assms(3,4) by (cases ob) (simp_all add: connect_tcp.simps [of m now t] next_choice_def)
qed

text \<open>
  C27. A selector whose choice is a block or a Shadowsocks outbound opens a plain connection to the destination, in the
  clear and around every proxy: neither of the two has a dial method of its own, and the default one connects directly.
\<close>

theorem selector_member_bypassed:
  assumes "OutboundManager_from_config leaf_new writer saved mk configs = Inr m0" "mgr_reachable P m0 m"
    and "m t = Some (OSelector s)" "cfg \<in> set configs" "outbound_tag cfg = selector_current_tag s"
    and "distinct (map outbound_tag configs)" "\<not> is_group cfg" "\<not> overrides_connect_tcp cfg"
  shows "connect_tcp m now t host port = Some (Inr (Plain host port))"
proof -
  have ok: "mgr_ok configs P m" by (rule mgr_reachable_ok [OF assms(2) OutboundManager_from_config_ok [OF assms(1)]])
  then have "selector_current_tag s \<in> dom m" using assms(4,5) by (force simp: mgr_ok_def)
  then obtain ob where ob: "m (selector_current_tag s) = Some ob" by blast
  then have mem: "members_ok configs P (selector_current_tag s) ob" using ok by (simp add: mgr_ok_def)
  have same: "cfg' = cfg" if "cfg' \<in> set configs" "outbound_tag cfg' = selector_current_tag s" for cfg'
    using that assms(4-6) by (auto simp: distinct_map inj_on_def)
  obtain k where "ob = OLeaf cfg k"
  proof (cases ob)
    case (OLeaf cfg' k)
    then show ?thesis using same [of cfg'] mem that by simp
  next
    case (OSelector s')
    then show ?thesis using same [of "Selector (s_config s')"] mem assms(7) by auto
  next
    case (OUrlTest u)
    then show ?thesis using same [of "UrlTest (u_config u)"] mem assms(7) by auto
  qed
  then show ?thesis
    using ob assms(8) by (simp add: connect_tcp.simps [of m now t] connect_tcp.simps [of m now "selector_current_tag s"] assms(3))
qed

section \<open>Concrete groups\<close>

text \<open>A selector with a blocking member and a provider.\<close>

definition demo_ref :: ProviderRef where
  "demo_ref = \<lparr>pr_tags = [''b''], pr_exclude_filter = [], pr_filter = []\<rparr>"

definition demo_configs :: "OutboundConfig list" where
  "demo_configs =
     [Selector \<lparr>sc_tag = ''proxy'', sc_outbounds = [''block''], sc_providers = Some demo_ref, sc_default = None,
                interrupt_existing_connections = True\<rparr>,
      Block \<lparr>bl_tag = ''block''\<rparr>]"

definition demo_sel :: SelectorOutbound where
  "demo_sel = SelectorOutbound_new \<lparr>sc_tag = ''proxy'', sc_outbounds = [''block''], sc_providers = Some demo_ref,
     sc_default = None, interrupt_existing_connections = True\<rparr> None None"

definition demo_mgr :: OutboundManager where
  "demo_mgr = [''proxy'' \<mapsto> OSelector demo_sel, ''block'' \<mapsto> OLeaf (Block \<lparr>bl_tag = ''block''\<rparr>) 0]"

lemma demo_built: "OutboundManager_from_config (\<lambda>_. Inr ()) None (\<lambda>_. None) 0 demo_configs = Inr demo_mgr"
  by (simp add: OutboundManager_from_config_def demo_configs_def new_outbound_def demo_mgr_def demo_sel_def)

theorem selector_member_bypassed_witness:
  "connect_tcp demo_mgr 0 ''proxy'' ''ads.example.com'' 443 = Some (Inr (Plain ''ads.example.com'' 443))"
proof (rule selector_member_bypassed [OF demo_built mgr_reachable.start, of "''proxy''" demo_sel "Block \<lparr>bl_tag = ''block''\<rparr>"])
  show "outbound_tag (Block \<lparr>bl_tag = ''block''\<rparr>) = selector_current_tag demo_sel"
    by (simp add: demo_sel_def SelectorOutbound_new_def selector_current_tag_def first_or_default_def Let_def)
qed (simp_all add: demo_mgr_def demo_configs_def)

text \<open>The user picks a node of the provider.\<close>

definition demo_refreshed :: OutboundManager where
  "demo_refreshed = refresh_group (\<lambda>s. s) demo_ref demo_pm2 ''proxy'' demo_mgr"

definition demo_picked :: OutboundManager where
  "demo_picked = snd (mgr_select (\<lambda>_. False) ''proxy'' ''jp_2'' demo_refreshed)"

definition demo_picked_sel :: SelectorOutbound where
  "demo_picked_sel = demo_sel\<lparr>all_tags := [''block'', ''jp_2'', ''jp_3''], selected := ''jp_2''\<rparr>"

lemma demo_expand: "map fst (expand_nodes (\<lambda>s. s) demo_ref demo_pm2) = [''jp_2'', ''jp_3'']"
  by (simp add: expand_nodes_def demo_ref_def demo_snapshots demo_named_def ProviderRef_matches_def)

lemma demo_refreshed_sel:
  "demo_refreshed ''proxy'' = Some (OSelector (demo_sel\<lparr>all_tags := [''block'', ''jp_2'', ''jp_3'']\<rparr>))"
  by (simp add: demo_refreshed_def refresh_group_def demo_expand mgr_get_def demo_mgr_def demo_sel_def SelectorOutbound_new_def
    selector_refresh_nodes_def merge_nodes_def push_new_def first_or_default_def Let_def)

lemma demo_picked_lookup: "demo_picked ''proxy'' = Some (OSelector demo_picked_sel)"
  by (simp add: demo_picked_def mgr_select_def demo_refreshed_sel select_child_def set_selected_def interrupt_def
    demo_picked_sel_def demo_sel_def SelectorOutbound_new_def first_or_default_def Let_def)

lemma demo_picked_reachable: "mgr_reachable {''jp_2'', ''jp_3''} demo_mgr demo_picked"
proof -
  have "fst ` set (expand_nodes (\<lambda>s. s) demo_ref demo_pm2) \<subseteq> {''jp_2'', ''jp_3''}"
    using demo_expand by (metis list.set_map set_eq_subset list.simps(15) empty_set)
  then have "mgr_reachable {''jp_2'', ''jp_3''} demo_mgr demo_refreshed"
    unfolding demo_refreshed_def by (intro mgr_reachable.step [OF mgr_reachable.start] mgr_step.refreshes)
  then show ?thesis unfolding demo_picked_def by (rule mgr_reachable.step) (rule mgr_step.selects)
qed

lemma demo_picked_current: "selector_current_tag demo_picked_sel = ''jp_2''"
  by (simp add: demo_picked_sel_def selector_current_tag_def)

theorem provider_nodes_not_dialled_witness:
  "connect_tcp demo_picked 0 ''proxy'' ''example.com'' 443
     = Some (Inl (''outbound '' @ single_quoted ''jp_2'' @ '' not found''))"
proof -
  have "next_choice 0 (OSelector demo_picked_sel) = Some ''jp_2''" by (simp add: next_choice_def demo_picked_current)
  from provider_nodes_not_dialled [OF demo_built demo_picked_reachable demo_picked_lookup this, of "''example.com''" 443]
  show ?thesis by (simp add: demo_configs_def)
qed

definition demo_nested :: OutboundManager where
  "demo_nested = projr (OutboundManager_from_config (\<lambda>_. Inr ()) None (\<lambda>_. None) 0 (c_outbounds (demo_config [''direct''])))"

theorem group_dial_ends_witness:
  "\<exists>r. connect_tcp demo_nested 0 ''proxy'' ''example.com'' 443 = Some r
       \<and> dial_result_ok (c_outbounds (demo_config [''direct''])) ''example.com'' 443 r"
proof (rule group_dial_ends [OF _ _ _ mgr_reachable.start, of "[''auto'', ''proxy'']" _ _ _ _ _ _ "{}"])
  show "validate [''auto'', ''proxy''] (demo_config [''direct'']) = Inr ()" by code_simp
  show "set [''auto'', ''proxy''] = group_tags (c_outbounds (demo_config [''direct'']))"
    unfolding group_tags_def by (rule demo_groups [symmetric])
  show "OutboundManager_from_config (\<lambda>_. Inr ()) None (\<lambda>_. None) 0 (c_outbounds (demo_config [''direct''])) = Inr demo_nested"
    by (simp add: demo_nested_def OutboundManager_from_config_def demo_config_def selector_of_def direct_of_def new_outbound_def)
  show "[] \<notin> group_tags (c_outbounds (demo_config [''direct'']))"
    unfolding group_tags_def demo_groups by simp
qed simp

end
