(* ===== verification/Shadowsocks.thy ===== *)
theory Shadowsocks
  imports Relay Config_Types
begin

text \<open>
  Shadowsocks (\<open>outbound/shadowsocks.rs\<close>, \<open>inbound/shadowsocks_server.rs\<close>): methods, key derivation, the AEAD cipher with
  its counter, chunks, the stream adapter over an arbitrary transport, the request of the outbound and the handshake of
  the inbound, UDP datagrams. The cryptographic crates are a record of functions; what the code relies on is stated as
  \<open>ss_laws\<close>. Salts are arguments.
\<close>

section \<open>Methods\<close>

datatype Method =
    MAes128Gcm
  | MAes256Gcm
  | MChaCha20Poly1305
  | Ss2022Aes128Gcm
  | Ss2022Aes256Gcm
  | Ss2022ChaCha20Poly1305
  | MNone

definition method_from_str :: "string \<Rightarrow> string + Method" where
  "method_from_str s0 =
     (let s = to_ascii_lowercase s0
      in if s = ''aes-128-gcm'' then Inr MAes128Gcm
         else if s = ''aes-256-gcm'' then Inr MAes256Gcm
         else if s = ''chacha20-ietf-poly1305'' \<or> s = ''chacha20-poly1305'' then Inr MChaCha20Poly1305
         else if s = ''2022-blake3-aes-128-gcm'' then Inr Ss2022Aes128Gcm
         else if s = ''2022-blake3-aes-256-gcm'' then Inr Ss2022Aes256Gcm
         else if s = ''2022-blake3-chacha20-poly1305'' then Inr Ss2022ChaCha20Poly1305
         else if s = ''none'' \<or> s = ''plain'' then Inr MNone
         else Inl (''unsupported shadowsocks method: '' @ s))"

fun key_len :: "Method \<Rightarrow> nat" where
  "key_len MAes128Gcm = 16"
| "key_len Ss2022Aes128Gcm = 16"
| "key_len MNone = 0"
| "key_len _ = 32"

definition salt_len :: "Method \<Rightarrow> nat" where
  "salt_len m = key_len m"

fun is_2022 :: "Method \<Rightarrow> bool" where
  "is_2022 Ss2022Aes128Gcm = True"
| "is_2022 Ss2022Aes256Gcm = True"
| "is_2022 Ss2022ChaCha20Poly1305 = True"
| "is_2022 _ = False"

definition TAG_LEN :: nat where "TAG_LEN = 16"
definition MAX_PAYLOAD :: nat where "MAX_PAYLOAD = 0x3FFF"

section \<open>The crates\<close>

datatype aead = Aes128Gcm | Aes256Gcm | ChaCha20Poly1305

fun aead_key_size :: "aead \<Rightarrow> nat" where
  "aead_key_size Aes128Gcm = 16"
| "aead_key_size _ = 32"

text \<open>
  Encryption yields the ciphertext and the detached tag; decryption takes the ciphertext followed by the tag and fails
  with \<open>None\<close>. \<open>hkdf_expand\<close> is HKDF-SHA1 with the information \<open>ss-subkey\<close>, \<open>blake3_derive\<close> the derivation with the context of
  the inbound.
\<close>

record ss_crates =
  md5 :: "bytes \<Rightarrow> bytes"
  hkdf_expand :: "bytes \<Rightarrow> bytes \<Rightarrow> nat \<Rightarrow> bytes"
  blake3_hash :: "bytes \<Rightarrow> bytes"
  blake3_keyed_hash :: "bytes \<Rightarrow> bytes \<Rightarrow> bytes"
  blake3_derive :: "bytes \<Rightarrow> bytes"
  b64_decode :: "string \<Rightarrow> string + bytes"
  encrypt_detached :: "aead \<Rightarrow> bytes \<Rightarrow> bytes \<Rightarrow> bytes \<Rightarrow> bytes \<times> bytes"
  decrypt :: "aead \<Rightarrow> bytes \<Rightarrow> bytes \<Rightarrow> bytes \<Rightarrow> bytes option"

text \<open>
  The documented behaviour the theorems rest on: MD5 has 16 bytes; HKDF-SHA1 expands to any length up to 255 hashes of 20
  bytes; a sealed text has the length of the plain text and a tag of 16 bytes, and opens with the same key and nonce.
  Nothing is assumed of texts opened with another key.
\<close>

definition ss_laws :: "ss_crates \<Rightarrow> bool" where
  "ss_laws cr \<longleftrightarrow>
     (\<forall>x. length (md5 cr x) = 16) \<and> (\<forall>k s n. n \<le> 255 * 20 \<longrightarrow> length (hkdf_expand cr k s n) = n)
     \<and> (\<forall>a k n pt. length (fst (encrypt_detached cr a k n pt)) = length pt \<and> length (snd (encrypt_detached cr a k n pt)) = 16
          \<and> decrypt cr a k n (fst (encrypt_detached cr a k n pt) @ snd (encrypt_detached cr a k n pt)) = Some pt)"

section \<open>Key derivation\<close>

text \<open>A loop that would not end if the hash were empty.\<close>

partial_function (option) evp_loop :: "(bytes \<Rightarrow> bytes) \<Rightarrow> bytes \<Rightarrow> nat \<Rightarrow> bytes \<Rightarrow> bytes \<Rightarrow> bytes option" where
  "evp_loop h password n prev key =
     (if length key < n then evp_loop h password n (h (prev @ password)) (key @ h (prev @ password)) else Some (take n key))"

definition evp_bytes_to_key :: "ss_crates \<Rightarrow> bytes \<Rightarrow> nat \<Rightarrow> bytes option" where
  "evp_bytes_to_key cr password n = evp_loop (md5 cr) password n [] []"

definition hkdf_sha1 :: "ss_crates \<Rightarrow> bytes \<Rightarrow> bytes \<Rightarrow> nat \<Rightarrow> bytes" where
  "hkdf_sha1 cr master_key salt n = hkdf_expand cr master_key salt n"

definition ss2022_session_key :: "ss_crates \<Rightarrow> bytes \<Rightarrow> bytes \<Rightarrow> nat \<Rightarrow> bytes" where
  "ss2022_session_key cr psk salt n =
     (let blake3_key = (if length psk = 32 then psk else blake3_hash cr psk)
      in take n (blake3_keyed_hash cr blake3_key salt))"

section \<open>The cipher\<close>

record AeadCipher =
  ac_method :: Method
  ac_subkey :: bytes
  ac_counter :: u64

definition AeadCipher_new :: "Method \<Rightarrow> bytes \<Rightarrow> AeadCipher" where
  "AeadCipher_new m subkey = \<lparr>ac_method = m, ac_subkey = subkey, ac_counter = 0\<rparr>"

definition nonce_from_u64 :: "u64 \<Rightarrow> bytes" where
  "nonce_from_u64 n = le_bytes 8 (unat n) @ replicate 4 0"

definition ac_nonce :: "AeadCipher \<Rightarrow> bytes" where
  "ac_nonce c = nonce_from_u64 (ac_counter c)"

fun aead_of :: "Method \<Rightarrow> aead option" where
  "aead_of MAes128Gcm = Some Aes128Gcm"
| "aead_of Ss2022Aes128Gcm = Some Aes128Gcm"
| "aead_of MAes256Gcm = Some Aes256Gcm"
| "aead_of Ss2022Aes256Gcm = Some Aes256Gcm"
| "aead_of MChaCha20Poly1305 = Some ChaCha20Poly1305"
| "aead_of Ss2022ChaCha20Poly1305 = Some ChaCha20Poly1305"
| "aead_of MNone = None"

text \<open>The ciphertext and the tag; a key of the wrong length is refused.\<close>

definition seal_inner :: "ss_crates \<Rightarrow> AeadCipher \<Rightarrow> bytes \<Rightarrow> bytes \<Rightarrow> string + bytes \<times> bytes" where
  "seal_inner cr c buf nonce =
     (case aead_of (ac_method c) of
        None \<Rightarrow> Inr (buf, replicate TAG_LEN 0)
      | Some a \<Rightarrow>
          if length (ac_subkey c) \<noteq> aead_key_size a then Inl ''cipher init: Invalid Length''
          else Inr (encrypt_detached cr a (ac_subkey c) nonce buf))"

definition ac_seal :: "ss_crates \<Rightarrow> AeadCipher \<Rightarrow> bytes \<Rightarrow> string + bytes \<times> AeadCipher" where
  "ac_seal cr c buf =
     (if ac_method c = MNone then Inr (buf, c)
      else res_bind (seal_inner cr c buf (ac_nonce c)) (\<lambda>(ct, tg). Inr (ct @ tg, c\<lparr>ac_counter := ac_counter c + 1\<rparr>)))"

definition open_inner :: "ss_crates \<Rightarrow> AeadCipher \<Rightarrow> bytes \<Rightarrow> bytes \<Rightarrow> string + bytes" where
  "open_inner cr c buf nonce =
     (case aead_of (ac_method c) of
        None \<Rightarrow> Inr buf
      | Some a \<Rightarrow>
          if length (ac_subkey c) \<noteq> aead_key_size a then Inl ''cipher init: Invalid Length''
          else ok_or ''decrypt: aead::Error'' (decrypt cr a (ac_subkey c) nonce buf))"

definition ac_open :: "ss_crates \<Rightarrow> AeadCipher \<Rightarrow> bytes \<Rightarrow> string + bytes \<times> AeadCipher" where
  "ac_open cr c buf =
     (if ac_method c = MNone then Inr (buf, c)
      else if length buf < TAG_LEN then Inl ''ciphertext too short''
      else res_bind (open_inner cr c buf (ac_nonce c)) (\<lambda>pt. Inr (pt, c\<lparr>ac_counter := ac_counter c + 1\<rparr>)))"

section \<open>Chunks\<close>

definition ss_write_chunk :: "ss_crates \<Rightarrow> AeadCipher \<Rightarrow> bytes \<Rightarrow> string + bytes \<times> AeadCipher" where
  "ss_write_chunk cr c data =
     res_bind (ac_seal cr c (u16_be (word_of_nat (length data)))) (\<lambda>(len_buf, c).
     res_bind (ac_seal cr c data) (\<lambda>(payload_buf, c).
       Inr (len_buf @ payload_buf, c)))"

text \<open>Without encryption the length is read from a block of 18 bytes all the same.\<close>

definition ss_read_chunk :: "ss_crates \<Rightarrow> AeadCipher \<Rightarrow> (bytes \<times> AeadCipher) proc" where
  "ss_read_chunk cr c =
     Read (2 + TAG_LEN) (\<lambda>len_buf.
       proc_bind (of_result (ac_open cr c len_buf)) (\<lambda>(len_buf, c).
       Read (unat (u16_of_be (take 2 len_buf)) + TAG_LEN) (\<lambda>payload_buf.
         of_result (ac_open cr c payload_buf))))"

text \<open>What the upload writes for the blocks it reads from the client, and how far it gets.\<close>

fun ss_upload :: "ss_crates \<Rightarrow> AeadCipher \<Rightarrow> bytes list \<Rightarrow> bytes" where
  "ss_upload cr c [] = []"
| "ss_upload cr c (b # bs) =
     (case ss_write_chunk cr c b of Inl _ \<Rightarrow> [] | Inr (out, c) \<Rightarrow> out @ ss_upload cr c bs)"

text \<open>The download: the blocks delivered to the client until the stream ends or cannot be opened.\<close>

lemma ss_read_chunk_consumes:
  assumes "run (ss_read_chunk cr c) inp = (r, out, rest)" "r = Inr x"
  shows "length rest < length inp"
proof -
  have "18 \<le> length inp" using assms by (auto simp: ss_read_chunk_def TAG_LEN_def split: if_splits)
  moreover obtain used where "drop 18 inp = used @ rest"
    using assms calculation run_suffix by (force simp: ss_read_chunk_def TAG_LEN_def split: if_splits)
  then have "length (drop 18 inp) = length used + length rest" by simp
  ultimately show ?thesis by simp
qed

function ss_download :: "ss_crates \<Rightarrow> AeadCipher \<Rightarrow> bytes \<Rightarrow> bytes list" where
  "ss_download cr c inp =
     (case run (ss_read_chunk cr c) inp of
        (Inr (b, c'), out, rest) \<Rightarrow> b # ss_download cr c' rest
      | (Inl _, _, _) \<Rightarrow> [])"
  by pat_completeness auto
termination
  by (relation "measure (\<lambda>(cr, c, inp). length inp)") (auto dest: ss_read_chunk_consumes [OF sym])

declare ss_download.simps [simp del]

section \<open>The stream adapter\<close>

text \<open>The transport is given by the segments that arrive.\<close>

record SsXhttpStream =
  sx_inner :: "bytes list"
  sx_enc :: AeadCipher
  sx_dec :: AeadCipher
  sx_read_buf :: bytes
  sx_raw_buf :: bytes
  sx_salt_sent :: bool
  sx_salt :: bytes

definition SsXhttpStream_new :: "bytes list \<Rightarrow> AeadCipher \<Rightarrow> AeadCipher \<Rightarrow> bytes \<Rightarrow> SsXhttpStream" where
  "SsXhttpStream_new inn enc dec salt =
     \<lparr>sx_inner = inn, sx_enc = enc, sx_dec = dec, sx_read_buf = [], sx_raw_buf = [], sx_salt_sent = False, sx_salt = salt\<rparr>"

text \<open>
  One attempt on the bytes collected so far: \<open>None\<close> when the chunk is not complete, otherwise its plaintext, the cipher
  after it and the bytes behind it. The length is decrypted ahead without advancing the counter.
\<close>

definition sx_frame :: "ss_crates \<Rightarrow> AeadCipher \<Rightarrow> bytes \<Rightarrow> (string + bytes \<times> AeadCipher \<times> bytes) option" where
  "sx_frame cr dec raw =
     (let len_chunk_size = 2 + TAG_LEN
      in if length raw < len_chunk_size then None
         else case open_inner cr dec (take len_chunk_size raw) (ac_nonce dec) of
                Inl _ \<Rightarrow> Some (Inl ''SS AEAD length chunk decrypt failed'')
              | Inr len_peek \<Rightarrow>
                  (let payload_len = unat (u16_of_be (take 2 len_peek)); total_needed = len_chunk_size + payload_len + TAG_LEN
                   in if length raw < total_needed then None
                      else Some (
                        res_bind (map_err (\<lambda>e. ''SS AEAD len open: '' @ e) (ac_open cr dec (take len_chunk_size raw))) (\<lambda>(_, dec).
                        res_bind (map_err (\<lambda>e. ''SS AEAD payload open: '' @ e)
                            (ac_open cr dec (take (payload_len + TAG_LEN) (drop len_chunk_size raw)))) (\<lambda>(payload, dec).
                          Inr (payload, dec, drop total_needed raw))))))"

function sx_fill :: "ss_crates \<Rightarrow> SsXhttpStream \<Rightarrow> string + SsXhttpStream" where
  "sx_fill cr st =
     (case sx_frame cr (sx_dec st) (sx_raw_buf st) of
        Some (Inl e) \<Rightarrow> Inl e
      | Some (Inr (payload, dec, raw)) \<Rightarrow> Inr (st\<lparr>sx_dec := dec, sx_raw_buf := raw, sx_read_buf := payload\<rparr>)
      | None \<Rightarrow>
          (case seg_read 4096 (sx_inner st) of (got, inn) \<Rightarrow>
             if got = [] then Inr (st\<lparr>sx_inner := inn\<rparr>)
             else sx_fill cr (st\<lparr>sx_inner := inn, sx_raw_buf := sx_raw_buf st @ got\<rparr>)))"
  by pat_completeness auto
termination
proof (relation "measure (\<lambda>(cr, st). length (concat (sx_inner st)))", goal_cases)
  case (2 cr st got inn)
  then have "length (concat inn) < length (concat (sx_inner st))"
    by (auto simp: seg_read_def split: list.splits if_splits)
  then show ?case by simp
qed simp

declare sx_fill.simps [simp del]

definition sx_poll_read :: "ss_crates \<Rightarrow> nat \<Rightarrow> SsXhttpStream \<Rightarrow> string + bytes \<times> SsXhttpStream" where
  "sx_poll_read cr n st =
     res_bind (if sx_read_buf st \<noteq> [] then Inr st else sx_fill cr st) (\<lambda>st.
       Inr (take n (sx_read_buf st), st\<lparr>sx_read_buf := drop n (sx_read_buf st)\<rparr>))"

fun seal_chunks :: "ss_crates \<Rightarrow> AeadCipher \<Rightarrow> bytes list \<Rightarrow> string + bytes \<times> AeadCipher" where
  "seal_chunks cr c [] = Inr ([], c)"
| "seal_chunks cr c (b # bs) =
     res_bind (map_err (\<lambda>e. ''SS seal len: '' @ e) (ac_seal cr c (u16_be (word_of_nat (length b))))) (\<lambda>(l, c).
     res_bind (map_err (\<lambda>e. ''SS seal payload: '' @ e) (ac_seal cr c b)) (\<lambda>(p, c).
     res_bind (seal_chunks cr c bs) (\<lambda>(out, c). Inr (l @ p @ out, c))))"

text \<open>
  A write: the number of bytes reported as written and the bytes the transport takes. Of \<open>n\<close> bytes the transport takes
  \<open>accept n\<close>; the adapter reports all the data in any case.
\<close>

definition sx_poll_write :: "ss_crates \<Rightarrow> (nat \<Rightarrow> nat) \<Rightarrow> bytes \<Rightarrow> SsXhttpStream \<Rightarrow> (string + nat \<times> bytes) \<times> SsXhttpStream" where
  "sx_poll_write cr accept data st =
     (let pre = (if sx_salt_sent st then [] else sx_salt st); st = st\<lparr>sx_salt_sent := True\<rparr>
      in case seal_chunks cr (sx_enc st) (chunks_of MAX_PAYLOAD data) of
           Inl e \<Rightarrow> (Inl e, st)
         | Inr (out, enc) \<Rightarrow> (Inr (length data, take (accept (length (pre @ out))) (pre @ out)), st\<lparr>sx_enc := enc\<rparr>))"

section \<open>The outbound\<close>

definition encode_target :: "Target \<Rightarrow> bytes" where
  "encode_target target =
     (case target of
        Socket addr \<Rightarrow> (case sa_ip addr of V4 ip \<Rightarrow> 0x01 # octets4 ip | V6 ip \<Rightarrow> 0x04 # octets6 ip)
      | Domain host _ \<Rightarrow> 0x03 # word_of_nat (length host) # as_bytes host)
     @ u16_be (target_port target)"

record ShadowsocksOutbound =
  sso_config :: ShadowsocksOutboundConfig
  sso_method :: Method
  sso_key_material :: bytes
  sso_routing_mark :: u32

text \<open>\<open>None\<close> is a key derivation that never ends.\<close>

definition ShadowsocksOutbound_new :: "ss_crates \<Rightarrow> ShadowsocksOutboundConfig \<Rightarrow> (string + ShadowsocksOutbound) option" where
  "ShadowsocksOutbound_new cr cfg =
     (case method_from_str (ss_method cfg) of
        Inl e \<Rightarrow> Some (Inl e)
      | Inr m \<Rightarrow>
          map_option (\<lambda>r. res_bind r (\<lambda>key. Inr \<lparr>sso_config = cfg, sso_method = m, sso_key_material = key, sso_routing_mark = 0\<rparr>))
            (if is_2022 m then
               Some (res_bind (map_err (\<lambda>e. ''2022 PSK base64 decode: '' @ e) (b64_decode cr (trim (ss_password cfg)))) (\<lambda>psk.
                 if length psk = key_len m then Inr psk
                 else Inl (''2022 PSK length mismatch: expected '' @ show_nat (key_len m) @ '' got '' @ show_nat (length psk))))
             else if m = MNone then Some (Inr [])
             else map_option Inr (evp_bytes_to_key cr (as_bytes (ss_password cfg)) (key_len m))))"

definition derive_subkey :: "ss_crates \<Rightarrow> Method \<Rightarrow> bytes \<Rightarrow> bytes \<Rightarrow> bytes" where
  "derive_subkey cr m key_material salt =
     (if is_2022 m then ss2022_session_key cr key_material salt (key_len m) else hkdf_sha1 cr key_material salt (key_len m))"

text \<open>
  What the outbound sends first, and the ciphers of the writing and the reading half; both are keyed with the salt of
  the outbound.
\<close>

definition ss_connect :: "ss_crates \<Rightarrow> Method \<Rightarrow> bytes \<Rightarrow> bytes \<Rightarrow> bytes \<Rightarrow> string + bytes \<times> AeadCipher \<times> AeadCipher" where
  "ss_connect cr m subkey salt first_payload =
     res_bind (ss_write_chunk cr (AeadCipher_new m subkey) first_payload) (\<lambda>(chunk, enc).
       Inr (salt @ chunk, enc, AeadCipher_new m subkey))"

definition connect_ss :: "ss_crates \<Rightarrow> ShadowsocksOutbound \<Rightarrow> bytes \<Rightarrow> Target \<Rightarrow> string + bytes \<times> AeadCipher \<times> AeadCipher" where
  "connect_ss cr ob salt target =
     (let m = sso_method ob; first_payload = encode_target target
      in if m = MNone then Inr (first_payload, AeadCipher_new MNone [], AeadCipher_new MNone [])
         else ss_connect cr m (derive_subkey cr m (sso_key_material ob) salt) salt first_payload)"

text \<open>Over another transport the same bytes are sent and the stream is wrapped.\<close>

definition ss_wrap_xhttp ::
  "ss_crates \<Rightarrow> bytes list \<Rightarrow> Method \<Rightarrow> bytes \<Rightarrow> bytes \<Rightarrow> bytes \<Rightarrow> string + bytes \<times> SsXhttpStream" where
  "ss_wrap_xhttp cr inn m subkey salt first_payload =
     (let enc = AeadCipher_new m subkey; dec = AeadCipher_new m subkey
      in res_bind (ac_seal cr enc (u16_be (word_of_nat (length first_payload)))) (\<lambda>(len_buf, enc).
         res_bind (ac_seal cr enc first_payload) (\<lambda>(payload_buf, enc).
           Inr (salt @ len_buf @ payload_buf, SsXhttpStream_new inn enc dec []))))"

section \<open>The inbound\<close>

text \<open>\<open>None\<close> is a key derivation that never ends.\<close>

definition ss_derive_key :: "ss_crates \<Rightarrow> string \<Rightarrow> Method \<Rightarrow> (string + bytes) option" where
  "ss_derive_key cr password m =
     (if key_len m = 0 then Some (Inr [])
      else if is_2022 m then
        Some (res_bind (map_err (\<lambda>e. ''2022 password must be base64: '' @ e) (b64_decode cr password)) (\<lambda>key.
          if length key = key_len m then Inr key
          else Inl (''2022 password key length mismatch: expected '' @ show_nat (key_len m) @ '', got '' @ show_nat (length key))))
      else map_option Inr (evp_bytes_to_key cr (as_bytes password) (key_len m)))"

definition derive_2022_session_key :: "ss_crates \<Rightarrow> bytes \<Rightarrow> bytes \<Rightarrow> nat \<Rightarrow> bytes" where
  "derive_2022_session_key cr key salt n = take n (blake3_derive cr (key @ salt))"

text \<open>The slice of the session key is exact because the key has the size of the method.\<close>

definition ss_server_open :: "ss_crates \<Rightarrow> Method \<Rightarrow> bytes \<Rightarrow> u64 \<Rightarrow> string \<Rightarrow> bytes \<Rightarrow> string + bytes" where
  "ss_server_open cr m session_key n what buf =
     (case aead_of m of
        None \<Rightarrow> Inl ''unreachable''
      | Some a \<Rightarrow> ok_or (''decrypt '' @ what @ '' failed'') (decrypt cr a (take (aead_key_size a) session_key) (nonce_from_u64 n) buf))"

definition ss_server_read_chunk :: "ss_crates \<Rightarrow> Method \<Rightarrow> bytes \<Rightarrow> u64 \<Rightarrow> (bytes \<times> u64) proc" where
  "ss_server_read_chunk cr m session_key n =
     Read (2 + TAG_LEN) (\<lambda>len_buf.
       proc_bind (of_result (ss_server_open cr m session_key n ''length'' len_buf)) (\<lambda>len_pt.
         (let len = unat (u16_of_be (take 2 len_pt))
          in ensure (0 < len \<and> len \<le> MAX_PAYLOAD) (''invalid chunk length: '' @ show_nat len) (
             Read (len + TAG_LEN) (\<lambda>payload_buf.
               proc_bind (of_result (ss_server_open cr m session_key (n + 1) ''payload'' payload_buf)) (\<lambda>pt.
                 Ret (take len pt, n + 2)))))))"

definition ss_read_target :: "Target proc" where
  "ss_read_target =
     read_u8 (\<lambda>atyp.
       if atyp = 0x01 then
         Read 4 (\<lambda>ip. read_u16 (\<lambda>port. Ret (Socket \<lparr>sa_ip = V4 (ipv4_of_bytes ip), sa_port = port\<rparr>)))
       else if atyp = 0x03 then
         read_u8 (\<lambda>dlen. Read (unat dlen) (\<lambda>domain. read_u16 (\<lambda>port.
           case from_utf8 domain of None \<Rightarrow> Err ''invalid utf-8 sequence'' | Some d \<Rightarrow> Ret (Domain d port))))
       else if atyp = 0x04 then
         Read 16 (\<lambda>ip. read_u16 (\<lambda>port. Ret (Socket \<lparr>sa_ip = V6 (ipv6_of_bytes ip), sa_port = port\<rparr>)))
       else Err (''shadowsocks: unknown atyp 0x'' @ hex02 atyp))"

text \<open>The address is read from a buffer with the same program.\<close>

definition ss_target_from_cursor :: "bytes \<Rightarrow> string + Target" where
  "ss_target_from_cursor payload = fst (run ss_read_target payload)"

definition ss_handle_conn :: "ss_crates \<Rightarrow> bytes \<Rightarrow> Method \<Rightarrow> Target proc" where
  "ss_handle_conn cr key m =
     (if key_len m = 0 then ss_read_target
      else Read (key_len m) (\<lambda>salt.
        (let session_key = (if is_2022 m then derive_2022_session_key cr key salt (key_len m)
                            else hkdf_sha1 cr key salt (key_len m))
         in proc_bind (ss_server_read_chunk cr m session_key 0) (\<lambda>(first_payload, _).
              of_result (ss_target_from_cursor first_payload)))))"

text \<open>Reading from and writing to the server's end of a connection fails.\<close>

definition server_stream_read :: "string + bytes" where
  "server_stream_read = Inl ''SsServerStream: async decrypt not fully implemented; use direct relay''"

definition server_stream_write :: "bytes \<Rightarrow> string + nat" where
  "server_stream_write data = Inl ''SsServerStream: async encrypt not fully implemented''"

section \<open>UDP\<close>

definition ss_udp_wire :: "ss_crates \<Rightarrow> ShadowsocksOutbound \<Rightarrow> bytes \<Rightarrow> Target \<Rightarrow> bytes \<Rightarrow> string + bytes" where
  "ss_udp_wire cr ob salt target data =
     (let addr_payload = encode_target target @ data; m = sso_method ob
      in if m = MNone then Inr addr_payload
         else res_bind (ac_seal cr (AeadCipher_new m (derive_subkey cr m (sso_key_material ob) salt)) addr_payload)
                (\<lambda>(pkt, _). Inr (salt @ pkt)))"

text \<open>What is delivered of the datagrams that arrive, up to the first one that is too short.\<close>

fun ss_udp_replies :: "Method \<Rightarrow> bytes list \<Rightarrow> bytes list" where
  "ss_udp_replies m [] = []"
| "ss_udp_replies m (d # ds) = (if salt_len m + TAG_LEN < length d then drop (salt_len m) d # ss_udp_replies m ds else [])"

section \<open>The cipher is inverse to itself\<close>

lemma evp_loop_ends:
  assumes "\<And>x. length (h x) = 16"
  shows "\<exists>k. evp_loop h password n prev key = Some k \<and> length k = n"
proof (induction "n - length key" arbitrary: prev key rule: less_induct)
  case less
  show ?case
  proof (cases "length key < n")
    case True
    have "n - length (key @ h (prev @ password)) < n - length key" using True assms by simp
    from less [OF this] True show ?thesis by (simp add: evp_loop.simps [of h password n prev])
  qed (simp add: evp_loop.simps)
qed

lemma evp_ends: "ss_laws cr \<Longrightarrow> \<exists>k. evp_bytes_to_key cr password n = Some k \<and> length k = n"
  by (simp add: evp_bytes_to_key_def ss_laws_def evp_loop_ends)

definition cipher_ok :: "AeadCipher \<Rightarrow> bool" where
  "cipher_ok c \<longleftrightarrow> ac_method c \<noteq> MNone \<and> length (ac_subkey c) = key_len (ac_method c)"

definition advanced :: "AeadCipher \<Rightarrow> AeadCipher" where
  "advanced c = c\<lparr>ac_counter := ac_counter c + 1\<rparr>"

definition sealed :: "ss_crates \<Rightarrow> AeadCipher \<Rightarrow> bytes \<Rightarrow> bytes" where
  "sealed cr c pt =
     (let r = encrypt_detached cr (the (aead_of (ac_method c))) (ac_subkey c) (ac_nonce c) pt in fst r @ snd r)"

lemma aead_of_Some: "m \<noteq> MNone \<Longrightarrow> \<exists>a. aead_of m = Some a \<and> aead_key_size a = key_len m"
  by (cases m) auto

lemma cipher_ok_advanced [simp]: "cipher_ok (advanced c) = cipher_ok c"
  by (simp add: cipher_ok_def advanced_def)

lemma advanced_fields [simp]:
  "ac_method (advanced c) = ac_method c" "ac_subkey (advanced c) = ac_subkey c" "ac_counter (advanced c) = ac_counter c + 1"
  by (simp_all add: advanced_def)

named_theorems ss_cipher

lemma cipher_inverse [ss_cipher]:
  assumes "ss_laws cr" "cipher_ok c"
  shows "ac_seal cr c pt = Inr (sealed cr c pt, advanced c)" "length (sealed cr c pt) = length pt + 16"
    "ac_open cr c (sealed cr c pt) = Inr (pt, advanced c)" "open_inner cr c (sealed cr c pt) (ac_nonce c) = Inr pt"
proof -
  obtain a where a: "aead_of (ac_method c) = Some a" "aead_key_size a = key_len (ac_method c)"
    using aead_of_Some assms(2) by (auto simp: cipher_ok_def)
  let ?r = "encrypt_detached cr a (ac_subkey c) (ac_nonce c) pt"
  have l: "length (fst ?r) = length pt" "length (snd ?r) = 16" "decrypt cr a (ac_subkey c) (ac_nonce c) (fst ?r @ snd ?r) = Some pt"
    using assms(1) by (auto simp: ss_laws_def)
  show "ac_seal cr c pt = Inr (sealed cr c pt, advanced c)" "length (sealed cr c pt) = length pt + 16"
    "open_inner cr c (sealed cr c pt) (ac_nonce c) = Inr pt"
    using a l assms(2)
    by (simp_all add: ac_seal_def seal_inner_def open_inner_def sealed_def cipher_ok_def advanced_def Let_def split: prod.split)
  then show "ac_open cr c (sealed cr c pt) = Inr (pt, advanced c)"
    using assms(2) by (simp add: ac_open_def cipher_ok_def advanced_def TAG_LEN_def)
qed

definition ss_chunk :: "ss_crates \<Rightarrow> AeadCipher \<Rightarrow> bytes \<Rightarrow> bytes" where
  "ss_chunk cr c b = sealed cr c (u16_be (word_of_nat (length b))) @ sealed cr (advanced c) b"

fun ss_chunks :: "ss_crates \<Rightarrow> AeadCipher \<Rightarrow> bytes list \<Rightarrow> bytes" where
  "ss_chunks cr c [] = []"
| "ss_chunks cr c (b # bs) = ss_chunk cr c b @ ss_chunks cr (advanced (advanced c)) bs"

lemma ss_write_chunk_eq [ss_cipher]:
  "ss_laws cr \<Longrightarrow> cipher_ok c \<Longrightarrow> ss_write_chunk cr c b = Inr (ss_chunk cr c b, advanced (advanced c))"
  by (simp add: ss_write_chunk_def ss_chunk_def ss_cipher)

lemma length_ss_chunk [ss_cipher]: "ss_laws cr \<Longrightarrow> cipher_ok c \<Longrightarrow> length (ss_chunk cr c b) = length b + 34"
  by (simp add: ss_chunk_def ss_cipher)

lemma u16_length: "length b < 65536 \<Longrightarrow> unat (word_of_nat (length b) :: u16) = length b"
  by (simp add: unat_of_nat)

lemma u16_of_be_take [simp]: "u16_of_be (take 2 (u16_be w)) = w"
  by simp

lemma ss_read_chunk_reads:
  assumes "ss_laws cr" "cipher_ok c" "length b < 65536"
  shows "reads (ss_read_chunk cr c) (ss_chunk cr c b) (b, advanced (advanced c))"
proof -
  have "reads (Read (length b + 16) (\<lambda>buf. of_result (ac_open cr (advanced c) buf))) (sealed cr (advanced c) b @ []) (b, advanced (advanced c))"
    using assms by (subst reads_Read_iff) (simp_all add: ss_cipher talk)
  then show ?thesis
    using assms unfolding ss_read_chunk_def ss_chunk_def TAG_LEN_def
    by (subst reads_Read_iff) (simp_all add: ss_cipher u16_length)
qed

text \<open>What the upload of the outbound writes is read back block by block.\<close>

lemma ss_upload_eq: "ss_laws cr \<Longrightarrow> cipher_ok c \<Longrightarrow> ss_upload cr c bs = ss_chunks cr c bs"
  by (induction bs arbitrary: c) (simp_all add: ss_cipher)

lemma ss_download_upload:
  assumes "ss_laws cr" "cipher_ok c" "\<forall>b \<in> set bs. length b < 65536"
  shows "ss_download cr c (ss_upload cr c bs) = bs"
  unfolding ss_upload_eq [OF assms(1,2)] using assms
proof (induction bs arbitrary: c)
  case Nil
  then show ?case by (simp add: ss_download.simps ss_read_chunk_def TAG_LEN_def)
next
  case (Cons b bs)
  have "run (ss_read_chunk cr c) (ss_chunks cr c (b # bs)) = (Inr (b, advanced (advanced c)), [], ss_chunks cr (advanced (advanced c)) bs)"
    using reads_run [OF ss_read_chunk_reads [OF Cons.prems(1,2)]] Cons.prems(3) by simp
  then show ?case using Cons.IH [of "advanced (advanced c)"] Cons.prems by (subst ss_download.simps) simp
qed

section \<open>The adapter is a source of bytes\<close>

lemma sx_frame_complete:
  assumes "ss_laws cr" "cipher_ok c" "length b < 65536"
  shows "sx_frame cr c (ss_chunk cr c b @ rest) = Some (Inr (b, advanced (advanced c), rest))"
  using assms by (simp add: sx_frame_def ss_chunk_def ss_cipher TAG_LEN_def u16_length)

lemma sx_frame_partial:
  assumes "ss_laws cr" "cipher_ok c" "length b < 65536" "raw @ later = ss_chunk cr c b @ rest" "length raw < length (ss_chunk cr c b)"
  shows "sx_frame cr c raw = None"
proof (cases "length raw < 18")
  case False
  have "take 18 raw = take 18 (raw @ later)" using False by simp
  also have "\<dots> = sealed cr c (u16_be (word_of_nat (length b)))" using assms(1,2) by (simp add: assms(4) ss_chunk_def ss_cipher)
  finally have "take 18 raw = sealed cr c (u16_be (word_of_nat (length b)))" .
  then show ?thesis using assms False by (simp add: sx_frame_def TAG_LEN_def ss_cipher u16_length)
qed (simp add: sx_frame_def TAG_LEN_def)

definition blocks_ok :: "bytes list \<Rightarrow> bool" where
  "blocks_ok bs \<longleftrightarrow> (\<forall>b \<in> set bs. b \<noteq> [] \<and> length b < 65536)"

lemma sx_frame_Nil: "sx_frame cr c [] = None"
  by (simp add: sx_frame_def)

lemma sx_fill_next:
  assumes "ss_laws cr" "cipher_ok (sx_dec st)" "blocks_ok (b # bs)" "segs_ok (sx_inner st)"
    and "sx_raw_buf st @ concat (sx_inner st) = ss_chunks cr (sx_dec st) (b # bs)"
  shows "\<exists>inn raw. sx_fill cr st = Inr (st\<lparr>sx_inner := inn, sx_dec := advanced (advanced (sx_dec st)), sx_raw_buf := raw, sx_read_buf := b\<rparr>)
     \<and> raw @ concat inn = ss_chunks cr (advanced (advanced (sx_dec st))) bs \<and> segs_ok inn"
  using assms
proof (induction cr st rule: sx_fill.induct)
  case (1 cr st)
  let ?c = "sx_dec st" and ?raw = "sx_raw_buf st"
  have len: "length b < 65536" using "1.prems"(3) by (simp add: blocks_ok_def)
  have eq: "?raw @ concat (sx_inner st) = ss_chunk cr ?c b @ ss_chunks cr (advanced (advanced ?c)) bs" using "1.prems"(5) by simp
  show ?case
  proof (cases "length ?raw < length (ss_chunk cr ?c b)")
    case True
    have none: "sx_frame cr ?c ?raw = None" by (rule sx_frame_partial [OF "1.prems"(1,2) len eq True])
    obtain got inn where sr: "seg_read 4096 (sx_inner st) = (got, inn)" by (cases "seg_read 4096 (sx_inner st)")
    note nxt = seg_read_next [OF "1.prems"(4) _ sr]
    have "sx_inner st \<noteq> []" using eq True by (auto dest: arg_cong [where f = length])
    then have ne: "got \<noteq> []" using nxt(3) by auto
    let ?st = "st\<lparr>sx_inner := inn, sx_raw_buf := ?raw @ got\<rparr>"
    have "\<exists>inn' raw'. sx_fill cr ?st = Inr (?st\<lparr>sx_inner := inn', sx_dec := advanced (advanced ?c), sx_raw_buf := raw', sx_read_buf := b\<rparr>)
       \<and> raw' @ concat inn' = ss_chunks cr (advanced (advanced ?c)) bs \<and> segs_ok inn'"
      using "1.IH" [OF none sr [symmetric] ne] "1.prems" nxt(1,2) by simp
    then show ?thesis using none sr ne by (simp add: sx_fill.simps [of cr st])
  next
    case False
    obtain us where us: "?raw = ss_chunk cr ?c b @ us \<and> us @ concat (sx_inner st) = ss_chunks cr (advanced (advanced ?c)) bs
        \<or> ?raw @ us = ss_chunk cr ?c b \<and> concat (sx_inner st) = us @ ss_chunks cr (advanced (advanced ?c)) bs"
      using eq unfolding append_eq_append_conv2 by blast
    have "us = []" if "?raw @ us = ss_chunk cr ?c b" using False arg_cong [OF that, of length] by (cases us) simp_all
    with us obtain raw where raw: "?raw = ss_chunk cr ?c b @ raw" "raw @ concat (sx_inner st) = ss_chunks cr (advanced (advanced ?c)) bs"
      by fastforce
    have "sx_frame cr ?c ?raw = Some (Inr (b, advanced (advanced ?c), raw))"
      unfolding raw(1) by (rule sx_frame_complete [OF "1.prems"(1,2) len])
    then have "sx_fill cr st = Inr (st\<lparr>sx_inner := sx_inner st, sx_dec := advanced (advanced ?c), sx_raw_buf := raw, sx_read_buf := b\<rparr>)"
      by (simp add: sx_fill.simps [of cr st])
    then show ?thesis using raw(2) "1.prems"(4) by blast
  qed
qed

text \<open>The plaintext of the complete chunks of a byte string.\<close>

function open_all :: "ss_crates \<Rightarrow> AeadCipher \<Rightarrow> bytes \<Rightarrow> bytes" where
  "open_all cr c raw = (case sx_frame cr c raw of Some (Inr (pt, c', raw')) \<Rightarrow> pt @ open_all cr c' raw' | _ \<Rightarrow> [])"
  by pat_completeness auto
termination
  by (relation "measure (\<lambda>(cr, c, raw). length raw)")
    (auto simp: sx_frame_def Let_def TAG_LEN_def res_bind_Inr_iff split: if_splits sum.splits)

declare open_all.simps [simp del]

lemma open_all_chunks:
  "ss_laws cr \<Longrightarrow> cipher_ok c \<Longrightarrow> blocks_ok bs \<Longrightarrow> open_all cr c (ss_chunks cr c bs) = concat bs"
proof (induction bs arbitrary: c)
  case Nil
  then show ?case by (simp add: open_all.simps sx_frame_Nil)
next
  case (Cons b bs)
  then show ?case by (simp add: open_all.simps [of cr c "ss_chunk cr c b @ rest" for rest] sx_frame_complete blocks_ok_def)
qed

text \<open>The stream as the relay reads it: an error ends the copy like the end of the stream.\<close>

definition sx_reader :: "ss_crates \<Rightarrow> SsXhttpStream \<Rightarrow> bytes \<times> SsXhttpStream" where
  "sx_reader cr st = (case sx_poll_read cr BUF_SIZE st of Inl _ \<Rightarrow> ([], st) | Inr r \<Rightarrow> r)"

definition sx_remaining :: "ss_crates \<Rightarrow> SsXhttpStream \<Rightarrow> bytes" where
  "sx_remaining cr st = sx_read_buf st @ open_all cr (sx_dec st) (sx_raw_buf st @ concat (sx_inner st))"

definition sx_wf :: "ss_crates \<Rightarrow> SsXhttpStream \<Rightarrow> bool" where
  "sx_wf cr st \<longleftrightarrow> ss_laws cr \<and> cipher_ok (sx_dec st) \<and> segs_ok (sx_inner st)
     \<and> (\<exists>bs. blocks_ok bs \<and> sx_raw_buf st @ concat (sx_inner st) = ss_chunks cr (sx_dec st) bs)"

lemma sx_read_cases:
  assumes "sx_wf cr st" "sx_reader cr st = (buf, st')"
  shows "buf @ sx_remaining cr st' = sx_remaining cr st \<and> sx_wf cr st' \<and> (buf = [] \<longrightarrow> sx_remaining cr st = [])"
proof (cases "sx_read_buf st = []")
  case False
  have "0 < BUF_SIZE" by (simp add: BUF_SIZE_def)
  with False assms show ?thesis by (auto simp: sx_reader_def sx_poll_read_def sx_remaining_def sx_wf_def)
next
  case True
  from assms(1) obtain bs where bs: "blocks_ok bs" "sx_raw_buf st @ concat (sx_inner st) = ss_chunks cr (sx_dec st) bs"
    and wf: "ss_laws cr" "cipher_ok (sx_dec st)" "segs_ok (sx_inner st)"
    by (auto simp: sx_wf_def)
  have rem: "sx_remaining cr st = concat bs" using open_all_chunks [OF wf(1,2) bs(1)] bs(2) True by (simp add: sx_remaining_def)
  show ?thesis
  proof (cases bs)
    case Nil
    then have "sx_raw_buf st = []" "sx_inner st = []" using bs(2) wf(3) by (auto simp: segs_ok_def split: list.splits) (metis list.set_intros(1) neq_Nil_conv)
    then have "sx_fill cr st = Inr (st\<lparr>sx_inner := []\<rparr>)" by (simp add: sx_fill.simps [of cr st] sx_frame_Nil seg_read_def)
    then have "buf = []" "st' = st" using assms(2) True \<open>sx_inner st = []\<close> by (auto simp: sx_reader_def sx_poll_read_def)
    then show ?thesis using rem Nil assms(1) by simp
  next
    case (Cons b bs')
    then obtain inn raw where f: "sx_fill cr st = Inr (st\<lparr>sx_inner := inn, sx_dec := advanced (advanced (sx_dec st)), sx_raw_buf := raw, sx_read_buf := b\<rparr>)"
      and r: "raw @ concat inn = ss_chunks cr (advanced (advanced (sx_dec st))) bs'" "segs_ok inn"
      using sx_fill_next [OF wf(1,2) _ wf(3)] bs by blast
    have b: "b \<noteq> []" "blocks_ok bs'" using bs(1) Cons by (auto simp: blocks_ok_def)
    have st': "buf = take BUF_SIZE b" "st' = st\<lparr>sx_inner := inn, sx_dec := advanced (advanced (sx_dec st)), sx_raw_buf := raw, sx_read_buf := drop BUF_SIZE b\<rparr>"
      using assms(2) f True by (simp_all add: sx_reader_def sx_poll_read_def)
    have "sx_remaining cr st' = drop BUF_SIZE b @ concat bs'"
      using open_all_chunks [of cr "advanced (advanced (sx_dec st))" bs'] wf b(2) r(1) by (simp add: sx_remaining_def st')
    moreover have "sx_wf cr st'" using wf b(2) r by (auto simp: sx_wf_def st')
    moreover have "buf \<noteq> []" using b(1) by (simp add: st' BUF_SIZE_def)
    ultimately show ?thesis by (simp add: rem Cons st')
  qed
qed

interpretation ss_source: byte_source "sx_reader cr" "sx_remaining cr" "sx_wf cr" for cr
  by unfold_locales (auto dest: sx_read_cases)

section \<open>Requests and streams\<close>

interpretation ss_address: stream_codec encode_target ss_read_target sendable
proof
  fix t
  assume "sendable t"
  then show "reads ss_read_target (encode_target t) t"
    by (auto simp: ss_read_target_def encode_target_def sendable_def talk from_utf8_as_bytes
      split: Target.splits IpAddr.splits)
qed

lemma length_encode_target: "sendable t \<Longrightarrow> 0 < length (encode_target t) \<and> length (encode_target t) \<le> 259"
  by (auto simp: encode_target_def sendable_def octets4_def octets6_def split: Target.splits IpAddr.splits)

lemma ss_server_open_sealed:
  assumes "ss_laws cr" "cipher_ok c"
  shows "ss_server_open cr (ac_method c) (ac_subkey c) (ac_counter c) what (sealed cr c pt) = Inr pt"
proof -
  obtain a where a: "aead_of (ac_method c) = Some a" "aead_key_size a = key_len (ac_method c)"
    using aead_of_Some assms(2) by (auto simp: cipher_ok_def)
  have "decrypt cr a (ac_subkey c) (ac_nonce c) (sealed cr c pt) = Some pt"
    using assms(1) a by (auto simp: ss_laws_def sealed_def Let_def)
  then show ?thesis using a assms(2) by (simp add: ss_server_open_def ac_nonce_def cipher_ok_def)
qed

lemma ss_server_read_chunk_reads:
  assumes "ss_laws cr" "cipher_ok c" "0 < length b" "length b \<le> MAX_PAYLOAD"
  shows "reads (ss_server_read_chunk cr (ac_method c) (ac_subkey c) (ac_counter c)) (ss_chunk cr c b) (b, ac_counter c + 2)"
proof -
  have u: "unat (word_of_nat (length b) :: u16) = length b" using assms(4) by (intro u16_length) (simp add: MAX_PAYLOAD_def)
  have o1: "ss_server_open cr (ac_method c) (ac_subkey c) (ac_counter c) w (sealed cr c pt) = Inr pt" for w pt
    by (rule ss_server_open_sealed [OF assms(1,2)])
  have o2: "ss_server_open cr (ac_method c) (ac_subkey c) (ac_counter c + 1) w (sealed cr (advanced c) pt) = Inr pt" for w pt
    using ss_server_open_sealed [of cr "advanced c" w pt] assms(1,2) by simp
  have "reads (Read (length b + 16) (\<lambda>buf. proc_bind (of_result (ss_server_open cr (ac_method c) (ac_subkey c) (ac_counter c + 1) ''payload'' buf))
      (\<lambda>pt. Ret (take (length b) pt, ac_counter c + 2)))) (sealed cr (advanced c) b @ []) (b, ac_counter c + 2)"
    using assms by (subst reads_Read_iff) (simp_all add: ss_cipher talk o2)
  then show ?thesis
    using assms unfolding ss_server_read_chunk_def ss_chunk_def TAG_LEN_def
    by (subst reads_Read_iff) (simp_all add: ss_cipher o1 u Let_def)
qed

lemma ShadowsocksOutbound_new_key:
  assumes "ShadowsocksOutbound_new cr cfg = Some (Inr ob)" "\<not> is_2022 (sso_method ob)"
  shows "ss_derive_key cr (ss_password cfg) (sso_method ob) = Some (Inr (sso_key_material ob))"
proof -
  obtain m where m: "method_from_str (ss_method cfg) = Inr m"
    using assms(1) by (auto simp: ShadowsocksOutbound_new_def split: sum.splits)
  have k: "key_len m = 0 \<longleftrightarrow> m = MNone" by (cases m) auto
  have "sso_method ob = m" using assms(1) m by (auto simp: ShadowsocksOutbound_new_def res_bind_Inr_iff)
  then show ?thesis using assms m k by (cases ob) (auto simp: ShadowsocksOutbound_new_def ss_derive_key_def split: if_splits)
qed

text \<open>
  C31. With a classic method (or none; the 2022 methods are excluded, where the two ends derive different keys) the inbound
  understands the outbound: whenever the outbound is configured with the password of the inbound, its request for any
  target that fits the header is sent, whatever the salt, and the inbound takes from it exactly this target and leaves the
  bytes that follow. Nothing is said of a request sealed with another key.
\<close>

theorem ss_request_accepted:
  assumes "ss_laws cr" "ShadowsocksOutbound_new cr cfg = Some (Inr ob)" "\<not> is_2022 (sso_method ob)"
    and "ss_derive_key cr (ss_password cfg) (sso_method ob) = Some (Inr key)"
    and "sendable t" "length salt = salt_len (sso_method ob)"
  shows "\<exists>out enc dec. connect_ss cr ob salt t = Inr (out, enc, dec)
     \<and> run (ss_handle_conn cr key (sso_method ob)) (out @ rest) = (Inr t, [], rest)"
proof -
  let ?m = "sso_method ob"
  have key: "key = sso_key_material ob" using ShadowsocksOutbound_new_key [OF assms(2,3)] assms(4) by simp
  have zero: "key_len ?m = 0 \<longleftrightarrow> ?m = MNone" by (cases ?m) auto
  show ?thesis
  proof (cases "?m = MNone")
    case True
    then show ?thesis using ss_address.decodes [OF assms(5), of rest] by (simp add: connect_ss_def ss_connect_def ss_handle_conn_def)
  next
    case False
    let ?c = "AeadCipher_new ?m (hkdf_sha1 cr key salt (key_len ?m))"
    have "key_len ?m \<le> 255 * 20" by (cases ?m) simp_all
    then have ok: "cipher_ok ?c" using assms(1) False by (simp add: cipher_ok_def AeadCipher_new_def hkdf_sha1_def ss_laws_def)
    have sent: "connect_ss cr ob salt t = Inr (salt @ ss_chunk cr ?c (encode_target t), advanced (advanced ?c), ?c)"
      using False assms(3) ss_write_chunk_eq [OF assms(1) ok] by (simp add: connect_ss_def ss_connect_def derive_subkey_def key Let_def)
    have chunk: "reads (ss_server_read_chunk cr ?m (hkdf_sha1 cr key salt (key_len ?m)) 0) (ss_chunk cr ?c (encode_target t)) (encode_target t, 2)"
      using ss_server_read_chunk_reads [OF assms(1) ok, of "encode_target t"] length_encode_target [OF assms(5)]
      by (simp add: AeadCipher_new_def MAX_PAYLOAD_def)
    have "ss_target_from_cursor (encode_target t) = Inr t"
      using ss_address.decodes [OF assms(5), of "[]"] by (simp add: ss_target_from_cursor_def)
    then have "reads (proc_bind (ss_server_read_chunk cr ?m (hkdf_sha1 cr key salt (key_len ?m)) 0)
        (\<lambda>(first_payload, _). of_result (ss_target_from_cursor first_payload))) (ss_chunk cr ?c (encode_target t) @ []) t"
      by (intro reads_bind [OF chunk]) (simp add: reads_Ret)
    then have "reads (ss_handle_conn cr key ?m) (salt @ ss_chunk cr ?c (encode_target t)) t"
      using assms(3,6) False zero unfolding ss_handle_conn_def by (simp add: salt_len_def reads_Read_iff Let_def)
    then show ?thesis using reads_run sent by fastforce
  qed
qed

section \<open>Streams\<close>

lemma chunks_of_payload: "blocks_ok (chunks_of MAX_PAYLOAD data)" "concat (chunks_of MAX_PAYLOAD data) = data"
  using chunks_of_spec [of MAX_PAYLOAD data] by (auto simp: blocks_ok_def MAX_PAYLOAD_def)

primrec advanced_by :: "nat \<Rightarrow> AeadCipher \<Rightarrow> AeadCipher" where
  "advanced_by 0 c = c"
| "advanced_by (Suc n) c = advanced_by n (advanced (advanced c))"

lemma seal_chunks_eq:
  "ss_laws cr \<Longrightarrow> cipher_ok c \<Longrightarrow> seal_chunks cr c bs = Inr (ss_chunks cr c bs, advanced_by (length bs) c)"
  by (induction bs arbitrary: c) (simp_all add: ss_cipher ss_chunk_def)

lemma cipher_ok_advanced_by [simp]: "cipher_ok (advanced_by n c) = cipher_ok c"
  by (induction n arbitrary: c) simp_all

lemma ss_chunks_append: "ss_chunks cr c (xs @ ys) = ss_chunks cr c xs @ ss_chunks cr (advanced_by (length xs) c) ys"
  by (induction xs arbitrary: c) simp_all

text \<open>Several writes to a transport that takes everything.\<close>

fun sx_write_all :: "ss_crates \<Rightarrow> bytes list \<Rightarrow> SsXhttpStream \<Rightarrow> string + bytes \<times> SsXhttpStream" where
  "sx_write_all cr [] st = Inr ([], st)"
| "sx_write_all cr (d # ds) st =
     (case sx_poll_write cr (\<lambda>n. n) d st of
        (Inl e, st) \<Rightarrow> Inl e
      | (Inr (n, out), st) \<Rightarrow> res_bind (sx_write_all cr ds st) (\<lambda>(out', st). Inr (out @ out', st)))"

lemma sx_write_all_eq:
  assumes "ss_laws cr" "cipher_ok (sx_enc st)" "sx_salt st = []"
  shows "\<exists>st'. sx_write_all cr ds st = Inr (ss_chunks cr (sx_enc st) (concat (map (chunks_of MAX_PAYLOAD) ds)), st')"
  using assms
proof (induction ds arbitrary: st)
  case (Cons d ds)
  let ?bs = "chunks_of MAX_PAYLOAD d"
  let ?st = "st\<lparr>sx_salt_sent := True, sx_enc := advanced_by (length ?bs) (sx_enc st)\<rparr>"
  have "sx_poll_write cr (\<lambda>n. n) d st = (Inr (length d, ss_chunks cr (sx_enc st) ?bs), ?st)"
    using Cons.prems by (simp add: sx_poll_write_def seal_chunks_eq Let_def)
  moreover obtain st' where "sx_write_all cr ds ?st = Inr (ss_chunks cr (sx_enc ?st) (concat (map (chunks_of MAX_PAYLOAD) ds)), st')"
    using Cons.IH [of ?st] Cons.prems by auto
  ultimately show ?case by (auto simp: ss_chunks_append)
qed simp

text \<open>
  C32. What one end of an encrypted stream writes the other end reads: whatever the sizes of the writes and however the
  transport cuts the bytes, the relay of the reading end delivers all the data, in order and once, and then ends.
\<close>

theorem ss_stream_roundtrip:
  assumes "ss_laws cr" "cipher_ok c" "segs_ok segs" "\<And>w buf. writer w buf = Some (w @ buf)"
    and "sx_write_all cr ds (SsXhttpStream_new inn c c' []) = Inr (concat segs, st')"
  shows "\<exists>s. copy_half (sx_reader cr) writer (SsXhttpStream_new segs e c salt) w 0
     = Some (word_of_nat (length (concat ds)), s, w @ concat ds)"
proof -
  let ?bs = "concat (map (chunks_of MAX_PAYLOAD) ds)" and ?st = "SsXhttpStream_new segs e c salt"
  have ok: "blocks_ok ?bs" using chunks_of_payload(1) by (fastforce simp: blocks_ok_def)
  have all: "concat ?bs = concat ds"
    by (induction ds) (simp_all add: chunks_of_payload(2))
  have wire: "concat segs = ss_chunks cr c ?bs"
    using sx_write_all_eq [of cr "SsXhttpStream_new inn c c' []" ds] assms(1,2,5) by (auto simp: SsXhttpStream_new_def)
  have "sx_wf cr ?st" using assms(1-3) ok wire by (auto simp: sx_wf_def SsXhttpStream_new_def)
  moreover have "sx_remaining cr ?st = concat ds"
    using open_all_chunks [OF assms(1,2) ok] wire all by (simp add: sx_remaining_def SsXhttpStream_new_def)
  ultimately show ?thesis using ss_source.copy_half_complete [of cr ?st writer w 0] assms(4) by simp
qed

section \<open>A concrete instance\<close>

text \<open>Crates that satisfy the laws: a stream of zeros as the key stream and a constant tag.\<close>

definition demo_crates :: ss_crates where
  "demo_crates =
     \<lparr>md5 = (\<lambda>x. replicate 16 (word_of_nat (length x))), hkdf_expand = (\<lambda>k s n. replicate n (word_of_nat (length k))),
      blake3_hash = (\<lambda>_. replicate 32 0), blake3_keyed_hash = (\<lambda>_ _. replicate 32 0), blake3_derive = (\<lambda>_. replicate 32 0),
      b64_decode = (\<lambda>_. Inl []), encrypt_detached = (\<lambda>a k n pt. (pt, replicate 16 7)),
      decrypt = (\<lambda>a k n buf. if drop (length buf - 16) buf = replicate 16 7 then Some (take (length buf - 16) buf) else None)\<rparr>"

lemma demo_laws: "ss_laws demo_crates"
  by (simp add: ss_laws_def demo_crates_def)

definition demo_ss_config :: ShadowsocksOutboundConfig where
  "demo_ss_config = \<lparr>ss_tag = ''ss'', ss_server = ''s'', ss_server_port = 8388, ss_method = ''AES-128-GCM'', ss_password = ''pw'',
     ss_plugin = None, ss_plugin_opts = None, ss_transport = None, ss_tls = None, ss_detour = None\<rparr>"

definition demo_ob :: ShadowsocksOutbound where
  "demo_ob = \<lparr>sso_config = demo_ss_config, sso_method = MAes128Gcm, sso_key_material = replicate 16 2, sso_routing_mark = 0\<rparr>"

lemma demo_evp: "evp_bytes_to_key demo_crates (as_bytes ''pw'') 16 = Some (replicate 16 2)"
  by (simp add: evp_bytes_to_key_def demo_crates_def evp_loop.simps [of _ _ _ "[]" "[]"] evp_loop.simps [of _ _ _ "replicate 16 2"])

lemma demo_method: "method_from_str (ss_method demo_ss_config) = Inr MAes128Gcm"
  by code_simp

lemma demo_new: "ShadowsocksOutbound_new demo_crates demo_ss_config = Some (Inr demo_ob)"
proof -
  have "ss_password demo_ss_config = ''pw''" by (simp add: demo_ss_config_def)
  then show ?thesis using demo_evp by (simp add: ShadowsocksOutbound_new_def demo_method demo_ob_def)
qed

theorem ss_request_accepted_witness:
  "\<exists>out enc dec. connect_ss demo_crates demo_ob (replicate 16 9) (Domain ''a.b'' 443) = Inr (out, enc, dec)
     \<and> run (ss_handle_conn demo_crates (replicate 16 2) MAes128Gcm) (out @ [1, 2]) = (Inr (Domain ''a.b'' 443), [], [1, 2])"
proof -
  have m: "sso_method demo_ob = MAes128Gcm" by (simp add: demo_ob_def)
  have k: "ss_derive_key demo_crates (ss_password demo_ss_config) (sso_method demo_ob) = Some (Inr (replicate 16 2))"
    using demo_evp by (simp add: ss_derive_key_def m demo_ss_config_def)
  have s: "sendable (Domain ''a.b'' 443)" by (simp add: sendable_def str_ok_ascii ascii_def code_def)
  from ss_request_accepted [OF demo_laws demo_new _ k s, of "replicate 16 9" "[1, 2]"] show ?thesis
    by (simp add: m salt_len_def)
qed

definition demo_cipher :: AeadCipher where
  "demo_cipher = AeadCipher_new MAes128Gcm (replicate 16 2)"

theorem ss_stream_roundtrip_witness:
  "\<exists>s. copy_half (sx_reader demo_crates) (\<lambda>w b. Some (w @ b)) (SsXhttpStream_new
       [[0, 2], replicate 16 7 @ [5], [6] @ replicate 16 7 @ [0, 1], replicate 16 7 @ [8] @ replicate 16 7] demo_cipher demo_cipher [])
     [] 0 = Some (3, s, [5, 6, 8])"
proof -
  have c: "cipher_ok demo_cipher" by (simp add: cipher_ok_def demo_cipher_def AeadCipher_new_def)
  let ?segs = "[[0, 2], replicate 16 7 @ [5], [6] @ replicate 16 7 @ [0, 1], replicate 16 7 @ [8] @ replicate 16 7] :: bytes list"
  have g: "segs_ok ?segs" by (simp add: segs_ok_def)
  have "map_sum id fst (sx_write_all demo_crates [[5, 6], [8]] (SsXhttpStream_new [] demo_cipher demo_cipher [])) = Inr (concat ?segs)"
    by code_simp
  then obtain st where w: "sx_write_all demo_crates [[5, 6], [8]] (SsXhttpStream_new [] demo_cipher demo_cipher []) = Inr (concat ?segs, st)"
    by (cases "sx_write_all demo_crates [[5, 6], [8]] (SsXhttpStream_new [] demo_cipher demo_cipher [])") auto
  from ss_stream_roundtrip [OF demo_laws c g _ w, of "\<lambda>w b. Some (w @ b)" demo_cipher "[]" "[]"] show ?thesis by simp
qed

section \<open>Observations\<close>

text \<open>
  The replies to UDP datagrams are handed to the client as they arrive, without decryption: a reply sealed by the server
  is delivered with its tag. The server's end of a TCP connection neither reads nor writes.
\<close>

lemma ss_udp_reply_not_opened:
  "length salt = salt_len m \<Longrightarrow> 16 < length ct \<Longrightarrow> ss_udp_replies m [salt @ ct] = [ct]"
  by (simp add: TAG_LEN_def)

lemma ss_server_stream_fails: "\<exists>e. server_stream_read = Inl e" "\<exists>e. server_stream_write data = Inl e"
  by (simp_all add: server_stream_read_def server_stream_write_def)

end
