(* ===== verification/Hy2_Wire.thy ===== *)
theory Hy2_Wire
  imports Stream_Io Byte_Access
begin

text \<open>
  The wire formats of the Hysteria2 outbound (\<open>outbound/hy2.rs\<close>): QUIC variable-length integers, HTTP/3 frames, QPACK
  header blocks and the Huffman code of header strings. Arithmetic on machine integers wraps, as in a release build.
\<close>

section \<open>Variable-length integers\<close>

definition write_varint :: "u64 \<Rightarrow> bytes" where
  "write_varint i =
     (if i \<le> 63 then [ucast i]
      else if i \<le> 16383 then u16_be (ucast i OR 0x4000)
      else if i \<le> 1073741823 then u32_be (ucast i OR 0x80000000)
      else be_bytes 8 (unat (i OR 0xc000000000000000)))"

definition read_varint_async :: "u64 proc" where
  "read_varint_async =
     read_u8 (\<lambda>first.
       let v = ucast (first AND 0x3f) :: u64; kind = drop_bit 6 first in
       if kind = 0 then Ret v
       else if kind = 1 then read_u8 (\<lambda>b1. Ret (push_bit 8 v OR ucast b1))
       else if kind = 2 then Read 3 (\<lambda>r.
         Ret (push_bit 24 v OR push_bit 16 (ucast (r ! 0)) OR push_bit 8 (ucast (r ! 1)) OR ucast (r ! 2)))
       else Read 7 (\<lambda>r.
         Ret (push_bit 56 v OR push_bit 48 (ucast (r ! 0)) OR push_bit 40 (ucast (r ! 1)) OR push_bit 32 (ucast (r ! 2))
           OR push_bit 24 (ucast (r ! 3)) OR push_bit 16 (ucast (r ! 4)) OR push_bit 8 (ucast (r ! 5)) OR ucast (r ! 6))))"

text \<open>On a slice. The outer option is a panic of an index out of range.\<close>

definition decode_varint_slice :: "bytes \<Rightarrow> (string + u64 \<times> nat) option" where
  "decode_varint_slice buf =
     (if buf = [] then Some (Inl ''varint: empty buffer'')
      else do {
        b0 \<leftarrow> idx buf 0;
        let v = (ucast (b0 AND 0x3f) :: u64);
        let kind = drop_bit 6 b0;
        if kind = 0 then Some (Inr (v, 1))
        else if kind = 1 then
          (if length buf < 2 then Some (Inl ''varint: truncated 2-byte'')
           else do { b1 \<leftarrow> idx buf 1; Some (Inr (push_bit 8 v OR ucast b1, 2)) })
        else if kind = 2 then
          (if length buf < 4 then Some (Inl ''varint: truncated 4-byte'')
           else do {
             b1 \<leftarrow> idx buf 1; b2 \<leftarrow> idx buf 2; b3 \<leftarrow> idx buf 3;
             Some (Inr (push_bit 24 v OR push_bit 16 (ucast b1) OR push_bit 8 (ucast b2) OR ucast b3, 4)) })
        else
          (if length buf < 8 then Some (Inl ''varint: truncated 8-byte'')
           else do {
             b1 \<leftarrow> idx buf 1; b2 \<leftarrow> idx buf 2; b3 \<leftarrow> idx buf 3; b4 \<leftarrow> idx buf 4;
             b5 \<leftarrow> idx buf 5; b6 \<leftarrow> idx buf 6; b7 \<leftarrow> idx buf 7;
             Some (Inr (push_bit 56 v OR push_bit 48 (ucast b1) OR push_bit 40 (ucast b2) OR push_bit 32 (ucast b3)
               OR push_bit 24 (ucast b4) OR push_bit 16 (ucast b5) OR push_bit 8 (ucast b6) OR ucast b7, 8)) })
      })"

section \<open>HTTP/3 frames\<close>

definition write_h3_frame :: "u64 \<Rightarrow> bytes \<Rightarrow> bytes" where
  "write_h3_frame frame_type payload = write_varint frame_type @ write_varint (word_of_nat (length payload)) @ payload"

definition read_h3_frame :: "(u64 \<times> bytes) proc" where
  "read_h3_frame =
     proc_bind read_varint_async (\<lambda>frame_type.
     proc_bind read_varint_async (\<lambda>payload_len.
     ensure (payload_len \<le> 1024 * 1024) (''h3 frame too large: '' @ show_nat (unat payload_len))
       (if 0 < payload_len then Read (unat payload_len) (\<lambda>payload. Ret (frame_type, payload)) else Ret (frame_type, []))))"

section \<open>Header blocks\<close>

text \<open>The bytes after a saturated prefix: seven bits at a time, low end first.\<close>

fun put_int_rest :: "nat \<Rightarrow> bytes" where
  "put_int_rest r = (if 128 \<le> r then (word_of_nat r OR 0x80) # put_int_rest (r div 128) else [word_of_nat r])"

declare put_int_rest.simps [simp del]

definition put_literal_header :: "bytes \<Rightarrow> bytes \<Rightarrow> bytes" where
  "put_literal_header name val =
     (if length name < 7 then [0x20 OR word_of_nat (length name)] else 0x27 # put_int_rest (length name - 7)) @ name
     @ (if length val < 128 then [word_of_nat (length val)] else 0x7f # put_int_rest (length val - 127)) @ val"

text \<open>In a release build the shift takes its distance modulo 64 and the addition wraps.\<close>

fun qpack_int_loop :: "bytes \<Rightarrow> u64 \<Rightarrow> nat \<Rightarrow> nat \<Rightarrow> (u64 \<times> nat) option" where
  "qpack_int_loop [] v m i = None"
| "qpack_int_loop (b # bs) v m i =
     (let v' = v + push_bit (m mod 64) (ucast (b AND 0x7f)) in
      if b AND 0x80 = 0 then Some (v', i + 1) else qpack_int_loop bs v' (m + 7) (i + 1))"

definition qpack_read_int :: "bytes \<Rightarrow> nat \<Rightarrow> (u64 \<times> nat) option" where
  "qpack_read_int data prefix_bits =
     (case data of
        [] \<Rightarrow> None
      | b # bs \<Rightarrow>
          let msk = push_bit prefix_bits 1 - 1; first = ucast (b AND msk) in
          if first < ucast msk then Some (first, 1) else qpack_int_loop bs first 0 1)"

definition QPACK_STATIC :: "(string \<times> string) list" where
  "QPACK_STATIC =
     [('':authority'', ''''), ('':path'', ''/''), (''age'', ''0''), (''content-disposition'', ''''), (''content-length'', ''0''),
      (''cookie'', ''''), (''date'', ''''), (''etag'', ''''), (''if-modified-since'', ''''), (''if-none-match'', ''''),
      (''last-modified'', ''''), (''link'', ''''), (''location'', ''''), (''referer'', ''''), (''set-cookie'', ''''),
      ('':method'', ''CONNECT''), ('':method'', ''DELETE''), ('':method'', ''GET''), ('':method'', ''HEAD''),
      ('':method'', ''OPTIONS''), ('':method'', ''POST''), ('':method'', ''PUT''), ('':scheme'', ''http''),
      ('':scheme'', ''https''), ('':status'', ''103''), ('':status'', ''200''), ('':status'', ''304''), ('':status'', ''404''),
      ('':status'', ''503'')]"

definition qpack_static_entry :: "u64 \<Rightarrow> (string \<times> string) option" where
  "qpack_static_entry i = (if unat i < length QPACK_STATIC then Some (QPACK_STATIC ! unat i) else None)"

definition qpack_static_name :: "u64 \<Rightarrow> string option" where
  "qpack_static_name i = map_option fst (qpack_static_entry i)"

section \<open>The Huffman code\<close>

definition TABLE :: "(u32 \<times> nat) list" where
  "TABLE = [
     (0x1ff8, 13), (0x7fffd8, 23), (0xfffffe2, 28), (0xfffffe3, 28), (0xfffffe4, 28), (0xfffffe5, 28),
     (0xfffffe6, 28), (0xfffffe7, 28), (0xfffffe8, 28), (0xffffea, 24), (0x3fffffff, 30), (0xfffffe9, 28),
     (0xfffffea, 28), (0x3ffffffe, 30), (0xfffffeb, 28), (0xfffffec, 28), (0xfffffed, 28), (0xfffffee, 28),
     (0xfffffef, 28), (0xffffff0, 28), (0xffffff1, 28), (0xffffff2, 28), (0x3ffffffe, 30), (0xffffff3, 28),
     (0xffffff4, 28), (0xffffff5, 28), (0xffffff6, 28), (0xffffff7, 28), (0xffffff8, 28), (0xffffff9, 28),
     (0xffffffa, 28), (0xffffffb, 28), (0x14, 6), (0x3f8, 10), (0x3f9, 10), (0xffa, 12), (0x1ff9, 13), (0x15, 6),
     (0xf8, 8), (0x7fa, 11), (0x3fa, 10), (0x3fb, 10), (0xf9, 8), (0x7fb, 11), (0xfa, 8), (0x16, 6), (0x17, 6),
     (0x18, 6), (0x0, 5), (0x1, 5), (0x2, 5), (0x19, 6), (0x1a, 6), (0x1b, 6), (0x1c, 6), (0x1d, 6), (0x1e, 6),
     (0x1f, 6), (0x5c, 7), (0xfb, 8), (0x7ffc, 15), (0x20, 6), (0xffb, 12), (0x3fc, 10), (0x1ffa, 13), (0x21, 6),
     (0x5d, 7), (0x5e, 7), (0x5f, 7), (0x60, 7), (0x61, 7), (0x62, 7), (0x63, 7), (0x64, 7), (0x65, 7), (0x66, 7),
     (0x67, 7), (0x68, 7), (0x69, 7), (0x6a, 7), (0x6b, 7), (0x6c, 7), (0x6d, 7), (0x6e, 7), (0x6f, 7), (0x70, 7),
     (0x71, 7), (0x72, 7), (0xfc, 8), (0x73, 7), (0xfd, 8), (0x1ffb, 13), (0x7fff0, 19), (0x1ffc, 13), (0x3ffc, 14),
     (0x22, 6), (0x7ffd, 15), (0x3, 5), (0x23, 6), (0x4, 5), (0x24, 6), (0x5, 5), (0x25, 6), (0x26, 6), (0x27, 6),
     (0x6, 5), (0x74, 7), (0x75, 7), (0x28, 6), (0x29, 6), (0x2a, 6), (0x7, 5), (0x2b, 6), (0x76, 7), (0x2c, 6),
     (0x8, 5), (0x9, 5), (0x2d, 6), (0x77, 7), (0x78, 7), (0x79, 7), (0x7a, 7), (0x7b, 7), (0x7ffe, 15), (0x7fc, 11),
     (0x3ffd, 14), (0x1ffd, 13), (0xffffffc, 28), (0xfffe6, 20), (0x3fffd2, 22), (0xfffe7, 20), (0xfffe8, 20),
     (0x3fffd3, 22), (0x3fffd4, 22), (0x3fffd5, 22), (0x7fffd9, 23), (0x3fffd6, 22), (0x7fffda, 23), (0x7fffdb, 23),
     (0x7fffdc, 23), (0x7fffdd, 23), (0x7fffde, 23), (0xffffeb, 24), (0x7fffdf, 23), (0xffffec, 24), (0xffffed, 24),
     (0x3fffd7, 22), (0x7fffe0, 23), (0xffffee, 24), (0x7fffe1, 23), (0x7fffe2, 23), (0x7fffe3, 23), (0x7fffe4, 23),
     (0x1fffdc, 21), (0x3fffd8, 22), (0x7fffe5, 23), (0x3fffd9, 22), (0x7fffe6, 23), (0x7fffe7, 23), (0xffffef, 24),
     (0x3fffda, 22), (0x1fffdd, 21), (0xfffe9, 20), (0x3fffdb, 22), (0x3fffdc, 22), (0x7fffe8, 23), (0x7fffe9, 23),
     (0x1fffde, 21), (0x7fffea, 23), (0x3fffdd, 22), (0x3fffde, 22), (0xfffff0, 24), (0x1fffdf, 21), (0x3fffdf, 22),
     (0x7fffeb, 23), (0x7fffec, 23), (0x1fffe0, 21), (0x1fffe1, 21), (0x3fffe0, 22), (0x1fffe2, 21), (0x7fffed, 23),
     (0x3fffe1, 22), (0x7fffee, 23), (0x7fffef, 23), (0xfffea, 20), (0x3fffe2, 22), (0x3fffe3, 22), (0x3fffe4, 22),
     (0x7ffff0, 23), (0x3fffe5, 22), (0x3fffe6, 22), (0x7ffff1, 23), (0x3ffffe0, 26), (0x3ffffe1, 26), (0xfffeb, 20),
     (0x7fff1, 19), (0x3fffe7, 22), (0x7ffff2, 23), (0x3fffe8, 22), (0x1ffffec, 25), (0x3ffffe2, 26),
     (0x3ffffe3, 26), (0x3ffffe4, 26), (0x7ffffde, 27), (0x7ffffdf, 27), (0x3ffffe5, 26), (0xfffff1, 24),
     (0x1ffffed, 25), (0x7fff2, 19), (0x1fffe3, 21), (0x3ffffe6, 26), (0x7ffffe0, 27), (0x7ffffe1, 27),
     (0x3ffffe7, 26), (0x7ffffe2, 27), (0xfffff2, 24), (0x1fffe4, 21), (0x1fffe5, 21), (0x3ffffe8, 26),
     (0x3ffffe9, 26), (0xffffffd, 28), (0x7ffffe3, 27), (0x7ffffe4, 27), (0x7ffffe5, 27), (0xfffec, 20),
     (0xfffff3, 24), (0xfffed, 20), (0x1fffe6, 21), (0x3fffe9, 22), (0x1fffe7, 21), (0x1fffe8, 21), (0x7ffff3, 23),
     (0x3fffea, 22), (0x3fffeb, 22), (0x1ffffee, 25), (0x1ffffef, 25), (0xfffff4, 24), (0xfffff5, 24),
     (0x3ffffea, 26), (0x7ffff4, 23), (0x3ffffeb, 26), (0x7ffffe6, 27), (0x3ffffec, 26), (0x3ffffed, 26),
     (0x7ffffe7, 27), (0x7ffffe8, 27), (0x7ffffe9, 27), (0x7ffffea, 27), (0x7ffffeb, 27), (0xffffffe, 28),
     (0x7ffffec, 27), (0x7ffffed, 27), (0x7ffffee, 27), (0x7ffffef, 27), (0x7fffff0, 27), (0x3ffffee, 26),
     (0x3fffffff, 30)]"

text \<open>
  The next bits, high end first, with the number of bits fetched. The window takes at most 30 bits, so it fits 64 bits.
\<close>

fun fetch_window :: "bytes \<Rightarrow> nat \<Rightarrow> nat \<Rightarrow> nat \<Rightarrow> u64 \<Rightarrow> u64 \<times> nat" where
  "fetch_window data 0 bp fetched window = (window, fetched)"
| "fetch_window data (Suc k) bp fetched window =
     (if bp < length data * 8 then
        fetch_window data k (bp + 1) (fetched + 1)
          (push_bit 1 window OR ucast (drop_bit (7 - bp mod 8) (data ! (bp div 8)) AND 1))
      else (window, fetched))"

definition table_find :: "u32 \<Rightarrow> nat \<Rightarrow> nat option" where
  "table_find candidate len =
     map_option fst (find (\<lambda>(smb, cd, cd_len). cd_len = len \<and> cd = candidate) (List.enumerate 0 TABLE))"

fun huffman_match :: "nat \<Rightarrow> u64 \<Rightarrow> nat \<Rightarrow> nat list \<Rightarrow> (nat \<times> nat) option" where
  "huffman_match try_bits window fetched [] = None"
| "huffman_match try_bits window fetched (len # lens) =
     (if try_bits < len then None
      else (case table_find (ucast (drop_bit (fetched - len) window)) len of
          Some smb \<Rightarrow> Some (smb, len)
        | None \<Rightarrow> huffman_match try_bits window fetched lens))"

lemma huffman_match_len: "huffman_match tb w f lens = Some (smb, len) \<Longrightarrow> len \<in> set lens \<and> len \<le> tb"
  by (induction lens) (auto split: if_splits option.splits)

definition CODE_LENS :: "nat list" where "CODE_LENS = [5..<31]"

lemma huffman_match_pos: "huffman_match tb w f CODE_LENS = Some (smb, len) \<Longrightarrow> 5 \<le> len \<and> len \<le> tb"
  using huffman_match_len [of tb w f CODE_LENS smb len] by (auto simp: CODE_LENS_def)

function huffman_loop :: "bytes \<Rightarrow> nat \<Rightarrow> bytes \<Rightarrow> bytes" where
  "huffman_loop data bit_pos out =
     (if bit_pos < length data * 8 then
        let try_bits = min (length data * 8 - bit_pos) 30;
            (window, fetched) = fetch_window data try_bits bit_pos 0 0 in
        (case huffman_match try_bits window fetched CODE_LENS of
           None \<Rightarrow> out
         | Some (smb, len) \<Rightarrow> if smb = 256 then out else huffman_loop data (bit_pos + len) (out @ [word_of_nat smb]))
      else out)"
  by pat_completeness auto
termination
  by (relation "measure (\<lambda>(data, bp, _). length data * 8 - bp)") (auto dest!: huffman_match_pos)

declare huffman_loop.simps [simp del]

definition huffman_decode :: "bytes \<Rightarrow> string" where
  "huffman_decode data = from_utf8_lossy (huffman_loop data 0 [])"

section \<open>Reading a header block\<close>

text \<open>
  A string of the given length at the given place: \<open>None\<close> is a panic (the end of the slice is computed in 64 bits and may
  wrap below its start), \<open>Some None\<close> leaves the loop, otherwise the place after the string and the string.
\<close>

definition qpack_text :: "bool \<Rightarrow> bytes \<Rightarrow> string" where
  "qpack_text huffman bs = (if huffman then huffman_decode bs else from_utf8_lossy bs)"

definition qpack_chunk :: "bool \<Rightarrow> bytes \<Rightarrow> nat \<Rightarrow> u64 \<Rightarrow> (nat \<times> string) option option" where
  "qpack_chunk huffman payload i len =
     (let stop = unat (word_of_nat i + len :: u64) in
      if length payload < stop then Some None
      else do { bs \<leftarrow> slice payload i stop; Some (Some (stop, qpack_text huffman bs)) })"

definition qpack_value :: "bytes \<Rightarrow> nat \<Rightarrow> (nat \<times> string) option option" where
  "qpack_value payload i =
     (if length payload \<le> i then Some None
      else do {
        b \<leftarrow> idx payload i;
        case qpack_read_int (drop i payload) 7 of
          None \<Rightarrow> Some None
        | Some (val_len, vc) \<Rightarrow> qpack_chunk (b AND 0x80 \<noteq> 0) payload (i + vc) val_len })"

text \<open>One field of the block: where the next one starts and the header it gives, if any.\<close>

definition qpack_field :: "bytes \<Rightarrow> nat \<Rightarrow> (nat \<times> (string \<times> string) option) option option" where
  "qpack_field payload i = do {
     b \<leftarrow> idx payload i;
     if b AND 0x80 \<noteq> 0 then
       (case qpack_read_int (drop i payload) 6 of
          None \<Rightarrow> Some None
        | Some (ix, consumed) \<Rightarrow>
            Some (Some (i + consumed,
              (case qpack_static_entry ix of Some h \<Rightarrow> if fst h \<noteq> [] then Some h else None | None \<Rightarrow> None))))
     else if b AND 0xc0 = 0x40 then
       (case qpack_read_int (drop i payload) 4 of
          None \<Rightarrow> Some None
        | Some (ix, consumed) \<Rightarrow>
            try_opt (qpack_value payload (i + consumed)) (\<lambda>(i', v).
              Some (Some (i', Some ((case qpack_static_name ix of Some n \<Rightarrow> n | None \<Rightarrow> []), v)))))
     else if b AND 0xe0 = 0x20 then
       (case qpack_read_int (drop i payload) 3 of
          None \<Rightarrow> Some None
        | Some (name_len, nc) \<Rightarrow>
            try_opt (qpack_chunk (b AND 0x08 \<noteq> 0) payload (i + nc) name_len) (\<lambda>(i', n).
            try_opt (qpack_value payload i') (\<lambda>(i'', v). Some (Some (i'', Some (n, v))))))
     else Some (Some (i + 1, None)) }"

lemma qpack_int_loop_consumes: "qpack_int_loop bs v m i = Some (v', n) \<Longrightarrow> i < n \<and> n \<le> i + length bs"
  by (induction bs v m i rule: qpack_int_loop.induct) (fastforce simp: Let_def split: if_splits)+

lemma qpack_read_int_consumes: "qpack_read_int bs p = Some (v, n) \<Longrightarrow> 0 < n \<and> n \<le> length bs"
  by (auto simp: qpack_read_int_def Let_def split: list.splits if_splits dest!: qpack_int_loop_consumes)

lemma qpack_chunk_moves: "qpack_chunk h payload i len = Some (Some (j, t)) \<Longrightarrow> i \<le> j"
  by (auto simp: qpack_chunk_def Let_def slice_def bind_eq_Some_conv split: if_splits)

lemma qpack_value_moves: "qpack_value payload i = Some (Some (j, t)) \<Longrightarrow> i \<le> j"
  by (auto simp: qpack_value_def bind_eq_Some_conv split: if_splits option.splits dest!: qpack_chunk_moves)

lemma qpack_field_moves: "qpack_field payload i = Some (Some (j, h)) \<Longrightarrow> i < j"
  by (auto simp: qpack_field_def bind_eq_Some_conv try_opt_def split: if_splits option.splits
      dest!: qpack_read_int_consumes qpack_chunk_moves qpack_value_moves)

function qpack_loop :: "bytes \<Rightarrow> nat \<Rightarrow> (string \<times> string) list \<Rightarrow> (string \<times> string) list option" where
  "qpack_loop payload i headers =
     (if i < length payload then
        (case qpack_field payload i of
           None \<Rightarrow> None
         | Some None \<Rightarrow> Some headers
         | Some (Some (j, h)) \<Rightarrow> qpack_loop payload j (headers @ (case h of Some x \<Rightarrow> [x] | None \<Rightarrow> [])))
      else Some headers)"
  by pat_completeness auto
termination
  by (relation "measure (\<lambda>(payload, i, _). length payload - i)") (auto dest!: qpack_field_moves)

declare qpack_loop.simps [simp del]

definition parse_headers_from_qpack :: "bytes \<Rightarrow> (string + (string \<times> string) list) option" where
  "parse_headers_from_qpack payload =
     (if length payload < 2 then Some (Inl ''qpack payload too short'')
      else map_option Inr (qpack_loop payload 2 []))"

section \<open>The two integer codecs agree\<close>

lemma byte_of_word: "(word_of_nat (unat (w :: 'a :: len word) div 2 ^ k) :: u8) = ucast (drop_bit k w)"
proof (rule word_unat_eq_iff [THEN iffD2])
  have "unat (drop_bit k w) = unat w div 2 ^ k" by (simp add: unat_drop_bit_eq drop_bit_eq_div [of _ "unat w"])
  then show "unat (word_of_nat (unat w div 2 ^ k) :: u8) = unat (ucast (drop_bit k w) :: u8)"
    by (simp add: unat_u8_of_nat unsigned_ucast_eq take_bit_eq_mod)
qed

lemma be_bytes_map: "be_bytes n v = map (\<lambda>k. word_of_nat (v div 2 ^ (8 * k))) (rev [0..<n])"
proof -
  have "le_bytes n v = map (\<lambda>k. word_of_nat (v div 2 ^ (8 * k))) [0..<n]"
  proof (induction n arbitrary: v)
    case (Suc n)
    have up: "[0..<Suc n] = 0 # map Suc [0..<n]" by (simp add: map_Suc_upt upt_conv_Cons)
    have "v div 256 div 2 ^ (8 * k) = v div 2 ^ (8 * Suc k)" for k
      by (simp add: div_mult2_eq [symmetric] power_add)
    then show ?case unfolding up using Suc [of "v div 256"] by (simp add: o_def)
  qed simp
  then show ?thesis by (simp add: be_bytes_def rev_map)
qed

lemma be_bytes_word: "be_bytes n (unat w) = map (\<lambda>k. ucast (drop_bit (8 * k) w)) (rev [0..<n])"
  by (simp add: be_bytes_map byte_of_word)

lemma words_be_eq:
  "u16_be w2 = [ucast (drop_bit 8 w2), ucast w2]"
  "u32_be w4 = [ucast (drop_bit 24 w4), ucast (drop_bit 16 w4), ucast (drop_bit 8 w4), ucast w4]"
  "be_bytes 8 (unat (w8 :: u64)) = [ucast (drop_bit 56 w8), ucast (drop_bit 48 w8), ucast (drop_bit 40 w8), ucast (drop_bit 32 w8),
     ucast (drop_bit 24 w8), ucast (drop_bit 16 w8), ucast (drop_bit 8 w8), ucast w8]"
  by (simp_all add: u16_be_def u32_be_def be_bytes_word upt_conv_Cons)

lemma bit_below:
  fixes i :: "'a :: len word"
  assumes "i < 2 ^ k" "k < LENGTH('a)" "bit i n"
  shows "n < k"
proof -
  have "unat (word_of_nat (2 ^ k) :: 'a word) = 2 ^ k" using assms(2) by (simp only: unsigned_of_nat) (simp add: take_bit_nat_eq_self)
  with assms(1) have "unat i < 2 ^ k" by (simp add: word_less_nat_alt)
  then have "take_bit k (unat i) = unat i" by (simp add: take_bit_nat_eq_self)
  moreover have "bit (unat i) n" using assms(3) by (simp add: bit_unsigned_iff bit_imp_possible_bit)
  ultimately show ?thesis by (metis bit_take_bit_iff)
qed

lemma bit_masks:
  "bit (0x3f :: u8) n \<longleftrightarrow> n < 6"
  "bit (2 :: u8) n \<longleftrightarrow> n = 1"
  "bit (3 :: u8) n \<longleftrightarrow> n < 2"
  "bit (0x4000 :: u16) n \<longleftrightarrow> n = 14"
  "bit (0x80000000 :: u32) n \<longleftrightarrow> n = 31"
  "bit (0xc000000000000000 :: u64) n \<longleftrightarrow> n = 62 \<or> n = 63"
proof -
  have eqs: "(0x3f :: u8) = mask 6" "(2 :: u8) = push_bit 1 1" "(3 :: u8) = mask 2" "(0x4000 :: u16) = 2 ^ 14" "(0x80000000 :: u32) = 2 ^ 31"
      "(0xc000000000000000 :: u64) = 2 ^ 62 OR 2 ^ 63" by (simp_all add: mask_eq_exp_minus_1)
  show "bit (0x3f :: u8) n \<longleftrightarrow> n < 6" "bit (2 :: u8) n \<longleftrightarrow> n = 1" "bit (3 :: u8) n \<longleftrightarrow> n < 2" "bit (0x4000 :: u16) n \<longleftrightarrow> n = 14"
      "bit (0x80000000 :: u32) n \<longleftrightarrow> n = 31" "bit (0xc000000000000000 :: u64) n \<longleftrightarrow> n = 62 \<or> n = 63"
    unfolding eqs by (auto simp only: bit_mask_iff bit_exp_iff bit_or_iff bit_push_bit_iff bit_1_iff possible_bit_word) simp_all
qed

lemmas varint_bits = bit_or_iff bit_and_iff bit_push_bit_iff bit_drop_bit_eq bit_ucast_iff possible_bit_word bit_masks

text \<open>Putting the bytes of a word together from the low end.\<close>

lemma byte_or_take_bit:
  fixes w :: u64
  shows "ucast (ucast w :: u8) = take_bit 8 w"
    and "m + 8 = k \<Longrightarrow> push_bit m (take_bit 8 (drop_bit m w)) OR take_bit m w = take_bit k w"
  by (rule bit_word_eqI, auto simp: varint_bits bit_take_bit_iff)+

lemma varint_value:
  fixes i :: u64
  shows "i < 2 ^ 6 \<Longrightarrow> ucast ((ucast i :: u8) AND 0x3f) = i"
    and "i < 2 ^ 14 \<Longrightarrow> w2 = (ucast i :: u16) OR 0x4000 \<Longrightarrow>
      push_bit 8 (ucast ((ucast (drop_bit 8 w2) :: u8) AND 0x3f)) OR ucast (ucast w2 :: u8) = i"
    and "i < 2 ^ 30 \<Longrightarrow> w4 = (ucast i :: u32) OR 0x80000000 \<Longrightarrow>
      push_bit 24 (ucast ((ucast (drop_bit 24 w4) :: u8) AND 0x3f)) OR push_bit 16 (ucast (ucast (drop_bit 16 w4) :: u8))
        OR push_bit 8 (ucast (ucast (drop_bit 8 w4) :: u8)) OR ucast (ucast w4 :: u8) = i"
    and "i < 2 ^ 62 \<Longrightarrow> w8 = i OR 0xc000000000000000 \<Longrightarrow>
      push_bit 56 (ucast ((ucast (drop_bit 56 w8) :: u8) AND 0x3f)) OR push_bit 48 (ucast (ucast (drop_bit 48 w8) :: u8))
        OR push_bit 40 (ucast (ucast (drop_bit 40 w8) :: u8)) OR push_bit 32 (ucast (ucast (drop_bit 32 w8) :: u8))
        OR push_bit 24 (ucast (ucast (drop_bit 24 w8) :: u8)) OR push_bit 16 (ucast (ucast (drop_bit 16 w8) :: u8))
        OR push_bit 8 (ucast (ucast (drop_bit 8 w8) :: u8)) OR ucast (ucast w8 :: u8) = i"
  subgoal premises p by (rule bit_word_eqI, simp only: p(1) varint_bits o_apply, auto dest: bit_below [OF p(1), simplified])
  subgoal premises p by (rule bit_word_eqI, simp only: p(2) varint_bits o_apply, auto dest: bit_below [OF p(1), simplified])
  subgoal premises p by (rule bit_word_eqI, simp only: p(2) varint_bits o_apply, auto dest: bit_below [OF p(1), simplified])
  subgoal premises p
  proof -
    have "push_bit 56 (ucast ((ucast (drop_bit 56 w8) :: u8) AND 0x3f)) OR take_bit 56 w8 = i"
    proof (rule bit_word_eqI)
      fix n assume "n < LENGTH(64)"
      show "bit (push_bit 56 (ucast ((ucast (drop_bit 56 w8) :: u8) AND 0x3f)) OR take_bit 56 w8) n = bit i n"
        using bit_below [OF p(1), of n] by (simp only: p(2) varint_bits bit_take_bit_iff o_apply) auto
    qed
    then show ?thesis
      by (simp only: byte_or_take_bit(1) byte_or_take_bit(2) [of 8 16, simplified] byte_or_take_bit(2) [of 16 24, simplified]
        byte_or_take_bit(2) [of 24 32, simplified] byte_or_take_bit(2) [of 32 40, simplified]
        byte_or_take_bit(2) [of 40 48, simplified] byte_or_take_bit(2) [of 48 56, simplified])
  qed
  done

lemma varint_kind:
  "i < 2 ^ 6 \<Longrightarrow> drop_bit 6 (ucast (i :: u64) :: u8) = 0"
  "i < 2 ^ 14 \<Longrightarrow> drop_bit 6 (ucast (drop_bit 8 ((ucast i :: u16) OR 0x4000)) :: u8) = 1"
  "i < 2 ^ 30 \<Longrightarrow> drop_bit 6 (ucast (drop_bit 24 ((ucast i :: u32) OR 0x80000000)) :: u8) = 2"
  "i < 2 ^ 62 \<Longrightarrow> drop_bit 6 (ucast (drop_bit 56 (i OR 0xc000000000000000)) :: u8) = 3"
  subgoal premises p by (rule bit_word_eqI, simp only: varint_bits o_apply, auto dest: bit_below [OF p(1), simplified])
  subgoal premises p by (rule bit_word_eqI, simp only: varint_bits o_apply bit_1_iff, auto dest: bit_below [OF p(1), simplified])
  subgoal premises p by (rule bit_word_eqI, simp only: varint_bits o_apply, auto dest: bit_below [OF p(1), simplified])
  subgoal premises p by (rule bit_word_eqI, simp only: varint_bits o_apply, auto dest: bit_below [OF p(1), simplified])
  done

section \<open>Integers and frames are read back\<close>

lemma varint_small: "i \<le> 63 \<longleftrightarrow> (i :: u64) < 2 ^ 6" "i \<le> 16383 \<longleftrightarrow> i < 2 ^ 14" "i \<le> 1073741823 \<longleftrightarrow> i < 2 ^ 30"
  by (simp_all add: word_le_nat_alt word_less_nat_alt) arith+

lemma reads_varint_kinds:
  "drop_bit 6 f = 0 \<Longrightarrow> reads read_varint_async [f] (ucast (f AND 0x3f))"
  "drop_bit 6 f = 1 \<Longrightarrow> reads read_varint_async [f, b1] (push_bit 8 (ucast (f AND 0x3f)) OR ucast b1)"
  "drop_bit 6 f = 2 \<Longrightarrow> reads read_varint_async [f, b1, b2, b3]
     (push_bit 24 (ucast (f AND 0x3f)) OR push_bit 16 (ucast b1) OR push_bit 8 (ucast b2) OR ucast b3)"
  "drop_bit 6 f = 3 \<Longrightarrow> reads read_varint_async [f, b1, b2, b3, b4, b5, b6, b7]
     (push_bit 56 (ucast (f AND 0x3f)) OR push_bit 48 (ucast b1) OR push_bit 40 (ucast b2) OR push_bit 32 (ucast b3)
        OR push_bit 24 (ucast b4) OR push_bit 16 (ucast b5) OR push_bit 8 (ucast b6) OR ucast b7)"
  by (simp_all add: read_varint_async_def reads_u8 reads_Read_take reads_Ret_iff)

lemma write_varint_reads:
  assumes "i < 2 ^ 62"
  shows "reads read_varint_async (write_varint i) i"
proof -
  note step = reads_varint_kinds
  consider "i < 2 ^ 6" | "\<not> i < 2 ^ 6" "i < 2 ^ 14" | "\<not> i < 2 ^ 6" "\<not> i < 2 ^ 14" "i < 2 ^ 30"
    | "\<not> i < 2 ^ 6" "\<not> i < 2 ^ 14" "\<not> i < 2 ^ 30" by blast
  then show ?thesis
  proof cases
    case 1
    show ?thesis unfolding write_varint_def varint_small if_P [OF 1]
      using step(1) [OF varint_kind(1) [OF 1]] by (simp only: varint_value(1) [OF 1])
  next
    case 2
    show ?thesis unfolding write_varint_def varint_small if_P [OF 2(2)] if_not_P [OF 2(1)] words_be_eq
      using step(2) [OF varint_kind(2) [OF 2(2)]] by (metis varint_value(2) [OF 2(2) refl])
  next
    case 3
    show ?thesis unfolding write_varint_def varint_small if_P [OF 3(3)] if_not_P [OF 3(1)] if_not_P [OF 3(2)] words_be_eq
      using step(3) [OF varint_kind(3) [OF 3(3)]] by (metis varint_value(3) [OF 3(3) refl])
  next
    case 4
    show ?thesis unfolding write_varint_def varint_small if_not_P [OF 4(1)] if_not_P [OF 4(2)] if_not_P [OF 4(3)] words_be_eq
      using step(4) [OF varint_kind(4) [OF assms]] by (metis varint_value(4) [OF assms refl])
  qed
qed

interpretation varint: stream_codec write_varint read_varint_async "\<lambda>i. i < 2 ^ 62"
  by unfold_locales (rule write_varint_reads)

lemma decode_varint_slice_run:
  "\<exists>e. decode_varint_slice buf =
     Some (case run read_varint_async buf of (Inl _, _, _) \<Rightarrow> Inl e | (Inr v, _, rest) \<Rightarrow> Inr (v, length buf - length rest))"
proof (cases buf)
  case (Cons b bs)
  have n: "\<And>k. idx (b # bs) (Suc k) = idx bs k" "idx (b # bs) 0 = Some b" by (simp_all add: idx_def)
  show ?thesis unfolding Cons
    by (auto simp: decode_varint_slice_def read_varint_async_def read_u8_def Let_def numeral_eq_Suc n idx_def hd_conv_nth Suc_le_eq)
qed (simp add: decode_varint_slice_def read_varint_async_def read_u8_def)

lemma decode_write_varint:
  assumes "i < 2 ^ 62"
  shows "decode_varint_slice (write_varint i @ rest) = Some (Inr (i, length (write_varint i)))"
  using decode_varint_slice_run [of "write_varint i @ rest"] varint.decodes [OF assms, of rest] by simp

definition frame_ok :: "u64 \<times> bytes \<Rightarrow> bool" where
  "frame_ok f = (fst f < 2 ^ 62 \<and> length (snd f) \<le> 1024 * 1024)"

interpretation h3_frame: stream_codec "\<lambda>f. write_h3_frame (fst f) (snd f)" read_h3_frame frame_ok
proof
  fix f :: "u64 \<times> bytes"
  assume ok: "frame_ok f"
  let ?n = "word_of_nat (length (snd f)) :: u64"
  have n: "unat ?n = length (snd f)" using ok by (simp add: frame_ok_def unsigned_of_nat take_bit_nat_eq_self)
  have small: "?n \<le> 1024 * 1024" "?n < 2 ^ 62" "0 < ?n \<longleftrightarrow> snd f \<noteq> []"
    using ok by (simp_all add: frame_ok_def word_le_nat_alt word_less_nat_alt n)
  have "reads (if 0 < ?n then Read (unat ?n) (\<lambda>payload. Ret (fst f, payload)) else Ret (fst f, [])) (snd f) f"
    using small(3) n by (cases "snd f = []") (auto simp: talk prod_eq_iff)
  then show "reads read_h3_frame (write_h3_frame (fst f) (snd f)) f"
    unfolding read_h3_frame_def write_h3_frame_def
    using small ok by (intro reads_bind [OF varint.dec_enc]) (simp_all add: frame_ok_def)
qed

section \<open>Header blocks are read back\<close>

lemma low_bits_mask: "(0x7f :: u8) = mask 7" "(0x80 :: u8) = push_bit 7 1" "(0x20 :: u8) = push_bit 5 1" "(0x40 :: u8) = push_bit 6 1"
  "(0x08 :: u8) = push_bit 3 1"
  by (simp_all add: mask_eq_exp_minus_1)

lemma unat_ucast_u8 [simp]: "unat (ucast (b :: u8) :: u64) = unat b"
proof -
  have "unat b < 2 ^ 64" by (rule less_trans [OF unat_u8_less]) simp
  then show ?thesis by (simp only: unsigned_ucast_eq take_bit_nat_eq_self len_of_numeral_defs) (simp add: take_bit_nat_eq_self)
qed

lemma unat_u64_of_nat: "n < 2 ^ 64 \<Longrightarrow> unat (word_of_nat n :: u64) = n"
  by (simp add: unsigned_of_nat take_bit_nat_eq_self)

lemma low7:
  "ucast ((word_of_nat r OR 0x80 :: u8) AND 0x7f) = (word_of_nat (r mod 128) :: u64)"
  "r < 128 \<Longrightarrow> ucast ((word_of_nat r :: u8) AND 0x7f) = (word_of_nat r :: u64)"
  "(word_of_nat r OR 0x80 :: u8) AND 0x80 \<noteq> 0"
  "r < 128 \<Longrightarrow> (word_of_nat r :: u8) AND 0x80 = 0"
proof -
  have t: "ucast ((word_of_nat r :: u8) AND 0x7f) = (word_of_nat (r mod 128) :: u64)" for r
  proof -
    have "(word_of_nat r :: u8) AND 0x7f = word_of_nat r mod 128" unfolding low_bits_mask
      by (simp add: take_bit_eq_mask [symmetric] take_bit_eq_mod)
    then have "unat ((word_of_nat r :: u8) AND 0x7f) = r mod 256 mod 128" by (simp only: unat_mod) (simp add: unat_u8_of_nat)
    also have "\<dots> = r mod 128" by (simp add: mod_mod_cancel)
    finally show ?thesis by (simp only: word_unat_eq_iff unat_ucast_u8) (simp add: unat_u64_of_nat)
  qed
  have "(x OR 0x80) AND 0x7f = x AND (0x7f :: u8)" for x unfolding low_bits_mask
    by (rule bit_word_eqI, simp only: bit_or_iff bit_and_iff bit_mask_iff bit_push_bit_iff bit_1_iff) auto
  then show "ucast ((word_of_nat r OR 0x80 :: u8) AND 0x7f) = (word_of_nat (r mod 128) :: u64)" by (simp only: t)
  show "r < 128 \<Longrightarrow> ucast ((word_of_nat r :: u8) AND 0x7f) = (word_of_nat r :: u64)" by (simp only: t) simp
  have "bit ((word_of_nat r OR 0x80 :: u8) AND 0x80) 7" unfolding low_bits_mask by (simp add: bit_simps)
  then show "(word_of_nat r OR 0x80 :: u8) AND 0x80 \<noteq> 0" by auto
  show "(word_of_nat r :: u8) AND 0x80 = 0" if "r < 128" 
  proof -
    have "(word_of_nat r :: u8) < 2 ^ 7" using that by (simp add: word_less_nat_alt unat_u8_of_nat)
    from bit_below [OF this, simplified] show ?thesis unfolding low_bits_mask
      by (intro bit_word_eqI) (simp only: bit_and_iff bit_push_bit_iff bit_1_iff, fastforce)
  qed
qed

lemma qpack_int_rest:
  assumes "r * 2 ^ m < 2 ^ 64" "m < 64"
  shows "qpack_int_loop (put_int_rest r @ rest) v m i = Some (v + word_of_nat (r * 2 ^ m), i + length (put_int_rest r))"
  using assms
proof (induction r arbitrary: v m i rule: put_int_rest.induct)
  case (1 r)
  have push: "push_bit m (word_of_nat k :: u64) = word_of_nat (k * 2 ^ m)" for k
    by (simp add: push_bit_eq_mult)
  show ?case
  proof (cases "128 \<le> r")
    case True
    have "2 ^ (7 + m) = 128 * (2 :: nat) ^ m" by (simp add: power_add)
    also have "\<dots> \<le> r * 2 ^ m" using True by (rule mult_le_mono1)
    also note 1(2)
    finally have "2 ^ (7 + m) < (2 :: nat) ^ 64" .
    then have m: "m + 7 < 64" using power_less_imp_less_exp [of "2 :: nat" "7 + m" 64] by simp
    have split: "r mod 128 * 2 ^ m + r div 128 * 2 ^ (m + 7) = r * 2 ^ m"
      by (simp add: power_add) (metis add_mult_distrib mod_div_mult_eq mult.assoc mult.commute)
    then have le: "r div 128 * 2 ^ (m + 7) < 2 ^ 64" using 1(2) by linarith
    have "v + word_of_nat (r mod 128 * 2 ^ m) + word_of_nat (r div 128 * 2 ^ (m + 7)) = v + (word_of_nat (r * 2 ^ m) :: u64)"
      by (simp only: split [symmetric] of_nat_add add.assoc)
    with 1(1) [OF True le m] True 1(3) show ?thesis
      by (simp only: put_int_rest.simps [of r] if_True append_Cons qpack_int_loop.simps Let_def low7 push mod_less if_False list.size) simp
  next
    case False
    with 1(3) show ?thesis
      by (simp add: put_int_rest.simps [of r] low7 push)
  qed
qed

lemma qpack_read_len7:
  "n < 127 \<Longrightarrow> qpack_read_int (word_of_nat n # rest) 7 = Some (word_of_nat n, 1)"
  "127 \<le> n \<Longrightarrow> n < 2 ^ 64 \<Longrightarrow> qpack_read_int (0x7f # put_int_rest (n - 127) @ rest) 7 = Some (word_of_nat n, 1 + length (put_int_rest (n - 127)))"
proof -
  have m: "push_bit 7 1 - 1 = (0x7f :: u8)" by simp
  show "qpack_read_int (word_of_nat n # rest) 7 = Some (word_of_nat n, 1)" if "n < 127"
  proof -
    have "(word_of_nat n :: u64) < 127" using that by (simp add: word_less_nat_alt unat_u64_of_nat)
    then show ?thesis using that by (simp only: qpack_read_int_def list.case m Let_def) (simp add: low7(2))
  qed
  show "qpack_read_int (0x7f # put_int_rest (n - 127) @ rest) 7 = Some (word_of_nat n, 1 + length (put_int_rest (n - 127)))"
    if "127 \<le> n" "n < 2 ^ 64"
  proof -
    have "127 + (word_of_nat (n - 127) :: u64) = word_of_nat n" using that(1) by (simp add: of_nat_diff)
    then show ?thesis using qpack_int_rest [of "n - 127" 0 rest 127 1] that(2) by (simp add: qpack_read_int_def)
  qed
qed

lemma qpack_read_len3:
  "n < 7 \<Longrightarrow> qpack_read_int ((0x20 OR word_of_nat n) # rest) 3 = Some (word_of_nat n, 1)"
  "7 \<le> n \<Longrightarrow> n < 2 ^ 64 \<Longrightarrow> qpack_read_int (0x27 # put_int_rest (n - 7) @ rest) 3 = Some (word_of_nat n, 1 + length (put_int_rest (n - 7)))"
proof -
  show "qpack_read_int ((0x20 OR word_of_nat n) # rest) 3 = Some (word_of_nat n, 1)" if "n < 7"
  proof -
    from that have "n \<in> {0, 1, 2, 3, 4, 5, 6}" by auto
    then show ?thesis by (auto simp: qpack_read_int_def)
  qed
  show "qpack_read_int (0x27 # put_int_rest (n - 7) @ rest) 3 = Some (word_of_nat n, 1 + length (put_int_rest (n - 7)))"
    if "7 \<le> n" "n < 2 ^ 64"
  proof -
    have "7 + (word_of_nat (n - 7) :: u64) = word_of_nat n" using that(1) by (simp add: of_nat_diff)
    then show ?thesis using qpack_int_rest [of "n - 7" 0 rest 7 1] that(2) by (simp add: qpack_read_int_def)
  qed
qed

lemma qpack_chunk_at:
  assumes "payload = a @ bs @ b" "length payload < 2 ^ 64" "i = length a"
  shows "qpack_chunk h payload i (word_of_nat (length bs)) = Some (Some (length a + length bs, qpack_text h bs))"
proof -
  have "unat (word_of_nat i + word_of_nat (length bs) :: u64) = length a + length bs"
    using assms by (simp flip: of_nat_add add: unat_u64_of_nat)
  then show ?thesis using slice_at [OF assms(1)] assms(1,3) by (simp add: qpack_chunk_def)
qed

lemma qpack_value_at:
  assumes "payload = a @ (if length v < 128 then [word_of_nat (length v)] else 0x7f # put_int_rest (length v - 127)) @ v @ b"
    and "length payload < 2 ^ 64" "length v \<noteq> 127"
  shows "qpack_value payload (length a) = Some (Some (length payload - length b, from_utf8_lossy v))"
proof (cases "length v < 127")
  case True
  with assms(1) have pl: "payload = a @ word_of_nat (length v) # v @ b" by simp
  then have pl': "payload = (a @ [word_of_nat (length v)]) @ v @ b" by simp
  show ?thesis
    using qpack_chunk_at [OF pl' assms(2), of "length a + 1" False] qpack_read_len7(1) [OF True, of "v @ b"] True
    by (simp add: pl qpack_value_def low7(4) qpack_text_def)
next
  case False
  let ?r = "put_int_rest (length v - 127)"
  from False assms(1,3) have pl: "payload = a @ 0x7f # ?r @ v @ b" by simp
  then have pl': "payload = (a @ 0x7f # ?r) @ v @ b" by simp
  have "length v < 2 ^ 64" using assms(1,2) by simp
  with False show ?thesis
    using qpack_chunk_at [OF pl' assms(2), of "length a + (1 + length ?r)" False] qpack_read_len7(2) [of "length v" "v @ b"]
    by (simp add: pl qpack_value_def qpack_text_def)
qed

lemma literal_flags:
  "n < 7 \<Longrightarrow> (0x20 OR word_of_nat n) AND 0x80 = (0 :: u8) \<and> (0x20 OR word_of_nat n) AND 0xc0 \<noteq> (0x40 :: u8)
     \<and> (0x20 OR word_of_nat n) AND 0xe0 = (0x20 :: u8) \<and> (0x20 OR word_of_nat n) AND 8 = (0 :: u8)"
proof -
  assume "n < 7"
  then have "n \<in> {0, 1, 2, 3, 4, 5, 6}" by auto
  then show ?thesis by auto
qed

text \<open>
  A literal header is read as its name and value. The value must not be 127 bytes long: the encoder then writes a length
  that announces further length bytes.
\<close>

lemma qpack_field_literal:
  assumes "payload = a @ put_literal_header n v @ b" "length payload < 2 ^ 64" "length v \<noteq> 127"
  shows "qpack_field payload (length a)
     = Some (Some (length a + length (put_literal_header n v), Some (from_utf8_lossy n, from_utf8_lossy v)))"
proof -
  let ?l = "if length v < 128 then [word_of_nat (length v)] else 0x7f # put_int_rest (length v - 127) :: bytes"
  have len: "length n < 2 ^ 64" using assms(1,2) by (simp add: put_literal_header_def)
  show ?thesis
  proof (cases "length n < 7")
    case True
    have pl: "payload = a @ (0x20 OR word_of_nat (length n)) # n @ ?l @ v @ b" using assms(1) True by (simp add: put_literal_header_def)
    have pn: "payload = (a @ [0x20 OR word_of_nat (length n)]) @ n @ (?l @ v @ b)"
      and pv: "payload = (a @ (0x20 OR word_of_nat (length n)) # n) @ ?l @ v @ b" using pl by simp_all
    have b: "idx payload (length a) = Some (0x20 OR word_of_nat (length n))" by (rule idx_at [OF pl refl])
    show ?thesis
      using qpack_chunk_at [OF pn assms(2), of "length a + 1" False] qpack_value_at [OF pv assms(2,3)]
        qpack_read_len3(1) [OF True] literal_flags [OF True] True
      unfolding qpack_field_def b by (simp add: pl qpack_text_def put_literal_header_def add.assoc)
  next
    case False
    let ?r = "put_int_rest (length n - 7)"
    have pl: "payload = a @ 0x27 # ?r @ n @ ?l @ v @ b" using assms(1) False by (simp add: put_literal_header_def)
    have pn: "payload = (a @ 0x27 # ?r) @ n @ (?l @ v @ b)" and pv: "payload = (a @ 0x27 # ?r @ n) @ ?l @ v @ b" using pl by simp_all
    have b: "idx payload (length a) = Some 0x27" by (rule idx_at [OF pl refl])
    show ?thesis
      using qpack_chunk_at [OF pn assms(2), of "length a + (1 + length ?r)" False] qpack_value_at [OF pv assms(2,3)]
        qpack_read_len3(2) [of "length n"] False len
      unfolding qpack_field_def b by (simp add: pl qpack_text_def put_literal_header_def add.assoc)
  qed
qed

definition header_ok :: "string \<times> string \<Rightarrow> bool" where
  "header_ok h = (str_ok (fst h) \<and> str_ok (snd h) \<and> length (snd h) \<noteq> 127)"

definition header_block :: "(string \<times> string) list \<Rightarrow> bytes" where
  "header_block hs = concat (map (\<lambda>h. put_literal_header (as_bytes (fst h)) (as_bytes (snd h))) hs)"

lemma put_literal_header_not_Nil [simp]: "put_literal_header n v \<noteq> []"
  by (simp add: put_literal_header_def)

lemma qpack_loop_literals:
  assumes "payload = a @ header_block hs" "length payload < 2 ^ 64" "list_all header_ok hs"
  shows "qpack_loop payload (length a) acc = Some (acc @ hs)"
  using assms
proof (induction hs arbitrary: a acc)
  case Nil
  then show ?case by (simp add: qpack_loop.simps header_block_def)
next
  case (Cons h hs)
  let ?h = "put_literal_header (as_bytes (fst h)) (as_bytes (snd h))"
  have pl: "payload = a @ ?h @ header_block hs" and pl': "payload = (a @ ?h) @ header_block hs"
    using Cons.prems(1) by (simp_all add: header_block_def)
  have "header_ok h" and ok4: "list_all header_ok hs" using Cons.prems(3) by simp_all
  then have ok: "str_ok (fst h)" "str_ok (snd h)" "length (as_bytes (snd h)) \<noteq> 127" by (auto simp: header_ok_def)
  have "length a < length payload" by (simp add: pl)
  with Cons.IH [OF pl' Cons.prems(2) ok4] qpack_field_literal [OF pl Cons.prems(2) ok(3)] ok(1,2) show ?case
    by (simp add: qpack_loop.simps [of payload "length a"] from_utf8_lossy_as_bytes)
qed

lemma parse_header_block:
  assumes "length (header_block hs) < 2 ^ 64 - 2" "list_all header_ok hs"
  shows "parse_headers_from_qpack ([0, 0] @ header_block hs) = Some (Inr hs)"
  using qpack_loop_literals [OF refl _ assms(2), of "[0, 0]" "[]"] assms(1) by (simp add: parse_headers_from_qpack_def numeral_2_eq_2)

end
