(* ===== verification/Hy2_Huffman.thy ===== *)
theory Hy2_Huffman
  imports Hy2_Wire
begin

text \<open>
  The Huffman decoder of header strings inverts the code of its table: the table is a prefix code on all symbols but line
  feed, carriage return and SYN, so the search by increasing length finds exactly the symbol whose code comes next, and the
  padding of ones at the end is no code. The symbols left out have wrong or shared codes in the table.
\<close>

section \<open>Bits\<close>

definition byte_bits :: "u8 \<Rightarrow> bool list" where
  "byte_bits b = map (\<lambda>k. bit b (7 - k)) [0..<8]"

definition bits :: "bytes \<Rightarrow> bool list" where
  "bits data = concat (map byte_bits data)"

fun to_bits :: "nat \<Rightarrow> nat \<Rightarrow> bool list" where
  "to_bits 0 v = []"
| "to_bits (Suc n) v = to_bits n (v div 2) @ [odd v]"

definition bval :: "bool list \<Rightarrow> nat" where
  "bval bs = foldl (\<lambda>v b. 2 * v + of_bool b) 0 bs"

lemma length_byte_bits [simp]: "length (byte_bits b) = 8"
  by (simp add: byte_bits_def)

lemma length_bits [simp]: "length (bits data) = length data * 8"
  by (induction data) (simp_all add: bits_def)

lemma nth_bits: "i < length data * 8 \<Longrightarrow> bits data ! i = bit (data ! (i div 8)) (7 - i mod 8)"
proof (induction data arbitrary: i)
  case (Cons b data)
  show ?case
  proof (cases "i < 8")
    case True
    then show ?thesis by (simp add: bits_def nth_append byte_bits_def)
  next
    case False
    then have i: "i div 8 = Suc ((i - 8) div 8)" "i mod 8 = (i - 8) mod 8" by (simp_all add: le_div_geq le_mod_geq)
    have "bits (b # data) ! i = bits data ! (i - 8)" using False by (simp add: bits_def nth_append)
    with Cons.IH [of "i - 8"] Cons.prems False show ?thesis unfolding i by simp
  qed
qed simp

lemma bval_Nil [simp]: "bval [] = 0"
  by (simp add: bval_def)

lemma bval_snoc [simp]: "bval (bs @ [b]) = 2 * bval bs + of_bool b"
  by (simp add: bval_def)

lemma bval_append: "bval (xs @ ys) = bval xs * 2 ^ length ys + bval ys"
proof (induction ys rule: rev_induct)
  case (snoc y ys)
  have "bval (xs @ ys @ [y]) = 2 * bval (xs @ ys) + of_bool y" using bval_snoc [of "xs @ ys" y] by simp
  with snoc show ?case by (simp add: algebra_simps)
qed simp

lemma bval_bound: "bval bs < 2 ^ length bs"
  by (induction bs rule: rev_induct) (auto simp: of_bool_def)

lemma length_to_bits [simp]: "length (to_bits n v) = n"
  by (induction n arbitrary: v) simp_all

lemma bval_to_bits: "bval (to_bits n v) = v mod 2 ^ n"
proof (induction n arbitrary: v)
  case (Suc n)
  have "v mod 2 ^ Suc n = 2 * (v div 2 mod 2 ^ n) + v mod 2" by (simp add: mod_mult2_eq)
  with Suc show ?case by (simp add: odd_iff_mod_2_eq_one of_bool_def)
qed simp

lemma bval_ones: "bval (replicate k True) + 1 = 2 ^ k"
proof (induction k)
  case (Suc k)
  have "bval (replicate (Suc k) True) = 2 * bval (replicate k True) + 1"
    using bval_snoc [of "replicate k True" True] by (simp add: replicate_append_same)
  with Suc show ?case by simp
qed simp

section \<open>The window\<close>

lemma shift_in_bit: "push_bit 1 (w :: u64) OR of_bool c = 2 * w + of_bool c"
  by (cases c) (simp_all add: or_one_eq push_bit_eq_mult)

lemma fetch_window_value:
  assumes "bp + k \<le> length data * 8" "(unat w + 1) * 2 ^ k \<le> 2 ^ 64"
  shows "\<exists>w'. fetch_window data k bp f w = (w', f + k) \<and> unat w' = unat w * 2 ^ k + bval (take k (drop bp (bits data)))"
  using assms
proof (induction k arbitrary: bp f w)
  case (Suc k)
  let ?c = "bits data ! bp"
  have bp: "bp < length data * 8" using Suc.prems(1) by simp
  have c: "ucast (drop_bit (7 - bp mod 8) (data ! (bp div 8)) AND 1) = (of_bool ?c :: u64)"
    by (simp add: nth_bits [OF bp] and_one_eq mod_2_eq_odd bit_iff_odd_drop_bit)
  have "(2 * unat w + 2) * 2 ^ k \<le> 2 ^ 64" using Suc.prems(2) by (simp add: algebra_simps)
  moreover have "2 * unat w + 2 \<le> (2 * unat w + 2) * 2 ^ k" using mult_le_mono2 [of 1 "2 ^ k" "2 * unat w + 2"] by simp
  ultimately have le: "2 * unat w + 2 \<le> 2 ^ 64" by linarith
  have u: "unat (2 * w + of_bool ?c) = 2 * unat w + of_bool ?c"
  proof -
    have "2 * w + of_bool ?c = word_of_nat (2 * unat w + of_bool ?c)" by simp
    then show ?thesis using le by (simp only:) (rule unat_u64_of_nat, simp add: of_bool_def)
  qed
  have "(unat (2 * w + of_bool ?c) + 1) * 2 ^ k \<le> 2 ^ 64"
    using \<open>(2 * unat w + 2) * 2 ^ k \<le> 2 ^ 64\<close> unfolding u
    by (rule order_trans [rotated]) (simp add: of_bool_def)
  from Suc.IH [OF _ this, of "bp + 1" "f + 1"] Suc.prems(1) obtain w' where
    w': "fetch_window data k (bp + 1) (f + 1) (2 * w + of_bool ?c) = (w', f + 1 + k)"
      "unat w' = unat (2 * w + of_bool ?c) * 2 ^ k + bval (take k (drop (bp + 1) (bits data)))" by auto
  have "take (Suc k) (drop bp (bits data)) = [?c] @ take k (drop (bp + 1) (bits data))"
    using bp by (simp add: Cons_nth_drop_Suc [symmetric])
  then have "bval (take (Suc k) (drop bp (bits data))) = of_bool ?c * 2 ^ k + bval (take k (drop (bp + 1) (bits data)))"
    using Suc.prems(1) bval_append [of "[?c]" "take k (drop (bp + 1) (bits data))"] bval_snoc [of "[]" ?c] by simp
  then have "unat w' = unat w * 2 ^ Suc k + bval (take (Suc k) (drop bp (bits data)))" using w'(2) u by (simp add: algebra_simps)
  moreover have "fetch_window data (Suc k) bp f w = (w', f + Suc k)"
    using w'(1) bp by (simp only: fetch_window.simps if_True c shift_in_bit) simp
  ultimately show ?case by blast
qed simp

section \<open>The table\<close>

definition good :: "nat \<Rightarrow> bool" where
  "good s \<longleftrightarrow> s < 256 \<and> s \<noteq> 10 \<and> s \<noteq> 13 \<and> s \<noteq> 22"

definition code_of :: "nat \<Rightarrow> nat" where "code_of s = unat (fst (TABLE ! s))"
definition len_of_code :: "nat \<Rightarrow> nat" where "len_of_code s = snd (TABLE ! s)"

text \<open>
  The lengths of codes with the first and last code of each length. The ranges of different lengths do not meet, and within
  a length the codes increase with the symbol; so no code of a good symbol extends or repeats another code.
\<close>

definition RANGES :: "(nat \<times> int \<times> int) list" where
  "RANGES = [(5, 0x0, 0x9), (6, 0x14, 0x2d), (7, 0x5c, 0x7b), (8, 0xf8, 0xfd), (10, 0x3f8, 0x3fc), (11, 0x7fa, 0x7fc),
     (12, 0xffa, 0xffb), (13, 0x1ff8, 0x1ffd), (14, 0x3ffc, 0x3ffd), (15, 0x7ffc, 0x7ffe), (19, 0x7fff0, 0x7fff2),
     (20, 0xfffe6, 0xfffed), (21, 0x1fffdc, 0x1fffe8), (22, 0x3fffd2, 0x3fffeb), (23, 0x7fffd8, 0x7ffff4),
     (24, 0xffffea, 0xfffff5), (25, 0x1ffffec, 0x1ffffef), (26, 0x3ffffe0, 0x3ffffee), (27, 0x7ffffde, 0x7fffff0),
     (28, 0xfffffe2, 0xffffffe)]"

text \<open>One pass over the table with the least code still allowed and the last code for each length.\<close>

fun bump :: "nat \<Rightarrow> int \<Rightarrow> (nat \<times> int \<times> int) list \<Rightarrow> (nat \<times> int \<times> int) list" where
  "bump l p [] = []"
| "bump l p ((k, lo, hi) # m) = (if k = l then (k, p, hi) # m else (k, lo, hi) # bump l p m)"

fun increasing :: "(u32 \<times> nat) list \<Rightarrow> (nat \<times> int \<times> int) list \<Rightarrow> bool" where
  "increasing [] m = True"
| "increasing ((c, l) # xs) m =
     (if l = 30 then increasing xs m
      else (case map_of m l of
          None \<Rightarrow> False
        | Some (lo, hi) \<Rightarrow> lo \<le> uint c \<and> uint c \<le> hi \<and> increasing xs (bump l (uint c + 1) m)))"

lemma table_increasing: "increasing TABLE RANGES"
  by (simp add: TABLE_def RANGES_def)

lemma ranges_apart: "sorted_wrt (\<lambda>(l, lo, hi) (l', lo', hi'). l < l' \<and> (hi + 1) * 2 ^ (l' - l) \<le> lo') RANGES"
  by (simp add: RANGES_def)

lemma long_codes: "list_all (\<lambda>(s, c, l). good s \<longleftrightarrow> l \<noteq> 30) (List.enumerate 0 TABLE)" "length TABLE = 257"
  by (simp_all add: TABLE_def good_def)

lemma map_of_bump: "map_of (bump l p m) k = (if k = l then map_option (\<lambda>(lo, hi). (p, hi)) (map_of m l) else map_of m k)"
  by (induction l p m rule: bump.induct) auto

lemma increasing_range:
  "increasing xs m \<Longrightarrow> (c, l) \<in> set xs \<Longrightarrow> l \<noteq> 30 \<Longrightarrow> \<exists>lo hi. map_of m l = Some (lo, hi) \<and> lo \<le> uint c \<and> uint c \<le> hi"
proof (induction xs m rule: increasing.induct)
  case (2 c' l' xs m)
  show ?case
  proof (cases "(c, l) = (c', l') \<or> l' = 30")
    case True
    with 2 show ?thesis by (auto split: option.splits)
  next
    case False
    with 2(3,4) obtain lo' hi' where m: "map_of m l' = Some (lo', hi')" "lo' \<le> uint c'" "(c, l) \<in> set xs"
        and inc: "increasing xs (bump l' (uint c' + 1) m)"
      by (auto split: option.splits)
    have "\<not> l' = 30" using False by simp
    from 2(2) [OF this m(1) refl inc m(3) 2(5)] obtain lo hi where
      "map_of (bump l' (uint c' + 1) m) l = Some (lo, hi)" "lo \<le> uint c" "uint c \<le> hi" by blast
    with m(1,2) show ?thesis by (cases "l = l'") (auto simp: map_of_bump)
  qed
qed simp

lemma increasing_nth:
  "increasing xs m \<Longrightarrow> i < j \<Longrightarrow> j < length xs \<Longrightarrow> snd (xs ! i) = snd (xs ! j) \<Longrightarrow> snd (xs ! j) \<noteq> 30
     \<Longrightarrow> uint (fst (xs ! i)) < uint (fst (xs ! j))"
proof (induction xs arbitrary: m i j)
  case (Cons x xs)
  obtain c l where x: "x = (c, l)" by (cases x)
  obtain j' where j: "j = Suc j'" using Cons.prems(2) by (cases j) auto
  have "\<exists>m'. increasing xs m' \<and> (l \<noteq> 30 \<longrightarrow> (\<exists>hi. map_of m' l = Some (uint c + 1, hi)))"
    using Cons.prems(1) unfolding x by (fastforce simp: map_of_bump split: if_splits option.splits)
  then obtain m' where m': "increasing xs m'" "l \<noteq> 30 \<Longrightarrow> \<exists>hi. map_of m' l = Some (uint c + 1, hi)" by blast
  show ?case
  proof (cases i)
    case 0
    have "(fst (xs ! j'), l) \<in> set xs" "l \<noteq> 30" using 0 j x Cons.prems(3-5) by (auto simp: set_conv_nth prod_eq_iff)
    from increasing_range [OF m'(1) this] m'(2) \<open>l \<noteq> 30\<close> show ?thesis by (auto simp: 0 j x)
  next
    case (Suc i')
    with Cons.IH [OF m'(1), of i' j'] Cons.prems j show ?thesis by simp
  qed
qed simp

lemma range_bounds: "map_of RANGES l = Some (lo, hi) \<Longrightarrow> 5 \<le> l \<and> l \<le> 28"
  by (auto simp: RANGES_def split: if_splits)

lemma code_range:
  assumes "s < 257" "len_of_code s \<noteq> 30"
  shows "\<exists>lo hi. map_of RANGES (len_of_code s) = Some (lo, hi) \<and> lo \<le> int (code_of s) \<and> int (code_of s) \<le> hi"
proof -
  have "(fst (TABLE ! s), len_of_code s) \<in> set TABLE"
    using assms(1) long_codes(2) by (auto simp: len_of_code_def set_conv_nth prod_eq_iff)
  from increasing_range [OF table_increasing this assms(2)] show ?thesis by (simp add: code_of_def)
qed

lemma good_iff:
  assumes "s < 257"
  shows "good s \<longleftrightarrow> len_of_code s \<noteq> 30"
proof -
  have "List.enumerate 0 TABLE ! s = (s, TABLE ! s)" "s < length (List.enumerate 0 TABLE)"
    using assms long_codes(2) by (simp_all add: nth_enumerate_eq)
  with long_codes(1) have "case (s, TABLE ! s) of (s, c, l) \<Rightarrow> good s \<longleftrightarrow> l \<noteq> 30" by (metis list_all_length)
  then show ?thesis by (simp add: len_of_code_def split: prod.splits)
qed

lemma good_len: "good s \<Longrightarrow> 5 \<le> len_of_code s \<and> len_of_code s \<le> 28"
  using code_range [of s] good_iff [of s] range_bounds by (fastforce simp: good_def)

lemma ranges_ordered:
  assumes "map_of RANGES l = Some (lo, hi)" "map_of RANGES l' = Some (lo', hi')" "l < l'"
  shows "(hi + 1) * 2 ^ (l' - l) \<le> lo'"
proof -
  from assms(1,2) obtain i j where ij: "i < length RANGES" "RANGES ! i = (l, lo, hi)" "j < length RANGES" "RANGES ! j = (l', lo', hi')"
    by (meson in_set_conv_nth map_of_SomeD)
  consider "i < j" | "j < i" | "i = j" by linarith
  then show ?thesis
    using sorted_wrt_nth_less [OF ranges_apart, of i j] sorted_wrt_nth_less [OF ranges_apart, of j i] ij assms(3) by cases auto
qed

text \<open>No code is a prefix of the code of a good symbol, apart from this code itself.\<close>

lemma prefix_free:
  assumes "good s" "t < 257" "len_of_code t \<le> len_of_code s" "code_of s div 2 ^ (len_of_code s - len_of_code t) = code_of t"
  shows "t = s"
proof -
  have s: "s < 257" "len_of_code s \<noteq> 30" and t: "len_of_code t \<noteq> 30"
    using assms(1,3) good_iff [of s] good_len [of s] by (auto simp: good_def)
  from code_range [OF s] code_range [OF assms(2) t] obtain lo hi lo' hi' where
    r: "map_of RANGES (len_of_code s) = Some (lo, hi)" "lo \<le> int (code_of s)"
      "map_of RANGES (len_of_code t) = Some (lo', hi')" "int (code_of t) \<le> hi'" by blast
  show ?thesis
  proof (cases "len_of_code t = len_of_code s")
    case True
    with assms(4) have eq: "fst (TABLE ! s) = fst (TABLE ! t)" "snd (TABLE ! s) = snd (TABLE ! t)"
      by (simp_all add: code_of_def len_of_code_def word_unat_eq_iff)
    show ?thesis
      using increasing_nth [OF table_increasing, of s t] increasing_nth [OF table_increasing, of t s] eq s assms(2) long_codes(2)
      by (auto simp: len_of_code_def not_less_iff_gr_or_eq) (metis less_irrefl linorder_neqE_nat)
  next
    case False
    let ?d = "2 ^ (len_of_code s - len_of_code t) :: nat"
    from False assms(3) have "len_of_code t < len_of_code s" by simp
    from ranges_ordered [OF r(3,1) this] have "(hi' + 1) * int ?d \<le> lo" by simp
    moreover have "(int (code_of t) + 1) * int ?d \<le> (hi' + 1) * int ?d" using r(4) by (intro mult_right_mono) auto
    ultimately have "(int (code_of t) + 1) * int ?d \<le> int (code_of s)" using r(2) by linarith
    then have "int ((code_of t + 1) * ?d) \<le> int (code_of s)" by (simp only: of_nat_mult of_nat_add of_nat_1)
    then have "(code_of t + 1) * ?d \<le> code_of s" by (simp only: of_nat_le_iff)
    moreover have "code_of s < (code_of t + 1) * ?d" using assms(4) by (metis add.commute dividend_less_times_div mult.commute plus_1_eq_Suc mult_Suc_right zero_less_numeral zero_less_power)
    ultimately show ?thesis by simp
  qed
qed

section \<open>Decoding\<close>

definition code_bits :: "nat \<Rightarrow> bool list" where
  "code_bits s = to_bits (len_of_code s) (code_of s)"

lemma find_SomeD: "find P xs = Some x \<Longrightarrow> x \<in> set xs \<and> P x"
  by (auto simp: find_Some_iff)

lemma table_find_Some: "table_find c l = Some s \<Longrightarrow> s < 257 \<and> code_of s = unat c \<and> len_of_code s = l"
  using long_codes(2)
  by (auto simp: table_find_def code_of_def len_of_code_def in_set_enumerate_eq prod_eq_iff dest!: find_SomeD split: prod.splits)

lemma table_find_None: "table_find c l = None \<Longrightarrow> s < 257 \<Longrightarrow> \<not> (code_of s = unat c \<and> len_of_code s = l)"
  using long_codes(2)
  by (auto simp: table_find_def find_None_iff in_set_enumerate_eq code_of_def len_of_code_def word_unat_eq_iff split: prod.splits)

lemma huffman_match_first:
  assumes "\<forall>a \<in> set as. a \<le> tb \<and> table_find (ucast (drop_bit (f - a) w)) a = None"
    and "l \<le> tb" "table_find (ucast (drop_bit (f - l) w)) l = Some s"
  shows "huffman_match tb w f (as @ l # bs) = Some (s, l)"
  using assms by (induction as) auto

lemma huffman_match_none:
  "\<forall>a \<in> set ls. a \<le> tb \<longrightarrow> table_find (ucast (drop_bit (f - a) w)) a = None \<Longrightarrow> huffman_match tb w f ls = None"
  by (induction ls) auto

text \<open>The candidate of a length are the next bits.\<close>

lemma candidate_value:
  assumes "unat w = bval (take tb rest)" "l \<le> tb" "tb \<le> length rest" "tb \<le> 30"
  shows "unat (ucast (drop_bit (tb - l) (w :: u64)) :: u32) = bval (take l rest)"
proof -
  let ?hi = "bval (take l rest)" and ?lo = "bval (drop l (take tb rest))"
  have "take tb rest = take l rest @ drop l (take tb rest)" using assms(2) by (metis append_take_drop_id min_absorb1 take_take)
  then have w: "unat w = ?hi * 2 ^ (tb - l) + ?lo"
    using assms(1,3) bval_append [of "take l rest" "drop l (take tb rest)"] by simp
  have "?lo < 2 ^ (tb - l)" using bval_bound [of "drop l (take tb rest)"] assms(3) by simp
  then have hi: "unat (drop_bit (tb - l) w) = ?hi" 
  proof -
    have "unat (drop_bit (tb - l) w) = unat w div 2 ^ (tb - l)" by (simp add: unat_drop_bit_eq drop_bit_eq_div [of _ "unat w"])
    with \<open>?lo < 2 ^ (tb - l)\<close> show ?thesis by (simp add: w)
  qed
  have "?hi < 2 ^ l" using bval_bound [of "take l rest"] assms(2,3) by simp
  also have "\<dots> \<le> 2 ^ 30" using assms(2,4) by (intro power_increasing) auto
  finally have "take_bit 32 ?hi = ?hi" by (intro take_bit_nat_eq_self) simp
  then show ?thesis by (simp add: unsigned_ucast_eq hi)
qed

lemma length_code_bits [simp]: "length (code_bits s) = len_of_code s"
  by (simp add: code_bits_def)

lemma ranges_fit: "map_of RANGES l = Some (lo, hi) \<Longrightarrow> hi < 2 ^ l"
  by (auto simp: RANGES_def split: if_splits)

lemma bval_code_bits:
  assumes "good s"
  shows "bval (code_bits s) = code_of s"
proof -
  have "s < 257" "len_of_code s \<noteq> 30" using assms good_iff [of s] by (auto simp: good_def)
  from code_range [OF this] obtain lo hi where "map_of RANGES (len_of_code s) = Some (lo, hi)" "int (code_of s) \<le> hi" by blast
  with ranges_fit [OF this(1)] have "int (code_of s) < 2 ^ len_of_code s" by linarith
  then have "code_of s < 2 ^ len_of_code s" by (metis of_nat_less_iff of_nat_numeral of_nat_power)
  then show ?thesis by (simp add: code_bits_def bval_to_bits)
qed

lemma match_next_code:
  assumes "good s" "rest = code_bits s @ more_bits" "tb = min (length rest) 30" "unat w = bval (take tb rest)"
  shows "huffman_match tb w tb CODE_LENS = Some (s, len_of_code s)"
proof -
  let ?l = "len_of_code s"
  have l: "5 \<le> ?l" "?l \<le> 28" using good_len [OF assms(1)] by auto
  then have lt: "?l \<le> tb" using assms(2,3) by simp
  have lens: "CODE_LENS = [5..<?l] @ ?l # [Suc ?l..<31]"
    using upt_add_eq_append [of 5 ?l "31 - ?l"] upt_conv_Cons [of ?l 31] l by (simp add: CODE_LENS_def del: upt_Suc upt_rec_numeral)
  have cand: "unat (ucast (drop_bit (tb - a) w) :: u32) = code_of s div 2 ^ (?l - a)" if "a \<le> ?l" for a
  proof -
    have "bval (code_bits s) = bval (take a (code_bits s)) * 2 ^ (?l - a) + bval (drop a (code_bits s))"
      using bval_append [of "take a (code_bits s)" "drop a (code_bits s)"] by simp
    moreover have "bval (drop a (code_bits s)) < 2 ^ (?l - a)" using bval_bound [of "drop a (code_bits s)"] by simp
    ultimately have "bval (code_bits s) div 2 ^ (?l - a) = bval (take a (code_bits s))" by simp
    then show ?thesis using candidate_value [OF assms(4), of a] that lt assms(2,3) bval_code_bits [OF assms(1)] by simp
  qed
  have unique: "s' = s" if "table_find (ucast (drop_bit (tb - a) w)) a = Some s'" "a \<le> ?l" for a s'
    using prefix_free [OF assms(1), of s'] table_find_Some [OF that(1)] cand [OF that(2)] that(2) by simp
  have "s < 257" using assms(1) by (simp add: good_def)
  then have "table_find (ucast (drop_bit (tb - ?l) w)) ?l = Some s"
    using table_find_None [of "ucast (drop_bit (tb - ?l) w)" ?l s] unique [of ?l] cand [of ?l]
    by (cases "table_find (ucast (drop_bit (tb - ?l) w)) ?l") auto
  moreover have "table_find (ucast (drop_bit (tb - a) w)) a = None" if "a \<in> set [5..<?l]" for a
    using unique [of a] that table_find_Some [of "ucast (drop_bit (tb - a) w)" a]
    by (cases "table_find (ucast (drop_bit (tb - a) w)) a") auto
  ultimately show ?thesis unfolding lens using lt by (intro huffman_match_first) auto
qed

text \<open>The padding of fewer than eight ones is no code.\<close>

lemma match_padding:
  assumes "k < 8" "unat w = bval (replicate k True)"
  shows "huffman_match k w k CODE_LENS = None"
proof -
  have ends: "map_of RANGES 5 = Some (0, 9)" "map_of RANGES 6 = Some (0x14, 0x2d)" "map_of RANGES 7 = Some (0x5c, 0x7b)"
    by (simp_all add: RANGES_def)
  have beyond: "False" if "table_find c l = Some s" "map_of RANGES l = Some (lo, hi)" "hi < int (unat c)" for c l s lo hi
  proof -
    from table_find_Some [OF that(1)] range_bounds [OF that(2)] have "s < 257" "len_of_code s \<noteq> 30" "len_of_code s = l" "code_of s = unat c"
      by auto
    with code_range [OF this(1,2)] that(2,3) show False by simp
  qed
  have none: "table_find 31 5 = None" "table_find 63 6 = None" "table_find 127 7 = None"
    using beyond [OF _ ends(1), of 31] beyond [OF _ ends(2), of 63] beyond [OF _ ends(3), of 127] by (simp_all, (metis not_None_eq)+)
  have "table_find (ucast (drop_bit (k - a) w)) a = None" if "a \<in> set CODE_LENS" "a \<le> k" for a
  proof -
    have "unat w = bval (take k (replicate k True))" using assms(2) by simp
    from candidate_value [OF this that(2)] assms(1) have "unat (ucast (drop_bit (k - a) w) :: u32) = bval (replicate a True)"
      using that(2) by (simp add: min_def)
    then have "unat (ucast (drop_bit (k - a) w) :: u32) + 1 = 2 ^ a" using bval_ones [of a] by simp
    moreover have "a \<in> {5, 6, 7}" using that assms(1) by (auto simp: CODE_LENS_def)
    ultimately have "(a = 5 \<and> ucast (drop_bit (k - a) w) = (31 :: u32)) \<or> (a = 6 \<and> ucast (drop_bit (k - a) w) = (63 :: u32))
        \<or> (a = 7 \<and> ucast (drop_bit (k - a) w) = (127 :: u32))"
      by (auto simp: word_unat_eq_iff)
    then show ?thesis using none by metis
  qed
  then show ?thesis by (intro huffman_match_none) blast
qed

lemma huffman_loop_codes:
  assumes "drop bp (bits data) = concat (map code_bits syms) @ replicate k True" "\<forall>s \<in> set syms. good s" "k < 8"
    and "bp \<le> length data * 8"
  shows "huffman_loop data bp out = out @ map word_of_nat syms"
  using assms
proof (induction syms arbitrary: bp out)
  case Nil
  have k: "length data * 8 - bp = k" using arg_cong [OF Nil(1), of length] by simp
  show ?case
  proof (cases "bp < length data * 8")
    case True
    obtain w where w: "fetch_window data k bp 0 0 = (w, k)" "unat w = bval (take k (drop bp (bits data)))"
      using fetch_window_value [of bp k data 0 0] k True Nil(3) power_increasing [of k 64 "2 :: nat"] by auto
    from match_padding [OF Nil(3), of w] w Nil(1) k show ?thesis using Nil(3) True
      by (subst huffman_loop.simps) (simp add: min_def)
  next
    case False
    then show ?thesis by (simp add: huffman_loop.simps)
  qed
next
  case (Cons s syms)
  let ?rest = "drop bp (bits data)" let ?tb = "min (length data * 8 - bp) 30"
  have g: "good s" using Cons.prems(2) by simp
  have rest: "?rest = code_bits s @ (concat (map code_bits syms) @ replicate k True)" using Cons.prems(1) by simp
  have len: "bp + len_of_code s \<le> length data * 8" "5 \<le> len_of_code s"
    using arg_cong [OF rest, of length] good_len [OF g] Cons.prems(4) by auto
  obtain w where w: "fetch_window data ?tb bp 0 0 = (w, ?tb)" "unat w = bval (take ?tb ?rest)"
    
  proof -
    have "bp + ?tb \<le> length data * 8" "?tb \<le> 64" using Cons.prems(4) by auto
    with fetch_window_value [of bp ?tb data 0 0] power_increasing [of ?tb 64 "2 :: nat"] that show thesis by auto
  qed
  have m: "huffman_match ?tb w ?tb CODE_LENS = Some (s, len_of_code s)"
    using match_next_code [OF g rest _ w(2)] by simp
  have "drop (bp + len_of_code s) (bits data) = concat (map code_bits syms) @ replicate k True"
    using arg_cong [OF rest, of "drop (len_of_code s)"] by (simp add: add.commute)
  from Cons.IH [OF this _ Cons.prems(3) len(1), of "out @ [word_of_nat s]"] Cons.prems(2)
  have ih: "huffman_loop data (bp + len_of_code s) (out @ [word_of_nat s]) = out @ map word_of_nat (s # syms)" by simp
  have "bp < length data * 8" "s \<noteq> 256" using len g by (auto simp: good_def)
  then show ?case by (subst huffman_loop.simps) (simp only: Let_def w(1) m ih if_True option.case prod.case if_False)
qed

text \<open>The decoder inverts the code on every text of good symbols, whatever the padding.\<close>

lemma huffman_decode_codes:
  assumes "bits data = concat (map (\<lambda>b. code_bits (unat b)) bs) @ replicate k True" "k < 8" "\<forall>b \<in> set bs. good (unat b)"
  shows "huffman_decode data = from_utf8_lossy bs"
proof -
  have "huffman_loop data 0 [] = [] @ map word_of_nat (map unat bs)"
    by (rule huffman_loop_codes [where k = k]) (use assms in \<open>simp_all add: o_def\<close>)
  then show ?thesis by (simp add: huffman_decode_def o_def)
qed

text \<open>
  The Huffman decoder of header strings inverts the code of its table: the bits of any text without line feed, carriage
  return and SYN, coded symbol by symbol and padded with fewer than eight ones, are decoded to this text.
\<close>

theorem hy2_huffman_inverts:
  assumes "bits data = concat (map (\<lambda>b. code_bits (unat b)) (as_bytes s)) @ replicate k True" "k < 8"
    and "str_ok s" "\<forall>b \<in> set (as_bytes s). b \<noteq> 10 \<and> b \<noteq> 13 \<and> b \<noteq> 22"
  shows "huffman_decode data = s"
proof -
  have "\<forall>b \<in> set (as_bytes s). good (unat b)" using assms(4) by (auto simp: good_def word_unat_eq_iff)
  from huffman_decode_codes [OF assms(1,2) this] assms(3) show ?thesis by (simp add: from_utf8_lossy_as_bytes)
qed

lemma digit_codes: "TABLE ! 50 = (2, 5)" "TABLE ! 51 = (0x19, 6)"
  by (simp_all add: TABLE_def)

theorem hy2_huffman_inverts_witness: "huffman_decode [0x13, 0x2c, 0xff] = ''233''"
proof (rule hy2_huffman_inverts [where k = 7])
  have "map unat (as_bytes ''233'') = [50, 51, 51]" by code_simp
  then have "map code_bits (map unat (as_bytes ''233'')) = map code_bits [50, 51, 51]" by (rule arg_cong)
  then have "map (\<lambda>b. code_bits (unat b)) (as_bytes ''233'') = map code_bits [50, 51, 51]" by (simp only: map_map o_def)
  moreover have "code_bits 50 = to_bits 5 2" "code_bits 51 = to_bits 6 0x19"
    by (simp_all add: code_bits_def len_of_code_def code_of_def digit_codes)
  moreover have "concat (map (\<lambda>b. b) [to_bits 5 2, to_bits 6 0x19, to_bits 6 0x19]) @ replicate 7 True = [False, False, False, True, False,
      False, True, True, False, False, True, False, True, True, False, False, True, True, True, True, True, True, True, True]" by code_simp
  moreover have "bits [0x13, 0x2c, 0xff] = [False, False, False, True, False, False, True, True, False, False, True, False, True, True,
      False, False, True, True, True, True, True, True, True, True]" by code_simp
  ultimately show "bits [0x13, 0x2c, 0xff] = concat (map (\<lambda>b. code_bits (unat b)) (as_bytes ''233'')) @ replicate 7 True"
    by simp
  show "str_ok ''233''" by (rule str_ok_ascii) (simp add: ascii_def code_def)
  show "\<forall>b \<in> set (as_bytes ''233''). b \<noteq> 10 \<and> b \<noteq> 13 \<and> b \<noteq> 22" by code_simp
qed simp

text \<open>The symbols left out: line feed has the code of the end of the text, SYN the one of carriage return.\<close>

lemma shared_codes: "TABLE ! 10 = TABLE ! 256" "TABLE ! 13 = TABLE ! 22"
  by (simp_all add: TABLE_def)

end
