(* ===== verification/Hysteria2.thy ===== *)
theory Hysteria2
  imports Hy2_Huffman Config_Types Relay
begin

text \<open>
  The Hysteria2 outbound (\<open>outbound/hy2.rs\<close>, with the helpers of \<open>outbound/proto.rs\<close>) and inbound
  (\<open>inbound/hysteria2_server.rs\<close>): authentication over HTTP/3, requests for TCP connections, datagrams with their
  fragmentation and reassembly, the cached connection. QUIC itself is the quinn crate: a connection is what it delivers, the
  bytes of a stream and the sequence of datagrams; the clock that seeds paddings and packet numbers is an argument.
\<close>

section \<open>Constants\<close>

definition URL_HOST :: string where "URL_HOST = ''hysteria''"
definition URL_PATH :: string where "URL_PATH = ''/auth''"
definition STATUS_AUTH_OK :: nat where "STATUS_AUTH_OK = 233"
definition FRAME_TYPE_TCP_REQUEST :: u64 where "FRAME_TYPE_TCP_REQUEST = 0x401"
definition MAX_MESSAGE_LENGTH :: u64 where "MAX_MESSAGE_LENGTH = 2048"
definition MAX_PADDING_LENGTH :: u64 where "MAX_PADDING_LENGTH = 4096"
definition RESP_HEADER_UDP :: string where "RESP_HEADER_UDP = ''hysteria-udp''"
definition RESP_HEADER_CC_RX :: string where "RESP_HEADER_CC_RX = ''hysteria-cc-rx''"
definition MAX_DATAGRAM_PAYLOAD :: nat where "MAX_DATAGRAM_PAYLOAD = 1100"

section \<open>Padding and addresses\<close>

definition PADDING_CHARS :: string where
  "PADDING_CHARS = ''abcdefghijklmnopqrstuvwxyzABCDEFGHIJKLMNOPQRSTUVWXYZ0123456789''"

text \<open>\<open>seed\<close> are the nanoseconds of the clock.\<close>

definition random_padding :: "nat \<Rightarrow> nat \<Rightarrow> nat \<Rightarrow> string" where
  "random_padding lo hi seed =
     map (\<lambda>i. PADDING_CHARS ! unat ((word_of_nat seed + word_of_nat i * 6364136223846793005 :: u64) mod 62))
       [0..<lo + seed mod (hi - lo)]"

definition show_socket_addr :: "SocketAddr \<Rightarrow> string" where
  "show_socket_addr a =
     (case sa_ip a of V4 ip \<Rightarrow> show_ipv4 ip | V6 ip \<Rightarrow> ''['' @ show_ipv6 ip @ '']'') @ '':'' @ show_nat (unat (sa_port a))"

definition target_to_addr_str :: "Target \<Rightarrow> string" where
  "target_to_addr_str t = (case t of Domain h p \<Rightarrow> h @ '':'' @ show_nat (unat p) | Socket a \<Rightarrow> show_socket_addr a)"

section \<open>Authentication\<close>

record AuthInfo =
  udp_enabled :: bool
  tx_bps :: u64

text \<open>What the client writes to the control stream and the two QPACK streams, and its request.\<close>

definition control_stream :: bytes where "control_stream = [0x00] @ write_h3_frame 0x04 []"
definition qpack_encoder_stream :: bytes where "qpack_encoder_stream = [0x02]"
definition qpack_decoder_stream :: bytes where "qpack_decoder_stream = [0x03]"

definition auth_headers :: "Hysteria2OutboundConfig \<Rightarrow> nat \<Rightarrow> (string \<times> string) list" where
  "auth_headers cfg seed =
     [('':method'', ''POST''), ('':scheme'', ''https''), ('':authority'', URL_HOST), ('':path'', URL_PATH),
      (''hysteria-auth'', hy_password cfg), (''hysteria-cc-rx'', show_nat (unat (mbps_to_bps (hy_down_mbps cfg)))),
      (''hysteria-padding'', random_padding 256 2048 seed)]"

definition auth_request :: "Hysteria2OutboundConfig \<Rightarrow> nat \<Rightarrow> bytes" where
  "auth_request cfg seed = write_h3_frame 0x01 ([0x00, 0x00] @ header_block (auth_headers cfg seed))"

lemma read_varint_consumes: "run read_varint_async inp = (Inr v, out, rest) \<Longrightarrow> length rest < length inp"
  by (auto simp: read_varint_async_def read_u8_def Let_def split: if_splits)

lemma read_h3_frame_consumes: "run read_h3_frame inp = (Inr f, out, rest) \<Longrightarrow> length rest < length inp"
  by (auto simp: read_h3_frame_def run_bind ensure_def Let_def split: if_splits sum.splits prod.splits dest!: read_varint_consumes)

text \<open>
  The headers of the answer on the bytes the stream delivers: data frames are skipped. The outer option is a panic of the
  header parser.
\<close>

function auth_read_headers :: "bytes \<Rightarrow> (string + (string \<times> string) list) option" where
  "auth_read_headers inp =
     (case run read_h3_frame inp of
        (Inl e, _, _) \<Rightarrow> Some (Inl e)
      | (Inr (frame_type, payload), _, rest) \<Rightarrow>
          if frame_type = 0x01 then parse_headers_from_qpack payload
          else if frame_type = 0x00 then auth_read_headers rest
          else Some (Inl (''hy2 auth: unexpected H3 frame type 0x'' @ (if frame_type < 16 then ''0'' else [])
            @ show_hex (unat frame_type) @ '', expected HEADERS(0x01)'')))"
  by pat_completeness auto
termination
  by (relation "measure length") (auto dest!: read_h3_frame_consumes [OF sym])

declare auth_read_headers.simps [simp del]

definition eq_ignore_ascii_case :: "string \<Rightarrow> string \<Rightarrow> bool" where
  "eq_ignore_ascii_case a b \<longleftrightarrow> to_ascii_lowercase a = to_ascii_lowercase b"

definition header_find :: "(string \<Rightarrow> bool) \<Rightarrow> (string \<times> string) list \<Rightarrow> string option" where
  "header_find p headers = map_option snd (find (\<lambda>(k, _). p k) headers)"

definition negotiate_tx :: "u64 \<Rightarrow> (string \<times> string) list \<Rightarrow> u64" where
  "negotiate_tx tx_bps_local headers =
     (let server_rx = (case header_find (\<lambda>k. eq_ignore_ascii_case k RESP_HEADER_CC_RX) headers of
            None \<Rightarrow> 0
          | Some v \<Rightarrow>
              if eq_ignore_ascii_case v ''auto'' then - 1
              else (case parse_uint (2 ^ 64 - 1) v of Some n \<Rightarrow> word_of_nat n | None \<Rightarrow> 0))
      in if tx_bps_local = 0 then 0 else if server_rx = 0 then tx_bps_local else min tx_bps_local server_rx)"

text \<open>
  The verdict on the headers. The offending value, printed with Rust's debug escapes, is left out of the message on an
  invalid status. The rate is only stored: \<open>apply_brutal\<close>, which is meant to apply it to the connection, does nothing.
\<close>

definition auth_info :: "Hysteria2OutboundConfig \<Rightarrow> (string \<times> string) list \<Rightarrow> string + AuthInfo" where
  "auth_info cfg headers =
     (let status_str = (case header_find (\<lambda>k. k = '':status'') headers of Some v \<Rightarrow> v | None \<Rightarrow> []) in
      case parse_uint 65535 status_str of
        None \<Rightarrow> Inl ''hy2 auth: invalid :status value''
      | Some status_code \<Rightarrow>
          if status_code \<noteq> STATUS_AUTH_OK then
            Inl (''hy2 auth failed: server returned status '' @ show_nat status_code @ '', expected 233'')
          else Inr \<lparr>udp_enabled =
              (case header_find (\<lambda>k. eq_ignore_ascii_case k RESP_HEADER_UDP) headers of
                 Some v \<Rightarrow> eq_ignore_ascii_case v ''true'' | None \<Rightarrow> False),
            tx_bps = negotiate_tx (mbps_to_bps (hy_up_mbps cfg)) headers\<rparr>)"

definition authenticate :: "Hysteria2OutboundConfig \<Rightarrow> bytes \<Rightarrow> (string + AuthInfo) option" where
  "authenticate cfg inp = map_option (\<lambda>r. res_bind r (auth_info cfg)) (auth_read_headers inp)"

text \<open>
  The cached connection: it is used while it is open, otherwise a new one is made and kept. \<open>is_closed\<close> is the state of a
  connection, \<open>fresh\<close> the outcome of connecting and authenticating.
\<close>

definition get_or_create_connection ::
  "('c \<Rightarrow> bool) \<Rightarrow> string + 'c \<times> AuthInfo \<Rightarrow> ('c \<times> AuthInfo) option \<Rightarrow> (string + 'c \<times> AuthInfo) \<times> ('c \<times> AuthInfo) option" where
  "get_or_create_connection is_closed fresh cached =
     (case cached of
        Some (conn, auth) \<Rightarrow>
          if \<not> is_closed conn then (Inr (conn, auth), cached)
          else (case fresh of Inl e \<Rightarrow> (Inl e, None) | Inr ca \<Rightarrow> (Inr ca, Some ca))
      | None \<Rightarrow> (case fresh of Inl e \<Rightarrow> (Inl e, None) | Inr ca \<Rightarrow> (Inr ca, Some ca)))"

section \<open>TCP connections\<close>

definition hy2_tcp_request :: "Target \<Rightarrow> nat \<Rightarrow> bytes" where
  "hy2_tcp_request t seed =
     (let addr = target_to_addr_str t; padding = random_padding 64 512 seed in
      write_varint FRAME_TYPE_TCP_REQUEST
      @ write_varint (word_of_nat (length addr)) @ as_bytes addr
      @ write_varint (word_of_nat (length padding)) @ as_bytes padding)"

definition read_tcp_response :: "unit proc" where
  "read_tcp_response =
     read_u8 (\<lambda>status.
     proc_bind read_varint_async (\<lambda>msg_len.
     ensure (msg_len \<le> MAX_MESSAGE_LENGTH) ''hy2 response: msg too long''
     (proc_bind
       (if 0 < msg_len then
          Read (unat msg_len) (\<lambda>msg. if status \<noteq> 0 then Err (''hy2 TCP proxy rejected: '' @ from_utf8_lossy msg) else Ret ())
        else if status \<noteq> 0 then Err (''hy2 TCP proxy rejected (status='' @ show_nat (unat status) @ '')'')
        else Ret ()) (\<lambda>_.
     proc_bind read_varint_async (\<lambda>padding_len.
     ensure (padding_len \<le> MAX_PADDING_LENGTH) ''hy2 response: padding too long''
       (if 0 < padding_len then Read (unat padding_len) (\<lambda>_. Ret ()) else Ret ()))))))"

definition open_tcp_stream :: "Target \<Rightarrow> nat \<Rightarrow> unit proc" where
  "open_tcp_stream t seed = Write (hy2_tcp_request t seed) read_tcp_response"

section \<open>Datagrams\<close>

definition build_udp_header :: "u32 \<Rightarrow> u16 \<Rightarrow> u8 \<Rightarrow> u8 \<Rightarrow> string \<Rightarrow> bytes" where
  "build_udp_header session_id packet_id frag_id frag_count addr =
     u32_be session_id @ u16_be packet_id @ [frag_id, frag_count]
     @ write_varint (word_of_nat (length addr)) @ as_bytes addr"

text \<open>The datagrams of one packet, in the order they are sent; \<open>packet_id\<close> are the microseconds of the clock.\<close>

definition send_udp_fragmented :: "u32 \<Rightarrow> u16 \<Rightarrow> string \<Rightarrow> bytes \<Rightarrow> bytes list" where
  "send_udp_fragmented session_id packet_id addr data =
     (let header_overhead = 8 + length (write_varint (word_of_nat (length addr))) + length addr;
          chunk_size = max (MAX_DATAGRAM_PAYLOAD - header_overhead) 1;
          blocks = chunks_of chunk_size data;
          frag_count = word_of_nat (length blocks)
      in map (\<lambda>(frag_id, block). build_udp_header session_id packet_id (word_of_nat frag_id) frag_count addr @ block)
           (List.enumerate 0 blocks))"

definition parse_udp_frag_header :: "bytes \<Rightarrow> (string + bytes \<times> u8 \<times> u8 \<times> u32 \<times> u16) option" where
  "parse_udp_frag_header buf =
     (if length buf < 9 then Some (Inl ''hy2 udp datagram too short'')
      else do {
        session_id \<leftarrow> be32 buf 0;
        packet_id \<leftarrow> slice buf 4 6;
        frag_id \<leftarrow> idx buf 6;
        frag_count \<leftarrow> idx buf 7;
        tail \<leftarrow> slice buf 8 (length buf);
        r \<leftarrow> decode_varint_slice tail;
        case r of
          Inl e \<Rightarrow> Some (Inl e)
        | Inr (addr_len, varint_bytes) \<Rightarrow>
            (let cur = 8 + varint_bytes in
             if length buf < cur + unat addr_len then Some (Inl ''hy2 udp: addr truncated in frag header'')
             else do {
               payload \<leftarrow> slice buf (cur + unat addr_len) (length buf);
               Some (Inr (payload, frag_id, frag_count, session_id, u16_of_be packet_id)) }) })"

text \<open>
  Collecting the fragments from the datagrams that follow; the end of the sequence is the timeout or the end of the
  connection. The result is the packet, if it is complete, with the datagrams left; \<open>None\<close> is a panic.
\<close>

fun reassemble :: "u32 \<Rightarrow> u16 \<Rightarrow> u8 \<Rightarrow> bytes option list \<Rightarrow> nat \<Rightarrow> bytes list \<Rightarrow> (bytes option \<times> bytes list) option" where
  "reassemble sid pid fc frags received [] =
     (if received < unat fc then Some (None, []) else Some (Some (concat (map (case_option [] id) frags)), []))"
| "reassemble sid pid fc frags received (d # ds) =
     (if received < unat fc then
        (case parse_udp_frag_header d of
           None \<Rightarrow> None
         | Some (Inl _) \<Rightarrow> reassemble sid pid fc frags received ds
         | Some (Inr (payload, frag_id, fc', sid', pid')) \<Rightarrow>
             if sid' = sid \<and> pid' = pid \<and> fc' = fc \<and> unat frag_id < length frags \<and> frags ! unat frag_id = None
             then reassemble sid pid fc (frags[unat frag_id := Some payload]) (received + 1) ds
             else reassemble sid pid fc frags received ds)
      else Some (Some (concat (map (case_option [] id) frags)), d # ds))"

definition recv_udp_reassemble :: "bytes \<Rightarrow> bytes list \<Rightarrow> (string + bytes option \<times> bytes list) option" where
  "recv_udp_reassemble first ds = do {
     r \<leftarrow> parse_udp_frag_header first;
     case r of
       Inl e \<Rightarrow> Some (Inl e)
     | Inr (payload0, frag_id0, frag_count, session_id, packet_id) \<Rightarrow>
         if frag_count = 1 then Some (Inr (Some payload0, ds))
         else if unat frag_id0 < unat frag_count then
           map_option Inr (reassemble session_id packet_id frag_count
             ((replicate (unat frag_count) None)[unat frag_id0 := Some payload0]) 1 ds)
         else None }"

text \<open>
  A UDP session: the first packet and the packets that follow have numbers of their own from the counter of the outbound.
\<close>

definition hy2_udp_sessions :: "u32 \<Rightarrow> bool \<Rightarrow> u32 \<times> u32 option \<times> u32" where
  "hy2_udp_sessions counter more_packets =
     (if more_packets then (counter, Some (counter + 1), counter + 2) else (counter, None, counter + 1))"

lemma reassemble_length: "reassemble sid pid fc frags n ds = Some (p, rest) \<Longrightarrow> length rest \<le> length ds"
  by (induction sid pid fc frags n ds rule: reassemble.induct) (fastforce split: if_splits option.splits sum.splits prod.splits)+

lemma recv_udp_reassemble_length:
  assumes "recv_udp_reassemble d ds = Some (Inr (p, rest))"
  shows "length rest \<le> length ds"
proof -
  obtain h where "parse_udp_frag_header d = Some (Inr h)"
  proof (cases "parse_udp_frag_header d")
    case (Some r)
    with assms that show thesis by (cases r) (auto simp: recv_udp_reassemble_def)
  qed (use assms in \<open>simp add: recv_udp_reassemble_def\<close>)
  moreover obtain payload0 frag_id0 fc sid pid where "h = (payload0, frag_id0, fc, sid, pid)" by (cases h)
  ultimately show ?thesis using assms
    by (auto simp: recv_udp_reassemble_def split: if_splits dest: reassemble_length)
qed

text \<open>
  The replies handed to the client, as long as it takes them. The datagrams come in bursts: between two bursts the deadline
  of a reassembly passes, which gives up an incomplete packet and nothing else.
\<close>

function hy2_udp_replies :: "bytes list list \<Rightarrow> bytes list option" where
  "hy2_udp_replies [] = Some []"
| "hy2_udp_replies ([] # bursts) = hy2_udp_replies bursts"
| "hy2_udp_replies ((d # ds) # bursts) =
     (case recv_udp_reassemble d ds of
        None \<Rightarrow> None
      | Some (Inl _) \<Rightarrow> Some []
      | Some (Inr (None, rest)) \<Rightarrow> hy2_udp_replies (rest # bursts)
      | Some (Inr (Some p, rest)) \<Rightarrow> map_option (\<lambda>ps. p # ps) (hy2_udp_replies (rest # bursts)))"
  by pat_completeness auto
termination
  by (relation "measure (\<lambda>bursts. sum_list (map (\<lambda>b. Suc (length b)) bursts))") (auto dest!: recv_udp_reassemble_length)

section \<open>The inbound\<close>

definition read_hy2_addr :: "Target proc" where
  "read_hy2_addr =
     read_u8 (\<lambda>atyp.
       if atyp = 0x01 then
         Read 4 (\<lambda>ip. read_u16 (\<lambda>port. Ret (Socket \<lparr>sa_ip = V4 (ipv4_of_bytes ip), sa_port = port\<rparr>)))
       else if atyp = 0x03 then
         read_u8 (\<lambda>dlen. Read (unat dlen) (\<lambda>domain. read_u16 (\<lambda>port.
           case from_utf8 domain of None \<Rightarrow> Err ''invalid utf-8 sequence'' | Some d \<Rightarrow> Ret (Domain d port))))
       else if atyp = 0x04 then
         Read 16 (\<lambda>ip. read_u16 (\<lambda>port. Ret (Socket \<lparr>sa_ip = V6 (ipv6_of_bytes ip), sa_port = port\<rparr>)))
       else Err (''hysteria2: unknown atyp 0x'' @ hex02 atyp))"

text \<open>The target handed to the dispatcher, if the request is for a TCP connection.\<close>

definition handle_hy2_stream :: "string list \<Rightarrow> Target option proc" where
  "handle_hy2_stream passwords =
     read_u8 (\<lambda>token_len. Read (unat token_len) (\<lambda>token.
       ensure (list_ex (\<lambda>p. p = from_utf8_lossy token) passwords) ''hysteria2: unauthorized password''
         (read_u8 (\<lambda>proxy_type. proc_bind read_hy2_addr (\<lambda>t. Ret (if proxy_type = 0x00 then Some t else None))))))"

section \<open>The helpers of \<open>proto.rs\<close>\<close>

definition HY2_ATYP_IPV4 :: u8 where "HY2_ATYP_IPV4 = 0x00"
definition HY2_ATYP_IPV6 :: u8 where "HY2_ATYP_IPV6 = 0x01"
definition HY2_ATYP_DOMAIN :: u8 where "HY2_ATYP_DOMAIN = 0x02"

definition hy2_write_addr :: "Target \<Rightarrow> bytes" where
  "hy2_write_addr t =
     (case t of
        Domain host port \<Rightarrow> [HY2_ATYP_DOMAIN, word_of_nat (length host)] @ as_bytes host @ u16_be port
      | Socket a \<Rightarrow>
          (case sa_ip a of
             V4 ip \<Rightarrow> [HY2_ATYP_IPV4] @ octets4 ip @ u16_be (sa_port a)
           | V6 ip \<Rightarrow> [HY2_ATYP_IPV6] @ octets6 ip @ u16_be (sa_port a)))"

definition hy2_build_tcp_request :: "Target \<Rightarrow> bytes" where
  "hy2_build_tcp_request t = hy2_write_addr t @ u16_be 0"

definition hy2_build_udp_datagram :: "bytes \<Rightarrow> Target \<Rightarrow> u32 \<Rightarrow> bytes" where
  "hy2_build_udp_datagram data t session_id = u32_le session_id @ u16_le 0 @ [0x00, 0x01] @ hy2_write_addr t @ data"

definition hy2_parse_udp_datagram :: "bytes \<Rightarrow> (string + u32 \<times> bytes \<times> Target) option" where
  "hy2_parse_udp_datagram buf =
     (if length buf < 8 then Some (Inl ''hy2 udp datagram too short'')
      else if length buf \<le> 8 then Some (Inl ''hy2 udp: missing addr type'')
      else do {
        sid \<leftarrow> slice buf 0 4;
        atyp \<leftarrow> idx buf 8;
        if atyp = HY2_ATYP_IPV4 then
          (if length buf < 9 + 6 then Some (Inl ''Condition failed: `buf.len() >= cur + 6`'')
           else do {
             ip \<leftarrow> slice buf 9 13; port \<leftarrow> slice buf 13 15; payload \<leftarrow> slice buf 15 (length buf);
             Some (Inr (u32_of_le sid, payload, Socket \<lparr>sa_ip = V4 (ipv4_of_bytes ip), sa_port = u16_of_be port\<rparr>)) })
        else if atyp = HY2_ATYP_IPV6 then
          (if length buf < 9 + 18 then Some (Inl ''Condition failed: `buf.len() >= cur + 18`'')
           else do {
             ip \<leftarrow> slice buf 9 25; port \<leftarrow> slice buf 25 27; payload \<leftarrow> slice buf 27 (length buf);
             Some (Inr (u32_of_le sid, payload, Socket \<lparr>sa_ip = V6 (ipv6_of_bytes ip), sa_port = u16_of_be port\<rparr>)) })
        else if atyp = HY2_ATYP_DOMAIN then
          (if length buf \<le> 9 then Some (Inl ''Condition failed: `buf.len() > cur`'')
           else do {
             dlen \<leftarrow> idx buf 9;
             let stop = 10 + unat dlen;
             if length buf < stop + 2 then Some (Inl ''Condition failed: `buf.len() >= cur + dlen + 2`'')
             else do {
               domain \<leftarrow> slice buf 10 stop;
               case from_utf8 domain of
                 None \<Rightarrow> Some (Inl ''invalid utf-8 sequence'')
               | Some d \<Rightarrow> do {
                   port \<leftarrow> slice buf stop (stop + 2); payload \<leftarrow> slice buf (stop + 2) (length buf);
                   Some (Inr (u32_of_le sid, payload, Domain d (u16_of_be port))) } } })
        else Some (Inl (''unknown atyp 0x'' @ hex02 atyp)) })"

section \<open>Authentication is understood\<close>

lemma random_padding_props:
  assumes "lo < hi"
  shows "lo \<le> length (random_padding lo hi seed)" "length (random_padding lo hi seed) < hi" "ascii (random_padding lo hi seed)"
proof -
  show "lo \<le> length (random_padding lo hi seed)" by (simp add: random_padding_def)
  have "seed mod (hi - lo) < hi - lo" using assms by simp
  then show "length (random_padding lo hi seed) < hi" by (simp add: random_padding_def)
  have all: "list_all (\<lambda>c. code c < 128) PADDING_CHARS" and len: "length PADDING_CHARS = 62" by code_simp+
  have "unat (x mod 62 :: u64) < 62" for x by (simp add: unat_mod)
  then have "PADDING_CHARS ! unat (x mod 62 :: u64) \<in> set PADDING_CHARS" for x using len by simp
  then show "ascii (random_padding lo hi seed)"
    using all by (auto simp: ascii_def random_padding_def list_all_iff)
qed

lemma show_nat_ascii: "ascii (show_nat n)"
  by (auto simp: ascii_def is_digit_def dest!: show_nat_digits)

lemma show_nat_length: "n < 10 ^ Suc k \<Longrightarrow> length (show_nat n) \<le> Suc k"
proof (induction k arbitrary: n)
  case (Suc k)
  from Suc.prems have "n div 10 < 10 ^ Suc k" by (simp add: less_mult_imp_div_less mult.commute)
  from Suc.IH [OF this] show ?case by (subst show_nat.simps) simp
qed (simp add: show_nat.simps)

lemma auth_headers_ok:
  assumes "str_ok (hy_password cfg)" "length (hy_password cfg) \<noteq> 127"
  shows "list_all header_ok (auth_headers cfg seed)"
proof -
  have short: "length (show_nat (unat (mbps_to_bps (hy_down_mbps cfg)))) \<noteq> 127"
  proof -
    have "unat (mbps_to_bps (hy_down_mbps cfg)) < 10 ^ Suc 19" using unsigned_less [of "mbps_to_bps (hy_down_mbps cfg)", where 'a = nat] by simp
    from show_nat_length [OF this] show ?thesis by simp
  qed
  have "length (random_padding 256 2048 seed) \<noteq> 127" using random_padding_props(1) [of 256 2048 seed] by simp
  moreover have "str_ok (random_padding 256 2048 seed)" by (rule str_ok_ascii) (simp add: random_padding_props)
  moreover have "str_ok (show_nat n)" for n by (rule str_ok_ascii [OF show_nat_ascii])
  moreover have "str_ok s" if "s \<in> {'':method'', ''POST'', '':scheme'', ''https'', '':authority'', ''hysteria'', '':path'', ''/auth'',
      ''hysteria-auth'', ''hysteria-cc-rx'', ''hysteria-padding''}" for s
    using that by (intro str_ok_ascii) (auto simp: ascii_def code_def)
  ultimately show ?thesis using assms short by (simp add: auth_headers_def header_ok_def URL_HOST_def URL_PATH_def)
qed

lemma length_put_int_rest: "length (put_int_rest r) \<le> r + 1"
proof (induction r rule: put_int_rest.induct)
  case (1 r)
  show ?case
  proof (cases "128 \<le> r")
    case True
    with 1 have "length (put_int_rest (r div 128)) \<le> r div 128 + 1" by simp
    moreover have "r div 128 < r" using True by simp
    ultimately show ?thesis using True by (simp add: put_int_rest.simps [of r])
  qed (simp add: put_int_rest.simps [of r])
qed

lemma length_put_literal_header: "length (put_literal_header n v) \<le> 2 * (length n + length v) + 4"
  using length_put_int_rest [of "length n - 7"] length_put_int_rest [of "length v - 127"] by (auto simp: put_literal_header_def)

lemma length_header_block: "length (header_block hs) \<le> sum_list (map (\<lambda>h. 2 * (length (fst h) + length (snd h)) + 4) hs)"
proof (induction hs)
  case (Cons h hs)
  with length_put_literal_header [of "as_bytes (fst h)" "as_bytes (snd h)"] show ?case by (simp add: header_block_def)
qed (simp add: header_block_def)

lemma auth_read_headers_answer:
  assumes "length payload \<le> 1024 * 1024" "\<forall>d \<in> set datas. length d \<le> 1024 * 1024"
  shows "auth_read_headers (concat (map (write_h3_frame 0x00) datas) @ write_h3_frame 0x01 payload @ rest) = parse_headers_from_qpack payload"
  using assms(2)
proof (induction datas)
  case Nil
  have "frame_ok (1, payload)" using assms(1) by (simp add: frame_ok_def)
  from h3_frame.decodes [OF this, of rest] show ?case by (subst auth_read_headers.simps) simp
next
  case (Cons d datas)
  have "frame_ok (0, d)" using Cons.prems by (simp add: frame_ok_def)
  from h3_frame.decodes [OF this, of "concat (map (write_h3_frame 0x00) datas) @ write_h3_frame 0x01 payload @ rest"]
    Cons show ?case by (subst auth_read_headers.simps) simp
qed

text \<open>The rate that is computed is never above what is configured nor above what the server allows.\<close>

lemma negotiate_tx_bounds:
  "negotiate_tx local hs \<le> local"
  "header_find (\<lambda>k. eq_ignore_ascii_case k RESP_HEADER_CC_RX) hs = Some (show_nat n) \<Longrightarrow> 0 < n \<Longrightarrow> n < 2 ^ 64 \<Longrightarrow>
     unat (negotiate_tx local hs) \<le> n"
proof -
  show "negotiate_tx local hs \<le> local" by (auto simp: negotiate_tx_def Let_def)
  assume h: "header_find (\<lambda>k. eq_ignore_ascii_case k RESP_HEADER_CC_RX) hs = Some (show_nat n)" and n: "0 < n" "n < 2 ^ 64"
  have "\<not> eq_ignore_ascii_case (show_nat n) ''auto''"
  proof
    assume "eq_ignore_ascii_case (show_nat n) ''auto''"
    moreover obtain c cs where c: "show_nat n = c # cs" by (cases "show_nat n") auto
    moreover have "is_digit c" using show_nat_digits [of c n] c by simp
    ultimately show False
      by (auto simp: eq_ignore_ascii_case_def to_ascii_lowercase_def ascii_lower_def is_ascii_uppercase_def is_digit_def code_def split: if_splits)
  qed
  moreover have "word_of_nat n \<noteq> (0 :: u64)" using n unat_u64_of_nat [of n] by (metis less_numeral_extra(3) unat_0)
  moreover have "min local (word_of_nat n :: u64) \<le> word_of_nat n" by simp
  then have "unat (min local (word_of_nat n :: u64)) \<le> n" using unat_u64_of_nat [OF n(2)] by (metis word_le_nat_alt)
  ultimately show "unat (negotiate_tx local hs) \<le> n" using h n parse_uint_show_nat [of n "2 ^ 64 - 1"] by (simp add: negotiate_tx_def Let_def)
qed

lemma auth_request_length:
  "length (hy_password cfg) \<le> 500000 \<Longrightarrow> length (header_block (auth_headers cfg seed)) + 2 \<le> 1024 * 1024"
proof -
  assume pw: "length (hy_password cfg) \<le> 500000"
  have "unat (mbps_to_bps (hy_down_mbps cfg)) < 10 ^ Suc 19"
    using unsigned_less [of "mbps_to_bps (hy_down_mbps cfg)", where 'a = nat] by simp
  from show_nat_length [OF this] have "length (show_nat (unat (mbps_to_bps (hy_down_mbps cfg)))) \<le> 20" by simp
  with pw length_header_block [of "auth_headers cfg seed"] random_padding_props(2) [of 256 2048 seed] show ?thesis
    by (simp add: auth_headers_def URL_HOST_def URL_PATH_def)
qed

text \<open>
  C34. Authentication. With a password of at most 500000 characters whose length is not 127 (its length byte would be
  misread), a peer that reads the request as an HTTP/3 frame and a QPACK block finds exactly the seven headers, the password
  among them, whatever the padding. The answer is any number of data frames and a headers frame with any payload, indexed
  fields and Huffman strings included: when the QPACK parser finds the headers \<open>hs\<close> in it, the outbound judges by \<open>hs\<close>, and
  it accepts a numeric status exactly when it is 233. In particular a block of literal fields is parsed to exactly its
  headers. The rate the outbound computes is never above the configured one nor above the limit the server announced; this
  is a statement on the number it stores, since the code never applies it to the connection.
\<close>

theorem hy2_authentication:
  assumes "str_ok (hy_password cfg)" "length (hy_password cfg) \<noteq> 127" "length (hy_password cfg) \<le> 500000"
    and "parse_headers_from_qpack payload = Some (Inr hs)" "length payload \<le> 1024 * 1024" "\<forall>d \<in> set datas. length d \<le> 1024 * 1024"
    and "header_find (\<lambda>k. k = '':status'') hs = Some (show_nat st)" "st \<le> 65535"
  shows "(\<exists>block. run read_h3_frame (auth_request cfg seed @ later) = (Inr (0x01, block), [], later)
           \<and> parse_headers_from_qpack block = Some (Inr (auth_headers cfg seed)))
       \<and> (\<exists>r. authenticate cfg (concat (map (write_h3_frame 0x00) datas) @ write_h3_frame 0x01 payload @ rest) = Some r
           \<and> r = auth_info cfg hs \<and> ((\<exists>info. r = Inr info) \<longleftrightarrow> st = 233)
           \<and> (\<forall>info. r = Inr info \<longrightarrow> tx_bps info \<le> mbps_to_bps (hy_up_mbps cfg)
                \<and> (\<forall>n. header_find (\<lambda>k. eq_ignore_ascii_case k RESP_HEADER_CC_RX) hs = Some (show_nat n) \<and> 0 < n \<and> n < 2 ^ 64
                     \<longrightarrow> unat (tx_bps info) \<le> n)))
       \<and> (\<forall>hs'. list_all header_ok hs' \<and> length (header_block hs') < 2 ^ 64 - 2
            \<longrightarrow> parse_headers_from_qpack ([0, 0] @ header_block hs') = Some (Inr hs'))"
proof (intro conjI)
  let ?block = "[0, 0] @ header_block (auth_headers cfg seed)"
  have "frame_ok (1, ?block)" using auth_request_length [OF assms(3)] by (simp add: frame_ok_def)
  from h3_frame.decodes [OF this, of later] parse_header_block [OF _ auth_headers_ok [OF assms(1,2)]] auth_request_length [OF assms(3), of seed]
  show "\<exists>block. run read_h3_frame (auth_request cfg seed @ later) = (Inr (0x01, block), [], later)
      \<and> parse_headers_from_qpack block = Some (Inr (auth_headers cfg seed))"
    by (intro exI [of _ ?block]) (simp add: auth_request_def)
  have info: "auth_info cfg hs = (if st \<noteq> 233 then Inl (''hy2 auth failed: server returned status '' @ show_nat st @ '', expected 233'')
      else Inr \<lparr>udp_enabled = (case header_find (\<lambda>k. eq_ignore_ascii_case k RESP_HEADER_UDP) hs of
          Some v \<Rightarrow> eq_ignore_ascii_case v ''true'' | None \<Rightarrow> False), tx_bps = negotiate_tx (mbps_to_bps (hy_up_mbps cfg)) hs\<rparr>)"
    using assms(7) parse_uint_show_nat [OF assms(8)] by (simp add: auth_info_def STATUS_AUTH_OK_def)
  show "\<exists>r. authenticate cfg (concat (map (write_h3_frame 0x00) datas) @ write_h3_frame 0x01 payload @ rest) = Some r
      \<and> r = auth_info cfg hs \<and> ((\<exists>info. r = Inr info) \<longleftrightarrow> st = 233)
      \<and> (\<forall>info. r = Inr info \<longrightarrow> tx_bps info \<le> mbps_to_bps (hy_up_mbps cfg)
           \<and> (\<forall>n. header_find (\<lambda>k. eq_ignore_ascii_case k RESP_HEADER_CC_RX) hs = Some (show_nat n) \<and> 0 < n \<and> n < 2 ^ 64
                \<longrightarrow> unat (tx_bps info) \<le> n))"
    unfolding authenticate_def auth_read_headers_answer [OF assms(5,6)] assms(4)
    by (auto simp: info negotiate_tx_bounds)
  show "\<forall>hs'. list_all header_ok hs' \<and> length (header_block hs') < 2 ^ 64 - 2
      \<longrightarrow> parse_headers_from_qpack ([0, 0] @ header_block hs') = Some (Inr hs')" using parse_header_block by blast
qed

section \<open>TCP requests are understood\<close>

text \<open>The two messages as the protocol describes them: the reader of a request, the writer of an answer.\<close>

definition spec_read_block :: "bytes proc" where
  "spec_read_block = proc_bind read_varint_async (\<lambda>n. Read (unat n) Ret)"

definition spec_read_request :: "(u64 \<times> bytes \<times> bytes) proc" where
  "spec_read_request =
     proc_bind read_varint_async (\<lambda>ty. proc_bind spec_read_block (\<lambda>addr. proc_bind spec_read_block (\<lambda>padding. Ret (ty, addr, padding))))"

definition spec_block :: "bytes \<Rightarrow> bytes" where
  "spec_block bs = write_varint (word_of_nat (length bs)) @ bs"

definition spec_response :: "u8 \<Rightarrow> bytes \<Rightarrow> bytes \<Rightarrow> bytes" where
  "spec_response status msg padding = status # spec_block msg @ spec_block padding"

lemma small_length: "length bs < 2 ^ 62 \<Longrightarrow> unat (word_of_nat (length bs) :: u64) = length bs \<and> (word_of_nat (length bs) :: u64) < 2 ^ 62"
  by (simp add: word_less_nat_alt unat_u64_of_nat)

interpretation block_codec: stream_codec spec_block spec_read_block "\<lambda>bs. length bs < 2 ^ 62"
proof
  fix bs :: bytes
  assume "length bs < 2 ^ 62"
  note small = small_length [OF this]
  have "reads (Read (unat (word_of_nat (length bs) :: u64)) Ret) bs bs" using small by (simp add: talk)
  then show "reads spec_read_block (spec_block bs) bs"
    unfolding spec_read_block_def spec_block_def using small by (intro reads_bind [OF varint.dec_enc]) auto
qed

lemma tcp_request_read:
  assumes "length (target_to_addr_str t) < 2 ^ 62"
  shows "reads spec_read_request (hy2_tcp_request t seed) (0x401, as_bytes (target_to_addr_str t), as_bytes (random_padding 64 512 seed))"
proof -
  have pad: "length (as_bytes (random_padding 64 512 seed)) < 2 ^ 62" using random_padding_props(2) [of 64 512 seed] by simp
  have addr: "length (as_bytes (target_to_addr_str t)) < 2 ^ 62" using assms by simp
  have "reads spec_read_request (write_varint 0x401 @ spec_block (as_bytes (target_to_addr_str t)) @ spec_block (as_bytes (random_padding 64 512 seed)) @ [])
      (0x401, as_bytes (target_to_addr_str t), as_bytes (random_padding 64 512 seed))"
    unfolding spec_read_request_def
    by (intro reads_bind [OF varint.dec_enc] reads_bind [OF block_codec.dec_enc [OF addr]] reads_bind [OF block_codec.dec_enc [OF pad]] reads_Ret) simp
  then show ?thesis by (simp add: hy2_tcp_request_def FRAME_TYPE_TCP_REQUEST_def spec_block_def Let_def)
qed

lemma proc_bind_Ret: "proc_bind p Ret = p"
  by (induction p) auto

lemma read_then_unit:
  assumes "length bs \<le> m" "m < 2 ^ 62" "k = word_of_nat (length bs)"
  shows "reads (if 0 < k then Read (unat k) (\<lambda>_. Ret ()) else Ret ()) bs ()" "(k :: u64) \<le> word_of_nat m" "k < 2 ^ 62"
proof -
  have n: "unat k = length bs" "unat (word_of_nat m :: u64) = m" "k < 2 ^ 62" using small_length [of bs] assms by (auto simp: unat_u64_of_nat)
  then show "k \<le> word_of_nat m" "k < 2 ^ 62" using assms(1) by (simp_all add: word_le_nat_alt)
  have "0 < k \<longleftrightarrow> bs \<noteq> []" using n(1) by (simp add: word_less_nat_alt)
  then show "reads (if 0 < k then Read (unat k) (\<lambda>_. Ret ()) else Ret ()) bs ()" using n(1) by (auto simp: talk)
qed

lemma tcp_response_accepted:
  assumes "length msg \<le> 2048" "length padding \<le> 4096"
  shows "reads read_tcp_response (spec_response 0 msg padding) ()"
proof -
  let ?m = "word_of_nat (length msg) :: u64" and ?p = "word_of_nat (length padding) :: u64"
  note m = read_then_unit [OF assms(1) _ refl] and p = read_then_unit [OF assms(2) _ refl]
  have "reads (if 0 < ?p then Read (unat ?p) (\<lambda>_. Ret ()) else Ret ()) padding ()" by (rule p(1)) simp
  then have "reads (proc_bind read_varint_async (\<lambda>padding_len. ensure (padding_len \<le> MAX_PADDING_LENGTH) ''hy2 response: padding too long''
       (if 0 < padding_len then Read (unat padding_len) (\<lambda>_. Ret ()) else Ret ()))) (spec_block padding) ()"
    unfolding spec_block_def using p(2,3) by (intro reads_bind [OF varint.dec_enc]) (simp_all add: MAX_PADDING_LENGTH_def)
  moreover have "reads (if 0 < ?m then Read (unat ?m) (\<lambda>msg. Ret ()) else Ret ()) msg ()" by (rule m(1)) simp
  ultimately have "reads (proc_bind (if 0 < ?m then Read (unat ?m) (\<lambda>msg. Ret ()) else Ret ()) (\<lambda>_. proc_bind read_varint_async
       (\<lambda>padding_len. ensure (padding_len \<le> MAX_PADDING_LENGTH) ''hy2 response: padding too long''
       (if 0 < padding_len then Read (unat padding_len) (\<lambda>_. Ret ()) else Ret ())))) (msg @ spec_block padding) ()"
    by (rule reads_bind [rotated])
  then show ?thesis unfolding read_tcp_response_def spec_response_def reads_u8 spec_block_def [of msg] append_assoc
    using m(2,3) by (intro reads_bind [OF varint.dec_enc]) (auto simp: MAX_MESSAGE_LENGTH_def split: if_splits)
qed

lemma tcp_response_refused:
  assumes "length msg \<le> 2048" "status \<noteq> 0"
  shows "\<exists>e rest'. run read_tcp_response (spec_response status msg padding @ rest) = (Inl e, [], rest')"
proof -
  let ?m = "word_of_nat (length msg) :: u64"
  have m: "unat ?m = length msg" "?m \<le> 2048" "?m < 2 ^ 62"
    using small_length [of msg] read_then_unit(2) [OF assms(1) _ refl] assms(1) by auto
  note d = varint.decodes [OF m(3)] varint.decodes [of 0, simplified]
  show ?thesis using m assms(2)
    by (cases "msg = []") (auto simp: read_tcp_response_def spec_response_def spec_block_def run_bind d MAX_MESSAGE_LENGTH_def word_less_nat_alt)
qed

text \<open>
  Opening a TCP connection over Hysteria2. Against a server that follows the protocol, every interleaving of the two
  ends finishes; the server has read the address of the target, and the outbound accepts exactly the status 0, with
  everything after the answer left for the relay.
\<close>

theorem hy2_tcp_opened:
  assumes "length (target_to_addr_str t) < 2 ^ 62" "length msg \<le> 2048" "length padding \<le> 4096"
  shows "comes_to (open_tcp_stream t seed,
      proc_bind spec_read_request (\<lambda>(ty, addr, _). Write (spec_response 0 msg padding @ later) (Ret (ty, addr))), [], [])
     (Ret (), Ret (FRAME_TYPE_TCP_REQUEST, as_bytes (target_to_addr_str t)), [], later)
     \<and> (status \<noteq> 0 \<longrightarrow> (\<exists>e rest. run (open_tcp_stream t seed) (spec_response status msg padding) = (Inl e, hy2_tcp_request t seed, rest)))"
proof (intro conjI impI)
  note req = reads_server [OF tcp_request_read [OF assms(1)], of _ _ _ "[]", simplified]
  have "comes_to (read_tcp_response, Ret (0x401 :: u64, as_bytes (target_to_addr_str t)), [], spec_response 0 msg padding @ later)
      (Ret (), Ret (0x401 :: u64, as_bytes (target_to_addr_str t)), [], later)"
  proof -
    have "comes_to (proc_bind read_tcp_response Ret, Ret (0x401 :: u64, as_bytes (target_to_addr_str t)), [], spec_response 0 msg padding @ later)
      (Ret (), Ret (0x401 :: u64, as_bytes (target_to_addr_str t)), [], later)"
      by (simp add: reads_client [OF tcp_response_accepted [OF assms(2,3)]] talk)
    then show ?thesis by (simp add: proc_bind_Ret)
  qed
  then show "comes_to (open_tcp_stream t seed,
      proc_bind spec_read_request (\<lambda>(ty, addr, _). Write (spec_response 0 msg padding @ later) (Ret (ty, addr))), [], [])
     (Ret (), Ret (FRAME_TYPE_TCP_REQUEST, as_bytes (target_to_addr_str t)), [], later)"
    by (simp add: open_tcp_stream_def talk req FRAME_TYPE_TCP_REQUEST_def)
  show "\<exists>e rest. run (open_tcp_stream t seed) (spec_response status msg padding) = (Inl e, hy2_tcp_request t seed, rest)" if "status \<noteq> 0"
    using tcp_response_refused [OF assms(2) that, of padding "[]"] by (auto simp: open_tcp_stream_def)
qed

section \<open>Datagrams are reassembled\<close>

lemma parse_build_udp:
  assumes "length addr < 2 ^ 62"
  shows "parse_udp_frag_header (build_udp_header sid pid fid fc addr @ payload) = Some (Inr (payload, fid, fc, sid, pid))"
proof -
  let ?v = "write_varint (word_of_nat (length addr))" and ?buf = "build_udp_header sid pid fid fc addr @ payload"
  have addr: "unat (word_of_nat (length addr) :: u64) = length addr" "(word_of_nat (length addr) :: u64) < 2 ^ 62"
    using assms small_length [of "as_bytes addr"] by auto
  have v: "0 < length ?v" by (simp add: write_varint_def words_be_eq)
  have buf: "?buf = u32_be sid @ u16_be pid @ fid # fc # ?v @ as_bytes addr @ payload" by (simp add: build_udp_header_def)
  have fields: "be32 ?buf 0 = Some sid" "slice ?buf 4 6 = Some (u16_be pid)" "idx ?buf 6 = Some fid" "idx ?buf 7 = Some fc"
    "slice ?buf 8 (length ?buf) = Some (?v @ as_bytes addr @ payload)"
    "slice ?buf (8 + length ?v + length addr) (length ?buf) = Some payload"
    subgoal unfolding be32_def using slice_at [of ?buf "[]" "u32_be sid" "u16_be pid @ fid # fc # ?v @ as_bytes addr @ payload" 0 4] buf by simp
    subgoal by (rule slice_at [of _ "u32_be sid" _ "fid # fc # ?v @ as_bytes addr @ payload"]) (simp_all add: buf)
    subgoal by (rule idx_at [of _ "u32_be sid @ u16_be pid" _ "fc # ?v @ as_bytes addr @ payload"]) (simp_all add: buf)
    subgoal by (rule idx_at [of _ "u32_be sid @ u16_be pid @ [fid]" _ "?v @ as_bytes addr @ payload"]) (simp_all add: buf)
    subgoal by (rule slice_at [of _ "u32_be sid @ u16_be pid @ [fid, fc]" _ "[]"]) (simp_all add: buf)
    subgoal by (rule slice_at [of _ "u32_be sid @ u16_be pid @ [fid, fc] @ ?v @ as_bytes addr" _ "[]"]) (simp_all add: buf)
    done
  have len: "length (build_udp_header sid pid fid fc addr) = 8 + length ?v + length addr" by (simp add: build_udp_header_def)
  obtain k where k: "length ?v = Suc k" using v by (cases "length ?v") auto
  show ?thesis unfolding parse_udp_frag_header_def fields
    using fields(6) by (simp add: decode_write_varint [OF addr(2)] len addr(1) k Let_def)
qed

lemma parse_udp_never_panics: "parse_udp_frag_header buf \<noteq> None"
proof -
  have "decode_varint_slice b \<noteq> None" for b using decode_varint_slice_run [of b] by auto
  then show ?thesis unfolding parse_udp_frag_header_def
    by (intro total_intros) (auto simp: Let_def slice_def split: sum.splits)
qed

text \<open>The fragment with a given number.\<close>

definition fragment :: "u32 \<Rightarrow> u16 \<Rightarrow> string \<Rightarrow> bytes list \<Rightarrow> nat \<Rightarrow> bytes" where
  "fragment sid pid addr blocks i = build_udp_header sid pid (word_of_nat i) (word_of_nat (length blocks)) addr @ blocks ! i"

definition udp_blocks :: "string \<Rightarrow> bytes \<Rightarrow> bytes list" where
  "udp_blocks addr data = chunks_of (max (MAX_DATAGRAM_PAYLOAD - (8 + length (write_varint (word_of_nat (length addr))) + length addr)) 1) data"

lemma send_udp_fragments:
  "send_udp_fragmented sid pid addr data = map (fragment sid pid addr (udp_blocks addr data)) [0..<length (udp_blocks addr data)]"
  by (rule nth_equalityI) (simp_all add: send_udp_fragmented_def udp_blocks_def fragment_def Let_def nth_enumerate_eq)

lemma concat_udp_blocks: "concat (udp_blocks addr data) = data"
  using chunks_of_spec [of "max (MAX_DATAGRAM_PAYLOAD - (8 + length (write_varint (word_of_nat (length addr))) + length addr)) 1" data]
  by (simp add: udp_blocks_def)

text \<open>A datagram of another packet, or none at all.\<close>

definition other_packet :: "u32 \<Rightarrow> u16 \<Rightarrow> u8 \<Rightarrow> bytes \<Rightarrow> bool" where
  "other_packet sid pid fc d \<longleftrightarrow>
     (case parse_udp_frag_header d of Some (Inr (_, _, fc', sid', pid')) \<Rightarrow> \<not> (sid' = sid \<and> pid' = pid \<and> fc' = fc) | _ \<Rightarrow> True)"

lemma frags_filled_update:
  "i < length xs \<Longrightarrow> xs ! i = None \<Longrightarrow> length (filter (\<lambda>x. x \<noteq> None) (xs[i := Some p])) = Suc (length (filter (\<lambda>x. x \<noteq> None) xs))"
proof (induction xs arbitrary: i)
  case (Cons x xs)
  then show ?case by (cases i) auto
qed simp

lemma all_filled:
  assumes "length frags = length blocks" "\<forall>i < length blocks. frags ! i = None \<or> frags ! i = Some (blocks ! i)" "\<forall>x \<in> set frags. x \<noteq> None"
  shows "frags = map Some blocks"
proof (rule nth_equalityI)
  fix i assume i: "i < length frags"
  then have "frags ! i \<noteq> None" using assms(3) nth_mem by blast
  with i assms(1,2) show "frags ! i = map Some blocks ! i" by auto
qed (simp add: assms(1))

lemma reassemble_complete:
  assumes "length blocks \<le> 255" "length addr < 2 ^ 62"
    and "length frags = length blocks" "\<forall>i < length blocks. frags ! i = None \<or> frags ! i = Some (blocks ! i)"
    and "received = length (filter (\<lambda>x. x \<noteq> None) frags)"
    and "\<forall>i < length blocks. frags ! i = None \<longrightarrow> fragment sid pid addr blocks i \<in> set ds"
    and "\<forall>d \<in> set ds. (\<exists>i < length blocks. d = fragment sid pid addr blocks i) \<or> other_packet sid pid (word_of_nat (length blocks)) d"
  shows "\<exists>rest. reassemble sid pid (word_of_nat (length blocks)) frags received ds = Some (Some (concat blocks), rest)"
  using assms(3-)
proof (induction ds arbitrary: frags received)
  note n = unat_u8_of_nat
  case Nil
  then have "\<forall>x \<in> set frags. x \<noteq> None" by (metis in_set_conv_nth list.set(1) empty_iff)
  then have "received = length blocks" using Nil by (simp add: filter_id_conv)
  moreover have "frags = map Some blocks" by (rule all_filled [OF Nil(1,2) \<open>\<forall>x \<in> set frags. x \<noteq> None\<close>])
  ultimately show ?case using assms(1) by (simp add: n o_def)
next
  case (Cons d ds)
  let ?n = "length blocks" and ?f = "fragment sid pid addr blocks"
  have fc: "unat (word_of_nat ?n :: u8) = ?n" using assms(1) by (simp add: unat_u8_of_nat)
  show ?case
  proof (cases "received < ?n")
    case False
    have "length (filter (\<lambda>x. x \<noteq> None) frags) \<le> ?n" using length_filter_le [of _ frags] Cons.prems(1) by simp
    with False Cons.prems have "length (filter (\<lambda>x. x \<noteq> None) frags) = length frags" by simp
    then have "\<forall>x \<in> set frags. x \<noteq> None" by (metis (mono_tags, lifting) filter_True length_filter_less less_irrefl)
    then have "frags = map Some blocks" by (rule all_filled [OF Cons.prems(1,2)])
    then show ?thesis using False fc by (simp add: o_def)
  next
    case True
    have parse: "parse_udp_frag_header (?f i) = Some (Inr (blocks ! i, word_of_nat i, word_of_nat ?n, sid, pid))" for i
      by (simp add: fragment_def parse_build_udp [OF assms(2)])
    have inj: "i = j" if "?f i = ?f j" "i < ?n" "j < ?n" for i j
    proof -
      have "(word_of_nat i :: u8) = word_of_nat j" using parse [of i] parse [of j] that(1) by simp
      then have "i mod 256 = j mod 256" by (metis unat_u8_of_nat)
      with that(2,3) assms(1) show ?thesis by simp
    qed
    have later: "\<forall>d \<in> set ds. (\<exists>i < ?n. d = ?f i) \<or> other_packet sid pid (word_of_nat ?n) d" using Cons.prems(5) by simp
    from Cons.prems(5) consider i where "i < ?n" "d = ?f i" | "other_packet sid pid (word_of_nat ?n) d" "\<nexists>i. i < ?n \<and> d = ?f i" by auto
    then show ?thesis
    proof cases
      case 1
      have i: "unat (word_of_nat i :: u8) = i" using 1(1) assms(1) by (simp add: unat_u8_of_nat)
      show ?thesis
      proof (cases "frags ! i = None")
        case None: True
        have "\<exists>rest. reassemble sid pid (word_of_nat ?n) (frags[i := Some (blocks ! i)]) (received + 1) ds = Some (Some (concat blocks), rest)"
        proof (rule Cons.IH)
          show "\<forall>j < ?n. frags[i := Some (blocks ! i)] ! j = None \<longrightarrow> ?f j \<in> set ds"
            using Cons.prems(1,4) 1 inj by (auto simp: nth_list_update split: if_splits) 
        qed (use Cons.prems 1 None frags_filled_update [of i frags "blocks ! i"] later in \<open>auto simp: nth_list_update\<close>)
        then show ?thesis using 1 None True Cons.prems(1) fc i parse [of i] by simp
      next
        case False
        have "\<exists>rest. reassemble sid pid (word_of_nat ?n) frags received ds = Some (Some (concat blocks), rest)"
        proof (rule Cons.IH)
          show "\<forall>j < ?n. frags ! j = None \<longrightarrow> ?f j \<in> set ds" using Cons.prems(4) 1 inj False by (metis set_ConsD)
        qed (use Cons.prems later in auto)
        then show ?thesis using 1 False True fc i parse [of i] by auto
      qed
    next
      case 2
      have "\<exists>rest. reassemble sid pid (word_of_nat ?n) frags received ds = Some (Some (concat blocks), rest)"
      proof (rule Cons.IH)
        show "\<forall>j < ?n. frags ! j = None \<longrightarrow> ?f j \<in> set ds" using Cons.prems(4) 2(2) by (metis set_ConsD)
      qed (use Cons.prems later in auto)
      moreover have "parse_udp_frag_header d \<noteq> None" by (rule parse_udp_never_panics)
      ultimately show ?thesis using 2(1) True fc by (auto simp: other_packet_def split: sum.splits)
    qed
  qed
qed

text \<open>
  C33. UDP over Hysteria2. A packet of up to 255 fragments arrives whole: from its datagrams in any order, with repetitions
  and with datagrams of other packets in between, the receiver puts together exactly the data that was sent.
\<close>

theorem hy2_udp_reassembled:
  assumes "dgs = send_udp_fragmented sid pid addr data" "length dgs \<le> 255" "length addr < 2 ^ 62"
    and "first \<in> set dgs" "set dgs \<subseteq> set (first # ds)"
    and "\<forall>d \<in> set ds. d \<in> set dgs \<or> other_packet sid pid (word_of_nat (length dgs)) d"
  shows "\<exists>rest. recv_udp_reassemble first ds = Some (Inr (Some data, rest))"
proof -
  let ?bs = "udp_blocks addr data" let ?f = "fragment sid pid addr ?bs" and ?n = "length (udp_blocks addr data)"
  have dgs: "dgs = map ?f [0..<?n]" and n: "length dgs = ?n" using assms(1) send_udp_fragments [of sid pid addr data] by simp_all
  obtain i where i: "i < ?n" "first = ?f i" using assms(4) dgs by auto
  have u: "unat (word_of_nat ?n :: u8) = ?n" "unat (word_of_nat i :: u8) = i" using assms(2) n i(1) by (simp_all add: unat_u8_of_nat)
  have parse: "parse_udp_frag_header first = Some (Inr (?bs ! i, word_of_nat i, word_of_nat ?n, sid, pid))"
    by (simp add: i(2) fragment_def parse_build_udp [OF assms(3)])
  show ?thesis
  proof (cases "?n = 1")
    case True
    then have "?bs = [data]" using concat_udp_blocks [of addr data] by (cases ?bs) auto
    with True i(1) parse show ?thesis by (simp add: recv_udp_reassemble_def)
  next
    case False
    have one: "word_of_nat ?n \<noteq> (1 :: u8)" using False u(1) by (metis unat_1)
    let ?frags = "(replicate ?n None)[i := Some (?bs ! i)]"
    have "\<exists>rest. reassemble sid pid (word_of_nat ?n) ?frags 1 ds = Some (Some (concat ?bs), rest)"
    proof (rule reassemble_complete)
      show "length ?bs \<le> 255" "length addr < 2 ^ 62" using assms(2,3) n by simp_all
      show "\<forall>j < ?n. ?frags ! j = None \<or> ?frags ! j = Some (?bs ! j)" using i(1) by (auto simp: nth_list_update)
      show "1 = length (filter (\<lambda>x. x \<noteq> None) ?frags)" using frags_filled_update [of i "replicate ?n None" "?bs ! i"] i(1) by simp
      show "\<forall>j < ?n. ?frags ! j = None \<longrightarrow> ?f j \<in> set ds"
      proof (intro allI impI)
        fix j assume j: "j < ?n" "?frags ! j = None"
        then have ne: "j \<noteq> i" using i(1) by auto
        have "?f j \<noteq> ?f i"
        proof
          assume "?f j = ?f i"
          then have "(word_of_nat j :: u8) = word_of_nat i"
            using parse_build_udp [OF assms(3), of sid pid "word_of_nat j" "word_of_nat ?n" "?bs ! j"] parse i(2) by (simp add: fragment_def)
          then have "j mod 256 = i mod 256" by (metis unat_u8_of_nat)
          with ne j(1) i(1) assms(2) n show False by simp
        qed
        moreover have "?f j \<in> set dgs" using dgs j(1) by simp
        ultimately show "?f j \<in> set ds" using assms(5) i(2) by auto
      qed
      show "\<forall>d \<in> set ds. (\<exists>j < ?n. d = ?f j) \<or> other_packet sid pid (word_of_nat ?n) d" using assms(6) n dgs by fastforce
    qed simp
    then show ?thesis using parse one u i(1) concat_udp_blocks [of addr data] by (auto simp: recv_udp_reassemble_def)
  qed
qed

section \<open>Concrete instances\<close>

definition demo_hy_config :: Hysteria2OutboundConfig where
  "demo_hy_config = \<lparr>hy_tag = ''h'', hy_server = ''s'', hy_server_port = 443, hy_password = ''pw'', hy_tls = TlsConfig_default,
     hy_up_mbps = 100, hy_down_mbps = 0, hy_detour = None\<rparr>"

definition demo_answer :: "(string \<times> string) list" where
  "demo_answer = [('':status'', show_nat 233), (''hysteria-udp'', ''true''), (''Hysteria-CC-RX'', show_nat 50000)]"

lemma show_demo: "show_nat 233 = ''233''" "show_nat 50000 = ''50000''"
  by (simp_all add: show_nat.simps digit_def char_of_def bit_0)

lemma demo_answer_ok: "list_all header_ok demo_answer" "length (header_block demo_answer) + 2 \<le> 1024 * 1024"
proof -
  have "str_ok s" if "s \<in> {'':status'', ''hysteria-udp'', ''true'', ''Hysteria-CC-RX''}" for s
    using that by (intro str_ok_ascii) (auto simp: ascii_def code_def)
  moreover have "str_ok (show_nat n)" for n by (rule str_ok_ascii [OF show_nat_ascii])
  ultimately show "list_all header_ok demo_answer" by (simp add: demo_answer_def header_ok_def show_demo) (metis show_demo)
  show "length (header_block demo_answer) + 2 \<le> 1024 * 1024"
    using length_header_block [of demo_answer] by (simp add: demo_answer_def show_demo)
qed

lemma demo_limit:
  "header_find (\<lambda>k. eq_ignore_ascii_case k RESP_HEADER_CC_RX) demo_answer = Some (show_nat 50000)"
  by (simp add: demo_answer_def header_find_def RESP_HEADER_CC_RX_def eq_ignore_ascii_case_def to_ascii_lowercase_def ascii_lower_def
    is_ascii_uppercase_def code_def char_of_def bit_0)

theorem hy2_authentication_witness:
  "\<exists>info. authenticate demo_hy_config (write_h3_frame 0x00 [1, 2] @ write_h3_frame 0x01 ([0, 0] @ header_block demo_answer))
      = Some (Inr info) \<and> unat (tx_bps info) \<le> 50000"
proof -
  have pw: "str_ok (hy_password demo_hy_config)" "length (hy_password demo_hy_config) \<noteq> 127" "length (hy_password demo_hy_config) \<le> 500000"
    by (simp_all add: demo_hy_config_def str_ok_ascii ascii_def code_def)
  have d: "\<forall>d \<in> set [[1, 2]]. length (d :: bytes) \<le> 1024 * 1024" by simp
  have st: "header_find (\<lambda>k. k = '':status'') demo_answer = Some (show_nat 233)" by (simp add: demo_answer_def header_find_def)
  have parsed: "parse_headers_from_qpack ([0, 0] @ header_block demo_answer) = Some (Inr demo_answer)"
    using demo_answer_ok by (intro parse_header_block) simp_all
  have "length ([0, 0] @ header_block demo_answer) \<le> 1024 * 1024" using demo_answer_ok(2) by simp
  from hy2_authentication [OF pw parsed this d st, where seed = 7 and later = "[]" and rest = "[]"] demo_limit show ?thesis by auto
qed

theorem hy2_tcp_opened_witness:
  "comes_to (open_tcp_stream (Domain ''a.b'' 443) 7,
      proc_bind spec_read_request (\<lambda>(ty, addr, _). Write (spec_response 0 [104, 105] [0] @ [9]) (Ret (ty, addr))), [], [])
     (Ret (), Ret (FRAME_TYPE_TCP_REQUEST, as_bytes ''a.b:443''), [], [9])"
proof -
  have "target_to_addr_str (Domain ''a.b'' 443) = ''a.b:443''"
    by (simp add: target_to_addr_str_def show_nat.simps digit_def char_of_def bit_0)
  with hy2_tcp_opened [of "Domain ''a.b'' 443" "[104, 105]" "[0]" 7 "[9]"] show ?thesis by simp
qed

theorem hy2_udp_reassembled_witness:
  "\<exists>rest. recv_udp_reassemble (send_udp_fragmented 5 6 ''a:1'' (replicate 2000 7) ! 1)
     [[1, 2, 3], send_udp_fragmented 5 6 ''a:1'' (replicate 2000 7) ! 0] = Some (Inr (Some (replicate 2000 7), rest))"
proof -
  let ?d = "send_udp_fragmented 5 6 ''a:1'' (replicate 2000 7)"
  have "write_varint 3 = [3]" by (simp add: write_varint_def)
  then have "udp_blocks ''a:1'' (replicate 2000 7) = [replicate 1088 7, replicate 912 7]"
    by (simp add: udp_blocks_def MAX_DATAGRAM_PAYLOAD_def chunks_of.simps)
  then have n: "length ?d = 2" by (simp add: send_udp_fragments)
  then have two: "set ?d = {?d ! 0, ?d ! 1}" by (auto simp: set_conv_nth less_2_cases_iff)
  have "parse_udp_frag_header [1, 2, 3] = Some (Inl ''hy2 udp datagram too short'')" by (simp add: parse_udp_frag_header_def)
  then have "\<forall>d \<in> set [[1, 2, 3], ?d ! 0]. d \<in> set ?d \<or> other_packet 5 6 (word_of_nat (length ?d)) d"
    using two by (auto simp: other_packet_def)
  from hy2_udp_reassembled [OF refl _ _ _ _ this, of "?d ! 1"] n two show ?thesis by auto
qed

section \<open>Observations\<close>

text \<open>
  A single datagram that announces zero fragments makes the receiver panic, which ends the whole process. Datagrams of more
  than 255 fragments announce their number modulo 256, and an empty packet is not sent at all.
\<close>

lemma hy2_datagram_panics: "recv_udp_reassemble [0, 0, 0, 0, 0, 0, 0, 0, 0] ds = None"
proof -
  have "parse_udp_frag_header [0, 0, 0, 0, 0, 0, 0, 0, 0] = Some (Inr ([], 0, 0, 0, 0))" by code_simp
  then show ?thesis by (simp add: recv_udp_reassemble_def)
qed

lemma hy2_empty_packet_not_sent: "send_udp_fragmented sid pid addr [] = []"
  by (simp add: send_udp_fragmented_def Let_def chunks_of.simps)

text \<open>A header block with an enormous length makes the parser panic: the end of the slice wraps below its start.\<close>

lemma hy2_header_block_panics:
  "parse_headers_from_qpack [0, 0, 0x20, 0x7f, 0x80, 0xff, 0xff, 0xff, 0xff, 0xff, 0xff, 0xff, 0xff, 0x01] = None"
proof -
  let ?p = "[0, 0, 0x20, 0x7f, 0x80, 0xff, 0xff, 0xff, 0xff, 0xff, 0xff, 0xff, 0xff, 0x01] :: bytes"
  have name: "qpack_read_int (drop 2 ?p) 3 = Some (0, 1)" by (simp add: qpack_read_int_def)
  have val: "qpack_read_int (drop 3 ?p) 7 = Some (- 1, 11)" by (simp add: qpack_read_int_def)
  have "qpack_chunk False ?p 3 0 = Some (Some (3, []))" by (simp add: qpack_chunk_def slice_def qpack_text_def from_utf8_lossy.simps)
  moreover have "qpack_value ?p 3 = None" using val by (simp add: qpack_value_def qpack_chunk_def slice_def)
  ultimately have "qpack_field ?p 2 = None" using name by (simp add: qpack_field_def try_opt_def numeral_3_eq_3)
  then show ?thesis by (simp add: parse_headers_from_qpack_def qpack_loop.simps)
qed

text \<open>The packets that follow the first one of a session belong to another session for the server.\<close>

lemma hy2_udp_two_sessions: "hy2_udp_sessions counter True = (sid, Some sid_up, counter') \<Longrightarrow> sid_up \<noteq> sid"
  by (auto simp: hy2_udp_sessions_def)

text \<open>
  The inbound of this program speaks another protocol: it takes the first byte of a stream for the length of a password.
  It refuses the request of the outbound for authentication, unless a password has at most three bytes, and the one for a
  connection, unless a password starts with the byte 1.
\<close>

lemma target_addr_not_Nil: "1 < length (target_to_addr_str t)"
  using show_nat_not_Nil by (cases t) (auto simp: target_to_addr_str_def show_socket_addr_def Suc_le_eq)

lemma from_utf8_lossy_one: "length (from_utf8_lossy [b]) \<le> 3"
  by (simp add: from_utf8_lossy.simps [of "[b]"] from_utf8_lossy.simps [of "[]"] Let_def)

lemma hy2_inbound_refuses_auth:
  assumes "\<forall>p \<in> set passwords. 3 < length p"
  shows "\<exists>rest. run (handle_hy2_stream passwords) (auth_request cfg seed) = (Inl ''hysteria2: unauthorized password'', [], rest)"
proof -
  obtain b bs where "auth_request cfg seed = 1 # b # bs"
    by (cases "write_varint (word_of_nat (length ([0x00, 0x00] @ header_block (auth_headers cfg seed))))")
       (simp_all add: auth_request_def write_h3_frame_def write_varint_def [of 1])
  moreover have "\<not> list_ex (\<lambda>p. p = from_utf8_lossy [b]) passwords" using assms from_utf8_lossy_one [of b] by (auto simp: list_ex_iff)
  ultimately show ?thesis by (simp add: handle_hy2_stream_def)
qed

lemma hy2_inbound_refuses_tcp:
  assumes "\<forall>p \<in> set passwords. p \<noteq> [] \<longrightarrow> hd p \<noteq> CHR 0x01"
  shows "\<exists>rest. run (handle_hy2_stream passwords) (hy2_tcp_request t seed) = (Inl ''hysteria2: unauthorized password'', [], rest)"
proof -
  let ?a = "target_to_addr_str t" and ?p = "random_padding 64 512 seed"
  let ?bs = "write_varint (word_of_nat (length ?a)) @ as_bytes ?a @ write_varint (word_of_nat (length ?p)) @ as_bytes ?p"
  have "write_varint FRAME_TYPE_TCP_REQUEST = [0x44, 0x01]" by (simp add: write_varint_def FRAME_TYPE_TCP_REQUEST_def words_be_eq)
  then have inp: "hy2_tcp_request t seed = 0x44 # 0x01 # ?bs" by (simp add: hy2_tcp_request_def Let_def)
  have "1 \<le> length (write_varint i)" for i by (simp add: write_varint_def words_be_eq)
  from this [of "word_of_nat (length ?a)"] this [of "word_of_nat (length ?p)"] random_padding_props(1) [of 64 512 seed]
  have "67 \<le> length ?bs" using target_addr_not_Nil [of t] by (cases ?a) auto
  then have tok: "length (0x01 # ?bs) \<ge> 68" "take 68 (0x01 # ?bs) = 0x01 # take 67 ?bs" by (simp_all add: numeral_eq_Suc)
  have "from_utf8_lossy (0x01 # take 67 ?bs) = CHR 0x01 # from_utf8_lossy (take 67 ?bs)"
    by (subst from_utf8_lossy.simps) (simp add: utf8_width_def of_bytes_def char_of_def bit_0 Let_def)
  then have "\<not> list_ex (\<lambda>p. p = from_utf8_lossy (take 68 (0x01 # ?bs))) passwords"
    using assms unfolding tok(2) by (auto simp: list_ex_iff)
  then show ?thesis using tok(1) unfolding inp handle_hy2_stream_def by (simp del: take_Suc_Cons take_Cons_numeral)
qed

section \<open>The datagrams of \<open>proto.rs\<close>\<close>

lemma hy2_proto_udp_roundtrip:
  assumes "sendable t"
  shows "hy2_parse_udp_datagram (hy2_build_udp_datagram data t sid) = Some (Inr (sid, data, t))"
proof -
  let ?buf = "hy2_build_udp_datagram data t sid"
  let ?pre = "u32_le sid @ u16_le 0 @ [0x00, 0x01]"
  have buf: "?buf = ?pre @ hy2_write_addr t @ data" by (simp add: hy2_build_udp_datagram_def)
  have sid: "slice ?buf 0 4 = Some (u32_le sid)"
    by (rule slice_at [of _ "[]" _ "u16_le 0 @ [0x00, 0x01] @ hy2_write_addr t @ data"]) (simp_all add: buf)
  show ?thesis
  proof (cases t)
    case (Domain h p)
    have h: "str_ok h" "length h \<le> 255" using assms Domain by (auto simp: sendable_def)
    let ?l = "word_of_nat (length h) :: u8"
    have l: "unat ?l = length h" using h(2) by (rule unat_length_byte)
    have b: "?buf = ?pre @ [HY2_ATYP_DOMAIN, ?l] @ as_bytes h @ u16_be p @ data" by (subst buf) (simp add: Domain hy2_write_addr_def)
    have "idx ?buf 8 = Some HY2_ATYP_DOMAIN" by (rule idx_at [of _ ?pre]) (simp_all add: b)
    moreover have "idx ?buf 9 = Some ?l" by (rule idx_at [of _ "?pre @ [HY2_ATYP_DOMAIN]"]) (simp_all add: b)
    moreover have "slice ?buf 10 (10 + length h) = Some (as_bytes h)"
      by (rule slice_at [of _ "?pre @ [HY2_ATYP_DOMAIN, ?l]" _ "u16_be p @ data"]) (simp_all add: b)
    moreover have "slice ?buf (10 + length h) (12 + length h) = Some (u16_be p)"
      by (rule slice_at [of _ "?pre @ [HY2_ATYP_DOMAIN, ?l] @ as_bytes h" _ data]) (simp_all add: b)
    moreover have "slice ?buf (12 + length h) (length ?buf) = Some data"
      by (rule slice_at [of _ "?pre @ [HY2_ATYP_DOMAIN, ?l] @ as_bytes h @ u16_be p" _ "[]"]) (simp_all add: b)
    moreover have "length ?buf = 12 + length h + length data" by (simp add: b)
    ultimately show ?thesis unfolding hy2_parse_udp_datagram_def sid
      using h(1) by (simp add: l HY2_ATYP_IPV4_def HY2_ATYP_IPV6_def HY2_ATYP_DOMAIN_def from_utf8_as_bytes Domain Let_def)
  next
    case (Socket a)
    show ?thesis
    proof (cases "sa_ip a")
      case (V4 ip)
      have b: "?buf = ?pre @ [HY2_ATYP_IPV4] @ octets4 ip @ u16_be (sa_port a) @ data" by (subst buf) (simp add: Socket V4 hy2_write_addr_def)
      have "idx ?buf 8 = Some HY2_ATYP_IPV4" by (rule idx_at [of _ ?pre]) (simp_all add: b)
      moreover have "slice ?buf 9 13 = Some (octets4 ip)" by (rule slice_at [of _ "?pre @ [HY2_ATYP_IPV4]" _ "u16_be (sa_port a) @ data"]) (simp_all add: b)
      moreover have "slice ?buf 13 15 = Some (u16_be (sa_port a))" by (rule slice_at [of _ "?pre @ [HY2_ATYP_IPV4] @ octets4 ip" _ data]) (simp_all add: b)
      moreover have "slice ?buf 15 (length ?buf) = Some data" by (rule slice_at [of _ "?pre @ [HY2_ATYP_IPV4] @ octets4 ip @ u16_be (sa_port a)" _ "[]"]) (simp_all add: b)
      moreover have "length ?buf = 15 + length data" by (simp add: b)
      ultimately show ?thesis unfolding hy2_parse_udp_datagram_def sid by (simp add: HY2_ATYP_IPV4_def Socket V4 [symmetric] socket_eta)
    next
      case (V6 ip)
      have b: "?buf = ?pre @ [HY2_ATYP_IPV6] @ octets6 ip @ u16_be (sa_port a) @ data" by (subst buf) (simp add: Socket V6 hy2_write_addr_def)
      have "idx ?buf 8 = Some HY2_ATYP_IPV6" by (rule idx_at [of _ ?pre]) (simp_all add: b)
      moreover have "slice ?buf 9 25 = Some (octets6 ip)" by (rule slice_at [of _ "?pre @ [HY2_ATYP_IPV6]" _ "u16_be (sa_port a) @ data"]) (simp_all add: b)
      moreover have "slice ?buf 25 27 = Some (u16_be (sa_port a))" by (rule slice_at [of _ "?pre @ [HY2_ATYP_IPV6] @ octets6 ip" _ data]) (simp_all add: b)
      moreover have "slice ?buf 27 (length ?buf) = Some data" by (rule slice_at [of _ "?pre @ [HY2_ATYP_IPV6] @ octets6 ip @ u16_be (sa_port a)" _ "[]"]) (simp_all add: b)
      moreover have "length ?buf = 27 + length data" by (simp add: b)
      ultimately show ?thesis unfolding hy2_parse_udp_datagram_def sid
        by (simp add: HY2_ATYP_IPV4_def HY2_ATYP_IPV6_def Socket V6 [symmetric] socket_eta)
    qed
  qed
qed

end
