(* ===== verification/Vmess.thy ===== *)
theory Vmess
  imports Vless Config_Types Byte_Access
begin

text \<open>
  VMess: the handshake of the outbound (\<open>outbound/vmess/frame.rs\<close>, \<open>mod.rs\<close>), the encrypted chunks of the stream
  (\<open>outbound/vmess/aead.rs\<close>) and the inbound (\<open>inbound/vmess_server.rs\<close>). The cryptographic crates are a record of functions
  with the laws the program relies on; random values and the clock are arguments.
\<close>

section \<open>Cryptographic crates\<close>

datatype vmess_aead = VmAes128Gcm | VmChaCha20Poly1305

record vmess_crates =
  vc_md5 :: "bytes \<Rightarrow> bytes"
  vc_sha256 :: "bytes \<Rightarrow> bytes"
  vc_hmac :: "bytes \<Rightarrow> bytes \<Rightarrow> bytes"
  vc_crc32 :: "bytes \<Rightarrow> u32"
  vc_fnv :: "bytes \<Rightarrow> u64"
  vc_shake128 :: "bytes \<Rightarrow> nat \<Rightarrow> u8"
  vc_aes_block :: "bytes \<Rightarrow> bytes \<Rightarrow> bytes"
  vc_aes_block_inv :: "bytes \<Rightarrow> bytes \<Rightarrow> bytes"
  vc_seal :: "vmess_aead \<Rightarrow> bytes \<Rightarrow> bytes \<Rightarrow> bytes \<Rightarrow> bytes \<Rightarrow> bytes"
  vc_open :: "vmess_aead \<Rightarrow> bytes \<Rightarrow> bytes \<Rightarrow> bytes \<Rightarrow> bytes \<Rightarrow> bytes option"

text \<open>
  A sealed text is 16 bytes longer and opens with the same key, nonce and associated data; less than a tag does not open;
  digests have their lengths.
\<close>

definition vmess_laws :: "vmess_crates \<Rightarrow> bool" where
  "vmess_laws cr \<longleftrightarrow>
     (\<forall>a k n ad m. vc_open cr a k n ad (vc_seal cr a k n ad m) = Some m \<and> length (vc_seal cr a k n ad m) = length m + 16)
     \<and> (\<forall>a k n ad c. length c < 16 \<longrightarrow> vc_open cr a k n ad c = None)
     \<and> (\<forall>x. length (vc_md5 cr x) = 16) \<and> (\<forall>x. length (vc_sha256 cr x) = 32) \<and> (\<forall>k x. length (vc_hmac cr k x) = 32)"

section \<open>The handshake of the outbound\<close>

definition VMESS_VERSION :: u8 where "VMESS_VERSION = 1"
definition CIPHER_OVERHEAD :: nat where "CIPHER_OVERHEAD = 16"
definition SECURITY_NONE :: u8 where "SECURITY_NONE = 5"
definition SECURITY_AES128_GCM :: u8 where "SECURITY_AES128_GCM = 3"
definition SECURITY_CHACHA20_POLY1305 :: u8 where "SECURITY_CHACHA20_POLY1305 = 4"
definition OPT_CHUNK_STREAM :: u8 where "OPT_CHUNK_STREAM = 1"
definition OPT_CHUNK_MASKING :: u8 where "OPT_CHUNK_MASKING = 4"
definition CMD_TCP :: u8 where "CMD_TCP = 1"
definition CMD_UDP :: u8 where "CMD_UDP = 2"

lemmas vmess_consts = VMESS_VERSION_def CIPHER_OVERHEAD_def SECURITY_NONE_def SECURITY_AES128_GCM_def SECURITY_CHACHA20_POLY1305_def
  OPT_CHUNK_STREAM_def OPT_CHUNK_MASKING_def CMD_TCP_def CMD_UDP_def

definition vmess_user_key :: "vmess_crates \<Rightarrow> bytes \<Rightarrow> bytes" where
  "vmess_user_key cr uuid = vc_md5 cr (uuid @ as_bytes ''c48619fe-8f02-49e0-b9e9-edf763e17e21'')"

definition vmess_kdf :: "vmess_crates \<Rightarrow> bytes \<Rightarrow> string \<Rightarrow> bytes list \<Rightarrow> bytes" where
  "vmess_kdf cr key salt path =
     vc_hmac cr (foldl (vc_hmac cr) (vc_hmac cr (as_bytes ''VMess AEAD KDF'') (as_bytes salt)) path) key"

text \<open>\<open>ts\<close> is the time in seconds, \<open>rnd\<close> four random bytes.\<close>

definition build_auth_id :: "vmess_crates \<Rightarrow> bytes \<Rightarrow> u64 \<Rightarrow> bytes \<Rightarrow> bytes" where
  "build_auth_id cr key ts rnd =
     (let buf = be_bytes 8 (unat ts) @ rnd
      in vc_aes_block cr (take 16 (vmess_kdf cr key ''AES Auth ID Encryption'' [])) (buf @ u32_be (vc_crc32 cr buf)))"

record RequestHeader =
  req_key :: bytes
  req_nonce :: bytes
  resp_header :: u8
  rh_option :: u8
  rh_security :: u8
  rh_command :: u8

definition RequestHeader_new :: "u8 \<Rightarrow> u8 \<Rightarrow> bytes \<Rightarrow> bytes \<Rightarrow> u8 \<Rightarrow> RequestHeader" where
  "RequestHeader_new security command key nonce resp =
     \<lparr>req_key = key, req_nonce = nonce, resp_header = resp,
      rh_option = (if security = SECURITY_NONE \<and> command = CMD_UDP then OPT_CHUNK_STREAM
        else if security = SECURITY_NONE then 0
        else if security = SECURITY_AES128_GCM \<or> security = SECURITY_CHACHA20_POLY1305 then OPT_CHUNK_STREAM OR OPT_CHUNK_MASKING
        else 0),
      rh_security = security, rh_command = command\<rparr>"

definition vmess_write_target :: "Target \<Rightarrow> bytes" where
  "vmess_write_target t =
     (case t of
        Domain host port \<Rightarrow> u16_be port @ [0x02, word_of_nat (length host)] @ as_bytes host
      | Socket a \<Rightarrow> u16_be (sa_port a) @ (case sa_ip a of V4 ip \<Rightarrow> 0x01 # octets4 ip | V6 ip \<Rightarrow> 0x03 # octets6 ip))"

definition rh_encode :: "vmess_crates \<Rightarrow> RequestHeader \<Rightarrow> u8 \<Rightarrow> Target \<Rightarrow> bytes" where
  "rh_encode cr h rnd t =
     (let padding_len = unat (rnd mod 16);
          buf = [VMESS_VERSION] @ req_nonce h @ req_key h
            @ [resp_header h, rh_option h, push_bit 4 (word_of_nat padding_len) OR rh_security h, 0x00, rh_command h]
            @ vmess_write_target t @ replicate padding_len 0
      in buf @ u32_be (ucast (vc_fnv cr buf)))"

definition build_handshake :: "vmess_crates \<Rightarrow> bytes \<Rightarrow> bytes \<Rightarrow> bytes \<Rightarrow> bytes \<Rightarrow> bytes" where
  "build_handshake cr key auth_id conn_nonce header_plain =
     (let derive = (\<lambda>salt n. take n (vmess_kdf cr key salt [auth_id, conn_nonce]));
          enc_len = vc_seal cr VmAes128Gcm (derive ''VMess Header AEAD Key_Length'' 16) (derive ''VMess Header AEAD Nonce_Length'' 12)
            auth_id (u16_be (word_of_nat (length header_plain)));
          enc_hdr = vc_seal cr VmAes128Gcm (derive ''VMess Header AEAD Key'' 16) (derive ''VMess Header AEAD Nonce'' 12) auth_id header_plain
      in auth_id @ enc_len @ conn_nonce @ enc_hdr)"

text \<open>The outer option is a panic of an index out of range.\<close>

definition vmess_parse_response :: "vmess_crates \<Rightarrow> bytes \<Rightarrow> bytes \<Rightarrow> bytes \<Rightarrow> (string + u8 \<times> nat) option" where
  "vmess_parse_response cr buf key nonce =
     (let resp_key = take 16 (vc_sha256 cr key); resp_nonce = take 16 (vc_sha256 cr nonce); len_frame = 2 + CIPHER_OVERHEAD in
      if length buf < len_frame then Some (Inl ''vmess resp: too short for len frame'')
      else
        (case vc_open cr VmAes128Gcm (take 16 (vmess_kdf cr resp_key ''AEAD Resp Header Len Key'' []))
            (take 12 (vmess_kdf cr resp_nonce ''AEAD Resp Header Len IV'' [])) [] (take len_frame buf) of
           None \<Rightarrow> Some (Inl ''vmess resp: decrypt len failed'')
         | Some dec_len \<Rightarrow> do {
             b0 \<leftarrow> idx dec_len 0; b1 \<leftarrow> idx dec_len 1;
             let hdr_len = unat (u16_of_be [b0, b1]) + CIPHER_OVERHEAD;
             if length buf < len_frame + hdr_len then Some (Inl ''vmess resp: too short for header payload'')
             else
               (case vc_open cr VmAes128Gcm (take 16 (vmess_kdf cr resp_key ''AEAD Resp Header Key'' []))
                   (take 12 (vmess_kdf cr resp_nonce ''AEAD Resp Header IV'' [])) [] (take hdr_len (drop len_frame buf)) of
                  None \<Rightarrow> Some (Inl ''vmess resp: decrypt header failed'')
                | Some dec_hdr \<Rightarrow>
                    if length dec_hdr < 4 then Some (Inl ''vmess resp: header too short'')
                    else Some (Inr (dec_hdr ! 1, len_frame + hdr_len))) }))"

text \<open>
  The handshake after the request has been built; a panic is an error of its own here.
\<close>

definition vmess_handshake :: "vmess_crates \<Rightarrow> RequestHeader \<Rightarrow> bytes \<Rightarrow> unit proc" where
  "vmess_handshake cr h handshake_bytes =
     Write handshake_bytes (Read ((2 + 16) + (4 + 16)) (\<lambda>resp_buf.
       case vmess_parse_response cr resp_buf (req_key h) (req_nonce h) of
         None \<Rightarrow> Err ''index out of bounds''
       | Some (Inl e) \<Rightarrow> Err e
       | Some (Inr (token, _)) \<Rightarrow> ensure (token = resp_header h) (''vmess: response token mismatch (got 0x'' @ hex02 token
           @ '', expected 0x'' @ hex02 (resp_header h) @ '')'') (Ret ())))"

definition resolve_security :: "string \<Rightarrow> string + u8" where
  "resolve_security s =
     (if s = ''auto'' \<or> s = ''aes-128-gcm'' then Inr SECURITY_AES128_GCM
      else if s = ''chacha20-poly1305'' then Inr SECURITY_CHACHA20_POLY1305
      else if s = ''none'' \<or> s = ''zero'' then Inr SECURITY_NONE
      else if s = ''aes-128-cfb'' then Inl ''vmess: aes-128-cfb (legacy/alterId) is not supported; use aes-128-gcm or none''
      else Inl (''vmess: unknown security type: '' @ s))"

record VmessOutbound =
  vo_user_key :: bytes
  vo_security :: u8

text \<open>The client configuration of TLS is built as well; that it can be built is the concern of the TLS crate.\<close>

definition VmessOutbound_new :: "vmess_crates \<Rightarrow> VmessOutboundConfig \<Rightarrow> string + VmessOutbound" where
  "VmessOutbound_new cr cfg =
     res_bind (vless_parse_uuid (vm_uuid cfg)) (\<lambda>uuid.
     res_bind (resolve_security (vm_security cfg)) (\<lambda>security.
       Inr \<lparr>vo_user_key = vmess_user_key cr uuid, vo_security = security\<rparr>))"

section \<open>The chunks of the stream\<close>

definition chacha20_key :: "vmess_crates \<Rightarrow> bytes \<Rightarrow> bytes" where
  "chacha20_key cr key = (let h1 = vc_md5 cr key in h1 @ vc_md5 cr h1)"

text \<open>The cipher with its key; another security than the two is a panic, which no configuration reaches.\<close>

definition VmessAeadCipher_new :: "vmess_crates \<Rightarrow> u8 \<Rightarrow> bytes \<Rightarrow> (vmess_aead \<times> bytes) option" where
  "VmessAeadCipher_new cr security key =
     (if security = SECURITY_AES128_GCM then Some (VmAes128Gcm, key)
      else if security = SECURITY_CHACHA20_POLY1305 then Some (VmChaCha20Poly1305, chacha20_key cr key)
      else None)"

definition make_nonce :: "u16 \<Rightarrow> bytes \<Rightarrow> bytes" where
  "make_nonce k nonce = u16_be k @ take 10 (drop 2 nonce)"

definition next_mask_u16 :: "vmess_crates \<Rightarrow> bytes \<Rightarrow> nat \<Rightarrow> u16" where
  "next_mask_u16 cr seed k = u16_of_be [vc_shake128 cr seed (2 * k), vc_shake128 cr seed (2 * k + 1)]"

definition resp_data_key :: "vmess_crates \<Rightarrow> bytes \<Rightarrow> bytes" where
  "resp_data_key cr key = take 16 (vc_sha256 cr key)"

definition resp_data_nonce :: "vmess_crates \<Rightarrow> bytes \<Rightarrow> bytes" where
  "resp_data_nonce cr nonce = take 16 (vc_sha256 cr nonce)"

text \<open>The masking is the number of masks taken from the output of SHAKE128 on the nonce.\<close>

record VmessEncoder =
  en_cipher :: "(vmess_aead \<times> bytes) option"
  en_base_nonce :: bytes
  en_count :: u16
  en_masking :: "nat option"
  en_security :: u8
  en_option :: u8

definition VmessEncoder_new :: "vmess_crates \<Rightarrow> u8 \<Rightarrow> u8 \<Rightarrow> bytes \<Rightarrow> bytes \<Rightarrow> VmessEncoder" where
  "VmessEncoder_new cr security opt key nonce =
     \<lparr>en_cipher = (if security = SECURITY_NONE then None else VmessAeadCipher_new cr security key),
      en_base_nonce = nonce, en_count = 0,
      en_masking = (if opt AND OPT_CHUNK_MASKING \<noteq> 0 then Some 0 else None),
      en_security = security, en_option = opt\<rparr>"

definition mask_of :: "vmess_crates \<Rightarrow> bytes \<Rightarrow> nat option \<Rightarrow> u16" where
  "mask_of cr seed m = (case m of None \<Rightarrow> 0 | Some k \<Rightarrow> next_mask_u16 cr seed k)"

definition vmess_encode :: "vmess_crates \<Rightarrow> VmessEncoder \<Rightarrow> bytes \<Rightarrow> bytes \<times> VmessEncoder" where
  "vmess_encode cr e plaintext =
     (if en_security e = SECURITY_NONE \<and> en_option e AND OPT_CHUNK_STREAM = 0 then (plaintext, e)
      else if en_security e = SECURITY_NONE then
        (u16_be (word_of_nat (length plaintext) XOR mask_of cr (en_base_nonce e) (en_masking e)) @ plaintext,
         e\<lparr>en_masking := map_option Suc (en_masking e)\<rparr>)
      else
        (let (a, key) = the (en_cipher e);
             ct = vc_seal cr a key (make_nonce (en_count e) (en_base_nonce e)) [] plaintext
         in (u16_be (word_of_nat (length ct) XOR mask_of cr (en_base_nonce e) (en_masking e)) @ ct,
             e\<lparr>en_count := en_count e + 1, en_masking := map_option Suc (en_masking e)\<rparr>)))"

datatype DecodeState = NeedLen | NeedData nat

record VmessDecoder =
  de_cipher :: "(vmess_aead \<times> bytes) option"
  de_base_nonce :: bytes
  de_count :: u16
  de_masking :: "nat option"
  de_state :: DecodeState
  de_security :: u8
  de_option :: u8

definition VmessDecoder_new :: "vmess_crates \<Rightarrow> u8 \<Rightarrow> u8 \<Rightarrow> bytes \<Rightarrow> bytes \<Rightarrow> VmessDecoder" where
  "VmessDecoder_new cr security opt key nonce =
     \<lparr>de_cipher = (if security = SECURITY_NONE then None else VmessAeadCipher_new cr security key),
      de_base_nonce = nonce, de_count = 0,
      de_masking = (if opt AND OPT_CHUNK_MASKING \<noteq> 0 then Some 0 else None),
      de_state = NeedLen, de_security = security, de_option = opt\<rparr>"

text \<open>The data of a chunk whose length is known, and an attempt to decode a chunk from the bytes received.\<close>

definition decode_data :: "vmess_crates \<Rightarrow> VmessDecoder \<Rightarrow> nat \<Rightarrow> bytes \<Rightarrow> string + bytes option \<times> VmessDecoder \<times> bytes" where
  "decode_data cr d expected raw =
     (if length raw < expected then Inr (None, d\<lparr>de_state := NeedData expected\<rparr>, raw)
      else
        (let chunk = take expected raw; d = d\<lparr>de_state := NeedLen\<rparr> in
         if de_security d = SECURITY_NONE then Inr (Some chunk, d, drop expected raw)
         else
           (let (a, key) = the (de_cipher d) in
            case vc_open cr a key (make_nonce (de_count d) (de_base_nonce d)) [] chunk of
              None \<Rightarrow> Inl ''vmess decrypt: Error''
            | Some pt \<Rightarrow> Inr (Some pt, d\<lparr>de_count := de_count d + 1\<rparr>, drop expected raw))))"

definition try_decode :: "vmess_crates \<Rightarrow> VmessDecoder \<Rightarrow> bytes \<Rightarrow> string + bytes option \<times> VmessDecoder \<times> bytes" where
  "try_decode cr d raw =
     (if de_security d = SECURITY_NONE \<and> de_option d AND OPT_CHUNK_STREAM = 0 then
        Inr (if raw = [] then (None, d, raw) else (Some raw, d, []))
      else
        (case de_state d of
           NeedData expected \<Rightarrow> decode_data cr d expected raw
         | NeedLen \<Rightarrow>
             if length raw < 2 then Inr (None, d, raw)
             else
               (let raw_len = unat (u16_of_be (take 2 raw) XOR mask_of cr (de_base_nonce d) (de_masking d));
                    d = d\<lparr>de_masking := map_option Suc (de_masking d)\<rparr>
                in if raw_len = 0 then Inr (Some [], d, drop 2 raw)
                   else decode_data cr d raw_len (drop 2 raw))))"

text \<open>
  The reading half over a transport that delivers segments. An empty chunk and the end of the transport end the stream:
  the read then gives nothing.
\<close>

record VmessReadHalf =
  vr_inner :: "bytes list"
  vr_decoder :: VmessDecoder
  vr_raw_buf :: bytes
  vr_decoded_buf :: bytes

definition VmessReadHalf_new :: "bytes list \<Rightarrow> VmessDecoder \<Rightarrow> VmessReadHalf" where
  "VmessReadHalf_new inn d = \<lparr>vr_inner = inn, vr_decoder = d, vr_raw_buf = [], vr_decoded_buf = []\<rparr>"

function vmess_fill :: "vmess_crates \<Rightarrow> VmessReadHalf \<Rightarrow> string + VmessReadHalf" where
  "vmess_fill cr st =
     (case try_decode cr (vr_decoder st) (vr_raw_buf st) of
        Inl e \<Rightarrow> Inl e
      | Inr (Some data, d, raw) \<Rightarrow> Inr (st\<lparr>vr_decoder := d, vr_raw_buf := raw, vr_decoded_buf := data\<rparr>)
      | Inr (None, d, raw) \<Rightarrow>
          (case vr_inner st of
             [] \<Rightarrow> Inr (st\<lparr>vr_decoder := d, vr_raw_buf := raw\<rparr>)
           | s # ss \<Rightarrow>
               if s = [] then Inr (st\<lparr>vr_inner := ss, vr_decoder := d, vr_raw_buf := raw\<rparr>)
               else vmess_fill cr (st\<lparr>vr_inner := ss, vr_decoder := d, vr_raw_buf := raw @ s\<rparr>)))"
  by pat_completeness auto
termination
  by (relation "measure (\<lambda>(cr, st). length (vr_inner st))") auto

declare vmess_fill.simps [simp del]

definition vmess_poll_read :: "vmess_crates \<Rightarrow> nat \<Rightarrow> VmessReadHalf \<Rightarrow> string + bytes \<times> VmessReadHalf" where
  "vmess_poll_read cr n st =
     res_bind (if vr_decoded_buf st \<noteq> [] then Inr st else vmess_fill cr st) (\<lambda>st.
       Inr (take n (vr_decoded_buf st), st\<lparr>vr_decoded_buf := drop n (vr_decoded_buf st)\<rparr>))"

text \<open>
  The writing half: a write first sends what is pending, then encodes at most 15000 bytes and keeps the chunk pending. The
  results are the bytes sent, the number of bytes taken and the state; the transport takes everything, after as many polls as
  it needs. Shutdown does not send what is pending.
\<close>

record VmessWriteHalf =
  vw_encoder :: VmessEncoder
  vw_pending :: bytes

definition VmessWriteHalf_new :: "VmessEncoder \<Rightarrow> VmessWriteHalf" where
  "VmessWriteHalf_new e = \<lparr>vw_encoder = e, vw_pending = []\<rparr>"

definition MAX_CHUNK :: nat where "MAX_CHUNK = 15000"

definition vmess_poll_write :: "vmess_crates \<Rightarrow> bytes \<Rightarrow> VmessWriteHalf \<Rightarrow> bytes \<times> nat \<times> VmessWriteHalf" where
  "vmess_poll_write cr data w =
     (let chunk = take MAX_CHUNK data; (out, e) = vmess_encode cr (vw_encoder w) chunk
      in (vw_pending w, length chunk, \<lparr>vw_encoder = e, vw_pending = out\<rparr>))"

definition vmess_poll_flush :: "VmessWriteHalf \<Rightarrow> bytes \<times> VmessWriteHalf" where
  "vmess_poll_flush w = (vw_pending w, w\<lparr>vw_pending := []\<rparr>)"

definition vmess_poll_shutdown :: "VmessWriteHalf \<Rightarrow> bytes \<times> VmessWriteHalf" where
  "vmess_poll_shutdown w = ([], w)"

text \<open>\<open>write_all\<close> writes until everything is taken.\<close>

function vmess_write_all :: "vmess_crates \<Rightarrow> bytes \<Rightarrow> VmessWriteHalf \<Rightarrow> bytes \<times> VmessWriteHalf" where
  "vmess_write_all cr data w =
     (if data = [] then ([], w)
      else let (sent, n, w') = vmess_poll_write cr data w; (sent', w'') = vmess_write_all cr (drop n data) w' in (sent @ sent', w''))"
  by pat_completeness auto
termination
  by (relation "measure (\<lambda>(cr, data, w). length data)")
     (auto simp: vmess_poll_write_def Let_def MAX_CHUNK_def split: prod.splits)

declare vmess_write_all.simps [simp del]

text \<open>The two halves of the outbound's stream.\<close>

definition VmessStream_new :: "vmess_crates \<Rightarrow> bytes list \<Rightarrow> u8 \<Rightarrow> u8 \<Rightarrow> bytes \<Rightarrow> bytes \<Rightarrow> VmessReadHalf \<times> VmessWriteHalf" where
  "VmessStream_new cr inn security opt key nonce =
     (VmessReadHalf_new inn (VmessDecoder_new cr security opt (resp_data_key cr key) (resp_data_nonce cr nonce)),
      VmessWriteHalf_new (VmessEncoder_new cr security opt key nonce))"

section \<open>The inbound\<close>

definition vmess_cmd_key :: "vmess_crates \<Rightarrow> bytes \<Rightarrow> bytes" where
  "vmess_cmd_key cr uuid = vc_md5 cr (uuid @ as_bytes ''c48619fe-8f02-49e0-b9e9-edf763e17e21'')"

definition kdf_sha256 :: "vmess_crates \<Rightarrow> bytes \<Rightarrow> string list \<Rightarrow> bytes" where
  "kdf_sha256 cr key paths = foldl (\<lambda>current path. vc_hmac cr current (as_bytes path)) key paths"

definition kdf16 :: "vmess_crates \<Rightarrow> bytes \<Rightarrow> string list \<Rightarrow> bytes" where
  "kdf16 cr key paths = take 16 (kdf_sha256 cr key paths)"

definition kdf12 :: "vmess_crates \<Rightarrow> bytes \<Rightarrow> string list \<Rightarrow> bytes" where
  "kdf12 cr key paths = take 12 (kdf_sha256 cr key paths)"

definition hex_bytes :: "bytes \<Rightarrow> string" where
  "hex_bytes data = concat (map hex02 data)"

text \<open>\<open>now\<close> is the time in seconds; times are signed, and the difference and its absolute value wrap.\<close>

definition verify_auth_id :: "vmess_crates \<Rightarrow> u64 \<Rightarrow> bytes \<Rightarrow> bytes \<Rightarrow> bool" where
  "verify_auth_id cr now auth_id cmd_key =
     (let block = vc_aes_block_inv cr (kdf16 cr cmd_key [''AES Auth ID Encryption'']) auth_id;
          ts = word_of_nat (be_value (take 8 block)) :: u64;
          diff = (if sint (ts - now) < 0 then - (ts - now) else ts - now)
      in \<not> 120 < sint diff \<and> vc_crc32 cr (take 12 block) = u32_of_be (take 4 (drop 12 block)))"

text \<open>The fields of the decrypted header; the outer option is a panic of an index out of range.\<close>

definition parse_vmess_header :: "vmess_crates \<Rightarrow> bytes \<Rightarrow> (string + Target \<times> bytes \<times> bytes \<times> u8) option" where
  "parse_vmess_header cr h = do {
     ver \<leftarrow> idx h 0;
     if ver \<noteq> 1 then Some (Inl (''vmess: unsupported version: '' @ show_nat (unat ver)))
     else do {
       data_iv \<leftarrow> slice h 1 17;
       data_key \<leftarrow> slice h 17 33;
       resp_v \<leftarrow> idx h 33;
       opt \<leftarrow> idx h 34;
       padding_sec \<leftarrow> idx h 35;
       cmd \<leftarrow> idx h 37;
       if cmd \<noteq> 0x01 then Some (Inl ''vmess: only TCP (cmd=1) supported'')
       else do {
         p0 \<leftarrow> idx h 38; p1 \<leftarrow> idx h 39;
         let port = u16_of_be [p0, p1];
         atyp \<leftarrow> idx h 40;
         let done = (\<lambda>t. Some (Inr (t, vc_md5 cr data_key, vc_md5 cr data_iv, resp_v)));
         if atyp = 0x01 then do { ip \<leftarrow> slice h 41 45; done (Socket \<lparr>sa_ip = V4 (ipv4_of_bytes ip), sa_port = port\<rparr>) }
         else if atyp = 0x02 then do {
           dlen \<leftarrow> idx h 41;
           domain \<leftarrow> slice h 42 (42 + unat dlen);
           case from_utf8 domain of None \<Rightarrow> Some (Inl ''invalid utf-8 sequence'') | Some d \<Rightarrow> done (Domain d port) }
         else if atyp = 0x03 then do { ip \<leftarrow> slice h 41 57; done (Socket \<lparr>sa_ip = V6 (ipv6_of_bytes ip), sa_port = port\<rparr>) }
         else Some (Inl (''vmess: unknown atyp 0x'' @ hex02 atyp)) } } }"

text \<open>The header from the stream; \<open>users\<close> are the identifiers of the configuration. A panic is an error here.\<close>

definition decode_vmess_header :: "vmess_crates \<Rightarrow> u64 \<Rightarrow> bytes list \<Rightarrow> (Target \<times> bytes \<times> bytes \<times> u8) proc" where
  "decode_vmess_header cr now users =
     Read 16 (\<lambda>auth_id.
       case find (verify_auth_id cr now auth_id) (map (vmess_cmd_key cr) users) of
         None \<Rightarrow> Err ''vmess: no matching user for auth ID''
       | Some cmd_key \<Rightarrow>
           Read (2 + 4) (\<lambda>enc_len_buf. Read 8 (\<lambda>conn_nonce.
             let path = (\<lambda>s. [s, hex_bytes auth_id, hex_bytes conn_nonce]) in
             case vc_open cr VmAes128Gcm (kdf16 cr cmd_key (path ''AEAD Header Length Key''))
                 (kdf12 cr cmd_key (path ''AEAD Header Length IV'')) auth_id enc_len_buf of
               None \<Rightarrow> Err ''vmess: header length decryption failed''
             | Some len_data \<Rightarrow>
                 (let header_len = unat (u16_of_be (take 2 len_data)) in
                  ensure (0 < header_len \<and> header_len < 65536) (''vmess: invalid header length: '' @ show_nat header_len)
                    (Read (header_len + 16) (\<lambda>enc_header.
                       case vc_open cr VmAes128Gcm (kdf16 cr cmd_key (path ''AEAD Header Key''))
                           (kdf12 cr cmd_key (path ''AEAD Header IV'')) auth_id enc_header of
                         None \<Rightarrow> Err ''vmess: header decryption failed''
                       | Some h \<Rightarrow>
                           (case parse_vmess_header cr (take header_len h) of
                              None \<Rightarrow> Err ''index out of bounds''
                            | Some (Inl e) \<Rightarrow> Err e
                            | Some (Inr r) \<Rightarrow> Ret r)))))))"

definition vmess_response :: "vmess_crates \<Rightarrow> bytes \<Rightarrow> bytes \<Rightarrow> u8 \<Rightarrow> bytes" where
  "vmess_response cr resp_key resp_iv resp_v = vc_seal cr VmAes128Gcm resp_key (take 12 resp_iv) [] [resp_v, 0x00, 0x00, 0x00]"

definition vmess_handle_conn :: "vmess_crates \<Rightarrow> u64 \<Rightarrow> bytes list \<Rightarrow> Target proc" where
  "vmess_handle_conn cr now users =
     proc_bind (decode_vmess_header cr now users) (\<lambda>(t, key, iv, v). Write (vmess_response cr key iv v) (Ret t))"

section \<open>Chunks are read back\<close>

definition passes :: "VmessEncoder \<Rightarrow> bool" where
  "passes e \<longleftrightarrow> en_security e = SECURITY_NONE \<and> en_option e AND OPT_CHUNK_STREAM = 0"

text \<open>The decoder that waits for the next chunk of an encoder.\<close>

definition dec_at :: "VmessEncoder \<Rightarrow> VmessDecoder" where
  "dec_at e = \<lparr>de_cipher = en_cipher e, de_base_nonce = en_base_nonce e, de_count = en_count e, de_masking = en_masking e,
     de_state = NeedLen, de_security = en_security e, de_option = en_option e\<rparr>"

lemma dec_at_new: "dec_at (VmessEncoder_new cr security opt key nonce) = VmessDecoder_new cr security opt key nonce"
  by (simp add: dec_at_def VmessEncoder_new_def VmessDecoder_new_def)

lemma passes_encode [simp]: "passes (snd (vmess_encode cr e b)) = passes e"
  by (auto simp: passes_def vmess_encode_def Let_def split: prod.splits)

lemma masked_length [simp]: "n < 65536 \<Longrightarrow> unat ((word_of_nat n XOR m) XOR m :: u16) = n"
  by (simp add: xor.assoc unsigned_of_nat take_bit_nat_eq_self)

lemma vmess_sealed:
  assumes "vmess_laws cr"
  shows "length (vc_seal cr a k n ad m) = length m + 16" "vc_open cr a k n ad (vc_seal cr a k n ad m) = Some m"
  using assms by (simp_all add: vmess_laws_def)

lemma vmess_header_read [simp]: "u16_of_be (take 2 (u16_be w @ rest)) = w" "drop 2 (u16_be w @ rest) = rest"
  "2 \<le> length (u16_be w @ rest)"
  by simp_all

lemma try_decode_chunk:
  assumes "vmess_laws cr" "\<not> passes e" "b \<noteq> []" "length b \<le> 15000"
  shows "try_decode cr (dec_at e) (fst (vmess_encode cr e b) @ rest) = Inr (Some b, dec_at (snd (vmess_encode cr e b)), rest)"
proof -
  obtain a key where c: "the (en_cipher e) = (a, key)" by (cases "the (en_cipher e)")
  show ?thesis
    using assms c
    by (cases "en_security e = SECURITY_NONE")
      (simp_all add: try_decode_def vmess_encode_def dec_at_def passes_def decode_data_def vmess_sealed Let_def
        del: of_nat_add)
qed

text \<open>Decoding can stop for more bytes and be resumed, and bytes that come later do not change a decoded chunk or a failure.\<close>

definition dec_passes :: "VmessDecoder \<Rightarrow> bool" where
  "dec_passes d \<longleftrightarrow> de_security d = SECURITY_NONE \<and> de_option d AND OPT_CHUNK_STREAM = 0"

lemma decode_data_later:
  "decode_data cr d n raw = Inr (Some pt, d', raw') \<Longrightarrow> decode_data cr d n (raw @ later) = Inr (Some pt, d', raw' @ later)"
  "decode_data cr d n raw = Inl e \<Longrightarrow> decode_data cr d n (raw @ later) = Inl e"
  by (auto simp: decode_data_def Let_def split: if_splits option.splits prod.splits)

lemma decode_data_resume:
  "decode_data cr d n raw = Inr (None, d', raw') \<Longrightarrow> d' = d\<lparr>de_state := NeedData n\<rparr> \<and> raw' = raw"
  by (auto simp: decode_data_def Let_def split: if_splits option.splits prod.splits)

lemma decode_data_state: "decode_data cr (d\<lparr>de_state := x\<rparr>) n raw = decode_data cr d n raw"
  by (simp add: decode_data_def Let_def)

lemma try_decode_need_data: "\<not> dec_passes d \<Longrightarrow> de_state d = NeedData n \<Longrightarrow> try_decode cr d raw = decode_data cr d n raw"
  by (auto simp: try_decode_def dec_passes_def)

lemma try_decode_need_len:
  assumes "\<not> dec_passes d" "de_state d = NeedLen" "2 \<le> length raw"
  shows "try_decode cr d raw =
    (let n = unat (u16_of_be (take 2 raw) XOR mask_of cr (de_base_nonce d) (de_masking d));
         d = d\<lparr>de_masking := map_option Suc (de_masking d)\<rparr>
     in if n = 0 then Inr (Some [], d, drop 2 raw) else decode_data cr d n (drop 2 raw))"
  using assms by (auto simp: try_decode_def dec_passes_def)

lemma try_decode_short:
  "\<not> dec_passes d \<Longrightarrow> de_state d = NeedLen \<Longrightarrow> length raw < 2 \<Longrightarrow> try_decode cr d raw = Inr (None, d, raw)"
  by (auto simp: try_decode_def dec_passes_def)

lemma dec_passes_decode_data: "decode_data cr d n raw = Inr (r, d', raw') \<Longrightarrow> dec_passes d' = dec_passes d"
  by (auto simp: decode_data_def dec_passes_def Let_def split: if_splits option.splits prod.splits)

lemma dec_passes_update [simp]:
  "dec_passes (d\<lparr>de_masking := m\<rparr>) = dec_passes d" "dec_passes (d\<lparr>de_state := x\<rparr>) = dec_passes d"
  by (simp_all add: dec_passes_def)

lemma try_decode_passes: "try_decode cr d raw = Inr (r, d', raw') \<Longrightarrow> dec_passes d' = dec_passes d"
  by (auto simp: try_decode_def Let_def dest: dec_passes_decode_data split: if_splits DecodeState.splits)

text \<open>More bytes: a decoded chunk and a failure stay, and an attempt that needs more bytes is resumed.\<close>

definition appended :: "string + bytes option \<times> VmessDecoder \<times> bytes \<Rightarrow> bytes \<Rightarrow> string + bytes option \<times> VmessDecoder \<times> bytes" where
  "appended r later = map_sum id (\<lambda>(x, d, raw). (x, d, raw @ later)) r"

definition waits :: "string + bytes option \<times> VmessDecoder \<times> bytes \<Rightarrow> bool" where
  "waits r \<longleftrightarrow> (\<exists>d raw. r = Inr (None, d, raw))"

lemma decode_data_append: "\<not> waits (decode_data cr d n raw) \<Longrightarrow> decode_data cr d n (raw @ later) = appended (decode_data cr d n raw) later"
  by (auto simp: waits_def appended_def decode_data_def Let_def split: option.splits prod.splits)

lemma try_decode_append:
  assumes "\<not> dec_passes d" "\<not> waits (try_decode cr d raw)"
  shows "try_decode cr d (raw @ later) = appended (try_decode cr d raw) later"
proof (cases "de_state d")
  case (NeedData n)
  with assms decode_data_append show ?thesis by (simp add: try_decode_need_data)
next
  case NeedLen
  with assms have "2 \<le> length raw" by (metis not_le try_decode_short waits_def)
  with NeedLen assms show ?thesis by (auto simp: try_decode_need_len Let_def decode_data_append) (simp add: appended_def)
qed

lemma try_decode_resume:
  assumes "\<not> dec_passes d" "try_decode cr d raw = Inr (None, d', raw')"
  shows "try_decode cr d' (raw' @ later) = try_decode cr d (raw @ later)"
proof (cases "de_state d")
  case (NeedData n)
  with assms have "decode_data cr d n raw = Inr (None, d', raw')" by (simp add: try_decode_need_data)
  from decode_data_resume [OF this] NeedData assms(1) show ?thesis
    by (simp add: try_decode_need_data decode_data_state)
next
  case NeedLen
  show ?thesis
  proof (cases "2 \<le> length raw")
    case False
    with NeedLen assms show ?thesis by (auto simp: try_decode_def dec_passes_def split: if_splits)
  next
    case True
    define n where "n = unat (u16_of_be (take 2 raw) XOR mask_of cr (de_base_nonce d) (de_masking d))"
    let ?d = "d\<lparr>de_masking := map_option Suc (de_masking d)\<rparr>"
    have n: "n \<noteq> 0" "decode_data cr ?d n (drop 2 raw) = Inr (None, d', raw')"
      using assms True NeedLen by (auto simp: try_decode_need_len n_def Let_def split: if_splits)
    from decode_data_resume [OF n(2)] have "try_decode cr d' (raw' @ later) = decode_data cr ?d n (drop 2 raw @ later)"
      using assms(1) by (simp add: try_decode_need_data decode_data_state)
    then show ?thesis using assms(1) True NeedLen n(1) by (simp add: try_decode_need_len n_def [symmetric] Let_def)
  qed
qed

text \<open>The chunks that a decoder finds in a byte string.\<close>

definition state_rank :: "DecodeState \<Rightarrow> nat" where
  "state_rank x = (case x of NeedLen \<Rightarrow> 0 | NeedData _ \<Rightarrow> 1)"

lemma decode_data_shrinks:
  "decode_data cr d n raw = Inr (Some b, d', raw') \<Longrightarrow> length raw' \<le> length raw \<and> de_state d' = NeedLen"
  by (auto simp: decode_data_def Let_def split: if_splits option.splits prod.splits)

lemma try_decode_shrinks:
  assumes "try_decode cr d raw = Inr (Some b, d', raw')"
  shows "2 * length raw' + state_rank (de_state d') < 2 * length raw + state_rank (de_state d)"
proof (cases "dec_passes d")
  case True
  with assms show ?thesis by (auto simp: try_decode_def dec_passes_def split: if_splits)
next
  case False
  show ?thesis
  proof (cases "de_state d")
    case (NeedData n)
    with False assms have "decode_data cr d n raw = Inr (Some b, d', raw')" by (simp add: try_decode_need_data)
    from decode_data_shrinks [OF this] NeedData show ?thesis by (simp add: state_rank_def)
  next
    case NeedLen
    with False assms have l: "2 \<le> length raw" using try_decode_short [of d raw cr] by fastforce
    with NeedLen False assms have "length raw' \<le> length raw - 2 \<and> de_state d' = NeedLen"
      by (auto simp: try_decode_need_len Let_def dest: decode_data_shrinks split: if_splits)
    with l NeedLen show ?thesis by (auto simp: state_rank_def)
  qed
qed

function dec_chunks :: "vmess_crates \<Rightarrow> VmessDecoder \<Rightarrow> bytes \<Rightarrow> bytes list" where
  "dec_chunks cr d raw = (case try_decode cr d raw of Inr (Some b, d', raw') \<Rightarrow> b # dec_chunks cr d' raw' | _ \<Rightarrow> [])"
  by pat_completeness auto
termination
  by (relation "measure (\<lambda>(cr, d, raw). 2 * length raw + state_rank (de_state d))") (auto dest: try_decode_shrinks)

declare dec_chunks.simps [simp del]

lemma dec_chunks_passes: "dec_passes d \<Longrightarrow> dec_chunks cr d raw = (if raw = [] then [] else [raw])"
  by (simp add: dec_chunks.simps [of cr d raw] dec_chunks.simps [of cr d "[]"] try_decode_def dec_passes_def)

text \<open>What one attempt to fill the buffer does, in terms of all the bytes that are still to come.\<close>

lemma vmess_fill_cases:
  assumes "\<not> dec_passes (vr_decoder st)" "segs_ok (vr_inner st)"
  shows "case vmess_fill cr st of
      Inl e \<Rightarrow> try_decode cr (vr_decoder st) (vr_raw_buf st @ concat (vr_inner st)) = Inl e
    | Inr st' \<Rightarrow>
        (\<exists>b d raw inn. st' = st\<lparr>vr_inner := inn, vr_decoder := d, vr_raw_buf := raw, vr_decoded_buf := b\<rparr> \<and> segs_ok inn
           \<and> try_decode cr (vr_decoder st) (vr_raw_buf st @ concat (vr_inner st)) = Inr (Some b, d, raw @ concat inn))
        \<or> (\<exists>d raw. st' = st\<lparr>vr_inner := [], vr_decoder := d, vr_raw_buf := raw\<rparr>
           \<and> try_decode cr (vr_decoder st) (vr_raw_buf st @ concat (vr_inner st)) = Inr (None, d, raw))"
  using assms
proof (induction cr st rule: vmess_fill.induct)
  case (1 cr st)
  let ?t = "try_decode cr (vr_decoder st) (vr_raw_buf st)"
  show ?case
  proof (cases "waits ?t")
    case False
    then have "try_decode cr (vr_decoder st) (vr_raw_buf st @ concat (vr_inner st)) = appended ?t (concat (vr_inner st))"
      by (rule try_decode_append [OF "1.prems"(1)])
    moreover have "vmess_fill cr st = (case ?t of Inl e \<Rightarrow> Inl e
        | Inr (r, d, raw) \<Rightarrow> Inr (st\<lparr>vr_inner := vr_inner st, vr_decoder := d, vr_raw_buf := raw, vr_decoded_buf := the r\<rparr>))"
      using False by (simp add: vmess_fill.simps [of cr st] waits_def split: sum.splits option.splits prod.splits)
    moreover obtain e b d raw where "?t = Inl e \<or> ?t = Inr (Some b, d, raw)"
      using False by (cases ?t) (auto simp: waits_def)
    ultimately show ?thesis using "1.prems"(2)
      by (auto simp: appended_def) (intro exI [of _ raw] exI [of _ "vr_inner st"], simp)
  next
    case True
    then obtain d raw where t: "?t = Inr (None, d, raw)" by (auto simp: waits_def)
    note later = try_decode_resume [OF "1.prems"(1) t]
    show ?thesis
    proof (cases "vr_inner st")
      case Nil
      then show ?thesis using t by (simp add: vmess_fill.simps [of cr st])
    next
      case (Cons x xs)
      with "1.prems"(2) have x: "x \<noteq> []" "segs_ok xs" by (auto simp: segs_ok_def)
      have p: "\<not> dec_passes d" using try_decode_passes [OF t] "1.prems"(1) by simp
      from "1.IH" [OF t refl refl refl Cons x(1)] p x(2) later [of "x @ concat xs"] show ?thesis
        by (simp add: vmess_fill.simps [of cr st] t Cons x(1) split: sum.splits)
    qed
  qed
qed

text \<open>The stream as the relay reads it: an error ends the copy like the end of the stream.\<close>

definition vmess_reader :: "vmess_crates \<Rightarrow> VmessReadHalf \<Rightarrow> bytes \<times> VmessReadHalf" where
  "vmess_reader cr st = (case vmess_poll_read cr BUF_SIZE st of Inl _ \<Rightarrow> ([], st) | Inr r \<Rightarrow> r)"

definition vmess_coming :: "vmess_crates \<Rightarrow> VmessReadHalf \<Rightarrow> bytes list" where
  "vmess_coming cr st = dec_chunks cr (vr_decoder st) (vr_raw_buf st @ concat (vr_inner st))"

definition vmess_remaining :: "vmess_crates \<Rightarrow> VmessReadHalf \<Rightarrow> bytes" where
  "vmess_remaining cr st = vr_decoded_buf st @ concat (vmess_coming cr st)"

definition vmess_wf :: "vmess_crates \<Rightarrow> VmessReadHalf \<Rightarrow> bool" where
  "vmess_wf cr st \<longleftrightarrow> segs_ok (vr_inner st) \<and> [] \<notin> set (vmess_coming cr st)"

text \<open>Either the buffer is filled with the next bytes, or nothing is to come.\<close>

lemma vmess_fill_next:
  assumes "vmess_wf cr st" "vr_decoded_buf st = []"
  shows "(\<exists>st'. vmess_fill cr st = Inr st' \<and> vr_decoded_buf st' \<noteq> [] \<and> vmess_wf cr st' \<and> vmess_remaining cr st' = vmess_remaining cr st)
    \<or> (vmess_remaining cr st = [] \<and> (\<forall>st'. vmess_fill cr st = Inr st' \<longrightarrow> vr_decoded_buf st' = [] \<and> vmess_wf cr st' \<and> vmess_remaining cr st' = []))"
proof (cases "dec_passes (vr_decoder st)")
  case True
  have t: "try_decode cr (vr_decoder st) raw = Inr (if raw = [] then (None, vr_decoder st, raw) else (Some raw, vr_decoder st, []))" for raw
    using True by (simp add: try_decode_def dec_passes_def)
  note c = dec_chunks_passes [OF True]
  consider "vr_raw_buf st \<noteq> []" | "vr_raw_buf st = []" "vr_inner st = []" | x xs where "vr_raw_buf st = []" "vr_inner st = x # xs" "x \<noteq> []"
    using assms(1) by (cases "vr_inner st") (auto simp: vmess_wf_def segs_ok_def)
  then show ?thesis
    using assms
    by cases (auto simp: vmess_fill.simps [of cr st] vmess_fill.simps [of cr "st\<lparr>vr_inner := xs, vr_raw_buf := x\<rparr>" for xs x] t c
      vmess_wf_def vmess_coming_def vmess_remaining_def segs_ok_def)
next
  case False
  let ?t = "try_decode cr (vr_decoder st) (vr_raw_buf st @ concat (vr_inner st))"
  have segs: "segs_ok (vr_inner st)" using assms(1) by (simp add: vmess_wf_def)
  show ?thesis
  proof (cases "\<exists>b d raw. ?t = Inr (Some b, d, raw)")
    case True
    then obtain b d raw where t: "?t = Inr (Some b, d, raw)" by blast
    then have c: "vmess_coming cr st = b # dec_chunks cr d raw" by (simp add: vmess_coming_def dec_chunks.simps)
    from vmess_fill_cases [OF False segs, of cr] t obtain raw' inn where
      f: "vmess_fill cr st = Inr (st\<lparr>vr_inner := inn, vr_decoder := d, vr_raw_buf := raw', vr_decoded_buf := b\<rparr>)" "segs_ok inn" "raw = raw' @ concat inn"
      by (auto split: sum.splits)
    with assms c show ?thesis by (auto simp: vmess_wf_def vmess_remaining_def vmess_coming_def)
  next
    case none: False
    then have c: "vmess_coming cr st = []" by (auto simp: vmess_coming_def dec_chunks.simps [of cr "vr_decoder st"] split: sum.splits option.splits)
    have "vr_decoded_buf st' = [] \<and> vmess_wf cr st' \<and> vmess_remaining cr st' = []" if f: "vmess_fill cr st = Inr st'" for st'
    proof -
      from vmess_fill_cases [OF False segs, of cr] none f obtain d raw where
        st': "st' = st\<lparr>vr_inner := [], vr_decoder := d, vr_raw_buf := raw\<rparr>" and t: "?t = Inr (None, d, raw)" by auto
      have "try_decode cr d raw = Inr (None, d, raw)" using try_decode_resume [OF False t, of "[]"] t by simp
      with st' assms(2) show ?thesis by (simp add: vmess_wf_def vmess_remaining_def vmess_coming_def dec_chunks.simps [of cr d] segs_ok_def)
    qed
    with c assms(2) show ?thesis by (simp add: vmess_remaining_def)
  qed
qed

lemma vmess_read_cases:
  assumes "vmess_wf cr st" "vmess_reader cr st = (buf, st')"
  shows "buf @ vmess_remaining cr st' = vmess_remaining cr st \<and> vmess_wf cr st' \<and> (buf = [] \<longrightarrow> vmess_remaining cr st = [])"
proof -
  have taken: "take BUF_SIZE (vr_decoded_buf s) @ vmess_remaining cr (s\<lparr>vr_decoded_buf := drop BUF_SIZE (vr_decoded_buf s)\<rparr>) = vmess_remaining cr s"
    "vmess_wf cr (s\<lparr>vr_decoded_buf := drop BUF_SIZE (vr_decoded_buf s)\<rparr>) = vmess_wf cr s" for s
    by (simp_all add: vmess_remaining_def vmess_wf_def vmess_coming_def)
  have size: "0 < BUF_SIZE" by (simp add: BUF_SIZE_def)
  show ?thesis
  proof (cases "vr_decoded_buf st = []")
    case False
    with assms(2) have "buf = take BUF_SIZE (vr_decoded_buf st)" "st' = st\<lparr>vr_decoded_buf := drop BUF_SIZE (vr_decoded_buf st)\<rparr>"
      by (simp_all add: vmess_reader_def vmess_poll_read_def)
    with taken [of st] assms(1) False size show ?thesis by simp
  next
    case True
    show ?thesis
    proof (cases "vmess_fill cr st")
      case (Inl e)
      with assms True vmess_fill_next [OF assms(1) True] show ?thesis by (auto simp: vmess_reader_def vmess_poll_read_def)
    next
      case (Inr s)
      with assms(2) True have "buf = take BUF_SIZE (vr_decoded_buf s)" "st' = s\<lparr>vr_decoded_buf := drop BUF_SIZE (vr_decoded_buf s)\<rparr>"
        by (simp_all add: vmess_reader_def vmess_poll_read_def)
      with vmess_fill_next [OF assms(1) True] taken [of s] size Inr show ?thesis by auto
    qed
  qed
qed

interpretation vmess_source: byte_source "vmess_reader cr" "vmess_remaining cr" "vmess_wf cr" for cr
  by unfold_locales (auto dest: vmess_read_cases)

section \<open>The stream is read back\<close>

fun vmess_chunks :: "vmess_crates \<Rightarrow> VmessEncoder \<Rightarrow> bytes list \<Rightarrow> bytes" where
  "vmess_chunks cr e [] = []"
| "vmess_chunks cr e (b # bs) = fst (vmess_encode cr e b) @ vmess_chunks cr (snd (vmess_encode cr e b)) bs"

definition enc_after :: "vmess_crates \<Rightarrow> VmessEncoder \<Rightarrow> bytes list \<Rightarrow> VmessEncoder" where
  "enc_after cr e bs = foldl (\<lambda>e b. snd (vmess_encode cr e b)) e bs"

lemma vmess_chunks_append: "vmess_chunks cr e (xs @ ys) = vmess_chunks cr e xs @ vmess_chunks cr (enc_after cr e xs) ys"
  by (induction xs arbitrary: e) (auto simp: enc_after_def)

lemma vmess_chunks_passes: "passes e \<Longrightarrow> vmess_chunks cr e bs = concat bs"
  by (induction bs) (auto simp: passes_def vmess_encode_def)

lemma dec_passes_at [simp]: "dec_passes (dec_at e) = passes e"
  by (simp add: dec_passes_def dec_at_def passes_def)

lemma dec_chunks_read:
  assumes "vmess_laws cr" "\<not> passes e" "\<forall>b \<in> set bs. b \<noteq> [] \<and> length b \<le> 15000"
  shows "dec_chunks cr (dec_at e) (vmess_chunks cr e bs) = bs"
  using assms(2,3)
proof (induction bs arbitrary: e)
  case Nil
  then have "try_decode cr (dec_at e) [] = Inr (None, dec_at e, [])" by (intro try_decode_short) (simp_all add: dec_at_def dec_passes_def passes_def)
  then show ?case by (simp add: dec_chunks.simps)
next
  case (Cons b bs)
  then have "try_decode cr (dec_at e) (vmess_chunks cr e (b # bs)) =
      Inr (Some b, dec_at (snd (vmess_encode cr e b)), vmess_chunks cr (snd (vmess_encode cr e b)) bs)"
    using try_decode_chunk [OF assms(1)] by simp
  with Cons show ?case by (subst dec_chunks.simps) simp
qed

text \<open>What was written is sent or pending.\<close>

lemma vmess_write_all_chunks:
  "vmess_write_all cr data w = (sent, w') \<Longrightarrow>
     sent @ vw_pending w' = vw_pending w @ vmess_chunks cr (vw_encoder w) (chunks_of MAX_CHUNK data)
     \<and> vw_encoder w' = enc_after cr (vw_encoder w) (chunks_of MAX_CHUNK data)"
proof (induction cr data w arbitrary: sent w' rule: vmess_write_all.induct)
  case (1 cr data w)
  show ?case
  proof (cases "data = []")
    case True
    with "1.prems" show ?thesis by (simp add: vmess_write_all.simps [of cr "[]"] chunks_of.simps enc_after_def)
  next
    case False
    let ?c = "take MAX_CHUNK data"
    let ?w = "\<lparr>vw_encoder = snd (vmess_encode cr (vw_encoder w) ?c), vw_pending = fst (vmess_encode cr (vw_encoder w) ?c)\<rparr>"
    have w: "vmess_poll_write cr data w = (vw_pending w, length ?c, ?w)" by (simp add: vmess_poll_write_def Let_def split: prod.splits)
    have d: "drop (length ?c) data = drop MAX_CHUNK data" by (cases "length data \<le> MAX_CHUNK") auto
    obtain s' where s': "vmess_write_all cr (drop MAX_CHUNK data) ?w = (s', w')" "sent = vw_pending w @ s'"
      using "1.prems" False by (auto simp: vmess_write_all.simps [of cr data] w d simp del: length_take split: prod.splits)
    have "0 < MAX_CHUNK" by (simp add: MAX_CHUNK_def)
    moreover have "s' @ vw_pending w' = vw_pending ?w @ vmess_chunks cr (vw_encoder ?w) (chunks_of MAX_CHUNK (drop MAX_CHUNK data))
        \<and> vw_encoder w' = enc_after cr (vw_encoder ?w) (chunks_of MAX_CHUNK (drop MAX_CHUNK data))"
      by (rule "1.IH" [OF False w [symmetric] refl refl, unfolded d, OF s'(1)])
    ultimately show ?thesis using False s'(2) by (subst (1 2) chunks_of.simps) (simp add: enc_after_def)
  qed
qed

fun vmess_writes :: "vmess_crates \<Rightarrow> bytes list \<Rightarrow> VmessWriteHalf \<Rightarrow> bytes \<times> VmessWriteHalf" where
  "vmess_writes cr [] w = ([], w)"
| "vmess_writes cr (d # ds) w =
     (let (sent, w) = vmess_write_all cr d w; (sent', w) = vmess_writes cr ds w in (sent @ sent', w))"

lemma vmess_writes_chunks:
  "vmess_writes cr ds w = (sent, w') \<Longrightarrow>
     sent @ vw_pending w' = vw_pending w @ vmess_chunks cr (vw_encoder w) (concat (map (chunks_of MAX_CHUNK) ds))"
proof (induction ds arbitrary: w sent)
  case (Cons d ds)
  obtain s1 w1 s2 where w: "vmess_write_all cr d w = (s1, w1)" "vmess_writes cr ds w1 = (s2, w')" "sent = s1 @ s2"
    using Cons.prems by (auto simp: Let_def split: prod.splits)
  from vmess_write_all_chunks [OF w(1)] Cons.IH [OF w(2)] w(3) show ?case
    by (simp add: vmess_chunks_append)
qed simp

text \<open>
  C35. A VMess stream is read back. Whatever is written, in any pieces, and flushed: a reader with the same key and nonce
  delivers to the relay exactly these bytes, in order, however the transport splits them, for every security and option.
\<close>

theorem vmess_stream_roundtrip:
  assumes "vmess_laws cr" "resolve_security name = Inr security"
    and "vmess_writes cr ds (VmessWriteHalf_new (VmessEncoder_new cr security opt key nonce)) = (sent, w)"
    and "segs_ok segs" "concat segs = sent @ fst (vmess_poll_flush w)"
  shows "\<exists>st. copy_half (vmess_reader cr) (\<lambda>w buf. Some (w @ buf))
      (VmessReadHalf_new segs (VmessDecoder_new cr security opt key nonce)) [] 0 = Some (word_of_nat (length (concat ds)), st, concat ds)"
proof -
  let ?e = "VmessEncoder_new cr security opt key nonce" and ?bs = "concat (map (chunks_of MAX_CHUNK) ds)"
  let ?st = "VmessReadHalf_new segs (dec_at ?e)"
  have "0 < MAX_CHUNK" by (simp add: MAX_CHUNK_def)
  note spec = chunks_of_spec [OF this]
  have bs: "\<forall>b \<in> set ?bs. b \<noteq> [] \<and> length b \<le> 15000" using spec by (auto simp: MAX_CHUNK_def)
  have all: "concat ?bs = concat ds" by (induction ds) (simp_all add: spec)
  have raw: "concat segs = vmess_chunks cr ?e ?bs"
    using vmess_writes_chunks [OF assms(3)] assms(5) by (simp add: VmessWriteHalf_new_def vmess_poll_flush_def)
  have "vmess_wf cr ?st \<and> vmess_remaining cr ?st = concat ds"
  proof (cases "passes ?e")
    case True
    then show ?thesis using raw all assms(4) vmess_chunks_passes [OF True]
      by (simp add: vmess_wf_def vmess_remaining_def vmess_coming_def VmessReadHalf_new_def dec_chunks_passes)
  next
    case False
    then show ?thesis using raw all assms(4) bs dec_chunks_read [OF assms(1) False bs]
      by (auto simp: vmess_wf_def vmess_remaining_def vmess_coming_def VmessReadHalf_new_def)
  qed
  with vmess_source.copy_half_complete [of cr ?st "\<lambda>w buf. Some (w @ buf)" "[]" 0] show ?thesis by (simp add: dec_at_new)
qed

section \<open>The header of the request\<close>

definition header_lengths :: "RequestHeader \<Rightarrow> bool" where
  "header_lengths h \<longleftrightarrow> length (req_key h) = 16 \<and> length (req_nonce h) = 16"

text \<open>Positions in a byte string given by its parts.\<close>

lemma idx_parts:
  "idx (x # xs) 0 = Some x" "0 < i \<Longrightarrow> idx (x # xs) i = idx xs (i - 1)" "length xs \<le> i \<Longrightarrow> idx (xs @ ys) i = idx ys (i - length xs)"
  by (auto simp: idx_def nth_Cons' nth_append)

lemma slice_parts:
  "0 < i \<Longrightarrow> i \<le> j \<Longrightarrow> slice (x # xs) i j = slice xs (i - 1) (j - 1)"
  "length xs \<le> i \<Longrightarrow> i \<le> j \<Longrightarrow> slice (xs @ ys) i j = slice ys (i - length xs) (j - length xs)"
  "length xs = j \<Longrightarrow> slice (xs @ ys) 0 j = Some xs"
  by (auto simp: slice_def drop_Cons')

lemma u16_be_pair:
  obtains a b where "u16_be w = [a, b]" "u16_of_be [a, b] = w"
proof -
  obtain a b where p: "u16_be w = [a, b]" by (simp add: u16_be_def be_bytes_def numeral_2_eq_2)
  moreover from p have "u16_of_be [a, b] = w" using int_codec_roundtrip(3) [of w] by simp
  ultimately show thesis by (rule that)
qed

text \<open>
  The inbound's parser finds the fields of the outbound's header where the outbound puts them. It does not check the
  checksum at the end of the header.
\<close>

lemma parse_vmess_header_encode:
  assumes "header_lengths h" "sendable t" "rh_command h = CMD_TCP"
  shows "parse_vmess_header cr (rh_encode cr h rnd t) = Some (Inr (t, vc_md5 cr (req_key h), vc_md5 cr (req_nonce h), resp_header h))"
proof -
  have parts: "length (req_key h) = 16" "length (req_nonce h) = 16" using assms(1) by (simp_all add: header_lengths_def)
  note rules = parse_vmess_header_def rh_encode_def vmess_write_target_def Let_def idx_parts slice_parts parts assms(3) vmess_consts
  show ?thesis
  proof (cases t)
    case (Domain host port)
    obtain p0 p1 where "u16_be port = [p0, p1]" "u16_of_be [p0, p1] = port" by (rule u16_be_pair)
    then show ?thesis using Domain assms(2) by (simp add: rules sendable_def talk from_utf8_as_bytes del: idx_Some)
  next
    case (Socket a)
    obtain ip port where a: "a = \<lparr>sa_ip = ip, sa_port = port\<rparr>" by (cases a)
    obtain p0 p1 where "u16_be port = [p0, p1]" "u16_of_be [p0, p1] = port" by (rule u16_be_pair)
    then show ?thesis using Socket a by (cases ip) (simp_all add: rules talk del: idx_Some)
  qed
qed

lemma rh_encode_length:
  assumes "header_lengths h" "sendable t"
  shows "length (rh_encode cr h rnd t) < 65536"
proof -
  obtain k where k: "unat (rnd mod 16) = k" "k < 256" using unsigned_less [of "rnd mod 16", where 'a = nat] by simp
  have "length (vmess_write_target t) \<le> 300"
    using assms(2) by (auto simp: vmess_write_target_def sendable_def split: Target.splits IpAddr.splits)
  with k show ?thesis using assms(1) by (simp add: rh_encode_def Let_def header_lengths_def)
qed

section \<open>The relay and the inbound\<close>

text \<open>The writing half as the relay uses it, with the bytes that have left.\<close>

definition vmess_writer :: "vmess_crates \<Rightarrow> bytes \<times> VmessWriteHalf \<Rightarrow> bytes \<Rightarrow> (bytes \<times> VmessWriteHalf) option" where
  "vmess_writer cr s buf = (let (sent, w) = vmess_write_all cr buf (snd s) in Some (fst s @ sent, w))"

lemma vmess_write_small:
  assumes "d \<noteq> []" "length d \<le> 15000"
  shows "vmess_write_all cr d w = (vw_pending w, \<lparr>vw_encoder = snd (vmess_encode cr (vw_encoder w) d), vw_pending = fst (vmess_encode cr (vw_encoder w) d)\<rparr>)"
  using assms by (simp add: vmess_write_all.simps [of cr d] vmess_write_all.simps [of cr "[]"] vmess_poll_write_def MAX_CHUNK_def Let_def split: prod.splits)

text \<open>
  C37. A client that sends up to 15000 bytes in one piece and closes its side is not heard: the relay has read and counted
  these bytes, but not one of them has left, neither by the writes nor by the shutdown that ends the direction.
\<close>

theorem vmess_upload_withheld:
  assumes "d \<noteq> []" "length d \<le> 15000"
  shows "\<exists>src w. copy_half (seg_read BUF_SIZE) (vmess_writer cr) [d] ([], VmessWriteHalf_new e) 0 = Some (word_of_nat (length d), src, ([], w))
    \<and> vw_pending w = fst (vmess_encode cr e d) \<and> fst (vmess_poll_shutdown w) = []"
proof -
  have "seg_read BUF_SIZE [d] = (d, [])" "seg_read BUF_SIZE [] = ([], [])" using assms by (simp_all add: seg_read_def BUF_SIZE_def)
  with assms show ?thesis
    by (simp add: copy_half.simps [of _ _ "[d]"] copy_half.simps [of _ _ "[]"] vmess_writer_def vmess_write_small VmessWriteHalf_new_def vmess_poll_shutdown_def)
qed

text \<open>
  The inbound refuses every connection: whatever the users, the clock and the bytes a client sends, the handshake ends in
  an error with nothing written, because the length of the header is opened from six bytes and a tag alone has sixteen.
\<close>

lemma vmess_inbound_refuses_all:
  assumes "vmess_laws cr"
  shows "\<exists>e rest. run (vmess_handle_conn cr now users) inp = (Inl e, [], rest)"
proof -
  have "vc_open cr a k n ad c = None" if "length c = 6" for a k n ad c using assms that by (simp add: vmess_laws_def)
  then have "\<exists>e rest. run (decode_vmess_header cr now users) inp = (Inl e, [], rest)"
    by (auto simp: decode_vmess_header_def Let_def split: option.splits)
  then show ?thesis by (auto simp: vmess_handle_conn_def run_bind)
qed

section \<open>Examples\<close>

text \<open>Functions that satisfy the laws: a tag of zeros is appended, and every digest is zero.\<close>

definition demo_vmess :: vmess_crates where
  "demo_vmess = \<lparr>vc_md5 = (\<lambda>_. replicate 16 0), vc_sha256 = (\<lambda>_. replicate 32 0), vc_hmac = (\<lambda>_ _. replicate 32 0),
     vc_crc32 = (\<lambda>_. 0), vc_fnv = (\<lambda>_. 0), vc_shake128 = (\<lambda>_ k. word_of_nat k), vc_aes_block = (\<lambda>_ b. b), vc_aes_block_inv = (\<lambda>_ b. b),
     vc_seal = (\<lambda>_ _ _ _ m. m @ replicate 16 0),
     vc_open = (\<lambda>_ _ _ _ c. if length c < 16 then None else Some (take (length c - 16) c))\<rparr>"

lemma demo_vmess_laws: "vmess_laws demo_vmess"
  by (simp add: vmess_laws_def demo_vmess_def)

theorem vmess_stream_roundtrip_witness:
  "\<exists>st. copy_half (vmess_reader demo_vmess) (\<lambda>w buf. Some (w @ buf))
     (VmessReadHalf_new
        (case vmess_writes demo_vmess [[1, 2], [3]] (VmessWriteHalf_new (VmessEncoder_new demo_vmess SECURITY_AES128_GCM 5 [7] [8])) of
           (sent, w) \<Rightarrow> map (\<lambda>b. [b]) (sent @ fst (vmess_poll_flush w)))
        (VmessDecoder_new demo_vmess SECURITY_AES128_GCM 5 [7] [8])) [] 0 = Some (3, st, [1, 2, 3])"
proof -
  obtain sent w where w: "vmess_writes demo_vmess [[1, 2], [3]] (VmessWriteHalf_new (VmessEncoder_new demo_vmess SECURITY_AES128_GCM 5 [7] [8])) = (sent, w)"
    by (cases "vmess_writes demo_vmess [[1, 2], [3]] (VmessWriteHalf_new (VmessEncoder_new demo_vmess SECURITY_AES128_GCM 5 [7] [8]))")
  have "concat (map (\<lambda>b. [b]) xs) = xs" for xs :: bytes by (induction xs) auto
  moreover have "resolve_security ''auto'' = Inr SECURITY_AES128_GCM" by (simp add: resolve_security_def)
  moreover have "segs_ok (map (\<lambda>b. [b]) xs @ map (\<lambda>b. [b]) ys)" for xs ys by (auto simp: segs_ok_def)
  ultimately show ?thesis
    using vmess_stream_roundtrip [OF demo_vmess_laws _ w, of "''auto''" "map (\<lambda>b. [b]) (sent @ fst (vmess_poll_flush w))"] w by simp
qed

theorem vmess_upload_withheld_witness:
  "\<exists>src w. copy_half (seg_read BUF_SIZE) (vmess_writer demo_vmess) [[71, 69, 84]] ([], VmessWriteHalf_new (VmessEncoder_new demo_vmess SECURITY_AES128_GCM 5 [7] [8])) 0
      = Some (3, src, ([], w)) \<and> vw_pending w \<noteq> [] \<and> fst (vmess_poll_shutdown w) = []"
proof -
  let ?e = "VmessEncoder_new demo_vmess SECURITY_AES128_GCM 5 [7] [8]"
  have "fst (vmess_encode demo_vmess ?e [71, 69, 84]) \<noteq> []"
    by (simp add: vmess_encode_def VmessEncoder_new_def VmessAeadCipher_new_def vmess_consts demo_vmess_def Let_def)
  with vmess_upload_withheld [of "[71, 69, 84]" demo_vmess ?e] show ?thesis by auto
qed

end
