(* ===== verification/Clash_Http.thy ===== *)
theory Clash_Http
  imports Dns_Upstream Tun_Route Conn_Tracker Relay
begin

text \<open>
  The control interface over HTTP (\<open>app/clash_api.rs\<close>): reading a request, authorization and routing, the responses, the
  files of the user interface, WebSocket handshake and frames, and the helpers for dates and escapes. The handlers that only
  print states as JSON are values of \<open>api_call\<close>; JSON, the file system and the selection in a group are parameters.
\<close>

section \<open>Dates\<close>

text \<open>The numbers of days of 64-bit times are far from overflow, so they are natural numbers here.\<close>

definition is_leap :: "nat \<Rightarrow> bool" where
  "is_leap y \<longleftrightarrow> (y mod 4 = 0 \<and> y mod 100 \<noteq> 0) \<or> y mod 400 = 0"

definition year_days :: "nat \<Rightarrow> nat" where
  "year_days y = (if is_leap y then 366 else 365)"

function year_loop :: "nat \<Rightarrow> nat \<Rightarrow> nat \<times> nat" where
  "year_loop year days = (if days < year_days year then (year, days) else year_loop (year + 1) (days - year_days year))"
  by pat_completeness auto
termination
  by (relation "measure snd") (auto simp: year_days_def split: if_splits)

declare year_loop.simps [simp del]

definition month_days :: "nat \<Rightarrow> nat list" where
  "month_days year = [31, if is_leap year then 29 else 28, 31, 30, 31, 30, 31, 31, 30, 31, 30, 31]"

fun month_loop :: "nat list \<Rightarrow> nat \<Rightarrow> nat \<Rightarrow> nat \<times> nat" where
  "month_loop [] month days = (month, days)"
| "month_loop (md # mds) month days = (if days < md then (month, days) else month_loop mds (month + 1) (days - md))"

definition days_to_ymd :: "nat \<Rightarrow> nat \<times> nat \<times> nat" where
  "days_to_ymd days =
     (let (year, days) = year_loop 1970 days; (month, days) = month_loop (month_days year) 0 days
      in (year, month + 1, days + 1))"

text \<open>A number padded with zeros to a width.\<close>

definition padded :: "nat \<Rightarrow> nat \<Rightarrow> string" where
  "padded k n = (let s = show_nat n in replicate (k - length s) (CHR ''0'') @ s)"

definition ms_to_iso :: "u64 \<Rightarrow> string" where
  "ms_to_iso ms =
     (let secs = unat ms div 1000; s = secs mod 60; m = (secs div 60) mod 60; h = (secs div 3600) mod 24;
          (y, mo, d) = days_to_ymd (secs div 86400)
      in padded 4 y @ ''-'' @ padded 2 mo @ ''-'' @ padded 2 d @ ''T'' @ padded 2 h @ '':'' @ padded 2 m @ '':'' @ padded 2 s @ ''.000000000Z'')"

section \<open>Escapes and paths\<close>

text \<open>
  \<open>u8::from_str_radix\<close> with radix 16, on two bytes: a plus sign may come first. A slice of a string panics when an end of it
  is inside a character, that is, when the byte there is a continuation byte. The result None is such a panic.
\<close>

definition u8_from_hex :: "string \<Rightarrow> u8 option" where
  "u8_from_hex s =
     (let ds = (case s of c # cs \<Rightarrow> if c = CHR ''+'' then cs else s | [] \<Rightarrow> []); vs = map (to_digit 16) ds
      in if ds \<noteq> [] \<and> None \<notin> set vs then Some (word_of_nat (foldl (\<lambda>v d. 16 * v + the d) 0 vs)) else None)"

definition boundary_byte :: "char \<Rightarrow> bool" where
  "boundary_byte c \<longleftrightarrow> \<not> (128 \<le> code c \<and> code c < 192)"

fun percent_bytes :: "string \<Rightarrow> bytes option" where
  "percent_bytes [] = Some []"
| "percent_bytes (c # cs) =
     (if c = CHR ''%'' \<and> 2 \<le> length cs then
        (if \<not> boundary_byte (cs ! 0) \<or> 2 < length cs \<and> \<not> boundary_byte (cs ! 2) then None
         else (case u8_from_hex (take 2 cs) of
                 Some b \<Rightarrow> map_option ((#) b) (percent_bytes (drop 2 cs))
               | None \<Rightarrow> map_option ((#) (word_of_nat (code c))) (percent_bytes cs)))
      else map_option ((#) (word_of_nat (code c))) (percent_bytes cs))"

definition percent_decode :: "string \<Rightarrow> string option" where
  "percent_decode s = map_option from_utf8_lossy (percent_bytes s)"

text \<open>\<open>Path::components\<close>: empty components and dots after the first place are left out.\<close>

datatype Component = RootDir | CurDir | ParentDir | Normal string

definition component_of :: "string \<Rightarrow> Component list" where
  "component_of p = (if p = [] \<or> p = ''.'' then [] else if p = ''..'' then [ParentDir] else [Normal p])"

definition path_components :: "string \<Rightarrow> Component list" where
  "path_components p =
     (let ps = split_on CHR ''/'' p
      in (if starts_with p ''/'' then [RootDir] else if hd ps = ''.'' then [CurDir] else []) @ concat (map component_of ps))"

text \<open>\<open>PathBuf::push\<close> of a relative part.\<close>

definition path_push :: "string \<Rightarrow> string \<Rightarrow> string" where
  "path_push out part = (if out = [] \<or> last out = CHR ''/'' then out @ part else out @ ''/'' @ part)"

fun join_components :: "string \<Rightarrow> Component list \<Rightarrow> string option" where
  "join_components out [] = Some out"
| "join_components out (Normal part # cs) = join_components (path_push out part) cs"
| "join_components out (CurDir # cs) = join_components out cs"
| "join_components out (_ # cs) = None"

definition safe_join :: "string \<Rightarrow> string \<Rightarrow> string option" where
  "safe_join root relative = join_components root (path_components relative)"

text \<open>\<open>Path::extension\<close>: what follows the last dot of the file name, unless the dot comes first.\<close>

definition path_extension :: "string \<Rightarrow> string option" where
  "path_extension p =
     (case rev (path_components p) of
        Normal name # _ \<Rightarrow> (case rsplit_once CHR ''.'' name of Some (before, ext) \<Rightarrow> if before = [] then None else Some ext | None \<Rightarrow> None)
      | _ \<Rightarrow> None)"

definition content_type :: "string \<Rightarrow> string" where
  "content_type p =
     (case path_extension p of
        Some e \<Rightarrow>
          (if e = ''html'' then ''text/html; charset=utf-8''
           else if e = ''js'' \<or> e = ''mjs'' then ''application/javascript; charset=utf-8''
           else if e = ''css'' then ''text/css; charset=utf-8''
           else if e = ''json'' then ''application/json; charset=utf-8''
           else if e = ''png'' then ''image/png''
           else if e = ''jpg'' \<or> e = ''jpeg'' then ''image/jpeg''
           else if e = ''svg'' then ''image/svg+xml''
           else if e = ''ico'' then ''image/x-icon''
           else if e = ''woff'' then ''font/woff''
           else if e = ''woff2'' then ''font/woff2''
           else ''application/octet-stream'')
      | None \<Rightarrow> ''application/octet-stream'')"

section \<open>Requests\<close>

text \<open>The headers in the order of their lines; the last one of a name counts.\<close>

record HttpRequest =
  rq_method :: string
  rq_path :: string
  rq_headers :: "(string \<times> string) list"
  rq_body :: bytes

definition rq_header :: "string \<Rightarrow> HttpRequest \<Rightarrow> string option" where
  "rq_header name req = map_of (rev (rq_headers req)) name"

definition is_websocket :: "HttpRequest \<Rightarrow> bool" where
  "is_websocket req = (case rq_header ''upgrade'' req of Some v \<Rightarrow> to_ascii_lowercase v = ''websocket'' | None \<Rightarrow> False)"

definition find_header_end :: "bytes \<Rightarrow> nat option" where
  "find_header_end buf = find4 [13, 10, 13, 10] buf 0"

text \<open>\<open>split("\r\n")\<close>.\<close>

fun split_crlf :: "string \<Rightarrow> string list" where
  "split_crlf [] = [[]]"
| "split_crlf [c] = [[c]]"
| "split_crlf (c # d # s) =
     (if c = CHR 0x0D \<and> d = CHR 0x0A then [] # split_crlf s
      else (case split_crlf (d # s) of p # ps \<Rightarrow> (c # p) # ps | [] \<Rightarrow> [[c]]))"

definition parse_headers :: "string list \<Rightarrow> (string \<times> string) list" where
  "parse_headers ls = map (\<lambda>(k, v). (to_ascii_lowercase (trim k), trim v)) (List.map_filter (split_once CHR '':'') ls)"

text \<open>The two loops that read from the connection, which delivers segments.\<close>

lemma seg_read_shrinks: "(chunk, segs') = seg_read 4096 segs \<Longrightarrow> chunk \<noteq> [] \<Longrightarrow> length (concat segs') < length (concat segs)"
  by (auto simp: seg_read_def split: list.splits if_splits)

function read_head_loop :: "bytes list \<Rightarrow> bytes \<Rightarrow> string + nat \<times> bytes \<times> bytes list" where
  "read_head_loop segs buf =
     (case seg_read 4096 segs of (chunk, segs') \<Rightarrow>
        if chunk = [] then Inl ''connection closed before request''
        else (case find_header_end (buf @ chunk) of
                Some pos \<Rightarrow> Inr (pos, buf @ chunk, segs')
              | None \<Rightarrow> if length (buf @ chunk) \<le> 64 * 1024 then read_head_loop segs' (buf @ chunk) else Inl ''request headers too large''))"
  by pat_completeness auto
termination
  by (relation "measure (\<lambda>(segs, buf). length (concat segs))") (auto dest!: seg_read_shrinks)

declare read_head_loop.simps [simp del]

function read_body_loop :: "nat \<Rightarrow> bytes list \<Rightarrow> bytes \<Rightarrow> string + bytes \<times> bytes list" where
  "read_body_loop wanted segs buf =
     (if length buf < wanted then
        (case seg_read 4096 segs of (chunk, segs') \<Rightarrow>
           if chunk = [] then Inl ''connection closed before body''
           else if length (buf @ chunk) \<le> 2 * 1024 * 1024 then read_body_loop wanted segs' (buf @ chunk)
           else Inl ''request body too large'')
      else Inr (buf, segs))"
  by pat_completeness auto
termination
  by (relation "measure (\<lambda>(wanted, segs, buf). length (concat segs))") (auto dest!: seg_read_shrinks)

declare read_body_loop.simps [simp del]

text \<open>
  The end of the body is computed in 64 bits and wraps; the slice of the body panics when it ends before it starts, which is
  the result None.
\<close>

definition read_request :: "bytes list \<Rightarrow> (string + HttpRequest \<times> bytes list) option" where
  "read_request segs =
     (case read_head_loop segs [] of
        Inl e \<Rightarrow> Some (Inl e)
      | Inr (header_end, buf, segs) \<Rightarrow>
          (case from_utf8 (take header_end buf) of
             None \<Rightarrow> Some (Inl ''invalid utf-8 sequence'')
           | Some headers_str \<Rightarrow>
               (let ls = split_crlf headers_str; parts = split_whitespace (hd ls); headers = parse_headers (tl ls);
                    content_len = (case Option.bind (map_of (rev headers) ''content-length'') (parse_uint (2 ^ 64 - 1)) of Some n \<Rightarrow> n | None \<Rightarrow> 0);
                    body_start = header_end + 4; body_end = (body_start + content_len) mod 2 ^ 64
                in case parts of
                     [] \<Rightarrow> Some (Inl ''missing method'')
                   | [_] \<Rightarrow> Some (Inl ''missing path'')
                   | meth # path # _ \<Rightarrow>
                       (case read_body_loop body_end segs buf of
                          Inl e \<Rightarrow> Some (Inl e)
                        | Inr (buf, segs) \<Rightarrow>
                            map_option (\<lambda>body. Inr (\<lparr>rq_method = meth, rq_path = path, rq_headers = headers, rq_body = body\<rparr>, segs))
                              (slice buf body_start body_end)))))"

section \<open>Responses\<close>

record HttpResponse =
  rs_status :: u16
  rs_reason :: string
  rs_headers :: "(string \<times> string) list"
  rs_body :: bytes

definition HttpResponse_new :: "u16 \<Rightarrow> string \<Rightarrow> HttpResponse" where
  "HttpResponse_new status reason = \<lparr>rs_status = status, rs_reason = reason, rs_headers = [], rs_body = []\<rparr>"

definition rs_header :: "string \<Rightarrow> string \<Rightarrow> HttpResponse \<Rightarrow> HttpResponse" where
  "rs_header name v r = r\<lparr>rs_headers := rs_headers r @ [(name, v)]\<rparr>"

definition rs_with_body :: "bytes \<Rightarrow> string \<Rightarrow> HttpResponse \<Rightarrow> HttpResponse" where
  "rs_with_body body ctype r = r\<lparr>rs_headers := rs_headers r @ [(''Content-Type'', ctype)], rs_body := body\<rparr>"

definition rs_to_bytes :: "HttpResponse \<Rightarrow> bytes" where
  "rs_to_bytes r =
     as_bytes (''HTTP/1.1 '' @ show_nat (unat (rs_status r)) @ '' '' @ rs_reason r @ crlf
       @ ''Content-Length: '' @ show_nat (length (rs_body r)) @ crlf @ ''Connection: close'' @ crlf
       @ ''Access-Control-Allow-Origin: *'' @ crlf)
     @ concat (map (\<lambda>(name, v). as_bytes (name @ '': '' @ v @ crlf)) (rs_headers r)) @ as_bytes crlf @ rs_body r"

text \<open>\<open>body\<close> is the printed JSON value.\<close>

definition json_response :: "bytes \<Rightarrow> HttpResponse" where
  "json_response body = rs_with_body body ''application/json; charset=utf-8'' (HttpResponse_new 200 ''OK'')"

definition text_response :: "u16 \<Rightarrow> string \<Rightarrow> string \<Rightarrow> HttpResponse" where
  "text_response status reason s = rs_with_body (as_bytes s) ''text/plain; charset=utf-8'' (HttpResponse_new status reason)"

definition empty_response :: "u16 \<Rightarrow> string \<Rightarrow> HttpResponse" where
  "empty_response status reason = rs_with_body [] ''text/plain; charset=utf-8'' (HttpResponse_new status reason)"

section \<open>Authorization and routing\<close>

text \<open>The handlers, with the arguments the routing gives them; \<open>Respond\<close> is a fixed response.\<close>

datatype api_call =
    Respond HttpResponse | RedirectToUi | Version | GetConfigs | PatchConfigs bytes | GetTrafficOnce | GetLogsStream | GetRules
  | GetConnections | DeleteConnections | GetProxies | JsonConst string | GetRuleProviders | GetMemoryOnce | GetGroups
  | GetGroupDelay string string | GetGroup string | PutProxy string bytes | DeleteConnection string
  | GetProxyDelay string string | GetProxy string | UpdateRuleProvider string | ServeUi string
  | WsTraffic | WsLogs | WsConnections | WsMemory

definition request_split :: "string \<Rightarrow> string \<times> string" where
  "request_split full_path =
     (takeWhile (\<lambda>c. c \<noteq> CHR ''?'') full_path, drop 1 (dropWhile (\<lambda>c. c \<noteq> CHR ''?'') full_path))"

text \<open>\<open>trim_start_matches\<close> with a string, which is taken off as often as it stands at the start.\<close>

function trim_prefixes :: "string \<Rightarrow> string \<Rightarrow> string" where
  "trim_prefixes pre s = (if pre \<noteq> [] \<and> starts_with s pre then trim_prefixes pre (drop (length pre) s) else s)"
  by pat_completeness auto
termination
proof (relation "measure (\<lambda>(pre, s). length s)")
  fix pre s :: string
  assume "pre \<noteq> [] \<and> starts_with s pre"
  then show "((pre, drop (length pre) s), pre, s) \<in> measure (\<lambda>(pre, s). length s)" by (cases s) (auto simp: starts_with_def)
qed simp

declare trim_prefixes.simps [simp del]

definition strip_suffix :: "string \<Rightarrow> string \<Rightarrow> string option" where
  "strip_suffix suf s = (if ends_with suf s then Some (take (length s - length suf) s) else None)"

definition preflight :: HttpResponse where
  "preflight = rs_with_body [] ''text/plain; charset=utf-8''
     (rs_header ''Access-Control-Allow-Headers'' ''Content-Type, Authorization''
       (rs_header ''Access-Control-Allow-Methods'' ''GET, POST, PUT, PATCH, DELETE, OPTIONS'' (HttpResponse_new 204 ''No Content'')))"

definition unauthorized :: HttpResponse where
  "unauthorized = rs_with_body (as_bytes ''{\"message\":\"Unauthorized\"}'') ''application/json; charset=utf-8'' (HttpResponse_new 401 ''Unauthorized'')"

definition token_ok :: "string \<Rightarrow> HttpRequest \<Rightarrow> bool" where
  "token_ok secret req =
     (if is_websocket req then
        list_ex (\<lambda>kv. strip_prefix ''token='' kv = Some secret) (split_on CHR ''&'' (snd (request_split (rq_path req))))
      else (case rq_header ''authorization'' req of Some v \<Rightarrow> strip_prefix ''Bearer '' v = Some secret | None \<Rightarrow> False))"

definition ws_route :: "string \<Rightarrow> api_call option" where
  "ws_route path =
     (if path = ''/traffic'' then Some WsTraffic else if path = ''/logs'' then Some WsLogs
      else if path = ''/connections'' then Some WsConnections else if path = ''/memory'' then Some WsMemory else None)"

text \<open>The plain routes in the order of the code; the outer option is a panic of \<open>percent_decode\<close>.\<close>

definition get_route :: "string \<Rightarrow> string \<Rightarrow> api_call" where
  "get_route path qs =
     (if path = ''/'' then RedirectToUi else if path = ''/version'' then Version else if path = ''/configs'' then GetConfigs
      else if path = ''/traffic'' then GetTrafficOnce else if path = ''/logs'' then GetLogsStream else if path = ''/rules'' then GetRules
      else if path = ''/connections'' then GetConnections else if path = ''/proxies'' then GetProxies
      else if path = ''/providers/proxies'' then JsonConst ''{\"providers\":{}}'' else if path = ''/providers/rules'' then GetRuleProviders
      else if path = ''/script'' then JsonConst ''{\"code\":\"\"}'' else if path = ''/cache'' then Respond (empty_response 204 ''No Content'')
      else if path = ''/profile'' then JsonConst ''{\"payload\":\"\"}'' else if path = ''/dns/query'' then JsonConst ''{\"Answer\":[]}''
      else if path = ''/memory'' then GetMemoryOnce else if path = ''/group'' then GetGroups
      else if starts_with path ''/group/'' then
        (let rest = trim_prefixes ''/group/'' path
         in case strip_suffix ''/delay'' rest of Some name_enc \<Rightarrow> GetGroupDelay name_enc qs | None \<Rightarrow> GetGroup rest)
      else if starts_with path ''/proxies/'' then
        (let rest = trim_prefixes ''/proxies/'' path
         in case strip_suffix ''/delay'' rest of Some name_enc \<Rightarrow> GetProxyDelay name_enc qs | None \<Rightarrow> GetProxy rest)
      else if starts_with path ''/providers/proxies/'' then Respond (empty_response 204 ''No Content'')
      else ServeUi path)"

definition plain_route :: "HttpRequest \<Rightarrow> string \<Rightarrow> string \<Rightarrow> api_call option" where
  "plain_route req path qs =
     (let m = rq_method req; not_found = Respond (text_response 404 ''Not Found'' ''not found'') in
      if m = ''GET'' then Some (get_route path qs)
      else if m = ''PATCH'' \<and> path = ''/configs'' then Some (PatchConfigs (rq_body req))
      else if m = ''PUT'' \<and> path = ''/configs'' then Some (Respond (empty_response 204 ''No Content''))
      else if m = ''DELETE'' \<and> path = ''/connections'' then Some DeleteConnections
      else if m = ''PUT'' \<and> starts_with path ''/group/'' then Some (PutProxy (trim_prefixes ''/group/'' path) (rq_body req))
      else if m = ''DELETE'' \<and> starts_with path ''/connections/'' then Some (DeleteConnection (trim_prefixes ''/connections/'' path))
      else if m = ''PUT'' \<and> starts_with path ''/proxies/'' then Some (PutProxy (trim_prefixes ''/proxies/'' path) (rq_body req))
      else if m = ''PUT'' \<and> starts_with path ''/providers/rules/'' then
        map_option UpdateRuleProvider (percent_decode (trim_prefixes ''/providers/rules/'' path))
      else Some not_found)"

definition handle_request :: "string \<Rightarrow> HttpRequest \<Rightarrow> api_call option" where
  "handle_request secret req =
     (if rq_method req = ''OPTIONS'' then Some (Respond preflight)
      else
        (let (path, qs) = request_split (rq_path req) in
         if secret \<noteq> [] \<and> \<not> token_ok secret req then Some (Respond unauthorized)
         else if is_websocket req then (case ws_route path of Some c \<Rightarrow> Some c | None \<Rightarrow> plain_route req path qs)
         else plain_route req path qs))"

section \<open>Handlers that change state or serve files\<close>

text \<open>\<open>mode_of\<close> decodes the body and gives the member \<open>mode\<close> when it is a string.\<close>

definition patch_configs :: "(bytes \<Rightarrow> string + string option) \<Rightarrow> string list \<Rightarrow> bytes \<Rightarrow> string \<Rightarrow> HttpResponse \<times> string" where
  "patch_configs mode_of mode_list body mode =
     (case mode_of body of
        Inl e \<Rightarrow> (text_response 400 ''Bad Request'' (''invalid json: '' @ e), mode)
      | Inr None \<Rightarrow> (empty_response 204 ''No Content'', mode)
      | Inr (Some m) \<Rightarrow>
          (empty_response 204 ''No Content'', if list_ex (\<lambda>x. to_ascii_lowercase x = to_ascii_lowercase m) mode_list then m else mode))"

definition delete_connection :: "string \<Rightarrow> ConnectionTracker \<Rightarrow> HttpResponse \<times> ConnectionTracker" where
  "delete_connection id_str t =
     (case parse_uint (2 ^ 64 - 1) id_str of
        Some n \<Rightarrow> (empty_response 204 ''No Content'', remove_by_id (word_of_nat n) t)
      | None \<Rightarrow> (text_response 400 ''Bad Request'' ''invalid connection id'', t))"

definition delete_connections :: HttpResponse where
  "delete_connections = empty_response 204 ''No Content''"

text \<open>\<open>child_of\<close> decodes the member \<open>name\<close> of the body, \<open>select\<close> is the selection in the registry.\<close>

definition put_proxy :: "(bytes \<Rightarrow> string + string option) \<Rightarrow> (string \<Rightarrow> string \<Rightarrow> 's \<Rightarrow> string + 's) \<Rightarrow> string \<Rightarrow> bytes \<Rightarrow> 's \<Rightarrow> (HttpResponse \<times> 's) option" where
  "put_proxy child_of select encoded_name body st =
     map_option (\<lambda>name.
       case child_of body of
         Inl e \<Rightarrow> (text_response 400 ''Bad Request'' (''invalid json: '' @ e), st)
       | Inr None \<Rightarrow> (text_response 400 ''Bad Request'' ''missing proxy name'', st)
       | Inr (Some child) \<Rightarrow>
           (case select name child st of
              Inr st' \<Rightarrow> (empty_response 204 ''No Content'', st')
            | Inl e \<Rightarrow> (text_response 400 ''Bad Request'' e, st))) (percent_decode encoded_name)"

text \<open>The address and the time limit of a delay test, from the query.\<close>

definition probe_params :: "string \<Rightarrow> (string \<times> nat) option" where
  "probe_params qs =
     fold (\<lambda>kv acc. Option.bind acc (\<lambda>(url, timeout).
       case strip_prefix ''url='' kv of
         Some v \<Rightarrow> map_option (\<lambda>u. (u, timeout)) (percent_decode v)
       | None \<Rightarrow>
           (case Option.bind (strip_prefix ''timeout='' kv) (parse_uint (2 ^ 64 - 1)) of Some n \<Rightarrow> Some (url, n) | None \<Rightarrow> Some (url, timeout))))
       (split_on CHR ''&'' qs) (Some (''https://www.gstatic.com/generate_204'', 5000))"

definition probe_target :: "string \<Rightarrow> string + string \<times> u16" where
  "probe_target url =
     (case (case strip_prefix ''https://'' url of Some r \<Rightarrow> Some (443, r)
            | None \<Rightarrow> map_option (\<lambda>r. (80, r)) (strip_prefix ''http://'' url)) of
        None \<Rightarrow> Inl ''invalid probe url scheme''
      | Some (default_port, rest) \<Rightarrow>
          (let authority = hd (split_on CHR ''/'' rest)
           in case rsplit_once CHR '':'' authority of
                Some (h, p) \<Rightarrow> (case parse_uint 65535 p of Some n \<Rightarrow> Inr (h, word_of_nat n) | None \<Rightarrow> Inl ''invalid port'')
              | None \<Rightarrow> Inr (authority, default_port)))"

definition redirect_to_ui :: "string option \<Rightarrow> HttpResponse" where
  "redirect_to_ui external_ui =
     (case external_ui of
        Some _ \<Rightarrow> rs_with_body [] ''text/plain; charset=utf-8'' (rs_header ''Location'' ''/ui/'' (HttpResponse_new 302 ''Found''))
      | None \<Rightarrow> json_response (as_bytes ''{\"hello\":\"clash\"}''))"

text \<open>The file system is \<open>is_dir\<close> and \<open>read_file\<close>. The file that is looked at first, and the response.\<close>

definition ui_file :: "(string \<Rightarrow> bool) \<Rightarrow> string \<Rightarrow> string \<Rightarrow> string option" where
  "ui_file is_dir ui_dir relative =
     map_option (\<lambda>p. if is_dir p then path_push p ''index.html'' else p) (safe_join ui_dir (trim_start_matches CHR ''/'' relative))"

definition serve_ui :: "(string \<Rightarrow> bool) \<Rightarrow> (string \<Rightarrow> bytes option) \<Rightarrow> string option \<Rightarrow> string \<Rightarrow> HttpResponse" where
  "serve_ui is_dir read_file external_ui path =
     (let not_found = text_response 404 ''Not Found'' ''not found''; ok = HttpResponse_new 200 ''OK'' in
      case external_ui of
        None \<Rightarrow> not_found
      | Some ui_dir \<Rightarrow>
          (case strip_prefix ''/ui'' path of
             None \<Rightarrow> not_found
           | Some relative \<Rightarrow>
               (case ui_file is_dir ui_dir relative of
                  None \<Rightarrow> text_response 403 ''Forbidden'' ''forbidden''
                | Some file \<Rightarrow>
                    (case read_file file of
                       Some bs \<Rightarrow> rs_with_body bs (content_type file) ok
                     | None \<Rightarrow>
                         (case read_file (path_push ui_dir ''index.html'') of
                            Some bs \<Rightarrow> rs_with_body bs ''text/html; charset=utf-8'' ok
                          | None \<Rightarrow> not_found)))))"

section \<open>WebSocket\<close>

fun sha1_extend :: "nat \<Rightarrow> u32 list \<Rightarrow> u32 list" where
  "sha1_extend 0 w = w"
| "sha1_extend (Suc n) w =
     (let i = length w in sha1_extend n (w @ [word_rotl 1 (w ! (i - 3) XOR w ! (i - 8) XOR w ! (i - 14) XOR w ! (i - 16))]))"

definition sha1_pad :: "bytes \<Rightarrow> bytes" where
  "sha1_pad data =
     data @ [0x80] @ replicate ((64 - (length data + 9) mod 64) mod 64) 0 @ be_bytes 8 ((length data * 8) mod 2 ^ 64)"

fun sha1_round :: "nat \<times> u32 \<Rightarrow> u32 \<times> u32 \<times> u32 \<times> u32 \<times> u32 \<Rightarrow> u32 \<times> u32 \<times> u32 \<times> u32 \<times> u32" where
  "sha1_round (i, wi) (a, b, c, d, e) =
     (let (f, k) = (if i < 20 then ((b AND c) OR (NOT b AND d), 0x5A827999)
            else if i < 40 then (b XOR c XOR d, 0x6ED9EBA1)
            else if i < 60 then ((b AND c) OR (b AND d) OR (c AND d), 0x8F1BBCDC)
            else (b XOR c XOR d, 0xCA62C1D6))
      in (word_rotl 5 a + f + e + k + wi, a, word_rotl 30 b, c, d))"

fun sha1_block :: "bytes \<Rightarrow> u32 \<times> u32 \<times> u32 \<times> u32 \<times> u32 \<Rightarrow> u32 \<times> u32 \<times> u32 \<times> u32 \<times> u32" where
  "sha1_block chunk (h0, h1, h2, h3, h4) =
     (let w = sha1_extend 64 (map (\<lambda>i. u32_of_be [chunk ! (i * 4), chunk ! (i * 4 + 1), chunk ! (i * 4 + 2), chunk ! (i * 4 + 3)]) [0 ..< 16]);
          (a, b, c, d, e) = fold sha1_round (List.enumerate 0 w) (h0, h1, h2, h3, h4)
      in (h0 + a, h1 + b, h2 + c, h3 + d, h4 + e))"

definition sha1_bytes :: "bytes \<Rightarrow> bytes" where
  "sha1_bytes data =
     (let (h0, h1, h2, h3, h4) = fold sha1_block (chunks_exact 64 (sha1_pad data)) (0x67452301, 0xEFCDAB89, 0x98BADCFE, 0x10325476, 0xC3D2E1F0)
      in concat (map u32_be [h0, h1, h2, h3, h4]))"

definition b64_chars :: string where
  "b64_chars = ''ABCDEFGHIJKLMNOPQRSTUVWXYZabcdefghijklmnopqrstuvwxyz0123456789+/''"

definition b64_char :: "u32 \<Rightarrow> char" where
  "b64_char n = b64_chars ! unat (n AND 63)"

definition b64_word :: "u8 \<Rightarrow> u8 \<Rightarrow> u8 \<Rightarrow> u32" where
  "b64_word a b c = push_bit 16 (ucast a) OR push_bit 8 (ucast b) OR ucast c"

fun base64_encode :: "bytes \<Rightarrow> string" where
  "base64_encode [] = []"
| "base64_encode [a] = (let n = b64_word a 0 0 in [b64_char (drop_bit 18 n), b64_char (drop_bit 12 n), CHR ''='', CHR ''=''])"
| "base64_encode [a, b] =
     (let n = b64_word a b 0 in [b64_char (drop_bit 18 n), b64_char (drop_bit 12 n), b64_char (drop_bit 6 n), CHR ''=''])"
| "base64_encode (a # b # c # rest) =
     (let n = b64_word a b c
      in [b64_char (drop_bit 18 n), b64_char (drop_bit 12 n), b64_char (drop_bit 6 n), b64_char n] @ base64_encode rest)"

definition ws_accept_key :: "string \<Rightarrow> string" where
  "ws_accept_key client_key = base64_encode (sha1_bytes (as_bytes (client_key @ ''258EAFA5-E914-47DA-95CA-C5AB0DC85B11'')))"

definition ws_upgrade_response :: "string \<Rightarrow> string" where
  "ws_upgrade_response client_key =
     ''HTTP/1.1 101 Switching Protocols'' @ crlf @ ''Upgrade: websocket'' @ crlf @ ''Connection: Upgrade'' @ crlf
     @ ''Sec-WebSocket-Accept: '' @ ws_accept_key client_key @ crlf @ ''Access-Control-Allow-Origin: *'' @ crlf @ crlf"

text \<open>The bytes that \<open>ws_send_text\<close> writes.\<close>

definition ws_frame :: "bytes \<Rightarrow> bytes" where
  "ws_frame data =
     (let len = length data in
      [0x81] @ (if len \<le> 125 then [word_of_nat len]
                else if len \<le> 65535 then [126, word_of_nat (len div 256), word_of_nat (len mod 256)]
                else 127 # be_bytes 8 (len mod 2 ^ 64)) @ data)"

definition level_rank :: "string \<Rightarrow> nat" where
  "level_rank l =
     (if l = ''debug'' then 0 else if l = ''info'' then 1 else if l = ''warning'' \<or> l = ''warn'' then 2 else if l = ''error'' then 3
      else 2 ^ 64 - 1)"

text \<open>The log entries (level and message) that a client with the given query is sent.\<close>

definition ws_logs_sent :: "string \<Rightarrow> (string \<times> string) list \<Rightarrow> (string \<times> string) list" where
  "ws_logs_sent qs entries =
     (let min_level = (case List.map_filter (strip_prefix ''level='') (split_on CHR ''&'' qs) of l # _ \<Rightarrow> l | [] \<Rightarrow> ''info'')
      in filter (\<lambda>e. \<not> level_rank (fst e) < level_rank min_level) entries)"

section \<open>Dates are right\<close>

text \<open>The number of days from the first of January 1970 to a date of the Gregorian calendar.\<close>

definition day_number :: "nat \<Rightarrow> nat \<Rightarrow> nat \<Rightarrow> nat" where
  "day_number y m d = (\<Sum>k = 1970..<y. year_days k) + sum_list (take (m - 1) (month_days y)) + (d - 1)"

definition valid_date :: "nat \<Rightarrow> nat \<Rightarrow> nat \<Rightarrow> bool" where
  "valid_date y m d \<longleftrightarrow> 1970 \<le> y \<and> 1 \<le> m \<and> m \<le> 12 \<and> 1 \<le> d \<and> d \<le> month_days y ! (m - 1)"

lemma year_loop_sum: "y \<le> y' \<Longrightarrow> d < year_days y' \<Longrightarrow> year_loop y ((\<Sum>k = y..<y'. year_days k) + d) = (y', d)"
proof (induction "y' - y" arbitrary: y)
  case 0
  then show ?case by (simp add: year_loop.simps)
next
  case (Suc n)
  then have "(\<Sum>k = y..<y'. year_days k) = year_days y + (\<Sum>k = Suc y..<y'. year_days k)" by (simp add: sum.atLeast_Suc_lessThan)
  with Suc show ?case by (subst year_loop.simps) simp
qed

lemma year_loop_result: "year_loop y n = (y', d) \<Longrightarrow> y \<le> y' \<and> d < year_days y' \<and> n = (\<Sum>k = y..<y'. year_days k) + d"
proof (induction y n rule: year_loop.induct)
  case (1 y n)
  show ?case
  proof (cases "n < year_days y")
    case True
    with "1.prems" show ?thesis by (auto simp: year_loop.simps [of y n])
  next
    case False
    with 1 have r: "Suc y \<le> y' \<and> d < year_days y' \<and> n - year_days y = (\<Sum>k = Suc y..<y'. year_days k) + d"
      by (auto simp: year_loop.simps [of y n])
    then have "(\<Sum>k = y..<y'. year_days k) = year_days y + (\<Sum>k = Suc y..<y'. year_days k)" by (simp add: sum.atLeast_Suc_lessThan)
    with r False show ?thesis by linarith
  qed
qed

lemma month_loop_sum: "i < length ms \<Longrightarrow> d < ms ! i \<Longrightarrow> month_loop ms m (sum_list (take i ms) + d) = (m + i, d)"
proof (induction ms arbitrary: i m)
  case (Cons x ms)
  then show ?case by (cases i) auto
qed simp

lemma month_loop_result:
  "n < sum_list ms \<Longrightarrow> month_loop ms m n = (m', d) \<Longrightarrow> \<exists>i < length ms. m' = m + i \<and> d < ms ! i \<and> n = sum_list (take i ms) + d"
proof (induction ms arbitrary: m n)
  case (Cons x ms)
  show ?case
  proof (cases "n < x")
    case True
    with Cons.prems show ?thesis by (intro exI [of _ 0]) auto
  next
    case False
    with Cons.prems have "n - x < sum_list ms" "month_loop ms (m + 1) (n - x) = (m', d)" by auto
    from Cons.IH [OF this] obtain i where "i < length ms" "m' = m + 1 + i" "d < ms ! i" "n - x = sum_list (take i ms) + d" by blast
    with False show ?thesis by (intro exI [of _ "Suc i"]) auto
  qed
qed simp

lemma month_days_sum [simp]: "sum_list (month_days y) = year_days y" "length (month_days y) = 12"
  by (simp_all add: month_days_def year_days_def)

lemma sum_take_less: "i < length ms \<Longrightarrow> d < ms ! i \<Longrightarrow> sum_list (take i ms) + d < sum_list (ms :: nat list)"
proof (induction ms arbitrary: i)
  case (Cons x ms)
  then show ?case by (cases i) auto
qed simp

text \<open>
  The dates of the interface are those of the Gregorian calendar: every date from 1970 on is the result for its number of
  days, and every number of days gives a valid date with this number.
\<close>

theorem clash_dates:
  "(valid_date y m d \<longrightarrow> days_to_ymd (day_number y m d) = (y, m, d))
   \<and> (\<exists>y m d. days_to_ymd n = (y, m, d) \<and> valid_date y m d \<and> day_number y m d = n)"
proof
  show "valid_date y m d \<longrightarrow> days_to_ymd (day_number y m d) = (y, m, d)"
  proof
    assume v: "valid_date y m d"
    then have i: "m - 1 < length (month_days y)" "d - 1 < month_days y ! (m - 1)" by (auto simp: valid_date_def)
    from sum_take_less [OF i] have "sum_list (take (m - 1) (month_days y)) + (d - 1) < year_days y" by simp
    moreover have "1970 \<le> y" using v by (simp add: valid_date_def)
    ultimately have "year_loop 1970 (day_number y m d) = (y, sum_list (take (m - 1) (month_days y)) + (d - 1))"
      unfolding day_number_def add.assoc by (intro year_loop_sum)
    with month_loop_sum [OF i, of 0] v show "days_to_ymd (day_number y m d) = (y, m, d)" by (auto simp: days_to_ymd_def valid_date_def)
  qed
  obtain y k where y: "year_loop 1970 n = (y, k)" by (cases "year_loop 1970 n")
  obtain m d where m: "month_loop (month_days y) 0 k = (m, d)" by (cases "month_loop (month_days y) 0 k")
  from year_loop_result [OF y] have k: "1970 \<le> y" "k < sum_list (month_days y)" "n = (\<Sum>k = 1970..<y. year_days k) + k" by simp_all
  have "days_to_ymd n = (y, m + 1, d + 1)" by (simp add: days_to_ymd_def y m)
  moreover have "m < 12" "d < month_days y ! m" "k = sum_list (take m (month_days y)) + d" using month_loop_result [OF k(2) m] by auto
  ultimately show "\<exists>y m d. days_to_ymd n = (y, m, d) \<and> valid_date y m d \<and> day_number y m d = n"
    using k by (intro exI [of _ y] exI [of _ "m + 1"] exI [of _ "d + 1"]) (simp add: valid_date_def day_number_def)
qed

section \<open>Files of the interface\<close>

lemma split_on_last_part: "c \<notin> set part \<Longrightarrow> split_on c (s @ c # part) = split_on c s @ [part]"
proof (induction s)
  case Nil
  then show ?case by (simp add: split_on_no_sep)
next
  case (Cons x s)
  then show ?case by (cases "split_on c s") auto
qed

definition plain_name :: "string \<Rightarrow> bool" where
  "plain_name p \<longleftrightarrow> p \<noteq> [] \<and> p \<noteq> ''.'' \<and> p \<noteq> ''..'' \<and> CHR ''/'' \<notin> set p"

lemma path_components_push:
  assumes "plain_name part"
  shows "path_components (path_push out part) = path_components out @ [Normal part]"
proof -
  have "split_on CHR ''/'' part = [part]" "component_of part = [Normal part]" "part \<noteq> []"
    using assms by (auto simp: plain_name_def component_of_def split_on_no_sep)
  moreover have "hd part \<noteq> CHR ''/''" using assms by (cases part) (auto simp: plain_name_def)
  ultimately have part: "split_on CHR ''/'' part = [part]" "component_of part = [Normal part]" "hd part \<noteq> CHR ''/''" "part \<noteq> []" by simp_all
  have head: "hd (split_on CHR ''/'' s @ xs) = hd (split_on CHR ''/'' s)" for s xs by simp
  have start: "starts_with (s @ t) ''/'' = starts_with s ''/''" if "s \<noteq> []" for s t using that by (cases s) (auto simp: starts_with_def)
  consider "out = []" | o' where "out = o' @ ''/''" | "out \<noteq> []" "last out \<noteq> CHR ''/''"
    by (cases out rule: rev_cases) auto
  then show ?thesis
  proof cases
    case 1
    then show ?thesis using part assms by (auto simp: path_push_def path_components_def starts_with_def component_of_def plain_name_def) (cases part; simp)
  next
    case 2
    have "split_on CHR ''/'' (o' @ ''/'' @ part) = split_on CHR ''/'' o' @ [part]" "split_on CHR ''/'' (o' @ ''/'') = split_on CHR ''/'' o' @ [[]]"
      using split_on_last_part [of "CHR ''/''" _ o'] assms by (simp_all add: plain_name_def)
    then show ?thesis using 2 part start [of "o' @ ''/''" part] by (simp add: path_push_def path_components_def head component_of_def)
  next
    case 3
    have "split_on CHR ''/'' (out @ ''/'' @ part) = split_on CHR ''/'' out @ [part]"
      using split_on_last_part [of "CHR ''/''" _ out] assms by (simp add: plain_name_def)
    then show ?thesis using 3 part start [of out "''/'' @ part"] by (simp add: path_push_def path_components_def head)
  qed
qed

lemma path_components_plain: "Normal p \<in> set (path_components s) \<Longrightarrow> plain_name p"
  using split_on_pieces [of _ "CHR ''/''" s]
  by (auto simp: path_components_def component_of_def plain_name_def Let_def split: if_splits)

lemma join_components_inside:
  assumes "\<And>p. Normal p \<in> set cs \<Longrightarrow> plain_name p"
  shows "(join_components out cs = None \<longleftrightarrow> RootDir \<in> set cs \<or> ParentDir \<in> set cs)
    \<and> (\<forall>p. join_components out cs = Some p \<longrightarrow> (\<exists>ps. list_all plain_name ps \<and> path_components p = path_components out @ map Normal ps))"
  using assms
proof (induction out cs rule: join_components.induct)
  case (2 out part cs)
  then have IH: "(join_components (path_push out part) cs = None \<longleftrightarrow> RootDir \<in> set cs \<or> ParentDir \<in> set cs)"
    "\<And>p. join_components (path_push out part) cs = Some p \<Longrightarrow>
      \<exists>ps. list_all plain_name ps \<and> path_components p = path_components (path_push out part) @ map Normal ps" by auto
  have part: "plain_name part" using 2 by simp
  have "\<exists>ps. list_all plain_name ps \<and> path_components p = path_components out @ map Normal ps"
    if "join_components (path_push out part) cs = Some p" for p
  proof -
    from IH(2) [OF that] obtain ps where "list_all plain_name ps" "path_components p = path_components (path_push out part) @ map Normal ps" by blast
    then show ?thesis using part path_components_push [OF part] by (intro exI [of _ "part # ps"]) simp
  qed
  with IH(1) show ?case by simp
qed (auto intro: exI [of _ "[]"])

text \<open>
  C40. The files the interface serves lie in its directory: a path with a parent component is refused, and exactly such
  paths are; the file looked at for any other has the components of the directory followed by plain names.
\<close>

theorem clash_ui_confined:
  "(ui_file is_dir ui_dir relative = None \<longleftrightarrow> ParentDir \<in> set (path_components (trim_start_matches CHR ''/'' relative)))
   \<and> (\<forall>f. ui_file is_dir ui_dir relative = Some f \<longrightarrow>
        (\<exists>ps. list_all plain_name ps \<and> path_components f = path_components ui_dir @ map Normal ps))"
proof -
  let ?r = "trim_start_matches CHR ''/'' relative"
  have "?r = [] \<or> hd ?r \<noteq> CHR ''/''" using hd_dropWhile [of "\<lambda>x. x = CHR ''/''" relative] unfolding trim_start_matches_def by metis
  then have "\<not> starts_with ?r ''/''" by (cases "?r :: string") (auto simp: starts_with_def)
  then have "RootDir \<notin> set (path_components ?r)" by (auto simp: path_components_def component_of_def Let_def split: if_splits)
  moreover have "(join_components ui_dir (path_components ?r) = None \<longleftrightarrow> RootDir \<in> set (path_components ?r) \<or> ParentDir \<in> set (path_components ?r))
    \<and> (\<forall>p. join_components ui_dir (path_components ?r) = Some p \<longrightarrow> (\<exists>ps. list_all plain_name ps \<and> path_components p = path_components ui_dir @ map Normal ps))"
    by (rule join_components_inside) (rule path_components_plain)
  ultimately have inside: "(safe_join ui_dir ?r = None \<longleftrightarrow> ParentDir \<in> set (path_components ?r))"
    "\<And>p. safe_join ui_dir ?r = Some p \<Longrightarrow> \<exists>ps. list_all plain_name ps \<and> path_components p = path_components ui_dir @ map Normal ps"
    unfolding safe_join_def by blast+
  have index: "plain_name ''index.html''" by (simp add: plain_name_def)
  have "\<exists>ps. list_all plain_name ps \<and> path_components f = path_components ui_dir @ map Normal ps" if f: "ui_file is_dir ui_dir relative = Some f" for f
  proof -
    from f obtain p where p: "safe_join ui_dir ?r = Some p" "f = (if is_dir p then path_push p ''index.html'' else p)"
      by (auto simp: ui_file_def)
    from inside(2) [OF p(1)] obtain ps where "list_all plain_name ps" "path_components p = path_components ui_dir @ map Normal ps" by blast
    then show ?thesis using p(2) index path_components_push [OF index, of p]
      by (intro exI [of _ "if is_dir p then ps @ [''index.html''] else ps"]) auto
  qed
  with inside(1) show ?thesis by (simp add: ui_file_def)
qed

section \<open>Authorization\<close>

text \<open>
  With a secret, a request that is not a preflight and is not refused carries the secret, in its authorization header or, for
  a WebSocket, in its query.
\<close>

lemma clash_authorized:
  assumes "secret \<noteq> []" "rq_method req \<noteq> ''OPTIONS''" "handle_request secret req \<noteq> Some (Respond unauthorized)"
  shows "rq_header ''authorization'' req = Some (''Bearer '' @ secret)
    \<or> is_websocket req \<and> ''token='' @ secret \<in> set (split_on CHR ''&'' (snd (request_split (rq_path req))))"
proof -
  have "token_ok secret req"
  proof (rule ccontr)
    assume "\<not> token_ok secret req"
    with assms(1,2) have "handle_request secret req = Some (Respond unauthorized)" by (simp add: handle_request_def split_def)
    with assms(3) show False by simp
  qed
  moreover have strip: "strip_prefix pre s = Some r \<longleftrightarrow> s = pre @ r" for pre s r
    unfolding strip_prefix_def starts_with_def by (auto, metis append_take_drop_id)
  ultimately show ?thesis by (auto simp: token_ok_def list_ex_iff strip split: if_splits option.splits)
qed

section \<open>Requests are read\<close>

text \<open>The end of the header: it does not depend on what follows, and is found as soon as it has arrived.\<close>

lemma find4_append: "find4 pat a i = Some j \<Longrightarrow> find4 pat (a @ b) i = Some j"
proof (induction pat a i rule: find4.induct)
  case (2 pat c bs i)
  then have l: "length pat \<le> length (c # bs)" by (auto split: if_splits)
  then have "take (length pat) ((c # bs) @ b) = take (length pat) (c # bs)" by (simp only: take_append) simp
  with 2 l show ?case by (auto split: if_splits)
qed simp

lemma find4_bound: "find4 pat a i = Some j \<Longrightarrow> j + length pat \<le> i + length a"
  by (induction pat a i rule: find4.induct) (fastforce split: if_splits)+

lemma find4_skip: "13 \<notin> set l \<Longrightarrow> 4 \<le> length r \<Longrightarrow> find4 [13, 10, 13, 10] (l @ r) i = find4 [13, 10, 13, 10] r (i + length l)"
  by (induction l arbitrary: i) auto

definition line_ok :: "string \<Rightarrow> bool" where
  "line_ok l \<longleftrightarrow> l \<noteq> [] \<and> (\<forall>c \<in> set l. 32 \<le> code c \<and> code c < 127)"

lemma line_ok_bytes: "line_ok l \<Longrightarrow> 13 \<notin> set (as_bytes l)"
proof
  assume l: "line_ok l" and "13 \<in> set (as_bytes l)"
  then obtain c where c: "c \<in> set l" "word_of_nat (code c) = (13 :: u8)" by (auto simp: as_bytes_def)
  have "code c = unat (word_of_nat (code c) :: u8)" by (simp add: unat_u8_of_nat)
  with c l show False by (auto simp: line_ok_def)
qed

lemma code_crlf [simp]: "as_bytes crlf = [13, 10]"
  by (simp add: crlf_def as_bytes_def code_def)

definition crlf_lines :: "string list \<Rightarrow> string" where
  "crlf_lines ls = concat (map (\<lambda>l. l @ crlf) ls)"

lemma crlf_lines_Cons: "crlf_lines (l # ls) = l @ crlf @ crlf_lines ls"
  by (simp add: crlf_lines_def)

lemma find_lines:
  assumes "ls \<noteq> []" "list_all line_ok ls"
  shows "find4 [13, 10, 13, 10] (as_bytes (crlf_lines ls) @ 13 # 10 # x) i = Some (i + length (crlf_lines ls) - 2)"
  using assms
proof (induction ls arbitrary: i)
  case (Cons l ls)
  have l: "13 \<notin> set (as_bytes l)" using Cons.prems line_ok_bytes by simp
  have len: "length crlf = 2" by (simp add: crlf_def)
  show ?case
  proof (cases ls)
    case Nil
    with l show ?thesis by (simp add: crlf_lines_def as_bytes_append find4_skip len)
  next
    case more: (Cons l' ls')
    then obtain c cs where c: "as_bytes l' = c # cs" "c \<noteq> 13" using Cons.prems line_ok_bytes [of l']
      by (cases "as_bytes l'") (auto simp: line_ok_def as_bytes_def)
    let ?r = "as_bytes (crlf_lines ls) @ 13 # 10 # x"
    obtain r' where r: "?r = c # r'" "2 \<le> length r'" using c(1) by (simp add: more crlf_lines_Cons as_bytes_append)
    have "find4 [13, 10, 13, 10] (13 # 10 # ?r) j = find4 [13, 10, 13, 10] ?r (j + 2)" for j
      unfolding r(1) using r(2) c(2) by simp
    moreover have "find4 [13, 10, 13, 10] (as_bytes (crlf_lines (l # ls)) @ 13 # 10 # x) i = find4 [13, 10, 13, 10] (13 # 10 # ?r) (i + length l)"
      using find4_skip [OF l, of "13 # 10 # ?r" i] by (simp add: crlf_lines_Cons as_bytes_append)
    moreover have "find4 [13, 10, 13, 10] ?r j = Some (j + length (crlf_lines ls) - 2)" for j using Cons.IH Cons.prems more by simp
    moreover have "2 \<le> length (crlf_lines ls)" by (simp add: more crlf_lines_Cons len)
    ultimately show ?thesis by (simp add: crlf_lines_Cons len)
  qed
qed simp

text \<open>The loops read on until the end of the header and of the body have arrived.\<close>

lemma seg_read_prefix:
  assumes "segs_ok segs" "seg_read 4096 segs = (chunk, segs')"
  shows "chunk @ concat segs' = concat segs" "segs_ok segs'" "chunk = [] \<Longrightarrow> concat segs = []" "length chunk \<le> 4096"
  using seg_read_next [OF assms(1) _ assms(2)] by auto

lemma longer_prefix: "a @ b = h @ r \<Longrightarrow> length h \<le> length a \<Longrightarrow> \<exists>m. a = h @ m \<and> m @ b = r"
  unfolding append_eq_append_conv2 by auto

lemma read_head_loop_finds:
  assumes "segs_ok segs" "buf @ concat segs = hd_bytes @ rest" "find_header_end hd_bytes = Some pos" "length hd_bytes = pos + 4"
    and "length buf < length hd_bytes" "length hd_bytes \<le> 64 * 1024"
  shows "\<exists>more segs'. read_head_loop segs buf = Inr (pos, hd_bytes @ more, segs') \<and> more @ concat segs' = rest \<and> segs_ok segs' \<and> length more \<le> 4096"
  using assms
proof (induction segs buf rule: read_head_loop.induct)
  case (1 segs buf)
  obtain chunk segs' where c: "seg_read 4096 segs = (chunk, segs')" by (cases "seg_read 4096 segs")
  note sp = seg_read_prefix [OF "1.prems"(1) c]
  have ne: "chunk \<noteq> []"
  proof
    assume "chunk = []"
    with sp(3) "1.prems"(2) have "length buf = length hd_bytes + length rest" by (metis append.right_neutral length_append)
    with "1.prems"(5) show False by simp
  qed
  have all: "(buf @ chunk) @ concat segs' = hd_bytes @ rest" using sp(1) "1.prems"(2) by simp
  show ?case
  proof (cases "length (buf @ chunk) < length hd_bytes")
    case True
    then obtain ys where ys: "hd_bytes = (buf @ chunk) @ ys" "ys \<noteq> []"
      using longer_prefix [OF all [symmetric]] by fastforce
    have "find_header_end (buf @ chunk) = None"
    proof (rule ccontr)
      assume "find_header_end (buf @ chunk) \<noteq> None"
      then obtain j where j: "find_header_end (buf @ chunk) = Some j" by auto
      then have "find_header_end hd_bytes = Some j" unfolding ys(1) find_header_end_def by (rule find4_append)
      with j "1.prems"(3,4) find4_bound [of "[13, 10, 13, 10]" "buf @ chunk" 0 j] True show False by (simp add: find_header_end_def)
    qed
    moreover have "length (buf @ chunk) \<le> 64 * 1024" using True "1.prems"(6) by simp
    ultimately show ?thesis
      using "1.IH" [OF c [symmetric] ne _ _ sp(2) all "1.prems"(3,4) True "1.prems"(6)] ne c
      by (simp add: read_head_loop.simps [of segs buf])
  next
    case False
    then obtain more where more: "buf @ chunk = hd_bytes @ more" "more @ concat segs' = rest"
      using longer_prefix [OF all] by fastforce
    have "find_header_end (buf @ chunk) = Some pos" using "1.prems"(3) unfolding more(1) find_header_end_def by (rule find4_append)
    moreover have "length more \<le> 4096" using arg_cong [OF more(1), of length] sp(4) "1.prems"(5) by simp
    ultimately show ?thesis using more ne c sp(2) by (simp add: read_head_loop.simps [of segs buf])
  qed
qed

lemma read_body_loop_finds:
  assumes "segs_ok segs" "buf @ concat segs = wanted_bytes @ rest" "length wanted_bytes + 4096 \<le> 2 * 1024 * 1024"
  shows "\<exists>more segs'. read_body_loop (length wanted_bytes) segs buf = Inr (wanted_bytes @ more, segs')"
  using assms
proof (induction "length wanted_bytes" segs buf rule: read_body_loop.induct)
  case (1 segs buf)
  show ?case
  proof (cases "length buf < length wanted_bytes")
    case False
    then obtain more where "buf = wanted_bytes @ more" using longer_prefix [OF "1.prems"(2)] by fastforce
    then show ?thesis by (simp add: read_body_loop.simps)
  next
    case True
    obtain chunk segs' where c: "seg_read 4096 segs = (chunk, segs')" by (cases "seg_read 4096 segs")
    note sp = seg_read_prefix [OF "1.prems"(1) c]
    have ne: "chunk \<noteq> []"
    proof
      assume "chunk = []"
      with sp(3) "1.prems"(2) have "length buf = length wanted_bytes + length rest" by (metis append.right_neutral length_append)
      with True show False by simp
    qed
    have all: "(buf @ chunk) @ concat segs' = wanted_bytes @ rest" using sp(1) "1.prems"(2) by simp
    have small: "length (buf @ chunk) \<le> 2 * 1024 * 1024" using True sp(4) "1.prems"(3) by simp
    from "1.hyps" [OF True c [symmetric] ne small sp(2) all "1.prems"(3)] show ?thesis
      using True ne small by (simp add: read_body_loop.simps [of "length wanted_bytes" segs buf] c)
  qed
qed

text \<open>A request as a client writes it.\<close>

definition field_ok :: "string \<times> string \<Rightarrow> bool" where
  "field_ok f \<longleftrightarrow> fst f \<noteq> [] \<and> (\<forall>c \<in> set (fst f). graphic c \<and> c \<noteq> CHR '':'')
     \<and> snd f \<noteq> [] \<and> (\<forall>c \<in> set (snd f). 32 \<le> code c \<and> code c < 127) \<and> graphic (hd (snd f)) \<and> graphic (last (snd f))"

definition word_ok :: "string \<Rightarrow> bool" where
  "word_ok w \<longleftrightarrow> w \<noteq> [] \<and> (\<forall>c \<in> set w. graphic c)"

definition request_lines :: "string \<Rightarrow> string \<Rightarrow> (string \<times> string) list \<Rightarrow> string list" where
  "request_lines meth path hs = (meth @ '' '' @ path @ '' HTTP/1.1'') # map (\<lambda>(k, v). k @ '': '' @ v) hs"

definition request_head :: "string \<Rightarrow> string \<Rightarrow> (string \<times> string) list \<Rightarrow> bytes" where
  "request_head meth path hs = as_bytes (crlf_lines (request_lines meth path hs) @ crlf)"

definition lower_names :: "(string \<times> string) list \<Rightarrow> (string \<times> string) list" where
  "lower_names hs = map (\<lambda>(k, v). (to_ascii_lowercase k, v)) hs"

lemma split_crlf_none: "CHR 0x0D \<notin> set l \<Longrightarrow> split_crlf l = [l]"
  by (induction l rule: split_crlf.induct) auto

lemma split_crlf_line: "CHR 0x0D \<notin> set l \<Longrightarrow> split_crlf (l @ crlf @ rest) = l # split_crlf rest"
proof (induction l)
  case (Cons c l)
  then show ?case by (cases l) (auto simp: crlf_def)
qed (simp add: crlf_def)

lemma line_ok_chars: "line_ok l \<Longrightarrow> CHR 0x0D \<notin> set l \<and> ascii l"
  by (auto simp: line_ok_def ascii_def code_def)

lemma crlf_lines_join: "ls \<noteq> [] \<Longrightarrow> crlf_lines ls = join crlf ls @ crlf"
proof (induction ls)
  case (Cons l ls)
  then show ?case by (cases ls) (auto simp: crlf_lines_def)
qed simp

lemma split_crlf_join: "ls \<noteq> [] \<Longrightarrow> list_all line_ok ls \<Longrightarrow> split_crlf (join crlf ls) = ls"
proof (induction ls)
  case (Cons l ls)
  then show ?case using line_ok_chars [of l] by (cases ls) (auto simp: split_crlf_none split_crlf_line)
qed simp

lemma ascii_join: "list_all line_ok ls \<Longrightarrow> ascii (join crlf ls)"
proof (induction ls)
  case (Cons l ls)
  then show ?case using line_ok_chars [of l] by (cases ls) (auto simp: ascii_def crlf_def code_def)
qed (simp add: ascii_def)

lemma split_ws_graphic_word: "\<forall>c \<in> set w. graphic c \<Longrightarrow> split_ws (w @ r) cur = split_ws r (rev w @ cur)"
  by (induction w arbitrary: cur) (auto simp: ws_len_graphic)

lemma split_ws_space: "split_ws (CHR '' '' # r) cur = (if cur = [] then [] else [rev cur]) @ split_ws r []"
proof -
  have "ws_len (CHR '' '' # r) = 1" by (cases r rule: ws_len.cases) (auto simp: ws1_def code_def split: list.splits)
  then show ?thesis by simp
qed

lemma request_line_words:
  assumes "word_ok meth" "word_ok path"
  shows "split_whitespace (meth @ '' '' @ path @ '' HTTP/1.1'') = [meth, path, ''HTTP/1.1'']"
proof -
  have "split_ws ''HTTP/1.1'' [] = [''HTTP/1.1'']" by code_simp
  with assms show ?thesis by (simp add: split_whitespace_def word_ok_def split_ws_graphic_word split_ws_space del: split_ws.simps)
qed

lemma parse_headers_fields: "list_all field_ok hs \<Longrightarrow> parse_headers (map (\<lambda>(k, v). k @ '': '' @ v) hs) = lower_names hs"
proof (induction hs)
  case (Cons f hs)
  obtain k v where f: "f = (k, v)" by (cases f)
  with Cons.prems have kv: "CHR '':'' \<notin> set k" "k \<noteq> []" "graphic (hd k)" "graphic (last k)" "v \<noteq> []" "graphic (hd v)" "graphic (last v)"
    by (auto simp: field_ok_def)
  then have "CHR '':'' \<notin> set k" "trim k = k" "trim (CHR '' '' # v) = v" by (simp_all add: trim_graphic trim_space_graphic)
  moreover from this(1) have "split_once CHR '':'' (k @ '': '' @ v) = Some (k, CHR '' '' # v)" using split_once_append [of "CHR '':''" k "CHR '' '' # v"] by simp
  ultimately show ?case using Cons f by (simp add: parse_headers_def lower_names_def map_filter_simps)
qed (simp add: parse_headers_def lower_names_def map_filter_simps)

lemma graphic_range: "graphic c \<Longrightarrow> 32 \<le> code c \<and> code c < 127"
  by (simp add: graphic_def)

lemma request_lines_ok:
  assumes "word_ok meth" "word_ok path" "list_all field_ok hs"
  shows "list_all line_ok (request_lines meth path hs)"
proof -
  have "line_ok (k @ '': '' @ v)" if "field_ok (k, v)" for k v
    using that graphic_range by (fastforce simp: field_ok_def line_ok_def code_def)
  moreover have "line_ok (meth @ '' '' @ path @ '' HTTP/1.1'')"
    using assms(1,2) graphic_range by (fastforce simp: word_ok_def line_ok_def code_def)
  ultimately show ?thesis using assms(3) by (auto simp: request_lines_def list_all_iff)
qed

text \<open>What is left of reading a request when its header has arrived.\<close>

lemma read_request_head:
  assumes "word_ok meth" "word_ok path" "list_all field_ok hs" "length (request_head meth path hs) \<le> 64 * 1024"
    and "segs_ok segs" "concat segs = request_head meth path hs @ rest"
    and "map_of (rev (lower_names hs)) ''content-length'' = Some v" "parse_uint (2 ^ 64 - 1) v = Some n"
  shows "\<exists>more segs'. more @ concat segs' = rest \<and> segs_ok segs' \<and> length more \<le> 4096
    \<and> read_request segs =
        (let stop = (length (request_head meth path hs) + n) mod 2 ^ 64 in
         case read_body_loop stop segs' (request_head meth path hs @ more) of
           Inl e \<Rightarrow> Some (Inl e)
         | Inr (buf, segs) \<Rightarrow> map_option (\<lambda>body. Inr (\<lparr>rq_method = meth, rq_path = path, rq_headers = lower_names hs, rq_body = body\<rparr>, segs))
             (slice buf (length (request_head meth path hs)) stop))"
proof -
  let ?ls = "request_lines meth path hs" and ?h = "request_head meth path hs"
  have ls: "?ls \<noteq> []" "list_all line_ok ?ls" using request_lines_ok [OF assms(1-3)] by (simp_all add: request_lines_def)
  let ?pos = "length (join crlf ?ls)"
  have h: "?h = as_bytes (join crlf ?ls) @ [13, 10, 13, 10]" by (simp add: request_head_def crlf_lines_join [OF ls(1)] as_bytes_append)
  have "find_header_end ?h = Some ?pos"
    using find_lines [OF ls, of "[]" 0] by (simp add: find_header_end_def request_head_def as_bytes_append crlf_lines_join [OF ls(1)]) (simp add: crlf_def)
  from read_head_loop_finds [of segs "[]" ?h rest, OF assms(5) _ this] assms(4,6) h
  obtain more segs' where m: "read_head_loop segs [] = Inr (?pos, ?h @ more, segs')" "more @ concat segs' = rest" "segs_ok segs'" "length more \<le> 4096"
    by auto
  have t: "from_utf8 (take ?pos (?h @ more)) = Some (join crlf ?ls)"
    using ascii_join [OF ls(2)] by (simp add: h from_utf8_as_bytes str_ok_ascii)
  have len: "length ?h = ?pos + 4" by (simp add: h)
  have first: "split_whitespace (hd ?ls) = [meth, path, ''HTTP/1.1'']" using request_line_words [OF assms(1,2)] by (simp add: request_lines_def)
  have fields: "parse_headers (tl ?ls) = lower_names hs" using parse_headers_fields [OF assms(3)] by (simp add: request_lines_def)
  show ?thesis
    using m(2-4) by (intro exI [of _ more] exI [of _ segs'])
      (simp add: read_request_def m(1) t split_crlf_join [OF ls] first fields assms(7) assms(8) [simplified] len Let_def
        del: take_append cong: sum.case_cong prod.case_cong)
qed

text \<open>
  C38. The interface reads a request as it was written, however the connection splits it: method, path, header fields and
  exactly the announced body, for a header of up to 64 KiB and a body of up to 1.9 MiB.
\<close>

theorem clash_request_read:
  assumes "word_ok meth" "word_ok path" "list_all field_ok hs" "length (request_head meth path hs) \<le> 64 * 1024"
    and "map_of (rev (lower_names hs)) ''content-length'' = Some (show_nat (length body))" "length body \<le> 2000000"
    and "segs_ok segs" "concat segs = request_head meth path hs @ body @ rest"
  shows "\<exists>segs'. read_request segs = Some (Inr (\<lparr>rq_method = meth, rq_path = path, rq_headers = lower_names hs, rq_body = body\<rparr>, segs'))"
proof -
  let ?h = "request_head meth path hs"
  have n: "parse_uint (2 ^ 64 - 1) (show_nat (length body)) = Some (length body)" using assms(6) by (intro parse_uint_show_nat) simp
  have stop: "(length ?h + length body) mod 2 ^ 64 = length (?h @ body)" using assms(4,6) by simp
  from read_request_head [OF assms(1-4,7,8,5) n] obtain more segs' where m: "more @ concat segs' = body @ rest" "segs_ok segs'"
    and r: "read_request segs = (case read_body_loop (length (?h @ body)) segs' (?h @ more) of
        Inl e \<Rightarrow> Some (Inl e)
      | Inr (buf, segs) \<Rightarrow> map_option (\<lambda>body. Inr (\<lparr>rq_method = meth, rq_path = path, rq_headers = lower_names hs, rq_body = body\<rparr>, segs))
          (slice buf (length ?h) (length (?h @ body))))"
    unfolding stop Let_def by blast
  have "(?h @ more) @ concat segs' = (?h @ body) @ rest" using m(1) by simp
  from read_body_loop_finds [OF m(2) this] assms(4,6) obtain more' segs'' where
    "read_body_loop (length (?h @ body)) segs' (?h @ more) = Inr ((?h @ body) @ more', segs'')" by auto
  moreover have "slice ((?h @ body) @ more') (length ?h) (length (?h @ body)) = Some body" by (simp add: slice_def)
  ultimately show ?thesis unfolding r by simp
qed

text \<open>
  C39. A request that announces a body whose end is past \<open>2 ^ 64\<close> makes the reader panic, before any secret is checked: the
  end wraps to a place before the start of the body.
\<close>

theorem clash_request_aborts:
  assumes "word_ok meth" "word_ok path" "list_all field_ok hs" "length (request_head meth path hs) \<le> 64 * 1024"
    and "map_of (rev (lower_names hs)) ''content-length'' = Some (show_nat n)"
    and "n < 2 ^ 64" "2 ^ 64 \<le> length (request_head meth path hs) + n"
    and "segs_ok segs" "concat segs = request_head meth path hs @ rest"
  shows "read_request segs = None"
proof -
  let ?h = "request_head meth path hs"
  have n: "parse_uint (2 ^ 64 - 1) (show_nat n) = Some n" using assms(6) by (intro parse_uint_show_nat) simp
  define stop where "stop = (length ?h + n) mod 2 ^ 64"
  have "stop = length ?h + n - 2 ^ 64" unfolding stop_def using assms(4,6,7) by (simp add: mod_if le_mod_geq)
  then have stop: "stop < length ?h" using assms(6,7) by linarith
  from read_request_head [OF assms(1-4,8,9,5) n] obtain more segs' where
    r: "read_request segs = (case read_body_loop stop segs' (?h @ more) of
        Inl e \<Rightarrow> Some (Inl e)
      | Inr (buf, segs) \<Rightarrow> map_option (\<lambda>body. Inr (\<lparr>rq_method = meth, rq_path = path, rq_headers = lower_names hs, rq_body = body\<rparr>, segs))
          (slice buf (length ?h) stop))"
    unfolding stop_def Let_def by blast
  have "read_body_loop stop segs' (?h @ more) = Inr (?h @ more, segs')" using stop by (simp add: read_body_loop.simps)
  then show ?thesis using stop unfolding r by (simp add: slice_def)
qed

section \<open>Escapes and frames are read back\<close>

lemma to_digit_hex [simp]: "d < 16 \<Longrightarrow> to_digit 16 (hex_digit d) = Some d"
  by (simp add: to_digit_def hex_digit_def code_char_of Let_def)

lemma hex_digit_ascii: "d < 16 \<Longrightarrow> code (hex_digit d) < 128 \<and> hex_digit d \<noteq> CHR ''+''"
  by (auto simp: hex_digit_def code_char_of dest!: arg_cong [where f = code]) (simp_all add: code_def)

lemma u8_from_hex02: "u8_from_hex (hex02 b) = Some b"
proof -
  have b: "unat b div 16 < 16" "unat b mod 16 < 16" using unsigned_less [of b, where 'a = nat] by (simp_all add: less_mult_imp_div_less)
  with hex_digit_ascii show ?thesis by (simp add: u8_from_hex_def hex02_def)
qed

lemma hex02_ascii: "c \<in> set (hex02 b) \<Longrightarrow> code c < 128"
proof -
  have "unat b div 16 < 16" "unat b mod 16 < 16" using unsigned_less [of b, where 'a = nat] by (simp_all add: less_mult_imp_div_less)
  with hex_digit_ascii show "c \<in> set (hex02 b) \<Longrightarrow> code c < 128" by (auto simp: hex02_def)
qed

definition percent_encode :: "(char \<Rightarrow> bool) \<Rightarrow> string \<Rightarrow> string" where
  "percent_encode esc s = concat (map (\<lambda>c. if esc c then CHR ''%'' # hex02 (word_of_nat (code c)) else [c]) s)"

text \<open>
  A name escaped by any rule that escapes percent signs and bytes above 127 is decoded to the name; the decoder does not
  panic on it.
\<close>

lemma percent_decode_encode:
  assumes "\<And>c. c = CHR ''%'' \<or> 128 \<le> code c \<Longrightarrow> esc c" "str_ok s"
  shows "percent_decode (percent_encode esc s) = Some s"
proof -
  have ascii: "code c < 128" if "c \<in> set (percent_encode esc s)" for c s
  proof -
    from that obtain x where x: "c \<in> set (if esc x then CHR ''%'' # hex02 (word_of_nat (code x)) else [x])" unfolding percent_encode_def set_concat set_map by blast
    show ?thesis
    proof (cases "esc x")
      case True
      with x show ?thesis using hex02_ascii by (auto simp: code_def)
    next
      case False
      with x show ?thesis using assms(1) [of x] by (auto simp: not_le [symmetric])
    qed
  qed
  have "percent_bytes (percent_encode esc s) = Some (as_bytes s)" for s
  proof (induction s)
    case (Cons c s)
    let ?r = "percent_encode esc s"
    show ?case
    proof (cases "esc c")
      case True
      obtain h1 h2 where h: "hex02 (word_of_nat (code c)) = [h1, h2]" by (simp add: hex02_def)
      then have e: "percent_encode esc (c # s) = CHR ''%'' # h1 # h2 # ?r" using True by (simp add: percent_encode_def)
      have "boundary_byte h1" "?r \<noteq> [] \<Longrightarrow> boundary_byte (hd ?r)"
        using ascii [of h1 "c # s"] ascii [of "hd ?r" s] by (auto simp: e boundary_byte_def)
      then show ?thesis using Cons u8_from_hex02 [of "word_of_nat (code c)"] unfolding e h
        by (cases ?r) (auto simp: as_bytes_def)
    next
      case False
      then have "c \<noteq> CHR ''%''" using assms(1) by blast
      with False Cons show ?thesis by (simp add: percent_encode_def as_bytes_def)
    qed
  qed (simp add: percent_encode_def as_bytes_def)
  with assms(2) show ?thesis by (simp add: percent_decode_def from_utf8_lossy_as_bytes)
qed

text \<open>Observations: an escape cut by a character of several bytes is a panic, and a plus sign counts as a digit.\<close>

lemma percent_decode_panics: "percent_decode (''%a'' @ of_bytes [0xC3, 0xA9]) = None" "str_ok (''%a'' @ of_bytes [0xC3, 0xA9])"
  by code_simp+

lemma percent_decode_plus: "percent_decode ''%+f'' = Some (of_bytes [15])"
  by code_simp

text \<open>The reader of an unmasked text frame, as the protocol describes it.\<close>

definition spec_read_frame :: "bytes proc" where
  "spec_read_frame = Read 2 (\<lambda>h. ensure (h ! 0 = 0x81) ''opcode''
     (if h ! 1 \<le> 125 then Read (unat (h ! 1)) Ret
      else if h ! 1 = 126 then read_u16 (\<lambda>n. Read (unat n) Ret)
      else Read 8 (\<lambda>bs. Read (be_value bs) Ret)))"

lemma ws_frame_read:
  assumes "length data < 2 ^ 63"
  shows "run spec_read_frame (ws_frame data @ rest) = (Inr data, [], rest)"
proof -
  consider "length data \<le> 125" | "125 < length data" "length data \<le> 65535" | "65535 < length data" by linarith
  then show ?thesis
  proof cases
    case 1
    then have "ws_frame data = 0x81 # word_of_nat (length data) # data" by (simp add: ws_frame_def Let_def)
    with 1 show ?thesis by (simp add: spec_read_frame_def unat_u8_of_nat word_le_nat_alt)
  next
    case 2
    have "u16_of_be [word_of_nat (length data div 256), word_of_nat (length data mod 256)] = word_of_nat (length data)"
      using 2 by (simp add: u16_of_be_def be_value_def unat_u8_of_nat)
    moreover have "unat (word_of_nat (length data) :: u16) = length data" using 2 by (simp add: unsigned_of_nat take_bit_nat_eq_self)
    moreover have "ws_frame data = 0x81 # 126 # word_of_nat (length data div 256) # word_of_nat (length data mod 256) # data"
      using 2 by (simp add: ws_frame_def Let_def)
    ultimately show ?thesis by (simp add: spec_read_frame_def read_u16_def)
  next
    case 3
    then have "ws_frame data = 0x81 # 127 # be_bytes 8 (length data) @ data" using assms by (simp add: ws_frame_def Let_def)
    with assms show ?thesis by (simp add: spec_read_frame_def be_value_be_bytes)
  qed
qed

section \<open>Examples\<close>

lemma demo_head:
  "request_head ''PUT'' ''/proxies/a'' [(''Host'', ''h''), (''Content-Length'', v)]
     = as_bytes (''PUT /proxies/a HTTP/1.1'' @ crlf @ ''Host: h'' @ crlf @ ''Content-Length: '' @ v @ crlf @ crlf)"
  by (simp add: request_head_def request_lines_def crlf_lines_def)

lemma demo_fields:
  assumes "v = show_nat n"
  shows "list_all field_ok [(''Host'', ''h''), (''Content-Length'', v)]"
    "map_of (rev (lower_names [(''Host'', ''h''), (''Content-Length'', v)])) ''content-length'' = Some v"
proof -
  have "\<forall>c \<in> set v. graphic c" "v \<noteq> []" using show_nat_digits assms by auto
  then show "list_all field_ok [(''Host'', ''h''), (''Content-Length'', v)]"
    by (auto simp: field_ok_def graphic_def code_def)
  have "to_ascii_lowercase ''Content-Length'' = ''content-length''" by code_simp
  then show "map_of (rev (lower_names [(''Host'', ''h''), (''Content-Length'', v)])) ''content-length'' = Some v"
    by (simp add: lower_names_def)
qed

lemma demo_words: "word_ok ''PUT''" "word_ok ''/proxies/a''"
  by (simp_all add: word_ok_def graphic_def code_def)

theorem clash_dates_witness: "days_to_ymd 11016 = (2000, 2, 29)"
proof -
  have "valid_date 2000 2 29" by (simp add: valid_date_def month_days_def is_leap_def)
  moreover have "day_number 2000 2 29 = 11016"
    by (simp add: day_number_def month_days_def year_days_def is_leap_def sum.atLeast_Suc_lessThan)
  ultimately show ?thesis using clash_dates [of 2000 2 29 0] by simp
qed

theorem clash_ui_confined_witness:
  "ui_file (\<lambda>_. False) ''/ui'' ''/../etc'' = None
   \<and> (\<exists>ps. list_all plain_name ps \<and> path_components ''/ui/js/a.js'' = path_components ''/ui'' @ map Normal ps)"
proof -
  have f: "ui_file (\<lambda>_. False) ''/ui'' ''/./js//a.js'' = Some ''/ui/js/a.js''" by code_simp
  have "ParentDir \<in> set (path_components (trim_start_matches CHR ''/'' ''/../etc''))" by code_simp
  with clash_ui_confined [of "\<lambda>_. False" "''/ui''" "''/../etc''"] clash_ui_confined [of "\<lambda>_. False" "''/ui''" "''/./js//a.js''"] f
  show ?thesis by blast
qed

theorem clash_request_read_witness:
  "\<exists>segs'. read_request (map (\<lambda>b. [b]) (as_bytes (''PUT /proxies/a HTTP/1.1'' @ crlf @ ''Host: h'' @ crlf @ ''Content-Length: '' @ show_nat 2 @ crlf @ crlf) @ [123, 125]))
     = Some (Inr (\<lparr>rq_method = ''PUT'', rq_path = ''/proxies/a'', rq_headers = lower_names [(''Host'', ''h''), (''Content-Length'', show_nat 2)], rq_body = [123, 125]\<rparr>, segs'))"
proof -
  note d = demo_fields [of "show_nat 2" 2, OF refl]
  have len: "length (show_nat (Suc (Suc 0))) = 1" by (simp add: show_nat.simps)
  have c: "concat (map (\<lambda>b. [b]) xs) = xs" for xs :: bytes by (induction xs) auto
  have ok: "segs_ok (map (\<lambda>b. [b]) xs)" for xs :: bytes by (auto simp: segs_ok_def)
  show ?thesis
    by (rule clash_request_read [OF demo_words d(1) _ _ _ ok, where rest = "[]"])
      (use d(2) in \<open>simp_all add: demo_head c len crlf_def numeral_2_eq_2\<close>)
qed

theorem clash_request_aborts_witness:
  "read_request (map (\<lambda>b. [b]) (as_bytes (''PUT /proxies/a HTTP/1.1'' @ crlf @ ''Host: h'' @ crlf @ ''Content-Length: '' @ show_nat (2 ^ 64 - 1) @ crlf @ crlf))) = None"
proof -
  note d = demo_fields [of "show_nat (2 ^ 64 - 1)" "2 ^ 64 - 1", OF refl]
  have len: "length (show_nat (2 ^ 64 - 1)) \<le> 20"
    by (simp add: show_nat.simps)
  have c: "concat (map (\<lambda>b. [b]) xs) = xs" for xs :: bytes by (induction xs) auto
  have ok: "segs_ok (map (\<lambda>b. [b]) xs)" for xs :: bytes by (auto simp: segs_ok_def)
  show ?thesis
    by (rule clash_request_aborts [OF demo_words d(1) _ d(2) _ _ ok, where rest = "[]"])
      (use len in \<open>simp_all add: demo_head c crlf_def\<close>)
qed

end
