(* ===== verification/Spec2Isabelle.thy ===== *)
theory Spec2Isabelle
  imports Dispatcher_Correct Fakeip_Persist Dns_Resolver_Correct Tun_Correct Tun_Route Outbound_Group Socks_Outbound Vless Trojan Outbound_Mgr Shadowsocks Hysteria2 Vmess Clash_Http
begin

text \<open>
  Verification development of the proxy core (a Rust program under \<^verbatim>\<open>src/src\<close>). Paths below are relative to
  \<^verbatim>\<open>src/src\<close>.

  \<^bold>\<open>The program.\<close> Inbounds accept connections and datagrams (\<^verbatim>\<open>inbound/\<close>), the dispatcher decides what to do with each
  (\<^verbatim>\<open>app/dispatcher.rs\<close>): it may look at the first bytes (\<^verbatim>\<open>app/sniff.rs\<close>), restore the name behind a fake address, ask
  the router (\<^verbatim>\<open>router/mod.rs\<close>, over the rule sets of \<^verbatim>\<open>ruleset/\<close>) and the resolver (\<^verbatim>\<open>dns/\<close>), and hands the connection to
  an outbound (\<^verbatim>\<open>outbound/\<close>) of the registry (\<^verbatim>\<open>app/outbound_mgr.rs\<close>), possibly through groups whose nodes come from
  providers (\<^verbatim>\<open>provider/\<close>). The outbound opens a tunnel and the relay copies both directions. Statistics, the table of
  connections and the persistent cache are shared by all tasks.

  \<^bold>\<open>Conventions.\<close> Machine integers are words and wrap, as in a release build. A fallible function returns a sum whose left
  side is the error text; where an index out of range or another panic is possible the result is an option and None is the
  panic (the build aborts on a panic). Code that talks over a stream is a value of type \<^verbatim>\<open>proc\<close> (Stream_Io). Code of crates is
  a parameter: a record of functions with a predicate that states the laws the program relies on (for example
  \<^verbatim>\<open>ss_laws\<close>, \<^verbatim>\<open>vmess_laws\<close>: a sealed text opens with the same key, nonce and associated data), and each property with
  such a hypothesis has an example that satisfies it. Clocks, random values and iteration orders of hash maps are arguments.
  Concurrent tasks are transition systems whose steps are the atomic operations; the properties hold for every interleaving.

  \<^bold>\<open>Foundations.\<close>
  \<^item> Prelude: results, byte order, lists; the collections of simplification rules. Rust_Std: strings, UTF-8, splitting,
    numbers. Addr_Text: addresses as text. Byte_Access: indexing and slicing as partial operations.
  \<^item> Stream_Io: programs over a stream, their runs on an input and the interleavings of two ends, which all end alike; the
    interface \<^verbatim>\<open>stream_codec\<close> of a writer and a reader. Relay (\<^verbatim>\<open>outbound/mod.rs\<close>): the copies; the interface
    \<^verbatim>\<open>byte_source\<close> of a stream that is relayed completely, interpreted on every stream adapter below.

  \<^bold>\<open>Rule sets and routing.\<close>
  \<^item> Ruleset_Format, Suffix_Trie, Ip_Ranges, Port_BitSet, Ruleset_Compiler, Ruleset_Loader, Ruleset_Matcher: the files of
    \<^verbatim>\<open>ruleset/\<close>; Ruleset_Correct shows that a rule text that compiles is matched with the meaning of its rules, through
    serialization, loading and index construction. The trie, the ranges and the port set are used through the interfaces
    \<^verbatim>\<open>suffix_index\<close>, \<^verbatim>\<open>range_index\<close> and \<^verbatim>\<open>port_set\<close>.
  \<^item> Route_Config (\<^verbatim>\<open>config/route.rs\<close>, \<^verbatim>\<open>inbound/mod.rs\<close>), Router (\<^verbatim>\<open>router/mod.rs\<close>): compilation of rules and first-match
    search; Router_Correct: a compiled rule matches what the documentation says of the rule (with several kinds of target
    conditions it matches more, which \<^verbatim>\<open>compile_meaning\<close> states), the precomputed indices of the later searches agree with a
    search in the rules they keep, and the search settles.
  \<^item> Sniff, Quic_Crypto (\<^verbatim>\<open>app/sniff.rs\<close>): every detector on raw bytes, with the cryptography the file implements.
  \<^item> Stats (\<^verbatim>\<open>app/stats.rs\<close>), Conn_Tracker (\<^verbatim>\<open>app/clash_api.rs\<close>): counters and the table under all interleavings.
    The steps of Stats are the single atomic additions and loads, and a snapshot is taken while they go on.
  \<^item> Dispatcher, Dispatcher_Correct (\<^verbatim>\<open>app/dispatcher.rs\<close>): settling of connections and packets, UDP sessions.

  \<^bold>\<open>DNS.\<close>
  \<^item> Dns_Wire (messages), Fakeip, Fakeip_Pool (the fake addresses; the interface \<^verbatim>\<open>address_pool\<close> covers both families),
    Cache_File (\<^verbatim>\<open>experimental/cache_file.rs\<close>), Fakeip_Persist (the mapping of an
    IPv4 range survives a restart, after any number of earlier processes on the same file).
  \<^item> Dns_Servers (configuration and order of the servers), Dns_Upstream (queries to a server; an exchange
    over TLS or QUIC is a parameter that may panic), Dns_Cache (the cache and the
    sharing of queries), Dns_Resolver, Dns_Resolver_Correct (\<^verbatim>\<open>dns/mod.rs\<close>).

  \<^bold>\<open>TUN\<close> (\<^verbatim>\<open>inbound/tun.rs\<close>).
  \<^item> Tun_Checksum, Tun_Nat, Tun_Packet, Tun_Correct: a TCP connection through the device is transparent, replies to datagrams
    reach the client, no packet causes a panic. Checksums are judged by the verification of RFC 1071 over the pseudo headers,
    written down apart from the code's functions. Tun_Route: the commands of automatic routing on Linux.

  \<^bold>\<open>Configuration, registry, providers.\<close>
  \<^item> Config_Types, Config_Check (\<^verbatim>\<open>config/\<close>): the types and the validation, which accepts every well-formed configuration
    and, as far as UUID texts hold only hexadecimal digits and dashes, no other. Provider (\<^verbatim>\<open>provider/\<close>): subscriptions, unique names under interleaved updates, health checks.
  \<^item> Outbound_Group (\<^verbatim>\<open>outbound/group.rs\<close>), Outbound_Mgr (\<^verbatim>\<open>app/outbound_mgr.rs\<close>): selection, tests, dialling through groups.
  \<^item> Clash_Http (\<^verbatim>\<open>app/clash_api.rs\<close>): the HTTP and WebSocket layer of the control interface.

  \<^bold>\<open>Protocols.\<close> Socks, Socks_Outbound (mixed inbound, SOCKS outbound), Vless, Trojan, Shadowsocks, Vmess, and Hysteria2 with
  Hy2_Wire and Hy2_Huffman: headers, handshakes, stream adapters and datagrams of the outbound and, where there is one, of
  the inbound. The properties say that the far end of the protocol reads what was sent, for every interleaving or every
  splitting of the bytes; where the two ends of this program do not fit, the lemmas under Observations say so.

  \<^bold>\<open>Loops.\<close> A loop with a measure is a \<^verbatim>\<open>function\<close> with its termination proof. A loop that may run forever is a
  \<^verbatim>\<open>partial_function\<close> in the option type, and the properties about it prove that it returns. The few fuel arguments are
  lengths of the input, with a lemma that they are enough.

  \<^bold>\<open>Not modelled.\<close> Creation of devices, sockets and their options, TLS, REALITY, WebSocket and QUIC handshakes, HTTP/2 and
  XHTTP (all in crates or the system), TUIC (streams of the QUIC crate), the redirect and transparent proxy inbounds (system
  calls), decoding of JSON and YAML (serde; it is a parameter), the handlers of the control interface that print states as
  JSON, logging, and the start of the program. Timers appear as arguments or as steps that may happen at any time.
\<close>

end
